(* ===== verification/Prelude.thy ===== *)
theory Prelude
  imports Main "HOL-Library.Word" "HOL-Library.Monad_Syntax"
begin

text \<open>
  Shared ground of the development: 32-bit unsigned arithmetic (\<open>u_long32\<close> of
  \<^verbatim>\<open>source/common/basis_types.h\<close>) on \<open>nat\<close> with the wrap-around written out, a fold in
  the option monad, and the collections of facts the component proofs simplify with.

  Throughout, a result of type \<open>'a option\<close> is the outcome of running the C code:
  \<open>None\<close> means that it does not return (an endless loop, or a division by zero that
  raises \<^verbatim>\<open>SIGFPE\<close>), \<open>Some x\<close> that it returns with \<open>x\<close>.
\<close>

named_theorems u32_arith "u32 operations where nothing wraps"
named_theorems opt_run "runs of the option monad that return"

section \<open>Unsigned 32-bit arithmetic\<close>

type_synonym u32 = nat

abbreviation u32_limit :: nat where
  "u32_limit \<equiv> 4294967296"

definition u32_add :: "u32 \<Rightarrow> u32 \<Rightarrow> u32" where
  "u32_add a b = (a + b) mod u32_limit"

definition u32_sub :: "u32 \<Rightarrow> u32 \<Rightarrow> u32" where
  "u32_sub a b = (a + (u32_limit - b)) mod u32_limit"

definition u32_mul :: "u32 \<Rightarrow> u32 \<Rightarrow> u32" where
  "u32_mul a b = (a * b) mod u32_limit"

lemma u32_add_exact [u32_arith]: "a + b < u32_limit \<Longrightarrow> u32_add a b = a + b"
  by (simp add: u32_add_def)

lemma u32_sub_exact [u32_arith]: "b \<le> a \<Longrightarrow> a < u32_limit \<Longrightarrow> u32_sub a b = a - b"
proof -
  assume "b \<le> a" and "a < u32_limit"
  then have "u32_sub a b = ((a - b) + u32_limit) mod u32_limit"
    by (simp add: u32_sub_def)
  also have "\<dots> = a - b"
    using \<open>a < u32_limit\<close> by (simp only: mod_add_self2) simp
  finally show ?thesis .
qed

lemma u32_mul_exact [u32_arith]: "a * b < u32_limit \<Longrightarrow> u32_mul a b = a * b"
  by (simp add: u32_mul_def)

lemma u32_add_less [simp]: "u32_add a b < u32_limit"
  by (simp add: u32_add_def)

lemma u32_sub_less [simp]: "u32_sub a b < u32_limit"
  by (simp add: u32_sub_def)

lemma u32_add_wrapped:
  "a < u32_limit \<Longrightarrow> b < u32_limit \<Longrightarrow> u32_limit \<le> a + b \<Longrightarrow> u32_add a b = a + b - u32_limit"
  by (simp add: u32_add_def mod_if)

lemma u32_sub_wrapped:
  "a < b \<Longrightarrow> b < u32_limit \<Longrightarrow> u32_sub a b = a + u32_limit - b"
  by (simp add: u32_sub_def)

text \<open>
  The two comparisons below are how the range code tests whether an id is the next one
  after, or the one just before, a range: a wrapped sum can never be the tested value.
\<close>

lemma u32_add_eq_above:
  assumes "a < u32_limit" "b < u32_limit" "a \<le> c" "c < u32_limit" "0 < b"
  shows "u32_add a b = c \<longleftrightarrow> a + b = c"
  using assms by (cases "a + b < u32_limit") (auto simp: u32_add_exact u32_add_wrapped)

lemma u32_sub_eq_below:
  assumes "a < u32_limit" "b < u32_limit" "c \<le> a" "0 < b"
  shows "u32_sub a b = c \<longleftrightarrow> b \<le> a \<and> a - b = c"
  using assms by (cases "b \<le> a") (auto simp: u32_sub_exact u32_sub_wrapped)

section \<open>Folding a state through a fallible step\<close>

fun fold_opt :: "('a \<Rightarrow> 's \<Rightarrow> 's option) \<Rightarrow> 'a list \<Rightarrow> 's \<Rightarrow> 's option" where
  "fold_opt f [] s = Some s"
| "fold_opt f (x # xs) s = do { s' \<leftarrow> f x s; fold_opt f xs s' }"

lemma fold_opt_append [simp]:
  "fold_opt f (xs @ ys) s = do { s' \<leftarrow> fold_opt f xs s; fold_opt f ys s' }"
  by (induction xs arbitrary: s) (auto split: bind_splits)

text \<open>
  The fold rule: when every step returns, keeps \<open>P\<close> and moves the measured value
  by \<open>g\<close>, the whole fold returns, keeps \<open>P\<close> and moves the value by the fold of \<open>g\<close>.
\<close>

lemma fold_opt_rule:
  assumes "P s"
    and "\<And>x s. x \<in> set xs \<Longrightarrow> P s \<Longrightarrow> \<exists>s'. f x s = Some s' \<and> P s' \<and> a s' = g x (a s)"
  shows "\<exists>s'. fold_opt f xs s = Some s' \<and> P s' \<and> a s' = fold g xs (a s)"
  using assms
proof (induction xs arbitrary: s)
  case Nil
  then show ?case by simp
next
  case (Cons x xs)
  obtain s1 where s1: "f x s = Some s1" "P s1" "a s1 = g x (a s)"
    using Cons.prems(2)[of x s] Cons.prems(1) by auto
  have "\<exists>s'. fold_opt f xs s1 = Some s' \<and> P s' \<and> a s' = fold g xs (a s1)"
    using Cons.IH[OF s1(2)] Cons.prems(2) by simp
  then show ?case using s1 by simp
qed

lemma bind_Some_eq [opt_run]: "m = Some x \<Longrightarrow> m \<bind> f = f x"
  by simp

section \<open>Lists\<close>

lemma sorted_wrt_snoc:
  "sorted_wrt P (xs @ [x]) \<longleftrightarrow> sorted_wrt P xs \<and> (\<forall>y \<in> set xs. P y x)"
  by (simp add: sorted_wrt_append)

lemma fold_insert_eq: "fold insert xs A = set xs \<union> A"
  by (induction xs arbitrary: A) auto

lemma fold_Diff_eq: "fold (\<lambda>x A. A - {x}) xs A = A - set xs"
  by (induction xs arbitrary: A) auto

lemma fold_Un_eq: "fold (\<lambda>x A. f x \<union> A) xs A = (\<Union>x \<in> set xs. f x) \<union> A"
  by (induction xs arbitrary: A) auto

lemma fold_minus_eq: "fold (\<lambda>x A. A - f x) xs A = A - (\<Union>x \<in> set xs. f x)"
  by (induction xs arbitrary: A) auto

end
