(* ===== verification/Ranges.thy ===== *)
theory Ranges
  imports Prelude
begin

text \<open>
  The range lists of \<^verbatim>\<open>source/libs/sgeobj/sge_range.c\<close>: lists of \<open>RN_Type\<close> elements, each
  standing for the ids \<open>min, min+step, ...\<close> up to \<open>max\<close>. Array jobs keep the ids of their
  tasks in such lists.

  An \<open>lList *\<close> is an \<open>rlist\<close>: \<open>None\<close> is the \<open>NULL\<close> pointer and \<open>Some l\<close> the list with
  the elements \<open>l\<close>. A function that takes \<open>lList **\<close> returns the new pointer. A \<open>None\<close>
  outside of that means that the C code does not return, see \<^verbatim>\<open>Prelude\<close>: dividing by
  a step of 0 raises a signal, and a loop \<open>for (; start <= end; start += step)\<close> with a step
  of 0, or whose counter wraps before it passes \<open>end\<close>, is endless.

  Allocation never fails in the model, so the branches of the C code that report a failed
  \<open>malloc\<close> are left out; nothing else ever puts an error on the answer list.
\<close>

section \<open>Range elements\<close>

record range =
  RN_min :: u32
  RN_max :: u32
  RN_step :: u32

type_synonym rlist = "range list option"

text \<open>The elements that \<open>for_each\<close> visits; none for a \<open>NULL\<close> list.\<close>

definition elems :: "rlist \<Rightarrow> range list" where
  "elems l = (case l of None \<Rightarrow> [] | Some rs \<Rightarrow> rs)"

lemma elems_simps [simp]: "elems None = []" "elems (Some rs) = rs"
  by (simp_all add: elems_def)

definition range_get_all_ids :: "range option \<Rightarrow> u32 \<times> u32 \<times> u32" where
  "range_get_all_ids r =
     (case r of None \<Rightarrow> (0, 0, 0) | Some r \<Rightarrow> (RN_min r, RN_max r, RN_step r))"

definition range_set_all_ids :: "range \<Rightarrow> u32 \<Rightarrow> u32 \<Rightarrow> u32 \<Rightarrow> range" where
  "range_set_all_ids r mn mx st =
     r\<lparr>RN_min := mn, RN_max := mx, RN_step := (if mn \<noteq> mx then st else 1)\<rparr>"

text \<open>\<open>lCreateElem(RN_Type)\<close>, whose fields are 0, followed by \<open>range_set_all_ids\<close>.\<close>

definition new_range :: "u32 \<Rightarrow> u32 \<Rightarrow> u32 \<Rightarrow> range" where
  "new_range mn mx st = range_set_all_ids \<lparr>RN_min = 0, RN_max = 0, RN_step = 0\<rparr> mn mx st"

definition range_correct_end :: "range \<Rightarrow> range" where
  "range_correct_end r =
     (let (start, end, step) = range_get_all_ids (Some r) in
      if step > 0 then
        (let end = (if u32_sub end start mod step \<noteq> 0
                    then u32_add start (u32_mul (u32_sub end start div step) step)
                    else end)
         in range_set_all_ids r start end step)
      else range_set_all_ids r start end (u32_sub end start))"

definition range_is_overlapping :: "range \<Rightarrow> range \<Rightarrow> bool" where
  "range_is_overlapping r1 r2 \<longleftrightarrow> RN_max r1 \<ge> RN_min r2"

definition range_get_number_of_ids :: "range \<Rightarrow> u32 option" where
  "range_get_number_of_ids r =
     (let (start, end, step) = range_get_all_ids (Some r) in
      if step = 0 then None else Some (u32_add 1 (u32_sub end start div step)))"

definition range_containes_id_less_than :: "range \<Rightarrow> u32 \<Rightarrow> bool" where
  "range_containes_id_less_than r i \<longleftrightarrow> RN_min r < i"

definition range_is_id_within :: "range \<Rightarrow> u32 \<Rightarrow> bool option" where
  "range_is_id_within r i =
     (let (start, end, step) = range_get_all_ids (Some r) in
      if i \<ge> start \<and> i \<le> end
      then (if step = 0 then None else Some (u32_sub i start mod step = 0))
      else Some False)"

text \<open>The values of the loop counter in \<open>for (; start <= end; start += step)\<close>.\<close>

partial_function (option) range_for :: "u32 \<Rightarrow> u32 \<Rightarrow> u32 \<Rightarrow> u32 list option" where
  "range_for start end step =
     (if start \<le> end
      then do { is \<leftarrow> range_for (u32_add start step) end step; Some (start # is) }
      else Some [])"

section \<open>Queries on range lists\<close>

definition range_list_initialize :: "rlist \<Rightarrow> rlist" where
  "range_list_initialize l = Some []"

fun number_of_ids_loop :: "range list \<Rightarrow> u32 \<Rightarrow> u32 option" where
  "number_of_ids_loop [] ret = Some ret"
| "number_of_ids_loop (r # rs) ret =
     do { n \<leftarrow> range_get_number_of_ids r; number_of_ids_loop rs (u32_add ret n) }"

definition range_list_get_number_of_ids :: "rlist \<Rightarrow> u32 option" where
  "range_list_get_number_of_ids l = number_of_ids_loop (elems l) 0"

definition range_list_is_empty :: "rlist \<Rightarrow> bool option" where
  "range_list_is_empty l = do { n \<leftarrow> range_list_get_number_of_ids l; Some (n = 0) }"

text \<open>The first and the last id, with the messages put on the answer list.\<close>

definition no_elements_msg :: string where
  "no_elements_msg = ''range_list contains no elements''"

definition range_list_get_first_id :: "rlist \<Rightarrow> u32 \<times> string list" where
  "range_list_get_first_id l =
     (case elems l of [] \<Rightarrow> (0, [no_elements_msg]) | r # _ \<Rightarrow> (RN_min r, []))"

definition range_list_get_last_id :: "rlist \<Rightarrow> u32 \<times> string list" where
  "range_list_get_last_id l =
     (case rev (elems l) of [] \<Rightarrow> (0, [no_elements_msg]) | r # _ \<Rightarrow> (RN_max r, []))"

fun id_within_loop :: "range list \<Rightarrow> u32 \<Rightarrow> bool option" where
  "id_within_loop [] i = Some False"
| "id_within_loop (r # rs) i =
     do { b \<leftarrow> range_is_id_within r i; if b then Some True else id_within_loop rs i }"

definition range_list_is_id_within :: "rlist \<Rightarrow> u32 \<Rightarrow> bool option" where
  "range_list_is_id_within l i = id_within_loop (elems l) i"

fun containes_less_loop :: "range list \<Rightarrow> u32 \<Rightarrow> bool" where
  "containes_less_loop [] i = False"
| "containes_less_loop (r # rs) i =
     (if range_containes_id_less_than r i then True else containes_less_loop rs i)"

definition range_list_containes_id_less_than :: "rlist \<Rightarrow> u32 \<Rightarrow> bool" where
  "range_list_containes_id_less_than l i = containes_less_loop (elems l) i"

section \<open>Joining consecutive ranges\<close>

text \<open>
  One pass of the loop of \<open>range_list_compress\<close> looks at two neighbours and either replaces
  them by their join and stays, or moves on; the four joins are in the order of the code.
\<close>

definition join_ranges :: "range \<Rightarrow> range \<Rightarrow> range option" where
  "join_ranges r1 r2 =
     (let (start1, end1, step1) = range_get_all_ids (Some r1);
          (start2, end2, step2) = range_get_all_ids (Some r2)
      in if u32_add end1 step1 = start2 \<and> step1 = step2
         then Some (range_set_all_ids r1 start1 end2 step2)
         else if start1 = end1 \<and> step1 = 1 \<and> end1 = u32_sub start2 step2
         then Some (range_set_all_ids r1 start1 end2 step2)
         else if start2 = end2 \<and> step2 = 1 \<and> u32_add end1 step1 = end2
         then Some (range_set_all_ids r1 start1 end2 step1)
         else if start1 = end1 \<and> start2 = end2 \<and> step1 = step2 \<and> step1 = 1
         then Some (range_set_all_ids r1 start1 start2 (u32_sub start2 start1))
         else None)"

fun compress_loop :: "range list \<Rightarrow> range list" where
  "compress_loop (r1 # r2 # rs) =
     (case join_ranges r1 r2 of
        Some r \<Rightarrow> compress_loop (r # rs)
      | None \<Rightarrow> r1 # compress_loop (r2 # rs))"
| "compress_loop rs = rs"

definition range_list_compress :: "rlist \<Rightarrow> rlist" where
  "range_list_compress l = map_option compress_loop l"

section \<open>Removing and inserting an id\<close>

fun remove_id_loop :: "u32 \<Rightarrow> range list \<Rightarrow> range list option" where
  "remove_id_loop i [] = Some []"
| "remove_id_loop i (r # rs) =
     (let (start, end, step) = range_get_all_ids (Some r) in
      if i \<ge> start \<and> i \<le> end then
        (if step = 0 then None
         else if u32_sub i start mod step = 0 then
           (if i = start \<and> (i = end \<or> u32_add i step > end) then Some rs
            else if i = start then Some (range_set_all_ids r (u32_add start step) end step # rs)
            else if i = end then Some (range_set_all_ids r start (u32_sub end step) step # rs)
            else Some (range_set_all_ids r start (u32_sub i step) step
                       # new_range (u32_add i step) end step # rs))
         else do { rs' \<leftarrow> remove_id_loop i rs; Some (r # rs') })
      else do { rs' \<leftarrow> remove_id_loop i rs; Some (r # rs') })"

definition range_list_remove_id :: "rlist \<Rightarrow> u32 \<Rightarrow> rlist option" where
  "range_list_remove_id l i =
     (case l of None \<Rightarrow> Some None
      | Some rs \<Rightarrow> do { rs' \<leftarrow> remove_id_loop i rs;
                       Some (if rs' = [] then None else Some rs') })"

text \<open>
  The body of the loop of \<open>range_list_insert_id\<close> after the neighbours of \<open>id\<close> are known:
  \<open>left\<close> are the elements up to and with \<open>range\<close> (the last of them, if any), \<open>right\<close> the
  elements from \<open>next_range\<close> on. The numbers are the marks in the C code.
\<close>

definition insert_id_at :: "u32 \<Rightarrow> range list \<Rightarrow> range list \<Rightarrow> range list option" where
  "insert_id_at i left right =
     (let range = (if left = [] then None else Some (last left));
          next_range = (case right of [] \<Rightarrow> None | r # _ \<Rightarrow> Some r);
          (start, end, step) = range_get_all_ids range;
          (next_start, next_end, next_step) = range_get_all_ids next_range
      in if next_range \<noteq> None \<and> i > next_start then \<comment> \<open>2\<close>
           (if next_step = 0 then None
            else if u32_sub i next_start mod next_step = 0 then Some (left @ right)
            else
              (let factor = u32_sub i next_start div next_step;
                   prev_id = u32_add next_start (u32_mul factor next_step);
                   next_id = u32_add next_start (u32_mul (u32_add factor 1) next_step)
               in Some (left @ range_set_all_ids (hd right) next_start prev_id next_step
                          # new_range i i 1 # new_range next_id next_end next_step
                          # tl right)))
         else if (range \<noteq> None \<and> end = i) \<or> (next_range \<noteq> None \<and> next_start = i)
         then Some (left @ right)
         else if range \<noteq> None \<and> u32_add end step = i then \<comment> \<open>3\<close>
           Some (butlast left @ range_set_all_ids (last left) start i step # right)
         else if next_range \<noteq> None \<and> u32_sub next_start next_step = i then \<comment> \<open>4\<close>
           Some (left @ range_set_all_ids (hd right) i next_end next_step # tl right)
         else Some (left @ new_range i i 1 # right) \<comment> \<open>5\<close>)"

text \<open>
  The walk from the last element to the first. The first argument holds the elements not
  yet passed, last one first; on an element that ends above \<open>id\<close> (1) it goes on, and
  where there is none before it, \<open>id\<close> belongs at the front.
\<close>

fun insert_id_loop :: "u32 \<Rightarrow> range list \<Rightarrow> range list \<Rightarrow> range list option" where
  "insert_id_loop i [] right = Some (right @ [new_range i i 1])"
| "insert_id_loop i (r # left) right =
     (if i < RN_max r then
        (if left \<noteq> [] then insert_id_loop i left (r # right)
         else insert_id_at i [] (r # right))
      else insert_id_at i (rev left @ [r]) right)"

text \<open>
  \<open>lPSortList(l, "%I+", RN_min)\<close> sorts with the C library's \<open>qsort\<close>, which may order
  elements with the same \<open>RN_min\<close> in any way; the model takes the stable order.
\<close>

definition sort_by_min :: "range list \<Rightarrow> range list" where
  "sort_by_min rs = sort_key RN_min rs"

definition range_list_insert_id :: "rlist \<Rightarrow> u32 \<Rightarrow> rlist option" where
  "range_list_insert_id l i =
     do { rs \<leftarrow> insert_id_loop i (rev (sort_by_min (elems l))) []; Some (Some rs) }"

text \<open>Inserting, or removing, every id of a range, and of every range of a list.\<close>

definition insert_range_ids :: "range \<Rightarrow> rlist \<Rightarrow> rlist option" where
  "insert_range_ids r l =
     do { is \<leftarrow> range_for (RN_min r) (RN_max r) (RN_step r);
          fold_opt (\<lambda>i l. range_list_insert_id l i) is l }"

definition remove_range_ids :: "range \<Rightarrow> rlist \<Rightarrow> rlist option" where
  "remove_range_ids r l =
     do { is \<leftarrow> range_for (RN_min r) (RN_max r) (RN_step r);
          fold_opt (\<lambda>i l. range_list_remove_id l i) is l }"

section \<open>Normalising a range list\<close>

text \<open>
  \<open>range_list_sort_uniq_compress\<close> takes every range that starts before an earlier one
  ends out of the list and inserts its ids one by one. \<open>dechain_overlapping\<close> is the inner
  loop for one \<open>range1\<close>: the ranges taken out, and those that stay.
\<close>

definition correct_if :: "bool \<Rightarrow> range \<Rightarrow> range" where
  "correct_if correct_end r = (if correct_end then range_correct_end r else r)"

fun dechain_overlapping :: "bool \<Rightarrow> range \<Rightarrow> range list \<Rightarrow> range list \<times> range list" where
  "dechain_overlapping ce r1 [] = ([], [])"
| "dechain_overlapping ce r1 (r2 # rs) =
     (let r2 = correct_if ce r2 in
      if range_is_overlapping r1 r2
      then (let (tmp, kept) = dechain_overlapping ce r1 rs in (r2 # tmp, kept))
      else ([], r2 # rs))"

lemma dechain_overlapping_length:
  "(tmp, kept) = dechain_overlapping ce r1 rs \<Longrightarrow> length kept \<le> length rs"
  by (induction ce r1 rs arbitrary: tmp kept rule: dechain_overlapping.induct)
     (fastforce simp: Let_def split: if_splits prod.splits)+

function remove_overlaps :: "bool \<Rightarrow> range list \<Rightarrow> range list \<times> range list" where
  "remove_overlaps ce [] = ([], [])"
| "remove_overlaps ce (r1 # rs) =
     (let r1 = correct_if ce r1;
          (tmp, kept) = dechain_overlapping ce r1 rs;
          (tmp', kept') = remove_overlaps ce kept
      in (tmp @ tmp', r1 # kept'))"
  by pat_completeness auto
termination
  by (relation "measure (\<lambda>(ce, rs). length rs)")
     (auto simp: less_Suc_eq_le dest: dechain_overlapping_length)

definition range_list_sort_uniq_compress :: "rlist \<Rightarrow> bool \<Rightarrow> rlist option" where
  "range_list_sort_uniq_compress l correct_end =
     (case l of None \<Rightarrow> Some None
      | Some rs \<Rightarrow>
          (let (tmp, kept) = remove_overlaps correct_end (sort_by_min rs) in
           do { l' \<leftarrow> fold_opt insert_range_ids tmp (Some kept);
                Some (range_list_compress l') }))"

section \<open>Set operations\<close>

text \<open>
  Each writes its result to \<open>*range_list\<close>, whose old value is the first argument: it is
  freed, or kept where both operands are \<open>NULL\<close>.
\<close>

definition range_list_calculate_union_set :: "rlist \<Rightarrow> rlist \<Rightarrow> rlist \<Rightarrow> rlist option" where
  "range_list_calculate_union_set l l1 l2 =
     (if l1 \<noteq> None \<or> l2 \<noteq> None then
        do { l' \<leftarrow> range_list_sort_uniq_compress (if l1 \<noteq> None then l1 else l2) True;
             if l1 \<noteq> None \<and> l2 \<noteq> None
             then do { l'' \<leftarrow> fold_opt insert_range_ids (elems l2) l';
                       Some (range_list_compress l'') }
             else Some l' }
      else Some l)"

definition range_list_calculate_difference_set :: "rlist \<Rightarrow> rlist \<Rightarrow> rlist \<Rightarrow> rlist option" where
  "range_list_calculate_difference_set l l1 l2 =
     (if l1 \<noteq> None then
        do { l' \<leftarrow> range_list_sort_uniq_compress l1 True;
             if l2 \<noteq> None
             then do { l'' \<leftarrow> fold_opt remove_range_ids (elems l2) l';
                       Some (range_list_compress l'') }
             else Some l' }
      else Some l)"

definition append_range :: "rlist \<Rightarrow> range \<Rightarrow> rlist" where
  "append_range l r = Some (elems l @ [r])"

definition intersect_ids :: "rlist \<Rightarrow> u32 \<Rightarrow> rlist \<Rightarrow> rlist option" where
  "intersect_ids l2 i l =
     do { b \<leftarrow> range_list_is_id_within l2 i;
          Some (if b then append_range l (new_range i i 1) else l) }"

definition intersect_range_ids :: "rlist \<Rightarrow> range \<Rightarrow> rlist \<Rightarrow> rlist option" where
  "intersect_range_ids l2 r l =
     do { is \<leftarrow> range_for (RN_min r) (RN_max r) (RN_step r);
          fold_opt (intersect_ids l2) is l }"

definition range_list_calculate_intersection_set :: "rlist \<Rightarrow> rlist \<Rightarrow> rlist option" where
  "range_list_calculate_intersection_set l1 l2 =
     (if l1 \<noteq> None \<and> l2 \<noteq> None
      then do { l \<leftarrow> fold_opt (intersect_range_ids l2) (elems l1) None;
                Some (range_list_compress l) }
      else Some None)"

section \<open>Adding a parsed range to a list\<close>

text \<open>
  \<open>expand_range_list\<close> is how the parser of range strings adds a range \<open>r\<close>. It means to keep
  a descending list of ranges that do not overlap; ranges with a step above 1 are put at the
  front as they are. \<open>absorb_loop\<close> is the inner loop, after \<open>rr\<close> has been widened by \<open>r\<close>, over
  the elements behind it. Its last line, after an element has been removed, steps over the
  element that came next without looking at it.
\<close>

fun absorb_loop :: "u32 \<Rightarrow> range \<Rightarrow> range list \<Rightarrow> range list" where
  "absorb_loop rmin rr [] = [rr]"
| "absorb_loop rmin rr (ep # rest) =
     (if rmin < RN_min ep then
        (case rest of [] \<Rightarrow> [rr]
         | ep2 # rest2 \<Rightarrow>
             (case absorb_loop rmin rr rest2 of
                rr' # rest' \<Rightarrow> rr' # ep2 # rest' | [] \<Rightarrow> []))
      else if rmin \<le> RN_max ep then rr\<lparr>RN_min := RN_min ep\<rparr> # rest
      else rr # ep # rest)"

text \<open>\<open>expand_loop\<close> is the outer loop; \<open>pre\<close> are the elements passed, last one first.\<close>

fun expand_loop :: "range \<Rightarrow> range list \<Rightarrow> range list \<Rightarrow> range list" where
  "expand_loop r pre [] = rev pre @ [r]"
| "expand_loop r pre (ep # rest) =
     (if RN_step r \<noteq> RN_step ep \<or> RN_step r > 1 \<or> RN_step ep > 1
      then r # rev pre @ ep # rest
      else if RN_min r > RN_max ep then r # rev pre @ ep # rest
      else if RN_max r < RN_min ep then expand_loop r (ep # pre) rest
      else if RN_max r \<le> RN_max ep \<and> RN_min r \<ge> RN_min ep then rev pre @ ep # rest
      else if RN_min r < RN_min ep then
        rev pre @ absorb_loop (RN_min r)
          (ep\<lparr>RN_max := (if RN_max r > RN_max ep then RN_max r else RN_max ep),
              RN_min := RN_min r\<rparr>) rest
      else rev pre @ ep\<lparr>RN_max := RN_max r\<rparr> # rest)"

definition expand_range_list :: "range \<Rightarrow> rlist \<Rightarrow> rlist" where
  "expand_range_list r l = Some (expand_loop r [] (elems l))"

section \<open>Splitting off the first ids\<close>

text \<open>
  \<open>range_list_move_first_n_ids\<close>: \<open>move_ids\<close> is the inner loop over the ids of one range,
  which a \<open>break\<close> ends when the counter reaches 0; the outer loop goes on with the next
  range and the counter at 0, which then wraps.
\<close>

partial_function (option) move_ids ::
  "u32 \<Rightarrow> u32 \<Rightarrow> u32 \<Rightarrow> u32 \<Rightarrow> rlist \<Rightarrow> (u32 \<times> rlist) option" where
  "move_ids i end step n l2 =
     (if i \<le> end then
        do { l2' \<leftarrow> range_list_insert_id l2 i;
             (let l2'' = range_list_compress l2'; n' = u32_sub n 1 in
              if n' = 0 then Some (n', l2'')
              else move_ids (u32_add i step) end step n' l2'') }
      else Some (n, l2))"

definition move_range_ids :: "range \<Rightarrow> u32 \<times> rlist \<Rightarrow> (u32 \<times> rlist) option" where
  "move_range_ids r s =
     move_ids (RN_min r) (RN_max r) (RN_step r) (fst s) (snd s)"

definition range_list_move_first_n_ids :: "rlist \<Rightarrow> rlist \<Rightarrow> u32 \<Rightarrow> (rlist \<times> rlist) option" where
  "range_list_move_first_n_ids l l2 n =
     (if l \<noteq> None then
        do { s \<leftarrow> fold_opt move_range_ids (elems l) (n, l2);
             l' \<leftarrow> fold_opt remove_range_ids (elems (snd s)) l;
             Some (l', snd s) }
      else Some (l, l2))"

end
