(* ===== verification/Id_Set.thy ===== *)
theory Id_Set
  imports Prelude
begin

text \<open>
  The interface of a container of small numbers: insert, remove, look up, and a change of
  representation that keeps the set. The job code keeps task ids in range lists through it, and
  the lists keep their changed flags in bit fields. \<open>lim\<close> bounds the numbers.
\<close>

locale id_set =
  fixes inv :: "'l \<Rightarrow> bool" and ids_of :: "'l \<Rightarrow> nat set" and lim :: nat
    and ins :: "'l \<Rightarrow> nat \<Rightarrow> 'l option" and del :: "'l \<Rightarrow> nat \<Rightarrow> 'l option"
    and norm :: "'l \<Rightarrow> 'l" and has :: "'l \<Rightarrow> nat \<Rightarrow> bool option"
  assumes ins_law: "inv l \<Longrightarrow> i < lim \<Longrightarrow>
      \<exists>l'. ins l i = Some l' \<and> inv l' \<and> ids_of l' = insert i (ids_of l)"
    and del_law: "inv l \<Longrightarrow> i < lim \<Longrightarrow>
      \<exists>l'. del l i = Some l' \<and> inv l' \<and> ids_of l' = ids_of l - {i}"
    and norm_law: "inv l \<Longrightarrow> inv (norm l) \<and> ids_of (norm l) = ids_of l"
    and has_law: "inv l \<Longrightarrow> i < lim \<Longrightarrow> has l i = Some (i \<in> ids_of l)"

datatype id_op = Insert_Id nat | Remove_Id nat | Normalise

fun id_op_arg :: "id_op \<Rightarrow> nat set" where
  "id_op_arg (Insert_Id i) = {i}"
| "id_op_arg (Remove_Id i) = {i}"
| "id_op_arg Normalise = {}"

fun id_op_abs :: "id_op \<Rightarrow> nat set \<Rightarrow> nat set" where
  "id_op_abs (Insert_Id i) A = insert i A"
| "id_op_abs (Remove_Id i) A = A - {i}"
| "id_op_abs Normalise A = A"

fun id_op_run :: "('l \<Rightarrow> nat \<Rightarrow> 'l option) \<Rightarrow> ('l \<Rightarrow> nat \<Rightarrow> 'l option) \<Rightarrow> ('l \<Rightarrow> 'l) \<Rightarrow>
    id_op \<Rightarrow> 'l \<Rightarrow> 'l option" where
  "id_op_run ins del norm (Insert_Id i) l = ins l i"
| "id_op_run ins del norm (Remove_Id i) l = del l i"
| "id_op_run ins del norm Normalise l = Some (norm l)"

context id_set begin

lemma update_law:
  assumes "inv l" "i < lim"
  shows "\<exists>l'. (if b then ins l i else del l i) = Some l' \<and> inv (norm l') \<and>
    ids_of (norm l') = (if b then insert i (ids_of l) else ids_of l - {i})"
  using ins_law[OF assms] del_law[OF assms] norm_law by fastforce

lemma op_law:
  assumes "inv l" "id_op_arg p \<subseteq> {..<lim}"
  shows "\<exists>l'. id_op_run ins del norm p l = Some l' \<and> inv l' \<and> ids_of l' = id_op_abs p (ids_of l)"
  using assms ins_law del_law norm_law by (cases p) auto

lemma run_refines:
  assumes "inv l" "\<forall>p \<in> set ps. id_op_arg p \<subseteq> {..<lim}"
  shows "\<exists>l'. fold_opt (id_op_run ins del norm) ps l = Some l' \<and> inv l' \<and>
    ids_of l' = fold id_op_abs ps (ids_of l) \<and>
    (\<forall>i < lim. has l' i = Some (i \<in> fold id_op_abs ps (ids_of l)))"
  using fold_opt_rule[where P = inv and a = ids_of and f = "id_op_run ins del norm" and xs = ps
      and s = l and g = id_op_abs] assms op_law has_law by fastforce

end

end
