(* ===== verification/Range_Facts.thy ===== *)
theory Range_Facts
  imports Ranges Id_Set
begin

text \<open>
  What the range lists of \<^verbatim>\<open>Ranges\<close> promise. A range is a set of ids (\<open>ids\<close>), a list the union
  of its ranges (\<open>list_ids\<close>); \<open>rl_wf\<close> is the invariant that the code keeps: every range ends
  on an id of its own, and the ranges follow one another without overlap. Each operation is
  shown to return, to keep the invariant, and to act on the set of ids as it should.
\<close>

section \<open>Ranges as sets of ids\<close>

definition span :: "nat \<Rightarrow> nat \<Rightarrow> nat \<Rightarrow> nat set" where
  "span a s n = (\<lambda>k. a + k * s) ` {..n}"

lemma span_0 [simp]: "span a s 0 = {a}"
  by (simp add: span_def)

lemma span_Suc: "span a s (Suc n) = insert (a + Suc n * s) (span a s n)"
  by (simp add: span_def atMost_Suc)

lemma span_Suc_low: "span a s (Suc n) = insert a (span (a + s) s n)"
  by (simp add: span_def atMost_Suc_eq_insert_0 image_image algebra_simps)

lemma span_join: "span a s m \<union> span (a + Suc m * s) s n = span a s (Suc (m + n))"
proof (induction n)
  case 0
  then show ?case by (simp add: span_Suc[of a s m])
next
  case (Suc n)
  have "span a s (Suc (m + Suc n)) = insert (a + Suc (m + Suc n) * s) (span a s (Suc (m + n)))"
    using span_Suc[of a s "Suc (m + n)"] by simp
  moreover have "span (a + Suc m * s) s (Suc n) =
      insert (a + Suc m * s + Suc n * s) (span (a + Suc m * s) s n)"
    by (rule span_Suc)
  ultimately show ?case
    using Suc by (simp add: algebra_simps)
qed

lemma span_split: "k < n \<Longrightarrow> span a s n = span a s k \<union> span (a + Suc k * s) s (n - Suc k)"
  using span_join[of a s k "n - Suc k"] by simp

lemma span_bounds: "x \<in> span a s n \<Longrightarrow> a \<le> x \<and> x \<le> a + n * s"
  by (auto simp: span_def)

lemma finite_span [simp]: "finite (span a s n)"
  by (simp add: span_def)

lemma card_span: "0 < s \<Longrightarrow> card (span a s n) = Suc n"
  by (simp add: span_def card_image inj_on_def)

lemma mem_span_iff:
  "0 < s \<Longrightarrow> x \<in> span a s n \<longleftrightarrow> a \<le> x \<and> x \<le> a + n * s \<and> (x - a) mod s = 0"
proof
  assume "0 < s" "a \<le> x \<and> x \<le> a + n * s \<and> (x - a) mod s = 0"
  then obtain k where "x - a = s * k" by auto
  with \<open>0 < s\<close> \<open>a \<le> x \<and> _\<close> have "x = a + k * s" "k \<le> n"
    by (auto simp: mult.commute) (metis add_le_cancel_left le_add_diff_inverse mult.commute mult_le_cancel1)
  then show "x \<in> span a s n" by (auto simp: span_def)
qed (auto simp: span_def)

definition ids :: "range \<Rightarrow> nat set" where
  "ids r = {i. RN_min r \<le> i \<and> i \<le> RN_max r \<and> (i - RN_min r) mod RN_step r = 0}"

definition list_ids :: "range list \<Rightarrow> nat set" where
  "list_ids rs = (\<Union>r \<in> set rs. ids r)"

lemma list_ids_simps [simp]:
  "list_ids [] = {}" "list_ids (r # rs) = ids r \<union> list_ids rs"
  "list_ids (xs @ ys) = list_ids xs \<union> list_ids ys"
  by (auto simp: list_ids_def)

definition range_ok :: "range \<Rightarrow> bool" where
  "range_ok r \<longleftrightarrow> RN_min r \<le> RN_max r \<and> RN_max r < u32_limit \<and> 0 < RN_step r \<and>
     RN_step r < u32_limit \<and> (RN_max r - RN_min r) mod RN_step r = 0 \<and>
     (RN_min r = RN_max r \<longrightarrow> RN_step r = 1)"

definition rl_wf :: "range list \<Rightarrow> bool" where
  "rl_wf rs \<longleftrightarrow> (\<forall>r \<in> set rs. range_ok r) \<and> sorted_wrt (\<lambda>a b. RN_max a < RN_min b) rs"

lemma rl_wf_simps [simp]:
  "rl_wf []"
  "rl_wf (r # rs) \<longleftrightarrow> range_ok r \<and> rl_wf rs \<and> (\<forall>b \<in> set rs. RN_max r < RN_min b)"
  "rl_wf (xs @ ys) \<longleftrightarrow> rl_wf xs \<and> rl_wf ys \<and> (\<forall>a \<in> set xs. \<forall>b \<in> set ys. RN_max a < RN_min b)"
  by (auto simp: rl_wf_def sorted_wrt_append)

lemma rl_wf_ok: "rl_wf rs \<Longrightarrow> r \<in> set rs \<Longrightarrow> range_ok r"
  by (simp add: rl_wf_def)

lemma range_set_all_ids_sel [simp]:
  "RN_min (range_set_all_ids r a b s) = a" "RN_max (range_set_all_ids r a b s) = b"
  "RN_step (range_set_all_ids r a b s) = (if a \<noteq> b then s else 1)"
  "RN_min (new_range a b s) = a" "RN_max (new_range a b s) = b"
  "RN_step (new_range a b s) = (if a \<noteq> b then s else 1)"
  by (simp_all add: range_set_all_ids_def new_range_def)

lemma range_set_new: "range_set_all_ids r a b s = new_range a b s"
  by (simp add: range_set_all_ids_def new_range_def)

lemma range_okE:
  assumes "range_ok r"
  obtains n where "RN_max r = RN_min r + n * RN_step r" "ids r = span (RN_min r) (RN_step r) n"
    "RN_min r + n * RN_step r < u32_limit" "0 < RN_step r" "RN_step r < u32_limit"
proof -
  from assms obtain n where n: "RN_max r - RN_min r = RN_step r * n"
    by (auto simp: range_ok_def)
  with assms have max: "RN_max r = RN_min r + n * RN_step r"
    by (auto simp: range_ok_def mult.commute)
  with assms have "ids r = span (RN_min r) (RN_step r) n"
    by (auto simp: ids_def mem_span_iff range_ok_def)
  with max assms that show thesis by (simp add: range_ok_def)
qed

lemma ids_spanI:
  "RN_max r = RN_min r + n * RN_step r \<Longrightarrow> 0 < RN_step r \<Longrightarrow> ids r = span (RN_min r) (RN_step r) n"
  by (auto simp: ids_def mem_span_iff)

lemma range_set_ids:
  assumes "b = a + n * s" "0 < s"
  shows "ids (range_set_all_ids r a b s) = span a s n" "ids (new_range a b s) = span a s n"
  using assms by (cases n; simp add: ids_spanI[where n = n] ids_spanI[where n = 0])+

lemma range_set_ok:
  assumes "b = a + n * s" "0 < s" "s < u32_limit" "b < u32_limit"
  shows "range_ok (range_set_all_ids r a b s)" "range_ok (new_range a b s)"
  using assms by (auto simp: range_ok_def)

lemma ids_single [simp]: "ids (new_range a a (Suc 0)) = {a}"
  using range_set_ids(2)[of a a 0 1] by simp

lemma range_ok_single [simp]: "range_ok (new_range a a (Suc 0)) \<longleftrightarrow> a < u32_limit"
  by (simp add: range_ok_def)

lemma ids_bounds: "i \<in> ids r \<Longrightarrow> RN_min r \<le> i \<and> i \<le> RN_max r"
  by (simp add: ids_def)

lemma min_in_ids: "range_ok r \<Longrightarrow> RN_min r \<in> ids r"
  by (simp add: ids_def range_ok_def)

lemma max_in_ids: "range_ok r \<Longrightarrow> RN_max r \<in> ids r"
  by (simp add: ids_def range_ok_def)

lemma rl_wf_sorted: "rl_wf rs \<Longrightarrow> sorted (map RN_min rs)"
  by (induction rs) (auto simp: range_ok_def dest: rl_wf_ok order.strict_implies_order)

lemma sort_by_min_wf: "rl_wf rs \<Longrightarrow> sort_by_min rs = rs"
  by (simp add: sort_by_min_def sort_key_id_if_sorted rl_wf_sorted)

text \<open>Replacing a range by pieces of it keeps the list well-formed.\<close>

lemma rl_wf_within:
  "rl_wf (left @ r # rest) \<Longrightarrow> rl_wf ps \<Longrightarrow>
   \<forall>p \<in> set ps. RN_min r \<le> RN_min p \<and> RN_max p \<le> RN_max r \<Longrightarrow> rl_wf (left @ ps @ rest)"
  by (auto intro: less_le_trans le_less_trans)

section \<open>Removing an id\<close>

lemma span_remove:
  assumes "0 < s" "k \<le> n"
  shows "span a s n - {a + k * s} =
    (if k = 0 then {} else span a s (k - 1)) \<union>
    (if k = n then {} else span (a + Suc k * s) s (n - Suc k))"
proof -
  have lo: "{..n} - {k} = {..<k} \<union> {Suc k..n}" using assms by auto
  have "span a s n - {a + k * s} = (\<lambda>j. a + j * s) ` ({..n} - {k})"
    using assms by (auto simp: span_def)
  also have "\<dots> = (\<lambda>j. a + j * s) ` {..<k} \<union> (\<lambda>j. a + j * s) ` {Suc k..n}"
    by (simp add: lo image_Un)
  also have "(\<lambda>j. a + j * s) ` {..<k} = (if k = 0 then {} else span a s (k - 1))"
    by (cases k) (auto simp: span_def lessThan_Suc_atMost)
  also have "(\<lambda>j. a + j * s) ` {Suc k..n} =
      (if k = n then {} else span (a + Suc k * s) s (n - Suc k))"
  proof (cases "k = n")
    case False
    then have "{Suc k..n} = (\<lambda>j. j + Suc k) ` {..n - Suc k}"
      using assms image_add_atLeastAtMost'[of "Suc k" 0 "n - Suc k"] by (simp add: atMost_atLeast0)
    then show ?thesis using False by (simp add: span_def image_image algebra_simps)
  qed simp
  finally show ?thesis .
qed

text \<open>The range that holds the id is replaced by at most two pieces of itself.\<close>

lemma remove_id_hit:
  assumes ok: "range_ok r" and mem: "i \<in> ids r"
  shows "\<exists>ps. remove_id_loop i (r # rs) = Some (ps @ rs) \<and> rl_wf ps \<and> list_ids ps = ids r - {i} \<and>
     (\<forall>p \<in> set ps. RN_min r \<le> RN_min p \<and> RN_max p \<le> RN_max r)"
proof -
  obtain n where n: "RN_max r = RN_min r + n * RN_step r" "ids r = span (RN_min r) (RN_step r) n"
    "RN_min r + n * RN_step r < u32_limit" "0 < RN_step r" "RN_step r < u32_limit"
    using ok by (rule range_okE)
  obtain k where k: "i = RN_min r + k * RN_step r" "k \<le> n"
    using mem n(2) by (auto simp: span_def)
  note kn = mult_le_mono1[OF k(2), of "RN_step r"]
  have "i < u32_limit" using k(1) kn n(3) by linarith
  then have hit: "i \<ge> RN_min r" "i \<le> RN_max r" "u32_sub i (RN_min r) mod RN_step r = 0"
    using k n(1) kn u32_sub_exact[of "RN_min r" i] by auto
  consider "k = 0" "n = 0" | "k = 0" "0 < n" | "0 < k" "k = n" | "0 < k" "k < n"
    using k(2) by linarith
  then show ?thesis
  proof cases
    case 1
    then show ?thesis
      using hit n k by (auto simp: range_get_all_ids_def intro!: exI[of _ "[]"])
  next
    case 2
    then obtain m where m: "n = Suc m" by (cases n) auto
    let ?p = "range_set_all_ids r (RN_min r + RN_step r) (RN_max r) (RN_step r)"
    have "remove_id_loop i (r # rs) = Some ([?p] @ rs)"
      using hit n k 2 m by (auto simp: range_get_all_ids_def u32_arith)
    moreover have "ids ?p = ids r - {i}"
      using range_set_ids(1)[of "RN_max r" "RN_min r + RN_step r" m "RN_step r" r] n k 2 m
        span_remove[of "RN_step r" 0 n "RN_min r"] by simp
    moreover have "range_ok ?p"
      using range_set_ok(1)[of "RN_max r" "RN_min r + RN_step r" m "RN_step r" r] n m by simp
    ultimately show ?thesis by (intro exI[of _ "[?p]"]) simp
  next
    case 3
    then obtain m where m: "n = Suc m" by (cases n) auto
    let ?p = "range_set_all_ids r (RN_min r) (RN_min r + m * RN_step r) (RN_step r)"
    have "remove_id_loop i (r # rs) = Some ([?p] @ rs)"
      using hit n k 3 m by (auto simp: range_get_all_ids_def u32_arith)
    moreover have "ids ?p = ids r - {i}"
      using range_set_ids(1)[of _ "RN_min r" m "RN_step r" r, OF refl] n k 3 m
        span_remove[of "RN_step r" k n "RN_min r"] by simp
    moreover have "range_ok ?p"
      using range_set_ok(1)[of _ "RN_min r" m "RN_step r" r, OF refl] n m by simp
    ultimately show ?thesis using n m by (intro exI[of _ "[?p]"]) simp
  next
    case 4
    then obtain m where m: "k = Suc m" by (cases k) auto
    obtain q where q: "n = Suc k + q" using 4 by (metis Suc_leI le_Suc_ex)
    let ?p = "range_set_all_ids r (RN_min r) (RN_min r + m * RN_step r) (RN_step r)"
    let ?q = "new_range (RN_min r + Suc k * RN_step r) (RN_max r) (RN_step r)"
    have "remove_id_loop i (r # rs) = Some ([?p, ?q] @ rs)"
      using hit n k 4 m q by (auto simp: range_get_all_ids_def u32_arith algebra_simps)
    moreover have "ids ?p \<union> ids ?q = ids r - {i}"
      using range_set_ids(1)[of _ "RN_min r" m "RN_step r" r, OF refl]
        range_set_ids(2)[of "RN_max r" "RN_min r + Suc k * RN_step r" q "RN_step r"]
        span_remove[of "RN_step r" k n "RN_min r"] n k 4 m q
      by (simp add: algebra_simps)
    moreover have "range_ok ?p" "range_ok ?q"
      using range_set_ok(1)[of _ "RN_min r" m "RN_step r" r, OF refl]
        range_set_ok(2)[of "RN_max r" "RN_min r + Suc k * RN_step r" q "RN_step r"] n m q
      by (simp_all add: algebra_simps)
    ultimately show ?thesis
      using n m q by (intro exI[of _ "[?p, ?q]"]) (simp add: algebra_simps del: remove_id_loop.simps)
  qed
qed

lemma remove_id_miss:
  "range_ok r \<Longrightarrow> i \<notin> ids r \<Longrightarrow> i < u32_limit \<Longrightarrow>
   remove_id_loop i (r # rs) = do { rs' \<leftarrow> remove_id_loop i rs; Some (r # rs') }"
  by (auto simp: range_get_all_ids_def ids_def range_ok_def u32_arith)

lemma rl_wf_later: "rl_wf (r # rs) \<Longrightarrow> i \<in> ids r \<Longrightarrow> i \<notin> list_ids rs"
  by (auto simp: list_ids_def dest!: ids_bounds)

lemma rl_wf_low:
  assumes "rl_wf rs'" "b \<in> set rs'" "list_ids rs' \<subseteq> list_ids rs"
  shows "\<exists>a \<in> set rs. RN_min a \<le> RN_min b"
proof -
  have "RN_min b \<in> list_ids rs"
    using assms min_in_ids[of b] rl_wf_ok[of rs' b] by (auto simp: list_ids_def)
  then show ?thesis by (auto simp: list_ids_def dest: ids_bounds)
qed

lemma remove_id_loop_correct:
  assumes "i < u32_limit"
  shows "rl_wf rs \<Longrightarrow> \<exists>rs'. remove_id_loop i rs = Some rs' \<and> rl_wf rs' \<and>
     list_ids rs' = list_ids rs - {i}"
proof (induction rs)
  case Nil
  then show ?case by simp
next
  case (Cons r rs)
  show ?case
  proof (cases "i \<in> ids r")
    case False
    obtain rs1 where rs1: "remove_id_loop i rs = Some rs1" "rl_wf rs1"
      "list_ids rs1 = list_ids rs - {i}"
      using Cons by auto
    have "RN_max r < RN_min b" if "b \<in> set rs1" for b
      using rl_wf_low[OF rs1(2) that, of rs] rs1(3) Cons.prems by (auto intro: less_le_trans)
    then show ?thesis
      using rs1 False Cons.prems assms remove_id_miss[of r i rs] by (auto simp del: remove_id_loop.simps)
  next
    case True
    obtain ps where ps: "remove_id_loop i (r # rs) = Some (ps @ rs)" "rl_wf ps"
      "list_ids ps = ids r - {i}"
      "\<forall>p \<in> set ps. RN_min r \<le> RN_min p \<and> RN_max p \<le> RN_max r"
      using remove_id_hit[of r i rs] True Cons.prems by auto
    have "i \<notin> list_ids rs" using Cons.prems True by (rule rl_wf_later)
    then have "list_ids (ps @ rs) = list_ids (r # rs) - {i}" using ps(3) by auto
    moreover have "rl_wf (ps @ rs)"
      using ps(2,4) Cons.prems by (auto intro: le_less_trans)
    ultimately show ?thesis using ps(1) by blast
  qed
qed

lemma range_list_remove_id_correct:
  assumes "rl_wf (elems l)" "i < u32_limit"
  shows "\<exists>l'. range_list_remove_id l i = Some l' \<and> rl_wf (elems l') \<and>
     list_ids (elems l') = list_ids (elems l) - {i} \<and> (l' \<noteq> Some [])"
proof (cases l)
  case (Some rs)
  then obtain rs' where "remove_id_loop i rs = Some rs'" "rl_wf rs'"
    "list_ids rs' = list_ids rs - {i}"
    using remove_id_loop_correct[of i rs] assms Some by auto
  then show ?thesis
    using Some by (cases rs') (simp_all add: range_list_remove_id_def)
qed (simp add: range_list_remove_id_def)

section \<open>Inserting an id\<close>

definition insert_ok :: "u32 \<Rightarrow> range list \<Rightarrow> range list option \<Rightarrow> bool" where
  "insert_ok i rs res \<longleftrightarrow>
     (\<exists>rs'. res = Some rs' \<and> rl_wf rs' \<and> list_ids rs' = insert i (list_ids rs))"

lemma insert_okI:
  "res = Some rs' \<Longrightarrow> rl_wf rs' \<Longrightarrow> list_ids rs' = insert i (list_ids rs) \<Longrightarrow> insert_ok i rs res"
  by (auto simp: insert_ok_def)

text \<open>Case 2 of the C code: the id lies inside the extent of \<open>next_range\<close>.\<close>

lemma insert_id_at_inside:
  assumes wf: "rl_wf (left @ r # rest)" and i: "RN_min r < i" "i < RN_max r"
  shows "insert_ok i (left @ r # rest) (insert_id_at i left (r # rest))"
proof -
  have ok: "range_ok r" using wf by simp
  obtain n where n: "RN_max r = RN_min r + n * RN_step r" "ids r = span (RN_min r) (RN_step r) n"
    "RN_min r + n * RN_step r < u32_limit" "0 < RN_step r" "RN_step r < u32_limit"
    using ok by (rule range_okE)
  have lim: "i < u32_limit" using i n by linarith
  have sub: "u32_sub i (RN_min r) = i - RN_min r" using i lim by (simp add: u32_arith)
  show ?thesis
  proof (cases "(i - RN_min r) mod RN_step r = 0")
    case True
    then have "i \<in> ids r" using i by (simp add: ids_def)
    then show ?thesis
      using True wf i n(4) sub
      by (intro insert_okI[of _ "left @ r # rest"])
         (auto simp: insert_id_at_def range_get_all_ids_def split: prod.split)
  next
    case False
    define k m where "k = (i - RN_min r) div RN_step r" and "m = (i - RN_min r) mod RN_step r"
    have m: "0 < m" "m < RN_step r" using False n(4) by (simp_all add: m_def)
    have i_eq: "i = RN_min r + k * RN_step r + m"
      using i div_mult_mod_eq[of "i - RN_min r" "RN_step r"] by (simp add: k_def m_def)
    have "k * RN_step r < n * RN_step r" using i i_eq n(1) m by linarith
    then obtain q where q: "n = Suc k + q" by (metis Suc_leI le_Suc_ex mult_less_cancel2)
    have small: "k * RN_step r < u32_limit" "Suc k * RN_step r < u32_limit"
        "RN_min r + Suc k * RN_step r < u32_limit"
      using n(3) q by (simp_all add: algebra_simps)
    have "Suc k \<le> Suc k * RN_step r" using n(4) by (cases "RN_step r") auto
    then have k1: "u32_add k 1 = Suc k" using small by (simp add: u32_arith)
    let ?p = "range_set_all_ids r (RN_min r) (RN_min r + k * RN_step r) (RN_step r)"
    let ?q = "new_range (RN_min r + Suc k * RN_step r) (RN_max r) (RN_step r)"
    have res: "insert_id_at i left (r # rest) = Some (left @ [?p, new_range i i 1, ?q] @ rest)"
      using i i_eq n(4) sub False small k1 m
      by (simp add: insert_id_at_def range_get_all_ids_def Let_def k_def[symmetric] u32_arith
          split: prod.split)
    have "range_ok ?p" "range_ok ?q"
      using range_set_ok(1)[of _ "RN_min r" k "RN_step r" r, OF refl] small n(4,5)
        range_set_ok(2)[of "RN_max r" "RN_min r + Suc k * RN_step r" q "RN_step r"] n q
      by (simp_all add: algebra_simps)
    moreover have "ids ?p \<union> ids ?q = ids r"
      using range_set_ids(1)[of _ "RN_min r" k "RN_step r" r, OF refl]
        range_set_ids(2)[of "RN_max r" "RN_min r + Suc k * RN_step r" q "RN_step r"]
        span_split[of k n "RN_min r" "RN_step r"] n q
      by (simp add: algebra_simps)
    moreover have "RN_min r + k * RN_step r < i" "i < RN_min r + Suc k * RN_step r"
        "RN_min r + Suc k * RN_step r \<le> RN_max r"
      using i_eq m n(1) q by (simp_all add: algebra_simps)
    ultimately have pieces: "rl_wf [?p, new_range i i 1, ?q]"
        "list_ids [?p, new_range i i 1, ?q] = insert i (ids r)"
        "\<forall>x \<in> set [?p, new_range i i 1, ?q]. RN_min r \<le> RN_min x \<and> RN_max x \<le> RN_max r"
      using lim by auto
    then have "rl_wf (left @ [?p, new_range i i 1, ?q] @ rest)"
      using wf rl_wf_within[of left r rest] by blast
    then show ?thesis using res pieces(2) by (intro insert_okI) auto
  qed
qed

text \<open>Cases 3 and 4: the id is the next one after, or before, a range.\<close>

lemma extend_up:
  assumes "range_ok r" "RN_max r + RN_step r = i" "i < u32_limit"
  shows "range_ok (range_set_all_ids r (RN_min r) i (RN_step r)) \<and>
    ids (range_set_all_ids r (RN_min r) i (RN_step r)) = insert i (ids r)"
proof -
  obtain n where n: "RN_max r = RN_min r + n * RN_step r" "ids r = span (RN_min r) (RN_step r) n"
    "0 < RN_step r" "RN_step r < u32_limit"
    using assms(1) by (rule range_okE)
  have "i = RN_min r + Suc n * RN_step r" using assms(2) n(1) by simp
  then show ?thesis
    using range_set_ok(1)[of i "RN_min r" "Suc n"] range_set_ids(1)[of i "RN_min r" "Suc n"]
      n assms(3) span_Suc[of "RN_min r" "RN_step r" n] by simp
qed

lemma extend_down:
  assumes "range_ok r" "RN_step r \<le> RN_min r" "RN_min r - RN_step r = i"
  shows "range_ok (range_set_all_ids r i (RN_max r) (RN_step r)) \<and>
    ids (range_set_all_ids r i (RN_max r) (RN_step r)) = insert i (ids r)"
proof -
  obtain n where n: "RN_max r = RN_min r + n * RN_step r" "ids r = span (RN_min r) (RN_step r) n"
    "RN_min r + n * RN_step r < u32_limit" "0 < RN_step r" "RN_step r < u32_limit"
    using assms(1) by (rule range_okE)
  have i: "RN_min r = i + RN_step r" using assms by simp
  then have "RN_max r = i + Suc n * RN_step r" using n(1) by simp
  then show ?thesis
    using range_set_ok(1)[of "RN_max r" i "Suc n"] range_set_ids(1)[of "RN_max r" i "Suc n"]
      n span_Suc_low[of i "RN_step r" n] i by simp
qed

lemma insert_id_at_outside:
  assumes "right = [] \<or> i \<le> RN_min (hd right)"
  shows "insert_id_at i left right =
    (if (left \<noteq> [] \<and> RN_max (last left) = i) \<or> (right \<noteq> [] \<and> RN_min (hd right) = i)
     then Some (left @ right)
     else if left \<noteq> [] \<and> u32_add (RN_max (last left)) (RN_step (last left)) = i
     then Some (butlast left @ range_set_all_ids (last left) (RN_min (last left)) i
                 (RN_step (last left)) # right)
     else if right \<noteq> [] \<and> u32_sub (RN_min (hd right)) (RN_step (hd right)) = i
     then Some (left @ range_set_all_ids (hd right) i (RN_max (hd right)) (RN_step (hd right))
                 # tl right)
     else Some (left @ new_range i i 1 # right))"
  using assms by (cases right) (auto simp: insert_id_at_def range_get_all_ids_def Let_def)

lemma insert_id_at_between:
  assumes wf: "rl_wf (left @ right)" and i: "i < u32_limit"
    and left: "\<forall>a \<in> set left. RN_max a \<le> i" and right: "\<forall>b \<in> set right. i \<le> RN_min b"
  shows "insert_ok i (left @ right) (insert_id_at i left right)"
proof -
  have "right = [] \<or> i \<le> RN_min (hd right)" using right by (cases right) auto
  note eq = insert_id_at_outside[OF this, of left]
  show ?thesis
  proof (cases "(left \<noteq> [] \<and> RN_max (last left) = i) \<or> (right \<noteq> [] \<and> RN_min (hd right) = i)")
    case True
    then have "i \<in> list_ids (left @ right)"
      using wf max_in_ids[of "last left"] min_in_ids[of "hd right"]
        rl_wf_ok[of left "last left"] rl_wf_ok[of right "hd right"]
      by (auto simp: list_ids_def intro: last_in_set hd_in_set)
    then show ?thesis
      using wf True by (intro insert_okI[of _ "left @ right"]) (auto simp: eq)
  next
    case no: False
    have "\<forall>a \<in> set left. RN_max a < i"
      using left wf no by (cases left rule: rev_cases) (auto simp: range_ok_def)
    moreover have "\<forall>b \<in> set right. i < RN_min b"
      using right wf no by (cases right) (auto simp: range_ok_def)
    ultimately have lt: "\<forall>a \<in> set left. RN_max a < i" "\<forall>b \<in> set right. i < RN_min b"
      by auto
    show ?thesis
    proof (cases "left \<noteq> [] \<and> u32_add (RN_max (last left)) (RN_step (last left)) = i")
      case True
      then obtain l a where l: "left = l @ [a]" by (cases left rule: rev_cases) auto
      then have "range_ok a" "RN_max a + RN_step a = i"
        using True wf lt(1) i u32_add_eq_above[of "RN_max a" "RN_step a" i] by (auto simp: range_ok_def)
      note up = extend_up[OF this i]
      let ?a = "range_set_all_ids a (RN_min a) i (RN_step a)"
      have "insert_id_at i left right = Some (l @ ?a # right)"
        using eq no True l by auto
      moreover have "rl_wf (l @ ?a # right)" using wf l lt up by auto
      ultimately show ?thesis using l up by (intro insert_okI) auto
    next
      case no_up: False
      show ?thesis
      proof (cases "right \<noteq> [] \<and> u32_sub (RN_min (hd right)) (RN_step (hd right)) = i")
        case True
        then obtain b rs where r: "right = b # rs" by (cases right) auto
        then have "range_ok b" "RN_step b \<le> RN_min b" "RN_min b - RN_step b = i"
          using True wf lt(2) u32_sub_eq_below[of "RN_min b" "RN_step b" i] by (auto simp: range_ok_def)
        note down = extend_down[OF this]
        let ?b = "range_set_all_ids b i (RN_max b) (RN_step b)"
        have "insert_id_at i left right = Some (left @ ?b # rs)"
          using eq no no_up True r by auto
        moreover have "rl_wf (left @ ?b # rs)" using wf r lt down by auto
        ultimately show ?thesis using r down by (intro insert_okI) auto
      next
        case False
        then have "insert_id_at i left right = Some (left @ new_range i i 1 # right)"
          using eq no no_up by auto
        moreover have "rl_wf (left @ new_range i i 1 # right)" using wf lt i by auto
        ultimately show ?thesis by (intro insert_okI) auto
      qed
    qed
  qed
qed

lemma insert_id_at_correct:
  assumes wf: "rl_wf (left @ right)" and i: "i < u32_limit"
    and left: "\<forall>a \<in> set left. RN_max a \<le> i" and right: "right = [] \<or> i < RN_max (hd right)"
  shows "insert_ok i (left @ right) (insert_id_at i left right)"
proof (cases "right \<noteq> [] \<and> RN_min (hd right) < i")
  case True
  then obtain b rs where "right = b # rs" by (cases right) auto
  then show ?thesis using insert_id_at_inside[of left b rs i] wf right True by simp
next
  case False
  then have "\<forall>b \<in> set right. i \<le> RN_min b"
    using wf right by (cases right) (auto simp: range_ok_def)
  then show ?thesis using insert_id_at_between wf i left by blast
qed

text \<open>The walk reaches the place of the id.\<close>

lemma insert_id_loop_correct:
  "rl_wf (rev left @ right) \<Longrightarrow> i < u32_limit \<Longrightarrow> right = [] \<or> i < RN_max (hd right) \<Longrightarrow>
   left = [] \<longrightarrow> right = [] \<Longrightarrow>
   insert_ok i (rev left @ right) (insert_id_loop i left right)"
proof (induction i left right rule: insert_id_loop.induct)
  case (1 i right)
  then show ?case by (intro insert_okI) auto
next
  case (2 i r left right)
  show ?case
  proof (cases "i < RN_max r")
    case above: True
    show ?thesis
    proof (cases "left = []")
      case True
      then show ?thesis
        using insert_id_at_correct[of "[]" "r # right" i] 2 above by auto
    next
      case False
      then show ?thesis using "2.IH"[OF above False] 2 above by auto
    qed
  next
    case False
    have "\<forall>a \<in> set (rev left @ [r]). RN_max a \<le> i"
      using "2.prems"(1) False by (auto simp: range_ok_def)
    then show ?thesis
      using insert_id_at_correct[of "rev left @ [r]" right i] 2 False by auto
  qed
qed

lemma range_list_insert_id_correct:
  assumes "rl_wf (elems l)" "i < u32_limit"
  shows "\<exists>l'. range_list_insert_id l i = Some (Some l') \<and> rl_wf l' \<and>
     list_ids l' = insert i (list_ids (elems l))"
  using insert_id_loop_correct[of "rev (elems l)" "[]" i] assms
  by (auto simp: range_list_insert_id_def sort_by_min_wf insert_ok_def)


section \<open>Queries\<close>

lemma range_is_id_within_correct:
  "range_ok r \<Longrightarrow> i < u32_limit \<Longrightarrow> range_is_id_within r i = Some (i \<in> ids r)"
  by (auto simp: range_is_id_within_def range_get_all_ids_def ids_def range_ok_def u32_arith)

lemma id_within_loop_correct:
  "\<forall>r \<in> set rs. range_ok r \<Longrightarrow> i < u32_limit \<Longrightarrow> id_within_loop rs i = Some (i \<in> list_ids rs)"
  by (induction rs) (auto simp: range_is_id_within_correct)

lemma range_list_is_id_within_correct:
  "rl_wf (elems l) \<Longrightarrow> i < u32_limit \<Longrightarrow>
   range_list_is_id_within l i = Some (i \<in> list_ids (elems l))"
  by (simp add: range_list_is_id_within_def id_within_loop_correct rl_wf_ok)

lemma finite_ids [simp]: "finite (ids r)"
  by (rule finite_subset[of _ "{..RN_max r}"]) (auto simp: ids_def)

lemma finite_list_ids [simp]: "finite (list_ids rs)"
  by (simp add: list_ids_def)

lemma range_get_number_of_ids_correct:
  assumes "range_ok r"
  shows "range_get_number_of_ids r = Some (card (ids r) mod u32_limit)"
proof -
  obtain n where n: "RN_max r = RN_min r + n * RN_step r" "ids r = span (RN_min r) (RN_step r) n"
    "RN_min r + n * RN_step r < u32_limit" "0 < RN_step r" "RN_step r < u32_limit"
    using assms by (rule range_okE)
  then have "u32_sub (RN_max r) (RN_min r) = n * RN_step r" by (simp add: u32_arith)
  then show ?thesis
    using n by (simp add: range_get_number_of_ids_def range_get_all_ids_def card_span u32_add_def)
qed

lemma number_of_ids_loop_correct:
  "rl_wf rs \<Longrightarrow> ret < u32_limit \<Longrightarrow>
   number_of_ids_loop rs ret = Some ((ret + card (list_ids rs)) mod u32_limit)"
proof (induction rs arbitrary: ret)
  case Nil
  then show ?case by simp
next
  case (Cons r rs)
  have "ids r \<inter> list_ids rs = {}" using Cons.prems(1) rl_wf_later by blast
  then have "card (ids r \<union> list_ids rs) = card (ids r) + card (list_ids rs)"
    by (simp add: card_Un_disjoint)
  moreover have "(u32_add ret (card (ids r) mod u32_limit) + card (list_ids rs)) mod u32_limit =
      (ret + (card (ids r) + card (list_ids rs))) mod u32_limit"
    unfolding u32_add_def by (metis (no_types, lifting) add.assoc mod_add_left_eq mod_add_right_eq)
  ultimately show ?case
    using Cons by (simp add: range_get_number_of_ids_correct)
qed

lemma range_list_get_number_of_ids_correct:
  "rl_wf (elems l) \<Longrightarrow> range_list_get_number_of_ids l = Some (card (list_ids (elems l)) mod u32_limit)"
  using number_of_ids_loop_correct[of "elems l" 0] by (simp add: range_list_get_number_of_ids_def)

lemma list_ids_less: "rl_wf rs \<Longrightarrow> i \<in> list_ids rs \<Longrightarrow> i < u32_limit"
  by (force simp: list_ids_def rl_wf_def range_ok_def dest: ids_bounds)

lemma first_id_Min: "rl_wf (r # rs) \<Longrightarrow> RN_min r = Min (list_ids (r # rs))"
  by (rule Min_eqI[symmetric])
     (auto simp: min_in_ids list_ids_def range_ok_def dest!: ids_bounds intro: le_trans less_imp_le)

lemma last_id_Max: "rl_wf (rs @ [r]) \<Longrightarrow> RN_max r = Max (list_ids (rs @ [r]))"
  by (rule Max_eqI[symmetric])
     (fastforce simp: max_in_ids list_ids_def range_ok_def dest!: ids_bounds)+

lemma list_ids_empty: "rl_wf rs \<Longrightarrow> list_ids rs = {} \<longleftrightarrow> rs = []"
  by (cases rs) (auto dest: min_in_ids)

lemma range_list_get_first_id_correct:
  "rl_wf (elems l) \<Longrightarrow> range_list_get_first_id l =
   (if list_ids (elems l) = {} then (0, [no_elements_msg]) else (Min (list_ids (elems l)), []))"
  by (cases "elems l")
     (simp_all add: range_list_get_first_id_def list_ids_empty first_id_Min
       del: list_ids_simps(2) rl_wf_simps(2))

lemma range_list_get_last_id_correct:
  "rl_wf (elems l) \<Longrightarrow> range_list_get_last_id l =
   (if list_ids (elems l) = {} then (0, [no_elements_msg]) else (Max (list_ids (elems l)), []))"
  by (cases "elems l" rule: rev_cases)
     (simp_all add: range_list_get_last_id_def list_ids_empty last_id_Max
       del: list_ids_simps(2,3) rl_wf_simps(2,3))

section \<open>Joining\<close>

lemma ids_singleton: "RN_min r = RN_max r \<Longrightarrow> ids r = {RN_max r}"
  by (auto simp: ids_def)

lemma join_ranges_correct:
  assumes ok: "range_ok r1" "range_ok r2" and lt: "RN_max r1 < RN_min r2"
    and join: "join_ranges r1 r2 = Some r"
  shows "range_ok r \<and> ids r = ids r1 \<union> ids r2 \<and> RN_min r = RN_min r1 \<and> RN_max r = RN_max r2"
proof -
  obtain n1 where n1: "RN_max r1 = RN_min r1 + n1 * RN_step r1" "ids r1 = span (RN_min r1) (RN_step r1) n1"
    "RN_min r1 + n1 * RN_step r1 < u32_limit" "0 < RN_step r1" "RN_step r1 < u32_limit"
    using ok(1) by (rule range_okE)
  obtain n2 where n2: "RN_max r2 = RN_min r2 + n2 * RN_step r2" "ids r2 = span (RN_min r2) (RN_step r2) n2"
    "RN_min r2 + n2 * RN_step r2 < u32_limit" "0 < RN_step r2" "RN_step r2 < u32_limit"
    using ok(2) by (rule range_okE)
  have up: "u32_add (RN_max r1) (RN_step r1) = RN_min r2 \<longleftrightarrow> RN_max r1 + RN_step r1 = RN_min r2"
    using u32_add_eq_above[of "RN_max r1" "RN_step r1" "RN_min r2"] n1 n2 lt by simp
  have down: "RN_max r1 = u32_sub (RN_min r2) (RN_step r2) \<longleftrightarrow>
      RN_step r2 \<le> RN_min r2 \<and> RN_min r2 - RN_step r2 = RN_max r1"
    using u32_sub_eq_below[of "RN_min r2" "RN_step r2" "RN_max r1"] n1 n2 lt by auto
  consider
    (same) "RN_max r1 + RN_step r1 = RN_min r2" "RN_step r1 = RN_step r2"
      "r = new_range (RN_min r1) (RN_max r2) (RN_step r2)"
  | (left) "RN_min r1 = RN_max r1" "RN_step r2 \<le> RN_min r2" "RN_min r2 - RN_step r2 = RN_max r1"
      "r = new_range (RN_min r1) (RN_max r2) (RN_step r2)"
  | (right) "RN_min r2 = RN_max r2" "RN_max r1 + RN_step r1 = RN_min r2"
      "r = new_range (RN_min r1) (RN_max r2) (RN_step r1)"
  | (singles) "RN_min r1 = RN_max r1" "RN_min r2 = RN_max r2"
      "r = new_range (RN_min r1) (RN_min r2) (u32_sub (RN_min r2) (RN_min r1))"
    using join up down
    by (auto simp: join_ranges_def range_get_all_ids_def range_set_new split: if_splits)
  then show ?thesis
  proof cases
    case same
    then have "RN_max r2 = RN_min r1 + Suc (n1 + n2) * RN_step r2"
      using n1 n2 by (simp add: algebra_simps)
    moreover have "ids r1 \<union> ids r2 = span (RN_min r1) (RN_step r2) (Suc (n1 + n2))"
      using span_join[of "RN_min r1" "RN_step r2" n1 n2] n1 n2 same by (simp add: algebra_simps)
    ultimately show ?thesis
      using same n2 range_set_ids(2)[of "RN_max r2" "RN_min r1" "Suc (n1 + n2)" "RN_step r2"]
        range_set_ok(2)[of "RN_max r2" "RN_min r1" "Suc (n1 + n2)" "RN_step r2"] by simp
  next
    case left
    then have "ids r1 = {RN_min r1}" by (simp add: ids_singleton)
    then show ?thesis
      using extend_down[OF ok(2) left(2) left(3)] left(1,4) by (simp add: range_set_new)
  next
    case right
    then have "ids r2 = {RN_max r2}" by (simp add: ids_singleton)
    moreover have "RN_max r1 + RN_step r1 = RN_max r2" "RN_max r2 < u32_limit"
      using right n2 by simp_all
    note extend_up[OF ok(1) this]
    ultimately show ?thesis using right(3) by (simp add: range_set_new Un_commute)
  next
    case singles
    define a b where "a = RN_min r1" and "b = RN_min r2"
    have ab: "a < b" "b < u32_limit" using lt singles n2(3) by (simp_all add: a_def b_def)
    have "ids r1 = {a}" "ids r2 = {b}"
      using ids_singleton singles(1,2) by (simp_all add: a_def b_def)
    moreover have "r = new_range a b (b - a)"
      using singles(3) ab by (simp add: u32_arith a_def b_def)
    ultimately show ?thesis
      using ab singles(2) range_set_ids(2)[of b a 1 "b - a"] range_set_ok(2)[of b a 1 "b - a"]
        span_Suc[of a "b - a" 0] by (auto simp: a_def b_def)
  qed
qed

lemma compress_loop_correct:
  "rl_wf rs \<Longrightarrow> rl_wf (compress_loop rs) \<and> list_ids (compress_loop rs) = list_ids rs"
proof (induction rs rule: compress_loop.induct)
  case (1 r1 r2 rs)
  show ?case
  proof (cases "join_ranges r1 r2")
    case None
    then have IH: "rl_wf (compress_loop (r2 # rs))"
        "list_ids (compress_loop (r2 # rs)) = list_ids (r2 # rs)"
      using 1 by auto
    have "RN_max r1 < RN_min b" if "b \<in> set (compress_loop (r2 # rs))" for b
      using rl_wf_low[OF IH(1) that, of "r2 # rs"] IH(2) "1.prems" by (auto intro: less_le_trans)
    then show ?thesis using None IH "1.prems" by simp
  next
    case (Some r)
    then have "range_ok r \<and> ids r = ids r1 \<union> ids r2 \<and> RN_min r = RN_min r1 \<and> RN_max r = RN_max r2"
      using "1.prems" by (intro join_ranges_correct) auto
    then show ?thesis using 1 Some by auto
  qed
qed auto

lemma range_list_compress_correct:
  "rl_wf (elems l) \<Longrightarrow> rl_wf (elems (range_list_compress l)) \<and>
     list_ids (elems (range_list_compress l)) = list_ids (elems l)"
  by (cases l) (simp_all add: range_list_compress_def compress_loop_correct)

section \<open>The loop over the ids of a range\<close>

definition loopable :: "range \<Rightarrow> bool" where
  "loopable r \<longleftrightarrow> 0 < RN_step r \<and> RN_max r + RN_step r < u32_limit"

lemma range_for_correct:
  "0 < step \<Longrightarrow> end + step < u32_limit \<Longrightarrow>
   \<exists>xs. range_for start end step = Some xs \<and> sorted_wrt (<) xs \<and>
     set xs = {i. start \<le> i \<and> i \<le> end \<and> (i - start) mod step = 0}"
proof (induction "Suc end - start" arbitrary: start rule: less_induct)
  case less
  show ?case
  proof (cases "start \<le> end")
    case False
    then show ?thesis by (subst range_for.simps) auto
  next
    case True
    have add: "u32_add start step = start + step" using True less.prems by (simp add: u32_arith)
    obtain xs' where xs': "range_for (start + step) end step = Some xs'" "sorted_wrt (<) xs'"
        "set xs' = {i. start + step \<le> i \<and> i \<le> end \<and> (i - (start + step)) mod step = 0}"
      using less.hyps[of "start + step"] less.prems True by (auto simp: diff_less_mono2)
    have "(i \<in> set (start # xs')) = (start \<le> i \<and> i \<le> end \<and> (i - start) mod step = 0)" for i
    proof (cases "start + step \<le> i")
      case True
      then obtain j where j: "i = start + step + j" by (auto simp: le_iff_add)
      then have "i - start = step + j" "i - (start + step) = j" by simp_all
      then show ?thesis unfolding list.set xs'(3) using less.prems(1) j by simp
    next
      case False
      then have "start \<le> i \<Longrightarrow> (i - start) mod step = i - start" by simp
      then show ?thesis unfolding list.set xs'(3) using False \<open>start \<le> end\<close> by (cases "i = start") auto
    qed
    then have "set (start # xs') = {i. start \<le> i \<and> i \<le> end \<and> (i - start) mod step = 0}"
      by (intro set_eqI) (simp only: mem_Collect_eq)
    moreover have "\<forall>i \<in> set xs'. start < i" unfolding xs'(3) using less.prems(1) by simp
    then have "sorted_wrt (<) (start # xs')" using xs'(2) by simp
    moreover have "range_for start end step = Some (start # xs')"
      using True add xs'(1) by (simp add: range_for.simps[of start])
    ultimately show ?thesis by blast
  qed
qed

lemma range_for_ids:
  "loopable r \<Longrightarrow> \<exists>xs. range_for (RN_min r) (RN_max r) (RN_step r) = Some xs \<and>
     sorted_wrt (<) xs \<and> set xs = ids r"
  using range_for_correct[of "RN_step r" "RN_max r" "RN_min r"] by (simp add: loopable_def ids_def)

lemma ids_loopable_less: "loopable r \<Longrightarrow> i \<in> ids r \<Longrightarrow> i < u32_limit"
  by (auto simp: loopable_def ids_def)

lemma insert_range_ids_correct:
  assumes wf: "rl_wf (elems l)" and r: "loopable r"
  shows "\<exists>l'. insert_range_ids r l = Some l' \<and> rl_wf (elems l') \<and>
    list_ids (elems l') = ids r \<union> list_ids (elems l)"
proof -
  obtain xs where xs: "range_for (RN_min r) (RN_max r) (RN_step r) = Some xs" "set xs = ids r"
    using range_for_ids[OF r] by auto
  have "\<exists>l'. fold_opt (\<lambda>i l. range_list_insert_id l i) xs l = Some l' \<and> rl_wf (elems l') \<and>
      list_ids (elems l') = fold insert xs (list_ids (elems l))"
  proof (rule fold_opt_rule[where P = "\<lambda>l. rl_wf (elems l)" and a = "\<lambda>l. list_ids (elems l)"])
    fix i l assume "i \<in> set xs" "rl_wf (elems l)"
    then show "\<exists>l'. range_list_insert_id l i = Some l' \<and> rl_wf (elems l') \<and>
        list_ids (elems l') = insert i (list_ids (elems l))"
      using range_list_insert_id_correct[of l i] ids_loopable_less[OF r] xs(2) by fastforce
  qed (rule wf)
  then show ?thesis using xs by (simp add: insert_range_ids_def fold_insert_eq)
qed

lemma remove_range_ids_correct:
  assumes wf: "rl_wf (elems l)" and r: "loopable r"
  shows "\<exists>l'. remove_range_ids r l = Some l' \<and> rl_wf (elems l') \<and>
    list_ids (elems l') = list_ids (elems l) - ids r"
proof -
  obtain xs where xs: "range_for (RN_min r) (RN_max r) (RN_step r) = Some xs" "set xs = ids r"
    using range_for_ids[OF r] by auto
  have "\<exists>l'. fold_opt (\<lambda>i l. range_list_remove_id l i) xs l = Some l' \<and> rl_wf (elems l') \<and>
      list_ids (elems l') = fold (\<lambda>i A. A - {i}) xs (list_ids (elems l))"
  proof (rule fold_opt_rule[where P = "\<lambda>l. rl_wf (elems l)" and a = "\<lambda>l. list_ids (elems l)"])
    fix i l assume "i \<in> set xs" "rl_wf (elems l)"
    then show "\<exists>l'. range_list_remove_id l i = Some l' \<and> rl_wf (elems l') \<and>
        list_ids (elems l') = list_ids (elems l) - {i}"
      using range_list_remove_id_correct[of l i] ids_loopable_less[OF r] xs(2) by fastforce
  qed (rule wf)
  then show ?thesis using xs by (simp add: remove_range_ids_def fold_Diff_eq)
qed

lemma fold_insert_range_ids_correct:
  assumes "rl_wf (elems l)" "\<forall>r \<in> set rs. loopable r"
  shows "\<exists>l'. fold_opt insert_range_ids rs l = Some l' \<and> rl_wf (elems l') \<and>
    list_ids (elems l') = list_ids rs \<union> list_ids (elems l)"
  using fold_opt_rule[where P = "\<lambda>l. rl_wf (elems l)" and a = "\<lambda>l. list_ids (elems l)"
      and f = insert_range_ids and xs = rs and s = l and g = "\<lambda>r A. ids r \<union> A"]
    assms insert_range_ids_correct
  by (simp add: fold_Un_eq list_ids_def)

lemma fold_remove_range_ids_correct:
  assumes "rl_wf (elems l)" "\<forall>r \<in> set rs. loopable r"
  shows "\<exists>l'. fold_opt remove_range_ids rs l = Some l' \<and> rl_wf (elems l') \<and>
    list_ids (elems l') = list_ids (elems l) - list_ids rs"
  using fold_opt_rule[where P = "\<lambda>l. rl_wf (elems l)" and a = "\<lambda>l. list_ids (elems l)"
      and f = remove_range_ids and xs = rs and s = l and g = "\<lambda>r A. A - ids r"]
    assms remove_range_ids_correct
  by (simp add: fold_minus_eq list_ids_def)

section \<open>Normalisation\<close>

text \<open>What a list must satisfy before it is normalised.\<close>

definition raw_ok :: "range \<Rightarrow> bool" where
  "raw_ok r \<longleftrightarrow> RN_min r \<le> RN_max r \<and> loopable r"

lemma range_correct_end_correct:
  assumes "raw_ok r"
  shows "range_ok (range_correct_end r) \<and> raw_ok (range_correct_end r) \<and>
    ids (range_correct_end r) = ids r \<and> RN_min (range_correct_end r) = RN_min r"
proof -
  define n where "n = (RN_max r - RN_min r) div RN_step r"
  define e where "e = RN_min r + n * RN_step r"
  have s: "0 < RN_step r" "RN_step r < u32_limit" "RN_max r + RN_step r < u32_limit"
      "RN_min r \<le> RN_max r"
    using assms by (auto simp: raw_ok_def loopable_def)
  have dm: "RN_max r - RN_min r = n * RN_step r + (RN_max r - RN_min r) mod RN_step r"
    by (simp add: n_def)
  then have le: "e \<le> RN_max r" using s(4) by (simp add: e_def)
  have "n * RN_step r < u32_limit" "RN_min r + n * RN_step r < u32_limit"
    using le s by (simp_all add: e_def)
  then have ce: "range_correct_end r = new_range (RN_min r) e (RN_step r)"
    using s dm by (auto simp: range_correct_end_def range_get_all_ids_def Let_def u32_arith e_def
        range_set_new n_def)
  have "i \<le> RN_max r \<longleftrightarrow> i \<le> e" if i: "RN_min r \<le> i" "(i - RN_min r) mod RN_step r = 0" for i
  proof -
    obtain k where k: "i - RN_min r = RN_step r * k" using i(2) by auto
    have "k * RN_step r \<le> RN_max r - RN_min r \<longleftrightarrow> k \<le> n"
      using s(1) by (simp add: n_def less_eq_div_iff_mult_less_eq)
    moreover have "i = RN_min r + k * RN_step r" using k i(1) by (simp add: mult.commute)
    moreover have "k * RN_step r \<le> n * RN_step r \<longleftrightarrow> k \<le> n" using s(1) by simp
    ultimately show ?thesis using s(4) unfolding e_def by linarith
  qed
  then have "ids r = span (RN_min r) (RN_step r) n"
    using s(1) by (auto simp: ids_def mem_span_iff e_def)
  then show ?thesis
    using ce range_set_ids(2)[of e "RN_min r" n "RN_step r"]
      range_set_ok(2)[of e "RN_min r" n "RN_step r"] s le
    by (auto simp: e_def raw_ok_def loopable_def)
qed

lemma dechain_overlapping_correct:
  "sorted (map RN_min (r1 # rs)) \<Longrightarrow> \<forall>r \<in> set rs. raw_ok r \<Longrightarrow>
   dechain_overlapping True r1 rs = (tmp, kept) \<Longrightarrow>
   sorted (map RN_min kept) \<and> (\<forall>r \<in> set tmp. raw_ok r) \<and> (\<forall>r \<in> set kept. raw_ok r) \<and>
   (\<forall>r \<in> set kept. RN_max r1 < RN_min r) \<and> list_ids tmp \<union> list_ids kept = list_ids rs"
proof (induction rs arbitrary: tmp kept)
  case Nil
  then show ?case by simp
next
  case (Cons r2 rs)
  have c: "range_ok (range_correct_end r2)" "raw_ok (range_correct_end r2)"
      "ids (range_correct_end r2) = ids r2" "RN_min (range_correct_end r2) = RN_min r2"
    using range_correct_end_correct[of r2] Cons.prems(2) by auto
  show ?case
  proof (cases "range_is_overlapping r1 (range_correct_end r2)")
    case True
    then obtain tmp' where "dechain_overlapping True r1 rs = (tmp', kept)"
        "tmp = range_correct_end r2 # tmp'"
      using Cons.prems(3) by (auto simp: correct_if_def split: prod.splits)
    then show ?thesis using Cons.IH[of tmp' kept] Cons.prems c by auto
  next
    case False
    then have "tmp = []" "kept = range_correct_end r2 # rs"
      using Cons.prems(3) by (auto simp: correct_if_def)
    then show ?thesis using False Cons.prems c by (auto simp: range_is_overlapping_def)
  qed
qed

lemma remove_overlaps_correct:
  "sorted (map RN_min rs) \<Longrightarrow> \<forall>r \<in> set rs. raw_ok r \<Longrightarrow> remove_overlaps True rs = (tmp, kept) \<Longrightarrow>
   rl_wf kept \<and> (\<forall>r \<in> set tmp. raw_ok r) \<and> list_ids tmp \<union> list_ids kept = list_ids rs"
proof (induction "True" rs arbitrary: tmp kept rule: remove_overlaps.induct)
  case 1
  then show ?case by simp
next
  case (2 r1 rs)
  have c: "range_ok (range_correct_end r1)" "raw_ok (range_correct_end r1)"
      "ids (range_correct_end r1) = ids r1" "RN_min (range_correct_end r1) = RN_min r1"
    using range_correct_end_correct[of r1] "2.prems"(2) by auto
  obtain t k where tk: "dechain_overlapping True (range_correct_end r1) rs = (t, k)" by fastforce
  obtain t' k' where tk': "remove_overlaps True k = (t', k')" by fastforce
  have d: "sorted (map RN_min k)" "\<forall>r \<in> set t. raw_ok r" "\<forall>r \<in> set k. raw_ok r"
      "\<forall>r \<in> set k. RN_max (range_correct_end r1) < RN_min r" "list_ids t \<union> list_ids k = list_ids rs"
    using dechain_overlapping_correct[OF _ _ tk] "2.prems"(1,2) c by auto
  have IH: "rl_wf k'" "\<forall>r \<in> set t'. raw_ok r" "list_ids t' \<union> list_ids k' = list_ids k"
    using "2.hyps"[OF _ tk[symmetric] refl d(1,3) tk'] by (auto simp: correct_if_def)
  have "RN_max (range_correct_end r1) < RN_min b" if "b \<in> set k'" for b
    using rl_wf_low[OF IH(1) that, of k] IH(3) d(4) by (auto intro: less_le_trans)
  moreover have "tmp = t @ t'" "kept = range_correct_end r1 # k'"
    using "2.prems"(3) tk tk' by (auto simp: correct_if_def)
  ultimately show ?case using IH d c by auto
qed

lemma list_ids_sort [simp]: "list_ids (sort_by_min rs) = list_ids rs"
  by (simp add: list_ids_def sort_by_min_def)

lemma range_list_sort_uniq_compress_correct:
  assumes "\<forall>r \<in> set rs. raw_ok r"
  shows "\<exists>l'. range_list_sort_uniq_compress (Some rs) True = Some l' \<and> rl_wf (elems l') \<and>
    list_ids (elems l') = list_ids rs"
proof -
  obtain t k where tk: "remove_overlaps True (sort_by_min rs) = (t, k)" by fastforce
  have "rl_wf k" "\<forall>r \<in> set t. raw_ok r" "list_ids t \<union> list_ids k = list_ids rs"
    using remove_overlaps_correct[OF _ _ tk] assms list_ids_sort[of rs] by (simp_all add: sort_by_min_def)
  then obtain l1 where "fold_opt insert_range_ids t (Some k) = Some l1" "rl_wf (elems l1)"
      "list_ids (elems l1) = list_ids rs"
    using fold_insert_range_ids_correct[of "Some k" t] by (auto simp: raw_ok_def)
  then show ?thesis
    using tk range_list_compress_correct[of l1] by (simp add: range_list_sort_uniq_compress_def)
qed

section \<open>Set operations\<close>

lemma range_list_calculate_union_set_correct:
  assumes "\<forall>r \<in> set (elems l1). raw_ok r" "\<forall>r \<in> set (elems l2). raw_ok r" "l1 \<noteq> None \<or> l2 \<noteq> None"
  shows "\<exists>l'. range_list_calculate_union_set l l1 l2 = Some l' \<and> rl_wf (elems l') \<and>
    list_ids (elems l') = list_ids (elems l1) \<union> list_ids (elems l2)"
proof (cases l1)
  case None
  then obtain r2 where r2: "l2 = Some r2" using assms(3) by auto
  then show ?thesis
    using None assms(2) range_list_sort_uniq_compress_correct[of r2]
    by (auto simp: range_list_calculate_union_set_def)
next
  case (Some r1)
  then obtain l' where l': "range_list_sort_uniq_compress l1 True = Some l'" "rl_wf (elems l')"
      "list_ids (elems l') = list_ids r1"
    using range_list_sort_uniq_compress_correct[of r1] assms(1) by auto
  obtain l'' where l'': "fold_opt insert_range_ids (elems l2) l' = Some l''" "rl_wf (elems l'')"
      "list_ids (elems l'') = list_ids (elems l2) \<union> list_ids r1"
    using fold_insert_range_ids_correct[of l' "elems l2"] l' assms(2) by (auto simp: raw_ok_def)
  show ?thesis
    using Some l' l'' range_list_compress_correct[of l'']
    by (cases l2) (auto simp: range_list_calculate_union_set_def)
qed

lemma range_list_calculate_difference_set_correct:
  assumes "\<forall>r \<in> set rs. raw_ok r" "\<forall>r \<in> set (elems l2). raw_ok r"
  shows "\<exists>l'. range_list_calculate_difference_set l (Some rs) l2 = Some l' \<and> rl_wf (elems l') \<and>
    list_ids (elems l') = list_ids rs - list_ids (elems l2)"
proof -
  obtain l' where l': "range_list_sort_uniq_compress (Some rs) True = Some l'" "rl_wf (elems l')"
      "list_ids (elems l') = list_ids rs"
    using range_list_sort_uniq_compress_correct[of rs] assms(1) by auto
  obtain l'' where l'': "fold_opt remove_range_ids (elems l2) l' = Some l''" "rl_wf (elems l'')"
      "list_ids (elems l'') = list_ids rs - list_ids (elems l2)"
    using fold_remove_range_ids_correct[of l' "elems l2"] l' assms(2) by (auto simp: raw_ok_def)
  show ?thesis
    using l' l'' range_list_compress_correct[of l'']
    by (cases l2) (auto simp: range_list_calculate_difference_set_def)
qed

text \<open>The intersection is built as a list of single ids.\<close>

definition singles :: "u32 list \<Rightarrow> range list" where
  "singles xs = map (\<lambda>i. new_range i i 1) xs"

lemma list_ids_singles [simp]: "list_ids (singles xs) = set xs"
  by (auto simp: list_ids_def singles_def)

lemma rl_wf_singles: "sorted_wrt (<) xs \<Longrightarrow> \<forall>i \<in> set xs. i < u32_limit \<Longrightarrow> rl_wf (singles xs)"
  by (induction xs) (auto simp: singles_def)

definition singles_of :: "u32 list \<Rightarrow> rlist" where
  "singles_of xs = (if xs = [] then None else Some (singles xs))"

lemma elems_singles_of [simp]: "elems (singles_of xs) = singles xs"
  by (simp add: singles_of_def singles_def)

lemma fold_intersect_ids:
  assumes "rl_wf (elems l2)"
  shows "\<forall>i \<in> set xs. i < u32_limit \<Longrightarrow> fold_opt (intersect_ids l2) xs (singles_of ys) =
    Some (singles_of (ys @ filter (\<lambda>i. i \<in> list_ids (elems l2)) xs))"
proof (induction xs arbitrary: ys)
  case Nil
  then show ?case by simp
next
  case (Cons x xs)
  have "append_range (singles_of ys) (new_range x x 1) = singles_of (ys @ [x])"
    by (simp add: append_range_def singles_of_def singles_def)
  then show ?case
    using Cons assms Cons.IH[of "ys @ [x]"]
    by (simp add: intersect_ids_def range_list_is_id_within_correct)
qed

lemma fold_intersect_range_ids:
  assumes "rl_wf (elems l2)"
  shows "rl_wf rs \<Longrightarrow> \<forall>r \<in> set rs. loopable r \<Longrightarrow>
    \<exists>xs. fold_opt (intersect_range_ids l2) rs (singles_of ys) = Some (singles_of (ys @ xs)) \<and>
      sorted_wrt (<) xs \<and> set xs = list_ids rs \<inter> list_ids (elems l2)"
proof (induction rs arbitrary: ys)
  case Nil
  then show ?case by simp
next
  case (Cons r rs)
  obtain is1 where is1: "range_for (RN_min r) (RN_max r) (RN_step r) = Some is1"
      "sorted_wrt (<) is1" "set is1 = ids r"
    using range_for_ids[of r] Cons.prems(2) by auto
  let ?f = "filter (\<lambda>i. i \<in> list_ids (elems l2)) is1"
  have "\<forall>i \<in> set is1. i < u32_limit"
    using is1(3) Cons.prems(2) by (auto dest: ids_loopable_less)
  then have step: "intersect_range_ids l2 r (singles_of ys) = Some (singles_of (ys @ ?f))"
    using is1(1) fold_intersect_ids[OF assms] by (simp add: intersect_range_ids_def)
  obtain xs where xs: "fold_opt (intersect_range_ids l2) rs (singles_of (ys @ ?f)) =
        Some (singles_of ((ys @ ?f) @ xs))"
      "sorted_wrt (<) xs" "set xs = list_ids rs \<inter> list_ids (elems l2)"
    using Cons.IH[of "ys @ ?f"] Cons.prems by auto
  have "i < j" if "i \<in> ids r" "j \<in> list_ids rs" for i j
    using that Cons.prems(1) by (auto simp: list_ids_def dest!: ids_bounds)
  then have "sorted_wrt (<) (?f @ xs)"
    using is1 xs by (auto simp: sorted_wrt_append intro: sorted_wrt_filter)
  moreover have "set (?f @ xs) = list_ids (r # rs) \<inter> list_ids (elems l2)"
    using is1(3) xs(3) by auto
  ultimately show ?case
    using step xs(1) by (intro exI[of _ "?f @ xs"]) simp
qed

lemma range_list_calculate_intersection_set_correct:
  assumes "rl_wf (elems l1)" "\<forall>r \<in> set (elems l1). loopable r" "rl_wf (elems l2)"
  shows "\<exists>l'. range_list_calculate_intersection_set l1 l2 = Some l' \<and> rl_wf (elems l') \<and>
    list_ids (elems l') = list_ids (elems l1) \<inter> list_ids (elems l2) \<and> l' \<noteq> Some []"
proof (cases "l1 = None \<or> l2 = None")
  case True
  then show ?thesis by (auto simp: range_list_calculate_intersection_set_def)
next
  case False
  obtain xs where xs: "fold_opt (intersect_range_ids l2) (elems l1) (singles_of []) =
        Some (singles_of xs)"
      "sorted_wrt (<) xs" "set xs = list_ids (elems l1) \<inter> list_ids (elems l2)"
    using fold_intersect_range_ids[OF assms(3,1,2), of "[]"] by auto
  have "rl_wf (singles xs)"
    using xs list_ids_less[OF assms(1)] by (intro rl_wf_singles) auto
  then have c: "rl_wf (compress_loop (singles xs)) \<and> list_ids (compress_loop (singles xs)) = set xs"
    using compress_loop_correct[of "singles xs"] by simp
  then have "xs \<noteq> [] \<Longrightarrow> compress_loop (singles xs) \<noteq> []" by auto
  then show ?thesis
    using False xs c
    by (auto simp: range_list_calculate_intersection_set_def singles_of_def range_list_compress_def)
qed


section \<open>The interface: a set of ids\<close>

text \<open>Range lists provide the interface the job code relies on.\<close>

interpretation range_ids: id_set "\<lambda>l. rl_wf (elems l)" "\<lambda>l. list_ids (elems l)" u32_limit
  range_list_insert_id range_list_remove_id range_list_compress range_list_is_id_within
proof unfold_locales
  fix l :: rlist and i :: nat
  assume wf: "rl_wf (elems l)"
  show "rl_wf (elems (range_list_compress l)) \<and>
      list_ids (elems (range_list_compress l)) = list_ids (elems l)"
    by (rule range_list_compress_correct[OF wf])
  assume i: "i < u32_limit"
  show "\<exists>l'. range_list_insert_id l i = Some l' \<and> rl_wf (elems l') \<and>
      list_ids (elems l') = insert i (list_ids (elems l))"
    using range_list_insert_id_correct[OF wf i] by fastforce
  show "\<exists>l'. range_list_remove_id l i = Some l' \<and> rl_wf (elems l') \<and>
      list_ids (elems l') = list_ids (elems l) - {i}"
    using range_list_remove_id_correct[OF wf i] by blast
  show "range_list_is_id_within l i = Some (i \<in> list_ids (elems l))"
    by (rule range_list_is_id_within_correct[OF wf i])
qed

section \<open>Properties\<close>

lemmas range_eval = range_list_insert_id_def sort_by_min_def insert_id_at_def
  range_get_all_ids_def new_range_def range_set_all_ids_def range_list_compress_def
  join_ranges_def u32_add_def u32_sub_def u32_mul_def range_list_remove_id_def
  remove_range_ids_def insert_range_ids_def

text \<open>
  C5. Refinement of a finite set. Any sequence of insertions, removals and compressions of ids,
  run on a well-formed list, returns; the result is well-formed, holds exactly the ids that
  the same sequence of set operations gives, and the membership test and the count of ids
  (which is 32 bits wide) agree with that set.
\<close>

theorem range_list_refines_id_set:
  assumes "rl_wf (elems l)" "\<forall>p \<in> set ps. id_op_arg p \<subseteq> {..<u32_limit}"
  shows "\<exists>l'. fold_opt (id_op_run range_list_insert_id range_list_remove_id range_list_compress)
      ps l = Some l' \<and> rl_wf (elems l') \<and>
    (let A = fold id_op_abs ps (list_ids (elems l)) in
      list_ids (elems l') = A \<and>
      (\<forall>i < u32_limit. range_list_is_id_within l' i = Some (i \<in> A)) \<and>
      range_list_get_number_of_ids l' = Some (card A mod u32_limit))"
  using range_ids.run_refines[OF assms] range_list_get_number_of_ids_correct
  by (fastforce simp: Let_def)

definition rng :: "nat \<Rightarrow> nat \<Rightarrow> nat \<Rightarrow> range" where
  "rng a b s = \<lparr>RN_min = a, RN_max = b, RN_step = s\<rparr>"

lemma rng_sel [simp]: "RN_min (rng a b s) = a" "RN_max (rng a b s) = b" "RN_step (rng a b s) = s"
  by (simp_all add: rng_def)

theorem range_list_refines_id_set_witness:
  "rl_wf (elems (Some [rng 1 9 2])) \<and>
   (\<exists>l'. fold_opt (id_op_run range_list_insert_id range_list_remove_id range_list_compress)
      [Insert_Id 4, Remove_Id 1, Normalise] (Some [rng 1 9 2]) = Some l' \<and> rl_wf (elems l'))"
proof -
  have wf: "rl_wf (elems (Some [rng 1 9 2]))" by (simp add: range_ok_def)
  have "\<forall>p \<in> set [Insert_Id 4, Remove_Id 1, Normalise]. id_op_arg p \<subseteq> {..<u32_limit}" by simp
  from range_list_refines_id_set[OF wf this] wf show ?thesis by blast
qed

text \<open>
  Normalisation. From any list of ranges, in any order, overlapping or not, and with ends
  that no id of the range reaches, \<open>range_list_sort_uniq_compress\<close> makes a well-formed list
  (ascending, disjoint, ends corrected) with the same ids. The ranges must not be empty, and
  their loops must end before the counter wraps.
\<close>

theorem sort_uniq_compress_normalises:
  assumes "\<forall>r \<in> set rs. RN_min r \<le> RN_max r \<and> 0 < RN_step r \<and> RN_max r + RN_step r < u32_limit"
  shows "\<exists>l'. range_list_sort_uniq_compress (Some rs) True = Some l' \<and> rl_wf (elems l') \<and>
    list_ids (elems l') = list_ids rs"
  using range_list_sort_uniq_compress_correct[of rs] assms by (simp add: raw_ok_def loopable_def)

theorem sort_uniq_compress_normalises_witness:
  "\<exists>l'. range_list_sort_uniq_compress (Some [rng 12 12 7, rng 1 7 1, rng 3 5 2]) True = Some l' \<and>
     rl_wf (elems l') \<and> list_ids (elems l') = list_ids [rng 12 12 7, rng 1 7 1, rng 3 5 2]"
  by (rule sort_uniq_compress_normalises) simp

text \<open>
  Set algebra. The three set operations return well-formed lists whose ids are the union,
  the difference and the intersection of the ids of their operands; an empty intersection is
  the \<open>NULL\<close> list.
\<close>

theorem range_set_operations:
  assumes "\<forall>r \<in> set rs1 \<union> set rs2. RN_max r + RN_step r < u32_limit" "rl_wf rs1" "rl_wf rs2"
  shows "\<exists>u d n. range_list_calculate_union_set l (Some rs1) (Some rs2) = Some u \<and>
    range_list_calculate_difference_set l (Some rs1) (Some rs2) = Some d \<and>
    range_list_calculate_intersection_set (Some rs1) (Some rs2) = Some n \<and>
    rl_wf (elems u) \<and> rl_wf (elems d) \<and> rl_wf (elems n) \<and>
    list_ids (elems u) = list_ids rs1 \<union> list_ids rs2 \<and>
    list_ids (elems d) = list_ids rs1 - list_ids rs2 \<and>
    list_ids (elems n) = list_ids rs1 \<inter> list_ids rs2 \<and>
    (n = None \<longleftrightarrow> list_ids rs1 \<inter> list_ids rs2 = {})"
proof -
  have raw: "\<forall>r \<in> set rs1. raw_ok r" "\<forall>r \<in> set rs2. raw_ok r"
    using assms by (auto simp: raw_ok_def loopable_def range_ok_def dest: rl_wf_ok)
  then have lo: "\<forall>r \<in> set rs1. loopable r" by (simp add: raw_ok_def)
  obtain u where u: "range_list_calculate_union_set l (Some rs1) (Some rs2) = Some u"
      "rl_wf (elems u)" "list_ids (elems u) = list_ids rs1 \<union> list_ids rs2"
    using range_list_calculate_union_set_correct[of "Some rs1" "Some rs2" l] raw by auto
  obtain d where d: "range_list_calculate_difference_set l (Some rs1) (Some rs2) = Some d"
      "rl_wf (elems d)" "list_ids (elems d) = list_ids rs1 - list_ids rs2"
    using range_list_calculate_difference_set_correct[of rs1 "Some rs2" l] raw by auto
  obtain n where n: "range_list_calculate_intersection_set (Some rs1) (Some rs2) = Some n"
      "rl_wf (elems n)" "list_ids (elems n) = list_ids rs1 \<inter> list_ids rs2" "n \<noteq> Some []"
    using range_list_calculate_intersection_set_correct[of "Some rs1" "Some rs2"] lo assms by auto
  have "n = None \<longleftrightarrow> list_ids rs1 \<inter> list_ids rs2 = {}"
    using n list_ids_empty[OF n(2)] by (cases n) auto
  with u d n show ?thesis by blast
qed

theorem range_set_operations_witness:
  "\<exists>u d n. range_list_calculate_union_set None (Some [rng 1 9 2]) (Some [rng 1 20 1]) = Some u \<and>
    range_list_calculate_difference_set None (Some [rng 1 9 2]) (Some [rng 1 20 1]) = Some d \<and>
    range_list_calculate_intersection_set (Some [rng 1 9 2]) (Some [rng 1 20 1]) = Some n"
  using range_set_operations[of "[rng 1 9 2]" "[rng 1 20 1]" None] by (auto simp: range_ok_def)

text \<open>
  The first and the last id of a well-formed list are the least and the greatest of its ids;
  on a list without ids both are 0 and one message is put on the answer list.
\<close>

theorem first_last_id_are_extremes:
  assumes "rl_wf (elems l)"
  shows "range_list_get_first_id l = (if list_ids (elems l) = {} then (0, [no_elements_msg])
      else (Min (list_ids (elems l)), [])) \<and>
    range_list_get_last_id l = (if list_ids (elems l) = {} then (0, [no_elements_msg])
      else (Max (list_ids (elems l)), []))"
  using assms by (simp add: range_list_get_first_id_correct range_list_get_last_id_correct)

theorem first_last_id_are_extremes_witness:
  "range_list_get_last_id (Some [rng 1 9 2, rng 12 12 1]) = (12, []) \<and>
   range_list_get_last_id (Some [rng 1 9 2, rng 12 12 1]) =
     (Max (list_ids [rng 1 9 2, rng 12 12 1]), [])"
  using first_last_id_are_extremes[of "Some [rng 1 9 2, rng 12 12 1]"]
  by (auto simp: range_ok_def range_list_get_last_id_def ids_def)

text \<open>
  \<open>range_list_move_first_n_ids\<close> does not stop at \<open>n\<close> ids: the \<open>break\<close> leaves the loop
  over one range only, and the next range starts with the counter at 0, which wraps. Asked to
  move two ids out of 1-3,5-9 it moves seven.
\<close>

theorem move_first_n_moves_too_many:
  "range_list_move_first_n_ids (Some [rng 1 3 1, rng 5 9 1]) None 2 =
     Some (Some [rng 3 3 1], Some [rng 1 2 1, rng 5 9 1])"
  by (simp add: range_list_move_first_n_ids_def move_range_ids_def move_ids.simps
      range_for.simps range_eval Let_def rng_def)

text \<open>
  Parsing can lose ids. \<open>expand_range_list\<close> means to insert a range ahead of the first
  one it lies above, but \<open>lInsertElem(*rl, NULL, r)\<close> puts it at the head of the list. The list
  is then not descending any more, and a later range that widens the head drops every other
  range behind it: adding 10-20, 3, 5-7 and 4-6 in this order loses the ids 10 to 20.
\<close>

theorem expand_range_list_loses_ids:
  "fold expand_range_list [rng 10 20 1, rng 3 3 1, rng 5 7 1, rng 4 6 1] None =
     Some [rng 4 7 1, rng 3 3 1]"
  by (simp add: expand_range_list_def rng_def)

end
