(* ===== verification/Job_Ids.thy ===== *)
theory Job_Ids
  imports Range_Facts
begin

unbundle bit_operations_syntax

text \<open>
  The task ids of an array job, \<^verbatim>\<open>source/libs/sgeobj/sge_job.c\<close>. A job keeps the ids of its
  tasks in range lists: \<open>JB_ja_structure\<close> as submitted, and for the tasks not yet enrolled
  \<open>JB_ja_n_h_ids\<close> (no hold) and one list for each kind of hold (user, operator, system, array
  dependency). A task that is enrolled has an element in \<open>JB_ja_tasks\<close> instead, which
  carries its hold flags itself.

  The fields of the record are the CULL attributes these functions use; the range lists are
  read and written by attribute, as \<open>lGetList\<close> and \<open>lXchgList\<close> do.
\<close>

section \<open>Data\<close>

type_synonym flags = "32 word"

definition MINUS_H_TGT_USER :: flags where "MINUS_H_TGT_USER = 1"
definition MINUS_H_TGT_OPERATOR :: flags where "MINUS_H_TGT_OPERATOR = 2"
definition MINUS_H_TGT_SYSTEM :: flags where "MINUS_H_TGT_SYSTEM = 4"
definition MINUS_H_TGT_JA_AD :: flags where "MINUS_H_TGT_JA_AD = 8"
definition MINUS_H_TGT_ALL :: flags where "MINUS_H_TGT_ALL = 15"

definition JIDLE :: flags where "JIDLE = 0x00000000"
definition JHELD :: flags where "JHELD = 0x00000010"
definition JQUEUED :: flags where "JQUEUED = 0x00000040"
definition JWAITING :: flags where "JWAITING = 0x00000800"

lemmas hold_flags = MINUS_H_TGT_USER_def MINUS_H_TGT_OPERATOR_def MINUS_H_TGT_SYSTEM_def
  MINUS_H_TGT_JA_AD_def MINUS_H_TGT_ALL_def

record ja_task =
  JAT_task_number :: u32
  JAT_status :: flags
  JAT_state :: flags
  JAT_hold :: flags

datatype id_attr = JB_ja_structure | JB_ja_n_h_ids | JB_ja_u_h_ids | JB_ja_o_h_ids
  | JB_ja_s_h_ids | JB_ja_a_h_ids | JB_ja_z_ids

record job =
  JB_job_number :: u32
  JB_ids :: "id_attr \<Rightarrow> rlist"
  JB_ja_template :: "ja_task option"
  JB_ja_tasks :: "ja_task list"

definition set_ids :: "id_attr \<Rightarrow> rlist \<Rightarrow> job \<Rightarrow> job" where
  "set_ids a l j = j\<lparr>JB_ids := (JB_ids j)(a := l)\<rparr>"

definition object_delete_range_id :: "job \<Rightarrow> id_attr \<Rightarrow> u32 \<Rightarrow> job option" where
  "object_delete_range_id j a i =
     do { l \<leftarrow> range_list_remove_id (JB_ids j a) i;
          Some (set_ids a (range_list_compress l) j) }"

definition object_set_range_id :: "job \<Rightarrow> id_attr \<Rightarrow> u32 \<Rightarrow> u32 \<Rightarrow> u32 \<Rightarrow> job" where
  "object_set_range_id j a start end step =
     (case elems (JB_ids j a) of
        [] \<Rightarrow> set_ids a (Some [\<lparr>RN_min = start, RN_max = end, RN_step = step\<rparr>]) j
      | r # rs \<Rightarrow> set_ids a (Some (r\<lparr>RN_min := start, RN_max := end, RN_step := step\<rparr> # rs)) j)"

section \<open>Template tasks\<close>

text \<open>The template is an element of the job, and is changed in place.\<close>

definition job_get_ja_task_template_pending :: "job \<Rightarrow> u32 \<Rightarrow> job \<times> ja_task option" where
  "job_get_ja_task_template_pending j t =
     (case JB_ja_template j of
        None \<Rightarrow> (j, None)
      | Some tt \<Rightarrow>
          (let tt' = tt\<lparr>JAT_state := JQUEUED OR JWAITING, JAT_task_number := t\<rparr>
           in (j\<lparr>JB_ja_template := Some tt'\<rparr>, Some tt')))"

definition job_get_ja_task_template_hold :: "job \<Rightarrow> u32 \<Rightarrow> flags \<Rightarrow> job \<times> ja_task option" where
  "job_get_ja_task_template_hold j t hold_state =
     (case job_get_ja_task_template_pending j t of
        (j', None) \<Rightarrow> (j', None)
      | (j', Some tt) \<Rightarrow>
          (let state = JQUEUED OR JWAITING;
               state = (if hold_state \<noteq> 0 then state OR JHELD else state);
               tt' = tt\<lparr>JAT_task_number := t, JAT_hold := hold_state, JAT_status := JIDLE,
                        JAT_state := state\<rparr>
           in (j'\<lparr>JB_ja_template := Some tt'\<rparr>, Some tt')))"

definition flag_if_within :: "rlist \<Rightarrow> u32 \<Rightarrow> flags \<Rightarrow> flags \<Rightarrow> flags option" where
  "flag_if_within l t flag ret =
     do { b \<leftarrow> range_list_is_id_within l t; Some (if b then ret OR flag else ret) }"

definition job_get_ja_task_hold_state :: "job \<Rightarrow> u32 \<Rightarrow> flags option" where
  "job_get_ja_task_hold_state j t =
     do { ret \<leftarrow> flag_if_within (JB_ids j JB_ja_u_h_ids) t MINUS_H_TGT_USER 0;
          ret \<leftarrow> flag_if_within (JB_ids j JB_ja_o_h_ids) t MINUS_H_TGT_OPERATOR ret;
          ret \<leftarrow> flag_if_within (JB_ids j JB_ja_s_h_ids) t MINUS_H_TGT_SYSTEM ret;
          flag_if_within (JB_ids j JB_ja_a_h_ids) t MINUS_H_TGT_JA_AD ret }"

definition job_get_ja_task_template :: "job \<Rightarrow> u32 \<Rightarrow> (job \<times> ja_task option) option" where
  "job_get_ja_task_template j t =
     do { h \<leftarrow> job_get_ja_task_hold_state j t; Some (job_get_ja_task_template_hold j t h) }"

definition job_is_zombie_job :: "job \<Rightarrow> bool" where
  "job_is_zombie_job j \<longleftrightarrow> JB_ids j JB_ja_z_ids \<noteq> None"

section \<open>Tasks by hold state\<close>

definition hold_state_table :: "flags list" where
  "hold_state_table =
     [0, MINUS_H_TGT_USER, MINUS_H_TGT_OPERATOR, MINUS_H_TGT_SYSTEM, MINUS_H_TGT_JA_AD,
      MINUS_H_TGT_USER OR MINUS_H_TGT_OPERATOR,
      MINUS_H_TGT_USER OR MINUS_H_TGT_SYSTEM,
      MINUS_H_TGT_USER OR MINUS_H_TGT_JA_AD,
      MINUS_H_TGT_OPERATOR OR MINUS_H_TGT_SYSTEM,
      MINUS_H_TGT_OPERATOR OR MINUS_H_TGT_JA_AD,
      MINUS_H_TGT_SYSTEM OR MINUS_H_TGT_JA_AD,
      MINUS_H_TGT_USER OR MINUS_H_TGT_OPERATOR OR MINUS_H_TGT_SYSTEM,
      MINUS_H_TGT_USER OR MINUS_H_TGT_OPERATOR OR MINUS_H_TGT_JA_AD,
      MINUS_H_TGT_USER OR MINUS_H_TGT_SYSTEM OR MINUS_H_TGT_JA_AD,
      MINUS_H_TGT_OPERATOR OR MINUS_H_TGT_SYSTEM OR MINUS_H_TGT_JA_AD,
      MINUS_H_TGT_USER OR MINUS_H_TGT_OPERATOR OR MINUS_H_TGT_SYSTEM OR MINUS_H_TGT_JA_AD]"

abbreviation inter :: "rlist \<Rightarrow> rlist \<Rightarrow> rlist option" where
  "inter \<equiv> range_list_calculate_intersection_set"

text \<open>\<open>range_list_calculate_difference_set\<close> on a list that is \<open>NULL\<close> before the call.\<close>

abbreviation diff :: "rlist \<Rightarrow> rlist \<Rightarrow> rlist option" where
  "diff \<equiv> range_list_calculate_difference_set None"

text \<open>The local lists of the C code are \<open>l0\<close> to \<open>l23\<close>, its results \<open>i0\<close> to \<open>i15\<close>.\<close>

definition job_create_hold_id_lists :: "job \<Rightarrow> (rlist list \<times> flags list) option" where
  "job_create_hold_id_lists j =
     (let u = JB_ids j JB_ja_u_h_ids; oo = JB_ids j JB_ja_o_h_ids;
          s = JB_ids j JB_ja_s_h_ids; a = JB_ids j JB_ja_a_h_ids in
      do {
        l0 \<leftarrow> inter u oo; l1 \<leftarrow> inter u s; l2 \<leftarrow> inter u a;
        l3 \<leftarrow> inter oo s; l4 \<leftarrow> inter oo a; l5 \<leftarrow> inter s a;
        l6 \<leftarrow> inter l0 l3; l7 \<leftarrow> inter l0 l4; l8 \<leftarrow> inter l1 l5; l9 \<leftarrow> inter l3 l5;
        i15 \<leftarrow> inter l6 l7;
        i14 \<leftarrow> diff l9 i15; i13 \<leftarrow> diff l8 i15; i12 \<leftarrow> diff l7 i15; i11 \<leftarrow> diff l6 i15;
        l10 \<leftarrow> diff l5 l8; i10 \<leftarrow> diff l10 i14;
        l11 \<leftarrow> diff l4 l7; i9 \<leftarrow> diff l11 i14;
        l12 \<leftarrow> diff l3 l6; i8 \<leftarrow> diff l12 i14;
        l13 \<leftarrow> diff l2 l7; i7 \<leftarrow> diff l13 i13;
        l14 \<leftarrow> diff l1 l6; i6 \<leftarrow> diff l14 i13;
        l15 \<leftarrow> diff l0 l6; i5 \<leftarrow> diff l15 i12;
        l16 \<leftarrow> diff a l2; l17 \<leftarrow> diff l16 l11; i4 \<leftarrow> diff l17 i10;
        l18 \<leftarrow> diff s l1; l19 \<leftarrow> diff l18 l12; i3 \<leftarrow> diff l19 i10;
        l20 \<leftarrow> diff oo l0; l21 \<leftarrow> diff l20 l12; i2 \<leftarrow> diff l21 i9;
        l22 \<leftarrow> diff u l0; l23 \<leftarrow> diff l22 l14; i1 \<leftarrow> diff l23 i7;
        Some ([JB_ids j JB_ja_n_h_ids, i1, i2, i3, i4, i5, i6, i7, i8, i9, i10, i11, i12,
               i13, i14, i15], hold_state_table) })"

section \<open>Enrolled and pending tasks\<close>

fun within_any :: "rlist list \<Rightarrow> u32 \<Rightarrow> bool option" where
  "within_any [] t = Some False"
| "within_any (l # ls) t =
     do { b \<leftarrow> range_list_is_id_within l t; if b then Some True else within_any ls t }"

definition job_is_enrolled :: "job \<Rightarrow> u32 \<Rightarrow> bool option" where
  "job_is_enrolled j t =
     do { b \<leftarrow> within_any (map (JB_ids j)
              [JB_ja_n_h_ids, JB_ja_u_h_ids, JB_ja_o_h_ids, JB_ja_s_h_ids, JB_ja_a_h_ids]) t;
          Some (\<not> b) }"

definition job_is_ja_task_defined :: "job \<Rightarrow> u32 \<Rightarrow> bool option" where
  "job_is_ja_task_defined j t = range_list_is_id_within (JB_ids j JB_ja_structure) t"

definition job_get_not_enrolled_ja_tasks :: "job \<Rightarrow> u32 option" where
  "job_get_not_enrolled_ja_tasks j =
     do { uo_ids \<leftarrow> range_list_calculate_union_set None (JB_ids j JB_ja_u_h_ids)
              (JB_ids j JB_ja_o_h_ids);
          uos_ids \<leftarrow> range_list_calculate_union_set None uo_ids (JB_ids j JB_ja_s_h_ids);
          uosa_ids \<leftarrow> range_list_calculate_union_set None uos_ids (JB_ids j JB_ja_a_h_ids);
          n \<leftarrow> range_list_get_number_of_ids (JB_ids j JB_ja_n_h_ids);
          m \<leftarrow> range_list_get_number_of_ids uosa_ids;
          Some (u32_add n m) }"

definition job_get_enrolled_ja_tasks :: "job \<Rightarrow> u32" where
  "job_get_enrolled_ja_tasks j = length (JB_ja_tasks j)"

definition job_get_ja_tasks :: "job \<Rightarrow> u32 option" where
  "job_get_ja_tasks j =
     do { n \<leftarrow> job_get_not_enrolled_ja_tasks j;
          Some (u32_add n (job_get_enrolled_ja_tasks j)) }"

definition job_search_task :: "job \<Rightarrow> u32 \<Rightarrow> ja_task option" where
  "job_search_task j t = find (\<lambda>x. JAT_task_number x = t) (JB_ja_tasks j)"

text \<open>
  The task returned is the new element, or the one found. Without a template the C code
  creates no element and returns \<open>NULL\<close>.
\<close>

definition job_enroll :: "job \<Rightarrow> u32 \<Rightarrow> (job \<times> ja_task option) option" where
  "job_enroll j t =
     do { j1 \<leftarrow> object_delete_range_id j JB_ja_n_h_ids t;
          Some (case job_search_task j1 t of
                  Some x \<Rightarrow> (j1, Some x)
                | None \<Rightarrow>
                    (case job_get_ja_task_template_pending j1 t of
                       (j2, None) \<Rightarrow> (j2, None)
                     | (j2, Some tt) \<Rightarrow>
                         (j2\<lparr>JB_ja_tasks := JB_ja_tasks j2 @ [tt]\<rparr>, Some tt))) }"

definition job_create_task :: "job \<Rightarrow> u32 \<Rightarrow> (job \<times> ja_task option) option" where
  "job_create_task j t =
     do { b \<leftarrow> job_is_ja_task_defined j t; if b then job_enroll j t else Some (j, None) }"

definition is_rescheduled :: "ja_task \<Rightarrow> bool" where
  "is_rescheduled x \<longleftrightarrow> JAT_status x = JIDLE \<and> JAT_state x AND JQUEUED \<noteq> 0 \<and>
     JAT_state x AND JWAITING \<noteq> 0"

fun count_rescheduled :: "ja_task list \<Rightarrow> bool \<Rightarrow> nat" where
  "count_rescheduled [] count_all = 0"
| "count_rescheduled (x # xs) count_all =
     (if is_rescheduled x then (if \<not> count_all then 1 else Suc (count_rescheduled xs count_all))
      else count_rescheduled xs count_all)"

definition job_count_rescheduled_ja_tasks :: "job \<Rightarrow> bool \<Rightarrow> nat" where
  "job_count_rescheduled_ja_tasks j count_all = count_rescheduled (JB_ja_tasks j) count_all"

definition job_count_pending_tasks :: "job \<Rightarrow> bool \<Rightarrow> nat option" where
  "job_count_pending_tasks j count_all =
     (if count_all then
        do { n \<leftarrow> range_list_get_number_of_ids (JB_ids j JB_ja_n_h_ids);
             Some (n + job_count_rescheduled_ja_tasks j True) }
      else Some (if JB_ids j JB_ja_n_h_ids \<noteq> None \<or> job_count_rescheduled_ja_tasks j False \<noteq> 0
                 then 1 else 0))"

definition job_delete_not_enrolled_ja_task :: "job \<Rightarrow> u32 \<Rightarrow> job option" where
  "job_delete_not_enrolled_ja_task j t =
     fold_opt (\<lambda>a j. object_delete_range_id j a t)
       [JB_ja_n_h_ids, JB_ja_u_h_ids, JB_ja_o_h_ids, JB_ja_s_h_ids, JB_ja_a_h_ids] j"

definition job_add_as_zombie :: "job \<Rightarrow> u32 \<Rightarrow> job option" where
  "job_add_as_zombie j t =
     do { l \<leftarrow> range_list_insert_id (JB_ids j JB_ja_z_ids) t;
          Some (set_ids JB_ja_z_ids (range_list_compress l) j) }"

section \<open>Holds\<close>

definition hold_lists :: "(id_attr \<times> flags) list" where
  "hold_lists = [(JB_ja_n_h_ids, MINUS_H_TGT_ALL), (JB_ja_u_h_ids, MINUS_H_TGT_USER),
     (JB_ja_o_h_ids, MINUS_H_TGT_OPERATOR), (JB_ja_s_h_ids, MINUS_H_TGT_SYSTEM),
     (JB_ja_a_h_ids, MINUS_H_TGT_JA_AD)]"

text \<open>
  One turn of the loop of \<open>job_set_hold_state\<close>: the tables \<open>if_function\<close> and \<open>else_function\<close>
  insert into a list of held tasks what they remove from the list of tasks without hold.
\<close>

definition move_by_hold :: "u32 \<Rightarrow> flags \<Rightarrow> id_attr \<times> flags \<Rightarrow> job \<Rightarrow> job option" where
  "move_by_hold t new_hold_state am j =
     (let (a, mask) = am; l = JB_ids j a;
          insert_it = (if a = JB_ja_n_h_ids then \<not> (new_hold_state AND mask \<noteq> 0)
                       else new_hold_state AND mask \<noteq> 0)
      in do { l' \<leftarrow> (if insert_it then range_list_insert_id l t else range_list_remove_id l t);
              Some (set_ids a (range_list_compress l') j) })"

fun update_task :: "u32 \<Rightarrow> (ja_task \<Rightarrow> ja_task) \<Rightarrow> ja_task list \<Rightarrow> ja_task list" where
  "update_task t f [] = []"
| "update_task t f (x # xs) =
     (if JAT_task_number x = t then f x # xs else x # update_task t f xs)"

definition job_set_hold_state :: "job \<Rightarrow> u32 \<Rightarrow> flags \<Rightarrow> job option" where
  "job_set_hold_state j t new_hold_state =
     do { enrolled \<leftarrow> job_is_enrolled j t;
          if \<not> enrolled then fold_opt (move_by_hold t new_hold_state) hold_lists j
          else Some (j\<lparr>JB_ja_tasks := update_task t (\<lambda>x. x\<lparr>JAT_hold := new_hold_state,
             JAT_state := (if new_hold_state \<noteq> 0 then JAT_state x OR JHELD
                           else JAT_state x AND NOT JHELD)\<rparr>) (JB_ja_tasks j)\<rparr>) }"

definition job_get_hold_state :: "job \<Rightarrow> u32 \<Rightarrow> flags option" where
  "job_get_hold_state j t =
     do { enrolled \<leftarrow> job_is_enrolled j t;
          if enrolled
          then Some (case job_search_task j t of
                       Some x \<Rightarrow> JAT_hold x AND MINUS_H_TGT_ALL | None \<Rightarrow> 0)
          else fold_opt (\<lambda>(a, flag) ret. flag_if_within (JB_ids j a) t flag ret)
                 (tl hold_lists) 0 }"

section \<open>The smallest and the biggest task id\<close>

definition job_get_smallest_unenrolled_task_id :: "job \<Rightarrow> u32" where
  "job_get_smallest_unenrolled_task_id j =
     (let n_h_id = fst (range_list_get_first_id (JB_ids j JB_ja_n_h_ids));
          u_h_id = fst (range_list_get_first_id (JB_ids j JB_ja_u_h_ids));
          o_h_id = fst (range_list_get_first_id (JB_ids j JB_ja_o_h_ids));
          s_h_id = fst (range_list_get_first_id (JB_ids j JB_ja_s_h_ids));
          a_h_id = fst (range_list_get_first_id (JB_ids j JB_ja_a_h_ids));
          ret = n_h_id;
          ret = (if ret > 0 \<and> u_h_id > 0 then min ret u_h_id
                 else if u_h_id > 0 then u_h_id else ret);
          ret = (if ret > 0 \<and> o_h_id > 0 then min ret o_h_id
                 else if o_h_id > 0 then o_h_id else ret);
          ret = (if ret > 0 \<and> s_h_id > 0 then min ret s_h_id
                 else if s_h_id > 0 then s_h_id else ret);
          ret = (if ret = 0 \<and> a_h_id > 0 then min ret a_h_id
                 else if a_h_id > 0 then a_h_id else ret)
      in ret)"

definition job_get_biggest_unenrolled_task_id :: "job \<Rightarrow> u32" where
  "job_get_biggest_unenrolled_task_id j =
     (let n_h_id = fst (range_list_get_last_id (JB_ids j JB_ja_n_h_ids));
          u_h_id = fst (range_list_get_last_id (JB_ids j JB_ja_u_h_ids));
          o_h_id = fst (range_list_get_last_id (JB_ids j JB_ja_o_h_ids));
          s_h_id = fst (range_list_get_last_id (JB_ids j JB_ja_s_h_ids));
          a_h_id = fst (range_list_get_last_id (JB_ids j JB_ja_a_h_ids));
          ret = n_h_id;
          ret = (if ret > 0 \<and> u_h_id > 0 then max ret u_h_id
                 else if u_h_id > 0 then u_h_id else ret);
          ret = (if ret > 0 \<and> o_h_id > 0 then max ret o_h_id
                 else if o_h_id > 0 then o_h_id else ret);
          ret = (if ret > 0 \<and> s_h_id > 0 then max ret s_h_id
                 else if s_h_id > 0 then s_h_id else ret);
          ret = (if ret = 0 \<and> a_h_id > 0 then max ret a_h_id
                 else if a_h_id > 0 then a_h_id else ret)
      in ret)"

definition job_get_smallest_enrolled_task_id :: "job \<Rightarrow> u32" where
  "job_get_smallest_enrolled_task_id j =
     (case JB_ja_tasks j of
        [] \<Rightarrow> 0
      | x # xs \<Rightarrow> fold (\<lambda>y ret. min ret (JAT_task_number y)) xs (JAT_task_number x))"

definition job_get_biggest_enrolled_task_id :: "job \<Rightarrow> u32" where
  "job_get_biggest_enrolled_task_id j =
     (case rev (JB_ja_tasks j) of
        [] \<Rightarrow> 0
      | x # xs \<Rightarrow> fold (\<lambda>y ret. max ret (JAT_task_number y)) xs (JAT_task_number x))"

section \<open>Submission\<close>

definition job_get_submit_task_ids :: "job \<Rightarrow> u32 \<times> u32 \<times> u32" where
  "job_get_submit_task_ids j =
     (case elems (JB_ids j JB_ja_structure) of
        [] \<Rightarrow> (1, 1, 1)
      | r # _ \<Rightarrow> (RN_min r, RN_max r, if RN_step r \<noteq> 0 then RN_step r else 1))"

definition job_set_submit_task_ids :: "job \<Rightarrow> u32 \<Rightarrow> u32 \<Rightarrow> u32 \<Rightarrow> job" where
  "job_set_submit_task_ids j start end step =
     object_set_range_id j JB_ja_structure start end step"

definition job_get_submit_ja_tasks :: "job \<Rightarrow> u32" where
  "job_get_submit_ja_tasks j =
     (let (start, end, step) = job_get_submit_task_ids j
      in u32_add (u32_sub end start div step) 1)"

definition job_initialize_id_lists :: "job \<Rightarrow> int \<times> job" where
  "job_initialize_id_lists j =
     (case JB_ids j JB_ja_structure of
        None \<Rightarrow> (-1, j)
      | Some rs \<Rightarrow> (0, j\<lparr>JB_ids := (JB_ids j)(JB_ja_n_h_ids := Some rs, JB_ja_u_h_ids := None,
           JB_ja_s_h_ids := None, JB_ja_o_h_ids := None, JB_ja_a_h_ids := None)\<rparr>))"

definition job_list_register_new_job :: "job list \<Rightarrow> u32 \<Rightarrow> bool \<Rightarrow> int" where
  "job_list_register_new_job jobs max_jobs force_registration =
     (if max_jobs > 0 \<and> \<not> force_registration \<and> max_jobs \<le> length jobs then 1 else 0)"

text \<open>
  \<open>job_check_correct_id_sublists\<close>. First the ends of the ranges are corrected, all but those of
  \<open>JB_ja_structure\<close>, until a range holds the id 0: then the rest stays as it is and an error
  is reported. The second result says whether there was an error.
\<close>

fun correct_ranges :: "bool \<Rightarrow> range list \<Rightarrow> (range list \<times> bool) option" where
  "correct_ranges correct [] = Some ([], False)"
| "correct_ranges correct (r # rs) =
     (let r' = (if correct then range_correct_end r else r) in
      do { zero \<leftarrow> range_is_id_within r' 0;
           if zero then Some (r' # rs, True)
           else do { (rs', err) \<leftarrow> correct_ranges correct rs; Some (r' # rs', err) } })"

fun correct_attrs :: "id_attr list \<Rightarrow> job \<Rightarrow> (job \<times> bool) option" where
  "correct_attrs [] j = Some (j, False)"
| "correct_attrs (a # as) j =
     (case JB_ids j a of
        None \<Rightarrow> correct_attrs as j
      | Some rs \<Rightarrow>
          do { (rs', err) \<leftarrow> correct_ranges (a \<noteq> JB_ja_structure) rs;
               if err then Some (set_ids a (Some rs') j, True)
               else correct_attrs as (set_ids a (Some rs') j) })"

fun any_nonempty :: "rlist list \<Rightarrow> bool option" where
  "any_nonempty [] = Some False"
| "any_nonempty (l # ls) =
     do { e \<leftarrow> range_list_is_empty l; b \<leftarrow> any_nonempty ls; Some (\<not> e \<or> b) }"

definition job_check_correct_id_sublists :: "job \<Rightarrow> (job \<times> bool) option" where
  "job_check_correct_id_sublists j =
     do { (j1, err) \<leftarrow> correct_attrs [JB_ja_structure, JB_ja_n_h_ids, JB_ja_u_h_ids,
            JB_ja_s_h_ids, JB_ja_o_h_ids, JB_ja_a_h_ids, JB_ja_z_ids] j;
          if err then Some (j1, True)
          else do {
            has_x_ids \<leftarrow> any_nonempty (map (JB_ids j1) [JB_ja_n_h_ids, JB_ja_u_h_ids,
               JB_ja_s_h_ids, JB_ja_o_h_ids, JB_ja_a_h_ids]);
            no_structure \<leftarrow> range_list_is_empty (JB_ids j1 JB_ja_structure);
            if no_structure then Some (j1, True)
            else if \<not> has_x_ids then
              (let (ret, j2) = job_initialize_id_lists j1 in Some (j2, ret \<noteq> 0))
            else Some (j1, False) } }"

end
