(* ===== verification/Job_Facts.thy ===== *)
theory Job_Facts
  imports Job_Ids
begin

text \<open>
  What the id lists of a job mean, and that the operations of \<^verbatim>\<open>sge_job.c\<close> keep them so. The
  lists are read as sets of task ids (\<open>jids\<close>); a task is pending when one of the five lists
  of tasks not enrolled has it.
\<close>

section \<open>Lists as sets\<close>

text \<open>
  \<open>holds l A\<close>: the list is well-formed and its ids are \<open>A\<close>, all below \<open>id_limit\<close>. Below that
  limit (task ids are bounded by \<open>max_aj_tasks\<close>, 75000 by default) no loop over the ids of
  a range can wrap its counter.
\<close>

abbreviation id_limit :: nat where
  "id_limit \<equiv> 2147483648"

definition holds :: "rlist \<Rightarrow> nat set \<Rightarrow> bool" where
  "holds l A \<longleftrightarrow> rl_wf (elems l) \<and> list_ids (elems l) = A \<and> (\<forall>i \<in> A. i < id_limit)"

lemma holds_raw:
  assumes "holds l A" "r \<in> set (elems l)"
  shows "raw_ok r"
proof -
  have r: "range_ok r" using assms by (auto simp: holds_def dest: rl_wf_ok)
  then have "RN_max r \<in> A" using assms max_in_ids by (auto simp: holds_def list_ids_def)
  then have "RN_max r < id_limit" using assms by (auto simp: holds_def)
  moreover have "RN_min r < RN_max r \<Longrightarrow> RN_step r \<le> RN_max r"
    using r by (metis (no_types, lifting) diff_le_self dvd_imp_le le_trans mod_eq_0_iff_dvd
        range_ok_def zero_less_diff)
  moreover have "RN_min r = RN_max r \<Longrightarrow> RN_step r = 1" using r by (simp add: range_ok_def)
  ultimately have "RN_max r + RN_step r < u32_limit"
    using r by (cases "RN_min r < RN_max r") (auto simp: range_ok_def)
  then show ?thesis using r by (simp add: raw_ok_def loopable_def range_ok_def)
qed

lemma holds_loopable: "holds l A \<Longrightarrow> \<forall>r \<in> set (elems l). loopable r"
  using holds_raw raw_ok_def by blast

lemma holds_None [simp]: "holds None A \<longleftrightarrow> A = {}"
  by (auto simp: holds_def)

lemma holds_less: "holds l A \<Longrightarrow> i \<in> A \<Longrightarrow> i < u32_limit"
  by (auto simp: holds_def)

lemma holds_within: "holds l A \<Longrightarrow> i < u32_limit \<Longrightarrow> range_list_is_id_within l i = Some (i \<in> A)"
  by (simp add: holds_def range_list_is_id_within_correct)

lemma holds_inter:
  assumes "holds l A" "holds m B"
  shows "\<exists>n. inter l m = Some n \<and> holds n (A \<inter> B)"
  using range_list_calculate_intersection_set_correct[of l m] assms holds_loopable[OF assms(1)]
  by (auto simp: holds_def)

lemma holds_diff:
  assumes "holds l A" "holds m B"
  shows "\<exists>n. diff l m = Some n \<and> holds n (A - B)"
proof (cases l)
  case None
  then show ?thesis using assms by (simp add: range_list_calculate_difference_set_def)
next
  case (Some rs)
  then show ?thesis
    using range_list_calculate_difference_set_correct[of rs m None] assms holds_raw[OF assms(1)]
      holds_raw[OF assms(2)]
    by (auto simp: holds_def)
qed

lemma holds_union:
  assumes "holds l A" "holds m B"
  shows "\<exists>n. range_list_calculate_union_set None l m = Some n \<and> holds n (A \<union> B)"
proof (cases "l = None \<and> m = None")
  case True
  then show ?thesis using assms by (simp add: range_list_calculate_union_set_def)
next
  case False
  then show ?thesis
    using range_list_calculate_union_set_correct[of l m None] assms holds_raw[OF assms(1)]
      holds_raw[OF assms(2)]
    by (fastforce simp: holds_def)
qed

lemma holds_card: "holds l A \<Longrightarrow> range_list_get_number_of_ids l = Some (card A mod u32_limit)"
  by (simp add: holds_def range_list_get_number_of_ids_correct)

lemma holds_update:
  assumes "holds l A" "i < id_limit"
  shows "\<exists>l'. (if b then range_list_insert_id l i else range_list_remove_id l i) = Some l' \<and>
    holds (range_list_compress l') (if b then insert i A else A - {i})"
  using range_ids.update_law[of l i b] assms by (fastforce simp: holds_def)

lemma holds_remove:
  assumes "holds l A" "i < id_limit"
  shows "\<exists>l'. range_list_remove_id l i = Some l' \<and> holds (range_list_compress l') (A - {i})"
  using holds_update[OF assms, of False] by simp

text \<open>Steps of the option monad over such lists.\<close>

definition yields :: "rlist option \<Rightarrow> nat set \<Rightarrow> bool" where
  "yields m A \<longleftrightarrow> (\<exists>n. m = Some n \<and> holds n A)"

lemma yields_inter [intro]: "holds l A \<Longrightarrow> holds m B \<Longrightarrow> yields (inter l m) (A \<inter> B)"
  using holds_inter by (simp add: yields_def)

lemma yields_diff [intro]: "holds l A \<Longrightarrow> holds m B \<Longrightarrow> yields (diff l m) (A - B)"
  using holds_diff by (simp add: yields_def)

lemma yields_bind:
  "yields m A \<Longrightarrow> (\<And>n. holds n A \<Longrightarrow> \<exists>y. f n = Some (y, T) \<and> Q y) \<Longrightarrow>
   \<exists>y. m \<bind> f = Some (y, T) \<and> Q y"
  by (auto simp: yields_def)

lemmas inter_bind = yields_bind[OF yields_inter]
lemmas diff_bind = yields_bind[OF yields_diff]

section \<open>The ids of a job\<close>

definition jids :: "job \<Rightarrow> id_attr \<Rightarrow> nat set" where
  "jids j a = list_ids (elems (JB_ids j a))"

abbreviation pending_attrs :: "id_attr list" where
  "pending_attrs \<equiv> [JB_ja_n_h_ids, JB_ja_u_h_ids, JB_ja_o_h_ids, JB_ja_s_h_ids, JB_ja_a_h_ids]"

definition held :: "job \<Rightarrow> nat set" where
  "held j = jids j JB_ja_u_h_ids \<union> jids j JB_ja_o_h_ids \<union> jids j JB_ja_s_h_ids \<union> jids j JB_ja_a_h_ids"

definition pending :: "job \<Rightarrow> nat set" where
  "pending j = jids j JB_ja_n_h_ids \<union> held j"

text \<open>The invariant: the lists are well-formed, and no task is both without hold and held.\<close>

definition job_ids_wf :: "job \<Rightarrow> bool" where
  "job_ids_wf j \<longleftrightarrow> (\<forall>a \<in> set pending_attrs. holds (JB_ids j a) (jids j a)) \<and>
     jids j JB_ja_n_h_ids \<inter> held j = {}"

lemma ids_only:
  assumes "JB_ids j' = JB_ids j"
  shows "jids j' = jids j" "held j' = held j" "pending j' = pending j"
    "job_ids_wf j' = job_ids_wf j"
  using assms by (simp_all add: fun_eq_iff jids_def held_def pending_def job_ids_wf_def)

lemma job_ids_wfD:
  assumes "job_ids_wf j"
  shows "holds (JB_ids j JB_ja_n_h_ids) (jids j JB_ja_n_h_ids)"
    "holds (JB_ids j JB_ja_u_h_ids) (jids j JB_ja_u_h_ids)"
    "holds (JB_ids j JB_ja_o_h_ids) (jids j JB_ja_o_h_ids)"
    "holds (JB_ids j JB_ja_s_h_ids) (jids j JB_ja_s_h_ids)"
    "holds (JB_ids j JB_ja_a_h_ids) (jids j JB_ja_a_h_ids)"
    "jids j JB_ja_n_h_ids \<inter> held j = {}"
  using assms by (simp_all add: job_ids_wf_def)

lemma pending_less: "job_ids_wf j \<Longrightarrow> i \<in> pending j \<Longrightarrow> i < id_limit"
  by (auto simp: job_ids_wf_def pending_def held_def holds_def)

lemma enrolled_iff:
  "job_ids_wf j \<Longrightarrow> t < u32_limit \<Longrightarrow> job_is_enrolled j t = Some (t \<notin> pending j)"
  by (simp add: job_is_enrolled_def holds_within[OF job_ids_wfD(1)] holds_within[OF job_ids_wfD(2)]
      holds_within[OF job_ids_wfD(3)] holds_within[OF job_ids_wfD(4)]
      holds_within[OF job_ids_wfD(5)] pending_def held_def)

text \<open>The hold flags of a task as the lists give them.\<close>

definition hold_of :: "job \<Rightarrow> nat \<Rightarrow> flags" where
  "hold_of j t =
     (if t \<in> jids j JB_ja_u_h_ids then MINUS_H_TGT_USER else 0) OR
     (if t \<in> jids j JB_ja_o_h_ids then MINUS_H_TGT_OPERATOR else 0) OR
     (if t \<in> jids j JB_ja_s_h_ids then MINUS_H_TGT_SYSTEM else 0) OR
     (if t \<in> jids j JB_ja_a_h_ids then MINUS_H_TGT_JA_AD else 0)"

lemma flag_if_within_holds:
  "holds l A \<Longrightarrow> t < u32_limit \<Longrightarrow>
   flag_if_within l t flag ret = Some (ret OR (if t \<in> A then flag else 0))"
  by (simp add: flag_if_within_def holds_within)

lemma hold_state_of:
  "job_ids_wf j \<Longrightarrow> t < u32_limit \<Longrightarrow> job_get_ja_task_hold_state j t = Some (hold_of j t)"
  by (simp add: job_get_ja_task_hold_state_def flag_if_within_holds[OF job_ids_wfD(2)]
      flag_if_within_holds[OF job_ids_wfD(3)] flag_if_within_holds[OF job_ids_wfD(4)]
      flag_if_within_holds[OF job_ids_wfD(5)] hold_of_def or.assoc)

lemma hold_of_flags:
  "hold_of j t AND MINUS_H_TGT_USER \<noteq> 0 \<longleftrightarrow> t \<in> jids j JB_ja_u_h_ids"
  "hold_of j t AND MINUS_H_TGT_OPERATOR \<noteq> 0 \<longleftrightarrow> t \<in> jids j JB_ja_o_h_ids"
  "hold_of j t AND MINUS_H_TGT_SYSTEM \<noteq> 0 \<longleftrightarrow> t \<in> jids j JB_ja_s_h_ids"
  "hold_of j t AND MINUS_H_TGT_JA_AD \<noteq> 0 \<longleftrightarrow> t \<in> jids j JB_ja_a_h_ids"
  by (simp_all add: hold_of_def hold_flags)

lemma hold_of_zero: "hold_of j t = 0 \<longleftrightarrow> t \<notin> held j"
  by (auto simp: hold_of_def hold_flags held_def)

section \<open>The lists by hold state\<close>

text \<open>The sets of ids the sixteen results of \<open>job_create_hold_id_lists\<close> hold.\<close>

definition hold_sets :: "nat set \<Rightarrow> nat set \<Rightarrow> nat set \<Rightarrow> nat set \<Rightarrow> nat set \<Rightarrow> nat set list" where
  "hold_sets n u oo s a =
     [n, u - oo - s - a, oo - u - s - a, s - u - oo - a, a - u - oo - s,
      u \<inter> oo - s - a, u \<inter> s - oo - a, u \<inter> a - oo - s, oo \<inter> s - u - a, oo \<inter> a - u - s,
      s \<inter> a - u - oo, u \<inter> oo \<inter> s - a, u \<inter> oo \<inter> a - s, u \<inter> s \<inter> a - oo, oo \<inter> s \<inter> a - u,
      u \<inter> oo \<inter> s \<inter> a]"

definition all_hold :: "rlist list \<Rightarrow> nat set list \<Rightarrow> bool" where
  "all_hold ls As \<longleftrightarrow> list_all2 holds ls As"

lemma holds_cong: "holds l A \<Longrightarrow> A = B \<Longrightarrow> holds l B"
  by simp

lemma create_hold_id_lists_sets:
  assumes wf: "job_ids_wf j"
  shows "\<exists>ls. job_create_hold_id_lists j = Some (ls, hold_state_table) \<and>
    all_hold ls (hold_sets (jids j JB_ja_n_h_ids) (jids j JB_ja_u_h_ids) (jids j JB_ja_o_h_ids)
      (jids j JB_ja_s_h_ids) (jids j JB_ja_a_h_ids))"
proof -
  note h = job_ids_wfD[OF wf]
  show ?thesis
    unfolding job_create_hold_id_lists_def Let_def
    apply (rule inter_bind[OF h(2) h(3)], rule inter_bind[OF h(2) h(4)])
    apply (rule inter_bind[OF h(2) h(5)], rule inter_bind[OF h(3) h(4)])
    apply (rule inter_bind[OF h(3) h(5)], rule inter_bind[OF h(4) h(5)])
    apply ((rule inter_bind, assumption, assumption)+)
    apply (((rule diff_bind, assumption, assumption)
        | (rule diff_bind, rule h(5), assumption) | (rule diff_bind, rule h(4), assumption)
        | (rule diff_bind, rule h(3), assumption) | (rule diff_bind, rule h(2), assumption))+)
    apply (simp add: all_hold_def hold_sets_def h(1))
    apply (intro conjI; erule holds_cong, blast)
    done
qed

lemma hold_sets_by_state:
  assumes "job_ids_wf j"
  shows "hold_sets (jids j JB_ja_n_h_ids) (jids j JB_ja_u_h_ids) (jids j JB_ja_o_h_ids)
      (jids j JB_ja_s_h_ids) (jids j JB_ja_a_h_ids) =
    map (\<lambda>h. {t \<in> pending j. hold_of j t = h}) hold_state_table"
proof -
  have "t \<notin> held j" if "t \<in> jids j JB_ja_n_h_ids" for t
    using that job_ids_wfD(6)[OF assms] by blast
  then have n: "{t \<in> pending j. hold_of j t = 0} = jids j JB_ja_n_h_ids"
    by (auto simp: pending_def hold_of_zero)
  show ?thesis
    unfolding hold_state_table_def list.map n hold_sets_def
    by (simp, intro conjI)
       (auto simp: hold_of_def hold_flags held_def pending_def split: if_splits)
qed

section \<open>Setting the hold state\<close>

lemma jids_set_ids [simp]:
  "jids (set_ids a l j) b = (if a = b then list_ids (elems l) else jids j b)"
  "JB_ids (set_ids a l j) b = (if a = b then l else JB_ids j b)"
  "JB_ja_tasks (set_ids a l j) = JB_ja_tasks j" "JB_ja_template (set_ids a l j) = JB_ja_template j"
  "JB_job_number (set_ids a l j) = JB_job_number j"
  by (simp_all add: jids_def set_ids_def)

lemma holds_ids: "holds l A \<Longrightarrow> list_ids (elems l) = A"
  by (simp add: holds_def)

definition hold_update :: "bool \<Rightarrow> nat \<Rightarrow> nat set \<Rightarrow> nat set" where
  "hold_update b t A = (if b then insert t A else A - {t})"

lemma mem_hold_update [simp]: "x \<in> hold_update b t A \<longleftrightarrow> (if x = t then b else x \<in> A)"
  by (auto simp: hold_update_def)

lemma move_by_hold_bind:
  assumes "holds (JB_ids j a) A" "t < id_limit"
    and "\<And>l. holds l (hold_update (if a = JB_ja_n_h_ids then h AND m = 0 else h AND m \<noteq> 0) t A)
      \<Longrightarrow> \<exists>j'. f (set_ids a l j) = Some j' \<and> Q j'"
  shows "\<exists>j'. move_by_hold t h (a, m) j \<bind> f = Some j' \<and> Q j'"
proof -
  let ?b = "if a = JB_ja_n_h_ids then \<not> (h AND m \<noteq> 0) else h AND m \<noteq> 0"
  obtain l' where "(if ?b then range_list_insert_id (JB_ids j a) t
      else range_list_remove_id (JB_ids j a) t) = Some l'"
    "holds (range_list_compress l') (hold_update ?b t A)"
    using holds_update[OF assms(1,2), of ?b] by (auto simp: hold_update_def)
  then show ?thesis
    using assms(3)[of "range_list_compress l'"] by (simp add: move_by_hold_def Let_def split: if_splits)
qed

lemma set_hold_pending:
  assumes wf: "job_ids_wf j" and t: "t \<in> pending j"
  shows "\<exists>j'. job_set_hold_state j t h = Some j' \<and>
    (\<forall>a \<in> set pending_attrs. holds (JB_ids j' a) (jids j' a)) \<and>
    jids j' JB_ja_n_h_ids = hold_update (h AND MINUS_H_TGT_ALL = 0) t (jids j JB_ja_n_h_ids) \<and>
    jids j' JB_ja_u_h_ids = hold_update (h AND MINUS_H_TGT_USER \<noteq> 0) t (jids j JB_ja_u_h_ids) \<and>
    jids j' JB_ja_o_h_ids = hold_update (h AND MINUS_H_TGT_OPERATOR \<noteq> 0) t (jids j JB_ja_o_h_ids) \<and>
    jids j' JB_ja_s_h_ids = hold_update (h AND MINUS_H_TGT_SYSTEM \<noteq> 0) t (jids j JB_ja_s_h_ids) \<and>
    jids j' JB_ja_a_h_ids = hold_update (h AND MINUS_H_TGT_JA_AD \<noteq> 0) t (jids j JB_ja_a_h_ids) \<and>
    JB_ja_tasks j' = JB_ja_tasks j \<and> JB_ja_template j' = JB_ja_template j \<and>
    (\<forall>a. a \<notin> set pending_attrs \<longrightarrow> JB_ids j' a = JB_ids j a)"
proof -
  note h = job_ids_wfD[OF wf]
  have lim: "t < id_limit" using pending_less[OF wf t] .
  have "job_is_enrolled j t = Some False" using enrolled_iff[OF wf] t lim by simp
  then show ?thesis
    apply (simp add: job_set_hold_state_def hold_lists_def del: set_simps)
    apply (rule move_by_hold_bind[OF h(1) lim], simp only: fold_opt.simps)
    apply (rule move_by_hold_bind[OF _ lim], simp, rule h(2), simp only: fold_opt.simps)
    apply (rule move_by_hold_bind[OF _ lim], simp, rule h(3), simp only: fold_opt.simps)
    apply (rule move_by_hold_bind[OF _ lim], simp, rule h(4), simp only: fold_opt.simps)
    apply (rule move_by_hold_bind[OF _ lim], simp, rule h(5), simp only: fold_opt.simps)
    apply (simp add: holds_ids)
    done
qed

text \<open>The flags of a hold state are its four bits.\<close>

lemma and_bit: "(h :: flags) AND 2 ^ k = (if bit h k then 2 ^ k else 0)"
  by (rule bit_word_eqI) (auto simp: bit_simps)

lemma hold_bits:
  "(if h AND MINUS_H_TGT_USER \<noteq> 0 then MINUS_H_TGT_USER else 0) = h AND MINUS_H_TGT_USER"
  "(if h AND MINUS_H_TGT_OPERATOR \<noteq> 0 then MINUS_H_TGT_OPERATOR else 0) = h AND MINUS_H_TGT_OPERATOR"
  "(if h AND MINUS_H_TGT_SYSTEM \<noteq> 0 then MINUS_H_TGT_SYSTEM else 0) = h AND MINUS_H_TGT_SYSTEM"
  "(if h AND MINUS_H_TGT_JA_AD \<noteq> 0 then MINUS_H_TGT_JA_AD else 0) = h AND MINUS_H_TGT_JA_AD"
  using and_bit[of h 0] and_bit[of h 1] and_bit[of h 2] and_bit[of h 3]
  by (simp_all add: hold_flags split: if_splits)

lemma and_all: "h AND MINUS_H_TGT_ALL = (h AND MINUS_H_TGT_USER) OR (h AND MINUS_H_TGT_OPERATOR) OR
    (h AND MINUS_H_TGT_SYSTEM) OR (h AND MINUS_H_TGT_JA_AD)"
  by (simp add: hold_flags flip: bit.conj_disj_distrib)

lemma and_all_0: "h AND MINUS_H_TGT_ALL = 0 \<longleftrightarrow> h AND MINUS_H_TGT_USER = 0 \<and>
    h AND MINUS_H_TGT_OPERATOR = 0 \<and> h AND MINUS_H_TGT_SYSTEM = 0 \<and> h AND MINUS_H_TGT_JA_AD = 0"
  by (simp add: and_all or_eq_0_iff)

lemma get_hold_state_pending:
  "job_ids_wf j \<Longrightarrow> t \<in> pending j \<Longrightarrow> job_get_hold_state j t = Some (hold_of j t)"
  using pending_less[of j t]
  by (simp add: job_get_hold_state_def enrolled_iff hold_lists_def
      flag_if_within_holds[OF job_ids_wfD(2)] flag_if_within_holds[OF job_ids_wfD(3)]
      flag_if_within_holds[OF job_ids_wfD(4)] flag_if_within_holds[OF job_ids_wfD(5)]
      hold_of_def or.assoc)

lemma get_hold_state_enrolled:
  "job_ids_wf j \<Longrightarrow> t \<notin> pending j \<Longrightarrow> t < u32_limit \<Longrightarrow> job_get_hold_state j t =
   Some (case job_search_task j t of Some x \<Rightarrow> JAT_hold x AND MINUS_H_TGT_ALL | None \<Rightarrow> 0)"
  by (simp add: job_get_hold_state_def enrolled_iff)

lemma find_update_task:
  assumes "\<And>x. JAT_task_number (f x) = JAT_task_number x"
  shows "find (\<lambda>x. JAT_task_number x = s) (update_task t f xs) =
    (if s = t then map_option f (find (\<lambda>x. JAT_task_number x = s) xs)
     else find (\<lambda>x. JAT_task_number x = s) xs)"
  using assms by (induction xs) auto

definition defined_task :: "job \<Rightarrow> nat \<Rightarrow> bool" where
  "defined_task j t \<longleftrightarrow> t \<in> pending j \<or> job_search_task j t \<noteq> None"

lemma set_hold_pending_state:
  assumes wf: "job_ids_wf j" and t: "t \<in> pending j" and h: "h AND MINUS_H_TGT_ALL = h"
  shows "\<exists>j'. job_set_hold_state j t h = Some j' \<and> job_ids_wf j' \<and> pending j' = pending j \<and>
    hold_of j' t = h \<and> (\<forall>s. s \<noteq> t \<longrightarrow> hold_of j' s = hold_of j s) \<and>
    JB_ja_tasks j' = JB_ja_tasks j"
proof -
  obtain j' where j': "job_set_hold_state j t h = Some j'"
    "\<forall>a \<in> set pending_attrs. holds (JB_ids j' a) (jids j' a)"
    "jids j' JB_ja_n_h_ids = hold_update (h AND MINUS_H_TGT_ALL = 0) t (jids j JB_ja_n_h_ids)"
    "jids j' JB_ja_u_h_ids = hold_update (h AND MINUS_H_TGT_USER \<noteq> 0) t (jids j JB_ja_u_h_ids)"
    "jids j' JB_ja_o_h_ids = hold_update (h AND MINUS_H_TGT_OPERATOR \<noteq> 0) t (jids j JB_ja_o_h_ids)"
    "jids j' JB_ja_s_h_ids = hold_update (h AND MINUS_H_TGT_SYSTEM \<noteq> 0) t (jids j JB_ja_s_h_ids)"
    "jids j' JB_ja_a_h_ids = hold_update (h AND MINUS_H_TGT_JA_AD \<noteq> 0) t (jids j JB_ja_a_h_ids)"
    "JB_ja_tasks j' = JB_ja_tasks j"
    using set_hold_pending[OF wf t, of h] by blast
  note sets = j'(3-7)
  have "t \<in> held j' \<longleftrightarrow> h AND MINUS_H_TGT_ALL \<noteq> 0"
    by (auto simp: held_def sets and_all_0)
  moreover have other: "s \<in> held j' \<longleftrightarrow> s \<in> held j" if "s \<noteq> t" for s
    using that by (simp add: held_def sets)
  ultimately have disj: "jids j' JB_ja_n_h_ids \<inter> held j' = {}"
    using job_ids_wfD(6)[OF wf] unfolding sets(1) by (auto split: if_splits)
  have "s \<in> pending j' \<longleftrightarrow> s \<in> pending j" for s
  proof (cases "s = t")
    case True
    then show ?thesis using t \<open>t \<in> held j' \<longleftrightarrow> _\<close> by (auto simp: pending_def sets(1))
  next
    case False
    then show ?thesis using other by (simp add: pending_def sets(1))
  qed
  moreover have "hold_of j' t = h"
    using h by (simp add: hold_of_def sets hold_bits and_all or.assoc)
  moreover have "\<forall>s. s \<noteq> t \<longrightarrow> hold_of j' s = hold_of j s" by (simp add: hold_of_def sets)
  ultimately show ?thesis using j'(1,2,8) disj by (auto simp: job_ids_wf_def)
qed

section \<open>Enrolling, deleting and counting\<close>

lemma not_enrolled_count:
  assumes wf: "job_ids_wf j"
  shows "job_get_not_enrolled_ja_tasks j = Some (card (pending j) mod u32_limit)"
proof -
  note h = job_ids_wfD[OF wf]
  obtain l where l: "range_list_calculate_union_set None (JB_ids j JB_ja_u_h_ids)
      (JB_ids j JB_ja_o_h_ids) = Some l" "holds l (jids j JB_ja_u_h_ids \<union> jids j JB_ja_o_h_ids)"
    using holds_union[OF h(2,3)] by blast
  obtain m where m: "range_list_calculate_union_set None l (JB_ids j JB_ja_s_h_ids) = Some m"
      "holds m (jids j JB_ja_u_h_ids \<union> jids j JB_ja_o_h_ids \<union> jids j JB_ja_s_h_ids)"
    using holds_union[OF l(2) h(4)] by blast
  obtain n where n: "range_list_calculate_union_set None m (JB_ids j JB_ja_a_h_ids) = Some n"
      "holds n (held j)"
    using holds_union[OF m(2) h(5)] unfolding held_def by blast
  have "finite (jids j a)" for a by (simp add: jids_def)
  then have "card (pending j) = card (jids j JB_ja_n_h_ids) + card (held j)"
    unfolding pending_def by (intro card_Un_disjoint h(6)) (simp_all add: held_def)
  then show ?thesis
    by (simp add: job_get_not_enrolled_ja_tasks_def l m n holds_card[OF h(1)] holds_card[OF n(2)]
        u32_add_def mod_add_eq)
qed

lemma ja_tasks_count:
  "job_ids_wf j \<Longrightarrow>
   job_get_ja_tasks j = Some ((card (pending j) + length (JB_ja_tasks j)) mod u32_limit)"
  by (simp add: job_get_ja_tasks_def not_enrolled_count job_get_enrolled_ja_tasks_def u32_add_def
      mod_add_left_eq)

lemma delete_range_id:
  assumes "holds (JB_ids j a) (jids j a)" "t < id_limit"
  shows "\<exists>l. object_delete_range_id j a t = Some (set_ids a l j) \<and> holds l (jids j a - {t})"
  using holds_remove[OF assms] by (auto simp: object_delete_range_id_def)

lemma delete_range_bind:
  assumes "holds (JB_ids i a) A" "t < id_limit"
    and "\<And>l. holds l (A - {t}) \<Longrightarrow> \<exists>j'. f (set_ids a l i) = Some j' \<and> Q j'"
  shows "\<exists>j'. object_delete_range_id i a t \<bind> f = Some j' \<and> Q j'"
  using delete_range_id[of i a t] assms by (auto simp: jids_def holds_ids)

lemma enroll_pending:
  assumes wf: "job_ids_wf j" and t: "t \<in> jids j JB_ja_n_h_ids" and new: "job_search_task j t = None"
    and tmpl: "JB_ja_template j = Some tt"
  shows "\<exists>j' x. job_enroll j t = Some (j', Some x) \<and> job_ids_wf j' \<and> JAT_task_number x = t \<and>
    JAT_state x = JQUEUED OR JWAITING \<and> JB_ja_tasks j' = JB_ja_tasks j @ [x] \<and>
    pending j' = pending j - {t} \<and> held j' = held j"
proof -
  note h = job_ids_wfD[OF wf]
  have "t < id_limit" using pending_less[OF wf] t by (simp add: pending_def)
  then obtain l where l: "object_delete_range_id j JB_ja_n_h_ids t = Some (set_ids JB_ja_n_h_ids l j)"
      "holds l (jids j JB_ja_n_h_ids - {t})"
    using delete_range_id[OF h(1)] by blast
  let ?j = "set_ids JB_ja_n_h_ids l j"
  have held: "held ?j = held j" by (simp add: held_def)
  have n: "jids ?j JB_ja_n_h_ids = jids j JB_ja_n_h_ids - {t}" using l(2) by (simp add: holds_ids)
  have wf': "job_ids_wf ?j" using h l(2) n held by (auto simp: job_ids_wf_def)
  have pend: "pending ?j = pending j - {t}" unfolding pending_def n held using h(6) t by blast
  let ?x = "tt\<lparr>JAT_state := JQUEUED OR JWAITING, JAT_task_number := t\<rparr>"
  let ?j' = "?j\<lparr>JB_ja_template := Some ?x, JB_ja_tasks := JB_ja_tasks j @ [?x]\<rparr>"
  have "job_enroll j t = Some (?j', Some ?x)"
    using new tmpl l(1)
    by (simp add: job_enroll_def job_search_task_def job_get_ja_task_template_pending_def Let_def)
  moreover have "JB_ids ?j' = JB_ids ?j" by simp
  note ids_only[OF this]
  ultimately show ?thesis using held pend wf' by auto
qed

lemma delete_not_enrolled:
  assumes wf: "job_ids_wf j" and t: "t < id_limit"
  shows "\<exists>j'. job_delete_not_enrolled_ja_task j t = Some j' \<and> job_ids_wf j' \<and>
    pending j' = pending j - {t} \<and> (\<forall>s. s \<noteq> t \<longrightarrow> hold_of j' s = hold_of j s) \<and>
    JB_ja_tasks j' = JB_ja_tasks j"
proof -
  note h = job_ids_wfD[OF wf]
  have "\<exists>j'. job_delete_not_enrolled_ja_task j t = Some j' \<and>
      ((\<forall>a \<in> set pending_attrs. holds (JB_ids j' a) (jids j' a) \<and> jids j' a = jids j a - {t}) \<and>
       JB_ja_tasks j' = JB_ja_tasks j)"
    unfolding job_delete_not_enrolled_ja_task_def fold_opt.simps
    apply (rule delete_range_bind[OF h(1) t])
    apply (rule delete_range_bind[OF _ t], simp, rule h(2))
    apply (rule delete_range_bind[OF _ t], simp, rule h(3))
    apply (rule delete_range_bind[OF _ t], simp, rule h(4))
    apply (rule delete_range_bind[OF _ t], simp, rule h(5))
    apply (simp add: holds_ids)
    done
  then obtain j' where j': "job_delete_not_enrolled_ja_task j t = Some j'"
    "\<forall>a \<in> set pending_attrs. holds (JB_ids j' a) (jids j' a) \<and> jids j' a = jids j a - {t}"
    "JB_ja_tasks j' = JB_ja_tasks j" by blast
  then have "held j' = held j - {t}" by (auto simp: held_def)
  with j' h(6) have "job_ids_wf j'" "pending j' = pending j - {t}"
    by (auto simp: job_ids_wf_def pending_def)
  with j' show ?thesis by (simp add: hold_of_def)
qed

lemma initialize_ids:
  assumes "holds (JB_ids j JB_ja_structure) A" "JB_ids j JB_ja_structure \<noteq> None"
  shows "\<exists>j'. job_initialize_id_lists j = (0, j') \<and> job_ids_wf j' \<and> pending j' = A \<and> held j' = {}"
proof -
  obtain rs where rs: "JB_ids j JB_ja_structure = Some rs" using assms(2) by blast
  then have "holds (Some rs) A" "list_ids rs = A" using assms(1) holds_ids by fastforce+
  with rs show ?thesis
    by (simp add: job_initialize_id_lists_def job_ids_wf_def pending_def held_def jids_def)
qed

section \<open>Properties\<close>

text \<open>A job with tasks 1 to 9: 1-3 and 7-9 free, 4-6 held by the user, 5 by the operator as well.\<close>

definition example_job :: job where
  "example_job = \<lparr>JB_job_number = 1,
     JB_ids = (\<lambda>_. None)(JB_ja_structure := Some [rng 1 9 1], JB_ja_n_h_ids := Some [rng 1 3 1, rng 7 9 1],
       JB_ja_u_h_ids := Some [rng 4 6 1], JB_ja_o_h_ids := Some [rng 5 5 1]),
     JB_ja_template = Some \<lparr>JAT_task_number = 0, JAT_status = 0, JAT_state = 0, JAT_hold = 0\<rparr>,
     JB_ja_tasks = []\<rparr>"

lemma example_job_ids:
  "jids example_job JB_ja_n_h_ids = {1..3} \<union> {7..9}" "jids example_job JB_ja_u_h_ids = {4..6}"
  "jids example_job JB_ja_o_h_ids = {5}" "jids example_job JB_ja_s_h_ids = {}"
  "jids example_job JB_ja_a_h_ids = {}"
  by (auto simp: jids_def example_job_def ids_def)

lemma example_job_wf: "job_ids_wf example_job"
  by (auto simp: job_ids_wf_def holds_def held_def example_job_ids)
     (auto simp: jids_def[symmetric] example_job_ids, simp_all add: example_job_def range_ok_def)

lemma example_job_pending: "pending example_job = {1..9}"
  by (auto simp: pending_def held_def example_job_ids)

text \<open>
  \<open>job_create_hold_id_lists\<close>, for any job whose id lists are well-formed, returns sixteen
  lists: the ids of list k are exactly the pending tasks whose hold state, as
  \<open>job_get_ja_task_hold_state\<close> computes it, is entry k of the table returned with them.
\<close>

theorem hold_id_lists_by_state:
  assumes "job_ids_wf j"
  shows "\<exists>ls. job_create_hold_id_lists j = Some (ls, hold_state_table) \<and> length ls = 16 \<and>
    (\<forall>k < 16. rl_wf (elems (ls ! k)) \<and> list_ids (elems (ls ! k)) =
       {t \<in> pending j. job_get_ja_task_hold_state j t = Some (hold_state_table ! k)})"
proof -
  obtain ls where ls: "job_create_hold_id_lists j = Some (ls, hold_state_table)"
      "list_all2 holds ls (map (\<lambda>h. {t \<in> pending j. hold_of j t = h}) hold_state_table)"
    using create_hold_id_lists_sets[OF assms] hold_sets_by_state[OF assms]
    by (auto simp: all_hold_def)
  have 16: "length hold_state_table = 16" by (simp add: hold_state_table_def)
  have "{t \<in> pending j. hold_of j t = h} =
      {t \<in> pending j. job_get_ja_task_hold_state j t = Some h}" for h
    using pending_less[OF assms] by (force simp: hold_state_of[OF assms])
  with ls 16 show ?thesis by (auto simp: list_all2_conv_all_nth holds_def)
qed

theorem hold_id_lists_by_state_witness:
  "\<exists>ls. job_create_hold_id_lists example_job = Some (ls, hold_state_table) \<and> length ls = 16"
  using hold_id_lists_by_state[OF example_job_wf] by blast

text \<open>
  C28. Setting the hold state of a task and reading it back gives what was set, for a task that is
  pending and for one that is enrolled. No task enters or leaves the pending tasks, no other
  task's hold state changes, and the lists stay well-formed: in particular a task without hold
  is in \<open>JB_ja_n_h_ids\<close> and in no other list.
\<close>

theorem hold_state_roundtrip:
  assumes "job_ids_wf j" "h AND MINUS_H_TGT_ALL = h" "t < u32_limit"
    and "t \<in> pending j \<or> job_search_task j t \<noteq> None"
  shows "\<exists>j'. job_set_hold_state j t h = Some j' \<and> job_ids_wf j' \<and> pending j' = pending j \<and>
    job_get_hold_state j' t = Some h \<and>
    (\<forall>s < u32_limit. s \<noteq> t \<longrightarrow> job_get_hold_state j' s = job_get_hold_state j s)"
proof (cases "t \<in> pending j")
  case True
  then obtain j' where j': "job_set_hold_state j t h = Some j'" "job_ids_wf j'"
      "pending j' = pending j" "hold_of j' t = h" "\<forall>s. s \<noteq> t \<longrightarrow> hold_of j' s = hold_of j s"
      "JB_ja_tasks j' = JB_ja_tasks j"
    using set_hold_pending_state[OF assms(1) _ assms(2)] by blast
  have "job_get_hold_state j' s = job_get_hold_state j s" if "s < u32_limit" "s \<noteq> t" for s
    using that j' assms(1)
    by (cases "s \<in> pending j")
       (simp_all add: get_hold_state_pending get_hold_state_enrolled job_search_task_def)
  with True j' show ?thesis by (simp add: get_hold_state_pending)
next
  case False
  let ?f = "\<lambda>x. x\<lparr>JAT_hold := h, JAT_state := (if h \<noteq> 0 then JAT_state x OR JHELD
      else JAT_state x AND NOT JHELD)\<rparr>"
  let ?j = "j\<lparr>JB_ja_tasks := update_task t ?f (JB_ja_tasks j)\<rparr>"
  note same = ids_only[of ?j j, simplified]
  have search: "job_search_task ?j s = (if s = t then map_option ?f (job_search_task j s)
      else job_search_task j s)" for s
    by (simp add: job_search_task_def find_update_task)
  have "job_set_hold_state j t h = Some ?j"
    using False assms by (simp add: job_set_hold_state_def enrolled_iff)
  moreover have "job_get_hold_state ?j t = Some h"
    using False assms same search[of t] by (auto simp: get_hold_state_enrolled)
  moreover have "job_get_hold_state ?j s = job_get_hold_state j s" if "s < u32_limit" "s \<noteq> t" for s
    using that assms same search[of s]
    by (cases "s \<in> pending j")
       (simp_all add: get_hold_state_pending get_hold_state_enrolled hold_of_def)
  ultimately show ?thesis using same assms(1) by blast
qed

theorem hold_state_roundtrip_witness:
  "\<exists>j'. job_set_hold_state example_job 5 MINUS_H_TGT_SYSTEM = Some j' \<and>
     job_get_hold_state j' 5 = Some MINUS_H_TGT_SYSTEM \<and> pending j' = {1..9}"
  using hold_state_roundtrip[OF example_job_wf, of MINUS_H_TGT_SYSTEM 5]
  by (auto simp: example_job_pending hold_flags)

text \<open>
  Enrolling a pending task without hold takes its id from the list and appends one task made
  from the template, queued and waiting: the task is then enrolled, no other task's status
  changes, and the number of tasks of the job is as before.
\<close>

theorem enroll_moves_pending_task:
  assumes "job_ids_wf j" "t \<in> jids j JB_ja_n_h_ids" "job_search_task j t = None"
    and "JB_ja_template j = Some tt"
  shows "\<exists>j' x. job_enroll j t = Some (j', Some x) \<and> job_ids_wf j' \<and> JAT_task_number x = t \<and>
    JB_ja_tasks j' = JB_ja_tasks j @ [x] \<and> JAT_state x = JQUEUED OR JWAITING \<and>
    job_is_enrolled j' t = Some True \<and>
    (\<forall>s < u32_limit. s \<noteq> t \<longrightarrow> job_is_enrolled j' s = job_is_enrolled j s) \<and>
    job_get_ja_tasks j' = job_get_ja_tasks j"
proof -
  obtain j' x where j': "job_enroll j t = Some (j', Some x)" "job_ids_wf j'" "JAT_task_number x = t"
      "JAT_state x = JQUEUED OR JWAITING" "JB_ja_tasks j' = JB_ja_tasks j @ [x]"
      "pending j' = pending j - {t}"
    using enroll_pending[OF assms] by blast
  have "finite (pending j)" by (simp add: pending_def held_def jids_def)
  moreover have t: "t \<in> pending j" using assms(2) by (simp add: pending_def)
  ultimately have "card (pending j) = Suc (card (pending j'))"
    unfolding j'(6) by (metis card_Suc_Diff1)
  moreover have "t < u32_limit" using pending_less[OF assms(1) t] by simp
  ultimately show ?thesis
    using j' assms(1)
    by (auto simp: enrolled_iff ja_tasks_count)
qed

theorem enroll_moves_pending_task_witness:
  "\<exists>j' x. job_enroll example_job 8 = Some (j', Some x) \<and> JAT_task_number x = 8 \<and>
     job_get_ja_tasks j' = job_get_ja_tasks example_job"
proof -
  have "8 \<in> jids example_job JB_ja_n_h_ids" by (simp add: example_job_ids)
  moreover have "job_search_task example_job 8 = None" "\<exists>tt. JB_ja_template example_job = Some tt"
    by (simp_all add: job_search_task_def example_job_def)
  ultimately show ?thesis using enroll_moves_pending_task[OF example_job_wf] by blast
qed

text \<open>
  Counting and deleting. The tasks not enrolled are counted as the number of pending tasks,
  whatever holds overlap; deleting a task that is not enrolled takes it from all lists, so that
  it counts as enrolled from then on, and leaves the holds of the others alone.
\<close>

theorem delete_pending_task:
  assumes "job_ids_wf j" "t \<in> pending j"
  shows "\<exists>j'. job_delete_not_enrolled_ja_task j t = Some j' \<and> job_ids_wf j' \<and>
    job_is_enrolled j' t = Some True \<and>
    (\<forall>s \<in> pending j. s \<noteq> t \<longrightarrow> job_get_hold_state j' s = job_get_hold_state j s) \<and>
    job_get_not_enrolled_ja_tasks j = Some (card (pending j) mod u32_limit) \<and>
    job_get_not_enrolled_ja_tasks j' = Some ((card (pending j) - 1) mod u32_limit)"
proof -
  have lim: "t < id_limit" using pending_less[OF assms] .
  obtain j' where j': "job_delete_not_enrolled_ja_task j t = Some j'" "job_ids_wf j'"
      "pending j' = pending j - {t}" "\<forall>s. s \<noteq> t \<longrightarrow> hold_of j' s = hold_of j s"
    using delete_not_enrolled[OF assms(1) lim] by blast
  have "card (pending j') = card (pending j) - 1"
    unfolding j'(3) using assms(2) by simp
  then show ?thesis
    using j' lim assms by (auto simp: enrolled_iff not_enrolled_count get_hold_state_pending)
qed

theorem delete_pending_task_witness:
  "\<exists>j'. job_delete_not_enrolled_ja_task example_job 5 = Some j' \<and>
     job_get_not_enrolled_ja_tasks j' = Some 8"
  using delete_pending_task[OF example_job_wf, of 5] by (auto simp: example_job_pending)

text \<open>Tasks 3-5 held by an array dependency; in the second job tasks 1, 2, 8 and 9 are free.\<close>

definition ad_job :: job where
  "ad_job = example_job\<lparr>JB_ids := (\<lambda>_. None)(JB_ja_a_h_ids := Some [rng 3 5 1])\<rparr>"

definition mixed_job :: job where
  "mixed_job = example_job\<lparr>JB_ids := (\<lambda>_. None)(JB_ja_a_h_ids := Some [rng 3 5 1],
     JB_ja_n_h_ids := Some [rng 1 2 1, rng 8 9 1])\<rparr>"

text \<open>
  The smallest and the biggest task not enrolled are wrong for tasks held by an array
  dependency: their last case takes the minimum with 0 when no other list has an id, and when
  another list has one, that one is forgotten. A job whose tasks 3-5 are all held this way has
  smallest task 0; with the free tasks 1, 2, 8 and 9 besides, the smallest is 3 and the biggest 5.
\<close>

theorem unenrolled_extremes_wrong_for_array_dependency:
  "job_get_smallest_unenrolled_task_id ad_job = 0 \<and>
   job_get_smallest_unenrolled_task_id mixed_job = 3 \<and>
   job_get_biggest_unenrolled_task_id mixed_job = 5"
  by (simp add: ad_job_def mixed_job_def job_get_smallest_unenrolled_task_id_def Let_def
      job_get_biggest_unenrolled_task_id_def range_list_get_first_id_def range_list_get_last_id_def)

end
