(* ===== verification/Hostname.thy ===== *)
theory Hostname
  imports Prelude
begin

text \<open>
  Host names, \<^verbatim>\<open>source/libs/uti/sge_hostname.c\<close>, with the string functions it uses
  (\<^verbatim>\<open>source/libs/uti/sge_string.c\<close>). Strings are C strings: they hold no NUL. The bootstrap
  parameters the comparison honours are a record; \<open>fnmatch\<close> is the C library's and is a
  parameter.
\<close>

section \<open>C strings\<close>

definition tolower :: "char \<Rightarrow> char" where
  "tolower c = (let n = (of_char c :: nat) in if 65 \<le> n \<and> n \<le> 90 then char_of (n + 32) else c)"

fun strcmp :: "string \<Rightarrow> string \<Rightarrow> int" where
  "strcmp [] [] = 0"
| "strcmp [] (b # bs) = -1"
| "strcmp (a # as) [] = 1"
| "strcmp (a # as) (b # bs) =
     (if a = b then strcmp as bs else if (of_char a :: nat) < of_char b then -1 else 1)"

definition strcasecmp :: "string \<Rightarrow> string \<Rightarrow> int" where
  "strcasecmp a b = strcmp (map tolower a) (map tolower b)"

text \<open>What \<open>dst\<close> holds after the call.\<close>

definition sge_strlcpy :: "string \<Rightarrow> nat \<Rightarrow> string" where
  "sge_strlcpy src dstsize = take (dstsize - 1) src"

definition strchr :: "string \<Rightarrow> char \<Rightarrow> bool" where
  "strchr s c \<longleftrightarrow> c \<in> set s"

lemma strcmp_0 [simp]: "strcmp a b = 0 \<longleftrightarrow> a = b"
  by (induction a b rule: strcmp.induct) auto

lemma strcmp_sym: "strcmp b a = - strcmp a b"
  by (induction a b rule: strcmp.induct) auto

lemma strcmp_range: "strcmp a b \<in> {-1, 0, 1}"
  by (induction a b rule: strcmp.induct) auto

lemma strcmp_le_trans: "strcmp a b \<le> 0 \<Longrightarrow> strcmp b c \<le> 0 \<Longrightarrow> strcmp a c \<le> 0"
proof (induction a c arbitrary: b rule: strcmp.induct)
  case (3 a as)
  then show ?case by (cases b) auto
next
  case (4 a as c cs)
  then show ?case by (cases b) (auto split: if_splits)
qed auto

section \<open>Comparing host names\<close>

record bootstrap =
  ignore_fqdn :: bool
  default_domain :: "string option"
  CL_MAXHOSTLEN :: nat

definition is_hgroup_name :: "string \<Rightarrow> bool" where
  "is_hgroup_name name = (case name of [] \<Rightarrow> False | c # _ \<Rightarrow> c = CHR ''@'')"

definition sge_hostcpy :: "bootstrap \<Rightarrow> string \<Rightarrow> string" where
  "sge_hostcpy conf raw =
     (if is_hgroup_name raw then sge_strlcpy raw (CL_MAXHOSTLEN conf)
      else if ignore_fqdn conf
      then takeWhile (\<lambda>c. c \<noteq> CHR ''.'') (sge_strlcpy raw (CL_MAXHOSTLEN conf))
      else (case default_domain conf of
              Some d \<Rightarrow>
                if strcasecmp d ''none'' \<noteq> 0
                then (if \<not> strchr raw (CHR ''.'')
                      then take (CL_MAXHOSTLEN conf - 1) (raw @ ''.'' @ d)
                      else sge_strlcpy raw (CL_MAXHOSTLEN conf))
                else sge_strlcpy raw (CL_MAXHOSTLEN conf)
            | None \<Rightarrow> sge_strlcpy raw (CL_MAXHOSTLEN conf)))"

definition sge_hostcmp :: "bootstrap \<Rightarrow> string option \<Rightarrow> string option \<Rightarrow> int" where
  "sge_hostcmp conf h1 h2 =
     (case (h1, h2) of
        (Some a, Some b) \<Rightarrow> strcasecmp (sge_hostcpy conf a) (sge_hostcpy conf b)
      | _ \<Rightarrow> -1)"

definition sge_hostmatch ::
  "(string \<Rightarrow> string \<Rightarrow> int) \<Rightarrow> bootstrap \<Rightarrow> string option \<Rightarrow> string option \<Rightarrow> int" where
  "sge_hostmatch fnmatch conf h1 h2 =
     (case (h1, h2) of
        (Some a, Some b) \<Rightarrow> fnmatch (sge_hostcpy conf a) (sge_hostcpy conf b)
      | _ \<Rightarrow> -1)"

text \<open>
  Two names denote the same host when they are equal after this normalisation. A name whose
  copy is at most as long as the buffer allows is not cut.
\<close>

definition host_key :: "bootstrap \<Rightarrow> string \<Rightarrow> string" where
  "host_key conf h = map tolower (sge_hostcpy conf h)"

lemma hostcmp_key: "sge_hostcmp conf (Some a) (Some b) = strcmp (host_key conf a) (host_key conf b)"
  by (simp add: sge_hostcmp_def strcasecmp_def host_key_def)

text \<open>
  The comparison of host names is a total preorder: it is antisymmetric in its sign,
  transitive, 0 exactly between names with the same key, and, when domains are ignored, it does
  not see what follows the first dot of a name.
\<close>

theorem hostcmp_total_preorder:
  "sge_hostcmp conf (Some b) (Some a) = - sge_hostcmp conf (Some a) (Some b) \<and>
   (sge_hostcmp conf (Some a) (Some b) \<le> 0 \<and> sge_hostcmp conf (Some b) (Some c) \<le> 0 \<longrightarrow>
      sge_hostcmp conf (Some a) (Some c) \<le> 0) \<and>
   (sge_hostcmp conf (Some a) (Some b) = 0 \<longleftrightarrow> host_key conf a = host_key conf b) \<and>
   (ignore_fqdn conf \<and> CHR ''.'' \<notin> set a \<and> length a < CL_MAXHOSTLEN conf \<longrightarrow>
      is_hgroup_name (a @ CHR ''.'' # d) \<or>
      sge_hostcmp conf (Some a) (Some (a @ CHR ''.'' # d)) = 0)"
proof -
  have "sge_hostcmp conf (Some a) (Some (a @ CHR ''.'' # d)) = 0"
    if h: "ignore_fqdn conf" "CHR ''.'' \<notin> set a" "length a < CL_MAXHOSTLEN conf"
      "\<not> is_hgroup_name (a @ CHR ''.'' # d)"
  proof -
    have "\<not> is_hgroup_name a" using h(4) by (cases a) (simp_all add: is_hgroup_name_def)
    moreover have "takeWhile (\<lambda>c. c \<noteq> CHR ''.'') (take k a) = take k a"
      "takeWhile (\<lambda>c. c \<noteq> CHR ''.'') a = a" for k
      using h(2) by (auto dest: in_set_takeD)
    moreover have "takeWhile (\<lambda>c. c \<noteq> CHR ''.'') (a @ x) =
        a @ takeWhile (\<lambda>c. c \<noteq> CHR ''.'') x" for x
      using h(2) by (induction a) auto
    ultimately show ?thesis
      using h(1,3,4)
      by (cases "CL_MAXHOSTLEN conf - 1 - length a")
         (simp_all add: hostcmp_key host_key_def sge_hostcpy_def sge_strlcpy_def
           del: takeWhile_eq_all_conv)
  qed
  moreover have "sge_hostcmp conf (Some b) (Some a) = - sge_hostcmp conf (Some a) (Some b)"
    unfolding hostcmp_key by (rule strcmp_sym)
  ultimately show ?thesis using strcmp_le_trans unfolding hostcmp_key strcmp_0 by blast
qed

theorem hostcmp_total_preorder_witness:
  "sge_hostcmp \<lparr>ignore_fqdn = True, default_domain = None, CL_MAXHOSTLEN = 64\<rparr>
     (Some ''node1'') (Some ''node1.example'') = 0"
  using hostcmp_total_preorder[of "\<lparr>ignore_fqdn = True, default_domain = None, CL_MAXHOSTLEN = 64\<rparr>"
      _ "''node1''" _ "''example''"]
  by (simp add: is_hgroup_name_def)

end
