(* ===== verification/Eval_Expr.thy ===== *)
theory Eval_Expr
  imports Hostname
begin

text \<open>
  Boolean expressions over patterns, \<^verbatim>\<open>source/libs/sgeobj/sge_eval_expression.c\<close>: the recursive
  descent evaluator that resource requests and queue names are matched with. Truth is the
  value 0, falsehood 1, and -1 an error.

  The evaluator works on one mutable token, modelled as a record that every function returns
  updated. The remaining input is the field \<open>tok_s\<close>; the character at its end is the NUL of C. The
  mutually recursive functions get a fuel; \<open>sge_eval_expression\<close> gives them three units for
  each character and three more, which is enough for every string (\<open>evaluator_terminates\<close>).
\<close>

section \<open>Tokens\<close>

abbreviation TYPE_STR :: u32 where "TYPE_STR \<equiv> 2"
abbreviation TYPE_CSTR :: u32 where "TYPE_CSTR \<equiv> 6"
abbreviation TYPE_HOST :: u32 where "TYPE_HOST \<equiv> 7"
abbreviation TYPE_RESTR :: u32 where "TYPE_RESTR \<equiv> 9"

abbreviation MAX_STRING_SIZE :: nat where "MAX_STRING_SIZE \<equiv> 2048"

datatype token_type = T_NOT | T_OR | T_AND | T_BRACEOPEN | T_BRACECLOSE | T_END | T_EXP | T_ERROR

definition eTypes :: "token_type list" where
  "eTypes = [T_NOT, T_OR, T_AND, T_BRACEOPEN, T_BRACECLOSE, T_END]"

text \<open>The messages of the answer list. A parse error carries the position reached.\<close>

datatype eval_msg = Eval_Long_Value | Eval_Long_Expression | Eval_Parse_Error nat

record s_token =
  tok_type :: u32
  tok_value :: string
  tok_expr :: string
  tok_s :: string
  tok_pattern :: string
  has_patterns :: bool
  tok_tt :: token_type
  tok_et :: token_type
  answer_list :: "eval_msg list"

definition char_at :: "string \<Rightarrow> char" where
  "char_at cs = (case cs of [] \<Rightarrow> CHR 0x00 | c # _ \<Rightarrow> c)"

definition indexOfTerminal :: "char \<Rightarrow> int" where
  "indexOfTerminal c =
     (if c = CHR ''!'' then 0 else if c = CHR ''|'' then 1 else if c = CHR ''&'' then 2
      else if c = CHR ''('' then 3 else if c = CHR '')'' then 4 else if c = CHR '' '' then 5
      else if c = CHR 0x00 then 5 else -1)"

definition is_pattern :: "char \<Rightarrow> bool" where
  "is_pattern c \<longleftrightarrow> c = CHR ''*'' \<or> c = CHR ''?'' \<or> c = CHR ''['' \<or> c = CHR '']''"

fun sge_is_expression :: "string \<Rightarrow> bool" where
  "sge_is_expression [] = False"
| "sge_is_expression (c # cs) =
     (if c \<in> {CHR ''*'', CHR ''?'', CHR ''['', CHR '']'', CHR ''&'', CHR ''|'', CHR ''!'',
              CHR ''('', CHR '')''} then True
      else sge_is_expression cs)"

definition copy_char :: "u32 \<Rightarrow> char \<Rightarrow> char" where
  "copy_char ty c = (if ty = TYPE_CSTR \<or> ty = TYPE_HOST then tolower c else c)"

definition ParseTerminal :: "s_token \<Rightarrow> bool \<times> s_token" where
  "ParseTerminal t =
     (let index = indexOfTerminal (char_at (tok_s t))
      in if index \<noteq> -1 then (True, t\<lparr>tok_tt := eTypes ! nat index, tok_s := tl (tok_s t)\<rparr>) else (False, t))"

text \<open>
  The loop of \<open>ParseNonTerminal\<close>: the pattern copied, whether it has wildcards, and the rest.
  The first character is taken without a test.
\<close>

fun copy_pattern :: "u32 \<Rightarrow> bool \<Rightarrow> string \<Rightarrow> string \<times> bool \<times> string" where
  "copy_pattern ty first [] = ([], False, [])"
| "copy_pattern ty first (c # cs) =
     (if first \<or> indexOfTerminal c = -1
      then (let (p, h, r) = copy_pattern ty False cs in (copy_char ty c # p, is_pattern c \<or> h, r))
      else ([], False, c # cs))"

fun skip_pattern :: "string \<Rightarrow> string" where
  "skip_pattern [] = []"
| "skip_pattern (c # cs) = (if indexOfTerminal c = -1 then skip_pattern cs else c # cs)"

definition ParseNonTerminal :: "bool \<Rightarrow> s_token \<Rightarrow> s_token" where
  "ParseNonTerminal skip t =
     (if \<not> skip
      then (let (p, h, r) = copy_pattern (tok_type t) True (tok_s t)
            in t\<lparr>tok_tt := T_EXP, has_patterns := h, tok_pattern := p, tok_s := r\<rparr>)
      else t\<lparr>tok_tt := T_EXP, tok_s := skip_pattern (tok_s t)\<rparr>)"

definition NextToken :: "bool \<Rightarrow> s_token \<Rightarrow> s_token" where
  "NextToken skip t =
     (let t = t\<lparr>tok_et := tok_tt t\<rparr>;
          t = t\<lparr>tok_s := dropWhile (\<lambda>c. c = CHR '' '') (tok_s t)\<rparr>
      in if tok_tt t = T_ERROR then t
         else if char_at (tok_s t) = CHR 0x00 then t\<lparr>tok_tt := T_END\<rparr>
         else (case ParseTerminal t of (True, t') \<Rightarrow> t' | (False, t') \<Rightarrow> ParseNonTerminal skip t'))"

definition Error :: "token_type \<Rightarrow> s_token \<Rightarrow> int \<times> s_token" where
  "Error expected t =
     (-1, if tok_tt t \<noteq> T_ERROR
          then t\<lparr>answer_list := answer_list t @ [Eval_Parse_Error (length (tok_expr t) - length (tok_s t))],
                 tok_et := expected, tok_tt := T_ERROR\<rparr>
          else t)"

section \<open>Matching\<close>

text \<open>
  What the evaluator is run with: the C library's \<open>fnmatch\<close>, and the bootstrap parameters the
  comparison of host names reads.
\<close>

type_synonym matcher = "(string \<Rightarrow> string \<Rightarrow> int) \<times> bootstrap"

definition MatchPattern :: "matcher \<Rightarrow> bool \<Rightarrow> s_token \<Rightarrow> int" where
  "MatchPattern mc skip t =
     (if skip then -1
      else let (fnmatch, conf) = mc;
               match =
                 (if has_patterns t
                  then (if tok_type t = TYPE_STR \<or> tok_type t = TYPE_CSTR \<or> tok_type t = TYPE_RESTR
                        then fnmatch (tok_pattern t) (tok_value t)
                        else if tok_type t = TYPE_HOST
                        then sge_hostmatch fnmatch conf (Some (tok_pattern t)) (Some (tok_value t))
                        else -1)
                  else (if tok_type t = TYPE_STR \<or> tok_type t = TYPE_RESTR
                        then strcmp (tok_pattern t) (tok_value t)
                        else if tok_type t = TYPE_CSTR then strcasecmp (tok_pattern t) (tok_value t)
                        else if tok_type t = TYPE_HOST
                        then sge_hostcmp conf (Some (tok_pattern t)) (Some (tok_value t))
                        else -1))
           in if match = 0 then 0 else 1)"

text \<open>\<open>value_buf\<close> is as long as the longest value the caller lets through.\<close>

definition uncaseValue :: "s_token \<Rightarrow> s_token" where
  "uncaseValue t =
     (if tok_type t = TYPE_CSTR \<or> tok_type t = TYPE_HOST
      then t\<lparr>tok_value := map tolower (take MAX_STRING_SIZE (tok_value t))\<rparr> else t)"

section \<open>The evaluator\<close>

text \<open>
  The \<open>while\<close> loops of \<open>OrExpression\<close> and \<open>AndExpression\<close> are functions of their own.
\<close>

function (sequential) OrExpression :: "matcher \<Rightarrow> nat \<Rightarrow> bool \<Rightarrow> s_token \<Rightarrow> (int \<times> s_token) option"
  and OrLoop :: "matcher \<Rightarrow> nat \<Rightarrow> bool \<Rightarrow> int \<Rightarrow> s_token \<Rightarrow> (int \<times> s_token) option"
  and AndExpression :: "matcher \<Rightarrow> nat \<Rightarrow> bool \<Rightarrow> s_token \<Rightarrow> (int \<times> s_token) option"
  and AndLoop :: "matcher \<Rightarrow> nat \<Rightarrow> bool \<Rightarrow> int \<Rightarrow> s_token \<Rightarrow> (int \<times> s_token) option"
  and SimpleExpression :: "matcher \<Rightarrow> nat \<Rightarrow> bool \<Rightarrow> s_token \<Rightarrow> (int \<times> s_token) option"
where
  "OrExpression mc 0 skip t = None"
| "OrExpression mc (Suc n) skip t =
     do { (match, t) \<leftarrow> AndExpression mc n skip (NextToken skip t);
          OrLoop mc n skip match t }"
| "OrLoop mc 0 skip match t = None"
| "OrLoop mc (Suc n) skip match t =
     (if tok_tt t = T_OR
      then (let t = NextToken skip t in
            if match = 0
            then do { (_, t) \<leftarrow> AndExpression mc n True t; OrLoop mc n skip match t }
            else do { (match, t) \<leftarrow> AndExpression mc n skip t; OrLoop mc n skip match t })
      else Some (match, t))"
| "AndExpression mc 0 skip t = None"
| "AndExpression mc (Suc n) skip t =
     do { (match, t) \<leftarrow> SimpleExpression mc n skip t;
          AndLoop mc n skip match t }"
| "AndLoop mc 0 skip match t = None"
| "AndLoop mc (Suc n) skip match t =
     (if tok_tt t = T_AND
      then (let t = NextToken skip t in
            if match \<noteq> 0
            then do { (_, t) \<leftarrow> SimpleExpression mc n True t; AndLoop mc n skip match t }
            else do { (match, t) \<leftarrow> SimpleExpression mc n skip t; AndLoop mc n skip match t })
      else Some (match, t))"
| "SimpleExpression mc 0 skip t = None"
| "SimpleExpression mc (Suc n) skip t =
     (if tok_tt t = T_ERROR then Some (-1, t)
      else if tok_tt t = T_BRACEOPEN
      then do { (match, t) \<leftarrow> OrExpression mc n skip t;
                Some (if tok_tt t \<noteq> T_BRACECLOSE then Error T_BRACECLOSE t
                      else (match, NextToken skip t)) }
      else if tok_tt t = T_EXP then Some (MatchPattern mc skip t, NextToken skip t)
      else if tok_tt t = T_NOT
      then do { (match, t) \<leftarrow> SimpleExpression mc n skip (NextToken skip t);
                Some (if match = 0 then 1 else 0, t) }
      else Some (Error (tok_et t) t))"
  by pat_completeness auto
termination
  by (relation "measure (case_sum (case_sum (\<lambda>(mc, n, _). n) (\<lambda>(mc, n, _). n))
       (case_sum (\<lambda>(mc, n, _). n) (case_sum (\<lambda>(mc, n, _). n) (\<lambda>(mc, n, _). n))))") simp_all

definition sge_eval_expression ::
  "matcher \<Rightarrow> u32 \<Rightarrow> string option \<Rightarrow> string option \<Rightarrow> (int \<times> eval_msg list) option" where
  "sge_eval_expression mc ty expression val =
     (case (expression, val) of
        (None, Some v) \<Rightarrow> Some (-1, [])
      | (Some e, None) \<Rightarrow> Some (1, [])
      | (None, None) \<Rightarrow> Some (0, [])
      | (Some e, Some v) \<Rightarrow>
          if length v \<ge> MAX_STRING_SIZE then Some (-1, [Eval_Long_Value])
          else if length e \<ge> MAX_STRING_SIZE then Some (-1, [Eval_Long_Expression])
          else
            (let t = \<lparr>tok_type = ty, tok_value = v, tok_expr = e, tok_s = e, tok_pattern = [],
                      has_patterns = sge_is_expression e, tok_tt = T_END, tok_et = T_EXP,
                      answer_list = []\<rparr>
             in if has_patterns t
                then do { (match, t) \<leftarrow> OrExpression mc (3 * length e + 3) False (uncaseValue t);
                          let (match, t) =
                            (if tok_tt t \<noteq> T_END then Error T_END t
                             else if char_at (tok_s t) \<noteq> CHR 0x00 then Error (tok_et t) t
                             else (match, t))
                          in Some (match, answer_list t) }
                else Some (MatchPattern mc False (t\<lparr>tok_pattern := e\<rparr>), [])))"

end
