(* ===== verification/Eval_Expr_Facts.thy ===== *)
theory Eval_Expr_Facts
  imports Eval_Expr
begin

text \<open>
  The grammar of the expressions of \<^verbatim>\<open>sge_eval_expression.c\<close> with its meaning, as inductive
  relations over a list of tokens, and that the evaluator decides it: it returns on every
  string, with the value of the expression when there is one and with -1 when there is none.
\<close>

section \<open>Lexical structure\<close>

datatype token = Op token_type | Word string

definition is_word_char :: "char \<Rightarrow> bool" where
  "is_word_char c \<longleftrightarrow> indexOfTerminal c = -1"

definition op_of :: "char \<Rightarrow> token_type" where
  "op_of c = eTypes ! nat (indexOfTerminal c)"

text \<open>The string as a list of tokens: blanks separate, operators stand alone.\<close>

function tokens :: "string \<Rightarrow> token list" where
  "tokens cs = (case dropWhile (\<lambda>c. c = CHR '' '') cs of
     [] \<Rightarrow> []
   | c # cs' \<Rightarrow> if is_word_char c
       then Word (c # takeWhile is_word_char cs') # tokens (dropWhile is_word_char cs')
       else Op (op_of c) # tokens cs')"
  by pat_completeness auto
termination
proof (relation "measure length")
  fix cs c and cs' :: string
  assume a: "dropWhile (\<lambda>c. c = CHR '' '') cs = c # cs'"
  then have "Suc (length cs') \<le> length cs"
    by (metis length_Cons length_dropWhile_le)
  then show "(cs', cs) \<in> measure length" "(dropWhile is_word_char cs', cs) \<in> measure length"
    using length_dropWhile_le[of is_word_char cs'] by auto
qed simp

declare tokens.simps [simp del]

section \<open>Grammar and meaning\<close>

text \<open>
  \<open>P w\<close> says whether the word \<open>w\<close> matches. An expression is a list of conjunctions separated
  by bars, a conjunction a list of simple expressions separated by ampersands.
\<close>

inductive or_val :: "(string \<Rightarrow> bool) \<Rightarrow> token list \<Rightarrow> bool \<Rightarrow> bool"
  and or_tail :: "(string \<Rightarrow> bool) \<Rightarrow> token list \<Rightarrow> bool \<Rightarrow> bool"
  and and_val :: "(string \<Rightarrow> bool) \<Rightarrow> token list \<Rightarrow> bool \<Rightarrow> bool"
  and and_tail :: "(string \<Rightarrow> bool) \<Rightarrow> token list \<Rightarrow> bool \<Rightarrow> bool"
  and simple_val :: "(string \<Rightarrow> bool) \<Rightarrow> token list \<Rightarrow> bool \<Rightarrow> bool"
  for P :: "string \<Rightarrow> bool"
where
  disj: "and_val P ts a \<Longrightarrow> or_tail P us b \<Longrightarrow> or_val P (ts @ us) (a \<or> b)"
| disj_end: "or_tail P [] False"
| disj_more: "and_val P ts a \<Longrightarrow> or_tail P us b \<Longrightarrow> or_tail P (Op T_OR # ts @ us) (a \<or> b)"
| conj: "simple_val P ts a \<Longrightarrow> and_tail P us b \<Longrightarrow> and_val P (ts @ us) (a \<and> b)"
| conj_end: "and_tail P [] True"
| conj_more: "simple_val P ts a \<Longrightarrow> and_tail P us b \<Longrightarrow> and_tail P (Op T_AND # ts @ us) (a \<and> b)"
| word: "simple_val P [Word w] (P w)"
| neg: "simple_val P ts a \<Longrightarrow> simple_val P (Op T_NOT # ts) (\<not> a)"
| brackets: "or_val P ts a \<Longrightarrow> simple_val P (Op T_BRACEOPEN # ts @ [Op T_BRACECLOSE]) a"

section \<open>Reading a token\<close>

text \<open>
  Whether a word matches the value, by the type: words and values of type CSTR and HOST are compared
  in lower case, words with wildcards by \<open>fnmatch\<close>, hosts by the rules for host names.
\<close>

definition word_matches :: "matcher \<Rightarrow> u32 \<Rightarrow> string \<Rightarrow> string \<Rightarrow> bool" where
  "word_matches mc ty v w =
     (let (fnmatch, conf) = mc in
      if ty = TYPE_HOST then
        (if list_ex is_pattern w then sge_hostmatch fnmatch conf (Some (map tolower w)) (Some v) = 0
         else sge_hostcmp conf (Some (map tolower w)) (Some v) = 0)
      else if ty = TYPE_CSTR then
        (if list_ex is_pattern w then fnmatch (map tolower w) v = 0
         else map tolower (map tolower w) = map tolower v)
      else if ty = TYPE_STR \<or> ty = TYPE_RESTR then
        (if list_ex is_pattern w then fnmatch w v = 0 else w = v)
      else False)"

text \<open>The token and the rest of the input stand for the token list \<open>ts\<close>.\<close>

definition rep :: "u32 \<Rightarrow> string \<Rightarrow> bool \<Rightarrow> s_token \<Rightarrow> token list \<Rightarrow> bool" where
  "rep ty v skip t ts \<longleftrightarrow> tok_type t = ty \<and> tok_value t = v \<and> answer_list t = [] \<and>
     CHR 0x00 \<notin> set (tok_s t) \<and>
     (case ts of
        [] \<Rightarrow> tok_tt t = T_END \<and> tok_s t = []
      | Op k # r \<Rightarrow> tok_tt t = k \<and> k \<in> {T_NOT, T_OR, T_AND, T_BRACEOPEN, T_BRACECLOSE} \<and>
          tokens (tok_s t) = r
      | Word w # r \<Rightarrow> tok_tt t = T_EXP \<and> tokens (tok_s t) = r \<and>
          (\<not> skip \<longrightarrow> tok_pattern t = map (copy_char ty) w \<and> has_patterns t = list_ex is_pattern w))"

text \<open>Between tokens: only the rest of the input counts.\<close>

definition ready :: "u32 \<Rightarrow> string \<Rightarrow> s_token \<Rightarrow> bool" where
  "ready ty v t \<longleftrightarrow> tok_type t = ty \<and> tok_value t = v \<and> answer_list t = [] \<and>
     CHR 0x00 \<notin> set (tok_s t) \<and> tok_tt t \<noteq> T_ERROR"

lemma copy_pattern_loop:
  "copy_pattern ty False cs = (map (copy_char ty) (takeWhile is_word_char cs),
     list_ex is_pattern (takeWhile is_word_char cs), dropWhile is_word_char cs)"
  by (induction cs) (auto simp: is_word_char_def)

lemma copy_pattern_first:
  "copy_pattern ty True (c # cs) = (map (copy_char ty) (c # takeWhile is_word_char cs),
     list_ex is_pattern (c # takeWhile is_word_char cs), dropWhile is_word_char cs)"
  by (simp add: copy_pattern_loop)

lemma skip_pattern_dropWhile: "skip_pattern cs = dropWhile is_word_char cs"
  by (induction cs) (auto simp: is_word_char_def)

lemma op_of_ops:
  "\<not> is_word_char c \<Longrightarrow> c \<noteq> CHR '' '' \<Longrightarrow> c \<noteq> CHR 0x00 \<Longrightarrow>
   op_of c \<in> {T_NOT, T_OR, T_AND, T_BRACEOPEN, T_BRACECLOSE}"
  by (simp add: is_word_char_def op_of_def indexOfTerminal_def eTypes_def split: if_splits)

lemma NextToken_rep:
  assumes "ready ty v t"
  shows "rep ty v skip (NextToken skip t) (tokens (tok_s t))"
proof -
  let ?r = "dropWhile (\<lambda>c. c = CHR '' '') (tok_s t)"
  have nul: "CHR 0x00 \<notin> set ?r" using assms by (auto simp: ready_def dest: set_dropWhileD)
  show ?thesis
  proof (cases ?r)
    case Nil
    then show ?thesis
      using assms by (simp add: NextToken_def Let_def char_at_def tokens.simps[of "tok_s t"] rep_def ready_def
          del: dropWhile_eq_Nil_conv)
  next
    case (Cons c cs)
    then have c: "c \<noteq> CHR '' ''" "c \<noteq> CHR 0x00" and cs: "CHR 0x00 \<notin> set cs"
      using nul hd_dropWhile[of "\<lambda>c. c = CHR '' ''" "tok_s t"] by auto
    then have "CHR 0x00 \<notin> set (dropWhile is_word_char cs)" by (auto dest: set_dropWhileD)
    then show ?thesis
      using assms Cons c cs op_of_ops[of c]
      by (cases "is_word_char c")
         (auto simp: NextToken_def Let_def char_at_def tokens.simps[of "tok_s t"] rep_def ready_def
           ParseTerminal_def ParseNonTerminal_def is_word_char_def[symmetric] op_of_def[symmetric]
           copy_pattern_first skip_pattern_dropWhile simp del: copy_pattern.simps)
  qed
qed

section \<open>Termination\<close>

text \<open>The input left, the current token included.\<close>

definition left :: "s_token \<Rightarrow> nat" where
  "left t = length (tok_s t) + (if tok_tt t \<in> {T_END, T_ERROR} then 0 else 1)"

lemma left_NextToken: "left (NextToken skip t) \<le> length (tok_s t)"
proof -
  let ?r = "dropWhile (\<lambda>c. c = CHR '' '') (tok_s t)"
  have le: "length ?r \<le> length (tok_s t)" by (rule length_dropWhile_le)
  show ?thesis
  proof (cases ?r)
    case Nil
    then show ?thesis
      by (simp add: NextToken_def Let_def left_def char_at_def del: dropWhile_eq_Nil_conv)
  next
    case (Cons c cs)
    have "length (dropWhile is_word_char cs) \<le> length cs" by (rule length_dropWhile_le)
    then show ?thesis
      using Cons le
      by (auto simp: NextToken_def Let_def left_def char_at_def ParseTerminal_def ParseNonTerminal_def
          skip_pattern_dropWhile copy_pattern_first is_word_char_def[symmetric]
          simp del: copy_pattern.simps)
  qed
qed

lemma left_Error [simp]: "left (snd (Error k t)) \<le> left t"
  by (simp add: Error_def left_def)

lemma length_left: "length (tok_s t) \<le> left t"
  by (simp add: left_def)

lemma left_live: "tok_tt t \<notin> {T_END, T_ERROR} \<Longrightarrow> length (tok_s t) < left t"
  by (simp add: left_def)

text \<open>With this much fuel every function returns, with no more input left than before.\<close>

definition ends :: "(int \<times> s_token) option \<Rightarrow> nat \<Rightarrow> bool" where
  "ends r k \<longleftrightarrow> (\<exists>m t. r = Some (m, t) \<and> left t \<le> k)"

lemma ends_Some [simp]: "ends (Some r) k \<longleftrightarrow> left (snd r) \<le> k"
  by (cases r) (simp add: ends_def)

lemma ends_bind:
  "ends r k \<Longrightarrow> (\<And>m t. left t \<le> k \<Longrightarrow> ends (f (m, t)) k') \<Longrightarrow> ends (r \<bind> f) k'"
  by (auto simp: ends_def)

lemma ends_mono: "ends r k \<Longrightarrow> k \<le> k' \<Longrightarrow> ends r k'"
  by (auto simp: ends_def)

lemma evaluator_ends:
  "(3 * length (tok_s t) + 3 \<le> n \<longrightarrow> ends (OrExpression mc n skip t) (length (tok_s t))) \<and>
   (3 * left t + 2 \<le> n \<longrightarrow> ends (OrLoop mc n skip m t) (left t)) \<and>
   (3 * left t + 2 \<le> n \<longrightarrow> ends (AndExpression mc n skip t) (left t)) \<and>
   (3 * left t + 1 \<le> n \<longrightarrow> ends (AndLoop mc n skip m t) (left t)) \<and>
   (3 * left t + 1 \<le> n \<longrightarrow> ends (SimpleExpression mc n skip t) (left t))"
proof (induction n arbitrary: skip t m)
  case 0
  then show ?case by simp
next
  case (Suc n)
  note IH = Suc.IH[THEN conjunct1, rule_format] Suc.IH[THEN conjunct2, THEN conjunct1, rule_format]
    Suc.IH[THEN conjunct2, THEN conjunct2, THEN conjunct1, rule_format]
    Suc.IH[THEN conjunct2, THEN conjunct2, THEN conjunct2, THEN conjunct1, rule_format]
    Suc.IH[THEN conjunct2, THEN conjunct2, THEN conjunct2, THEN conjunct2, rule_format]
  note next_le = left_NextToken[of skip t]
  have "ends (OrExpression mc (Suc n) skip t) (length (tok_s t))" if "3 * length (tok_s t) + 3 \<le> Suc n"
    unfolding OrExpression.simps
    by (rule ends_bind, rule IH(3)) (use that next_le in \<open>auto intro!: ends_mono[OF IH(2)]\<close>)
  moreover have "ends (OrLoop mc (Suc n) skip m t) (left t)" if f: "3 * left t + 2 \<le> Suc n"
  proof (cases "tok_tt t = T_OR")
    case True
    then have lt: "left (NextToken skip t) < left t" using left_live[of t] next_le by simp
    then have a: "ends (AndExpression mc n b (NextToken skip t)) (left (NextToken skip t))" for b
      using f by (intro IH(3)) simp
    have "ends (OrLoop mc n skip m' t') (left t)" if "left t' \<le> left (NextToken skip t)" for m' t'
      using that lt f by (intro ends_mono[OF IH(2)]) auto
    then show ?thesis using True by (auto simp: Let_def intro!: ends_bind[OF a])
  qed (simp add: ends_def)
  moreover have "ends (AndExpression mc (Suc n) skip t) (left t)" if "3 * left t + 2 \<le> Suc n"
    unfolding AndExpression.simps
    by (rule ends_bind, rule IH(5)) (use that in \<open>auto intro!: ends_mono[OF IH(4)]\<close>)
  moreover have "ends (AndLoop mc (Suc n) skip m t) (left t)" if f: "3 * left t + 1 \<le> Suc n"
  proof (cases "tok_tt t = T_AND")
    case True
    then have lt: "left (NextToken skip t) < left t" using left_live[of t] next_le by simp
    then have a: "ends (SimpleExpression mc n b (NextToken skip t)) (left (NextToken skip t))" for b
      using f by (intro IH(5)) simp
    have "ends (AndLoop mc n skip m' t') (left t)" if "left t' \<le> left (NextToken skip t)" for m' t'
      using that lt f by (intro ends_mono[OF IH(4)]) auto
    then show ?thesis using True by (auto simp: Let_def intro!: ends_bind[OF a])
  qed (simp add: ends_def)
  moreover have "ends (SimpleExpression mc (Suc n) skip t) (left t)" if f: "3 * left t + 1 \<le> Suc n"
  proof -
    have "ends (OrExpression mc n skip t) (length (tok_s t))" if "tok_tt t = T_BRACEOPEN"
      using left_live[of t] that f by (intro IH(1)) simp
    moreover have "left (NextToken skip t') \<le> left t" if "left t' \<le> length (tok_s t)" for t'
      using left_NextToken[of skip t'] length_left[of t'] length_left[of t] that by linarith
    moreover have "left (snd (Error k t')) \<le> left t" if "left t' \<le> length (tok_s t)" for t' k
      using left_Error[of k t'] length_left[of t] that by linarith
    moreover have "ends (SimpleExpression mc n skip (NextToken skip t)) (left t)" if "tok_tt t = T_NOT"
      using left_live[of t] next_le that f by (intro ends_mono[OF IH(5)]) auto
    ultimately show ?thesis
      using next_le length_left[of t] left_Error[of "tok_et t" t]
      by (auto intro!: ends_bind split: if_splits)
  qed
  ultimately show ?case by blast
qed

text \<open>More fuel does not change a result.\<close>

definition refines :: "'a option \<Rightarrow> 'a option \<Rightarrow> bool" where
  "refines r r' \<longleftrightarrow> (\<forall>x. r = Some x \<longrightarrow> r' = Some x)"

lemma refines_refl [simp]: "refines r r" "refines None r"
  by (simp_all add: refines_def)

lemma refines_bind: "refines r r' \<Longrightarrow> (\<And>x. refines (f x) (f' x)) \<Longrightarrow> refines (r \<bind> f) (r' \<bind> f')"
  by (cases r) (auto simp: refines_def)

lemmas evaluator_simps = OrExpression.simps(2) OrLoop.simps(2) AndExpression.simps(2)
  AndLoop.simps(2) SimpleExpression.simps(2)

lemma fuel_step:
  "refines (OrExpression mc n skip t) (OrExpression mc (Suc n) skip t) \<and>
   refines (OrLoop mc n skip m t) (OrLoop mc (Suc n) skip m t) \<and>
   refines (AndExpression mc n skip t) (AndExpression mc (Suc n) skip t) \<and>
   refines (AndLoop mc n skip m t) (AndLoop mc (Suc n) skip m t) \<and>
   refines (SimpleExpression mc n skip t) (SimpleExpression mc (Suc n) skip t)"
proof (induction n arbitrary: skip t m)
  case 0
  then show ?case by simp
next
  case (Suc n)
  note IH = Suc.IH[THEN conjunct1] Suc.IH[THEN conjunct2, THEN conjunct1]
    Suc.IH[THEN conjunct2, THEN conjunct2, THEN conjunct1]
    Suc.IH[THEN conjunct2, THEN conjunct2, THEN conjunct2, THEN conjunct1]
    Suc.IH[THEN conjunct2, THEN conjunct2, THEN conjunct2, THEN conjunct2]
  have or: "refines (OrExpression mc (Suc n) skip t) (OrExpression mc (Suc (Suc n)) skip t)"
    unfolding OrExpression.simps(2)[of mc n skip t] OrExpression.simps(2)[of mc "Suc n" skip t]
      by (intro refines_bind IH(3)) (auto intro: IH simp del: evaluator_simps)
  have "refines (OrLoop mc (Suc n) skip m t) (OrLoop mc (Suc (Suc n)) skip m t)"
    unfolding OrLoop.simps(2)[of mc n skip m t] OrLoop.simps(2)[of mc "Suc n" skip m t]
      Let_def by (auto intro!: refines_bind IH(2,3) simp del: evaluator_simps)
  moreover have "refines (AndExpression mc (Suc n) skip t) (AndExpression mc (Suc (Suc n)) skip t)"
    unfolding AndExpression.simps(2)[of mc n skip t] AndExpression.simps(2)[of mc "Suc n" skip t]
      by (intro refines_bind IH(5)) (auto intro: IH simp del: evaluator_simps)
  moreover have "refines (AndLoop mc (Suc n) skip m t) (AndLoop mc (Suc (Suc n)) skip m t)"
    unfolding AndLoop.simps(2)[of mc n skip m t] AndLoop.simps(2)[of mc "Suc n" skip m t]
      Let_def by (auto intro!: refines_bind IH(4,5) simp del: evaluator_simps)
  moreover have "refines (SimpleExpression mc (Suc n) skip t) (SimpleExpression mc (Suc (Suc n)) skip t)"
    unfolding SimpleExpression.simps(2)[of mc n skip t] SimpleExpression.simps(2)[of mc "Suc n" skip t]
      by (auto intro!: refines_bind IH(1,5) simp del: evaluator_simps)
  ultimately show ?case using or by blast
qed

lemma more_fuel:
  assumes "\<And>n. refines (f n) (f (Suc n))" "f n = Some r" "n \<le> k"
  shows "f k = Some r"
proof -
  have "f (n + d) = Some r" for d
    using assms(1,2) by (induction d) (auto simp: refines_def)
  from this[of "k - n"] assms(3) show ?thesis by simp
qed

lemmas fuel_steps = fuel_step[THEN conjunct1] fuel_step[THEN conjunct2, THEN conjunct1]
  fuel_step[THEN conjunct2, THEN conjunct2, THEN conjunct1]
  fuel_step[THEN conjunct2, THEN conjunct2, THEN conjunct2, THEN conjunct1]
  fuel_step[THEN conjunct2, THEN conjunct2, THEN conjunct2, THEN conjunct2]

lemmas Or_fuel = more_fuel[of "\<lambda>n. OrExpression mc n skip t" for mc skip t, OF fuel_steps(1)]
lemmas OrLoop_fuel = more_fuel[of "\<lambda>n. OrLoop mc n skip m t" for mc skip m t, OF fuel_steps(2)]
lemmas And_fuel = more_fuel[of "\<lambda>n. AndExpression mc n skip t" for mc skip t, OF fuel_steps(3)]
lemmas AndLoop_fuel = more_fuel[of "\<lambda>n. AndLoop mc n skip m t" for mc skip m t, OF fuel_steps(4)]
lemmas Simple_fuel = more_fuel[of "\<lambda>n. SimpleExpression mc n skip t" for mc skip t, OF fuel_steps(5)]

section \<open>Soundness\<close>

definition truth :: "bool \<Rightarrow> int" where
  "truth b = (if b then 0 else 1)"

lemma truth_simps [simp]: "truth b = 0 \<longleftrightarrow> b" "truth b = 1 \<longleftrightarrow> \<not> b" "truth True = 0" "truth False = 1"
  by (simp_all add: truth_def)

lemma rep_ready: "rep ty v skip t ts \<Longrightarrow> ready ty v t"
  by (auto simp: rep_def ready_def split: list.splits token.splits)

lemma rep_skip: "rep ty v skip t ts \<Longrightarrow> rep ty v True t ts"
  by (auto simp: rep_def split: list.splits token.splits)

lemma rep_Op: "rep ty v skip t ts \<Longrightarrow> tok_tt t = k \<Longrightarrow>
    k \<in> {T_NOT, T_OR, T_AND, T_BRACEOPEN, T_BRACECLOSE} \<Longrightarrow> ts = Op k # tokens (tok_s t)"
  by (auto simp: rep_def split: list.splits token.splits)

lemma rep_Word: "rep ty v skip t ts \<Longrightarrow> tok_tt t = T_EXP \<Longrightarrow> \<exists>w. ts = Word w # tokens (tok_s t)"
  by (auto simp: rep_def split: list.splits token.splits)

lemma rep_End: "rep ty v skip t ts \<Longrightarrow> tok_tt t = T_END \<Longrightarrow> ts = [] \<and> tok_s t = []"
  by (auto simp: rep_def split: list.splits token.splits)

lemma rep_no_error: "rep ty v skip t ts \<Longrightarrow> tok_tt t \<noteq> T_ERROR"
  by (auto simp: rep_def split: list.splits token.splits)

lemma map_copy_char:
  "map (copy_char ty) w = (if ty = TYPE_CSTR \<or> ty = TYPE_HOST then map tolower w else w)"
proof -
  have "copy_char ty = (if ty = TYPE_CSTR \<or> ty = TYPE_HOST then tolower else (\<lambda>c. c))"
    by (auto simp: copy_char_def fun_eq_iff)
  then show ?thesis by simp
qed

lemma rep_match:
  assumes "rep ty v False t (Word w # r)"
  shows "MatchPattern mc False t = truth (word_matches mc ty v w)"
proof -
  have t: "tok_type t = ty" "tok_value t = v" "tok_pattern t = map (copy_char ty) w"
      "has_patterns t = list_ex is_pattern w"
    using assms by (auto simp: rep_def)
  consider "ty = TYPE_HOST" | "ty = TYPE_CSTR" | "ty = TYPE_STR \<or> ty = TYPE_RESTR"
    | "ty \<noteq> TYPE_HOST" "ty \<noteq> TYPE_CSTR" "ty \<noteq> TYPE_STR" "ty \<noteq> TYPE_RESTR" by blast
  then show ?thesis
    by cases (cases mc; auto simp: MatchPattern_def word_matches_def truth_def t map_copy_char
        strcasecmp_def simp del: map_map)+
qed

lemma OrLoop_error: "tok_tt t = T_ERROR \<Longrightarrow> OrLoop mc n skip m t = Some (m', t') \<Longrightarrow> t' = t"
  and AndLoop_error: "tok_tt t = T_ERROR \<Longrightarrow> AndLoop mc n skip m t = Some (m', t') \<Longrightarrow> t' = t"
  by (cases n; simp)+

lemma Error_tt [simp]: "tok_tt (snd (Error k t)) = T_ERROR"
  by (simp add: Error_def)

text \<open>
  What a function does on the tokens \<open>ts\<close>: it takes an expression \<open>us\<close> of its kind off the
  front, and its result is the value of that expression unless it only skips.
\<close>

definition takes :: "u32 \<Rightarrow> string \<Rightarrow> bool \<Rightarrow> (token list \<Rightarrow> bool \<Rightarrow> bool) \<Rightarrow> (bool \<Rightarrow> int) \<Rightarrow>
    token list \<Rightarrow> int \<times> s_token \<Rightarrow> bool" where
  "takes ty v skip G val ts r \<longleftrightarrow> (\<exists>us b rest. ts = us @ rest \<and> G us b \<and> rep ty v True (snd r) rest \<and>
     (\<not> skip \<longrightarrow> fst r = val b))"

lemma takesI:
  "ts = us @ rest \<Longrightarrow> G us b \<Longrightarrow> rep ty v True t rest \<Longrightarrow> skip \<or> m = val b \<Longrightarrow>
   takes ty v skip G val ts (m, t)"
  by (auto simp: takes_def)

lemma takesE:
  assumes "takes ty v skip G val ts (m, t)"
  obtains us b rest where "ts = us @ rest" "G us b" "rep ty v True t rest" "skip \<or> m = val b"
  using assms by (auto simp: takes_def)

definition or_sound :: "matcher \<Rightarrow> u32 \<Rightarrow> string \<Rightarrow> nat \<Rightarrow> bool" where
  "or_sound mc ty v n \<longleftrightarrow> (\<forall>skip t m' t'. tok_tt t' \<noteq> T_ERROR \<longrightarrow>
     OrExpression mc n skip t = Some (m', t') \<longrightarrow> ready ty v t \<longrightarrow>
     takes ty v skip (or_val (word_matches mc ty v)) truth (tokens (tok_s t)) (m', t'))"

definition and_sound :: "matcher \<Rightarrow> u32 \<Rightarrow> string \<Rightarrow> nat \<Rightarrow> bool" where
  "and_sound mc ty v n \<longleftrightarrow> (\<forall>skip t ts m' t'. tok_tt t' \<noteq> T_ERROR \<longrightarrow>
     AndExpression mc n skip t = Some (m', t') \<longrightarrow> rep ty v skip t ts \<longrightarrow>
     takes ty v skip (and_val (word_matches mc ty v)) truth ts (m', t'))"

definition simple_sound :: "matcher \<Rightarrow> u32 \<Rightarrow> string \<Rightarrow> nat \<Rightarrow> bool" where
  "simple_sound mc ty v n \<longleftrightarrow> (\<forall>skip t ts m' t'. tok_tt t' \<noteq> T_ERROR \<longrightarrow>
     SimpleExpression mc n skip t = Some (m', t') \<longrightarrow> rep ty v skip t ts \<longrightarrow>
     takes ty v skip (simple_val (word_matches mc ty v)) truth ts (m', t'))"

definition or_loop_sound :: "matcher \<Rightarrow> u32 \<Rightarrow> string \<Rightarrow> nat \<Rightarrow> bool" where
  "or_loop_sound mc ty v n \<longleftrightarrow> (\<forall>skip m t ts m' t'. tok_tt t' \<noteq> T_ERROR \<longrightarrow>
     OrLoop mc n skip m t = Some (m', t') \<longrightarrow> rep ty v True t ts \<longrightarrow> (skip \<or> m \<in> {0, 1}) \<longrightarrow>
     takes ty v skip (or_tail (word_matches mc ty v)) (\<lambda>b. truth (m = 0 \<or> b)) ts (m', t'))"

definition and_loop_sound :: "matcher \<Rightarrow> u32 \<Rightarrow> string \<Rightarrow> nat \<Rightarrow> bool" where
  "and_loop_sound mc ty v n \<longleftrightarrow> (\<forall>skip m t ts m' t'. tok_tt t' \<noteq> T_ERROR \<longrightarrow>
     AndLoop mc n skip m t = Some (m', t') \<longrightarrow> rep ty v True t ts \<longrightarrow> (skip \<or> m \<in> {0, 1}) \<longrightarrow>
     takes ty v skip (and_tail (word_matches mc ty v)) (\<lambda>b. truth (m = 0 \<and> b)) ts (m', t'))"

lemma truth_01 [simp]: "truth b \<in> {0, 1}"
  by (simp add: truth_def)

lemma or_step:
  assumes IH: "and_sound mc ty v n" "or_loop_sound mc ty v n"
  shows "or_sound mc ty v (Suc n)"
  unfolding or_sound_def
proof (intro allI impI)
  fix skip t m' t'
  assume ok: "tok_tt t' \<noteq> T_ERROR" and run: "OrExpression mc (Suc n) skip t = Some (m', t')"
    and t: "ready ty v t"
  obtain m1 t1 where 1: "AndExpression mc n skip (NextToken skip t) = Some (m1, t1)"
      "OrLoop mc n skip m1 t1 = Some (m', t')"
    using run by (auto simp: bind_eq_Some_conv)
  then have "tok_tt t1 \<noteq> T_ERROR" using ok OrLoop_error by metis
  then obtain us a rest where a: "tokens (tok_s t) = us @ rest"
      "and_val (word_matches mc ty v) us a" "rep ty v True t1 rest" "skip \<or> m1 = truth a"
    using IH(1) 1(1) NextToken_rep[OF t] unfolding and_sound_def by (metis takesE)
  have "skip \<or> m1 \<in> {0, 1}" using a(4) by (cases skip) auto
  then obtain us2 b rest2 where b: "rest = us2 @ rest2" "or_tail (word_matches mc ty v) us2 b"
      "rep ty v True t' rest2" "skip \<or> m' = truth (m1 = 0 \<or> b)"
    using IH(2) 1(2) a(3) ok unfolding or_loop_sound_def by (metis takesE)
  show "takes ty v skip (or_val (word_matches mc ty v)) truth (tokens (tok_s t)) (m', t')"
    using a b disj[OF a(2) b(2)] by (intro takesI[where us = "us @ us2" and b = "a \<or> b"]) auto
qed

lemma and_step:
  assumes IH: "simple_sound mc ty v n" "and_loop_sound mc ty v n"
  shows "and_sound mc ty v (Suc n)"
  unfolding and_sound_def
proof (intro allI impI)
  fix skip t ts m' t'
  assume ok: "tok_tt t' \<noteq> T_ERROR" and run: "AndExpression mc (Suc n) skip t = Some (m', t')"
    and t: "rep ty v skip t ts"
  obtain m1 t1 where 1: "SimpleExpression mc n skip t = Some (m1, t1)"
      "AndLoop mc n skip m1 t1 = Some (m', t')"
    using run by (auto simp: bind_eq_Some_conv)
  then have "tok_tt t1 \<noteq> T_ERROR" using ok AndLoop_error by metis
  then obtain us a rest where a: "ts = us @ rest"
      "simple_val (word_matches mc ty v) us a" "rep ty v True t1 rest" "skip \<or> m1 = truth a"
    using IH(1) 1(1) t unfolding simple_sound_def by (metis takesE)
  have "skip \<or> m1 \<in> {0, 1}" using a(4) by (cases skip) auto
  then obtain us2 b rest2 where b: "rest = us2 @ rest2" "and_tail (word_matches mc ty v) us2 b"
      "rep ty v True t' rest2" "skip \<or> m' = truth (m1 = 0 \<and> b)"
    using IH(2) 1(2) a(3) ok unfolding and_loop_sound_def by (metis takesE)
  show "takes ty v skip (and_val (word_matches mc ty v)) truth ts (m', t')"
    using a b conj[OF a(2) b(2)] by (intro takesI[where us = "us @ us2" and b = "a \<and> b"]) auto
qed

lemma or_loop_step:
  assumes IH: "and_sound mc ty v n" "or_loop_sound mc ty v n"
  shows "or_loop_sound mc ty v (Suc n)"
  unfolding or_loop_sound_def
proof (intro allI impI)
  fix skip m t ts m' t'
  assume ok: "tok_tt t' \<noteq> T_ERROR" and run: "OrLoop mc (Suc n) skip m t = Some (m', t')"
    and t: "rep ty v True t ts" and m: "skip \<or> m \<in> {0, 1}"
  show "takes ty v skip (or_tail (word_matches mc ty v)) (\<lambda>b. truth (m = 0 \<or> b)) ts (m', t')"
  proof (cases "tok_tt t = T_OR")
    case False
    then show ?thesis
      using run t m by (intro takesI[where us = "[]" and b = False]) (auto simp: truth_def intro: disj_end)
  next
    case True
    define sk where "sk = (if m = 0 then True else skip)"
    obtain m1 t1 where 1: "AndExpression mc n sk (NextToken skip t) = Some (m1, t1)"
        "OrLoop mc n skip (if m = 0 then m else m1) t1 = Some (m', t')"
      using run True by (auto simp: Let_def bind_eq_Some_conv sk_def split: if_splits)
    have "tok_tt t1 \<noteq> T_ERROR" using ok 1(2) OrLoop_error by metis
    moreover have "rep ty v sk (NextToken skip t) (tokens (tok_s t))"
      using NextToken_rep[OF rep_ready[OF t], of skip] by (auto simp: sk_def rep_skip)
    ultimately obtain us a rest where a: "tokens (tok_s t) = us @ rest"
        "and_val (word_matches mc ty v) us a" "rep ty v True t1 rest" "sk \<or> m1 = truth a"
      using IH(1) 1(1) unfolding and_sound_def by (metis takesE)
    have "skip \<or> (if m = 0 then m else m1) \<in> {0, 1}" using a(4) by (auto simp: sk_def)
    then obtain us2 b rest2 where b: "rest = us2 @ rest2" "or_tail (word_matches mc ty v) us2 b"
        "rep ty v True t' rest2" "skip \<or> m' = truth ((if m = 0 then m else m1) = 0 \<or> b)"
      by (rule takesE[OF IH(2)[unfolded or_loop_sound_def, rule_format, OF ok 1(2) a(3)]])
    have ts: "ts = (Op T_OR # us @ us2) @ rest2" using rep_Op[OF t True] a(1) b(1) by simp
    have "skip \<or> m' = truth (m = 0 \<or> a \<or> b)"
      using a(4) b(4) by (cases "m = 0") (auto simp: sk_def)
    then show ?thesis
      by (rule takesI[where G = "or_tail (word_matches mc ty v)" and val = "\<lambda>b. truth (m = 0 \<or> b)",
            OF ts disj_more[OF a(2) b(2)] b(3)])
  qed
qed

lemma and_loop_step:
  assumes IH: "simple_sound mc ty v n" "and_loop_sound mc ty v n"
  shows "and_loop_sound mc ty v (Suc n)"
  unfolding and_loop_sound_def
proof (intro allI impI)
  fix skip m t ts m' t'
  assume ok: "tok_tt t' \<noteq> T_ERROR" and run: "AndLoop mc (Suc n) skip m t = Some (m', t')"
    and t: "rep ty v True t ts" and m: "skip \<or> m \<in> {0, 1}"
  show "takes ty v skip (and_tail (word_matches mc ty v)) (\<lambda>b. truth (m = 0 \<and> b)) ts (m', t')"
  proof (cases "tok_tt t = T_AND")
    case False
    then show ?thesis
      using run t m by (intro takesI[where us = "[]" and b = True]) (auto simp: truth_def intro: conj_end)
  next
    case True
    define sk where "sk = (if m \<noteq> 0 then True else skip)"
    obtain m1 t1 where 1: "SimpleExpression mc n sk (NextToken skip t) = Some (m1, t1)"
        "AndLoop mc n skip (if m \<noteq> 0 then m else m1) t1 = Some (m', t')"
      using run True by (auto simp: Let_def bind_eq_Some_conv sk_def split: if_splits)
    have "tok_tt t1 \<noteq> T_ERROR" using ok 1(2) AndLoop_error by metis
    moreover have "rep ty v sk (NextToken skip t) (tokens (tok_s t))"
      using NextToken_rep[OF rep_ready[OF t], of skip] by (auto simp: sk_def rep_skip)
    ultimately obtain us a rest where a: "tokens (tok_s t) = us @ rest"
        "simple_val (word_matches mc ty v) us a" "rep ty v True t1 rest" "sk \<or> m1 = truth a"
      using IH(1) 1(1) unfolding simple_sound_def by (metis takesE)
    have "skip \<or> (if m \<noteq> 0 then m else m1) \<in> {0, 1}" using a(4) m by (auto simp: sk_def)
    then obtain us2 b rest2 where b: "rest = us2 @ rest2" "and_tail (word_matches mc ty v) us2 b"
        "rep ty v True t' rest2" "skip \<or> m' = truth ((if m \<noteq> 0 then m else m1) = 0 \<and> b)"
      by (rule takesE[OF IH(2)[unfolded and_loop_sound_def, rule_format, OF ok 1(2) a(3)]])
    have ts: "ts = (Op T_AND # us @ us2) @ rest2" using rep_Op[OF t True] a(1) b(1) by simp
    have "skip \<or> m' = truth (m = 0 \<and> a \<and> b)"
      using a(4) b(4) by (cases "m = 0") (auto simp: sk_def)
    then show ?thesis
      by (rule takesI[where G = "and_tail (word_matches mc ty v)" and val = "\<lambda>b. truth (m = 0 \<and> b)",
            OF ts conj_more[OF a(2) b(2)] b(3)])
  qed
qed

lemma simple_step:
  assumes IH: "or_sound mc ty v n" "simple_sound mc ty v n"
  shows "simple_sound mc ty v (Suc n)"
  unfolding simple_sound_def
proof (intro allI impI)
  fix skip t ts m' t'
  assume ok: "tok_tt t' \<noteq> T_ERROR" and run: "SimpleExpression mc (Suc n) skip t = Some (m', t')"
    and t: "rep ty v skip t ts"
  let ?P = "word_matches mc ty v"
  have live: "tok_tt t \<noteq> T_ERROR" using rep_no_error[OF t] .
  note rd = rep_ready[OF t]
  consider "tok_tt t = T_BRACEOPEN" | "tok_tt t = T_EXP" | "tok_tt t = T_NOT"
    using run ok live by (auto simp: Error_def split: if_splits)
  then show "takes ty v skip (simple_val ?P) truth ts (m', t')"
  proof cases
    case 1
    obtain m1 t1 where 1: "OrExpression mc n skip t = Some (m1, t1)"
        "(if tok_tt t1 \<noteq> T_BRACECLOSE then Error T_BRACECLOSE t1 else (m1, NextToken skip t1)) = (m', t')"
      using run 1 live by (auto simp: bind_eq_Some_conv)
    then have close: "tok_tt t1 = T_BRACECLOSE" "m1 = m'" "NextToken skip t1 = t'"
      using ok by (auto simp: Error_def split: if_splits)
    obtain us a rest where a: "tokens (tok_s t) = us @ rest" "or_val ?P us a" "rep ty v True t1 rest"
        "skip \<or> m1 = truth a"
      using IH(1) 1(1) rd close(1) unfolding or_sound_def by (metis takesE token_type.distinct(49))
    have "rep ty v True t' (tokens (tok_s t1))"
      using NextToken_rep[OF rep_ready[OF a(3)], of skip] close(3) rep_skip by metis
    then show ?thesis
      using a close rep_Op[OF t \<open>tok_tt t = T_BRACEOPEN\<close>] rep_Op[OF a(3) close(1)] brackets[OF a(2)]
      by (intro takesI[where us = "Op T_BRACEOPEN # us @ [Op T_BRACECLOSE]" and b = a]) auto
  next
    case 2
    obtain w where w: "ts = Word w # tokens (tok_s t)" using rep_Word[OF t 2] by blast
    have "m' = MatchPattern mc skip t" "t' = NextToken skip t" using run 2 by simp_all
    moreover have "skip \<or> MatchPattern mc skip t = truth (?P w)"
      using t w rep_match[of ty v t w "tokens (tok_s t)" mc] by (cases skip) auto
    ultimately show ?thesis
      using w rep_skip[OF NextToken_rep[OF rd, of skip]] word[of ?P w]
      by (intro takesI[where us = "[Word w]" and b = "?P w"]) auto
  next
    case 3
    obtain m1 where 1: "SimpleExpression mc n skip (NextToken skip t) = Some (m1, t')"
        "m' = (if m1 = 0 then 1 else 0)"
      using run 3 by (auto simp: bind_eq_Some_conv)
    then obtain us a rest where a: "tokens (tok_s t) = us @ rest" "simple_val ?P us a"
        "rep ty v True t' rest" "skip \<or> m1 = truth a"
      using IH(2) ok NextToken_rep[OF rd] unfolding simple_sound_def by (metis takesE)
    then show ?thesis
      using 1(2) rep_Op[OF t 3] neg[OF a(2)]
      by (intro takesI[where us = "Op T_NOT # us" and b = "\<not> a"]) (auto simp: truth_def)
  qed
qed

lemma evaluator_sound:
  "or_sound mc ty v n \<and> and_sound mc ty v n \<and> simple_sound mc ty v n \<and>
   or_loop_sound mc ty v n \<and> and_loop_sound mc ty v n"
proof (induction n)
  case 0
  then show ?case
    by (simp add: or_sound_def and_sound_def simple_sound_def or_loop_sound_def and_loop_sound_def)
next
  case (Suc n)
  then show ?case by (simp add: or_step and_step simple_step or_loop_step and_loop_step)
qed

section \<open>Completeness\<close>

definition starts :: "token_type set \<Rightarrow> token list \<Rightarrow> bool" where
  "starts K ts \<longleftrightarrow> (\<exists>k \<in> K. \<exists>r. ts = Op k # r)"

lemma starts_simps [simp]: "\<not> starts K []" "starts K (Op k # r) \<longleftrightarrow> k \<in> K" "\<not> starts K (Word w # r)"
  by (auto simp: starts_def)

lemma or_tail_starts: "or_tail P us b \<Longrightarrow> us = [] \<or> starts {T_OR} us"
  by (erule or_tail.cases) auto

lemma and_tail_starts: "and_tail P us b \<Longrightarrow> us = [] \<or> starts {T_AND} us"
  by (erule and_tail.cases) auto

lemma starts_append: "\<not> starts K (us @ rest) \<longleftrightarrow> (if us = [] then \<not> starts K rest else \<not> starts K us)"
  by (cases us) (auto simp: starts_def)

lemma rep_tt: "rep ty v skip t (Op k # r) \<Longrightarrow> tok_tt t = k \<and> tokens (tok_s t) = r"
  by (auto simp: rep_def)

lemma rep_not_op: "rep ty v skip t ts \<Longrightarrow> \<not> starts {k} ts \<Longrightarrow> k \<in> {T_NOT, T_OR, T_AND, T_BRACEOPEN, T_BRACECLOSE}
    \<Longrightarrow> tok_tt t \<noteq> k"
  by (auto simp: rep_def starts_def split: list.splits token.splits)

text \<open>\<open>gets r m rest\<close>: with enough fuel the run leaves \<open>rest\<close>, with result \<open>m\<close> unless it skips.\<close>

definition gets :: "u32 \<Rightarrow> string \<Rightarrow> bool \<Rightarrow> (nat \<Rightarrow> (int \<times> s_token) option) \<Rightarrow> int \<Rightarrow> token list \<Rightarrow> bool" where
  "gets ty v skip f m rest \<longleftrightarrow> (\<exists>n m' t'. f n = Some (m', t') \<and> rep ty v True t' rest \<and>
     (\<not> skip \<longrightarrow> m' = m))"

lemma getsI:
  "f n = Some (m', t') \<Longrightarrow> rep ty v True t' rest \<Longrightarrow> skip \<or> m' = m \<Longrightarrow> gets ty v skip f m rest"
  by (auto simp: gets_def)

lemma getsE:
  assumes "gets ty v skip f m rest"
  obtains n m' t' where "f n = Some (m', t')" "rep ty v True t' rest" "skip \<or> m' = m"
  using assms by (auto simp: gets_def)

lemma Or_gets:
  assumes "gets ty v skip (\<lambda>n. AndExpression mc n skip (NextToken skip t)) (truth a) rest1"
    and "\<And>m t1. rep ty v True t1 rest1 \<Longrightarrow> skip \<or> m \<in> {0, 1} \<Longrightarrow>
      gets ty v skip (\<lambda>n. OrLoop mc n skip m t1) (truth (m = 0 \<or> b)) rest"
  shows "gets ty v skip (\<lambda>n. OrExpression mc n skip t) (truth (a \<or> b)) rest"
proof -
  obtain n m t1 where 1: "AndExpression mc n skip (NextToken skip t) = Some (m, t1)"
      "rep ty v True t1 rest1" "skip \<or> m = truth a"
    using assms(1) by (rule getsE)
  then have "skip \<or> m \<in> {0, 1}" by auto
  then obtain k m' t' where 2: "OrLoop mc k skip m t1 = Some (m', t')" "rep ty v True t' rest"
      "skip \<or> m' = truth (m = 0 \<or> b)"
    using assms(2)[OF 1(2)] by (metis getsE)
  show ?thesis
    using And_fuel[OF 1(1), of "max n k"] OrLoop_fuel[OF 2(1), of "max n k"] 1(3) 2(2,3)
    by (intro getsI[where n = "Suc (max n k)"]) auto
qed

lemma And_gets:
  assumes "gets ty v skip (\<lambda>n. SimpleExpression mc n skip t) (truth a) rest1"
    and "\<And>m t1. rep ty v True t1 rest1 \<Longrightarrow> skip \<or> m \<in> {0, 1} \<Longrightarrow>
      gets ty v skip (\<lambda>n. AndLoop mc n skip m t1) (truth (m = 0 \<and> b)) rest"
  shows "gets ty v skip (\<lambda>n. AndExpression mc n skip t) (truth (a \<and> b)) rest"
proof -
  obtain n m t1 where 1: "SimpleExpression mc n skip t = Some (m, t1)"
      "rep ty v True t1 rest1" "skip \<or> m = truth a"
    using assms(1) by (rule getsE)
  then have "skip \<or> m \<in> {0, 1}" by auto
  then obtain k m' t' where 2: "AndLoop mc k skip m t1 = Some (m', t')" "rep ty v True t' rest"
      "skip \<or> m' = truth (m = 0 \<and> b)"
    using assms(2)[OF 1(2)] by (metis getsE)
  show ?thesis
    using Simple_fuel[OF 1(1), of "max n k"] AndLoop_fuel[OF 2(1), of "max n k"] 1(3) 2(2,3)
    by (intro getsI[where n = "Suc (max n k)"]) auto
qed

lemma OrLoop_gets:
  assumes t: "tok_tt t = T_OR" and m: "skip \<or> m \<in> {0, 1}"
    and "\<And>sk. (sk = skip \<or> sk) \<Longrightarrow>
      gets ty v sk (\<lambda>n. AndExpression mc n sk (NextToken skip t)) (truth a) rest1"
    and "\<And>m t1. rep ty v True t1 rest1 \<Longrightarrow> skip \<or> m \<in> {0, 1} \<Longrightarrow>
      gets ty v skip (\<lambda>n. OrLoop mc n skip m t1) (truth (m = 0 \<or> b)) rest"
  shows "gets ty v skip (\<lambda>n. OrLoop mc n skip m t) (truth (m = 0 \<or> a \<or> b)) rest"
proof -
  define sk where "sk = (if m = 0 then True else skip)"
  then have sk: "sk = skip \<or> sk" by simp
  obtain n m1 t1 where 1: "AndExpression mc n sk (NextToken skip t) = Some (m1, t1)"
      "rep ty v True t1 rest1" "sk \<or> m1 = truth a"
    using assms(3)[OF sk] by (rule getsE)
  define m2 where "m2 = (if m = 0 then m else m1)"
  have "skip \<or> m2 \<in> {0, 1}" using 1(3) by (auto simp: m2_def sk_def)
  then obtain k m' t' where 2: "OrLoop mc k skip m2 t1 = Some (m', t')" "rep ty v True t' rest"
      "skip \<or> m' = truth (m2 = 0 \<or> b)"
    using assms(4)[OF 1(2)] by (metis getsE)
  have "OrLoop mc (Suc (max n k)) skip m t = Some (m', t')"
    using And_fuel[OF 1(1), of "max n k"] OrLoop_fuel[OF 2(1), of "max n k"] t
    by (simp add: Let_def m2_def sk_def split: if_splits)
  moreover have "skip \<or> m' = truth (m = 0 \<or> a \<or> b)"
    using 1(3) 2(3) by (cases "m = 0") (auto simp: m2_def sk_def)
  ultimately show ?thesis by (rule getsI[OF _ 2(2)])
qed

lemma AndLoop_gets:
  assumes t: "tok_tt t = T_AND" and m: "skip \<or> m \<in> {0, 1}"
    and "\<And>sk. (sk = skip \<or> sk) \<Longrightarrow>
      gets ty v sk (\<lambda>n. SimpleExpression mc n sk (NextToken skip t)) (truth a) rest1"
    and "\<And>m t1. rep ty v True t1 rest1 \<Longrightarrow> skip \<or> m \<in> {0, 1} \<Longrightarrow>
      gets ty v skip (\<lambda>n. AndLoop mc n skip m t1) (truth (m = 0 \<and> b)) rest"
  shows "gets ty v skip (\<lambda>n. AndLoop mc n skip m t) (truth (m = 0 \<and> a \<and> b)) rest"
proof -
  define sk where "sk = (if m \<noteq> 0 then True else skip)"
  then have sk: "sk = skip \<or> sk" by simp
  obtain n m1 t1 where 1: "SimpleExpression mc n sk (NextToken skip t) = Some (m1, t1)"
      "rep ty v True t1 rest1" "sk \<or> m1 = truth a"
    using assms(3)[OF sk] by (rule getsE)
  define m2 where "m2 = (if m \<noteq> 0 then m else m1)"
  have "skip \<or> m2 \<in> {0, 1}" using 1(3) m by (auto simp: m2_def sk_def)
  then obtain k m' t' where 2: "AndLoop mc k skip m2 t1 = Some (m', t')" "rep ty v True t' rest"
      "skip \<or> m' = truth (m2 = 0 \<and> b)"
    using assms(4)[OF 1(2)] by (metis getsE)
  have "AndLoop mc (Suc (max n k)) skip m t = Some (m', t')"
    using Simple_fuel[OF 1(1), of "max n k"] AndLoop_fuel[OF 2(1), of "max n k"] t
    by (simp add: Let_def m2_def sk_def split: if_splits)
  moreover have "skip \<or> m' = truth (m = 0 \<and> a \<and> b)"
    using 1(3) 2(3) by (cases "m = 0") (auto simp: m2_def sk_def)
  ultimately show ?thesis by (rule getsI[OF _ 2(2)])
qed

definition or_complete :: "matcher \<Rightarrow> u32 \<Rightarrow> string \<Rightarrow> token list \<Rightarrow> bool \<Rightarrow> bool" where
  "or_complete mc ty v us a \<longleftrightarrow> (\<forall>skip t rest. ready ty v t \<longrightarrow> tokens (tok_s t) = us @ rest \<longrightarrow>
     \<not> starts {T_OR, T_AND} rest \<longrightarrow>
     gets ty v skip (\<lambda>n. OrExpression mc n skip t) (truth a) rest)"

definition or_tail_complete :: "matcher \<Rightarrow> u32 \<Rightarrow> string \<Rightarrow> token list \<Rightarrow> bool \<Rightarrow> bool" where
  "or_tail_complete mc ty v us b \<longleftrightarrow> (\<forall>skip t m rest. rep ty v True t (us @ rest) \<longrightarrow>
     \<not> starts {T_OR, T_AND} rest \<longrightarrow> skip \<or> m \<in> {0, 1} \<longrightarrow>
     gets ty v skip (\<lambda>n. OrLoop mc n skip m t) (truth (m = 0 \<or> b)) rest)"

definition and_complete :: "matcher \<Rightarrow> u32 \<Rightarrow> string \<Rightarrow> token list \<Rightarrow> bool \<Rightarrow> bool" where
  "and_complete mc ty v us a \<longleftrightarrow> (\<forall>skip t rest. rep ty v skip t (us @ rest) \<longrightarrow>
     \<not> starts {T_AND} rest \<longrightarrow>
     gets ty v skip (\<lambda>n. AndExpression mc n skip t) (truth a) rest)"

definition and_tail_complete :: "matcher \<Rightarrow> u32 \<Rightarrow> string \<Rightarrow> token list \<Rightarrow> bool \<Rightarrow> bool" where
  "and_tail_complete mc ty v us b \<longleftrightarrow> (\<forall>skip t m rest. rep ty v True t (us @ rest) \<longrightarrow>
     \<not> starts {T_AND} rest \<longrightarrow> skip \<or> m \<in> {0, 1} \<longrightarrow>
     gets ty v skip (\<lambda>n. AndLoop mc n skip m t) (truth (m = 0 \<and> b)) rest)"

definition simple_complete :: "matcher \<Rightarrow> u32 \<Rightarrow> string \<Rightarrow> token list \<Rightarrow> bool \<Rightarrow> bool" where
  "simple_complete mc ty v us a \<longleftrightarrow> (\<forall>skip t rest. rep ty v skip t (us @ rest) \<longrightarrow>
     gets ty v skip (\<lambda>n. SimpleExpression mc n skip t) (truth a) rest)"

lemma not_starts_or: "\<not> starts {T_OR, T_AND} rest \<Longrightarrow> \<not> starts {T_AND} rest"
  by (auto simp: starts_def)

lemma after_and: "or_tail P us b \<Longrightarrow> \<not> starts {T_OR, T_AND} rest \<Longrightarrow> \<not> starts {T_AND} (us @ rest)"
  using or_tail_starts[of P us b] by (auto simp: starts_def)

lemma sk_rep: "rep ty v skip t ts \<Longrightarrow> sk = skip \<or> sk \<Longrightarrow> rep ty v sk t ts"
  using rep_skip by (cases sk) auto

lemma simple_word_complete: "simple_complete mc ty v [Word w] (word_matches mc ty v w)"
  unfolding simple_complete_def
proof (intro allI impI)
  fix skip t rest
  assume t: "rep ty v skip t ([Word w] @ rest)"
  then have tt: "tok_tt t = T_EXP" "tokens (tok_s t) = rest" by (auto simp: rep_def)
  have "skip \<or> MatchPattern mc skip t = truth (word_matches mc ty v w)"
    using rep_match[of ty v t w rest mc] t by (cases skip) auto
  then show "gets ty v skip (\<lambda>n. SimpleExpression mc n skip t) (truth (word_matches mc ty v w)) rest"
    using rep_skip[OF NextToken_rep[OF rep_ready[OF t], of skip]] tt
    by (intro getsI[where n = "Suc 0"]) auto
qed

lemma simple_not_complete:
  assumes "simple_complete mc ty v us a"
  shows "simple_complete mc ty v (Op T_NOT # us) (\<not> a)"
  unfolding simple_complete_def
proof (intro allI impI)
  fix skip t rest
  assume t: "rep ty v skip t ((Op T_NOT # us) @ rest)"
  then have tt: "tok_tt t = T_NOT" "tokens (tok_s t) = us @ rest" by (auto simp: rep_def)
  have "rep ty v skip (NextToken skip t) (us @ rest)"
    using NextToken_rep[OF rep_ready[OF t], of skip] tt by simp
  then obtain n m' t' where 1: "SimpleExpression mc n skip (NextToken skip t) = Some (m', t')"
      "rep ty v True t' rest" "skip \<or> m' = truth a"
    using assms unfolding simple_complete_def by (metis getsE)
  then show "gets ty v skip (\<lambda>n. SimpleExpression mc n skip t) (truth (\<not> a)) rest"
    using tt by (intro getsI[where n = "Suc n"]) (auto simp: truth_def)
qed

lemma simple_brackets_complete:
  assumes "or_complete mc ty v us a"
  shows "simple_complete mc ty v (Op T_BRACEOPEN # us @ [Op T_BRACECLOSE]) a"
  unfolding simple_complete_def
proof (intro allI impI)
  fix skip t rest
  assume t: "rep ty v skip t ((Op T_BRACEOPEN # us @ [Op T_BRACECLOSE]) @ rest)"
  then have tt: "tok_tt t = T_BRACEOPEN" "tokens (tok_s t) = us @ Op T_BRACECLOSE # rest"
    by (auto simp: rep_def)
  have "\<not> starts {T_OR, T_AND} (Op T_BRACECLOSE # rest)" by simp
  then have "gets ty v skip (\<lambda>n. OrExpression mc n skip t) (truth a) (Op T_BRACECLOSE # rest)"
    using assms rep_ready[OF t] tt(2) unfolding or_complete_def by blast
  then obtain n m' t' where 1: "OrExpression mc n skip t = Some (m', t')"
      "rep ty v True t' (Op T_BRACECLOSE # rest)" "skip \<or> m' = truth a"
    by (rule getsE)
  then have "rep ty v True (NextToken skip t') rest"
    using NextToken_rep[OF rep_ready[OF 1(2)], of skip] rep_tt[OF 1(2)] rep_skip by metis
  then show "gets ty v skip (\<lambda>n. SimpleExpression mc n skip t) (truth a) rest"
    using tt 1 rep_tt[OF 1(2)] by (intro getsI[where n = "Suc n"]) auto
qed

lemma grammar_complete:
  "or_val (word_matches mc ty v) us a \<Longrightarrow> or_complete mc ty v us a"
  "or_tail (word_matches mc ty v) us a \<Longrightarrow> or_tail_complete mc ty v us a"
  "and_val (word_matches mc ty v) us a \<Longrightarrow> and_complete mc ty v us a"
  "and_tail (word_matches mc ty v) us a \<Longrightarrow> and_tail_complete mc ty v us a"
  "simple_val (word_matches mc ty v) us a \<Longrightarrow> simple_complete mc ty v us a"
proof (induction rule: or_val_or_tail_and_val_and_tail_simple_val.inducts)
  case (disj ts a us b)
  show ?case
    unfolding or_complete_def
  proof (intro allI impI)
    fix skip t rest
    assume t: "ready ty v t" "tokens (tok_s t) = (ts @ us) @ rest" "\<not> starts {T_OR, T_AND} rest"
    have "rep ty v skip (NextToken skip t) (ts @ us @ rest)"
      using NextToken_rep[OF t(1)] t(2) by simp
    then have "gets ty v skip (\<lambda>n. AndExpression mc n skip (NextToken skip t)) (truth a) (us @ rest)"
      using disj.IH(2) after_and[OF disj.IH(3) t(3)] by (simp add: and_complete_def)
    then show "gets ty v skip (\<lambda>n. OrExpression mc n skip t) (truth (a \<or> b)) rest"
      by (rule Or_gets) (use disj.IH(4)[unfolded or_tail_complete_def] t(3) in blast)+
  qed
next
  case (disj_more ts a us b)
  show ?case
    unfolding or_tail_complete_def
  proof (intro allI impI)
    fix skip t rest and m :: int
    assume t: "rep ty v True t ((Op T_OR # ts @ us) @ rest)" "\<not> starts {T_OR, T_AND} rest"
      and m: "skip \<or> m \<in> {0, 1}"
    have tt: "tok_tt t = T_OR" "tokens (tok_s t) = ts @ us @ rest" using rep_tt t(1) by auto
    have "rep ty v skip (NextToken skip t) (ts @ us @ rest)"
      using NextToken_rep[OF rep_ready[OF t(1)]] tt(2) by metis
    then have "gets ty v sk (\<lambda>n. AndExpression mc n sk (NextToken skip t)) (truth a) (us @ rest)"
      if "sk = skip \<or> sk" for sk
      using disj_more.IH(2) after_and[OF disj_more.IH(3) t(2)] sk_rep[OF _ that]
      by (simp add: and_complete_def)
    then show "gets ty v skip (\<lambda>n. OrLoop mc n skip m t) (truth (m = 0 \<or> a \<or> b)) rest"
      by (rule OrLoop_gets[OF tt(1) m]) (use disj_more.IH(4)[unfolded or_tail_complete_def] t(2) in blast)+
  qed
next
  case (conj ts a us b)
  show ?case
    unfolding and_complete_def
  proof (intro allI impI)
    fix skip t rest
    assume t: "rep ty v skip t ((ts @ us) @ rest)" "\<not> starts {T_AND} rest"
    then have "gets ty v skip (\<lambda>n. SimpleExpression mc n skip t) (truth a) (us @ rest)"
      using conj.IH(2) by (simp add: simple_complete_def)
    then show "gets ty v skip (\<lambda>n. AndExpression mc n skip t) (truth (a \<and> b)) rest"
      by (rule And_gets) (use conj.IH(4)[unfolded and_tail_complete_def] t(2) in blast)+
  qed
next
  case (conj_more ts a us b)
  show ?case
    unfolding and_tail_complete_def
  proof (intro allI impI)
    fix skip t rest and m :: int
    assume t: "rep ty v True t ((Op T_AND # ts @ us) @ rest)" "\<not> starts {T_AND} rest"
      and m: "skip \<or> m \<in> {0, 1}"
    have tt: "tok_tt t = T_AND" "tokens (tok_s t) = ts @ us @ rest" using rep_tt t(1) by auto
    have "rep ty v skip (NextToken skip t) (ts @ us @ rest)"
      using NextToken_rep[OF rep_ready[OF t(1)]] tt(2) by metis
    then have "gets ty v sk (\<lambda>n. SimpleExpression mc n sk (NextToken skip t)) (truth a) (us @ rest)"
      if "sk = skip \<or> sk" for sk
      using conj_more.IH(2) sk_rep[OF _ that] by (simp add: simple_complete_def)
    then show "gets ty v skip (\<lambda>n. AndLoop mc n skip m t) (truth (m = 0 \<and> a \<and> b)) rest"
      by (rule AndLoop_gets[OF tt(1) m]) (use conj_more.IH(4)[unfolded and_tail_complete_def] t(2) in blast)+
  qed
next
  case disj_end
  have "gets ty v skip (\<lambda>n. OrLoop mc n skip m t) (truth (m = 0 \<or> False)) rest"
    if "rep ty v True t rest" "\<not> starts {T_OR, T_AND} rest" "skip \<or> m \<in> {0, 1}" for skip t m rest
    using that rep_not_op[OF that(1), of T_OR]
    by (intro getsI[where n = "Suc 0"]) (auto simp: truth_def starts_def)
  then show ?case by (simp add: or_tail_complete_def)
next
  case conj_end
  have "gets ty v skip (\<lambda>n. AndLoop mc n skip m t) (truth (m = 0 \<and> True)) rest"
    if "rep ty v True t rest" "\<not> starts {T_AND} rest" "skip \<or> m \<in> {0, 1}" for skip t m rest
    using that rep_not_op[OF that(1), of T_AND]
    by (intro getsI[where n = "Suc 0"]) (auto simp: truth_def starts_def)
  then show ?case by (simp add: and_tail_complete_def)
qed (simp_all add: simple_word_complete simple_not_complete simple_brackets_complete)

section \<open>Messages\<close>

text \<open>A message is put on the answer list exactly when the token becomes the error token.\<close>

definition one_error :: "string \<Rightarrow> s_token \<Rightarrow> bool" where
  "one_error e t \<longleftrightarrow> tok_expr t = e \<and>
     (if tok_tt t = T_ERROR then \<exists>k \<le> length e. answer_list t = [Eval_Parse_Error k]
      else answer_list t = [])"

definition keeps_one :: "string \<Rightarrow> (int \<times> s_token) option \<Rightarrow> bool" where
  "keeps_one e r \<longleftrightarrow> (\<forall>m t. r = Some (m, t) \<longrightarrow> one_error e t)"

lemma keeps_one_simps [simp]: "keeps_one e None" "keeps_one e (Some r) \<longleftrightarrow> one_error e (snd r)"
  by (cases r; simp add: keeps_one_def)+

lemma keeps_one_bind:
  "keeps_one e r \<Longrightarrow> (\<And>m t. one_error e t \<Longrightarrow> keeps_one e (f (m, t))) \<Longrightarrow> keeps_one e (r \<bind> f)"
  by (cases r) (auto simp: keeps_one_def)

lemma op_of_no_error: "indexOfTerminal c \<noteq> -1 \<Longrightarrow> eTypes ! nat (indexOfTerminal c) \<noteq> T_ERROR"
  by (simp add: indexOfTerminal_def eTypes_def split: if_splits)

lemma NextToken_one: "one_error e t \<Longrightarrow> one_error e (NextToken skip t)"
  by (auto simp: one_error_def NextToken_def Let_def ParseTerminal_def ParseNonTerminal_def
      op_of_no_error split: prod.splits)

lemma Error_one: "one_error e t \<Longrightarrow> one_error e (snd (Error k t))"
  by (auto simp: one_error_def Error_def)

lemma evaluator_one_error:
  "one_error e t \<Longrightarrow> keeps_one e (OrExpression mc n skip t) \<and> keeps_one e (OrLoop mc n skip m t) \<and>
     keeps_one e (AndExpression mc n skip t) \<and> keeps_one e (AndLoop mc n skip m t) \<and>
     keeps_one e (SimpleExpression mc n skip t)"
proof (induction n arbitrary: skip t m)
  case 0
  then show ?case by simp
next
  case (Suc n)
  note IH = Suc.IH[THEN conjunct1] Suc.IH[THEN conjunct2, THEN conjunct1]
    Suc.IH[THEN conjunct2, THEN conjunct2, THEN conjunct1]
    Suc.IH[THEN conjunct2, THEN conjunct2, THEN conjunct2, THEN conjunct1]
    Suc.IH[THEN conjunct2, THEN conjunct2, THEN conjunct2, THEN conjunct2]
  note next_t = NextToken_one[OF Suc.prems]
  have "keeps_one e (OrExpression mc (Suc n) skip t)"
    by (simp add: keeps_one_bind IH next_t)
  moreover have "keeps_one e (OrLoop mc (Suc n) skip m t)"
    using Suc.prems by (simp add: keeps_one_bind IH next_t Let_def)
  moreover have "keeps_one e (AndExpression mc (Suc n) skip t)"
    using Suc.prems by (simp add: keeps_one_bind IH)
  moreover have "keeps_one e (AndLoop mc (Suc n) skip m t)"
    using Suc.prems by (simp add: keeps_one_bind IH next_t Let_def)
  moreover have "keeps_one e (SimpleExpression mc (Suc n) skip t)"
    using Suc.prems by (auto intro!: keeps_one_bind IH next_t NextToken_one Error_one)
  ultimately show ?case by blast
qed

section \<open>Properties\<close>

text \<open>The value as the evaluator compares it.\<close>

definition folded_value :: "u32 \<Rightarrow> string \<Rightarrow> string" where
  "folded_value ty v = (if ty = TYPE_CSTR \<or> ty = TYPE_HOST then map tolower v else v)"

definition start_token :: "u32 \<Rightarrow> string \<Rightarrow> string \<Rightarrow> s_token" where
  "start_token ty e v = \<lparr>tok_type = ty, tok_value = folded_value ty v, tok_expr = e, tok_s = e,
     tok_pattern = [], has_patterns = True, tok_tt = T_END, tok_et = T_EXP, answer_list = []\<rparr>"

lemma eval_start:
  assumes "length v < MAX_STRING_SIZE" "length e < MAX_STRING_SIZE" "sge_is_expression e"
    and run: "OrExpression mc (3 * length e + 3) False (start_token ty e v) = Some (m, t)"
  shows "sge_eval_expression mc ty (Some e) (Some v) =
    (let (m, t) = (if tok_tt t \<noteq> T_END then Error T_END t
        else if char_at (tok_s t) \<noteq> CHR 0x00 then Error (tok_et t) t else (m, t))
     in Some (m, answer_list t))"
proof -
  have "uncaseValue \<lparr>tok_type = ty, tok_value = v, tok_expr = e, tok_s = e, tok_pattern = [],
      has_patterns = True, tok_tt = T_END, tok_et = T_EXP, answer_list = []\<rparr> = start_token ty e v"
    using assms(1) by (auto simp: uncaseValue_def start_token_def folded_value_def)
  then show ?thesis
    using assms by (simp add: sge_eval_expression_def Let_def del: OrExpression.simps)
qed

lemma evaluation_decides:
  fixes mc :: matcher and ty :: u32 and e v :: string
  assumes e: "CHR 0x00 \<notin> set e" and len: "length v < MAX_STRING_SIZE" "length e < MAX_STRING_SIZE"
    and ex: "sge_is_expression e"
  defines "P \<equiv> word_matches mc ty (folded_value ty v)"
  shows "or_val P (tokens e) b \<Longrightarrow>
      sge_eval_expression mc ty (Some e) (Some v) = Some (if b then 0 else 1, [])" (is "_ \<Longrightarrow> ?yes")
    and "\<nexists>b. or_val P (tokens e) b \<Longrightarrow> \<exists>k \<le> length e.
      sge_eval_expression mc ty (Some e) (Some v) = Some (-1, [Eval_Parse_Error k])" (is "_ \<Longrightarrow> ?no")
proof -
  let ?t = "start_token ty e v" and ?v = "folded_value ty v" and ?n = "3 * length e + 3"
  have t: "ready ty ?v ?t" "tok_s ?t = e" using e by (simp_all add: ready_def start_token_def)
  obtain m t' where run: "OrExpression mc ?n False ?t = Some (m, t')"
    using evaluator_ends[of ?t ?n mc False 0] t(2) by (auto simp: ends_def)
  note result = eval_start[OF len ex run]
  show ?yes if "or_val P (tokens e) b"
  proof -
    have "or_complete mc ty ?v (tokens e) b" using grammar_complete(1) that unfolding P_def .
    then have "gets ty ?v False (\<lambda>n. OrExpression mc n False ?t) (truth b) []"
      using t unfolding or_complete_def by simp
    then obtain n m1 t1 where 1: "OrExpression mc n False ?t = Some (m1, t1)" "rep ty ?v True t1 []"
        "m1 = truth b" by (auto elim: getsE)
    have "t' = t1" "m = m1"
      using Or_fuel[OF 1(1), of "max n ?n"] Or_fuel[OF run, of "max n ?n"] by auto
    moreover have "tok_tt t1 = T_END" "tok_s t1 = []" "answer_list t1 = []"
      using 1(2) by (simp_all add: rep_def)
    ultimately show ?thesis using 1(3) result by (simp add: char_at_def truth_def)
  qed
  show ?no if none: "\<nexists>b. or_val P (tokens e) b"
  proof -
    have one: "one_error e t'"
      using evaluator_one_error[of e ?t mc ?n False 0] run
      by (simp add: one_error_def start_token_def del: OrExpression.simps)
    have "tok_tt t' \<noteq> T_END"
    proof
      assume tt: "tok_tt t' = T_END"
      have "or_sound mc ty ?v ?n" using evaluator_sound by blast
      then have "takes ty ?v False (or_val P) truth (tokens e) (m, t')"
        using run t tt unfolding or_sound_def P_def by (metis token_type.distinct(53))
      then obtain us b rest where u: "tokens e = us @ rest" "or_val P us b" "rep ty ?v True t' rest"
        by (rule takesE)
      then show False using none rep_End[OF u(3) tt] by auto
    qed
    then show ?thesis using one result by (auto simp: one_error_def Error_def)
  qed
qed

text \<open>
  C1. The evaluator decides the grammar. On a string with operators or wildcards (shorter than
  \<open>MAX_STRING_SIZE\<close>, as the value), it returns 0 or 1 without a message when the string is an
  expression, by the truth of its words under negation, conjunction and disjunction with the
  usual precedence and short cuts; on any other string it returns -1 and puts one message with
  a position inside the string on the answer list.
\<close>

theorem eval_expression_decides:
  assumes "CHR 0x00 \<notin> set e" "length v < MAX_STRING_SIZE" "length e < MAX_STRING_SIZE"
    and "sge_is_expression e"
  shows "(\<forall>b. or_val (word_matches mc ty (folded_value ty v)) (tokens e) b \<longrightarrow>
      sge_eval_expression mc ty (Some e) (Some v) = Some (if b then 0 else 1, [])) \<and>
    ((\<nexists>b. or_val (word_matches mc ty (folded_value ty v)) (tokens e) b) \<longrightarrow>
      (\<exists>k \<le> length e.
        sge_eval_expression mc ty (Some e) (Some v) = Some (-1, [Eval_Parse_Error k])))"
  using evaluation_decides[OF assms] by blast

lemmas token_eval = tokens.simps is_word_char_def op_of_def indexOfTerminal_def eTypes_def

theorem eval_expression_decides_witness:
  "\<forall>mc. sge_eval_expression mc TYPE_STR (Some ''!a&(b|c)'') (Some ''c'') = Some (0, [])"
proof
  fix mc
  let ?P = "word_matches mc TYPE_STR (folded_value TYPE_STR ''c'')"
  have ts: "tokens ''!a&(b|c)'' = ([Op T_NOT, Word ''a''] @ Op T_AND #
      (Op T_BRACEOPEN # (([Word ''b''] @ []) @ (Op T_OR # ([Word ''c''] @ []) @ [])) @ [Op T_BRACECLOSE]) @ [])
      @ []"
    by (simp add: token_eval)
  have "or_val ?P (([Word ''b''] @ []) @ (Op T_OR # ([Word ''c''] @ []) @ []))
      ((?P ''b'' \<and> True) \<or> (?P ''c'' \<and> True) \<or> False)"
    by (rule disj[OF conj[OF word conj_end] disj_more[OF conj[OF word conj_end] disj_end]])
  then have "or_val ?P (tokens ''!a&(b|c)'') (((\<not> ?P ''a'') \<and> (?P ''b'' \<and> True \<or> ?P ''c'' \<and> True \<or> False) \<and> True) \<or> False)"
    unfolding ts
    by (intro disj[OF conj[OF neg[OF word] conj_more[OF brackets conj_end]] disj_end])
  moreover have "?P ''c''" "\<not> ?P ''a''"
    by (cases mc; simp add: word_matches_def MatchPattern_def folded_value_def copy_char_def is_pattern_def)+
  ultimately show "sge_eval_expression mc TYPE_STR (Some ''!a&(b|c)'') (Some ''c'') = Some (0, [])"
    using eval_expression_decides[of "''!a&(b|c)''" "''c''" mc TYPE_STR] by simp
qed

text \<open>C34. The evaluator returns on every input, whatever the matching functions answer.\<close>

theorem evaluator_terminates:
  "\<exists>match msgs. sge_eval_expression mc ty x y = Some (match, msgs)"
proof (cases "\<exists>e v. x = Some e \<and> y = Some v \<and> length v < MAX_STRING_SIZE \<and>
    length e < MAX_STRING_SIZE \<and> sge_is_expression e")
  case True
  then obtain e v where e: "x = Some e" "y = Some v" "length v < MAX_STRING_SIZE"
      "length e < MAX_STRING_SIZE" "sge_is_expression e" by blast
  have "tok_s (start_token ty e v) = e" by (simp add: start_token_def)
  then obtain m t' where
      "OrExpression mc (3 * length e + 3) False (start_token ty e v) = Some (m, t')"
    using evaluator_ends[of "start_token ty e v" "3 * length e + 3" mc False 0]
    by (auto simp: ends_def)
  from eval_start[OF e(3-5) this] e(1,2) show ?thesis by (auto split: prod.splits)
next
  case False
  then show ?thesis by (cases x; cases y) (auto simp: sge_eval_expression_def Let_def)
qed

text \<open>
  The empty expression is no error, as the function's header says: it is compared like
  any string without operators, so it matches the empty value and nothing else.
\<close>

theorem empty_expression_is_compared:
  "sge_eval_expression mc TYPE_STR (Some []) (Some v) =
     (if MAX_STRING_SIZE \<le> length v then Some (-1, [Eval_Long_Value])
      else Some (if v = [] then 0 else 1, []))"
  by (cases mc) (simp add: sge_eval_expression_def MatchPattern_def Let_def)

end
