(* ===== verification/Utilization.thy ===== *)
theory Utilization
  imports Prelude
begin

text \<open>
  Resource diagrams, \<^verbatim>\<open>source/libs/sched/sge_resource_utilization.c\<close>: how much of a
  consumable is in use from which time on. The scheduler debits running jobs and reservations
  into them, and asks them when a job fits.

  A diagram is a list of times with the amount in use from there to the next time; it may not
  exist (\<open>NULL\<close>, here \<open>None\<close>). Amounts are \<open>double\<close> in the code: the model takes any
  ordered group, that is, doubles as long as their sums are exact (as the slot counts are).
  A cursor into the list is the index of the element, \<open>None\<close> a null pointer.
\<close>

section \<open>Data\<close>

record 'a rde =
  RDE_time :: u32
  RDE_amount :: 'a

type_synonym 'a diagram = "'a rde list option"

record 'a rue =
  RUE_name :: string
  RUE_utilized_now :: 'a
  RUE_utilized :: "'a diagram"
  RUE_utilized_now_nonexclusive :: 'a
  RUE_utilized_nonexclusive :: "'a diagram"

abbreviation (input) U_LONG32_MAX :: u32 where "U_LONG32_MAX \<equiv> 4294967295"
abbreviation (input) LONG32_MAX :: u32 where "LONG32_MAX \<equiv> 2147483647"
abbreviation (input) DISPATCH_TIME_NOW :: u32 where "DISPATCH_TIME_NOW \<equiv> 0"
abbreviation (input) DISPATCH_TIME_QUEUE_END :: u32 where "DISPATCH_TIME_QUEUE_END \<equiv> LONG32_MAX"

definition delems :: "'a diagram \<Rightarrow> 'a rde list" where
  "delems d = (case d of None \<Rightarrow> [] | Some xs \<Rightarrow> xs)"

definition newResourceElem :: "u32 \<Rightarrow> 'a \<Rightarrow> 'a rde" where
  "newResourceElem time amount = \<lparr>RDE_time = time, RDE_amount = amount\<rparr>"

definition add_amount :: "'a::plus \<Rightarrow> 'a rde \<Rightarrow> 'a rde" where
  "add_amount u x = x\<lparr>RDE_amount := RDE_amount x + u\<rparr>"

definition utilization_endtime :: "u32 \<Rightarrow> u32 \<Rightarrow> u32" where
  "utilization_endtime start duration =
     (if start + duration < U_LONG32_MAX then start + duration else U_LONG32_MAX)"

section \<open>Debiting\<close>

text \<open>The loop has the index of the element at hand and the cursor to the one before it.\<close>

fun find_time_loop :: "'a rde list \<Rightarrow> nat \<Rightarrow> nat option \<Rightarrow> u32 \<Rightarrow> nat option \<times> nat option" where
  "find_time_loop [] i prev time = (None, prev)"
| "find_time_loop (x # xs) i prev time =
     (if time = RDE_time x then (Some i, prev)
      else if time < RDE_time x then (None, prev)
      else find_time_loop xs (Suc i) (Some i) time)"

definition utilization_find_time_or_prevstart_or_prev ::
  "'a rde list \<Rightarrow> u32 \<Rightarrow> nat option \<times> nat option" where
  "utilization_find_time_or_prevstart_or_prev diagram time = find_time_loop diagram 0 None time"

text \<open>\<open>lInsertElem\<close>: behind the element, or at the head when there is none.\<close>

definition insert_after :: "'b list \<Rightarrow> nat option \<Rightarrow> 'b \<Rightarrow> 'b list" where
  "insert_after xs p y = (case p of None \<Rightarrow> y # xs | Some i \<Rightarrow> take (Suc i) xs @ y # drop (Suc i) xs)"

text \<open>
  The second half of \<open>utilization_add\<close>: over the elements behind the start, the amount of
  the one before being \<open>prev\<close>.
\<close>

fun end_loop :: "u32 \<Rightarrow> 'a \<Rightarrow> 'a \<Rightarrow> 'a rde list \<Rightarrow> ('a::ab_group_add) rde list" where
  "end_loop end_time utilization prev [] = [newResourceElem end_time (prev - utilization)]"
| "end_loop end_time utilization prev (x # xs) =
     (if end_time = RDE_time x then x # xs
      else if end_time < RDE_time x then newResourceElem end_time (prev - utilization) # x # xs
      else (let x' = add_amount utilization x
            in x' # end_loop end_time utilization (RDE_amount x') xs))"

text \<open>\<open>utilization_normalize\<close>: first no zero at the head, then no amount twice in a row.\<close>

fun drop_equal :: "'a \<Rightarrow> 'a rde list \<Rightarrow> 'a rde list" where
  "drop_equal util_prev [] = []"
| "drop_equal util_prev (x # xs) =
     (if util_prev = RDE_amount x then drop_equal util_prev xs
      else x # drop_equal (RDE_amount x) xs)"

definition utilization_normalize :: "('a::zero) rde list \<Rightarrow> 'a rde list" where
  "utilization_normalize diagram =
     (case dropWhile (\<lambda>x. RDE_amount x = 0) diagram of
        [] \<Rightarrow> []
      | x # xs \<Rightarrow> x # drop_equal (RDE_amount x) xs)"

definition add_to_diagram :: "u32 \<Rightarrow> u32 \<Rightarrow> 'a \<Rightarrow> ('a::ab_group_add) rde list \<Rightarrow> 'a rde list" where
  "add_to_diagram start_time end_time utilization diagram =
     (let (start, prev) = utilization_find_time_or_prevstart_or_prev diagram start_time;
          (diagram, i) =
            (case start of
               Some i \<Rightarrow> (diagram[i := add_amount utilization (diagram ! i)], i)
             | None \<Rightarrow>
                 (let util_prev = (case prev of Some p \<Rightarrow> RDE_amount (diagram ! p) | None \<Rightarrow> 0)
                  in (insert_after diagram prev (newResourceElem start_time (utilization + util_prev)),
                      case prev of Some p \<Rightarrow> Suc p | None \<Rightarrow> 0)))
      in utilization_normalize
           (take (Suc i) diagram @
            end_loop end_time utilization (RDE_amount (diagram ! i)) (drop (Suc i) diagram)))"

text \<open>
  \<open>max_reservations\<close> is the scheduler's parameter. The record that \<open>serf_record_entry\<close> writes
  for monitoring is left out.
\<close>

definition utilization_add ::
  "u32 \<Rightarrow> u32 \<Rightarrow> u32 \<Rightarrow> 'a \<Rightarrow> bool \<Rightarrow> bool \<Rightarrow> ('a::ab_group_add) rue \<Rightarrow> 'a rue" where
  "utilization_add max_reservations start_time duration utilization for_job implicit_non_exclusive cr =
     (let diagram = (if implicit_non_exclusive then RUE_utilized_nonexclusive cr else RUE_utilized cr)
      in if for_job \<and> (max_reservations = 0 \<or> duration = 0) \<and> diagram = None then cr
         else (let end_time = utilization_endtime start_time duration;
                   d = Some (add_to_diagram start_time end_time utilization (delems diagram))
               in if implicit_non_exclusive then cr\<lparr>RUE_utilized_nonexclusive := d\<rparr>
                  else cr\<lparr>RUE_utilized := d\<rparr>))"

section \<open>Asking\<close>

text \<open>
  The amount of the last element that is not the end of all times. The code reads the element
  before the last without asking whether there is one: \<open>None\<close> is that crash.
\<close>

definition diagram_queue_end :: "('a::zero) diagram \<Rightarrow> 'a option" where
  "diagram_queue_end d =
     (case rev (delems d) of
        [] \<Rightarrow> Some 0
      | ep # before \<Rightarrow>
          if RDE_time ep \<noteq> U_LONG32_MAX then Some (RDE_amount ep)
          else (case before of [] \<Rightarrow> None | p # _ \<Rightarrow> Some (RDE_amount p)))"

definition utilization_queue_end :: "bool \<Rightarrow> ('a::{zero,linorder}) rue \<Rightarrow> 'a option" where
  "utilization_queue_end for_excl_request cr =
     do { max_u \<leftarrow> diagram_queue_end (RUE_utilized cr);
          if for_excl_request \<and> delems (RUE_utilized_nonexclusive cr) \<noteq> []
          then do { max_nonexclusive \<leftarrow> diagram_queue_end (RUE_utilized_nonexclusive cr);
                    Some (max max_u max_nonexclusive) }
          else Some max_u }"

fun max_loop :: "u32 \<Rightarrow> 'a \<Rightarrow> ('a::linorder) rde list \<Rightarrow> 'a" where
  "max_loop end_time m [] = m"
| "max_loop end_time m (x # xs) =
     (if end_time > RDE_time x then max_loop end_time (max m (RDE_amount x)) xs else m)"

definition diagram_max :: "u32 \<Rightarrow> u32 \<Rightarrow> ('a::{zero,linorder}) rde list \<Rightarrow> 'a" where
  "diagram_max start_time end_time d =
     (case utilization_find_time_or_prevstart_or_prev d start_time of
        (Some i, _) \<Rightarrow> max_loop end_time (RDE_amount (d ! i)) (drop (Suc i) d)
      | (None, Some p) \<Rightarrow> max_loop end_time (RDE_amount (d ! p)) (drop (Suc p) d)
      | (None, None) \<Rightarrow> max_loop end_time 0 d)"

definition utilization_max :: "u32 \<Rightarrow> u32 \<Rightarrow> bool \<Rightarrow> ('a::{zero,linorder}) rue \<Rightarrow> 'a option" where
  "utilization_max start_time duration for_excl_request cr =
     (let end_time = utilization_endtime start_time duration
      in if start_time = DISPATCH_TIME_NOW
         then Some (if for_excl_request
                    then max (RUE_utilized_now_nonexclusive cr) (RUE_utilized_now cr)
                    else RUE_utilized_now cr)
         else if start_time = U_LONG32_MAX then utilization_queue_end for_excl_request cr
         else (let m = diagram_max start_time end_time (delems (RUE_utilized cr))
               in Some (if for_excl_request
                        then max m (diagram_max start_time end_time
                                      (delems (RUE_utilized_nonexclusive cr)))
                        else m)))"

text \<open>The search from the end: the list is reversed, the element before is the next one.\<close>

fun below_loop :: "'a \<Rightarrow> ('a::linorder) rde list \<Rightarrow> u32" where
  "below_loop max_util [] = DISPATCH_TIME_NOW"
| "below_loop max_util (x # xs) =
     (if RDE_amount x \<le> max_util
      then (case xs of
              p # _ \<Rightarrow> if RDE_amount p > max_util then RDE_time x else below_loop max_util xs
            | [] \<Rightarrow> below_loop max_util xs)
      else below_loop max_util xs)"

definition utilization_below :: "'a \<Rightarrow> bool \<Rightarrow> ('a::linorder) rue \<Rightarrow> u32" where
  "utilization_below max_util for_excl_request cr =
     (let when = below_loop max_util (rev (delems (RUE_utilized cr)))
      in if for_excl_request
         then max when (below_loop max_util (rev (delems (RUE_utilized_nonexclusive cr))))
         else when)"

section \<open>Calendars\<close>

text \<open>The search for the end point, with the amount last passed over.\<close>

fun till_loop :: "u32 \<Rightarrow> 'a \<Rightarrow> ('a::zero) rde list \<Rightarrow> 'a rde list" where
  "till_loop till past_uti [] = [newResourceElem till 0]"
| "till_loop till past_uti (x # xs) =
     (if RDE_time x > till then newResourceElem till past_uti # x # xs
      else if RDE_time x = till then x # xs
      else till_loop till (RDE_amount x) xs)"

fun from_loop :: "u32 \<Rightarrow> u32 \<Rightarrow> 'a \<Rightarrow> ('a::zero) rde list \<Rightarrow> 'a rde list" where
  "from_loop from till uti [] = [newResourceElem from uti, newResourceElem till 0]"
| "from_loop from till uti (x # xs) =
     (if RDE_time x > from then newResourceElem from uti # till_loop till (RDE_amount x) (x # xs)
      else if RDE_time x = from
      then (if RDE_time x > till
            then newResourceElem till (RDE_amount x) # x\<lparr>RDE_amount := uti\<rparr> # xs
            else if RDE_time x = till then x\<lparr>RDE_amount := uti\<rparr> # xs
            else till_loop till uti xs)
      else x # from_loop from till uti xs)"

definition set_utilization :: "u32 \<Rightarrow> u32 \<Rightarrow> 'a \<Rightarrow> ('a::{zero,ord}) rde list \<Rightarrow> 'a rde list" where
  "set_utilization from till uti uti_list =
     (if uti > 0
      then from_loop from (if till = 0 then DISPATCH_TIME_QUEUE_END else till) uti uti_list
      else uti_list)"

end
