(* ===== verification/Utilization_Facts.thy ===== *)
theory Utilization_Facts
  imports Utilization
begin

text \<open>
  A resource diagram as a step function of time, and the operations of
  \<^verbatim>\<open>sge_resource_utilization.c\<close> as operations on that function.
\<close>

section \<open>The step function\<close>

fun util_from :: "'a \<Rightarrow> 'a rde list \<Rightarrow> nat \<Rightarrow> 'a" where
  "util_from p [] t = p"
| "util_from p (x # xs) t = (if RDE_time x \<le> t then util_from (RDE_amount x) xs t else p)"

abbreviation util_at :: "('a::zero) rde list \<Rightarrow> nat \<Rightarrow> 'a" where
  "util_at \<equiv> util_from 0"

fun dwf :: "'a rde list \<Rightarrow> bool" where
  "dwf [] = True"
| "dwf (x # xs) = ((\<forall>y \<in> set xs. RDE_time x < RDE_time y) \<and> dwf xs)"

text \<open>No amount twice in a row, and none that is 0 at the head.\<close>

fun changes :: "'a \<Rightarrow> 'a rde list \<Rightarrow> bool" where
  "changes p [] = True"
| "changes p (x # xs) = (RDE_amount x \<noteq> p \<and> changes (RDE_amount x) xs)"

lemma util_before: "\<forall>x \<in> set xs. t < RDE_time x \<Longrightarrow> util_from p xs t = p"
  by (cases xs) auto

lemma dwf_append: "dwf (xs @ ys) \<longleftrightarrow> dwf xs \<and> dwf ys \<and> (\<forall>x \<in> set xs. \<forall>y \<in> set ys. RDE_time x < RDE_time y)"
  by (induction xs) auto

lemma util_append:
  "\<forall>x \<in> set xs. RDE_time x \<le> t \<Longrightarrow>
   util_from p (xs @ ys) t = util_from (if xs = [] then p else RDE_amount (last xs)) ys t"
  by (induction xs arbitrary: p) auto

lemma util_snoc:
  "dwf (xs @ [x]) \<Longrightarrow>
   util_from p (xs @ [x]) t = (if RDE_time x \<le> t then RDE_amount x else util_from p xs t)"
  by (induction xs arbitrary: p) (auto simp: dwf_append)

text \<open>A diagram without repetitions is determined by its function.\<close>

lemma util_head: "dwf (x # xs) \<Longrightarrow> util_from p (x # xs) (RDE_time x) = RDE_amount x"
  by (simp add: util_before)

lemma diagram_unique:
  fixes xs ys :: "'a rde list"
  assumes "dwf xs" "dwf ys" "changes p xs" "changes p ys"
    and "\<And>t. util_from p xs t = util_from p ys t"
  shows "xs = ys"
  using assms
proof (induction xs arbitrary: p ys)
  case Nil
  then show ?case
  proof (cases ys)
    case (Cons y ys')
    then show ?thesis using Nil.prems util_head[of y ys' p] by (metis changes.simps(2) util_from.simps(1))
  qed simp
next
  case (Cons x xs)
  show ?case
  proof (cases ys)
    case Nil
    then show ?thesis using Cons.prems util_head[of x xs p] by (metis changes.simps(2) util_from.simps(1))
  next
    case (Cons y ys')
    note f = Cons.prems(5)[unfolded Cons]
    have time: "RDE_time x = RDE_time y"
    proof (rule linorder_cases)
      assume "RDE_time x < RDE_time y"
      then show ?thesis
        using f[of "RDE_time x"] util_head[OF Cons.prems(1)] Cons.prems(3) by auto
    next
      assume "RDE_time y < RDE_time x"
      then show ?thesis
        using f[of "RDE_time y"] util_head[of y ys' p] Cons.prems(2,4) Cons by auto
    qed
    have amount: "RDE_amount x = RDE_amount y"
      using f[of "RDE_time x"] util_head[of x xs p] util_head[of y ys' p] Cons.prems(1,2) time Cons
      by metis
    have "util_from (RDE_amount x) xs t = util_from (RDE_amount x) ys' t" for t
    proof (cases "RDE_time x \<le> t")
      case True
      then show ?thesis using f[of t] time amount by simp
    next
      case False
      then have "\<forall>z \<in> set xs. t < RDE_time z" "\<forall>z \<in> set ys'. t < RDE_time z"
        using Cons.prems(1,2) Cons time by auto
      then show ?thesis by (simp add: util_before)
    qed
    then have "xs = ys'"
      using Cons.IH[of ys' "RDE_amount x"] Cons.prems Cons amount by simp
    with time amount Cons show ?thesis by (cases x; cases y) simp
  qed
qed

section \<open>Debiting\<close>

text \<open>The two halves of the code's insertion in one recursion, before normalisation.\<close>

fun add_rec :: "u32 \<Rightarrow> u32 \<Rightarrow> 'a \<Rightarrow> 'a \<Rightarrow> ('a::ab_group_add) rde list \<Rightarrow> 'a rde list" where
  "add_rec s e u p [] = newResourceElem s (u + p) # end_loop e u (u + p) []"
| "add_rec s e u p (x # xs) =
     (if s = RDE_time x then add_amount u x # end_loop e u (RDE_amount x + u) xs
      else if s < RDE_time x then newResourceElem s (u + p) # end_loop e u (u + p) (x # xs)
      else x # add_rec s e u (RDE_amount x) xs)"

lemma rde_simps [simp]:
  "RDE_time (newResourceElem t a) = t" "RDE_amount (newResourceElem t a) = a"
  "RDE_time (add_amount u x) = RDE_time x" "RDE_amount (add_amount u x) = RDE_amount x + u"
  by (simp_all add: newResourceElem_def add_amount_def)

lemma find_time_loop_append:
  "\<forall>x \<in> set xs. RDE_time x < s \<Longrightarrow> find_time_loop (xs @ ys) i prev s =
     find_time_loop ys (i + length xs) (if xs = [] then prev else Some (i + length xs - 1)) s"
  by (induction xs arbitrary: i prev) auto

text \<open>Every list splits where the search stops.\<close>

lemma find_split:
  obtains xs ys where "d = xs @ ys" "\<forall>x \<in> set xs. RDE_time x < s"
    "ys = [] \<or> s \<le> RDE_time (hd ys)"
    "utilization_find_time_or_prevstart_or_prev d s =
       (if ys \<noteq> [] \<and> RDE_time (hd ys) = s then Some (length xs) else None,
        if xs = [] then None else Some (length xs - 1))"
proof
  let ?xs = "takeWhile (\<lambda>x. RDE_time x < s) d" and ?ys = "dropWhile (\<lambda>x. RDE_time x < s) d"
  show "d = ?xs @ ?ys" by simp
  show xs: "\<forall>x \<in> set ?xs. RDE_time x < s" by (auto dest: set_takeWhileD)
  show ys: "?ys = [] \<or> s \<le> RDE_time (hd ?ys)" using hd_dropWhile[of "\<lambda>x. RDE_time x < s" d] by (metis not_le)
  have "utilization_find_time_or_prevstart_or_prev d s = find_time_loop (?xs @ ?ys) 0 None s"
    by (simp add: utilization_find_time_or_prevstart_or_prev_def)
  also have "\<dots> = (if ?ys \<noteq> [] \<and> RDE_time (hd ?ys) = s then Some (length ?xs) else None,
      if ?xs = [] then None else Some (length ?xs - 1))"
    unfolding find_time_loop_append[OF xs] using ys
    by (cases ?ys) (auto simp del: dropWhile_eq_Nil_conv)
  finally show "utilization_find_time_or_prevstart_or_prev d s =
      (if ?ys \<noteq> [] \<and> RDE_time (hd ?ys) = s then Some (length ?xs) else None,
       if ?xs = [] then None else Some (length ?xs - 1))" .
qed

lemma add_rec_append:
  "\<forall>x \<in> set xs. RDE_time x < s \<Longrightarrow>
   add_rec s e u p (xs @ ys) = xs @ add_rec s e u (if xs = [] then p else RDE_amount (last xs)) ys"
  by (induction xs arbitrary: p) auto

lemma add_to_diagram_rec: "add_to_diagram s e u d = utilization_normalize (add_rec s e u 0 d)"
proof -
  obtain xs ys where d: "d = xs @ ys" "\<forall>x \<in> set xs. RDE_time x < s" "ys = [] \<or> s \<le> RDE_time (hd ys)"
      "utilization_find_time_or_prevstart_or_prev d s =
        (if ys \<noteq> [] \<and> RDE_time (hd ys) = s then Some (length xs) else None,
         if xs = [] then None else Some (length xs - 1))"
    by (rule find_split)
  show ?thesis
  proof (cases "ys \<noteq> [] \<and> RDE_time (hd ys) = s")
    case True
    then obtain y ys' where y: "ys = y # ys'" "RDE_time y = s" by (cases ys) auto
    then show ?thesis
      using d by (simp add: add_to_diagram_def add_rec_append[OF d(2)] list_update_append)
  next
    case False
    then have "add_rec s e u q ys = newResourceElem s (u + q) # end_loop e u (u + q) ys" for q
      using d(3) by (cases ys) auto
    moreover have "xs \<noteq> [] \<Longrightarrow> last xs = xs ! (length xs - 1)" by (simp add: last_conv_nth)
    moreover have "xs \<noteq> [] \<Longrightarrow> (xs @ zs) ! (length xs - 1) = last xs" for zs
      by (simp add: nth_append last_conv_nth)
    ultimately show ?thesis
      using d False
      by (auto simp: add_to_diagram_def add_rec_append[OF d(2)] insert_after_def Let_def
          nth_append Suc_diff_Suc)
  qed
qed

lemma util_end_loop:
  "s < e \<Longrightarrow> util_from p (end_loop e u p xs) t = util_from (p - u) xs t + (if t < e then u else 0)"
  by (induction xs arbitrary: p) (auto simp: Let_def)

lemma util_add_rec:
  "s < e \<Longrightarrow> util_from p (add_rec s e u p xs) t =
     util_from p xs t + (if s \<le> t \<and> t < e then u else 0)"
proof (induction xs arbitrary: p)
  case Nil
  then show ?case by (auto simp: util_end_loop[of s] add.commute simp del: end_loop.simps)
next
  case (Cons x xs)
  then show ?case
    by (auto simp: util_end_loop[of s] add.commute simp del: end_loop.simps)
qed

lemma end_loop_times:
  "x \<in> set (end_loop e u p xs) \<Longrightarrow> RDE_time x = e \<or> (\<exists>y \<in> set xs. RDE_time x = RDE_time y)"
  by (induction xs arbitrary: p) (auto simp: Let_def split: if_splits)

lemma dwf_end_loop: "dwf xs \<Longrightarrow> dwf (end_loop e u p xs)"
  by (induction xs arbitrary: p) (auto simp: Let_def dest!: end_loop_times)

lemma add_rec_times:
  "x \<in> set (add_rec s e u p xs) \<Longrightarrow>
   RDE_time x = s \<or> RDE_time x = e \<or> (\<exists>y \<in> set xs. RDE_time x = RDE_time y)"
  by (induction xs arbitrary: p) (auto dest!: end_loop_times simp del: end_loop.simps split: if_splits)

lemma dwf_add_rec: "dwf xs \<Longrightarrow> s < e \<Longrightarrow> dwf (add_rec s e u p xs)"
  by (induction xs arbitrary: p)
     (fastforce dest!: end_loop_times add_rec_times intro!: dwf_end_loop simp del: end_loop.simps)+

lemma drop_equal_subset: "set (drop_equal p xs) \<subseteq> set xs"
  by (induction xs arbitrary: p) auto

lemma dwf_drop_equal: "dwf xs \<Longrightarrow> dwf (drop_equal p xs)"
proof (induction xs arbitrary: p)
  case (Cons x xs)
  then show ?case using drop_equal_subset[of "RDE_amount x" xs] by auto
qed simp

lemma changes_drop_equal: "changes p (drop_equal p xs)"
  by (induction xs arbitrary: p) auto

lemma util_drop_equal: "dwf xs \<Longrightarrow> util_from p (drop_equal p xs) t = util_from p xs t"
proof (induction xs arbitrary: p)
  case (Cons x xs)
  then have "t < RDE_time x \<Longrightarrow> util_from q xs t = q" for q
    by (intro util_before) auto
  with Cons show ?case by (auto simp: not_le)
qed simp

lemma normalize_drop_equal: "utilization_normalize xs = drop_equal 0 xs"
  by (induction xs) (auto simp: utilization_normalize_def)

text \<open>One debit: the result is sorted and without repetitions, and adds \<open>u\<close> on the interval.\<close>

lemma add_to_diagram_correct:
  assumes "dwf d" "s < e"
  shows "dwf (add_to_diagram s e u d)" "changes 0 (add_to_diagram s e u d)"
    "util_at (add_to_diagram s e u d) t = util_at d t + (if s \<le> t \<and> t < e then u else 0)"
  using dwf_add_rec[OF assms] util_add_rec[OF assms(2), of 0 u d t]
  by (simp_all add: add_to_diagram_rec normalize_drop_equal dwf_drop_equal changes_drop_equal
      util_drop_equal)

section \<open>Asking\<close>

text \<open>Both the loop and the step function are at most \<open>b\<close> when the amounts they meet are.\<close>

lemma max_loop_le:
  fixes m b :: "'a::linorder"
  shows "dwf xs \<Longrightarrow> max_loop e m xs \<le> b \<longleftrightarrow>
     m \<le> b \<and> (\<forall>x \<in> set xs. RDE_time x < e \<longrightarrow> RDE_amount x \<le> b)"
proof (induction xs arbitrary: m)
  case (Cons x xs)
  then have "\<not> RDE_time x < e \<Longrightarrow> \<forall>y \<in> set xs. \<not> RDE_time y < e" by auto
  with Cons show ?case by auto
qed simp

lemma util_from_le:
  fixes m b :: "'a::linorder"
  assumes "dwf xs" "\<forall>x \<in> set xs. s < RDE_time x" "s < e"
  shows "(\<forall>t. s \<le> t \<and> t < e \<longrightarrow> util_from m xs t \<le> b) \<longleftrightarrow>
     m \<le> b \<and> (\<forall>x \<in> set xs. RDE_time x < e \<longrightarrow> RDE_amount x \<le> b)"
  using assms
proof (induction xs arbitrary: m s)
  case Nil
  then show ?case by auto
next
  case (Cons x xs)
  let ?x = "RDE_time x" and ?f = "util_from (RDE_amount x) xs"
  have s: "s < ?x" using Cons.prems(2) by simp
  have "(\<forall>t. s \<le> t \<and> t < e \<longrightarrow> util_from m (x # xs) t \<le> b) \<longleftrightarrow>
      m \<le> b \<and> (\<forall>t. ?x \<le> t \<and> t < e \<longrightarrow> ?f t \<le> b)" (is "?l \<longleftrightarrow> ?r")
  proof
    assume l: ?l
    have "m \<le> b" using l[rule_format, of s] s Cons.prems(3) by simp
    moreover have "?f t \<le> b" if "?x \<le> t" "t < e" for t
      using l[rule_format, of t] s that by simp
    ultimately show ?r by blast
  qed (use s in auto)
  also have "\<dots> \<longleftrightarrow> m \<le> b \<and> (\<forall>y \<in> set (x # xs). RDE_time y < e \<longrightarrow> RDE_amount y \<le> b)"
  proof (cases "?x < e")
    case True
    then show ?thesis using Cons.IH[of ?x "RDE_amount x"] Cons.prems by auto
  next
    case False
    then have "\<forall>y \<in> set xs. \<not> RDE_time y < e" using Cons.prems(1) by auto
    with False show ?thesis by auto
  qed
  finally show ?case .
qed

lemma Max_by_bounds:
  assumes "finite A" "A \<noteq> {}" "\<And>b. m \<le> b \<longleftrightarrow> (\<forall>a \<in> A. a \<le> b)"
  shows "m = Max A"
  using assms by (metis Max_in antisym order_refl Max_ge)

lemma diagram_max_correct:
  assumes "dwf d" "s < e"
  shows "diagram_max s e d = Max (util_at d ` {s..<e})"
proof (rule Max_by_bounds)
  obtain xs ys where d: "d = xs @ ys" "\<forall>x \<in> set xs. RDE_time x < s" "ys = [] \<or> s \<le> RDE_time (hd ys)"
      "utilization_find_time_or_prevstart_or_prev d s =
        (if ys \<noteq> [] \<and> RDE_time (hd ys) = s then Some (length xs) else None,
         if xs = [] then None else Some (length xs - 1))"
    by (rule find_split)
  have le: "\<forall>x \<in> set xs. RDE_time x \<le> t" if "s \<le> t" for t using d(2) that by auto
  have ys: "dwf ys" using assms(1) d(1) by (simp add: dwf_append)
  define q where "q = (if xs = [] then 0 else RDE_amount (last xs))"
  have at: "util_at d t = util_from q ys t" if "s \<le> t" for t
    using util_append[OF le[OF that], of 0 ys] d(1) by (simp add: q_def)
  fix b
  show "diagram_max s e d \<le> b \<longleftrightarrow> (\<forall>a \<in> util_at d ` {s..<e}. a \<le> b)"
  proof (cases "ys \<noteq> [] \<and> RDE_time (hd ys) = s")
    case True
    then obtain y zs where y: "ys = y # zs" "RDE_time y = s" by (cases ys) auto
    then have "diagram_max s e d = max_loop e (RDE_amount y) zs"
      using d(1,4) by (simp add: diagram_max_def)
    moreover have "util_at d t = util_from (RDE_amount y) zs t" if "s \<le> t" for t
      using at[OF that] y that by simp
    moreover have "dwf zs" "\<forall>x \<in> set zs. s < RDE_time x" using ys y by auto
    ultimately show ?thesis
      using util_from_le[of zs s e "RDE_amount y" b] max_loop_le[of zs e "RDE_amount y" b] assms(2)
      by auto
  next
    case False
    then have "\<forall>x \<in> set ys. s < RDE_time x" using d(3) ys by (cases ys) auto
    moreover have "diagram_max s e d = max_loop e q ys"
      using d False by (cases xs rule: rev_cases) (auto simp: diagram_max_def q_def nth_append)
    ultimately show ?thesis
      using util_from_le[OF ys _ assms(2), of q b] max_loop_le[OF ys, of e q b] at by auto
  qed
qed (use assms(2) in simp_all)

text \<open>The end of all times.\<close>

lemma queue_end_correct:
  assumes "dwf d" "\<forall>x \<in> set d. RDE_time x \<le> U_LONG32_MAX" "d = [] \<or> RDE_time (hd d) < U_LONG32_MAX"
  shows "diagram_queue_end (Some d) = Some (util_at d (U_LONG32_MAX - 1))"
proof (cases d rule: rev_cases)
  case Nil
  then show ?thesis by (simp add: diagram_queue_end_def delems_def)
next
  case (snoc xs x)
  show ?thesis
  proof (cases "RDE_time x = U_LONG32_MAX")
    case False
    then have "RDE_time x \<le> U_LONG32_MAX - 1" using assms(2) snoc by auto
    then show ?thesis
      using False snoc util_snoc[of xs x 0 "U_LONG32_MAX - 1"] assms(1)
      by (simp add: diagram_queue_end_def delems_def)
  next
    case True
    then obtain ys y where y: "xs = ys @ [y]" using assms(3) snoc by (cases xs rule: rev_cases) auto
    then have "RDE_time y \<le> U_LONG32_MAX - 1" using assms(1) snoc True by (auto simp: dwf_append)
    then show ?thesis
      using True snoc y util_snoc[of xs x 0 "U_LONG32_MAX - 1"] util_snoc[of ys y 0 "U_LONG32_MAX - 1"]
        assms(1)
      by (simp add: diagram_queue_end_def delems_def dwf_append)
  qed
qed

text \<open>The search for the time from which the amount stays at most \<open>m\<close>.\<close>

lemma below_loop_times: "below_loop m xs = 0 \<or> below_loop m xs \<in> RDE_time ` set xs"
proof (induction xs)
  case (Cons x xs)
  then show ?case by (cases xs) auto
qed simp

lemma below_loop_correct:
  fixes m :: "'a::{linorder,zero}"
  assumes "dwf d" "\<forall>x \<in> set d. 0 < RDE_time x" "0 \<le> m" "d = [] \<or> RDE_amount (last d) \<le> m"
  shows "(\<forall>t \<ge> below_loop m (rev d). util_at d t \<le> m) \<and>
    (below_loop m (rev d) \<noteq> 0 \<longrightarrow> m < util_at d (below_loop m (rev d) - 1))"
  using assms
proof (induction d rule: rev_induct)
  case Nil
  then show ?case by simp
next
  case (snoc x xs)
  have wf: "dwf xs" and less: "\<forall>y \<in> set xs. RDE_time y < RDE_time x"
    using snoc.prems(1) by (auto simp: dwf_append)
  note at = util_snoc[OF snoc.prems(1), of 0]
  have x: "RDE_amount x \<le> m" "0 < RDE_time x" using snoc.prems by auto
  show ?case
  proof (cases xs rule: rev_cases)
    case Nil
    then show ?thesis using snoc.prems x by auto
  next
    case (snoc ys p)
    show ?thesis
    proof (cases "RDE_amount p > m")
      case True
      then have "below_loop m (rev (xs @ [x])) = RDE_time x" using snoc x by simp
      moreover have "util_at xs (RDE_time x - 1) = RDE_amount p"
        using snoc less util_snoc[of ys p 0 "RDE_time x - 1"] wf by auto
      ultimately show ?thesis using True x at by auto
    next
      case False
      then have b: "below_loop m (rev (xs @ [x])) = below_loop m (rev xs)"
        using snoc x by simp
      have IH: "(\<forall>t \<ge> below_loop m (rev xs). util_at xs t \<le> m) \<and>
          (below_loop m (rev xs) \<noteq> 0 \<longrightarrow> m < util_at xs (below_loop m (rev xs) - 1))"
        using snoc.IH wf snoc.prems(2,3) False snoc by auto
      have "below_loop m (rev xs) < RDE_time x"
        using below_loop_times[of m "rev xs"] less x by auto
      then show ?thesis unfolding b using IH at x(1) by auto
    qed
  qed
qed

section \<open>Calendars\<close>

text \<open>
  The calendar's interval goes into the diagram as it should when no time of the diagram is its
  start, and the diagram has a time in it, or none from its start on.
\<close>

lemma util_till_loop:
  assumes "dwf xs" "\<forall>x \<in> set xs. from < RDE_time x" "from < till" "xs \<noteq> []"
    and "RDE_amount (last xs) = 0" "RDE_time (hd xs) \<le> till"
  shows "util_from u (till_loop till q xs) t =
    (if t < till then u else util_from (RDE_amount (hd xs)) (tl xs) t)"
  using assms
proof (induction xs arbitrary: q "from")
  case (Cons x xs)
  show ?case
  proof (cases "RDE_time x = till")
    case True
    then show ?thesis using Cons.prems util_before[of xs t] by auto
  next
    case False
    then have lt: "RDE_time x < till" using Cons.prems(6) by simp
    show ?thesis
    proof (cases xs)
      case Nil
      then show ?thesis using lt Cons.prems(5) by auto
    next
      case (Cons y ys)
      show ?thesis
      proof (cases "RDE_time y > till")
        case True
        then show ?thesis using Cons lt by (auto simp: newResourceElem_def)
      next
        case False
        have "util_from u (till_loop till (RDE_amount x) xs) t =
            (if t < till then u else util_from (RDE_amount (hd xs)) (tl xs) t)"
          using Cons.IH[of "RDE_time x" "RDE_amount x"] Cons.prems lt Cons False by auto
        then show ?thesis using Cons lt False by auto
      qed
    qed
  qed
qed simp

lemma util_from_loop:
  assumes "dwf xs" "\<forall>x \<in> set xs. RDE_time x \<noteq> from" "from < till"
    and "if xs = [] then p = 0 else RDE_amount (last xs) = 0"
    and "(\<exists>x \<in> set xs. from < RDE_time x) \<longrightarrow> (\<exists>x \<in> set xs. from < RDE_time x \<and> RDE_time x \<le> till)"
  shows "util_from p (from_loop from till uti xs) t =
    (if from \<le> t \<and> t < till then uti else util_from p xs t)"
  using assms
proof (induction xs arbitrary: p)
  case Nil
  then show ?case by (auto simp: newResourceElem_def)
next
  case (Cons x xs)
  show ?case
  proof (cases "from < RDE_time x")
    case True
    then have "RDE_time x \<le> till" using Cons.prems(1,5) by auto
    then have "util_from uti (till_loop till (RDE_amount x) (x # xs)) t =
        (if t < till then uti else util_from (RDE_amount x) xs t)"
    proof -
      have "\<forall>y \<in> set (x # xs). from < RDE_time y" using Cons.prems(1) True by auto
      then show ?thesis
        using util_till_loop[of "x # xs" "from" till uti "RDE_amount x" t] Cons.prems(1,3,4)
          \<open>RDE_time x \<le> till\<close> by simp
    qed
    then show ?thesis
      using True Cons.prems(3) \<open>RDE_time x \<le> till\<close> by (auto simp del: till_loop.simps)
  next
    case False
    then have lt: "RDE_time x < from" using Cons.prems(2) by force
    have "util_from (RDE_amount x) (from_loop from till uti xs) t =
        (if from \<le> t \<and> t < till then uti else util_from (RDE_amount x) xs t)"
      using Cons.prems False by (intro Cons.IH) (auto split: if_splits)
    then show ?thesis using lt by auto
  qed
qed

section \<open>The interface: capacity over time\<close>

text \<open>
  What the scheduler relies on when it books a consumable: a debit adds the amount on an
  interval, and the peak it asks for first is the maximum over that interval.
\<close>

locale capacity =
  fixes inv :: "'d \<Rightarrow> bool" and level :: "'d \<Rightarrow> nat \<Rightarrow> 'a::linordered_ab_group_add"
    and debit :: "nat \<Rightarrow> nat \<Rightarrow> 'a \<Rightarrow> 'd \<Rightarrow> 'd" and peak :: "nat \<Rightarrow> nat \<Rightarrow> 'd \<Rightarrow> 'a"
  assumes debit_inv: "inv d \<Longrightarrow> s < e \<Longrightarrow> inv (debit s e u d)"
    and debit_level: "inv d \<Longrightarrow> s < e \<Longrightarrow>
      level (debit s e u d) t = level d t + (if s \<le> t \<and> t < e then u else 0)"
    and peak_ge: "inv d \<Longrightarrow> s \<le> t \<Longrightarrow> t < e \<Longrightarrow> level d t \<le> peak s e d"

text \<open>A request is booked when it fits under the cap, and not otherwise.\<close>

fun book :: "(nat \<Rightarrow> nat \<Rightarrow> 'a::linordered_ab_group_add \<Rightarrow> 'd \<Rightarrow> 'd) \<Rightarrow> (nat \<Rightarrow> nat \<Rightarrow> 'd \<Rightarrow> 'a) \<Rightarrow> 'a \<Rightarrow>
    nat \<times> nat \<times> 'a \<Rightarrow> 'd \<Rightarrow> 'd" where
  "book debit peak cap (s, e, u) d =
     (if u \<le> cap - peak s e d then debit s e u d else d)"

context capacity begin

lemma book_law:
  assumes "inv d" "\<forall>t. level d t \<le> cap" "s < e"
  shows "inv (book debit peak cap (s, e, u) d)"
    "level (book debit peak cap (s, e, u) d) t \<le> cap"
proof -
  show "inv (book debit peak cap (s, e, u) d)" using assms debit_inv by simp
  have "level d t + u \<le> cap" if "u \<le> cap - peak s e d" "s \<le> t" "t < e" for t
    using peak_ge[OF assms(1) that(2,3)] that(1) by (simp add: le_diff_eq add.commute)
      (metis add_left_mono order_trans)
  then show "level (book debit peak cap (s, e, u) d) t \<le> cap"
    using assms by (simp add: debit_level)
qed

lemma bookings_fit:
  assumes "inv d" "\<forall>t. level d t \<le> cap" "\<forall>(s, e, u) \<in> set rs. s < e"
  shows "inv (fold (book debit peak cap) rs d) \<and>
    (\<forall>t. level (fold (book debit peak cap) rs d) t \<le> cap)"
  using assms
proof (induction rs arbitrary: d)
  case (Cons r rs)
  obtain s e u where "r = (s, e, u)" by (cases r)
  with Cons show ?case using book_law[of d cap s e u] by simp
qed simp

end

interpretation diagram_capacity: capacity dwf util_at add_to_diagram diagram_max
proof unfold_locales
  fix d :: "'a rde list" and s e t :: nat and u :: 'a
  assume d: "dwf d"
  show "s < e \<Longrightarrow> dwf (add_to_diagram s e u d)"
    by (rule add_to_diagram_correct(1)[OF d])
  show "s < e \<Longrightarrow> util_at (add_to_diagram s e u d) t = util_at d t + (if s \<le> t \<and> t < e then u else 0)"
    by (rule add_to_diagram_correct(3)[OF d])
  show "util_at d t \<le> diagram_max s e d" if "s \<le> t" "t < e"
    using diagram_max_correct[OF d, of s e] that by simp
qed

section \<open>Properties\<close>

text \<open>The diagram an operation works on.\<close>

definition the_diagram :: "bool \<Rightarrow> 'a rue \<Rightarrow> 'a diagram" where
  "the_diagram nonexclusive cr =
     (if nonexclusive then RUE_utilized_nonexclusive cr else RUE_utilized cr)"

abbreviation level_at :: "bool \<Rightarrow> ('a::zero) rue \<Rightarrow> nat \<Rightarrow> 'a" where
  "level_at ex cr \<equiv> util_at (delems (the_diagram ex cr))"

lemma endtime_later: "s < U_LONG32_MAX \<Longrightarrow> 0 < dur \<Longrightarrow> s < utilization_endtime s dur"
  by (simp add: utilization_endtime_def)

lemma utilization_add_diagram:
  assumes "\<not> (for_job \<and> (mr = 0 \<or> dur = 0) \<and> the_diagram ex cr = None)"
  shows "the_diagram ex (utilization_add mr s dur u for_job ex cr) =
      Some (add_to_diagram s (utilization_endtime s dur) u (delems (the_diagram ex cr)))"
    "the_diagram (\<not> ex) (utilization_add mr s dur u for_job ex cr) = the_diagram (\<not> ex) cr"
  using assms by (cases ex; auto simp: utilization_add_def the_diagram_def Let_def)+

lemma delems_Some [simp]: "delems (Some d) = d" "delems None = []"
  by (simp_all add: delems_def)

text \<open>An example: a consumable used by 3 from 100 to 200, and by 1 until 300.\<close>

definition example_rue :: "int rue" where
  "example_rue = \<lparr>RUE_name = ''slots'', RUE_utilized_now = 0,
     RUE_utilized = Some [newResourceElem 100 3, newResourceElem 200 1, newResourceElem 300 0],
     RUE_utilized_now_nonexclusive = 0, RUE_utilized_nonexclusive = None\<rparr>"

lemma example_rue_diagram:
  "the_diagram False example_rue =
     Some [newResourceElem 100 3, newResourceElem 200 1, newResourceElem 300 0]"
  "dwf (delems (the_diagram False example_rue))"
  "changes 0 (delems (the_diagram False example_rue))"
  by (simp_all add: example_rue_def the_diagram_def)

text \<open>
  C30. A debit adds the amount on the interval from the start to the end time, which is cut at
  the end of all times, and nowhere else; the diagram stays sorted, without an amount twice in a
  row, and the other diagram of the entry is left alone.
\<close>

theorem utilization_add_on_interval:
  fixes u :: "'a::ab_group_add"
  assumes "dwf (delems (the_diagram ex cr))" "start < U_LONG32_MAX" "0 < duration"
    and "\<not> (for_job \<and> max_reservations = 0 \<and> the_diagram ex cr = None)"
  shows "let cr' = utilization_add max_reservations start duration u for_job ex cr in
    dwf (delems (the_diagram ex cr')) \<and> changes 0 (delems (the_diagram ex cr')) \<and>
    the_diagram (\<not> ex) cr' = the_diagram (\<not> ex) cr \<and>
    (\<forall>t < U_LONG32_MAX. level_at ex cr' t =
       level_at ex cr t + (if start \<le> t \<and> t < start + duration then u else 0))"
proof -
  have later: "start < utilization_endtime start duration" using assms(2,3) by (rule endtime_later)
  have "t < utilization_endtime start duration \<longleftrightarrow> t < start + duration" if "t < U_LONG32_MAX" for t
    using that by (auto simp: utilization_endtime_def)
  then show ?thesis
    using utilization_add_diagram[of for_job max_reservations duration ex cr start u] assms
      add_to_diagram_correct[OF assms(1) later, of u]
    by (simp add: Let_def)
qed

theorem utilization_add_on_interval_witness:
  "level_at False (utilization_add 20 150 100 2 True False example_rue) 199 = 5 \<and>
   level_at False (utilization_add 20 150 100 2 True False example_rue) 250 = 1"
  using utilization_add_on_interval[of False example_rue 150 100 True 20 2]
  by (simp add: example_rue_diagram Let_def)

text \<open>
  Debits do not depend on their order, and a debit of the negated amount takes one back: the
  diagram is then the very list it was before.
\<close>

theorem debits_commute_and_cancel:
  fixes u v :: "'a::ab_group_add"
  assumes "dwf d" "changes 0 d" "s < e" "s' < e'"
  shows "add_to_diagram s e u (add_to_diagram s' e' v d) =
      add_to_diagram s' e' v (add_to_diagram s e u d) \<and>
    add_to_diagram s e (- u) (add_to_diagram s e u d) = d"
proof -
  note one = add_to_diagram_correct[OF assms(1,3)] and two = add_to_diagram_correct[OF assms(1,4)]
  have "add_to_diagram s e u (add_to_diagram s' e' v d) =
      add_to_diagram s' e' v (add_to_diagram s e u d)"
    by (rule diagram_unique[where p = 0])
       (simp_all add: add_to_diagram_correct one two assms(3,4) ac_simps)
  moreover have "add_to_diagram s e (- u) (add_to_diagram s e u d) = d"
    by (rule diagram_unique[where p = 0])
       (simp_all add: add_to_diagram_correct one assms(1,2,3))
  ultimately show ?thesis by blast
qed

theorem debits_commute_and_cancel_witness:
  "add_to_diagram 5 10 (- 2) (add_to_diagram 5 10 2 (delems (RUE_utilized example_rue))) =
     delems (RUE_utilized example_rue)"
  using debits_commute_and_cancel[of "delems (RUE_utilized example_rue)" 5 10 5 10 2 2]
    example_rue_diagram
  by (simp add: the_diagram_def)

text \<open>
  C31. The peak. For a start that is neither now nor the end of all times, \<open>utilization_max\<close> is
  the greatest amount in use at any moment from the start to the end time; for an exclusive
  request, the greater one of both diagrams.
\<close>

theorem utilization_max_is_maximum:
  fixes cr :: "('a::linordered_ab_group_add) rue"
  assumes "dwf (delems (RUE_utilized cr))" "dwf (delems (RUE_utilized_nonexclusive cr))"
    and "start \<noteq> DISPATCH_TIME_NOW" "start < U_LONG32_MAX" "0 < duration"
  shows "let window = {start..<utilization_endtime start duration};
        m = Max (util_at (delems (RUE_utilized cr)) ` window);
        n = Max (util_at (delems (RUE_utilized_nonexclusive cr)) ` window)
    in utilization_max start duration False cr = Some m \<and>
       utilization_max start duration True cr = Some (max m n)"
  using assms diagram_max_correct[OF assms(1) endtime_later[OF assms(4,5)]]
    diagram_max_correct[OF assms(2) endtime_later[OF assms(4,5)]]
  by (simp add: utilization_max_def Let_def)

theorem utilization_max_is_maximum_witness:
  "utilization_max 150 100 False example_rue =
     Some (Max (util_at (delems (RUE_utilized example_rue)) ` {150..<250})) \<and>
   utilization_max 150 100 False example_rue = Some 3"
proof -
  have "utilization_max 150 100 False example_rue = Some 3"
    by (simp add: utilization_max_def example_rue_def diagram_max_def utilization_endtime_def
        utilization_find_time_or_prevstart_or_prev_def)
  moreover have "dwf (delems (RUE_utilized example_rue))"
      "dwf (delems (RUE_utilized_nonexclusive example_rue))" "utilization_endtime 150 100 = 250"
    by (simp_all add: example_rue_def utilization_endtime_def)
  then have "utilization_max 150 100 False example_rue =
      Some (Max (util_at (delems (RUE_utilized example_rue)) ` {150..<250}))"
    using utilization_max_is_maximum[of example_rue 150 100] by (simp add: Let_def)
  ultimately show ?thesis by simp
qed



text \<open>
  \<open>utilization_below\<close> gives a time from which the amount in use stays at most the
  threshold, and just before which it is above; it is 0 when there is no such moment.
\<close>

theorem utilization_below_earliest:
  fixes m :: "'a::linordered_ab_group_add"
  assumes "dwf d" "\<forall>x \<in> set d. 0 < RDE_time x" "0 \<le> m" "d = [] \<or> RDE_amount (last d) \<le> m"
    and "RUE_utilized cr = Some d"
  shows "let w = utilization_below m False cr in
    (\<forall>t \<ge> w. util_at d t \<le> m) \<and> (w \<noteq> DISPATCH_TIME_NOW \<longrightarrow> m < util_at d (w - 1))"
  using below_loop_correct[OF assms(1-4)] assms(5) by (simp add: utilization_below_def Let_def)

theorem utilization_below_earliest_witness:
  "utilization_below 1 False example_rue = 200 \<and>
   level_at False example_rue 250 \<le> 1"
  using utilization_below_earliest[of "delems (RUE_utilized example_rue)" 1 example_rue]
  by (simp add: example_rue_def the_diagram_def utilization_below_def Let_def)

text \<open>
  \<open>utilization_queue_end\<close> is the amount in use just before the end of all times, for a
  diagram that does not consist of that time alone (there the code reads a null element).
\<close>

theorem queue_end_is_last_level:
  fixes cr :: "('a::linordered_ab_group_add) rue"
  assumes "RUE_utilized cr = Some d" "dwf d" "\<forall>x \<in> set d. RDE_time x \<le> U_LONG32_MAX"
    and "d = [] \<or> RDE_time (hd d) < U_LONG32_MAX"
  shows "utilization_queue_end False cr = Some (util_at d (U_LONG32_MAX - 1)) \<and>
    utilization_max U_LONG32_MAX duration False cr = Some (util_at d (U_LONG32_MAX - 1))"
  using queue_end_correct[OF assms(2-4)] assms(1)
  by (simp add: utilization_queue_end_def utilization_max_def Let_def)

theorem queue_end_is_last_level_witness:
  "utilization_queue_end False (example_rue\<lparr>RUE_utilized := Some [newResourceElem 100 3,
      newResourceElem U_LONG32_MAX 0]\<rparr>) = Some 3"
  using queue_end_is_last_level[of "example_rue\<lparr>RUE_utilized := Some [newResourceElem 100 3,
      newResourceElem U_LONG32_MAX 0]\<rparr>"] by simp

text \<open>
  Calendars, where the code does what it means to: when no element of the diagram has the
  start time, the first one behind it comes no later than the end, and the diagram ends with 0,
  the interval gets the amount and the rest of the diagram keeps its own.
\<close>

theorem set_utilization_on_interval:
  fixes uti :: "'a::linordered_ab_group_add"
  assumes "dwf d" "\<forall>x \<in> set d. RDE_time x \<noteq> from" "from < till" "d = [] \<or> RDE_amount (last d) = 0"
    and "(\<exists>x \<in> set d. from < RDE_time x) \<longrightarrow> (\<exists>x \<in> set d. from < RDE_time x \<and> RDE_time x \<le> till)"
    and "0 < uti"
  shows "util_at (set_utilization from till uti d) t =
    (if from \<le> t \<and> t < till then uti else util_at d t)"
proof -
  have "if d = [] then (0 :: 'a) = 0 else RDE_amount (last d) = 0" using assms(4) by auto
  then show ?thesis
    using util_from_loop[OF assms(1-3), of 0 uti t] assms(3,5,6) by (auto simp: set_utilization_def)
qed

theorem set_utilization_on_interval_witness:
  "util_at (set_utilization 150 250 8 (delems (RUE_utilized example_rue))) 249 = 8 \<and>
   util_at (set_utilization 150 250 8 (delems (RUE_utilized example_rue))) 250 = 1"
  using set_utilization_on_interval[of "delems (RUE_utilized example_rue)" 150 250 8]
    example_rue_diagram by (simp add: the_diagram_def example_rue_def)

text \<open>
  Calendars, where it does not. An element with the start time is overwritten and then
  removed by the search for the end: a queue disabled from 100 to 150 offers all its slots. An
  interval inside a segment takes the amount of the next segment for what comes after it: with 3
  in use from 100 to 200, disabling 120 to 140 leaves nothing in use from 140 to 200. And an
  interval without an end ends at 2147483647, so that the amount at the end of all times is 0.
\<close>

theorem set_utilization_faults:
  "util_at (set_utilization 100 150 8 (delems (RUE_utilized example_rue))) 120 = 0 \<and>
   util_at (delems (RUE_utilized example_rue)) 170 = 3 \<and>
   util_at (set_utilization 120 140 8 [newResourceElem 100 3, newResourceElem 200 (0::int)]) 170 = 0 \<and>
   diagram_queue_end (Some (set_utilization 100 0 (8::int) [])) = Some 0"
  by (simp add: set_utilization_def example_rue_def diagram_queue_end_def)

end
