(* ===== verification/Qeti.thy ===== *)
theory Qeti
  imports Utilization_Facts
begin

text \<open>
  The queue end time iterator, \<^verbatim>\<open>source/libs/sched/sge_qeti.c\<close>: the times at which a
  resource diagram of a parallel job changes, from the latest to the earliest. The scheduler
  tries a reservation at each of them.

  The iterator keeps four lists of references, for the parallel environment, the global host, the
  hosts and the queues. A reference has the diagram of its resource and a cursor into it, the
  index of an element or \<open>None\<close>.
\<close>

section \<open>The iterator\<close>

record 'a qeti_ref =
  QETI_resource_instance :: "'a rue"
  QETI_queue_end_next :: "nat option"
  QETI_total :: 'a

record 'a sge_qeti =
  cr_refs_pe :: "'a qeti_ref list"
  cr_refs_global :: "'a qeti_ref list"
  cr_refs_host :: "'a qeti_ref list"
  cr_refs_queue :: "'a qeti_ref list"

definition ref_diagram :: "'a qeti_ref \<Rightarrow> 'a rde list" where
  "ref_diagram r = delems (RUE_utilized (QETI_resource_instance r))"

text \<open>
  \<open>None\<close> is the return value -1, for a resource without an entry that must have one. \<open>lCreateElem\<close>
  and \<open>lCreateList\<close> do not fail.
\<close>

definition sge_qeti_list_add ::
  "'a qeti_ref list \<Rightarrow> string \<Rightarrow> 'a rue list \<Rightarrow> 'a \<Rightarrow> bool \<Rightarrow> 'a qeti_ref list option" where
  "sge_qeti_list_add lpp name rue_lp total_val must_exist =
     (case find (\<lambda>r. RUE_name r = name) rue_lp of
        None \<Rightarrow> if must_exist then None else Some lpp
      | Some cr \<Rightarrow>
          Some (lpp @ [\<lparr>QETI_resource_instance = cr, QETI_queue_end_next = None,
                        QETI_total = total_val\<rparr>]))"

definition last_index :: "'b list \<Rightarrow> nat option" where
  "last_index xs = (if xs = [] then None else Some (length xs - 1))"

definition sge_qeti_init_refs :: "'a qeti_ref list \<Rightarrow> 'a qeti_ref list" where
  "sge_qeti_init_refs cref_lp =
     map (\<lambda>r. r\<lparr>QETI_queue_end_next := last_index (ref_diagram r)\<rparr>) cref_lp"

definition sge_qeti_max_end_time :: "u32 \<Rightarrow> 'a qeti_ref list \<Rightarrow> u32" where
  "sge_qeti_max_end_time max_time cref_lp =
     fold (\<lambda>r tmp_time.
        case QETI_queue_end_next r of
          None \<Rightarrow> tmp_time
        | Some i \<Rightarrow> max tmp_time (RDE_time (ref_diagram r ! i))) cref_lp max_time"

text \<open>The inner loop: back from element \<open>i\<close> while the time is below the element's.\<close>

fun prev_loop :: "u32 \<Rightarrow> 'a rde list \<Rightarrow> nat \<Rightarrow> nat option" where
  "prev_loop time d 0 = (if time < RDE_time (d ! 0) then None else Some 0)"
| "prev_loop time d (Suc i) =
     (if time < RDE_time (d ! Suc i) then prev_loop time d i else Some (Suc i))"

definition sge_qeti_switch_to_next :: "u32 \<Rightarrow> 'a qeti_ref list \<Rightarrow> 'a qeti_ref list" where
  "sge_qeti_switch_to_next time cref_lp =
     (let time = u32_sub time 1 in
      map (\<lambda>r. case QETI_queue_end_next r of
                 None \<Rightarrow> r
               | Some i \<Rightarrow> r\<lparr>QETI_queue_end_next := prev_loop time (ref_diagram r) i\<rparr>) cref_lp)"

definition map_refs :: "('a qeti_ref list \<Rightarrow> 'a qeti_ref list) \<Rightarrow> 'a sge_qeti \<Rightarrow> 'a sge_qeti" where
  "map_refs f q = \<lparr>cr_refs_pe = f (cr_refs_pe q), cr_refs_global = f (cr_refs_global q),
     cr_refs_host = f (cr_refs_host q), cr_refs_queue = f (cr_refs_queue q)\<rparr>"

definition sge_qeti_next_before :: "u32 \<Rightarrow> 'a sge_qeti \<Rightarrow> 'a sge_qeti" where
  "sge_qeti_next_before start q = map_refs (sge_qeti_switch_to_next start) q"

definition sge_qeti_next :: "'a sge_qeti \<Rightarrow> u32 \<times> 'a sge_qeti" where
  "sge_qeti_next q =
     (let t = DISPATCH_TIME_NOW;
          t = sge_qeti_max_end_time t (cr_refs_pe q);
          t = sge_qeti_max_end_time t (cr_refs_global q);
          t = sge_qeti_max_end_time t (cr_refs_host q);
          t = sge_qeti_max_end_time t (cr_refs_queue q)
      in (t, map_refs (sge_qeti_switch_to_next t) q))"

definition sge_qeti_first :: "'a sge_qeti \<Rightarrow> u32 \<times> 'a sge_qeti" where
  "sge_qeti_first q =
     (let q = map_refs sge_qeti_init_refs q;
          t = 0;
          t = sge_qeti_max_end_time t (cr_refs_pe q);
          t = sge_qeti_max_end_time t (cr_refs_global q);
          t = sge_qeti_max_end_time t (cr_refs_host q);
          t = sge_qeti_max_end_time t (cr_refs_queue q)
      in (t, map_refs (sge_qeti_switch_to_next t) q))"

section \<open>What the cursors stand for\<close>

definition all_refs :: "'a sge_qeti \<Rightarrow> 'a qeti_ref list" where
  "all_refs q = cr_refs_pe q @ cr_refs_global q @ cr_refs_host q @ cr_refs_queue q"

text \<open>The times a reference still has to give, and those of the whole iterator.\<close>

definition ref_times :: "'a qeti_ref \<Rightarrow> nat set" where
  "ref_times r = (case QETI_queue_end_next r of
     None \<Rightarrow> {} | Some i \<Rightarrow> {RDE_time (ref_diagram r ! k) | k. k \<le> i})"

definition times_left :: "'a qeti_ref list \<Rightarrow> nat set" where
  "times_left rs = (\<Union>r \<in> set rs. ref_times r)"

definition ref_ok :: "'a qeti_ref \<Rightarrow> bool" where
  "ref_ok r \<longleftrightarrow> dwf (ref_diagram r) \<and> (\<forall>x \<in> set (ref_diagram r). 0 < RDE_time x \<and> RDE_time x < u32_limit) \<and>
     (case QETI_queue_end_next r of None \<Rightarrow> True | Some i \<Rightarrow> i < length (ref_diagram r))"

definition diagram_times :: "'a sge_qeti \<Rightarrow> nat set" where
  "diagram_times q = (\<Union>r \<in> set (all_refs q). RDE_time ` set (ref_diagram r))"

lemma ref_diagram_next [simp]: "ref_diagram (r\<lparr>QETI_queue_end_next := x\<rparr>) = ref_diagram r"
  by (simp add: ref_diagram_def)

lemma times_left_simps [simp]:
  "times_left [] = {}" "times_left (r # rs) = ref_times r \<union> times_left rs"
  "times_left (rs @ rs') = times_left rs \<union> times_left rs'"
  by (auto simp: times_left_def)

lemma finite_ref_times [simp]: "finite (ref_times r)"
proof (cases "QETI_queue_end_next r")
  case (Some i)
  have "{RDE_time (ref_diagram r ! k) | k. k \<le> i} = (\<lambda>k. RDE_time (ref_diagram r ! k)) ` {..i}" by auto
  then show ?thesis by (simp add: ref_times_def Some)
qed (simp add: ref_times_def)

lemma finite_times_left [simp]: "finite (times_left rs)"
  by (simp add: times_left_def)

lemma dwf_nth: "dwf d \<Longrightarrow> i < j \<Longrightarrow> j < length d \<Longrightarrow> RDE_time (d ! i) < RDE_time (d ! j)"
proof (induction d arbitrary: i j)
  case (Cons x d)
  then show ?case by (cases i; cases j) auto
qed simp

text \<open>The cursor of a reference is at the greatest of its times.\<close>

lemma ref_times_max:
  assumes "ref_ok r" "QETI_queue_end_next r = Some i"
  shows "RDE_time (ref_diagram r ! i) \<in> ref_times r"
    "t \<in> ref_times r \<Longrightarrow> t \<le> RDE_time (ref_diagram r ! i)"
proof -
  show "RDE_time (ref_diagram r ! i) \<in> ref_times r" using assms(2) by (auto simp: ref_times_def)
  assume "t \<in> ref_times r"
  then obtain k where "k \<le> i" "t = RDE_time (ref_diagram r ! k)" using assms(2) by (auto simp: ref_times_def)
  then show "t \<le> RDE_time (ref_diagram r ! i)"
    using assms dwf_nth[of "ref_diagram r" k i] by (cases "k = i") (auto simp: ref_ok_def)
qed

lemma max_end_time_Max:
  "\<forall>r \<in> set rs. ref_ok r \<Longrightarrow> sge_qeti_max_end_time m rs = Max (insert m (times_left rs))"
proof (induction rs arbitrary: m)
  case Nil
  then show ?case by (simp add: sge_qeti_max_end_time_def)
next
  case (Cons r rs)
  define m' where "m' = (case QETI_queue_end_next r of None \<Rightarrow> m
      | Some i \<Rightarrow> max m (RDE_time (ref_diagram r ! i)))"
  have "m' = Max (insert m (ref_times r))"
  proof (cases "QETI_queue_end_next r")
    case None
    then show ?thesis by (simp add: m'_def ref_times_def)
  next
    case (Some i)
    note max = ref_times_max[of r i, OF _ Some]
    have "Max (insert m (ref_times r)) = max m (Max (ref_times r))"
      using max(1) Cons.prems by (subst Max_insert) auto
    also have "Max (ref_times r) = RDE_time (ref_diagram r ! i)"
      using max Cons.prems by (intro Max_eqI) auto
    finally show ?thesis by (simp add: m'_def Some)
  qed
  moreover have "sge_qeti_max_end_time m (r # rs) = sge_qeti_max_end_time m' rs"
    by (simp add: sge_qeti_max_end_time_def m'_def split: option.splits)
  moreover have "Max (insert (Max (insert m (ref_times r))) (times_left rs)) =
      Max (insert m (ref_times r) \<union> times_left rs)"
    by (cases "times_left rs = {}"; cases "ref_times r = {}") (simp_all add: Max_Un max.assoc)
  ultimately show ?case using Cons by simp
qed

lemma prev_loop_times:
  assumes "dwf d"
  shows "i < length d \<Longrightarrow> (case prev_loop time d i of None \<Rightarrow> {}
      | Some j \<Rightarrow> {RDE_time (d ! k) | k. k \<le> j}) = {t \<in> {RDE_time (d ! k) | k. k \<le> i}. t \<le> time} \<and>
    (case prev_loop time d i of None \<Rightarrow> True | Some j \<Rightarrow> j < length d)"
proof (induction i)
  case 0
  then show ?case by auto
next
  case (Suc i)
  show ?case
  proof (cases "time < RDE_time (d ! Suc i)")
    case True
    have "{RDE_time (d ! k) | k. k \<le> Suc i} = insert (RDE_time (d ! Suc i)) {RDE_time (d ! k) | k. k \<le> i}"
      by (auto simp: le_Suc_eq)
    then show ?thesis using Suc True by auto
  next
    case False
    have "RDE_time (d ! k) \<le> time" if "k \<le> Suc i" for k
      using dwf_nth[OF assms, of k "Suc i"] that False Suc.prems by (cases "k = Suc i") auto
    then show ?thesis using False Suc.prems by auto
  qed
qed

lemma switch_ref:
  assumes "ref_ok r" "QETI_queue_end_next r = Some i"
  shows "ref_ok (r\<lparr>QETI_queue_end_next := prev_loop time (ref_diagram r) i\<rparr>) \<and>
    ref_times (r\<lparr>QETI_queue_end_next := prev_loop time (ref_diagram r) i\<rparr>) =
      {t \<in> ref_times r. t \<le> time}"
  using prev_loop_times[of "ref_diagram r" i time] assms
  by (cases "prev_loop time (ref_diagram r) i") (simp_all add: ref_ok_def ref_times_def)

lemma switch_to_next:
  assumes "\<forall>r \<in> set rs. ref_ok r" "time < u32_limit" "time = 0 \<longrightarrow> times_left rs = {}"
  shows "(\<forall>r \<in> set (sge_qeti_switch_to_next time rs). ref_ok r) \<and>
    times_left (sge_qeti_switch_to_next time rs) = {t \<in> times_left rs. t < time}"
  using assms
proof (induction rs)
  case Nil
  then show ?case by (simp add: sge_qeti_switch_to_next_def)
next
  case (Cons r rs)
  let ?sw = "\<lambda>r. case QETI_queue_end_next r of None \<Rightarrow> r
      | Some i \<Rightarrow> r\<lparr>QETI_queue_end_next := prev_loop (u32_sub time (Suc 0)) (ref_diagram r) i\<rparr>"
  have IH: "(\<forall>r \<in> set (sge_qeti_switch_to_next time rs). ref_ok r) \<and>
      times_left (sge_qeti_switch_to_next time rs) = {t \<in> times_left rs. t < time}"
    using Cons by auto
  have "ref_ok (?sw r) \<and> ref_times (?sw r) = {t \<in> ref_times r. t < time}"
  proof (cases "QETI_queue_end_next r")
    case None
    then show ?thesis using Cons.prems by (simp add: ref_times_def)
  next
    case (Some i)
    then have "time \<noteq> 0" using Cons.prems(1,3) ref_times_max(1)[of r i] by auto
    then have "u32_sub time (Suc 0) = time - 1" using Cons.prems(2) by (simp add: u32_arith)
    moreover have "(t \<le> time - 1) = (t < time)" for t using \<open>time \<noteq> 0\<close> by auto
    ultimately show ?thesis using switch_ref[of r i "u32_sub time (Suc 0)"] Cons.prems(1) Some by simp
  qed
  moreover have "sge_qeti_switch_to_next time (r # rs) = ?sw r # sge_qeti_switch_to_next time rs"
    by (simp add: sge_qeti_switch_to_next_def Let_def)
  ultimately show ?case using IH by auto
qed

section \<open>Iterating\<close>

definition qeti_ok :: "'a sge_qeti \<Rightarrow> bool" where
  "qeti_ok q \<longleftrightarrow> (\<forall>r \<in> set (all_refs q). ref_ok r)"

text \<open>Before \<open>sge_qeti_first\<close> the cursors are of no account.\<close>

definition diagrams_ok :: "'a sge_qeti \<Rightarrow> bool" where
  "diagrams_ok q \<longleftrightarrow> (\<forall>r \<in> set (all_refs q). dwf (ref_diagram r) \<and>
     (\<forall>x \<in> set (ref_diagram r). 0 < RDE_time x \<and> RDE_time x < u32_limit))"

fun next_times :: "nat \<Rightarrow> 'a sge_qeti \<Rightarrow> u32 list" where
  "next_times 0 q = []"
| "next_times (Suc n) q = (let (t, q') = sge_qeti_next q in t # next_times n q')"

lemma ref_times_bounds: "ref_ok r \<Longrightarrow> t \<in> ref_times r \<Longrightarrow> 0 < t \<and> t < u32_limit"
  by (fastforce simp: ref_ok_def ref_times_def split: option.splits)

lemma times_left_bounds: "qeti_ok q \<Longrightarrow> t \<in> times_left (all_refs q) \<Longrightarrow> 0 < t \<and> t < u32_limit"
  using ref_times_bounds by (fastforce simp: qeti_ok_def times_left_def)

lemma all_refs_map: "all_refs (map_refs f q) =
    f (cr_refs_pe q) @ f (cr_refs_global q) @ f (cr_refs_host q) @ f (cr_refs_queue q)"
  by (simp add: all_refs_def map_refs_def)

lemma max_end_time_append:
  "sge_qeti_max_end_time (sge_qeti_max_end_time m rs) rs' = sge_qeti_max_end_time m (rs @ rs')"
  by (simp add: sge_qeti_max_end_time_def)

lemma switch_append: "sge_qeti_switch_to_next t (rs @ rs') =
    sge_qeti_switch_to_next t rs @ sge_qeti_switch_to_next t rs'"
  by (simp add: sge_qeti_switch_to_next_def Let_def)

lemma all_refs_switch:
  "all_refs (map_refs (sge_qeti_switch_to_next t) q) = sge_qeti_switch_to_next t (all_refs q)"
  by (simp add: all_refs_map switch_append all_refs_def[of q])

lemma next_step:
  assumes "qeti_ok q" "sge_qeti_next q = (t, q')"
  defines "T \<equiv> times_left (all_refs q)"
  shows "t = Max (insert 0 T) \<and> qeti_ok q' \<and> times_left (all_refs q') = {x \<in> T. x < t}"
proof -
  have t: "t = sge_qeti_max_end_time 0 (all_refs q)"
    "q' = map_refs (sge_qeti_switch_to_next t) q"
    using assms(2) by (auto simp: sge_qeti_next_def Let_def max_end_time_append all_refs_def)
  have ok: "\<forall>r \<in> set (all_refs q). ref_ok r" using assms(1) by (simp add: qeti_ok_def)
  then have m: "t = Max (insert 0 T)" using t(1) by (simp add: max_end_time_Max T_def)
  have fin: "finite (insert 0 T)" by (simp add: T_def)
  have "t \<in> insert 0 T" unfolding m by (rule Max_in[OF fin]) simp
  then have "t < u32_limit" using times_left_bounds[OF assms(1)] by (auto simp: T_def)
  moreover have "t = 0 \<longrightarrow> T = {}"
    using Max_ge[OF fin] times_left_bounds[OF assms(1)] m unfolding T_def by fastforce
  ultimately have "(\<forall>r \<in> set (all_refs q'). ref_ok r) \<and> times_left (all_refs q') = {x \<in> T. x < t}"
    unfolding t(2) all_refs_switch T_def by (intro switch_to_next[OF ok])
  then show ?thesis using m unfolding qeti_ok_def by blast
qed

lemma sorted_list_snoc_Max:
  assumes "finite A" "A \<noteq> {}"
  shows "sorted_list_of_set A = sorted_list_of_set {x \<in> A. x < Max A} @ [Max A :: nat]"
proof (rule strict_sorted_equal)
  have "x = Max A \<or> x < Max A" if "x \<in> A" for x
    using Max_ge[OF assms(1) that] by linarith
  then show "set (sorted_list_of_set A) = set (sorted_list_of_set {x \<in> A. x < Max A} @ [Max A])"
    using assms(1) Max_in[OF assms] by auto
  show "sorted_wrt (<) (sorted_list_of_set {x \<in> A. x < Max A} @ [Max A])"
    using assms(1) by (simp add: sorted_wrt_append)
qed simp

lemma next_times_descend:
  "qeti_ok q \<Longrightarrow> next_times n q =
     take n (rev (sorted_list_of_set (times_left (all_refs q))) @ replicate n 0)"
proof (induction n arbitrary: q)
  case (Suc n)
  obtain t q' where n: "sge_qeti_next q = (t, q')" by (cases "sge_qeti_next q")
  let ?T = "times_left (all_refs q)"
  note step = next_step[OF Suc.prems n]
  have IH: "next_times n q' = take n (rev (sorted_list_of_set {x \<in> ?T. x < t}) @ replicate n 0)"
    using Suc.IH step by simp
  show ?case
  proof (cases "?T = {}")
    case True
    then show ?thesis using n step IH by simp
  next
    case False
    then have "t = Max ?T" using step by simp
    then have "rev (sorted_list_of_set ?T) = t # rev (sorted_list_of_set {x \<in> ?T. x < t})"
      using sorted_list_snoc_Max[OF finite_times_left False] by simp
    then show ?thesis using n IH by (simp add: replicate_append_same[symmetric] del: replicate_Suc)
  qed
qed simp

lemma init_refs:
  assumes "\<forall>r \<in> set rs. dwf (ref_diagram r) \<and>
     (\<forall>x \<in> set (ref_diagram r). 0 < RDE_time x \<and> RDE_time x < u32_limit)"
  shows "(\<forall>r \<in> set (sge_qeti_init_refs rs). ref_ok r) \<and>
    times_left (sge_qeti_init_refs rs) = (\<Union>r \<in> set rs. RDE_time ` set (ref_diagram r))"
proof -
  have "ref_times (r\<lparr>QETI_queue_end_next := last_index (ref_diagram r)\<rparr>) = RDE_time ` set (ref_diagram r)"
    for r :: "'a qeti_ref"
  proof (cases "ref_diagram r = []")
    case False
    then have "k \<le> length (ref_diagram r) - 1 \<longleftrightarrow> k < length (ref_diagram r)" for k
      by (cases "ref_diagram r") auto
    with False show ?thesis by (auto simp: ref_times_def last_index_def set_conv_nth)
  qed (simp add: ref_times_def last_index_def)
  moreover have "ref_ok (r\<lparr>QETI_queue_end_next := last_index (ref_diagram r)\<rparr>)" if "r \<in> set rs" for r
    using assms that by (auto simp: ref_ok_def last_index_def)
  ultimately show ?thesis by (auto simp: sge_qeti_init_refs_def times_left_def)
qed

lemma first_is_next: "sge_qeti_first q = sge_qeti_next (map_refs sge_qeti_init_refs q)"
  by (simp add: sge_qeti_first_def sge_qeti_next_def Let_def)

section \<open>Properties\<close>

definition example_qeti :: "int sge_qeti" where
  "example_qeti = (let r = \<lambda>d. \<lparr>QETI_resource_instance = example_rue\<lparr>RUE_utilized := Some d\<rparr>,
       QETI_queue_end_next = None, QETI_total = 10\<rparr>
     in \<lparr>cr_refs_pe = [r [newResourceElem 3 1, newResourceElem 5 0]], cr_refs_global = [],
         cr_refs_host = [r []],
         cr_refs_queue = [r [newResourceElem 2 4, newResourceElem 3 1, newResourceElem 9 0]]\<rparr>)"

lemma example_qeti_ok: "diagrams_ok example_qeti" "diagram_times example_qeti = {2, 3, 5, 9}"
  by (auto simp: diagrams_ok_def diagram_times_def example_qeti_def all_refs_def ref_diagram_def Let_def)

text \<open>
  C32. \<open>sge_qeti_first\<close> and the following calls of \<open>sge_qeti_next\<close> give every time at which
  one of the diagrams changes exactly once, from the latest to the earliest, and then 0 for
  ever, so the scheduler's search ends.
\<close>

theorem qeti_enumerates_times:
  assumes "diagrams_ok q" "sge_qeti_first q = (t, q')"
  shows "t # next_times n q' =
    take (Suc n) (rev (sorted_list_of_set (diagram_times q)) @ replicate (Suc n) 0)"
proof -
  let ?q = "map_refs sge_qeti_init_refs q"
  have "sge_qeti_init_refs (rs @ rs') = sge_qeti_init_refs rs @ sge_qeti_init_refs rs'"
    for rs rs' :: "'a qeti_ref list" by (simp add: sge_qeti_init_refs_def)
  then have refs: "all_refs ?q = sge_qeti_init_refs (all_refs q)"
    by (simp add: all_refs_map) (simp add: all_refs_def)
  then have ok: "qeti_ok ?q" "times_left (all_refs ?q) = diagram_times q"
    using init_refs[of "all_refs q"] assms(1)
    by (auto simp: qeti_ok_def diagrams_ok_def diagram_times_def)
  have "t # next_times n q' = next_times (Suc n) ?q"
    using assms(2) by (simp add: first_is_next)
  then show ?thesis unfolding next_times_descend[OF ok(1)] ok(2) .
qed

theorem qeti_enumerates_times_witness:
  "\<exists>t q'. sge_qeti_first example_qeti = (t, q') \<and> t # next_times 5 q' = [9, 5, 3, 2, 0, 0]"
proof -
  obtain t q' where f: "sge_qeti_first example_qeti = (t, q')" by (cases "sge_qeti_first example_qeti")
  have "sorted_list_of_set {2, 3, 5, 9 :: nat} = [2, 3, 5, 9]" by simp
  then show ?thesis
    using qeti_enumerates_times[OF example_qeti_ok(1) f, of 5] f example_qeti_ok(2)
    by (simp add: numeral_eq_Suc)
qed

text \<open>
  After \<open>sge_qeti_next_before\<close> the iterator gives the times before the given one and no
  others, in the same order.
\<close>

theorem qeti_next_before_restricts:
  assumes "qeti_ok q" "0 < start" "start < u32_limit"
  shows "qeti_ok (sge_qeti_next_before start q) \<and>
    next_times n (sge_qeti_next_before start q) =
      take n (rev (sorted_list_of_set {t \<in> times_left (all_refs q). t < start}) @ replicate n 0)"
proof -
  have "qeti_ok (sge_qeti_next_before start q) \<and> times_left (all_refs (sge_qeti_next_before start q)) =
      {t \<in> times_left (all_refs q). t < start}"
    using switch_to_next[of "all_refs q" start] assms
    by (simp add: sge_qeti_next_before_def all_refs_switch qeti_ok_def)
  then show ?thesis using next_times_descend[of "sge_qeti_next_before start q" n] by simp
qed

theorem qeti_next_before_restricts_witness:
  "\<exists>q. times_left (all_refs q) = {2, 3, 9} \<and>
     next_times 3 (sge_qeti_next_before 9 (q :: int sge_qeti)) = [3, 2, 0]"
proof -
  define q :: "int sge_qeti" where "q = \<lparr>cr_refs_pe = [\<lparr>QETI_resource_instance = example_rue\<lparr>
      RUE_utilized := Some [newResourceElem 2 4, newResourceElem 3 1, newResourceElem 9 0]\<rparr>,
    QETI_queue_end_next = Some 2, QETI_total = 10\<rparr>], cr_refs_global = [], cr_refs_host = [],
    cr_refs_queue = []\<rparr>"
  have ok: "qeti_ok q" by (simp add: q_def qeti_ok_def all_refs_def ref_ok_def ref_diagram_def)
  have "{f k | k. k \<le> (2::nat)} = {f 0, f 1, f 2}" for f :: "nat \<Rightarrow> nat"
    by (auto simp: le_Suc_eq numeral_2_eq_2)
  then have t: "times_left (all_refs q) = {2, 3, 9}"
    by (simp add: q_def all_refs_def ref_times_def ref_diagram_def)
  have "{t \<in> {2, 3, 9 :: nat}. t < 9} = {2, 3}" by auto
  then show ?thesis using qeti_next_before_restricts[OF ok, of 9 3] t by (intro exI[of _ q]) simp
qed

end
