(* ===== verification/Bitfield.thy ===== *)
theory Bitfield
  imports Id_Set
begin

unbundle bit_operations_syntax

text \<open>
  Bit fields, \<^verbatim>\<open>source/libs/uti/sge_bitfield.c\<close>: the flags of the changed attributes of a
  CULL element. A field of at most \<open>fixed_bits\<close> bits (the size of a pointer) lives in the
  structure itself, a longer one in a buffer of its own; either way the model keeps the bytes.
  A null pointer is \<open>None\<close>. \<open>malloc\<close> is the parameter \<open>alloc\<close>: whether it finds memory.
\<close>

section \<open>Operations\<close>

type_synonym byte = "8 word"

record bitfield =
  bf_size :: nat
  bf_buf :: "byte list"

definition fixed_bits :: nat where
  "fixed_bits = 64"

definition sge_bitfield_get_size_bytes :: "nat \<Rightarrow> nat" where
  "sge_bitfield_get_size_bytes n = n div 8 + (if n mod 8 > 0 then 1 else 0)"

definition sge_bitfield_init :: "bool \<Rightarrow> nat \<Rightarrow> bitfield option" where
  "sge_bitfield_init alloc n =
     (let char_size = sge_bitfield_get_size_bytes n in
      if n \<le> fixed_bits then Some \<lparr>bf_size = n, bf_buf = replicate (fixed_bits div 8) 0\<rparr>
      else if alloc then Some \<lparr>bf_size = n, bf_buf = replicate char_size 0\<rparr> else None)"

definition sge_bitfield_new :: "bool \<Rightarrow> nat \<Rightarrow> bitfield option" where
  "sge_bitfield_new alloc n = sge_bitfield_init alloc n"

text \<open>The operations return their result and the field they change.\<close>

definition sge_bitfield_copy :: "bitfield option \<Rightarrow> bitfield option \<Rightarrow> bool \<times> bitfield option" where
  "sge_bitfield_copy source target =
     (case (source, target) of
        (Some s, Some t) \<Rightarrow>
          if bf_size s \<noteq> bf_size t then (False, target)
          else (let char_size = sge_bitfield_get_size_bytes (bf_size s) in
                (True, Some (t\<lparr>bf_buf :=
                   if bf_size s \<le> fixed_bits then bf_buf s
                   else take char_size (bf_buf s) @ drop char_size (bf_buf t)\<rparr>)))
      | _ \<Rightarrow> (False, target))"

definition sge_bitfield_bitwise_copy ::
  "bitfield option \<Rightarrow> bitfield option \<Rightarrow> bool \<times> bitfield option" where
  "sge_bitfield_bitwise_copy source target =
     (case (source, target) of
        (Some s, Some t) \<Rightarrow>
          (let char_size = sge_bitfield_get_size_bytes
                 (if bf_size s > bf_size t then bf_size t else bf_size s) in
           (True, Some (t\<lparr>bf_buf := take char_size (bf_buf s) @ drop char_size (bf_buf t)\<rparr>)))
      | _ \<Rightarrow> (False, target))"

fun any_byte :: "byte list \<Rightarrow> bool" where
  "any_byte [] = False"
| "any_byte (b # bs) = (if b \<noteq> 0 then True else any_byte bs)"

definition sge_bitfield_changed :: "bitfield option \<Rightarrow> bool" where
  "sge_bitfield_changed bf =
     (case bf of
        None \<Rightarrow> False
      | Some b \<Rightarrow> any_byte (take (sge_bitfield_get_size_bytes (bf_size b)) (bf_buf b)))"

definition sge_bitfield_reset :: "bitfield option \<Rightarrow> bool \<times> bitfield option" where
  "sge_bitfield_reset bf =
     (case bf of
        None \<Rightarrow> (False, None)
      | Some b \<Rightarrow>
          (True, Some (b\<lparr>bf_buf :=
             if bf_size b > fixed_bits
             then (let n = sge_bitfield_get_size_bytes (bf_size b) in
                   replicate n 0 @ drop n (bf_buf b))
             else replicate (fixed_bits div 8) 0\<rparr>)))"

definition sge_bitfield_set :: "bitfield option \<Rightarrow> nat \<Rightarrow> bool \<times> bitfield option" where
  "sge_bitfield_set bf b =
     (case bf of
        None \<Rightarrow> (False, None)
      | Some f \<Rightarrow>
          if b \<ge> bf_size f then (False, bf)
          else (let byte_offset = b div 8; bit_offset = b mod 8 in
                (True, Some (f\<lparr>bf_buf := (bf_buf f)
                   [byte_offset := bf_buf f ! byte_offset OR push_bit bit_offset 1]\<rparr>))))"

definition sge_bitfield_get :: "bitfield option \<Rightarrow> nat \<Rightarrow> bool" where
  "sge_bitfield_get bf b =
     (case bf of
        None \<Rightarrow> False
      | Some f \<Rightarrow>
          b < bf_size f \<and> bf_buf f ! (b div 8) AND push_bit (b mod 8) 1 \<noteq> 0)"

definition sge_bitfield_clear :: "bitfield option \<Rightarrow> nat \<Rightarrow> bool \<times> bitfield option" where
  "sge_bitfield_clear bf b =
     (case bf of
        None \<Rightarrow> (False, None)
      | Some f \<Rightarrow>
          if b \<ge> bf_size f then (False, bf)
          else (let byte_offset = b div 8; bit_offset = b mod 8 in
                (True, Some (f\<lparr>bf_buf := (bf_buf f)
                   [byte_offset := bf_buf f ! byte_offset AND (255 XOR push_bit bit_offset 1)]\<rparr>))))"

section \<open>The set of bits\<close>

definition bits_of :: "bitfield \<Rightarrow> nat set" where
  "bits_of f = {i. i < bf_size f \<and> bit (bf_buf f ! (i div 8)) (i mod 8)}"

text \<open>
  The buffer holds the bits; no bit behind the size is set in its last byte. \<open>clean\<close> says the
  second: a copy from a longer field can break it.
\<close>

definition bf_wf :: "bitfield \<Rightarrow> bool" where
  "bf_wf f \<longleftrightarrow> (if bf_size f \<le> fixed_bits then length (bf_buf f) = fixed_bits div 8
     else length (bf_buf f) = sge_bitfield_get_size_bytes (bf_size f))"

definition clean :: "bitfield \<Rightarrow> bool" where
  "clean f \<longleftrightarrow> (\<forall>i. bf_size f \<le> i \<and> i < 8 * sge_bitfield_get_size_bytes (bf_size f) \<longrightarrow>
     \<not> bit (bf_buf f ! (i div 8)) (i mod 8))"

lemma size_bytes: "b < 8 * sge_bitfield_get_size_bytes n \<longleftrightarrow> b div 8 < sge_bitfield_get_size_bytes n"
  by auto

lemma size_bytes_eq: "sge_bitfield_get_size_bytes n = (n + 7) div 8"
  unfolding sge_bitfield_get_size_bytes_def by (cases "n mod 8 > 0") (simp, presburger)+

lemma size_bytes_le: "n \<le> 8 * sge_bitfield_get_size_bytes n"
  unfolding size_bytes_eq by presburger

lemma size_bytes_mono: "m \<le> n \<Longrightarrow> sge_bitfield_get_size_bytes m \<le> sge_bitfield_get_size_bytes n"
  by (simp add: size_bytes_eq div_le_mono)

lemma bf_wf_length:
  assumes "bf_wf f"
  shows "sge_bitfield_get_size_bytes (bf_size f) \<le> length (bf_buf f)"
  using assms size_bytes_mono[of "bf_size f" fixed_bits]
  by (auto simp: bf_wf_def fixed_bits_def sge_bitfield_get_size_bytes_def split: if_splits)

lemma offset_less: "bf_wf f \<Longrightarrow> b < bf_size f \<Longrightarrow> b div 8 < length (bf_buf f)"
  using bf_wf_length[of f] size_bytes_le[of "bf_size f"] size_bytes[of b "bf_size f"] by linarith

lemma bit_of_byte: "bit (x :: byte) n \<longleftrightarrow> x AND push_bit n 1 \<noteq> 0"
  by (rule bit_iff_and_push_bit_not_eq_0)

lemma get_bits: "bf_wf f \<Longrightarrow> sge_bitfield_get (Some f) b \<longleftrightarrow> b \<in> bits_of f"
  by (simp add: sge_bitfield_get_def bits_of_def bit_of_byte)

lemma byte_set: "n < 8 \<Longrightarrow> bit (x OR push_bit m 1 :: byte) n \<longleftrightarrow> bit x n \<or> n = m"
  by (auto simp: bit_simps)

lemma byte_clear: "n < 8 \<Longrightarrow> m < 8 \<Longrightarrow> bit (x AND (255 XOR push_bit m 1) :: byte) n \<longleftrightarrow> bit x n \<and> n \<noteq> m"
proof -
  assume nm: "n < 8" "m < 8"
  have e: "(255 :: byte) = mask 8" by (simp add: mask_eq_exp_minus_1)
  show ?thesis
    unfolding e bit_and_iff bit_xor_iff bit_push_bit_iff bit_mask_iff using nm by (auto simp: bit_simps)
qed

lemma div_mod_eq: "i div 8 = b div 8 \<and> i mod 8 = b mod 8 \<longleftrightarrow> i = (b :: nat)"
  by (metis div_mult_mod_eq)

section \<open>Setting and clearing\<close>

text \<open>Every bit of the buffer, of the size or behind it.\<close>

definition raw_bit :: "bitfield \<Rightarrow> nat \<Rightarrow> bool" where
  "raw_bit f i \<longleftrightarrow> bit (bf_buf f ! (i div 8)) (i mod 8)"

lemma bits_raw: "bits_of f = {i. i < bf_size f \<and> raw_bit f i}"
  by (simp add: bits_of_def raw_bit_def)

lemma clean_raw: "clean f \<longleftrightarrow> (\<forall>i. bf_size f \<le> i \<and> i < 8 * sge_bitfield_get_size_bytes (bf_size f) \<longrightarrow>
     \<not> raw_bit f i)"
  by (simp add: clean_def raw_bit_def)

lemma raw_bit_byte:
  assumes "b div 8 < length (bf_buf f)"
    and "\<And>i. i < 8 \<Longrightarrow> bit x i \<longleftrightarrow> (if i = b mod 8 then v else bit (bf_buf f ! (b div 8)) i)"
  shows "raw_bit (f\<lparr>bf_buf := (bf_buf f)[b div 8 := x]\<rparr>) i \<longleftrightarrow> (if i = b then v else raw_bit f i)"
proof (cases "i div 8 = b div 8")
  case True
  then have "i mod 8 = b mod 8 \<longleftrightarrow> i = b" using div_mod_eq[of i b] by simp
  then show ?thesis using True assms(1) assms(2)[of "i mod 8"] by (simp add: raw_bit_def)
next
  case False
  then have "i \<noteq> b" by auto
  with False show ?thesis using assms(1) by (simp add: raw_bit_def)
qed

lemma raw_bit_update:
  assumes "b div 8 < length (bf_buf f)"
  shows "raw_bit (f\<lparr>bf_buf := (bf_buf f)[b div 8 := bf_buf f ! (b div 8) OR push_bit (b mod 8) 1]\<rparr>) i
      \<longleftrightarrow> (if i = b then True else raw_bit f i)"
    "raw_bit (f\<lparr>bf_buf := (bf_buf f)[b div 8 := bf_buf f ! (b div 8) AND (255 XOR push_bit (b mod 8) 1)]\<rparr>) i
      \<longleftrightarrow> (if i = b then False else raw_bit f i)"
   by (rule raw_bit_byte[OF assms], subst byte_set, assumption, simp)
      (rule raw_bit_byte[OF assms], subst byte_clear, assumption, simp_all)

lemma bf_wf_cong: "length (bf_buf f) = length (bf_buf g) \<Longrightarrow> bf_size f = bf_size g \<Longrightarrow> bf_wf f = bf_wf g"
  by (simp add: bf_wf_def)

lemma set_bits:
  assumes "bf_wf f" "clean f" "b < bf_size f"
  shows "\<exists>f'. sge_bitfield_set (Some f) b = (True, Some f') \<and> bf_wf f' \<and> clean f' \<and>
    bf_size f' = bf_size f \<and> bits_of f' = insert b (bits_of f)"
proof -
  let ?f' = "f\<lparr>bf_buf := (bf_buf f)[b div 8 := bf_buf f ! (b div 8) OR push_bit (b mod 8) 1]\<rparr>"
  note up = raw_bit_update(1)[OF offset_less[OF assms(1,3)]]
  have "sge_bitfield_set (Some f) b = (True, Some ?f')"
    using assms(3) by (simp add: sge_bitfield_set_def Let_def)
  moreover have "bf_wf ?f'" "bf_size ?f' = bf_size f" using assms(1) by (simp_all add: bf_wf_def)
  moreover have "clean ?f'" using assms(2,3) unfolding clean_raw up by auto
  moreover have "bits_of ?f' = insert b (bits_of f)" using assms(3) unfolding bits_raw up by auto
  ultimately show ?thesis by blast
qed

lemma clear_bits:
  assumes "bf_wf f" "clean f" "b < bf_size f"
  shows "\<exists>f'. sge_bitfield_clear (Some f) b = (True, Some f') \<and> bf_wf f' \<and> clean f' \<and>
    bf_size f' = bf_size f \<and> bits_of f' = bits_of f - {b}"
proof -
  let ?f' = "f\<lparr>bf_buf := (bf_buf f)[b div 8 := bf_buf f ! (b div 8) AND (255 XOR push_bit (b mod 8) 1)]\<rparr>"
  note up = raw_bit_update(2)[OF offset_less[OF assms(1,3)]]
  have "sge_bitfield_clear (Some f) b = (True, Some ?f')"
    using assms(3) by (simp add: sge_bitfield_clear_def Let_def)
  moreover have "bf_wf ?f'" "bf_size ?f' = bf_size f" using assms(1) by (simp_all add: bf_wf_def)
  moreover have "clean ?f'" using assms(2) unfolding clean_raw up by auto
  moreover have "bits_of ?f' = bits_of f - {b}" unfolding bits_raw up by auto
  ultimately show ?thesis by blast
qed

text \<open>A bit field of size \<open>n\<close> provides the interface of a set of ids below \<open>n\<close>.\<close>

definition on_field :: "(bitfield option \<Rightarrow> nat \<Rightarrow> bool \<times> bitfield option) \<Rightarrow> bitfield \<Rightarrow> nat \<Rightarrow>
    bitfield option" where
  "on_field step f b = (case step (Some f) b of (True, f') \<Rightarrow> f' | (False, _) \<Rightarrow> None)"

definition bf_inv :: "nat \<Rightarrow> bitfield \<Rightarrow> bool" where
  "bf_inv n f \<longleftrightarrow> bf_wf f \<and> clean f \<and> bf_size f = n"

interpretation field_ids: id_set "bf_inv n" bits_of n "on_field sge_bitfield_set"
  "on_field sge_bitfield_clear" "\<lambda>f. f" "\<lambda>f b. Some (sge_bitfield_get (Some f) b)" for n
proof unfold_locales
  fix f :: bitfield and b :: nat
  assume f: "bf_inv n f"
  then show "bf_inv n f \<and> bits_of f = bits_of f" by simp
  show "Some (sge_bitfield_get (Some f) b) = Some (b \<in> bits_of f)"
    using f get_bits by (simp add: bf_inv_def)
  assume b: "b < n"
  show "\<exists>f'. on_field sge_bitfield_set f b = Some f' \<and> bf_inv n f' \<and> bits_of f' = insert b (bits_of f)"
    using set_bits[of f b] f b by (auto simp: on_field_def bf_inv_def)
  show "\<exists>f'. on_field sge_bitfield_clear f b = Some f' \<and> bf_inv n f' \<and> bits_of f' = bits_of f - {b}"
    using clear_bits[of f b] f b by (auto simp: on_field_def bf_inv_def)
qed

section \<open>Whole fields\<close>

lemma init_bits:
  assumes "sge_bitfield_init alloc n = Some f"
  shows "bf_wf f \<and> clean f \<and> bf_size f = n \<and> bits_of f = {}"
proof -
  have f: "f = \<lparr>bf_size = n, bf_buf = replicate (if n \<le> fixed_bits then fixed_bits div 8
      else sge_bitfield_get_size_bytes n) 0\<rparr>"
    using assms by (auto simp: sge_bitfield_init_def Let_def split: if_splits)
  then have wf: "bf_wf f" by (simp add: bf_wf_def)
  then have "\<not> raw_bit f i" if "i < 8 * sge_bitfield_get_size_bytes n" for i
    using that bf_wf_length[OF wf] f by (auto simp: raw_bit_def size_bytes)
  then show ?thesis
    using wf f size_bytes_le[of n] by (auto simp: clean_raw bits_raw)
qed

lemma any_byte_ex: "any_byte bs \<longleftrightarrow> (\<exists>i < 8 * length bs. bit (bs ! (i div 8)) (i mod 8))"
proof -
  have "b \<noteq> 0 \<longleftrightarrow> (\<exists>k < 8. bit (b :: byte) k)" for b
    by (metis bit_0_eq bit_word_eqI bot_apply bot_bool_def len_num1 len_bit0 mult_2 numeral_Bit0 one_add_one)
  moreover have "any_byte bs \<longleftrightarrow> (\<exists>j < length bs. bs ! j \<noteq> 0)"
    by (induction bs) (auto simp: less_Suc_eq_0_disj)
  moreover have "(\<exists>j < length bs. \<exists>k < 8. bit (bs ! j) k) \<longleftrightarrow>
      (\<exists>i < 8 * length bs. bit (bs ! (i div 8)) (i mod 8))"
  proof safe
    fix j k assume "j < length bs" "k < 8" "bit (bs ! j) k"
    then show "\<exists>i < 8 * length bs. bit (bs ! (i div 8)) (i mod 8)"
      by (intro exI[of _ "8 * j + k"]) auto
  next
    fix i assume "i < 8 * length bs" "bit (bs ! (i div 8)) (i mod 8)"
    then show "\<exists>j < length bs. \<exists>k < 8. bit (bs ! j) k"
      by (intro exI[of _ "i div 8"] conjI exI[of _ "i mod 8"]) auto
  qed
  ultimately show ?thesis by simp
qed

lemma changed_raw:
  assumes "bf_wf f"
  shows "sge_bitfield_changed (Some f) \<longleftrightarrow>
    (\<exists>i < 8 * sge_bitfield_get_size_bytes (bf_size f). raw_bit f i)"
  using bf_wf_length[OF assms]
  by (auto simp: sge_bitfield_changed_def any_byte_ex raw_bit_def size_bytes min_def)

lemma changed_bits: "bf_wf f \<Longrightarrow> clean f \<Longrightarrow> sge_bitfield_changed (Some f) \<longleftrightarrow> bits_of f \<noteq> {}"
  using size_bytes_le[of "bf_size f"]
  by (auto simp: changed_raw clean_raw bits_raw) (meson less_le_trans not_le)+

lemma bitwise_copy_raw:
  assumes "bf_wf s" "bf_wf t"
  defines "m \<equiv> sge_bitfield_get_size_bytes (min (bf_size s) (bf_size t))"
  shows "\<exists>t'. sge_bitfield_bitwise_copy (Some s) (Some t) = (True, Some t') \<and> bf_wf t' \<and>
    bf_size t' = bf_size t \<and> (\<forall>i. raw_bit t' i \<longleftrightarrow> (if i < 8 * m then raw_bit s i else raw_bit t i))"
proof -
  let ?t' = "t\<lparr>bf_buf := take m (bf_buf s) @ drop m (bf_buf t)\<rparr>"
  have le: "m \<le> length (bf_buf s)" "m \<le> length (bf_buf t)"
    using bf_wf_length[OF assms(1)] bf_wf_length[OF assms(2)]
      size_bytes_mono[of "min (bf_size s) (bf_size t)" "bf_size s"]
      size_bytes_mono[of "min (bf_size s) (bf_size t)" "bf_size t"] by (simp_all add: m_def)
  then have "length (bf_buf ?t') = length (bf_buf t)" by simp
  then have "bf_wf ?t'" using assms(2) bf_wf_cong[of ?t' t] by simp
  moreover have "sge_bitfield_bitwise_copy (Some s) (Some t) = (True, Some ?t')"
    by (auto simp: sge_bitfield_bitwise_copy_def m_def min_def not_le Let_def)
  moreover have "raw_bit ?t' i \<longleftrightarrow> (if i < 8 * m then raw_bit s i else raw_bit t i)" for i
  proof (cases "i div 8 < m")
    case True
    then show ?thesis using le by (auto simp: raw_bit_def nth_append)
  next
    case False
    then show ?thesis using le by (auto simp: raw_bit_def nth_append)
  qed
  ultimately show ?thesis by auto
qed

section \<open>Properties\<close>



text \<open>
  Copying a field onto one at least as long takes over its bits. The bytes that hold them
  are copied whole: the target loses what it had in the rest of the last byte, and keeps its
  bits behind that byte.
\<close>

theorem bitwise_copy_to_longer:
  assumes "bf_wf s" "clean s" "bf_wf t" "clean t" "bf_size s \<le> bf_size t"
  shows "\<exists>t'. sge_bitfield_bitwise_copy (Some s) (Some t) = (True, Some t') \<and>
    bf_wf t' \<and> clean t' \<and> bf_size t' = bf_size t \<and>
    bits_of t' = bits_of s \<union> {i \<in> bits_of t. 8 * sge_bitfield_get_size_bytes (bf_size s) \<le> i}"
proof -
  let ?m = "sge_bitfield_get_size_bytes (bf_size s)"
  obtain t' where t': "sge_bitfield_bitwise_copy (Some s) (Some t) = (True, Some t')" "bf_wf t'"
      "bf_size t' = bf_size t"
      "\<forall>i. raw_bit t' i \<longleftrightarrow> (if i < 8 * ?m then raw_bit s i else raw_bit t i)"
    using bitwise_copy_raw[OF assms(1,3)] assms(5) by (auto simp: min_def)
  have raw: "raw_bit t' i \<longleftrightarrow> (if i < 8 * ?m then raw_bit s i else raw_bit t i)" for i
    using t'(4) by simp
  have "clean t'"
    using assms(2,4,5) t'(3) unfolding clean_raw raw by auto
  moreover have "bits_of t' = bits_of s \<union> {i \<in> bits_of t. 8 * ?m \<le> i}"
    using assms(2,5) t'(3) size_bytes_le[of "bf_size s"] unfolding bits_raw clean_raw raw
    by (auto simp: not_less)
  ultimately show ?thesis using t' by blast
qed

theorem bitwise_copy_to_longer_witness:
  "\<exists>s t t'. sge_bitfield_init True 4 = Some s \<and> sge_bitfield_init True 80 = Some t \<and>
     sge_bitfield_bitwise_copy (Some s) (Some t) = (True, Some t') \<and> bits_of t' = {}"
proof -
  obtain s t where st: "sge_bitfield_init True 4 = Some s" "sge_bitfield_init True 80 = Some t"
    by (simp add: sge_bitfield_init_def fixed_bits_def Let_def)
  note i = init_bits[OF st(1)] init_bits[OF st(2)]
  then show ?thesis using bitwise_copy_to_longer[of s t] st by auto
qed

lemma eight_bytes: "replicate 8 (0 :: byte) = [0, 0, 0, 0, 0, 0, 0, 0]"
  by (simp add: eval_nat_numeral)

lemma init_short:
  "n \<le> 64 \<Longrightarrow> sge_bitfield_init True n = Some \<lparr>bf_size = n, bf_buf = [0, 0, 0, 0, 0, 0, 0, 0]\<rparr>"
  by (simp add: sge_bitfield_init_def fixed_bits_def eight_bytes)

lemma set_5:
  "sge_bitfield_set (Some \<lparr>bf_size = 8, bf_buf = [0, 0, 0, 0, 0, 0, 0, 0]\<rparr>) 5 =
     (True, Some \<lparr>bf_size = 8, bf_buf = [32, 0, 0, 0, 0, 0, 0, 0]\<rparr>)"
  by (simp add: sge_bitfield_set_def)

lemma low_bits_32: "b < 4 \<Longrightarrow> \<not> bit (32 :: byte) b"
proof -
  assume "b < 4"
  then consider "b = 0" | "b = 1" | "b = 2" | "b = 3" by linarith
  then show ?thesis by cases simp_all
qed

text \<open>
  Copying onto a shorter field can leave bits behind its size, as a comment in
  \<open>sge_bitfield_bitwise_copy\<close> says; but they do matter. With bit 5 of eight copied onto a field
  of four bits, no bit of the target can be read as set, and it still counts as changed.
\<close>

theorem bitwise_copy_to_shorter_leaves_change:
  "\<exists>t. sge_bitfield_bitwise_copy (snd (sge_bitfield_set (sge_bitfield_init True 8) 5))
       (sge_bitfield_init True 4) = (True, Some t) \<and>
     (\<forall>b. \<not> sge_bitfield_get (Some t) b) \<and> sge_bitfield_changed (Some t)"
proof -
  let ?t = "\<lparr>bf_size = 4, bf_buf = [32, 0, 0, 0, 0, 0, 0, 0]\<rparr>"
  have t: "sge_bitfield_bitwise_copy (snd (sge_bitfield_set (sge_bitfield_init True 8) 5))
      (sge_bitfield_init True 4) = (True, Some ?t)"
    by (simp add: init_short set_5 sge_bitfield_bitwise_copy_def sge_bitfield_get_size_bytes_def)
  have wf: "bf_wf ?t" by (simp add: bf_wf_def fixed_bits_def)
  have "\<not> sge_bitfield_get (Some ?t) b" for b
    using low_bits_32[of b] by (auto simp: get_bits[OF wf] bits_of_def)
  moreover have "sge_bitfield_changed (Some ?t)"
    by (simp add: sge_bitfield_changed_def sge_bitfield_get_size_bytes_def)
  ultimately show ?thesis using t by blast
qed

end
