(* ===== verification/Fifo_Lock.thy ===== *)
theory Fifo_Lock
  imports Prelude
begin

text \<open>
  The first-in first-out read/write lock, \<^verbatim>\<open>source/libs/uti/sge_lock_fifo.c\<close>. A call of
  \<open>sge_fifo_lock\<close> runs under the mutex of the lock except while it waits on a condition variable,
  so it is cut at its \<open>pthread_cond_wait\<close> calls into segments, each a function on the lock:
  entering, resuming outside the queue, resuming in the queue. A step relation interleaves the
  segments of any number of requests. The \<open>pthread\<close> calls follow POSIX: a signal wakes at least
  one thread that waits on the condition, and a wait may also return without one.
\<close>

section \<open>The lock and its operations\<close>

definition FIFO_LOCK_QUEUE_LENGTH :: nat where
  "FIFO_LOCK_QUEUE_LENGTH = 64"

record sge_fifo_elem =
  is_reader :: bool
  is_signaled :: bool

record sge_fifo_rw_lock =
  lk_array :: "sge_fifo_elem list"
  lk_head :: nat
  lk_tail :: nat
  lk_size :: nat
  reader_active :: int
  reader_waiting :: int
  writer_active :: int
  writer_waiting :: int
  lk_waiting :: int
  signaled :: int

text \<open>
  \<open>mem\<close> is the array that \<open>malloc\<close> returns with its old content, \<open>lret\<dots>\<close> are the results of the
  \<open>pthread_\<dots>_init\<close> calls.
\<close>

fun init_array :: "int list \<Rightarrow> sge_fifo_elem list \<Rightarrow> int \<times> sge_fifo_elem list" where
  "init_array (lret # lrets) (e # es) =
     (let e' = e\<lparr>is_reader := False, is_signaled := False\<rparr> in
      if lret \<noteq> 0 then (lret, e' # es)
      else (let (l, es') = init_array lrets es in (l, e' # es')))"
| "init_array lrets es = (0, es)"

definition sge_fifo_lock_init ::
  "int \<Rightarrow> sge_fifo_elem list option \<Rightarrow> int list \<Rightarrow> int \<Rightarrow> sge_fifo_rw_lock \<Rightarrow> bool \<times> sge_fifo_rw_lock" where
  "sge_fifo_lock_init lret_mutex mem lret_conds lret_cond lock =
     (if lret_mutex = 0 then
        (case mem of
           None \<Rightarrow> (False, lock\<lparr>lk_array := []\<rparr>)
         | Some es \<Rightarrow>
             (let (lret, es') = init_array lret_conds es; lock' = lock\<lparr>lk_array := es'\<rparr> in
              if lret = 0 then
                if lret_cond = 0 then
                  (True, lock'\<lparr>lk_head := 0, lk_tail := 0, lk_size := FIFO_LOCK_QUEUE_LENGTH,
                     reader_active := 0, reader_waiting := 0, writer_active := 0,
                     writer_waiting := 0, lk_waiting := 0, signaled := 0\<rparr>)
                else (False, lock')
              else (False, lock')))
      else (False, lock))"

text \<open>
  Where a segment of \<open>sge_fifo_lock\<close> stops: at the wait outside the queue, at the wait in a slot
  of the queue, or at the end of the function, which then returns the given truth value.
\<close>

datatype outcome = Waits_Outside | Waits_In_Queue nat | Returns bool

text \<open>The condition variables: one of each slot of the queue, and the one of the lock.\<close>

datatype cond_var = Slot_Cond nat | Lock_Cond

definition add_waiting :: "bool \<Rightarrow> int \<Rightarrow> sge_fifo_rw_lock \<Rightarrow> sge_fifo_rw_lock" where
  "add_waiting rd d lock =
     (if rd then lock\<lparr>reader_waiting := reader_waiting lock + d\<rparr>
      else lock\<lparr>writer_waiting := writer_waiting lock + d\<rparr>)"

definition take_lock :: "bool \<Rightarrow> sge_fifo_rw_lock \<Rightarrow> sge_fifo_rw_lock" where
  "take_lock rd lock =
     (if rd then lock\<lparr>reader_active := reader_active lock + 1\<rparr>
      else lock\<lparr>writer_active := writer_active lock + 1\<rparr>)"

definition signal_head :: "sge_fifo_rw_lock \<Rightarrow> sge_fifo_rw_lock" where
  "signal_head lock =
     lock\<lparr>lk_array := (lk_array lock)[lk_head lock := (lk_array lock ! lk_head lock)\<lparr>is_signaled := True\<rparr>],
          signaled := signaled lock + 1\<rparr>"

text \<open>From the test for a full queue to the first wait or the end of the function.\<close>

definition fifo_enter :: "int \<Rightarrow> bool \<Rightarrow> sge_fifo_rw_lock \<Rightarrow> outcome \<times> sge_fifo_rw_lock" where
  "fifo_enter lret_unlock rd lock =
     (if reader_waiting lock + writer_waiting lock = int FIFO_LOCK_QUEUE_LENGTH then
        (Waits_Outside, lock\<lparr>lk_waiting := lk_waiting lock + 1\<rparr>)
      else if (if rd then writer_active lock + writer_waiting lock + signaled lock > 0
               else writer_active lock + reader_active lock + signaled lock > 0) then
        (let index = lk_tail lock;
             tail = (if index + 1 = lk_size lock then 0 else index + 1);
             lock1 = lock\<lparr>lk_tail := tail,
               lk_array := (lk_array lock)[index := \<lparr>is_reader = rd, is_signaled = False\<rparr>]\<rparr>
         in (Waits_In_Queue index, add_waiting rd 1 lock1))
      else (Returns (lret_unlock = 0), take_lock rd lock))"

text \<open>\<open>sge_fifo_lock\<close> from its call; \<open>lret\<close> is the result of \<open>pthread_mutex_lock\<close>.\<close>

definition fifo_call :: "int \<Rightarrow> int \<Rightarrow> bool \<Rightarrow> sge_fifo_rw_lock \<Rightarrow> outcome \<times> sge_fifo_rw_lock" where
  "fifo_call lret lret_unlock rd lock =
     (if lret = 0 then fifo_enter lret_unlock rd lock else (Returns False, lock))"

text \<open>\<open>sge_fifo_lock\<close> when its wait outside the queue returns.\<close>

definition fifo_resume_outside :: "int \<Rightarrow> bool \<Rightarrow> sge_fifo_rw_lock \<Rightarrow> outcome \<times> sge_fifo_rw_lock" where
  "fifo_resume_outside lret_unlock rd lock =
     fifo_enter lret_unlock rd (lock\<lparr>lk_waiting := lk_waiting lock - 1\<rparr>)"

text \<open>
  \<open>sge_fifo_lock\<close> when its wait in slot \<open>index\<close> returns; also the conditions it signals, in
  their order.
\<close>

definition fifo_resume_queued ::
  "int \<Rightarrow> nat \<Rightarrow> bool \<Rightarrow> sge_fifo_rw_lock \<Rightarrow> outcome \<times> sge_fifo_rw_lock \<times> cond_var list" where
  "fifo_resume_queued lret_unlock index rd lock =
     (let lock1 = add_waiting rd (-1) lock in
      if \<not> is_signaled (lk_array lock1 ! index) then
        (Waits_In_Queue index, add_waiting rd 1 lock1, [])
      else
        (let lock2 = lock1\<lparr>signaled := signaled lock1 - 1\<rparr>;
             index = lk_head lock2;
             lock3 = lock2\<lparr>lk_head := (if index + 1 = lk_size lock2 then 0 else index + 1)\<rparr>;
             wake_next = is_reader (lk_array lock3 ! index) \<and> reader_waiting lock3 > 0 \<and>
               is_reader (lk_array lock3 ! lk_head lock3);
             lock4 = (if wake_next then signal_head lock3 else lock3);
             lock5 = lock4\<lparr>lk_array :=
               (lk_array lock4)[index := \<lparr>is_reader = False, is_signaled = False\<rparr>]\<rparr>
         in (Returns (lret_unlock = 0), take_lock rd lock5,
             (if wake_next then [Slot_Cond (lk_head lock3)] else []) @
             (if lk_waiting lock4 > 0 then [Lock_Cond] else []))))"

definition sge_fifo_ulock ::
  "int \<Rightarrow> int \<Rightarrow> bool \<Rightarrow> sge_fifo_rw_lock \<Rightarrow> bool \<times> sge_fifo_rw_lock \<times> cond_var list" where
  "sge_fifo_ulock lret lret_unlock rd lock =
     (if lret = 0 then
        (let lock1 = (if rd then lock\<lparr>reader_active := reader_active lock - 1\<rparr>
                      else lock\<lparr>writer_active := writer_active lock - 1\<rparr>);
             notify = reader_active lock1 + writer_active lock1 + signaled lock1 = 0 \<and>
               reader_waiting lock1 + writer_waiting lock1 > 0
         in (lret_unlock = 0, if notify then signal_head lock1 else lock1,
             if notify then [Slot_Cond (lk_head lock1)] else []))
      else (False, lock, []))"

section \<open>Interleaved requests\<close>

text \<open>
  A request (one call of \<open>sge_fifo_lock\<close>, up to the call of \<open>sge_fifo_ulock\<close> that belongs to it;
  a thread may have several) is in one of these phases.
\<close>

datatype phase = Idle | Outside bool | Queued nat bool | Holding bool

text \<open>\<open>woken\<close> holds the requests whose wait was signaled and has not returned yet.\<close>

record 't system =
  lock :: sge_fifo_rw_lock
  ph :: "'t \<Rightarrow> phase"
  woken :: "'t set"

fun phase_of :: "bool \<Rightarrow> outcome \<Rightarrow> phase" where
  "phase_of rd Waits_Outside = Outside rd"
| "phase_of rd (Waits_In_Queue i) = Queued i rd"
| "phase_of rd (Returns ok) = Holding rd"

fun waits_on :: "cond_var \<Rightarrow> phase \<Rightarrow> bool" where
  "waits_on (Slot_Cond i) (Queued j rd) = (i = j)"
| "waits_on Lock_Cond (Outside rd) = True"
| "waits_on _ _ = False"

text \<open>\<open>pthread_cond_signal\<close>: the requests \<open>W\<close> that the signals wake.\<close>

definition signal_wakes :: "cond_var list \<Rightarrow> ('t \<Rightarrow> phase) \<Rightarrow> 't set \<Rightarrow> bool" where
  "signal_wakes sigs p W \<longleftrightarrow>
     (\<forall>c \<in> set sigs. (\<exists>t. waits_on c (p t)) \<longrightarrow> (\<exists>t \<in> W. waits_on c (p t)))"

text \<open>The steps of a system whose mutex calls succeed.\<close>

inductive lock_step :: "'t system \<Rightarrow> 't system \<Rightarrow> bool" where
  call: "ph s t = Idle \<Longrightarrow> fifo_call 0 0 rd (lock s) = (out, lk) \<Longrightarrow>
    lock_step s (s\<lparr>lock := lk, ph := (ph s)(t := phase_of rd out)\<rparr>)"
| outside: "ph s t = Outside rd \<Longrightarrow> fifo_resume_outside 0 rd (lock s) = (out, lk) \<Longrightarrow>
    lock_step s (s\<lparr>lock := lk, ph := (ph s)(t := phase_of rd out), woken := woken s - {t}\<rparr>)"
| queued: "ph s t = Queued i rd \<Longrightarrow> fifo_resume_queued 0 i rd (lock s) = (out, lk, sigs) \<Longrightarrow>
    p = (ph s)(t := phase_of rd out) \<Longrightarrow> signal_wakes sigs p W \<Longrightarrow>
    lock_step s (s\<lparr>lock := lk, ph := p, woken := (woken s - {t}) \<union> W\<rparr>)"
| unlock: "ph s t = Holding rd \<Longrightarrow> sge_fifo_ulock 0 0 rd (lock s) = (ok, lk, sigs) \<Longrightarrow>
    p = (ph s)(t := Idle) \<Longrightarrow> signal_wakes sigs p W \<Longrightarrow>
    lock_step s (s\<lparr>lock := lk, ph := p, woken := woken s \<union> W\<rparr>)"

inductive lock_reachable :: "'t system \<Rightarrow> bool" where
  start: "sge_fifo_lock_init 0 (Some mem) lrets 0 lk0 = (True, lk) \<Longrightarrow>
    length mem = FIFO_LOCK_QUEUE_LENGTH \<Longrightarrow> length lrets = FIFO_LOCK_QUEUE_LENGTH \<Longrightarrow>
    lock_reachable \<lparr>lock = lk, ph = (\<lambda>_. Idle), woken = {}\<rparr>"
| step: "lock_reachable s \<Longrightarrow> lock_step s s' \<Longrightarrow> lock_reachable s'"

section \<open>What the lock promises\<close>

text \<open>
  The specification: a queue of requests with their kinds, the requests that hold the lock for
  reading and for writing. A request gets the lock at once only when nobody waits; a waiting
  one only when it is the first.
\<close>

record 't fifo_spec =
  sq :: "('t \<times> bool) list"
  rds :: "'t set"
  wrs :: "'t set"

definition holds_lock :: "'t \<Rightarrow> bool \<Rightarrow> 't fifo_spec \<Rightarrow> 't fifo_spec" where
  "holds_lock t rd a = (if rd then a\<lparr>rds := insert t (rds a)\<rparr> else a\<lparr>wrs := insert t (wrs a)\<rparr>)"

definition may_hold :: "bool \<Rightarrow> 't fifo_spec \<Rightarrow> bool" where
  "may_hold rd a \<longleftrightarrow> wrs a = {} \<and> (rd \<or> rds a = {})"

inductive spec_step :: "'t fifo_spec \<Rightarrow> 't fifo_spec \<Rightarrow> bool" where
  spec_direct: "sq a = [] \<Longrightarrow> may_hold rd a \<Longrightarrow> spec_step a (holds_lock t rd a)"
| spec_enqueue: "sq a \<noteq> [] \<or> \<not> may_hold rd a \<Longrightarrow> spec_step a (a\<lparr>sq := sq a @ [(t, rd)]\<rparr>)"
| spec_grant: "sq a = (t, rd) # q \<Longrightarrow> may_hold rd a \<Longrightarrow> spec_step a (holds_lock t rd (a\<lparr>sq := q\<rparr>))"
| spec_release: "t \<in> rds a \<union> wrs a \<Longrightarrow> spec_step a (a\<lparr>rds := rds a - {t}, wrs := wrs a - {t}\<rparr>)"

end
