(* ===== verification/Fifo_Facts.thy ===== *)
theory Fifo_Facts
  imports Fifo_Lock
begin

text \<open>
  The lock implements its specification. The relation \<open>lock_abs\<close> ties the slots of the ring,
  the counters and the phases of the requests to the queue and the holders of the specification;
  it holds initially, and each step of the system keeps it with one or no step of the
  specification.
\<close>

section \<open>The relation\<close>

definition slot :: "sge_fifo_rw_lock \<Rightarrow> nat \<Rightarrow> nat" where
  "slot lk k = (lk_head lk + k) mod FIFO_LOCK_QUEUE_LENGTH"

definition ring_ok :: "sge_fifo_rw_lock \<Rightarrow> bool list \<Rightarrow> bool" where
  "ring_ok lk q \<longleftrightarrow> length (lk_array lk) = FIFO_LOCK_QUEUE_LENGTH \<and>
     lk_size lk = FIFO_LOCK_QUEUE_LENGTH \<and> lk_head lk < FIFO_LOCK_QUEUE_LENGTH \<and>
     length q \<le> FIFO_LOCK_QUEUE_LENGTH \<and> lk_tail lk = slot lk (length q) \<and>
     (\<forall>k < FIFO_LOCK_QUEUE_LENGTH. lk_array lk ! slot lk k =
        \<lparr>is_reader = k < length q \<and> q ! k, is_signaled = k = 0 \<and> signaled lk = 1\<rparr>)"

definition counts_ok :: "sge_fifo_rw_lock \<Rightarrow> 't fifo_spec \<Rightarrow> bool" where
  "counts_ok lk a \<longleftrightarrow> finite (rds a) \<and> finite (wrs a) \<and>
     reader_active lk = int (card (rds a)) \<and> writer_active lk = int (card (wrs a)) \<and>
     reader_waiting lk = int (length (filter snd (sq a))) \<and>
     writer_waiting lk = int (length (filter (Not \<circ> snd) (sq a)))"

text \<open>
  The first request of the queue is signaled exactly when it may have the lock; then it holds for
  it that it may, and only readers can be active beside it.
\<close>

definition turn_ok :: "sge_fifo_rw_lock \<Rightarrow> 't fifo_spec \<Rightarrow> bool" where
  "turn_ok lk a \<longleftrightarrow> signaled lk = (if sq a \<noteq> [] \<and> may_hold (snd (hd (sq a))) a then 1 else 0)"

definition phases_ok :: "'t system \<Rightarrow> 't fifo_spec \<Rightarrow> bool" where
  "phases_ok s a \<longleftrightarrow>
     (\<forall>k < length (sq a). ph s (fst (sq a ! k)) = Queued (slot (lock s) k) (snd (sq a ! k))) \<and>
     (\<forall>t i rd. ph s t = Queued i rd \<longrightarrow> t \<in> fst ` set (sq a)) \<and>
     rds a = {t. ph s t = Holding True} \<and> wrs a = {t. ph s t = Holding False}"

definition lk_rel :: "sge_fifo_rw_lock \<Rightarrow> 't fifo_spec \<Rightarrow> bool" where
  "lk_rel lk a \<longleftrightarrow> ring_ok lk (map snd (sq a)) \<and> counts_ok lk a \<and> turn_ok lk a \<and>
     (wrs a = {} \<or> (rds a = {} \<and> card (wrs a) = 1))"

definition lock_abs :: "'t system \<Rightarrow> 't fifo_spec \<Rightarrow> bool" where
  "lock_abs s a \<longleftrightarrow> lk_rel (lock s) a \<and> phases_ok s a \<and>
     (signaled (lock s) = 1 \<longrightarrow> fst (hd (sq a)) \<in> woken s)"

section \<open>The ring\<close>

lemma N: "FIFO_LOCK_QUEUE_LENGTH = 64"
  by (simp add: FIFO_LOCK_QUEUE_LENGTH_def)

lemma slot_less: "slot lk k < FIFO_LOCK_QUEUE_LENGTH"
  by (simp add: slot_def N)

lemma slot_if:
  assumes "ring_ok lk q" "k < FIFO_LOCK_QUEUE_LENGTH"
  shows "slot lk k = (if lk_head lk + k < 64 then lk_head lk + k else lk_head lk + k - 64)"
proof -
  have "lk_head lk < 64" "k < 64" using assms by (simp_all add: ring_ok_def N)
  then show ?thesis by (simp add: slot_def N mod_if)
qed

lemma slot_inj:
  assumes "ring_ok lk q" "j < FIFO_LOCK_QUEUE_LENGTH" "k < FIFO_LOCK_QUEUE_LENGTH"
  shows "slot lk j = slot lk k \<longleftrightarrow> j = k"
proof -
  have "lk_head lk < 64" "j < 64" "k < 64" using assms by (simp_all add: ring_ok_def N)
  then show ?thesis unfolding slot_if[OF assms(1,2)] slot_if[OF assms(1,3)] by (auto split: if_splits)
qed

lemma slot_0: "ring_ok lk q \<Longrightarrow> slot lk 0 = lk_head lk"
  by (simp add: slot_def ring_ok_def)

lemma slot_wrap: "ring_ok lk q \<Longrightarrow> slot lk FIFO_LOCK_QUEUE_LENGTH = slot lk 0"
  by (simp add: slot_def ring_ok_def)

lemma wrap:
  assumes "i < FIFO_LOCK_QUEUE_LENGTH"
  shows "(if i + 1 = FIFO_LOCK_QUEUE_LENGTH then 0 else i + 1) = (i + 1) mod FIFO_LOCK_QUEUE_LENGTH"
  using assms by (simp add: N)

lemma slot_next: "(slot lk k + 1) mod FIFO_LOCK_QUEUE_LENGTH = slot lk (Suc k)"
  by (simp add: slot_def mod_Suc_eq)

lemma slot_Suc_head:
  assumes "lk_head lk' = (lk_head lk + 1) mod FIFO_LOCK_QUEUE_LENGTH"
  shows "slot lk' k = slot lk (Suc k)"
proof -
  have "slot lk' k = ((lk_head lk + 1) mod FIFO_LOCK_QUEUE_LENGTH + k) mod FIFO_LOCK_QUEUE_LENGTH"
    by (simp only: slot_def assms)
  also have "\<dots> = (lk_head lk + 1 + k) mod FIFO_LOCK_QUEUE_LENGTH" by (rule mod_add_left_eq)
  finally show ?thesis by (simp add: slot_def)
qed

lemma slot_cong: "lk_head lk' = lk_head lk \<Longrightarrow> slot lk' k = slot lk k"
  by (simp add: slot_def)

lemma ring_array:
  "ring_ok lk q \<Longrightarrow> k < FIFO_LOCK_QUEUE_LENGTH \<Longrightarrow>
    lk_array lk ! slot lk k = \<lparr>is_reader = k < length q \<and> q ! k, is_signaled = k = 0 \<and> signaled lk = 1\<rparr>"
  by (simp add: ring_ok_def)

lemma ring_cong:
  assumes "lk_array lk' = lk_array lk" "lk_size lk' = lk_size lk" "lk_head lk' = lk_head lk"
    and "lk_tail lk' = lk_tail lk" "signaled lk' = signaled lk"
  shows "ring_ok lk' q = ring_ok lk q"
  unfolding ring_ok_def slot_def assms ..

lemma ring_add_waiting [simp]: "ring_ok (add_waiting rd d lk) q = ring_ok lk q"
  by (rule ring_cong) (simp_all add: add_waiting_def)

lemma ring_take_lock [simp]: "ring_ok (take_lock rd lk) q = ring_ok lk q"
  by (rule ring_cong) (simp_all add: take_lock_def)

text \<open>A new entry at the tail.\<close>

lemma ring_push:
  assumes ring: "ring_ok lk q" and room: "length q < FIFO_LOCK_QUEUE_LENGTH"
    and front: "q \<noteq> [] \<or> signaled lk = 0"
    and lk': "lk' = lk\<lparr>lk_tail := (if lk_tail lk + 1 = lk_size lk then 0 else lk_tail lk + 1),
      lk_array := (lk_array lk)[lk_tail lk := \<lparr>is_reader = rd, is_signaled = False\<rparr>]\<rparr>"
  shows "ring_ok lk' (q @ [rd])"
proof -
  have tail: "lk_tail lk = slot lk (length q)" and size: "lk_size lk = FIFO_LOCK_QUEUE_LENGTH"
    and len: "length (lk_array lk) = FIFO_LOCK_QUEUE_LENGTH"
    using ring by (auto simp: ring_ok_def)
  have sl: "slot lk' k = slot lk k" for k by (rule slot_cong) (simp add: lk')
  have "lk_tail lk' = slot lk (Suc (length q))"
    using wrap[OF slot_less] slot_next unfolding lk' size tail by simp
  moreover have "lk_array lk' ! slot lk k =
      \<lparr>is_reader = k < length (q @ [rd]) \<and> (q @ [rd]) ! k, is_signaled = k = 0 \<and> signaled lk' = 1\<rparr>"
    if k: "k < FIFO_LOCK_QUEUE_LENGTH" for k
  proof (cases "k = length q")
    case True
    then show ?thesis using slot_less[of lk "length q"] len front by (auto simp: lk' tail)
  next
    case False
    then have "slot lk (length q) \<noteq> slot lk k" using slot_inj[OF ring room k] by simp
    then show ?thesis using ring_array[OF ring k] False by (auto simp: lk' tail nth_append)
  qed
  ultimately show ?thesis using ring room sl by (simp add: ring_ok_def lk')
qed

text \<open>The first entry leaves.\<close>

lemma ring_pop:
  assumes ring: "ring_ok lk (rd # q)"
    and lk': "lk' = lk\<lparr>lk_head := (lk_head lk + 1) mod FIFO_LOCK_QUEUE_LENGTH, signaled := 0,
      lk_array := (lk_array lk)[lk_head lk := \<lparr>is_reader = False, is_signaled = False\<rparr>]\<rparr>"
  shows "ring_ok lk' q"
proof -
  have tail: "lk_tail lk = slot lk (Suc (length q))"
    and len: "length (lk_array lk) = FIFO_LOCK_QUEUE_LENGTH" "Suc (length q) \<le> FIFO_LOCK_QUEUE_LENGTH"
    using ring by (auto simp: ring_ok_def)
  have sl: "slot lk' k = slot lk (Suc k)" for k by (rule slot_Suc_head) (simp add: lk')
  note h = slot_0[OF ring]
  have "lk_array lk' ! slot lk (Suc k) =
      \<lparr>is_reader = k < length q \<and> q ! k, is_signaled = k = 0 \<and> signaled lk' = 1\<rparr>"
    if k: "k < FIFO_LOCK_QUEUE_LENGTH" for k
  proof (cases "Suc k < FIFO_LOCK_QUEUE_LENGTH")
    case True
    then have "slot lk (Suc k) \<noteq> lk_head lk" using slot_inj[OF ring True, of 0] h by auto
    then show ?thesis using ring_array[OF ring True] by (simp add: lk')
  next
    case False
    then have eq: "Suc k = FIFO_LOCK_QUEUE_LENGTH" using k by simp
    have "slot lk (Suc k) = lk_head lk" unfolding eq using slot_wrap[OF ring] h by simp
    moreover have "lk_head lk < FIFO_LOCK_QUEUE_LENGTH" using slot_less[of lk 0] h by simp
    ultimately show ?thesis using len eq by (simp add: lk')
  qed
  moreover have "lk_head lk' < FIFO_LOCK_QUEUE_LENGTH" by (simp add: lk' N)
  ultimately show ?thesis using ring tail len sl by (simp add: ring_ok_def lk')
qed

text \<open>The first entry is signaled.\<close>

lemma ring_signal:
  assumes ring: "ring_ok lk q" and "signaled lk = 0"
  shows "ring_ok (signal_head lk) q"
proof -
  have sl: "slot (signal_head lk) k = slot lk k" for k by (rule slot_cong) (simp add: signal_head_def)
  note h = slot_0[OF ring]
  have "lk_array (signal_head lk) ! slot lk k =
      \<lparr>is_reader = k < length q \<and> q ! k, is_signaled = k = 0 \<and> signaled (signal_head lk) = 1\<rparr>"
    if k: "k < FIFO_LOCK_QUEUE_LENGTH" for k
  proof (cases "k = 0")
    case True
    then show ?thesis
      using ring_array[OF ring k] h slot_less[of lk 0] assms
      by (simp add: signal_head_def ring_ok_def)
  next
    case False
    then have "slot lk k \<noteq> lk_head lk" using slot_inj[OF ring k, of 0] h k by auto
    then show ?thesis using ring_array[OF ring k] False by (simp add: signal_head_def)
  qed
  then show ?thesis using ring unfolding ring_ok_def sl by (simp add: signal_head_def)
qed

section \<open>The segments on the lock\<close>

lemma waiting_sum:
  "counts_ok lk a \<Longrightarrow> reader_waiting lk + writer_waiting lk = int (length (sq a))"
  using sum_length_filter_compl[of snd "sq a"] by (simp add: counts_ok_def comp_def)

lemma wrs_card: "counts_ok lk a \<Longrightarrow> writer_active lk > 0 \<longleftrightarrow> wrs a \<noteq> {}"
  by (auto simp: counts_ok_def card_gt_0_iff)

lemma rds_card: "counts_ok lk a \<Longrightarrow> reader_active lk > 0 \<longleftrightarrow> rds a \<noteq> {}"
  by (auto simp: counts_ok_def card_gt_0_iff)

lemma counts_nonneg:
  "counts_ok lk a \<Longrightarrow> reader_active lk \<ge> 0 \<and> writer_active lk \<ge> 0 \<and> reader_waiting lk \<ge> 0 \<and>
    writer_waiting lk \<ge> 0"
  by (simp add: counts_ok_def)

lemma signaled_cases: "turn_ok lk a \<Longrightarrow> signaled lk = 0 \<or> signaled lk = 1"
  by (simp add: turn_ok_def)

lemma lk_rel_waiting: "lk_rel (lk\<lparr>lk_waiting := n\<rparr>) a = lk_rel lk a"
proof -
  have "ring_ok (lk\<lparr>lk_waiting := n\<rparr>) q = ring_ok lk q" for q by (rule ring_cong) simp_all
  then show ?thesis by (simp add: lk_rel_def counts_ok_def turn_ok_def)
qed

text \<open>The test that sends a request into the queue.\<close>

lemma must_queue:
  assumes "lk_rel lk a"
  shows "(if rd then writer_active lk + writer_waiting lk + signaled lk > 0
      else writer_active lk + reader_active lk + signaled lk > 0) \<longleftrightarrow> \<not> (sq a = [] \<and> may_hold rd a)"
proof -
  have c: "counts_ok lk a" and t: "turn_ok lk a" using assms by (auto simp: lk_rel_def)
  note n = counts_nonneg[OF c] wrs_card[OF c] rds_card[OF c]
  show ?thesis
  proof (cases "sq a")
    case Nil
    then have "writer_waiting lk = 0" "signaled lk = 0" using c t by (auto simp: counts_ok_def turn_ok_def)
    then show ?thesis using n Nil by (auto simp: may_hold_def)
  next
    case (Cons e q)
    have "writer_waiting lk > 0" if "\<not> snd e" using c Cons that by (simp add: counts_ok_def)
    moreover have "signaled lk = (if may_hold (snd e) a then 1 else 0)" using t Cons by (simp add: turn_ok_def)
    ultimately show ?thesis using n Cons by (auto simp: may_hold_def split: if_splits)
  qed
qed

lemma enter_full:
  assumes "lk_rel lk a" "length (sq a) = FIFO_LOCK_QUEUE_LENGTH"
  shows "fifo_enter u rd lk = (Waits_Outside, lk\<lparr>lk_waiting := lk_waiting lk + 1\<rparr>)"
  using assms waiting_sum[of lk a] by (simp add: fifo_enter_def lk_rel_def)

lemma enter_queue:
  assumes rel: "lk_rel lk a" and room: "length (sq a) \<noteq> FIFO_LOCK_QUEUE_LENGTH"
    and wait: "\<not> (sq a = [] \<and> may_hold rd a)"
  obtains lk' where "fifo_enter u rd lk = (Waits_In_Queue (slot lk (length (sq a))), lk')"
    "lk_rel lk' (a\<lparr>sq := sq a @ [(t, rd)]\<rparr>)" "lk_head lk' = lk_head lk"
    "signaled lk' = signaled lk"
proof -
  let ?lk1 = "lk\<lparr>lk_tail := (if lk_tail lk + 1 = lk_size lk then 0 else lk_tail lk + 1),
    lk_array := (lk_array lk)[lk_tail lk := \<lparr>is_reader = rd, is_signaled = False\<rparr>]\<rparr>"
  have r: "ring_ok lk (map snd (sq a))" and c: "counts_ok lk a" and t: "turn_ok lk a"
    using rel by (auto simp: lk_rel_def)
  have tail: "lk_tail lk = slot lk (length (sq a))" using r by (simp add: ring_ok_def)
  have less: "length (sq a) < FIFO_LOCK_QUEUE_LENGTH" using r room by (simp add: ring_ok_def)
  have sum: "reader_waiting lk + writer_waiting lk \<noteq> int FIFO_LOCK_QUEUE_LENGTH"
    using waiting_sum[OF c] room by simp
  have eq: "fifo_enter u rd lk = (Waits_In_Queue (slot lk (length (sq a))), add_waiting rd 1 ?lk1)"
    unfolding fifo_enter_def must_queue[OF rel] using sum wait by (simp add: Let_def tail)
  have "ring_ok ?lk1 (map snd (sq a) @ [rd])"
  proof (rule ring_push[OF r])
    show "map snd (sq a) \<noteq> [] \<or> signaled lk = 0" using t wait by (auto simp: turn_ok_def)
  qed (use less in simp_all)
  then have "ring_ok (add_waiting rd 1 ?lk1) (map snd (sq (a\<lparr>sq := sq a @ [(t, rd)]\<rparr>)))" by simp
  moreover have "counts_ok (add_waiting rd 1 ?lk1) (a\<lparr>sq := sq a @ [(t, rd)]\<rparr>)"
    using c by (simp add: counts_ok_def add_waiting_def)
  moreover have "turn_ok (add_waiting rd 1 ?lk1) (a\<lparr>sq := sq a @ [(t, rd)]\<rparr>)"
    using t wait by (auto simp: turn_ok_def add_waiting_def hd_append may_hold_def)
  ultimately have "lk_rel (add_waiting rd 1 ?lk1) (a\<lparr>sq := sq a @ [(t, rd)]\<rparr>)"
    using rel by (simp add: lk_rel_def)
  then show ?thesis using that[OF eq] by (simp add: add_waiting_def)
qed

lemma take_rel:
  assumes "ring_ok lk (map snd (sq a))" "counts_ok lk a" "may_hold rd a" "t \<notin> rds a \<union> wrs a"
    and "signaled lk = (if sq a \<noteq> [] \<and> rd \<and> snd (hd (sq a)) then 1 else 0)"
  shows "lk_rel (take_lock rd lk) (holds_lock t rd a)"
proof -
  have "ring_ok (take_lock rd lk) (map snd (sq (holds_lock t rd a)))"
    using assms(1) by (simp add: holds_lock_def)
  moreover have "counts_ok (take_lock rd lk) (holds_lock t rd a)"
    using assms(2,4) by (auto simp: counts_ok_def take_lock_def holds_lock_def)
  moreover have "turn_ok (take_lock rd lk) (holds_lock t rd a)"
    using assms(3,5) by (auto simp: turn_ok_def take_lock_def holds_lock_def may_hold_def)
  ultimately show ?thesis using assms(3) by (auto simp: lk_rel_def holds_lock_def may_hold_def)
qed

lemma enter_direct:
  assumes rel: "lk_rel lk a" and free: "sq a = []" "may_hold rd a" and "t \<notin> rds a \<union> wrs a"
  shows "fifo_enter u rd lk = (Returns (u = 0), take_lock rd lk)"
    and "lk_rel (take_lock rd lk) (holds_lock t rd a)"
proof -
  have c: "counts_ok lk a" using rel by (simp add: lk_rel_def)
  have "reader_waiting lk + writer_waiting lk \<noteq> int FIFO_LOCK_QUEUE_LENGTH"
    using waiting_sum[OF c] free N by simp
  then show "fifo_enter u rd lk = (Returns (u = 0), take_lock rd lk)"
    unfolding fifo_enter_def must_queue[OF rel] using free by simp
  show "lk_rel (take_lock rd lk) (holds_lock t rd a)"
    using rel assms(2-4) by (intro take_rel) (auto simp: lk_rel_def turn_ok_def)
qed

text \<open>A wait in the queue that returns with its slot not signaled goes on.\<close>

lemma resume_spurious:
  assumes "\<not> is_signaled (lk_array lk ! i)"
  shows "fifo_resume_queued u i rd lk = (Waits_In_Queue i, lk, [])"
  using assms by (simp add: fifo_resume_queued_def add_waiting_def Let_def)

text \<open>The signaled one takes the lock, and passes the turn on to a reader behind it.\<close>

lemma resume_granted:
  assumes rel: "lk_rel lk a" and q: "sq a = (t, rd) # q" and sg: "signaled lk = 1"
    and t: "t \<notin> rds a \<union> wrs a"
  obtains lk' sigs where "fifo_resume_queued u (slot lk 0) rd lk = (Returns (u = 0), lk', sigs)"
    "lk_rel lk' (holds_lock t rd (a\<lparr>sq := q\<rparr>))" "may_hold rd a"
    "lk_head lk' = (lk_head lk + 1) mod FIFO_LOCK_QUEUE_LENGTH"
    "signaled lk' = 1 \<longrightarrow> Slot_Cond (lk_head lk') \<in> set sigs"
proof -
  have r: "ring_ok lk (rd # map snd q)" and c: "counts_ok lk a" and turn: "turn_ok lk a"
    using rel q by (auto simp: lk_rel_def)
  have may: "may_hold rd a" using turn sg q by (simp add: turn_ok_def split: if_splits)
  have h: "slot lk 0 = lk_head lk" by (rule slot_0[OF r])
  have n0: "0 < FIFO_LOCK_QUEUE_LENGTH" by (simp add: N)
  have size: "lk_size lk = FIFO_LOCK_QUEUE_LENGTH" and hl: "lk_head lk < FIFO_LOCK_QUEUE_LENGTH"
    using r by (simp_all add: ring_ok_def)
  have first: "lk_array lk ! lk_head lk = \<lparr>is_reader = rd, is_signaled = True\<rparr>"
    using ring_array[OF r n0] h sg by simp
  let ?n = "(lk_head lk + 1) mod FIFO_LOCK_QUEUE_LENGTH"
  let ?e = "\<lparr>is_reader = False, is_signaled = False\<rparr>"
  let ?lk1 = "add_waiting rd (-1) lk"
  let ?lk3 = "?lk1\<lparr>signaled := 0, lk_head := ?n\<rparr>"
  let ?p = "?lk1\<lparr>lk_head := ?n, signaled := 0, lk_array := (lk_array ?lk1)[lk_head lk := ?e]\<rparr>"
  have p: "ring_ok ?p (map snd q)"
  proof (rule ring_pop)
    show "ring_ok ?lk1 (rd # map snd q)" using r by (simp only: ring_add_waiting)
  qed (simp add: add_waiting_def)
  have slot1: "slot lk 1 = ?n" using slot_next[of lk 0] h by simp
  have second: "is_reader (lk_array lk ! ?n) \<longleftrightarrow> q \<noteq> [] \<and> snd (hd q)"
    using ring_array[OF r, of 1] slot1 by (cases q) (simp_all add: N)
  have rw: "reader_waiting ?lk3 = int (length (filter snd q))"
    using c q by (simp add: counts_ok_def add_waiting_def)
  have ne: "lk_head lk \<noteq> ?n" using slot_inj[OF r n0, of 1] slot1 h by (simp add: N)
  let ?w = "rd \<and> q \<noteq> [] \<and> snd (hd q)"
  have wake: "is_reader (lk_array ?lk3 ! lk_head lk) \<and> reader_waiting ?lk3 > 0 \<and>
      is_reader (lk_array ?lk3 ! lk_head ?lk3) \<longleftrightarrow> ?w"
    unfolding rw using first second by (cases q) (auto simp: add_waiting_def)
  let ?lk4 = "if ?w then signal_head ?lk3 else ?lk3"
  let ?lk5 = "?lk4\<lparr>lk_array := (lk_array ?lk4)[lk_head lk := ?e]\<rparr>"
  let ?sigs = "(if ?w then [Slot_Cond ?n] else []) @ (if lk_waiting ?lk4 > 0 then [Lock_Cond] else [])"
  have run: "fifo_resume_queued u (slot lk 0) rd lk = (Returns (u = 0), take_lock rd ?lk5, ?sigs)"
  proof -
    have f: "lk_head ?lk1 = lk_head lk" "lk_size ?lk1 = FIFO_LOCK_QUEUE_LENGTH" "signaled ?lk1 = 1"
        "lk_array ?lk1 = lk_array lk"
      by (simp_all add: add_waiting_def size sg)
    have sz: "lk_size (?lk1\<lparr>signaled := signaled ?lk1 - 1\<rparr>) = FIFO_LOCK_QUEUE_LENGTH" by (simp add: f)
    have l3: "?lk1\<lparr>signaled := signaled ?lk1 - 1,
        lk_head := (if lk_head lk + 1 = lk_size (?lk1\<lparr>signaled := signaled ?lk1 - 1\<rparr>) then 0
          else lk_head lk + 1)\<rparr> = ?lk3"
      unfolding sz unfolding wrap[OF hl] f by simp
    have sig: "is_signaled (lk_array ?lk1 ! slot lk 0)" by (simp add: f h first)
    have hd2: "lk_head (?lk1\<lparr>signaled := signaled ?lk1 - 1\<rparr>) = lk_head lk" by (simp add: f)
    show ?thesis
      unfolding fifo_resume_queued_def Let_def hd2 l3 wake using sig by simp
  qed
  have lk5: "?lk5 = (if ?w then signal_head ?p else ?p)"
    using ne by (simp add: signal_head_def list_update_swap)
  have "ring_ok ?lk5 (map snd q)"
  proof -
    have "signaled ?p = 0" by simp
    from ring_signal[OF p this] p show ?thesis unfolding lk5 by (rule if_split[THEN iffD2, OF conjI, OF impI impI])
  qed
  moreover have "counts_ok ?lk5 (a\<lparr>sq := q\<rparr>)"
    using c q by (auto simp: counts_ok_def signal_head_def add_waiting_def)
  moreover have "signaled ?lk5 = (if q \<noteq> [] \<and> rd \<and> snd (hd q) then 1 else 0)"
    by (simp add: signal_head_def)
  ultimately have "lk_rel (take_lock rd ?lk5) (holds_lock t rd (a\<lparr>sq := q\<rparr>))"
    using may t by (intro take_rel) (simp_all add: may_hold_def)
  moreover have "signaled (take_lock rd ?lk5) = 1 \<longrightarrow> Slot_Cond (lk_head (take_lock rd ?lk5)) \<in> set ?sigs"
    by (auto simp: take_lock_def signal_head_def)
  moreover have "lk_head (take_lock rd ?lk5) = ?n" by (simp add: take_lock_def signal_head_def)
  ultimately show ?thesis using that[OF run] may by blast
qed

text \<open>Giving the lock back.\<close>

definition releases :: "'t \<Rightarrow> 't fifo_spec \<Rightarrow> 't fifo_spec" where
  "releases t a = a\<lparr>rds := rds a - {t}, wrs := wrs a - {t}\<rparr>"

lemma unlock_rel:
  assumes rel: "lk_rel lk a" and t: "t \<in> (if rd then rds a else wrs a)"
  obtains lk' sigs where "sge_fifo_ulock 0 u rd lk = (u = 0, lk', sigs)"
    "lk_rel lk' (releases t a)" "lk_head lk' = lk_head lk"
    "signaled lk' = 1 \<longrightarrow> signaled lk = 1 \<or> Slot_Cond (lk_head lk') \<in> set sigs"
proof -
  have r: "ring_ok lk (map snd (sq a))" and c: "counts_ok lk a" and turn: "turn_ok lk a"
    and ex: "wrs a = {} \<or> (rds a = {} \<and> card (wrs a) = 1)"
    using rel by (auto simp: lk_rel_def)
  let ?b = "releases t a"
  let ?lk1 = "if rd then lk\<lparr>reader_active := reader_active lk - 1\<rparr>
    else lk\<lparr>writer_active := writer_active lk - 1\<rparr>"
  let ?n = "reader_active ?lk1 + writer_active ?lk1 + signaled ?lk1 = 0 \<and>
    reader_waiting ?lk1 + writer_waiting ?lk1 > 0"
  let ?lk2 = "if ?n then signal_head ?lk1 else ?lk1"
  have f: "lk_head ?lk1 = lk_head lk" "signaled ?lk1 = signaled lk" by simp_all
  have run: "sge_fifo_ulock 0 u rd lk = (u = 0, ?lk2, if ?n then [Slot_Cond (lk_head ?lk1)] else [])"
    by (simp add: sge_fifo_ulock_def Let_def)
  have ex': "wrs ?b = {} \<or> (rds ?b = {} \<and> card (wrs ?b) = 1)" and w: "wrs ?b = {}" and sqb: "sq ?b = sq a"
    using ex t by (auto simp: releases_def card_1_singleton_iff split: if_splits)
  have cs: "card (rds a - {t}) = card (rds a) - (if rd then 1 else 0)"
      "card (wrs a - {t}) = card (wrs a) - (if rd then 0 else 1)"
      "(if rd then card (rds a) else card (wrs a)) > 0"
    using t ex c by (auto simp: counts_ok_def card_gt_0_iff split: if_splits)
  have c1: "counts_ok ?lk1 ?b"
    using c cs by (auto simp: counts_ok_def releases_def)
  have r1: "ring_ok ?lk1 (map snd (sq a))"
    using r ring_cong[of ?lk1 lk] by simp
  have n: "?n \<longleftrightarrow> rds ?b = {} \<and> signaled lk = 0 \<and> sq a \<noteq> []"
  proof -
    have "writer_active ?lk1 = 0" using c1 w by (simp add: counts_ok_def)
    moreover have "reader_active ?lk1 = 0 \<longleftrightarrow> rds ?b = {}" "reader_active ?lk1 \<ge> 0"
      using c1 by (auto simp: counts_ok_def)
    moreover have "reader_waiting ?lk1 + writer_waiting ?lk1 = int (length (sq a))"
      using waiting_sum[OF c1] sqb by simp
    ultimately show ?thesis using f(2) signaled_cases[OF turn] by auto
  qed
  have ring: "ring_ok ?lk2 (map snd (sq ?b))"
  proof (cases ?n)
    case True
    then have "signaled ?lk1 = 0" using n f(2) by simp
    from ring_signal[OF r1 this] show ?thesis unfolding sqb if_P[OF True] .
  next
    case False
    then show ?thesis using r1 unfolding sqb if_not_P[OF False] by simp
  qed
  have same: "reader_active ?lk2 = reader_active ?lk1" "writer_active ?lk2 = writer_active ?lk1"
      "reader_waiting ?lk2 = reader_waiting ?lk1" "writer_waiting ?lk2 = writer_waiting ?lk1"
    by (simp_all add: signal_head_def)
  have counts: "counts_ok ?lk2 ?b" using c1 unfolding counts_ok_def same .
  have sig2: "signaled ?lk2 = (if ?n then 1 else signaled lk)"
    using n f(2) by (simp add: signal_head_def)
  have sig3: "signaled ?lk2 = (if rds ?b = {} \<and> signaled lk = 0 \<and> sq a \<noteq> [] then 1 else signaled lk)"
    by (rule trans[OF sig2]) (simp only: n)
  have "turn_ok ?lk2 ?b"
  proof (cases "sq a")
    case Nil
    then show ?thesis using turn unfolding turn_ok_def sig3 sqb by simp
  next
    case (Cons e q)
    have "may_hold (snd e) ?b \<longleftrightarrow> snd e \<or> rds ?b = {}" using w by (simp add: may_hold_def)
    moreover have "signaled lk = (if rd \<and> snd e then 1 else 0)"
      using turn t ex Cons by (cases rd) (auto simp: turn_ok_def may_hold_def)
    moreover have "\<not> rd \<Longrightarrow> rds ?b = {}" using t ex by (auto simp: releases_def)
    ultimately show ?thesis using Cons t unfolding turn_ok_def sig3 sqb
      by (cases rd) auto
  qed
  then have "lk_rel ?lk2 ?b" using ring counts ex' by (simp only: lk_rel_def simp_thms)
  moreover have "lk_head ?lk2 = lk_head lk" using f by (simp add: signal_head_def)
  moreover have "signaled ?lk2 = 1 \<longrightarrow> signaled lk = 1 \<or>
      Slot_Cond (lk_head ?lk2) \<in> set (if ?n then [Slot_Cond (lk_head ?lk1)] else [])"
    unfolding sig2 by (simp add: signal_head_def)
  ultimately show ?thesis using that[OF run] by blast
qed

section \<open>The system\<close>

lemma init_array_zero:
  "init_array lrets es = (0, es') \<Longrightarrow> length lrets = length es \<Longrightarrow>
    es' = replicate (length es) \<lparr>is_reader = False, is_signaled = False\<rparr>"
proof (induction lrets es arbitrary: es' rule: init_array.induct)
  case (1 lret lrets e es)
  then show ?case by (auto simp: Let_def split: prod.splits if_splits)
qed auto

lemma lock_init:
  assumes "sge_fifo_lock_init m (Some mem) lrets c lk0 = (True, lk)"
    and "length mem = FIFO_LOCK_QUEUE_LENGTH" "length lrets = FIFO_LOCK_QUEUE_LENGTH"
  shows "lk_rel lk \<lparr>sq = [], rds = {}, wrs = {}\<rparr>"
proof -
  obtain es where es: "init_array lrets mem = (0, es)"
    using assms(1) by (auto simp: sge_fifo_lock_init_def Let_def split: prod.splits if_splits)
  have arr: "es = replicate FIFO_LOCK_QUEUE_LENGTH \<lparr>is_reader = False, is_signaled = False\<rparr>"
    using init_array_zero[OF es] assms(2,3) by simp
  have lk: "lk = lk0\<lparr>lk_array := es, lk_head := 0, lk_tail := 0, lk_size := FIFO_LOCK_QUEUE_LENGTH,
      reader_active := 0, reader_waiting := 0, writer_active := 0, writer_waiting := 0,
      lk_waiting := 0, signaled := 0\<rparr>"
    using assms(1) es by (auto simp: sge_fifo_lock_init_def Let_def split: if_splits)
  have "ring_ok lk []"
    by (auto simp: ring_ok_def lk arr slot_def N)
  then show ?thesis by (simp add: lk_rel_def counts_ok_def turn_ok_def lk)
qed

text \<open>The phases: no request is at two places of the queue.\<close>

lemma phases_slot:
  "phases_ok s a \<Longrightarrow> k < length (sq a) \<Longrightarrow>
    ph s (fst (sq a ! k)) = Queued (slot (lock s) k) (snd (sq a ! k))"
  by (simp add: phases_ok_def)

lemma phases_queued:
  assumes "phases_ok s a" "ph s t = Queued i rd"
  obtains k where "k < length (sq a)" "sq a ! k = (t, rd)" "i = slot (lock s) k"
proof -
  have "t \<in> fst ` set (sq a)" using assms by (simp add: phases_ok_def)
  then obtain k where k: "k < length (sq a)" "fst (sq a ! k) = t" by (auto simp: in_set_conv_nth)
  then show ?thesis using that[of k] phases_slot[OF assms(1) k(1)] assms(2)
    by (cases "sq a ! k") auto
qed

lemma phases_holding:
  "phases_ok s a \<Longrightarrow> ph s t = Holding rd \<Longrightarrow> t \<in> (if rd then rds a else wrs a)"
  by (auto simp: phases_ok_def)

lemma phases_free:
  "phases_ok s a \<Longrightarrow> \<forall>rd. ph s t \<noteq> Holding rd \<Longrightarrow> t \<notin> rds a \<union> wrs a"
  by (auto simp: phases_ok_def)

lemma not_queued:
  assumes "phases_ok s a" "\<forall>i rd. ph s t \<noteq> Queued i rd" "k < length (sq a)"
  shows "fst (sq a ! k) \<noteq> t"
  using phases_slot[OF assms(1,3)] assms(2) by auto

lemma phases_outside:
  assumes "phases_ok s a" "\<forall>i rd. ph s t \<noteq> Queued i rd" "\<forall>rd. ph s t \<noteq> Holding rd"
    and "lk_head (lock s') = lk_head (lock s)" "ph s' = (ph s)(t := Outside rd)"
  shows "phases_ok s' a"
  using assms not_queued[OF assms(1,2)] slot_cong[OF assms(4)] by (auto simp: phases_ok_def)

lemma phases_enqueue:
  assumes "phases_ok s a" "\<forall>i rd. ph s t \<noteq> Queued i rd" "\<forall>rd. ph s t \<noteq> Holding rd"
    and "lk_head (lock s') = lk_head (lock s)"
    and "ph s' = (ph s)(t := Queued (slot (lock s) (length (sq a))) rd)"
  shows "phases_ok s' (a\<lparr>sq := sq a @ [(t, rd)]\<rparr>)"
  using assms not_queued[OF assms(1,2)] slot_cong[OF assms(4)]
  by (auto simp: phases_ok_def nth_append less_Suc_eq)

lemma phases_hold:
  assumes "phases_ok s a" "\<forall>i rd. ph s t \<noteq> Queued i rd" "\<forall>rd. ph s t \<noteq> Holding rd"
    and "lk_head (lock s') = lk_head (lock s)" "ph s' = (ph s)(t := Holding rd)"
  shows "phases_ok s' (holds_lock t rd a)"
  using assms not_queued[OF assms(1,2)] slot_cong[OF assms(4)]
  by (auto simp: phases_ok_def holds_lock_def)

lemma phases_release:
  assumes "phases_ok s a" "ph s t = Holding rd"
    and "lk_head (lock s') = lk_head (lock s)" "ph s' = (ph s)(t := Idle)"
  shows "phases_ok s' (releases t a)"
  using assms not_queued[OF assms(1), of t] slot_cong[OF assms(3)]
  by (auto simp: phases_ok_def releases_def)

lemma phases_grant:
  assumes p: "phases_ok s a" and ring: "ring_ok (lock s) (map snd (sq a))" and q: "sq a = (t, rd) # q"
    and head: "lk_head (lock s') = (lk_head (lock s) + 1) mod FIFO_LOCK_QUEUE_LENGTH"
    and ph': "ph s' = (ph s)(t := Holding rd)"
  shows "phases_ok s' (holds_lock t rd (a\<lparr>sq := q\<rparr>))"
proof -
  have len: "Suc (length q) \<le> FIFO_LOCK_QUEUE_LENGTH" using ring q by (simp add: ring_ok_def)
  have t: "ph s t = Queued (slot (lock s) 0) rd" using phases_slot[OF p, of 0] q by simp
  have pos: "ph s (fst (q ! k)) = Queued (slot (lock s) (Suc k)) (snd (q ! k))" if "k < length q" for k
    using phases_slot[OF p, of "Suc k"] q that by simp
  have other: "fst (q ! k) \<noteq> t" if "k < length q" for k
  proof
    assume "fst (q ! k) = t"
    then have "slot (lock s) (Suc k) = slot (lock s) 0" using pos[OF that] t by simp
    then show False using slot_inj[OF ring, of "Suc k" 0] that len N by simp
  qed
  have "\<forall>k < length q. ph s' (fst (q ! k)) = Queued (slot (lock s') k) (snd (q ! k))"
    using pos other by (simp add: ph' slot_Suc_head[OF head])
  moreover have "\<forall>u i r. ph s' u = Queued i r \<longrightarrow> u \<in> fst ` set q"
  proof (intro allI impI)
    fix u i r
    assume "ph s' u = Queued i r"
    then have "u \<noteq> t" "ph s u = Queued i r" by (auto simp: ph' split: if_splits)
    then have "u \<in> fst ` set (sq a)" using p by (auto simp: phases_ok_def)
    then show "u \<in> fst ` set q" using q \<open>u \<noteq> t\<close> by simp
  qed
  moreover have "rds (holds_lock t rd a) = {u. ph s' u = Holding True}"
      "wrs (holds_lock t rd a) = {u. ph s' u = Holding False}"
    using p t unfolding phases_ok_def ph' holds_lock_def by auto
  ultimately show ?thesis by (simp add: phases_ok_def holds_lock_def split: if_splits)
qed

text \<open>Entering, from the call or after a wait outside.\<close>

lemma enter_simulates:
  assumes rel: "lk_rel lk a" and p: "phases_ok s a"
    and head: "lk_head lk = lk_head (lock s)"
    and nq: "\<forall>i rd. ph s t \<noteq> Queued i rd" and nh: "\<forall>rd. ph s t \<noteq> Holding rd"
    and run: "fifo_enter 0 rd lk = (out, lk')"
    and s': "lock s' = lk'" "ph s' = (ph s)(t := phase_of rd out)"
    and w: "signaled lk = 1 \<longrightarrow> fst (hd (sq a)) \<in> woken s'"
  shows "\<exists>a'. lock_abs s' a' \<and> (a' = a \<or> spec_step a a')"
proof -
  have t: "t \<notin> rds a \<union> wrs a" using phases_free[OF p nh] .
  have sl: "slot lk k = slot (lock s) k" for k by (rule slot_cong[OF head])
  consider (full) "length (sq a) = FIFO_LOCK_QUEUE_LENGTH"
    | (queue) "length (sq a) \<noteq> FIFO_LOCK_QUEUE_LENGTH" "\<not> (sq a = [] \<and> may_hold rd a)"
    | (direct) "sq a = []" "may_hold rd a" by blast
  then show ?thesis
  proof cases
    case full
    then have r: "out = Waits_Outside" "lk' = lk\<lparr>lk_waiting := lk_waiting lk + 1\<rparr>"
      using run enter_full[OF rel full] by auto
    then have "phases_ok s' a" using phases_outside[OF p nq nh, of s' rd] s' head by simp
    then show ?thesis using rel w s' r by (auto simp: lock_abs_def lk_rel_waiting)
  next
    case queue
    obtain lk1 where r: "fifo_enter 0 rd lk = (Waits_In_Queue (slot lk (length (sq a))), lk1)"
        "lk_rel lk1 (a\<lparr>sq := sq a @ [(t, rd)]\<rparr>)" "lk_head lk1 = lk_head lk" "signaled lk1 = signaled lk"
      using enter_queue[OF rel queue] .
    then have o: "out = Waits_In_Queue (slot lk (length (sq a)))" "lk' = lk1" using run by auto
    then have "phases_ok s' (a\<lparr>sq := sq a @ [(t, rd)]\<rparr>)"
      using phases_enqueue[OF p nq nh, of s' rd] s' head r(3) sl by simp
    moreover have "signaled lk1 = 1 \<longrightarrow> fst (hd (sq a @ [(t, rd)])) \<in> woken s'"
      using w r(4) rel by (auto simp: lk_rel_def turn_ok_def hd_append)
    ultimately have "lock_abs s' (a\<lparr>sq := sq a @ [(t, rd)]\<rparr>)"
      using r(2) s' o by (simp add: lock_abs_def)
    then show ?thesis using spec_enqueue[of a rd t] queue(2) by auto
  next
    case direct
    note d = enter_direct(1)[OF rel direct t, of 0] enter_direct(2)[OF rel direct t]
    then have o: "out = Returns True" "lk' = take_lock rd lk" using run by auto
    then have "phases_ok s' (holds_lock t rd a)"
      using phases_hold[OF p nq nh, of s' rd] s' head by (simp add: take_lock_def)
    moreover have "signaled lk' \<noteq> 1"
      using d(2) direct o by (simp add: lk_rel_def turn_ok_def holds_lock_def)
    ultimately have "lock_abs s' (holds_lock t rd a)" using d(2) s' o by (simp add: lock_abs_def)
    then show ?thesis using spec_direct[OF direct, of t] by auto
  qed
qed

text \<open>A signal to the slot of the first request wakes that request.\<close>

lemma first_phase:
  assumes "phases_ok s a" "ring_ok (lock s) (map snd (sq a))" "sq a \<noteq> []"
  shows "ph s t = Queued (lk_head (lock s)) rd \<longleftrightarrow> hd (sq a) = (t, rd)"
proof
  assume "ph s t = Queued (lk_head (lock s)) rd"
  then obtain k where k: "k < length (sq a)" "sq a ! k = (t, rd)" "slot (lock s) 0 = slot (lock s) k"
    using phases_queued[OF assms(1)] slot_0[OF assms(2)] by metis
  then have "k = 0" using slot_inj[OF assms(2), of 0 k] assms(2) by (simp add: ring_ok_def N)
  then show "hd (sq a) = (t, rd)" using k assms(3) by (simp add: hd_conv_nth)
next
  assume "hd (sq a) = (t, rd)"
  then show "ph s t = Queued (lk_head (lock s)) rd"
    using phases_slot[OF assms(1), of 0] assms(3) slot_0[OF assms(2)] by (simp add: hd_conv_nth)
qed

lemma waits_on_slot: "waits_on (Slot_Cond i) p \<longleftrightarrow> (\<exists>rd. p = Queued i rd)"
  by (cases p) auto

lemma head_woken:
  assumes "phases_ok s a" "ring_ok (lock s) (map snd (sq a))" "sq a \<noteq> []"
    and "Slot_Cond (lk_head (lock s)) \<in> set sigs" "signal_wakes sigs (ph s) W"
  shows "fst (hd (sq a)) \<in> W"
proof -
  obtain t rd where h: "hd (sq a) = (t, rd)" by (cases "hd (sq a)")
  then have "ph s t = Queued (lk_head (lock s)) rd" using first_phase[OF assms(1-3)] by simp
  then have "\<exists>u. waits_on (Slot_Cond (lk_head (lock s))) (ph s u)" unfolding waits_on_slot by blast
  then have "\<exists>u \<in> W. waits_on (Slot_Cond (lk_head (lock s))) (ph s u)"
    using assms(4,5) by (simp add: signal_wakes_def)
  then obtain u r where "u \<in> W" "ph s u = Queued (lk_head (lock s)) r"
    unfolding waits_on_slot by blast
  then show ?thesis using first_phase[OF assms(1-3)] h by simp
qed

lemma signaled_turn:
  "lk_rel lk a \<Longrightarrow> signaled lk = 1 \<Longrightarrow> sq a \<noteq> []"
  by (auto simp: lk_rel_def turn_ok_def split: if_splits)

lemma queued_simulates:
  assumes abs: "lock_abs s a" and t: "ph s t = Queued i rd"
    and run: "fifo_resume_queued 0 i rd (lock s) = (out, lk, sigs)"
    and s': "lock s' = lk" "ph s' = (ph s)(t := phase_of rd out)" "woken s' = (woken s - {t}) \<union> W"
    and w: "signal_wakes sigs (ph s') W"
  shows "\<exists>a'. lock_abs s' a' \<and> (a' = a \<or> spec_step a a')"
proof -
  have rel: "lk_rel (lock s) a" and p: "phases_ok s a"
    and wk: "signaled (lock s) = 1 \<longrightarrow> fst (hd (sq a)) \<in> woken s"
    using abs by (auto simp: lock_abs_def)
  have r: "ring_ok (lock s) (map snd (sq a))" using rel by (simp add: lk_rel_def)
  obtain k where k: "k < length (sq a)" "sq a ! k = (t, rd)" "i = slot (lock s) k"
    using phases_queued[OF p t] .
  have kN: "k < FIFO_LOCK_QUEUE_LENGTH" using k r by (simp add: ring_ok_def)
  show ?thesis
  proof (cases "k = 0 \<and> signaled (lock s) = 1")
    case True
    obtain q where q: "sq a = (t, rd) # q" using k True by (cases "sq a") auto
    have tn: "t \<notin> rds a \<union> wrs a" using phases_free[OF p, of t] t by simp
    have sg: "signaled (lock s) = 1" using True by simp
    let ?b = "holds_lock t rd (a\<lparr>sq := q\<rparr>)"
    obtain lk' sigs' where g: "fifo_resume_queued 0 (slot (lock s) 0) rd (lock s) = (Returns (0 = (0::int)), lk', sigs')"
        "lk_rel lk' ?b" "may_hold rd a" "lk_head lk' = (lk_head (lock s) + 1) mod FIFO_LOCK_QUEUE_LENGTH"
        "signaled lk' = 1 \<longrightarrow> Slot_Cond (lk_head lk') \<in> set sigs'"
      using resume_granted[OF rel q sg tn] .
    have o: "out = Returns True" "lk = lk'" "sigs = sigs'" using run g(1) True k(3) by auto
    have p': "phases_ok s' ?b" by (rule phases_grant[OF p r q]) (use s' o g(4) in simp_all)
    have "fst (hd (sq ?b)) \<in> W" if "signaled lk' = 1"
    proof (rule head_woken[OF p' _ _ _ w])
      show "ring_ok (lock s') (map snd (sq ?b))" using g(2) s'(1) o by (simp add: lk_rel_def)
      show "sq ?b \<noteq> []" using signaled_turn[OF g(2) that] .
      show "Slot_Cond (lk_head (lock s')) \<in> set sigs" using g(5) that s'(1) o by simp
    qed
    then have "lock_abs s' ?b" using g(2) p' s' o by (auto simp: lock_abs_def)
    then show ?thesis using spec_grant[OF q g(3)] by auto
  next
    case False
    have "\<not> is_signaled (lk_array (lock s) ! i)" using ring_array[OF r kN] k(3) False by auto
    from resume_spurious[OF this] have o: "out = Waits_In_Queue i" "lk = lock s" using run by auto
    have phs: "ph s' = ph s" using s'(2) t o by (simp add: fun_upd_idem)
    have "phases_ok s' a" using p s'(1) o phs by (simp add: phases_ok_def)
    moreover have "fst (hd (sq a)) \<noteq> t" if "signaled (lock s) = 1"
    proof
      assume "fst (hd (sq a)) = t"
      then have "slot (lock s) 0 = slot (lock s) k"
        using phases_slot[OF p, of 0] k t by (cases "sq a") auto
      then show False using slot_inj[OF r, of 0 k] kN False that N by simp
    qed
    ultimately have "lock_abs s' a" using rel wk s' o by (auto simp: lock_abs_def)
    then show ?thesis by blast
  qed
qed

lemma step_simulates:
  assumes "lock_step s s'" "lock_abs s a"
  shows "\<exists>a'. lock_abs s' a' \<and> (a' = a \<or> spec_step a a')"
proof -
  have rel: "lk_rel (lock s) a" and p: "phases_ok s a"
    and wk: "signaled (lock s) = 1 \<longrightarrow> fst (hd (sq a)) \<in> woken s"
    using assms(2) by (auto simp: lock_abs_def)
  show ?thesis
    using assms(1)
  proof (cases rule: lock_step.cases)
    case (call t rd out lk)
    show ?thesis
      by (rule enter_simulates[OF rel p, of t rd out lk]) (use call wk in \<open>simp_all add: fifo_call_def\<close>)
  next
    case (outside t rd out lk)
    let ?lk = "(lock s)\<lparr>lk_waiting := lk_waiting (lock s) - 1\<rparr>"
    have "fst (hd (sq a)) \<noteq> t" if "signaled (lock s) = 1"
      using not_queued[OF p, of t 0] signaled_turn[OF rel that] outside(2) by (simp add: hd_conv_nth)
    then show ?thesis
      by (intro enter_simulates[of ?lk a s t rd out lk])
        (use outside wk rel p in \<open>simp_all add: fifo_resume_outside_def lk_rel_waiting\<close>)
  next
    case (queued t i rd out lk sigs pp W)
    show ?thesis
      by (rule queued_simulates[OF assms(2) queued(2,3)]) (use queued in simp_all)
  next
    case (unlock t rd ok lk sigs pp W)
    let ?b = "releases t a"
    have t: "t \<in> (if rd then rds a else wrs a)" using phases_holding[OF p unlock(2)] .
    obtain lk' sigs' where u: "sge_fifo_ulock 0 0 rd (lock s) = (0 = (0::int), lk', sigs')"
        "lk_rel lk' ?b" "lk_head lk' = lk_head (lock s)"
        "signaled lk' = 1 \<longrightarrow> signaled (lock s) = 1 \<or> Slot_Cond (lk_head lk') \<in> set sigs'"
      using unlock_rel[OF rel t] .
    have o: "lk = lk'" "sigs = sigs'" using unlock(3) u(1) by auto
    have p': "phases_ok s' ?b" by (rule phases_release[OF p unlock(2)]) (use unlock o u(3) in simp_all)
    have "fst (hd (sq ?b)) \<in> woken s'" if sg: "signaled lk' = 1"
    proof (cases "signaled (lock s) = 1")
      case True
      then show ?thesis using wk unlock(1) by (simp add: releases_def)
    next
      case False
      have "fst (hd (sq ?b)) \<in> W"
      proof (rule head_woken[OF p'])
        show "ring_ok (lock s') (map snd (sq ?b))" using u(2) unlock(1) o by (simp add: lk_rel_def)
        show "sq ?b \<noteq> []" using signaled_turn[OF u(2) sg] .
        show "Slot_Cond (lk_head (lock s')) \<in> set sigs'" using u(4) False sg unlock(1) o by simp
        show "signal_wakes sigs' (ph s') W" using unlock o by simp
      qed
      then show ?thesis using unlock(1) by simp
    qed
    then have "lock_abs s' ?b" using u(2) p' unlock(1) o by (simp add: lock_abs_def)
    then show ?thesis using spec_release[of t a] t by (auto simp: releases_def split: if_splits)
  qed
qed

abbreviation free_lock :: "'t fifo_spec" where
  "free_lock \<equiv> \<lparr>sq = [], rds = {}, wrs = {}\<rparr>"

lemma reachable_abs: "lock_reachable s \<Longrightarrow> \<exists>a. spec_step\<^sup>*\<^sup>* free_lock a \<and> lock_abs s a"
proof (induction rule: lock_reachable.induct)
  case (start mem lrets lk0 lk)
  have "lock_abs \<lparr>lock = lk, ph = (\<lambda>_. Idle), woken = {}\<rparr> free_lock"
    using lock_init[OF start] by (auto simp: lock_abs_def phases_ok_def lk_rel_def turn_ok_def)
  then show ?case by blast
next
  case (step s s')
  then obtain a a' where "spec_step\<^sup>*\<^sup>* free_lock a" "lock_abs s' a'" "a' = a \<or> spec_step a a'"
    using step_simulates by blast
  then show ?case by (auto intro: rtranclp.rtrancl_into_rtrancl)
qed

section \<open>Properties\<close>

text \<open>The system that the witnesses look at: a writer has the lock and a reader waits for it.\<close>

definition fresh_lock :: sge_fifo_rw_lock where
  "fresh_lock = \<lparr>lk_array = replicate 64 \<lparr>is_reader = False, is_signaled = False\<rparr>, lk_head = 0,
     lk_tail = 0, lk_size = 64, reader_active = 0, reader_waiting = 0, writer_active = 0,
     writer_waiting = 0, lk_waiting = 0, signaled = 0\<rparr>"

definition idle_system :: "nat system" where
  "idle_system = \<lparr>lock = fresh_lock, ph = (\<lambda>_. Idle), woken = {}\<rparr>"

definition write_system :: "nat system" where
  "write_system = \<lparr>lock = fresh_lock\<lparr>writer_active := 1\<rparr>, ph = (\<lambda>_. Idle)(0 := Holding False), woken = {}\<rparr>"

definition wait_system :: "nat system" where
  "wait_system = \<lparr>lock = fresh_lock\<lparr>writer_active := 1, reader_waiting := 1, lk_tail := 1,
       lk_array := (lk_array fresh_lock)[0 := \<lparr>is_reader = True, is_signaled = False\<rparr>]\<rparr>,
     ph = (\<lambda>_. Idle)(0 := Holding False, 1 := Queued 0 True), woken = {}\<rparr>"

lemma init_replicate:
  "init_array (replicate n 0) (replicate n e) =
     (0, replicate n (e\<lparr>is_reader := False, is_signaled := False\<rparr>))"
  by (induction n) simp_all

lemma idle_reachable: "lock_reachable idle_system"
  unfolding idle_system_def
proof (rule lock_reachable.start)
  show "sge_fifo_lock_init 0 (Some (replicate 64 \<lparr>is_reader = True, is_signaled = True\<rparr>))
      (replicate 64 0) 0 fresh_lock = (True, fresh_lock)"
    by (simp add: sge_fifo_lock_init_def init_replicate fresh_lock_def N)
qed (simp_all add: N)

lemma write_step: "lock_step idle_system write_system"
proof -
  have "fifo_call 0 0 False (lock idle_system) = (Returns True, lock write_system)"
    by (simp add: fifo_call_def fifo_enter_def idle_system_def write_system_def fresh_lock_def
        take_lock_def N)
  from lock_step.call[OF _ this, of 0] show ?thesis
    by (simp add: idle_system_def write_system_def)
qed

lemma wait_step: "lock_step write_system wait_system"
proof -
  have "fifo_call 0 0 True (lock write_system) = (Waits_In_Queue 0, lock wait_system)"
    by (simp add: fifo_call_def fifo_enter_def write_system_def wait_system_def fresh_lock_def
        add_waiting_def N)
  from lock_step.call[OF _ this, of 1] show ?thesis
    by (simp add: write_system_def wait_system_def)
qed

lemma wait_reachable: "lock_reachable wait_system"
  using lock_reachable.step lock_reachable.step[OF idle_reachable write_step] wait_step by blast

text \<open>
  C2. The lock implements the specification: each reachable state of the interleaved requests
  stands for a state that the specification reaches, and a step from it is one step of the
  specification or none. So the ring of 64 slots with its wrapping head and tail, the counters
  and the flags amount to one queue, in the order of arrival.
\<close>

theorem fifo_lock_refines_queue:
  assumes "lock_reachable s"
  shows "(\<exists>a. spec_step\<^sup>*\<^sup>* free_lock a \<and> lock_abs s a) \<and>
    (\<forall>s' a. lock_step s s' \<and> lock_abs s a \<longrightarrow> (\<exists>a'. lock_abs s' a' \<and> (a' = a \<or> spec_step a a')))"
  using reachable_abs[OF assms] step_simulates by blast

theorem fifo_lock_refines_queue_witness:
  "\<exists>a a'. lock_abs write_system a \<and> lock_abs wait_system a' \<and> (a' = a \<or> spec_step a a')"
  using fifo_lock_refines_queue[OF lock_reachable.step[OF idle_reachable write_step]] wait_step by blast

text \<open>
  C3. Readers and writers exclude each other: at most one request holds the lock for writing, and
  then none for reading; the counters of the lock are the numbers of the holders.
\<close>

theorem fifo_lock_mutual_exclusion:
  assumes "lock_reachable s"
  shows "reader_active (lock s) = int (card {t. ph s t = Holding True}) \<and>
    writer_active (lock s) = int (card {t. ph s t = Holding False}) \<and>
    (\<forall>t u rd. ph s t = Holding False \<and> ph s u = Holding rd \<longrightarrow> u = t)"
proof -
  obtain a where "lock_abs s a" using reachable_abs[OF assms] by blast
  then have c: "counts_ok (lock s) a" and p: "phases_ok s a"
    and ex: "wrs a = {} \<or> (rds a = {} \<and> card (wrs a) = 1)"
    by (auto simp: lock_abs_def lk_rel_def)
  have "u = t" if "ph s t = Holding False" "ph s u = Holding rd" for t u rd
    using phases_holding[OF p that(1)] phases_holding[OF p that(2)] ex
    by (auto simp: card_1_singleton_iff split: if_splits)
  then show ?thesis using c p by (auto simp: counts_ok_def phases_ok_def)
qed

theorem fifo_lock_mutual_exclusion_witness:
  "{u. \<exists>rd. ph wait_system u = Holding rd} = {0}"
proof -
  have "ph wait_system 0 = Holding False" by (simp add: wait_system_def)
  then show ?thesis using fifo_lock_mutual_exclusion[OF wait_reachable] by blast
qed

text \<open>
  Nobody overtakes: a request that gets the lock was the first of the queue, or nobody was in
  the queue.
\<close>

theorem fifo_lock_no_overtaking:
  assumes "lock_reachable s" "lock_step s s'"
    and "ph s' t = Holding rd" "ph s t \<noteq> Holding rd"
  shows "ph s t = Queued (lk_head (lock s)) rd \<or> (\<forall>u i r. ph s u \<noteq> Queued i r)"
proof -
  obtain a where a: "lock_abs s a" using reachable_abs[OF assms(1)] by blast
  have p: "phases_ok s a" and r: "ring_ok (lock s) (map snd (sq a))"
    using a by (auto simp: lock_abs_def lk_rel_def)
  obtain a' where a': "lock_abs s' a'" "a' = a \<or> spec_step a a'"
    using step_simulates[OF assms(2) a] by blast
  have p': "phases_ok s' a'" using a' by (simp add: lock_abs_def)
  have new: "t \<in> (if rd then rds a' else wrs a')" "t \<notin> (if rd then rds a else wrs a)"
    using phases_holding[OF p' assms(3)] p assms(4) by (auto simp: phases_ok_def)
  have "(\<exists>q. sq a = (t, rd) # q) \<or> sq a = []"
    using a'(2)
  proof
    assume "spec_step a a'"
    then show ?thesis
      by cases (use new in \<open>auto simp: holds_lock_def split: if_splits\<close>)
  qed (use new in auto)
  then show ?thesis
  proof
    assume "\<exists>q. sq a = (t, rd) # q"
    then show ?thesis using first_phase[OF p r] by auto
  next
    assume "sq a = []"
    then show ?thesis using p by (auto simp: phases_ok_def)
  qed
qed

theorem fifo_lock_no_overtaking_witness:
  "ph idle_system 0 = Queued (lk_head (lock idle_system)) False \<or>
     (\<forall>u i r. ph idle_system u \<noteq> Queued i r)"
  by (rule fifo_lock_no_overtaking[OF idle_reachable write_step])
    (simp_all add: idle_system_def write_system_def)

text \<open>
  C4. No wake-up is lost: while a request is in the queue, some request holds the lock, or the
  first one has been signaled and gets the lock when its wait returns.
\<close>

theorem fifo_lock_no_lost_wakeup:
  assumes "lock_reachable s" "ph s u = Queued i r"
  shows "(\<exists>t rd. ph s t = Holding rd) \<or>
    (\<exists>t \<in> woken s. \<exists>rd. ph s t = Queued (lk_head (lock s)) rd \<and>
       fst (fifo_resume_queued 0 (lk_head (lock s)) rd (lock s)) = Returns True)"
proof -
  obtain a where a: "lock_abs s a" using reachable_abs[OF assms(1)] by blast
  then have p: "phases_ok s a" and rel: "lk_rel (lock s) a"
    and w: "signaled (lock s) = 1 \<longrightarrow> fst (hd (sq a)) \<in> woken s"
    by (auto simp: lock_abs_def)
  have r: "ring_ok (lock s) (map snd (sq a))" and turn: "turn_ok (lock s) a"
    using rel by (auto simp: lk_rel_def)
  obtain k where "k < length (sq a)" using phases_queued[OF p assms(2)] .
  then obtain t rd q where q: "sq a = (t, rd) # q" by (cases "sq a") auto
  have t: "ph s t = Queued (lk_head (lock s)) rd" using first_phase[OF p r] q by simp
  show ?thesis
  proof (cases "rds a = {} \<and> wrs a = {}")
    case True
    then have sg: "signaled (lock s) = 1" using turn q by (simp add: turn_ok_def may_hold_def)
    have "t \<notin> rds a \<union> wrs a" using True by simp
    from resume_granted[OF rel q sg this, of 0]
    have "fst (fifo_resume_queued 0 (lk_head (lock s)) rd (lock s)) = Returns True"
      unfolding slot_0[OF r] by (metis fst_conv)
    then show ?thesis using w sg q t by auto
  next
    case False
    then show ?thesis using p by (auto simp: phases_ok_def)
  qed
qed

theorem fifo_lock_no_lost_wakeup_witness:
  "(\<exists>t rd. ph wait_system t = Holding rd) \<or>
    (\<exists>t \<in> woken wait_system. \<exists>rd. ph wait_system t = Queued (lk_head (lock wait_system)) rd \<and>
       fst (fifo_resume_queued 0 (lk_head (lock wait_system)) rd (lock wait_system)) = Returns True)"
  by (rule fifo_lock_no_lost_wakeup[OF wait_reachable, of 1 0 True]) (simp add: wait_system_def)

end
