(* ===== verification/Hash_Table.thy ===== *)
theory Hash_Table
  imports Hostname
begin

unbundle bit_operations_syntax

text \<open>
  The hash tables of \<^verbatim>\<open>source/libs/uti/sge_htable.c\<close>, which index CULL lists, hosts and
  connections. The structure keeps the functions of its user, as in the code; a bucket list is a
  list of keys and data, its first entry the one the table points to. The C type \<open>int\<close> that a
  hash function returns is an \<open>int\<close> of HOL in the range of 32 bits; the conjunction with the mask
  is the one on two's complement numbers of any width. Memory is always found.
\<close>

section \<open>Operations\<close>

record ('k, 'v) htable_rec =
  ht_table :: "('k \<times> 'v) list list"
  ht_size :: nat
  ht_mask :: int
  numentries :: int
  hash_func :: "'k \<Rightarrow> int"
  compare_func :: "'k \<Rightarrow> 'k \<Rightarrow> int"

abbreviation (input) HASH_RESIZE_UP_THRESHOLD :: nat where "HASH_RESIZE_UP_THRESHOLD \<equiv> 0"
abbreviation (input) HASH_RESIZE_DOWN_THRESHOLD :: nat where "HASH_RESIZE_DOWN_THRESHOLD \<equiv> 1"

definition bucket_index :: "('k, 'v) htable_rec \<Rightarrow> 'k \<Rightarrow> nat" where
  "bucket_index ht key = nat (hash_func ht key AND ht_mask ht)"

text \<open>The two loops of \<open>sge_htable_resize\<close>: the buckets of a list, the lists of the old table.\<close>

fun rehash_chain ::
  "('k \<Rightarrow> nat) \<Rightarrow> ('k \<times> 'v) list \<Rightarrow> ('k \<times> 'v) list list \<Rightarrow> ('k \<times> 'v) list list" where
  "rehash_chain ix [] table = table"
| "rehash_chain ix (bucket # next) table =
     rehash_chain ix next (table[ix (fst bucket) := bucket # table ! ix (fst bucket)])"

fun rehash_table ::
  "('k \<Rightarrow> nat) \<Rightarrow> ('k \<times> 'v) list list \<Rightarrow> ('k \<times> 'v) list list \<Rightarrow> ('k \<times> 'v) list list" where
  "rehash_table ix [] table = table"
| "rehash_table ix (chain # rest) table = rehash_table ix rest (rehash_chain ix chain table)"

definition sge_htable_resize :: "bool \<Rightarrow> ('k, 'v) htable_rec \<Rightarrow> ('k, 'v) htable_rec" where
  "sge_htable_resize grow ht =
     (let otable = ht_table ht; otablesize = push_bit (ht_size ht) 1 in
      if \<not> grow \<and> \<not> ht_size ht > 2 then ht
      else
        (let size = (if grow then ht_size ht + 1 else ht_size ht - 1);
             ht1 = ht\<lparr>ht_size := size, ht_mask := push_bit size 1 - 1\<rparr>
         in ht1\<lparr>ht_table := rehash_table (bucket_index ht1) (take otablesize otable)
              (replicate (push_bit size 1) [])\<rparr>))"

definition sge_htable_create ::
  "nat \<Rightarrow> ('k \<Rightarrow> int) \<Rightarrow> ('k \<Rightarrow> 'k \<Rightarrow> int) \<Rightarrow> ('k, 'v) htable_rec" where
  "sge_htable_create sz hash_fn compare_fn =
     \<lparr>ht_table = replicate (nat ((push_bit sz 1 - 1) + 1)) [], ht_size = sz,
      ht_mask = push_bit sz 1 - 1, numentries = 0, hash_func = hash_fn, compare_func = compare_fn\<rparr>"

text \<open>The loop of \<open>sge_htable_store\<close>: the chain with new data for the key, if it has the key.\<close>

fun replace_data ::
  "('k \<Rightarrow> 'k \<Rightarrow> int) \<Rightarrow> 'k \<Rightarrow> 'v \<Rightarrow> ('k \<times> 'v) list \<Rightarrow> ('k \<times> 'v) list option" where
  "replace_data compare key data [] = None"
| "replace_data compare key data ((k, d) # next) =
     (if compare k key = 0 then Some ((k, data) # next)
      else map_option ((#) (k, d)) (replace_data compare key data next))"

definition sge_htable_store :: "('k, 'v) htable_rec \<Rightarrow> 'k \<Rightarrow> 'v \<Rightarrow> ('k, 'v) htable_rec" where
  "sge_htable_store table key data =
     (let head = bucket_index table key in
      case replace_data (compare_func table) key data (ht_table table ! head) of
        Some chain \<Rightarrow> table\<lparr>ht_table := (ht_table table)[head := chain]\<rparr>
      | None \<Rightarrow>
          (let table1 = table\<lparr>
             ht_table := (ht_table table)[head := (key, data) # ht_table table ! head],
             numentries := numentries table + 1\<rparr>
           in if numentries table1 > push_bit HASH_RESIZE_UP_THRESHOLD (ht_mask table1)
              then sge_htable_resize True table1 else table1))"

text \<open>\<open>None\<close> is the result \<open>False\<close>, with \<open>*data\<close> left alone.\<close>

fun lookup_chain :: "('k \<Rightarrow> 'k \<Rightarrow> int) \<Rightarrow> 'k \<Rightarrow> ('k \<times> 'v) list \<Rightarrow> 'v option" where
  "lookup_chain compare key [] = None"
| "lookup_chain compare key ((k, d) # next) =
     (if compare k key = 0 then Some d else lookup_chain compare key next)"

definition sge_htable_lookup :: "('k, 'v) htable_rec \<Rightarrow> 'k \<Rightarrow> 'v option" where
  "sge_htable_lookup table key =
     lookup_chain (compare_func table) key (ht_table table ! bucket_index table key)"

text \<open>The loop of \<open>sge_htable_delete\<close>: the chain without the bucket, if it has one.\<close>

fun unlink_bucket :: "('k \<Rightarrow> 'k \<Rightarrow> int) \<Rightarrow> 'k \<Rightarrow> ('k \<times> 'v) list \<Rightarrow> ('k \<times> 'v) list option" where
  "unlink_bucket compare key [] = None"
| "unlink_bucket compare key ((k, d) # next) =
     (if compare k key = 0 then Some next
      else map_option ((#) (k, d)) (unlink_bucket compare key next))"

definition sge_htable_delete :: "('k, 'v) htable_rec \<Rightarrow> 'k \<Rightarrow> ('k, 'v) htable_rec" where
  "sge_htable_delete table key =
     (let head = bucket_index table key in
      case unlink_bucket (compare_func table) key (ht_table table ! head) of
        None \<Rightarrow> table
      | Some chain \<Rightarrow>
          (let table1 = table\<lparr>ht_table := (ht_table table)[head := chain],
             numentries := numentries table - 1\<rparr>
           in if numentries table1 < drop_bit HASH_RESIZE_DOWN_THRESHOLD (ht_mask table1)
              then sge_htable_resize False table1 else table1))"

text \<open>
  \<open>sge_htable_for_each\<close> with a procedure that works on a state and may change the data, but not
  the table.
\<close>

fun for_each_bucket ::
  "('s \<Rightarrow> 'k \<Rightarrow> 'v \<Rightarrow> 's \<times> 'v) \<Rightarrow> ('k \<times> 'v) list \<Rightarrow> 's \<Rightarrow> 's \<times> ('k \<times> 'v) list" where
  "for_each_bucket proc [] s = (s, [])"
| "for_each_bucket proc ((k, d) # next) s =
     (let (s1, d') = proc s k d; (s2, next') = for_each_bucket proc next s1 in (s2, (k, d') # next'))"

fun for_each_chain ::
  "('s \<Rightarrow> 'k \<Rightarrow> 'v \<Rightarrow> 's \<times> 'v) \<Rightarrow> ('k \<times> 'v) list list \<Rightarrow> 's \<Rightarrow> 's \<times> ('k \<times> 'v) list list" where
  "for_each_chain proc [] s = (s, [])"
| "for_each_chain proc (chain # rest) s =
     (let (s1, chain') = for_each_bucket proc chain s; (s2, rest') = for_each_chain proc rest s1
      in (s2, chain' # rest'))"

definition sge_htable_for_each ::
  "('k, 'v) htable_rec \<Rightarrow> ('s \<Rightarrow> 'k \<Rightarrow> 'v \<Rightarrow> 's \<times> 'v) \<Rightarrow> 's \<Rightarrow> 's \<times> ('k, 'v) htable_rec" where
  "sge_htable_for_each table proc s =
     (let n = nat (ht_mask table + 1);
          (s', rest) = for_each_chain proc (take n (ht_table table)) s
      in (s', table\<lparr>ht_table := rest @ drop n (ht_table table)\<rparr>))"

section \<open>Hash and compare functions\<close>

text \<open>A conversion to \<open>int\<close> keeps the low 32 bits.\<close>

definition c_int :: "'a::len word \<Rightarrow> int" where
  "c_int w = sint (ucast w :: 32 word)"

definition hash_func_u_long32 :: "32 word \<Rightarrow> int" where
  "hash_func_u_long32 key = c_int key"

definition hash_func_u_long64 :: "64 word \<Rightarrow> int" where
  "hash_func_u_long64 key = c_int key"

definition hash_func_long :: "64 word \<Rightarrow> int" where
  "hash_func_long key = c_int key"

definition hash_func_pointer :: "64 word \<Rightarrow> int" where
  "hash_func_pointer key = c_int (signed_drop_bit 7 key)"

text \<open>The loop of \<open>hash_func_string\<close> adds every character, and the terminating zero.\<close>

definition c_char :: "char \<Rightarrow> 32 word" where
  "c_char c = scast (of_char c :: 8 word)"

fun hash_string :: "32 word \<Rightarrow> string \<Rightarrow> 32 word" where
  "hash_string h [] = h + (push_bit 3 h + 0)"
| "hash_string h (c # cs) = hash_string (h + (push_bit 3 h + c_char c)) cs"

definition hash_func_string :: "string option \<Rightarrow> int" where
  "hash_func_string key = (case key of None \<Rightarrow> 0 | Some cs \<Rightarrow> sint (hash_string 0 cs))"

definition hash_compare_u_long32 :: "32 word \<Rightarrow> 32 word \<Rightarrow> int" where
  "hash_compare_u_long32 a b = c_int (a - b)"

definition hash_compare_u_long64 :: "64 word \<Rightarrow> 64 word \<Rightarrow> int" where
  "hash_compare_u_long64 a b = c_int (a - b)"

definition hash_compare_long :: "64 word \<Rightarrow> 64 word \<Rightarrow> int" where
  "hash_compare_long a b = c_int (a - b)"

definition hash_compare_pointer :: "64 word \<Rightarrow> 64 word \<Rightarrow> int" where
  "hash_compare_pointer a b = (if a \<noteq> b then 1 else 0)"

definition hash_compare_string :: "string \<Rightarrow> string \<Rightarrow> int" where
  "hash_compare_string a b = strcmp a b"

function hash_size_loop :: "nat \<Rightarrow> int \<Rightarrow> nat" where
  "hash_size_loop sz number_of_elem =
     (if number_of_elem > 0 then hash_size_loop (sz + 1) (drop_bit 1 number_of_elem) else sz)"
  by auto

lemma drop_bit_1 [simp]: "drop_bit (Suc 0) (n :: int) = n div 2"
  by (simp add: drop_bit_eq_div)

termination hash_size_loop
  by (relation "measure (\<lambda>(size, n). nat n)") auto

definition hash_compute_size :: "int \<Rightarrow> nat" where
  "hash_compute_size number_of_elem = hash_size_loop 0 number_of_elem"

declare hash_size_loop.simps [simp del]

end
