(* ===== verification/Hash_Facts.thy ===== *)
theory Hash_Facts
  imports Hash_Table "HOL-Library.Multiset"
begin

text \<open>
  A hash table is a map: with a compare function that tells keys apart, every sequence of stores
  and deletions leaves the table that a map would be, whatever the hash function and however
  often the table is resized. The compare functions for 64-bit keys do not tell keys apart.
\<close>

section \<open>The contract of the functions of a table\<close>

locale hash_key =
  fixes hash :: "'k \<Rightarrow> int" and cmp :: "'k \<Rightarrow> 'k \<Rightarrow> int"
  assumes cmp_law: "cmp a b = 0 \<longleftrightarrow> a = b"

section \<open>Chains\<close>

definition entries :: "('k, 'v) htable_rec \<Rightarrow> ('k \<times> 'v) list" where
  "entries ht = concat (ht_table ht)"

definition ht_map :: "('k, 'v) htable_rec \<Rightarrow> 'k \<Rightarrow> 'v option" where
  "ht_map ht = map_of (entries ht)"

definition homed :: "('k \<Rightarrow> nat) \<Rightarrow> ('k \<times> 'v) list list \<Rightarrow> bool" where
  "homed ix table \<longleftrightarrow> (\<forall>i < length table. \<forall>e \<in> set (table ! i). ix (fst e) = i)"

definition table_ok :: "('k \<Rightarrow> nat) \<Rightarrow> ('k \<times> 'v) list list \<Rightarrow> bool" where
  "table_ok ix table \<longleftrightarrow> homed ix table \<and> (\<forall>k. ix k < length table) \<and>
     distinct (map fst (concat table))"

lemma map_of_iff: "distinct (map fst xs) \<Longrightarrow> map_of xs k = Some v \<longleftrightarrow> (k, v) \<in> set xs"
  by (rule map_of_eq_Some_iff)

lemma option_ext: "(\<And>v. a = Some v \<longleftrightarrow> b = Some v) \<Longrightarrow> a = b"
  by (cases a; cases b) auto

lemma map_of_mset:
  assumes "mset xs = mset ys" "distinct (map fst xs)"
  shows "map_of xs = map_of ys" "distinct (map fst ys)"
proof -
  have "mset (map fst xs) = mset (map fst ys)" using assms(1) by simp
  then show d: "distinct (map fst ys)" using assms(2) mset_eq_imp_distinct_iff by blast
  have "set xs = set ys" using assms(1) by (rule mset_eq_setD)
  then show "map_of xs = map_of ys"
    using assms(2) d by (intro ext option_ext) (simp add: map_of_iff)
qed

lemma concat_update:
  "i < length t \<Longrightarrow> mset (concat (t[i := c])) = mset c + mset (concat (t[i := []]))"
  by (induction t arbitrary: i) (auto split: nat.split)

lemma concat_nth: "i < length t \<Longrightarrow> mset (concat t) = mset (t ! i) + mset (concat (t[i := []]))"
  using concat_update[of i t "t ! i"] by simp

lemma distinct_nth:
  assumes "distinct (map fst (concat t))" "i < length t"
  shows "distinct (map fst (t ! i))"
proof -
  have "mset (concat t) = mset (t ! i @ concat (t[i := []]))" using concat_nth[OF assms(2)] by simp
  from map_of_mset(2)[OF this assms(1)] show ?thesis by simp
qed

lemma homed_in:
  "homed ix t \<Longrightarrow> i < length t \<Longrightarrow> e \<in> set (t ! i) \<Longrightarrow> ix (fst e) = i"
  by (simp add: homed_def)

lemma homed_update:
  "homed ix t \<Longrightarrow> \<forall>e \<in> set c. ix (fst e) = i \<Longrightarrow> homed ix (t[i := c])"
  by (cases "i < length t") (auto simp: homed_def nth_list_update split: if_splits)

text \<open>A key is looked up in its own chain.\<close>

lemma map_of_concat:
  assumes "table_ok ix t"
  shows "map_of (concat t) k = map_of (t ! ix k) k"
proof (rule option_ext)
  fix v
  have h: "homed ix t" and l: "ix k < length t" and d: "distinct (map fst (concat t))"
    using assms by (auto simp: table_ok_def)
  have "(k, v) \<in> set (concat t) \<longleftrightarrow> (k, v) \<in> set (t ! ix k)"
    using homed_in[OF h, of _ "(k, v)"] l by (fastforce simp: in_set_conv_nth[of _ t])
  then show "map_of (concat t) k = Some v \<longleftrightarrow> map_of (t ! ix k) k = Some v"
    using map_of_iff[OF d] map_of_iff[OF distinct_nth[OF d l]] by simp
qed

section \<open>Resizing\<close>

lemma rehash_chain_props:
  assumes "\<forall>k. ix k < length t" "homed ix t"
  shows "length (rehash_chain ix c t) = length t \<and> homed ix (rehash_chain ix c t) \<and>
    mset (concat (rehash_chain ix c t)) = mset c + mset (concat t)"
  using assms
proof (induction c arbitrary: t)
  case (Cons b c)
  let ?i = "ix (fst b)"
  let ?t = "t[?i := b # t ! ?i]"
  have i: "?i < length t" using Cons.prems by simp
  have "homed ix ?t"
    using Cons.prems homed_in[OF Cons.prems(2) i] by (intro homed_update) auto
  moreover have "mset (concat ?t) = add_mset b (mset (concat t))"
    using concat_update[OF i, of "b # t ! ?i"] concat_nth[OF i] by simp
  ultimately show ?case using Cons.IH[of ?t] Cons.prems(1) by simp
qed simp

lemma rehash_table_props:
  assumes "\<forall>k. ix k < length t" "homed ix t"
  shows "length (rehash_table ix cs t) = length t \<and> homed ix (rehash_table ix cs t) \<and>
    mset (concat (rehash_table ix cs t)) = mset (concat cs) + mset (concat t)"
  using assms
proof (induction cs arbitrary: t)
  case (Cons c cs)
  then show ?case using rehash_chain_props[OF Cons.prems, of c] Cons.IH[of "rehash_chain ix c t"]
    by (simp add: add.commute add.left_commute)
qed simp

section \<open>The invariant\<close>

text \<open>No more entries than the mask: on average less than one entry in a chain.\<close>

definition ht_shape :: "('k, 'v) htable_rec \<Rightarrow> bool" where
  "ht_shape ht \<longleftrightarrow> ht_mask ht = 2 ^ ht_size ht - 1 \<and> length (ht_table ht) = 2 ^ ht_size ht \<and>
     table_ok (bucket_index ht) (ht_table ht) \<and> numentries ht = int (length (entries ht))"

lemma index_less: "ht_mask ht = 2 ^ ht_size ht - 1 \<Longrightarrow> bucket_index ht k < 2 ^ ht_size ht"
proof -
  assume "ht_mask ht = 2 ^ ht_size ht - 1"
  then have "hash_func ht k AND ht_mask ht = hash_func ht k mod 2 ^ ht_size ht"
    by (simp add: take_bit_eq_mod flip: mask_eq_exp_minus_1 take_bit_eq_mask)
  then show ?thesis by (simp add: bucket_index_def nat_less_iff)
qed

lemma push_1 [simp]: "push_bit n (1 :: 'a :: linordered_euclidean_semiring_bit_operations) = 2 ^ n"
  by (simp add: push_bit_eq_mult)

lemma resize_props:
  assumes "ht_shape ht"
  shows "ht_shape (sge_htable_resize g ht) \<and> ht_map (sge_htable_resize g ht) = ht_map ht \<and>
    hash_func (sge_htable_resize g ht) = hash_func ht \<and>
    compare_func (sge_htable_resize g ht) = compare_func ht \<and>
    numentries (sge_htable_resize g ht) = numentries ht \<and>
    ht_size (sge_htable_resize g ht) =
      (if g then ht_size ht + 1 else if ht_size ht > 2 then ht_size ht - 1 else ht_size ht)"
proof (cases "\<not> g \<and> \<not> ht_size ht > 2")
  case True
  then show ?thesis using assms by (simp add: sge_htable_resize_def Let_def)
next
  case False
  let ?n = "if g then ht_size ht + 1 else ht_size ht - 1"
  let ?h = "ht\<lparr>ht_size := ?n, ht_mask := 2 ^ ?n - 1\<rparr>"
  let ?t = "rehash_table (bucket_index ?h) (ht_table ht) (replicate (2 ^ ?n) [])"
  have eq: "sge_htable_resize g ht = ?h\<lparr>ht_table := ?t\<rparr>"
  proof -
    have "take (2 ^ ht_size ht) (ht_table ht) = ht_table ht" using assms by (simp add: ht_shape_def)
    then show ?thesis using False unfolding sge_htable_resize_def Let_def by (simp only: push_1 if_False)
  qed
  have ix: "bucket_index (?h\<lparr>ht_table := ?t\<rparr>) = bucket_index ?h" by (simp add: bucket_index_def fun_eq_iff)
  have less: "bucket_index ?h k < 2 ^ ?n" for k using index_less[of ?h k] by simp
  have e: "concat (replicate m []) = ([] :: ('a \<times> 'b) list)" for m by (induction m) simp_all
  have r: "length ?t = 2 ^ ?n \<and> homed (bucket_index ?h) ?t \<and> mset (concat ?t) = mset (concat (ht_table ht))"
    using rehash_table_props[of "bucket_index ?h" "replicate (2 ^ ?n) []" "ht_table ht"] less e
    by (simp add: homed_def)
  have d: "distinct (map fst (concat (ht_table ht)))" using assms by (simp add: ht_shape_def table_ok_def)
  note m = map_of_mset[OF r[THEN conjunct2, THEN conjunct2, symmetric] d]
  have "length (concat ?t) = length (concat (ht_table ht))" using r by (metis size_mset)
  then have "ht_shape (?h\<lparr>ht_table := ?t\<rparr>)"
    using r m less assms unfolding ht_shape_def table_ok_def ix by (simp add: entries_def)
  then show ?thesis unfolding eq using m False by (auto simp: ht_map_def entries_def)
qed

lemma index_cong:
  "hash_func ht' = hash_func ht \<Longrightarrow> ht_mask ht' = ht_mask ht \<Longrightarrow> bucket_index ht' = bucket_index ht"
  by (simp add: bucket_index_def fun_eq_iff)

lemma lookup_map:
  assumes "ht_shape ht"
  shows "ht_map ht k = map_of (ht_table ht ! bucket_index ht k) k"
  using assms by (simp add: ht_shape_def ht_map_def entries_def map_of_concat)

text \<open>A table whose chain for a key has been replaced.\<close>

lemma chain_update:
  assumes sh: "ht_shape ht" and i: "i = bucket_index ht key"
    and keys: "\<forall>e \<in> set c. fst e \<noteq> key \<longrightarrow> fst e \<in> fst ` set (ht_table ht ! i)"
    and rest: "\<forall>k. k \<noteq> key \<longrightarrow> map_of c k = map_of (ht_table ht ! i) k"
    and d: "distinct (map fst c)"
    and n: "n = numentries ht + int (length c) - int (length (ht_table ht ! i))"
  shows "ht_shape (ht\<lparr>ht_table := (ht_table ht)[i := c], numentries := n\<rparr>) \<and>
    ht_map (ht\<lparr>ht_table := (ht_table ht)[i := c], numentries := n\<rparr>) = (ht_map ht)(key := map_of c key)"
proof -
  let ?ht = "ht\<lparr>ht_table := (ht_table ht)[i := c], numentries := n\<rparr>"
  let ?t = "ht_table ht" let ?ix = "bucket_index ht"
  have ok: "table_ok ?ix ?t" and len: "length ?t = 2 ^ ht_size ht" and ne: "numentries ht = int (length (concat ?t))"
    using sh by (auto simp: ht_shape_def entries_def)
  have il: "i < length ?t" using ok i by (simp add: table_ok_def)
  have h: "homed ?ix ?t" using ok by (simp add: table_ok_def)
  have hc: "\<forall>e \<in> set c. ?ix (fst e) = i"
  proof
    fix e assume e: "e \<in> set c"
    show "?ix (fst e) = i"
    proof (cases "fst e = key")
      case False
      then obtain e' where "e' \<in> set (?t ! i)" "fst e = fst e'" using keys e by blast
      then show ?thesis using homed_in[OF h il] by simp
    qed (simp add: i)
  qed
  have h': "homed ?ix (?t[i := c])" by (rule homed_update[OF h hc])
  let ?r = "concat (?t[i := []])"
  have dr: "distinct (map fst (?t ! i @ ?r))"
    using map_of_mset(2)[of "concat ?t" "?t ! i @ ?r"] concat_nth[OF il] ok by (simp add: table_ok_def)
  have "fst ` set c \<inter> fst ` set ?r = {}"
  proof -
    have "?ix (fst e) \<noteq> i" if e: "e \<in> set ?r" for e
    proof -
      obtain l where "l \<in> set (?t[i := []])" "e \<in> set l" using e unfolding set_concat by blast
      then obtain j where j: "j < length ?t" "e \<in> set (?t[i := []] ! j)"
        by (auto simp only: in_set_conv_nth[of l] length_list_update)
      then have "j \<noteq> i" using il by auto
      then show ?thesis using homed_in[OF h j(1), of e] j(2) by simp
    qed
    then show ?thesis using hc by fastforce
  qed
  then have "distinct (map fst (c @ ?r))" using d dr by auto
  then have d': "distinct (map fst (concat (?t[i := c])))"
    using map_of_mset(2)[of "c @ ?r" "concat (?t[i := c])"] concat_update[OF il, of c] by simp
  have ok': "table_ok ?ix (?t[i := c])" using ok h' d' by (simp add: table_ok_def)
  have "int (length (concat (?t[i := c]))) = int (length c) + int (length ?r)"
    using arg_cong[OF concat_update[OF il, of c], of size] by simp
  moreover have "int (length (concat ?t)) = int (length (?t ! i)) + int (length ?r)"
    using arg_cong[OF concat_nth[OF il], of size] by simp
  ultimately have len': "n = int (length (concat (?t[i := c])))" using n ne by simp
  have ix: "bucket_index ?ht = ?ix" by (rule index_cong) simp_all
  have sh': "ht_shape ?ht" using sh ok' len' unfolding ht_shape_def ix by (simp add: entries_def)
  have "ht_map ?ht k = ((ht_map ht)(key := map_of c key)) k" for k
    using lookup_map[OF sh', of k] lookup_map[OF sh, of k] rest il i unfolding ix
    by (cases "?ix k = i") auto
  then show ?thesis using sh' by blast
qed

section \<open>The operations, for any functions that keep the contract\<close>

definition ht_ok :: "('k \<Rightarrow> int) \<Rightarrow> ('k \<Rightarrow> 'k \<Rightarrow> int) \<Rightarrow> ('k, 'v) htable_rec \<Rightarrow> bool" where
  "ht_ok hash cmp ht \<longleftrightarrow> ht_shape ht \<and> hash_func ht = hash \<and> compare_func ht = cmp \<and>
     numentries ht \<le> ht_mask ht"

datatype ('k, 'v) ht_op = Store 'k 'v | Delete 'k

fun ht_run :: "('k, 'v) ht_op \<Rightarrow> ('k, 'v) htable_rec \<Rightarrow> ('k, 'v) htable_rec" where
  "ht_run (Store k v) ht = sge_htable_store ht k v"
| "ht_run (Delete k) ht = sge_htable_delete ht k"

fun ht_abs :: "('k, 'v) ht_op \<Rightarrow> ('k \<Rightarrow> 'v option) \<Rightarrow> 'k \<Rightarrow> 'v option" where
  "ht_abs (Store k v) m = m(k \<mapsto> v)"
| "ht_abs (Delete k) m = m(k := None)"

lemma create_ok:
  assumes h_def: "h = (sge_htable_create n hash cmp :: ('k, 'v) htable_rec)"
  shows "ht_ok hash cmp h \<and> ht_map h = Map.empty"
proof -
  let ?h = "sge_htable_create n hash cmp :: ('k, 'v) htable_rec"
  have e: "concat (replicate m []) = []" for m by (induction m) simp_all
  have 2: "nat (2 ^ n) = 2 ^ n" by (simp add: nat_power_eq)
  then have t: "ht_table ?h = replicate (2 ^ n) []" "ht_mask ?h = 2 ^ ht_size ?h - 1" "ht_size ?h = n"
    by (simp_all add: sge_htable_create_def)
  then show ?thesis using index_less[OF t(2)] e
    by (simp add: h_def ht_ok_def ht_shape_def table_ok_def homed_def ht_map_def entries_def)
      (simp add: sge_htable_create_def 2)
qed

context hash_key begin

lemma lookup_chain_eq: "lookup_chain cmp k c = map_of c k"
  by (induction c) (auto simp: cmp_law)

lemma replace_None: "replace_data cmp k d c = None \<longleftrightarrow> map_of c k = None"
  by (induction c) (auto simp: cmp_law)

lemma replace_Some:
  "replace_data cmp k d c = Some c' \<Longrightarrow> map fst c' = map fst c \<and> map_of c' = (map_of c)(k \<mapsto> d)"
  by (induction c arbitrary: c') (auto simp: cmp_law fun_eq_iff split: if_splits)

lemma unlink_None: "unlink_bucket cmp k c = None \<longleftrightarrow> map_of c k = None"
  by (induction c) (auto simp: cmp_law)

lemma unlink_Some:
  "unlink_bucket cmp k c = Some c' \<Longrightarrow> \<exists>xs d ys. c = xs @ (k, d) # ys \<and> c' = xs @ ys"
proof (induction c arbitrary: c')
  case (Cons e c)
  show ?case
  proof (cases "fst e = k")
    case True
    then have "e # c = [] @ (k, snd e) # c \<and> c' = [] @ c" using Cons.prems by (cases e) (auto simp: cmp_law)
    then show ?thesis by blast
  next
    case False
    then obtain c1 where c1: "unlink_bucket cmp k c = Some c1" "c' = e # c1"
      using Cons.prems by (cases e) (auto simp: cmp_law)
    then obtain xs d ys where "c = xs @ (k, d) # ys" "c1 = xs @ ys" using Cons.IH by blast
    then have "e # c = (e # xs) @ (k, d) # ys \<and> c' = (e # xs) @ ys" using c1 by simp
    then show ?thesis by blast
  qed
qed simp

lemma lookup_law:
  assumes "ht_ok hash cmp ht"
  shows "sge_htable_lookup ht k = ht_map ht k"
  using assms lookup_map[of ht k] by (simp add: ht_ok_def sge_htable_lookup_def lookup_chain_eq)

lemma resize_ok:
  assumes "ht_shape ht" "hash_func ht = hash" "compare_func ht = cmp"
    and "numentries ht \<le> (if g then 2 * ht_mask ht + 1 else ht_mask ht div 2)" "numentries ht \<le> ht_mask ht \<or> g"
  shows "ht_ok hash cmp (sge_htable_resize g ht) \<and> ht_map (sge_htable_resize g ht) = ht_map ht"
proof -
  let ?r = "sge_htable_resize g ht"
  note r = resize_props[OF assms(1), of g]
  have m: "ht_mask ?r = 2 ^ ht_size ?r - 1" "ht_mask ht = 2 ^ ht_size ht - 1"
    using r assms(1) by (auto simp: ht_shape_def)
  have "(2 ^ n - 1) div 2 = (2 :: int) ^ (n - 1) - 1" if "n > 2" for n
    using that by (cases n) simp_all
  then have "numentries ?r \<le> ht_mask ?r" using r assms(4,5) m by (auto split: if_splits)
  then show ?thesis using r assms by (simp add: ht_ok_def)
qed

lemma store_law:
  assumes ok: "ht_ok hash cmp ht"
  shows "ht_ok hash cmp (sge_htable_store ht k d) \<and> ht_map (sge_htable_store ht k d) = (ht_map ht)(k \<mapsto> d)"
proof -
  let ?i = "bucket_index ht k"
  let ?c = "ht_table ht ! ?i"
  have sh: "ht_shape ht" and cf: "compare_func ht = cmp" using ok by (auto simp: ht_ok_def)
  have "distinct (map fst (concat (ht_table ht)))" "?i < length (ht_table ht)"
    using sh by (auto simp: ht_shape_def table_ok_def)
  note dc = distinct_nth[OF this]
  show ?thesis
  proof (cases "replace_data cmp k d ?c")
    case None
    let ?h = "ht\<lparr>ht_table := (ht_table ht)[?i := (k, d) # ?c], numentries := numentries ht + 1\<rparr>"
    have "map_of ?c k = None" using None by (simp add: replace_None)
    then have "k \<notin> fst ` set ?c" by (simp add: map_of_eq_None_iff)
    then have h: "ht_shape ?h \<and> ht_map ?h = (ht_map ht)(k := map_of ((k, d) # ?c) k)"
      using dc by (intro chain_update[OF sh refl]) auto
    have eq: "sge_htable_store ht k d =
        (if numentries ?h > ht_mask ?h then sge_htable_resize True ?h else ?h)"
      using None by (simp add: sge_htable_store_def cf Let_def)
    have "ht_mask ht \<ge> 0" using sh by (simp add: ht_shape_def)
    then show ?thesis unfolding eq using h ok resize_ok[of ?h True] by (auto simp: ht_ok_def)
  next
    case (Some c)
    have c: "map fst c = map fst ?c" "map_of c = (map_of ?c)(k \<mapsto> d)" using replace_Some[OF Some] by auto
    let ?h = "ht\<lparr>ht_table := (ht_table ht)[?i := c], numentries := numentries ht\<rparr>"
    have "length c = length ?c" using arg_cong[OF c(1), of length] by simp
    moreover have "fst ` set c = fst ` set ?c" using c(1) by (metis set_map)
    ultimately have h: "ht_shape ?h \<and> ht_map ?h = (ht_map ht)(k := map_of c k)"
      using dc c by (intro chain_update[OF sh refl]) auto
    have eq: "sge_htable_store ht k d = ?h" using Some by (simp add: sge_htable_store_def cf Let_def)
    show ?thesis unfolding eq using h c ok by (simp add: ht_ok_def)
  qed
qed

lemma delete_law:
  assumes ok: "ht_ok hash cmp ht"
  shows "ht_ok hash cmp (sge_htable_delete ht k) \<and> ht_map (sge_htable_delete ht k) = (ht_map ht)(k := None)"
proof -
  let ?i = "bucket_index ht k"
  let ?c = "ht_table ht ! ?i"
  have sh: "ht_shape ht" and cf: "compare_func ht = cmp" using ok by (auto simp: ht_ok_def)
  have "distinct (map fst (concat (ht_table ht)))" "?i < length (ht_table ht)"
    using sh by (auto simp: ht_shape_def table_ok_def)
  note dc = distinct_nth[OF this]
  show ?thesis
  proof (cases "unlink_bucket cmp k ?c")
    case None
    then have "ht_map ht k = None" using lookup_map[OF sh, of k] by (simp add: unlink_None)
    moreover have "sge_htable_delete ht k = ht" using None by (simp add: sge_htable_delete_def cf Let_def)
    ultimately show ?thesis using ok by (simp add: fun_upd_idem)
  next
    case (Some c)
    let ?h = "ht\<lparr>ht_table := (ht_table ht)[?i := c], numentries := numentries ht - 1\<rparr>"
    obtain xs d ys where c: "?c = xs @ (k, d) # ys" "c = xs @ ys" using unlink_Some[OF Some] by blast
    have "k \<notin> fst ` set c" using dc c by auto
    then have n: "map_of c k = None" by (simp add: map_of_eq_None_iff)
    have h: "ht_shape ?h \<and> ht_map ?h = (ht_map ht)(k := map_of c k)"
      using dc c by (intro chain_update[OF sh refl]) (auto simp: map_add_def split: option.splits)
    have eq: "sge_htable_delete ht k =
        (if numentries ?h < ht_mask ?h div 2 then sge_htable_resize False ?h else ?h)"
      using Some by (simp add: sge_htable_delete_def cf Let_def)
    show ?thesis unfolding eq using h n ok resize_ok[of ?h False] by (auto simp: ht_ok_def)
  qed
qed

lemma run_law:
  assumes "ht_ok hash cmp ht"
  shows "ht_ok hash cmp (fold ht_run ops ht) \<and> ht_map (fold ht_run ops ht) = fold ht_abs ops (ht_map ht)"
  using assms
proof (induction ops arbitrary: ht)
  case (Cons p ops)
  have "ht_ok hash cmp (ht_run p ht) \<and> ht_map (ht_run p ht) = ht_abs p (ht_map ht)"
    using store_law[OF Cons.prems] delete_law[OF Cons.prems] by (cases p) simp_all
  then show ?case using Cons.IH[of "ht_run p ht"] by simp
qed simp

end

section \<open>The functions for keys\<close>

lemma c_int_0: "c_int (w :: 32 word) = 0 \<longleftrightarrow> w = 0"
  using signed_word_eqI[of w 0] by (auto simp: c_int_def)

lemma compare_u_long32: "hash_compare_u_long32 a b = 0 \<longleftrightarrow> a = b"
  by (simp add: hash_compare_u_long32_def c_int_0)

interpretation u_long32_key: hash_key hash_func_u_long32 hash_compare_u_long32
  by unfold_locales (rule compare_u_long32)

interpretation string_key: hash_key "hash_func_string \<circ> Some" hash_compare_string
  by unfold_locales (simp add: hash_compare_string_def)

interpretation pointer_key: hash_key hash_func_pointer hash_compare_pointer
  by unfold_locales (simp add: hash_compare_pointer_def)

section \<open>Visiting every entry\<close>

text \<open>Recording what is visited.\<close>

definition collect :: "('k \<times> 'v) list \<Rightarrow> 'k \<Rightarrow> 'v \<Rightarrow> ('k \<times> 'v) list \<times> 'v" where
  "collect seen k d = (seen @ [(k, d)], d)"

lemma collect_bucket: "for_each_bucket collect c s = (s @ c, c)"
  by (induction c arbitrary: s) (auto simp: collect_def)

lemma collect_chain: "for_each_chain collect cs s = (s @ concat cs, cs)"
  by (induction cs arbitrary: s) (simp_all add: collect_bucket)

lemma collect_table:
  "ht_shape ht \<Longrightarrow> sge_htable_for_each ht collect [] = (entries ht, ht)"
  by (simp add: sge_htable_for_each_def collect_chain ht_shape_def entries_def nat_power_eq)

section \<open>The size of a table\<close>

lemma hash_size_loop_bound:
  "2 ^ n \<le> m \<Longrightarrow> m < 2 ^ Suc n \<Longrightarrow> hash_size_loop s m = s + Suc n"
proof (induction n arbitrary: m s)
  case 0
  then show ?case by (simp add: hash_size_loop.simps[of s m] hash_size_loop.simps[of _ 0])
next
  case (Suc n)
  have "2 ^ n \<le> m div 2" "m div 2 < 2 ^ Suc n" "m > 0"
    using Suc.prems by (auto simp: less_le_trans[OF zero_less_power])
  then show ?case using Suc.IH[of "m div 2" "s + 1"] by (simp add: hash_size_loop.simps[of s m])
qed

section \<open>Properties\<close>



text \<open>
  The table of a host or string list stays in shape: the mask fits the size, each entry lies
  in the chain of its key, no key is there twice, and there are never more entries than the mask.
\<close>

theorem string_htable_shape:
  "ht_ok (hash_func_string \<circ> Some) hash_compare_string
     (fold ht_run ops (sge_htable_create n (hash_func_string \<circ> Some) hash_compare_string))"
  using string_key.run_law[OF conjunct1[OF create_ok[OF refl]]] by blast

text \<open>
  The compare function for 64-bit keys returns an \<open>int\<close>, which keeps the low half of the
  difference: it takes keys for equal that differ by a multiple of \<open>2 ^ 32\<close>, and their hash
  values are equal too. Storing the second such key overwrites the data of the first.
\<close>

theorem u_long64_keys_collide:
  "sge_htable_lookup (fold ht_run [Store 1 ''a'', Store (1 + 2 ^ 32) ''b'']
     (sge_htable_create n hash_func_u_long64 hash_compare_u_long64)) 1 = Some ''b''"
proof -
  have h: "hash_func_u_long64 (1 + 2 ^ 32) = 1" "hash_func_u_long64 1 = 1"
    by (simp_all add: hash_func_u_long64_def c_int_def)
  have c: "hash_compare_u_long64 1 (1 + 2 ^ 32) = 0" "hash_compare_u_long64 1 1 = 0"
    by (simp_all add: hash_compare_u_long64_def c_int_def)
  show ?thesis
  proof (cases "n = 0")
    case True
    then show ?thesis using h c
      by (simp add: sge_htable_create_def sge_htable_store_def sge_htable_lookup_def
          sge_htable_resize_def bucket_index_def Let_def)
  next
    case False
    have "(2 :: int) ^ 1 \<le> 2 ^ n" using False by (intro power_increasing) simp_all
    moreover have "nat (1 AND (2 ^ n - 1)) < 2 ^ n"
      using index_less[of "sge_htable_create n (\<lambda>_. 1) undefined" undefined]
      by (simp add: sge_htable_create_def bucket_index_def)
    moreover have "nat (2 ^ n) = 2 ^ n" by (simp add: nat_power_eq)
    ultimately show ?thesis using h c
      by (simp add: sge_htable_create_def sge_htable_store_def sge_htable_lookup_def
          bucket_index_def Let_def)
  qed
qed

text \<open>
  \<open>sge_htable_for_each\<close> calls its procedure once for each key of the table, with its data.
\<close>

theorem for_each_visits_entries:
  assumes "\<forall>a b. cmp a b = 0 \<longleftrightarrow> a = b"
    and "h = fold ht_run ops (sge_htable_create n hash cmp)"
  shows "\<exists>es. sge_htable_for_each h collect [] = (es, h) \<and> distinct (map fst es) \<and>
    (\<forall>k d. (k, d) \<in> set es \<longleftrightarrow> sge_htable_lookup h k = Some d)"
proof -
  let ?new = "sge_htable_create n hash cmp"
  have hk: "hash_key cmp" by unfold_locales (use assms(1) in blast)
  have "ht_ok hash cmp ?new" by (rule conjunct1[OF create_ok[OF refl]])
  then have ok: "ht_ok hash cmp h" using hash_key.run_law[OF hk] assms(2) by blast
  then have sh: "ht_shape h" by (simp add: ht_ok_def)
  then have d: "distinct (map fst (entries h))" by (simp add: ht_shape_def table_ok_def entries_def)
  have "(k, d) \<in> set (entries h) \<longleftrightarrow> sge_htable_lookup h k = Some d" for k d
    using hash_key.lookup_law[OF hk ok] map_of_iff[OF d] by (simp add: ht_map_def)
  then show ?thesis using collect_table[OF sh] d by blast
qed

theorem for_each_visits_entries_witness:
  "(7, ''x'') \<in> set (fst (sge_htable_for_each (fold ht_run [Store 7 ''x'']
       (sge_htable_create 2 hash_func_u_long32 hash_compare_u_long32)) collect []))"
proof -
  let ?h = "fold ht_run [Store 7 ''x''] (sge_htable_create 2 hash_func_u_long32 hash_compare_u_long32)"
  have "sge_htable_lookup ?h 7 = Some ''x''"
    by (simp add: sge_htable_create_def sge_htable_store_def sge_htable_lookup_def
        sge_htable_resize_def bucket_index_def hash_func_u_long32_def hash_compare_u_long32_def
        c_int_def Let_def)
  then show ?thesis
    using for_each_visits_entries[of hash_compare_u_long32 ?h "[Store 7 ''x'']" 2 hash_func_u_long32]
      u_long32_key.cmp_law by force
qed

text \<open>
  \<open>hash_compute_size\<close> is the number of binary digits: a table of that size for \<open>m\<close> elements
  has more chains than elements, and at most twice as many.
\<close>

theorem hash_compute_size_fits:
  assumes "m > 0"
  shows "m < 2 ^ hash_compute_size m \<and> 2 ^ hash_compute_size m \<le> 2 * m"
proof -
  have "1 \<le> nat m" using assms by simp
  from ex_power_ivl1[OF order_refl this] obtain n where "2 ^ n \<le> nat m" "nat m < 2 ^ (n + 1)" by blast
  then have n: "2 ^ n \<le> m" "m < 2 ^ Suc n"
    using assms by (auto simp: nat_less_iff le_nat_iff)
  have "hash_compute_size m = Suc n"
    unfolding hash_compute_size_def using hash_size_loop_bound[OF n, of 0] by simp
  then show ?thesis using n by simp
qed

theorem hash_compute_size_fits_witness:
  "(100 :: int) < 2 ^ hash_compute_size 100 \<and> 2 ^ hash_compute_size 100 \<le> (200 :: int)"
  using hash_compute_size_fits[of 100] by simp

end
