(* ===== verification/Pack.thy ===== *)
theory Pack
  imports Bitfield
begin

unbundle bit_operations_syntax

text \<open>
  Packing, \<^verbatim>\<open>source/libs/cull/pack.c\<close>: the format in which lists go over the network and to disk.
  The model is that of a little endian machine where \<open>int\<close> has four bytes. A result \<open>None\<close> means
  that the code reads or writes outside the memory of a buffer; then C promises nothing.
\<close>

section \<open>Memory\<close>

text \<open>The bytes of a number in memory, the lowest first.\<close>

fun le_bytes :: "nat \<Rightarrow> 'a::len word \<Rightarrow> byte list" where
  "le_bytes 0 w = []"
| "le_bytes (Suc n) w = ucast w # le_bytes n (drop_bit 8 w)"

fun le_word :: "byte list \<Rightarrow> 'a::len word" where
  "le_word [] = 0"
| "le_word (b # bs) = ucast b OR push_bit 8 (le_word bs)"

text \<open>\<open>htonl\<close> and \<open>ntohl\<close> turn the bytes around.\<close>

definition htonl :: "32 word \<Rightarrow> 32 word" where
  "htonl i = le_word (rev (le_bytes 4 i))"

definition ntohl :: "32 word \<Rightarrow> 32 word" where
  "ntohl i = le_word (rev (le_bytes 4 i))"

text \<open>
  The memory: which sizes can be allocated, and what a new block holds. \<open>realloc\<close> keeps the old
  content.
\<close>

type_synonym mem_env = "(nat \<Rightarrow> bool) \<times> (nat \<Rightarrow> byte)"

definition malloc :: "mem_env \<Rightarrow> nat \<Rightarrow> byte list option" where
  "malloc env n = (if fst env n then Some (map (snd env) [0..<n]) else None)"

definition realloc :: "mem_env \<Rightarrow> byte list option \<Rightarrow> nat \<Rightarrow> byte list option" where
  "realloc env old n =
     (case old of
        None \<Rightarrow> malloc env n
      | Some b \<Rightarrow> if fst env n then Some (take n b @ map (snd env) [length b..<n]) else None)"

section \<open>Packing buffers\<close>

definition CHUNK :: nat where "CHUNK = 1024 * 1024"
abbreviation (input) INTSIZE :: nat where "INTSIZE \<equiv> 4"
abbreviation (input) DOUBLESIZE :: nat where "DOUBLESIZE \<equiv> 8"
definition CULL_VERSION :: "32 word" where "CULL_VERSION = 0x10020000"

datatype pack_code = PACK_SUCCESS | PACK_ENOMEM | PACK_FORMAT | PACK_BADARG | PACK_VERSION

text \<open>The memory at \<open>head_ptr\<close>, and \<open>cur_ptr\<close> as its distance from it.\<close>

record sge_pack_buffer =
  head_ptr :: "byte list option"
  cur_ptr :: nat
  mem_size :: nat
  bytes_used :: nat
  just_count :: bool
  pb_version :: "32 word"

text \<open>Enlarging the buffer to a size, as the packing functions do; whether there is memory.\<close>

definition grow :: "mem_env \<Rightarrow> nat \<Rightarrow> sge_pack_buffer \<Rightarrow> bool \<times> sge_pack_buffer" where
  "grow env n pb =
     (case realloc env (head_ptr pb) n of
        None \<Rightarrow> (False, pb\<lparr>mem_size := n, head_ptr := None\<rparr>)
      | Some b \<Rightarrow> (True, pb\<lparr>mem_size := n, head_ptr := Some b, cur_ptr := bytes_used pb\<rparr>))"

text \<open>\<open>memcpy\<close> to \<open>cur_ptr\<close>, which moves behind the bytes; from \<open>cur_ptr\<close> the same way.\<close>

definition put :: "byte list \<Rightarrow> sge_pack_buffer \<Rightarrow> sge_pack_buffer option" where
  "put bs pb =
     (case head_ptr pb of
        None \<Rightarrow> None
      | Some b \<Rightarrow>
          if cur_ptr pb + length bs \<le> length b
          then Some (pb\<lparr>head_ptr := Some (take (cur_ptr pb) b @ bs @ drop (cur_ptr pb + length bs) b),
                        cur_ptr := cur_ptr pb + length bs\<rparr>)
          else None)"

definition get :: "nat \<Rightarrow> sge_pack_buffer \<Rightarrow> (byte list \<times> sge_pack_buffer) option" where
  "get n pb =
     (case head_ptr pb of
        None \<Rightarrow> None
      | Some b \<Rightarrow>
          if cur_ptr pb + n \<le> length b
          then Some (take n (drop (cur_ptr pb) b), pb\<lparr>cur_ptr := cur_ptr pb + n\<rparr>)
          else None)"

text \<open>
  The frame of the packing functions: the buffer is enlarged when it is too small by the test of
  the function, then the bytes are copied and counted.
\<close>

definition pack_bytes ::
  "mem_env \<Rightarrow> bool \<Rightarrow> nat \<Rightarrow> byte list \<Rightarrow> sge_pack_buffer \<Rightarrow> (pack_code \<times> sge_pack_buffer) option" where
  "pack_bytes env full new_size bs pb =
     (if just_count pb then Some (PACK_SUCCESS, pb\<lparr>bytes_used := bytes_used pb + length bs\<rparr>)
      else
        (let (ok, pb1) = (if full then grow env new_size pb else (True, pb)) in
         if \<not> ok then Some (PACK_ENOMEM, pb1)
         else do { pb2 \<leftarrow> put bs pb1;
                   Some (PACK_SUCCESS, pb2\<lparr>bytes_used := bytes_used pb2 + length bs\<rparr>) }))"

definition packint :: "mem_env \<Rightarrow> sge_pack_buffer \<Rightarrow> 32 word \<Rightarrow> (pack_code \<times> sge_pack_buffer) option" where
  "packint env pb i =
     pack_bytes env (bytes_used pb + INTSIZE > mem_size pb) (mem_size pb + CHUNK)
       (le_bytes INTSIZE (htonl i)) pb"

definition repackint :: "sge_pack_buffer \<Rightarrow> 32 word \<Rightarrow> (pack_code \<times> sge_pack_buffer) option" where
  "repackint pb i =
     (if just_count pb then Some (PACK_SUCCESS, pb)
      else do { pb1 \<leftarrow> put (le_bytes INTSIZE (htonl i)) pb; Some (PACK_SUCCESS, pb1) })"

text \<open>\<open>htonl\<close> takes the 64-bit number as one of 32 bits.\<close>

definition packint64 :: "mem_env \<Rightarrow> sge_pack_buffer \<Rightarrow> 64 word \<Rightarrow> (pack_code \<times> sge_pack_buffer) option" where
  "packint64 env pb i =
     pack_bytes env (bytes_used pb + INTSIZE * 2 > mem_size pb) (mem_size pb + CHUNK)
       (le_bytes (INTSIZE * 2) (ucast (htonl (ucast i)) :: 64 word)) pb"

text \<open>\<open>xdr\<close> stands for the XDR library's \<open>xdr_double\<close>: the bytes it writes, unless it fails.\<close>

definition packdouble ::
  "mem_env \<Rightarrow> ('d \<Rightarrow> byte list option) \<Rightarrow> sge_pack_buffer \<Rightarrow> 'd \<Rightarrow> (pack_code \<times> sge_pack_buffer) option" where
  "packdouble env xdr pb d =
     (if just_count pb then Some (PACK_SUCCESS, pb\<lparr>bytes_used := bytes_used pb + DOUBLESIZE\<rparr>)
      else
        (let (ok, pb1) = (if bytes_used pb + DOUBLESIZE > mem_size pb
                          then grow env (mem_size pb + CHUNK) pb else (True, pb)) in
         if \<not> ok then Some (PACK_ENOMEM, pb1)
         else (case xdr d of
                 None \<Rightarrow> Some (PACK_FORMAT, pb1)
               | Some bs \<Rightarrow>
                   if length bs \<noteq> DOUBLESIZE then Some (PACK_FORMAT, pb1)
                   else do { pb2 \<leftarrow> put bs pb1;
                             Some (PACK_SUCCESS, pb2\<lparr>bytes_used := bytes_used pb2 + DOUBLESIZE\<rparr>) })))"

text \<open>The loop in \<open>packstr\<close> adds chunks until the string fits.\<close>

function chunks_for :: "nat \<Rightarrow> nat \<Rightarrow> nat" where
  "chunks_for need mem = (if need > mem then chunks_for need (mem + CHUNK) else mem)"
  by auto
termination
  by (relation "measure (\<lambda>(need, mem). need - mem)") (auto simp: CHUNK_def)

declare chunks_for.simps [simp del]

text \<open>A C string is the list of its bytes, none of them zero.\<close>

definition packstr ::
  "mem_env \<Rightarrow> sge_pack_buffer \<Rightarrow> byte list option \<Rightarrow> (pack_code \<times> sge_pack_buffer) option" where
  "packstr env pb str =
     (case str of
        None \<Rightarrow> pack_bytes env (bytes_used pb + 1 > mem_size pb) (mem_size pb + CHUNK) [0] pb
      | Some cs \<Rightarrow>
          (let n = length cs + 1 in
           pack_bytes env (bytes_used pb + n > mem_size pb)
             (chunks_for (bytes_used pb + n) (mem_size pb)) (cs @ [0]) pb))"

text \<open>The sizes are compared as 32-bit numbers. \<open>buf\<close> is the memory at \<open>buf_ptr\<close>.\<close>

definition packbuf ::
  "mem_env \<Rightarrow> sge_pack_buffer \<Rightarrow> byte list \<Rightarrow> u32 \<Rightarrow> (pack_code \<times> sge_pack_buffer) option" where
  "packbuf env pb buf buf_size =
     (if just_count pb then Some (PACK_SUCCESS, pb\<lparr>bytes_used := bytes_used pb + buf_size\<rparr>)
      else
        (let (ok, pb1) =
               (if u32_add buf_size (bytes_used pb mod u32_limit) > mem_size pb mod u32_limit
                then grow env (mem_size pb + CHUNK) pb else (True, pb)) in
         if \<not> ok then Some (PACK_ENOMEM, pb1)
         else if length buf < buf_size then None
         else do { pb2 \<leftarrow> put (take buf_size buf) pb1;
                   Some (PACK_SUCCESS, pb2\<lparr>bytes_used := bytes_used pb2 + buf_size\<rparr>) }))"

definition packbitfield ::
  "mem_env \<Rightarrow> sge_pack_buffer \<Rightarrow> bitfield \<Rightarrow> (pack_code \<times> sge_pack_buffer) option" where
  "packbitfield env pb bf =
     (let n = bf_size bf; char_size = sge_bitfield_get_size_bytes n in
      do { (ret, pb1) \<leftarrow> packint env pb (of_nat n);
           if ret \<noteq> PACK_SUCCESS then Some (ret, pb1)
           else do { (ret, pb2) \<leftarrow> packbuf env pb1 (bf_buf bf) char_size;
                     if ret \<noteq> PACK_SUCCESS then Some (ret, pb2) else Some (PACK_SUCCESS, pb2) } })"

text \<open>
  A buffer is initialised in place; \<open>pb\<close> is what it was before. The results of the two
  \<open>packint\<close> calls are not looked at.
\<close>

definition init_packbuffer ::
  "mem_env \<Rightarrow> sge_pack_buffer option \<Rightarrow> nat \<Rightarrow> bool \<Rightarrow> (pack_code \<times> sge_pack_buffer option) option" where
  "init_packbuffer env pb initial_size counting =
     (case pb of
        None \<Rightarrow> Some (PACK_FORMAT, None)
      | Some p \<Rightarrow>
          if \<not> counting then
            (let n = (if initial_size = 0 then CHUNK else initial_size + 2 * INTSIZE);
                 zero = \<lparr>head_ptr = None, cur_ptr = 0, mem_size = 0, bytes_used = 0,
                   just_count = False, pb_version = 0\<rparr>
             in case malloc env n of
                  None \<Rightarrow> Some (PACK_ENOMEM, Some zero)
                | Some b \<Rightarrow>
                    do { (_, p1) \<leftarrow> packint env (zero\<lparr>head_ptr := Some b, mem_size := n,
                           pb_version := CULL_VERSION\<rparr>) 0;
                         (_, p2) \<leftarrow> packint env p1 (pb_version p1);
                         Some (PACK_SUCCESS, Some p2) })
          else Some (PACK_SUCCESS, Some (p\<lparr>head_ptr := None, cur_ptr := 0, mem_size := 0,
                       bytes_used := 0, just_count := True\<rparr>)))"

section \<open>Unpacking\<close>

definition unpackint :: "sge_pack_buffer \<Rightarrow> (pack_code \<times> 32 word \<times> sge_pack_buffer) option" where
  "unpackint pb =
     (if bytes_used pb + INTSIZE > mem_size pb then Some (PACK_FORMAT, 0, pb)
      else do { (bs, pb1) \<leftarrow> get INTSIZE pb;
                Some (PACK_SUCCESS, ntohl (le_word bs),
                  pb1\<lparr>bytes_used := bytes_used pb1 + INTSIZE\<rparr>) })"

definition unpackint64 :: "sge_pack_buffer \<Rightarrow> (pack_code \<times> 64 word \<times> sge_pack_buffer) option" where
  "unpackint64 pb =
     (if bytes_used pb + INTSIZE * 2 > mem_size pb then Some (PACK_FORMAT, 0, pb)
      else do { (bs, pb1) \<leftarrow> get (INTSIZE * 2) pb;
                Some (PACK_SUCCESS, ucast (ntohl (ucast (le_word bs :: 64 word))),
                  pb1\<lparr>bytes_used := bytes_used pb1 + INTSIZE * 2\<rparr>) })"

definition unpackdouble ::
  "(byte list \<Rightarrow> 'd::zero option) \<Rightarrow> sge_pack_buffer \<Rightarrow> (pack_code \<times> 'd \<times> sge_pack_buffer) option" where
  "unpackdouble xdr pb =
     (if bytes_used pb + DOUBLESIZE > mem_size pb then Some (PACK_FORMAT, 0, pb)
      else do { (bs, pb1) \<leftarrow> get DOUBLESIZE pb;
                case xdr bs of
                  None \<Rightarrow> Some (PACK_FORMAT, 0, pb)
                | Some d \<Rightarrow> Some (PACK_SUCCESS, d, pb1\<lparr>bytes_used := bytes_used pb1 + DOUBLESIZE\<rparr>) })"

text \<open>
  What \<open>unpackstr\<close> and \<open>unpackbuf\<close> assign to the variable they are given: \<open>None\<close> for nothing. A
  string is read up to its zero byte, wherever that is.
\<close>

definition c_string_at :: "sge_pack_buffer \<Rightarrow> byte list option" where
  "c_string_at pb =
     (case head_ptr pb of
        None \<Rightarrow> None
      | Some b \<Rightarrow>
          (let rest = drop (cur_ptr pb) b in
           if 0 \<in> set rest then Some (takeWhile (\<lambda>c. c \<noteq> 0) rest) else None))"

definition first_byte :: "sge_pack_buffer \<Rightarrow> byte option" where
  "first_byte pb = map_option (\<lambda>x. hd (fst x)) (get 1 pb)"

definition unpackstr ::
  "mem_env \<Rightarrow> sge_pack_buffer \<Rightarrow> (pack_code \<times> byte list option option \<times> sge_pack_buffer) option" where
  "unpackstr env pb =
     do { c \<leftarrow> first_byte pb;
          if c = 0 then
            (let pb1 = pb\<lparr>cur_ptr := cur_ptr pb + 1, bytes_used := bytes_used pb + 1\<rparr> in
             if bytes_used pb1 > mem_size pb1 then Some (PACK_FORMAT, Some None, pb1)
             else Some (PACK_SUCCESS, Some None, pb1))
          else do { cs \<leftarrow> c_string_at pb;
                    let n = length cs + 1 in
                    if n + bytes_used pb > mem_size pb then Some (PACK_FORMAT, None, pb)
                    else if \<not> fst env n then Some (PACK_ENOMEM, Some None, pb)
                    else Some (PACK_SUCCESS, Some (Some cs),
                      pb\<lparr>cur_ptr := cur_ptr pb + n, bytes_used := bytes_used pb + n\<rparr>) } }"

definition unpackbuf ::
  "mem_env \<Rightarrow> sge_pack_buffer \<Rightarrow> nat \<Rightarrow> (pack_code \<times> byte list option option \<times> sge_pack_buffer) option" where
  "unpackbuf env pb buf_size =
     (if buf_size = 0 then Some (PACK_SUCCESS, None, pb)
      else if buf_size + bytes_used pb > mem_size pb then Some (PACK_FORMAT, None, pb)
      else if malloc env buf_size = None then Some (PACK_ENOMEM, Some None, pb)
      else do { (bs, pb1) \<leftarrow> get buf_size pb;
                Some (PACK_SUCCESS, Some (Some bs), pb1\<lparr>bytes_used := bytes_used pb1 + buf_size\<rparr>) })"

text \<open>
  \<open>alloc\<close> says whether \<open>sge_bitfield_init\<close> finds memory. The last copy overwrites the first bytes
  of the new field.
\<close>

definition unpackbitfield ::
  "mem_env \<Rightarrow> bool \<Rightarrow> sge_pack_buffer \<Rightarrow> nat \<Rightarrow> (pack_code \<times> bitfield option \<times> sge_pack_buffer) option" where
  "unpackbitfield env alloc pb descr_size =
     (case sge_bitfield_init alloc descr_size of
        None \<Rightarrow> Some (PACK_ENOMEM, None, pb)
      | Some bf \<Rightarrow>
          do { (ret, n, pb1) \<leftarrow> unpackint pb;
               if ret \<noteq> PACK_SUCCESS then Some (ret, Some bf, pb1)
               else if unat n > descr_size then Some (PACK_ENOMEM, Some bf, pb1)
               else
                 (let char_size = sge_bitfield_get_size_bytes (unat n) in
                  do { (ret, buffer, pb2) \<leftarrow> unpackbuf env pb1 char_size;
                       if ret \<noteq> PACK_SUCCESS then Some (ret, None, pb2)
                       else
                         (let bs = (case buffer of Some (Some bs) \<Rightarrow> bs | _ \<Rightarrow> []) in
                          Some (PACK_SUCCESS,
                            Some (bf\<lparr>bf_buf := bs @ drop char_size (bf_buf bf)\<rparr>), pb2)) }) })"

definition init_packbuffer_from_buffer ::
  "sge_pack_buffer option \<Rightarrow> byte list option \<Rightarrow> u32 \<Rightarrow> (pack_code \<times> sge_pack_buffer option) option" where
  "init_packbuffer_from_buffer pb buf buflen =
     (case (pb, buf) of
        (Some p, Some b) \<Rightarrow>
          (let p0 = \<lparr>head_ptr = Some b, cur_ptr = 0, mem_size = buflen, bytes_used = 0,
             just_count = False, pb_version = 0\<rparr> in
           if buflen > 0 then
             do { (ret, pad, p1) \<leftarrow> unpackint p0;
                  if ret \<noteq> PACK_SUCCESS then Some (ret, Some p1)
                  else do { (ret, v, p2) \<leftarrow> unpackint p1;
                            if ret \<noteq> PACK_SUCCESS then Some (ret, Some p2)
                            else if pad \<noteq> 0 \<or> v \<noteq> CULL_VERSION then Some (PACK_VERSION, Some p2)
                            else Some (PACK_SUCCESS, Some (p2\<lparr>pb_version := v\<rparr>)) } }
           else Some (PACK_SUCCESS, Some (p0\<lparr>pb_version := CULL_VERSION\<rparr>)))
      | _ \<Rightarrow> Some (PACK_FORMAT, pb))"

definition pb_used :: "sge_pack_buffer \<Rightarrow> nat" where
  "pb_used pb = bytes_used pb"

definition pb_filled :: "sge_pack_buffer \<Rightarrow> bool" where
  "pb_filled pb \<longleftrightarrow> pb_used pb > 2 * INTSIZE"

definition pb_unused :: "sge_pack_buffer \<Rightarrow> int" where
  "pb_unused pb = int (mem_size pb) - int (bytes_used pb)"

definition pb_are_equivalent :: "sge_pack_buffer option \<Rightarrow> sge_pack_buffer option \<Rightarrow> bool option" where
  "pb_are_equivalent pb1 pb2 =
     (case (pb1, pb2) of
        (Some p, Some q) \<Rightarrow>
          (case (head_ptr p, head_ptr q) of
             (Some b, Some c) \<Rightarrow>
               if bytes_used p \<le> length b \<and> bytes_used p \<le> length c
               then Some (bytes_used p = bytes_used q \<and> take (bytes_used p) b = take (bytes_used p) c)
               else None
           | _ \<Rightarrow> if bytes_used p = 0 then Some (bytes_used q = 0) else None)
      | _ \<Rightarrow> Some True)"

end
