(* ===== verification/Pack_Facts.thy ===== *)
theory Pack_Facts
  imports Pack
begin

text \<open>
  What is packed is unpacked again. The locale \<open>codec\<close> is the contract of a packing function and its
  unpacking function; each pair of the module keeps it, and so do sequences of values.
\<close>

section \<open>Bytes of numbers\<close>

lemma length_le_bytes [simp]: "length (le_bytes n w) = n"
  by (induction n arbitrary: w) simp_all

lemma le_word_bytes: "le_word (le_bytes n (w :: 'a::len word)) = take_bit (8 * n) w"
proof (induction n arbitrary: w)
  case (Suc n)
  have "(ucast (ucast w :: byte) OR push_bit 8 (take_bit (8 * n) (drop_bit 8 w)) :: 'a word) =
      take_bit (8 * Suc n) w"
    by (rule bit_word_eqI) (auto simp: bit_simps)
  then show ?case using Suc.IH[of "drop_bit 8 w"] by simp
qed simp

lemma le_word_bit: "bit (le_word bs :: 'a::len word) i \<longleftrightarrow>
    i < LENGTH('a) \<and> i < 8 * length bs \<and> bit (bs ! (i div 8)) (i mod 8)"
proof (induction bs arbitrary: i)
  case (Cons b bs)
  show ?case
  proof (cases "i < 8")
    case False
    then have "i div 8 = Suc ((i - 8) div 8)" "i mod 8 = (i - 8) mod 8"
      by (simp_all add: le_div_geq le_mod_geq)
    moreover have "\<not> bit b i" using False bit_imp_le_length[of b i] by auto
    ultimately show ?thesis using False Cons.IH[of "i - 8"] by (auto simp: bit_simps)
  qed (auto simp: bit_simps)
qed simp

lemma le_bytes_nth: "k < n \<Longrightarrow> le_bytes n w ! k = ucast (drop_bit (8 * k) w)"
proof (induction n arbitrary: k w)
  case (Suc n)
  then show ?case by (cases k) (simp_all add: add.commute)
qed simp

lemma le_bytes_word:
  assumes "8 * length bs \<le> LENGTH('a)"
  shows "le_bytes (length bs) (le_word bs :: 'a::len word) = bs"
proof (rule nth_equalityI)
  fix k assume "k < length (le_bytes (length bs) (le_word bs :: 'a word))"
  then have k: "k < length bs" by simp
  have "(ucast (drop_bit (8 * k) (le_word bs :: 'a word)) :: byte) = bs ! k"
  proof (rule bit_word_eqI)
    fix i assume i: "i < LENGTH(8)"
    then have i8: "i < 8" by simp
    have "8 * k + i < 8 * length bs" using k i8 by linarith
    moreover have "(8 * k + i) div 8 = k" "(8 * k + i) mod 8 = i" using i8 by simp_all
    ultimately show "bit (ucast (drop_bit (8 * k) (le_word bs :: 'a word)) :: byte) i = bit (bs ! k) i"
      using i8 assms by (simp add: bit_simps le_word_bit)
  qed
  then show "le_bytes (length bs) (le_word bs :: 'a word) ! k = bs ! k" using k by (simp add: le_bytes_nth)
qed simp

lemma bytes_htonl: "le_bytes 4 (htonl i) = rev (le_bytes 4 i)"
  unfolding htonl_def using le_bytes_word[where 'a = 32, of "rev (le_bytes 4 i)"] by simp

lemma ntohl_bytes: "ntohl (le_word (rev (le_bytes 4 i))) = i"
proof -
  have "le_bytes 4 (le_word (rev (le_bytes 4 i)) :: 32 word) = rev (le_bytes 4 i)"
    using le_bytes_word[where 'a = 32, of "rev (le_bytes 4 i)"] by simp
  then show ?thesis unfolding ntohl_def by (simp add: le_word_bytes take_bit_word_beyond_length_eq)
qed

section \<open>Buffers that are written and read\<close>

text \<open>The limit keeps the sizes that \<open>packbuf\<close> compares from wrapping around.\<close>

definition pack_limit :: nat where "pack_limit = 2147483648"

definition written :: "sge_pack_buffer \<Rightarrow> byte list \<Rightarrow> bool" where
  "written pb bs \<longleftrightarrow> \<not> just_count pb \<and> cur_ptr pb = bytes_used pb \<and> bytes_used pb = length bs \<and>
     mem_size pb \<le> pack_limit + 2 * CHUNK \<and>
     (\<exists>b. head_ptr pb = Some b \<and> length b = mem_size pb \<and> length bs \<le> length b \<and> take (length bs) b = bs)"

definition unread :: "sge_pack_buffer \<Rightarrow> byte list \<Rightarrow> bool" where
  "unread pb bs \<longleftrightarrow> cur_ptr pb = bytes_used pb \<and> bytes_used pb \<le> mem_size pb \<and>
     (\<exists>b. head_ptr pb = Some b \<and> length b = mem_size pb \<and> drop (cur_ptr pb) b = bs)"

lemma put_written:
  assumes "written pb old" "length old + length bs \<le> mem_size pb"
  obtains pb' where "put bs pb = Some pb'" "written (pb'\<lparr>bytes_used := bytes_used pb' + length bs\<rparr>) (old @ bs)"
    "mem_size pb' = mem_size pb"
proof -
  obtain b where b: "head_ptr pb = Some b" "length b = mem_size pb" "take (length old) b = old"
      "length old \<le> length b"
    using assms(1) by (auto simp: written_def)
  have w: "\<not> just_count pb" "cur_ptr pb = length old" "bytes_used pb = length old"
      "mem_size pb \<le> pack_limit + 2 * CHUNK"
    using assms(1) by (simp_all add: written_def)
  let ?b = "take (length old) b @ bs @ drop (length old + length bs) b"
  let ?p = "pb\<lparr>head_ptr := Some ?b, cur_ptr := length old + length bs\<rparr>"
  have p: "put bs pb = Some ?p" using assms(2) b(1,2) w by (simp add: put_def)
  have len: "length ?b = mem_size pb" using assms(2) b(2,4) by simp
  have "take (length old + length bs) ?b = old @ bs" unfolding b(3) by simp
  then have "written (?p\<lparr>bytes_used := bytes_used ?p + length bs\<rparr>) (old @ bs)"
    using w len assms(2) unfolding written_def by simp
  then show ?thesis using that[OF p] by simp
qed

definition short_of_memory :: "mem_env \<Rightarrow> bool" where
  "short_of_memory env \<longleftrightarrow> (\<exists>n. \<not> fst env n)"

lemma grow_written:
  assumes "written pb old" "mem_size pb \<le> n" "n \<le> pack_limit + 2 * CHUNK"
  shows "(\<exists>pb'. grow env n pb = (True, pb') \<and> written pb' old \<and> mem_size pb' = n) \<or>
    ((\<exists>pb'. grow env n pb = (False, pb')) \<and> short_of_memory env)"
proof -
  obtain b where b: "head_ptr pb = Some b" "length b = mem_size pb" "take (length old) b = old"
      "length old \<le> length b"
    using assms(1) by (auto simp: written_def)
  have "length (take n b @ map (snd env) [length b..<n]) = n" using assms(2) b(2) by simp
  moreover have "take (length old) (take n b @ map (snd env) [length b..<n]) = old"
    using b assms(2) by (simp add: min_def)
  ultimately show ?thesis
    using assms b by (cases "fst env n") (auto simp: grow_def realloc_def written_def short_of_memory_def)
qed

lemma get_unread:
  assumes "unread pb (bs @ rest)"
  shows "get (length bs) pb = Some (bs, pb\<lparr>cur_ptr := cur_ptr pb + length bs\<rparr>) \<and>
    unread (pb\<lparr>cur_ptr := cur_ptr pb + length bs, bytes_used := bytes_used pb + length bs\<rparr>) rest \<and>
    bytes_used pb + length bs \<le> mem_size pb"
proof -
  obtain b where b: "head_ptr pb = Some b" "length b = mem_size pb" "drop (cur_ptr pb) b = bs @ rest"
    "cur_ptr pb = bytes_used pb" "bytes_used pb \<le> mem_size pb"
    using assms by (auto simp: unread_def)
  have len: "mem_size pb - bytes_used pb = length bs + length rest"
    using arg_cong[OF b(3), of length] b(2,4) by simp
  have "drop (length bs) (drop (cur_ptr pb) b) = rest" unfolding b(3) by simp
  then have "drop (cur_ptr pb + length bs) b = rest" by (simp add: add.commute)
  then show ?thesis using b len by (simp add: get_def unread_def)
qed

section \<open>The contract of a packing and an unpacking function\<close>

text \<open>
  \<open>enc\<close> are the bytes of a value, \<open>norm\<close> what is read back for it. \<open>un\<close> gets the value for its
  size only. Packing fails only for want of memory, and not when the bytes fit; counting gives the
  number of bytes.
\<close>

locale codec =
  fixes pk :: "mem_env \<Rightarrow> sge_pack_buffer \<Rightarrow> 'a \<Rightarrow> (pack_code \<times> sge_pack_buffer) option"
    and un :: "mem_env \<Rightarrow> 'a \<Rightarrow> sge_pack_buffer \<Rightarrow> (pack_code \<times> 'a option \<times> sge_pack_buffer) option"
    and enc :: "'a \<Rightarrow> byte list" and ok :: "'a \<Rightarrow> bool" and norm :: "'a \<Rightarrow> 'a"
  assumes pack_law: "written pb old \<Longrightarrow> ok a \<Longrightarrow> length old + length (enc a) < pack_limit \<Longrightarrow>
      (\<exists>pb'. pk env pb a = Some (PACK_SUCCESS, pb') \<and> written pb' (old @ enc a) \<and>
         (length old + length (enc a) \<le> mem_size pb \<longrightarrow> mem_size pb' = mem_size pb)) \<or>
      ((\<exists>pb'. pk env pb a = Some (PACK_ENOMEM, pb')) \<and> mem_size pb < length old + length (enc a) \<and>
         short_of_memory env)"
    and count_law: "just_count pb \<Longrightarrow> ok a \<Longrightarrow>
      pk env pb a = Some (PACK_SUCCESS, pb\<lparr>bytes_used := bytes_used pb + length (enc a)\<rparr>)"
    and unpack_law: "unread pb (enc a @ rest) \<Longrightarrow> ok a \<Longrightarrow>
      (\<exists>pb'. un env a pb = Some (PACK_SUCCESS, Some (norm a), pb') \<and> unread pb' rest) \<or>
      ((\<exists>v pb'. un env a pb = Some (PACK_ENOMEM, v, pb')) \<and> short_of_memory env)"

text \<open>A sequence of values, up to the first failure.\<close>

fun pack_all ::
  "(sge_pack_buffer \<Rightarrow> 'a \<Rightarrow> (pack_code \<times> sge_pack_buffer) option) \<Rightarrow> 'a list \<Rightarrow> sge_pack_buffer \<Rightarrow>
    (pack_code \<times> sge_pack_buffer) option" where
  "pack_all pk [] pb = Some (PACK_SUCCESS, pb)"
| "pack_all pk (a # as) pb =
     do { (ret, pb1) \<leftarrow> pk pb a; if ret \<noteq> PACK_SUCCESS then Some (ret, pb1) else pack_all pk as pb1 }"

fun unpack_all ::
  "('a \<Rightarrow> sge_pack_buffer \<Rightarrow> (pack_code \<times> 'a option \<times> sge_pack_buffer) option) \<Rightarrow> 'a list \<Rightarrow>
    sge_pack_buffer \<Rightarrow> (pack_code \<times> 'a option list \<times> sge_pack_buffer) option" where
  "unpack_all un [] pb = Some (PACK_SUCCESS, [], pb)"
| "unpack_all un (a # as) pb =
     do { (ret, v, pb1) \<leftarrow> un a pb;
          if ret \<noteq> PACK_SUCCESS then Some (ret, [v], pb1)
          else do { (ret, vs, pb2) \<leftarrow> unpack_all un as pb1; Some (ret, v # vs, pb2) } }"

context codec begin

lemma pack_all_law:
  assumes "written pb old" "\<forall>a \<in> set as. ok a" "length old + length (concat (map enc as)) < pack_limit"
  shows "(\<exists>pb'. pack_all (pk env) as pb = Some (PACK_SUCCESS, pb') \<and>
      written pb' (old @ concat (map enc as)) \<and>
      (length old + length (concat (map enc as)) \<le> mem_size pb \<longrightarrow> mem_size pb' = mem_size pb)) \<or>
    ((\<exists>pb'. pack_all (pk env) as pb = Some (PACK_ENOMEM, pb')) \<and>
      mem_size pb < length old + length (concat (map enc as)) \<and> short_of_memory env)"
  using assms
proof (induction as arbitrary: pb old)
  case (Cons a as)
  have "length old + length (enc a) < pack_limit" "ok a" using Cons.prems by auto
  from pack_law[OF Cons.prems(1) this(2,1), of env] show ?case
  proof
    assume "\<exists>pb'. pk env pb a = Some (PACK_SUCCESS, pb') \<and> written pb' (old @ enc a) \<and>
      (length old + length (enc a) \<le> mem_size pb \<longrightarrow> mem_size pb' = mem_size pb)"
    then obtain p where p: "pk env pb a = Some (PACK_SUCCESS, p)" "written p (old @ enc a)"
      "length old + length (enc a) \<le> mem_size pb \<longrightarrow> mem_size p = mem_size pb" by blast
    have run: "pack_all (pk env) (a # as) pb = pack_all (pk env) as p" using p(1) by simp
    have "\<forall>a \<in> set as. ok a" "length (old @ enc a) + length (concat (map enc as)) < pack_limit"
      using Cons.prems by auto
    from Cons.IH[OF p(2) this] p(3) show ?thesis unfolding run by auto
  qed auto
qed simp

lemma count_all_law:
  assumes "just_count pb" "\<forall>a \<in> set as. ok a"
  shows "pack_all (pk env) as pb =
    Some (PACK_SUCCESS, pb\<lparr>bytes_used := bytes_used pb + length (concat (map enc as))\<rparr>)"
  using assms
proof (induction as arbitrary: pb)
  case (Cons a as)
  have run: "pk env pb a = Some (PACK_SUCCESS, pb\<lparr>bytes_used := bytes_used pb + length (enc a)\<rparr>)"
    using count_law Cons.prems by simp
  have "just_count (pb\<lparr>bytes_used := bytes_used pb + length (enc a)\<rparr>)" using Cons.prems by simp
  from Cons.IH[OF this] Cons.prems(2) show ?case by (simp add: run add.assoc)
qed simp

lemma unpack_all_law:
  assumes "unread pb (concat (map enc as) @ rest)" "\<forall>a \<in> set as. ok a"
  shows "(\<exists>pb'. unpack_all (un env) as pb = Some (PACK_SUCCESS, map (Some \<circ> norm) as, pb') \<and> unread pb' rest) \<or>
    ((\<exists>vs pb'. unpack_all (un env) as pb = Some (PACK_ENOMEM, vs, pb')) \<and> short_of_memory env)"
  using assms
proof (induction as arbitrary: pb)
  case (Cons a as)
  have "unread pb (enc a @ concat (map enc as) @ rest)" "ok a" using Cons.prems by auto
  from unpack_law[OF this, of env] show ?case
  proof
    assume "\<exists>pb'. un env a pb = Some (PACK_SUCCESS, Some (norm a), pb') \<and> unread pb' (concat (map enc as) @ rest)"
    then obtain p where p: "un env a pb = Some (PACK_SUCCESS, Some (norm a), p)"
      "unread p (concat (map enc as) @ rest)" by blast
    have "\<forall>a \<in> set as. ok a" using Cons.prems by simp
    from Cons.IH[OF p(2) this] show ?thesis by (auto simp: p(1))
  qed auto
qed auto

end

section \<open>The frame\<close>

lemma pack_bytes_law:
  assumes w: "written pb old" and "length old + length bs < pack_limit"
    and full: "full \<longleftrightarrow> length old + length bs > mem_size pb"
    and size: "full \<Longrightarrow> mem_size pb \<le> n \<and> length old + length bs \<le> n \<and> n \<le> pack_limit + 2 * CHUNK"
  shows "(\<exists>pb'. pack_bytes env full n bs pb = Some (PACK_SUCCESS, pb') \<and> written pb' (old @ bs) \<and>
      (length old + length bs \<le> mem_size pb \<longrightarrow> mem_size pb' = mem_size pb)) \<or>
    ((\<exists>pb'. pack_bytes env full n bs pb = Some (PACK_ENOMEM, pb')) \<and> mem_size pb < length old + length bs \<and>
      short_of_memory env)"
proof -
  have jc: "\<not> just_count pb" using w by (simp add: written_def)
  show ?thesis
  proof (cases full)
    case False
    then have "length old + length bs \<le> mem_size pb" using full by simp
    from put_written[OF w this] obtain p where "put bs pb = Some p"
      "written (p\<lparr>bytes_used := bytes_used p + length bs\<rparr>) (old @ bs)" "mem_size p = mem_size pb" .
    then show ?thesis using False jc by (simp add: pack_bytes_def)
  next
    case True
    have "mem_size pb \<le> n" "n \<le> pack_limit + 2 * CHUNK" using size[OF True] by auto
    from grow_written[OF w this, of env] consider
        p where "grow env n pb = (True, p)" "written p old" "mem_size p = n"
      | p where "grow env n pb = (False, p)" "short_of_memory env" by blast
    then show ?thesis
    proof cases
      case p: (1 p)
      have "length old + length bs \<le> mem_size p" using size[OF True] p(3) by simp
      from put_written[OF p(2) this] obtain p' where "put bs p = Some p'"
        "written (p'\<lparr>bytes_used := bytes_used p' + length bs\<rparr>) (old @ bs)" .
      then show ?thesis using True full jc p(1) by (auto simp: pack_bytes_def)
    next
      case 2
      then show ?thesis using True full jc by (simp add: pack_bytes_def)
    qed
  qed
qed

lemma pack_bytes_count:
  "just_count pb \<Longrightarrow>
    pack_bytes env full n bs pb = Some (PACK_SUCCESS, pb\<lparr>bytes_used := bytes_used pb + length bs\<rparr>)"
  by (simp add: pack_bytes_def)

lemma written_used: "written pb old \<Longrightarrow> bytes_used pb = length old"
  by (simp add: written_def)

lemma chunk_step:
  assumes "written pb old" "length old + n < pack_limit" "n \<le> CHUNK" "length old + n > mem_size pb"
  shows "mem_size pb \<le> mem_size pb + CHUNK \<and> length old + n \<le> mem_size pb + CHUNK \<and>
    mem_size pb + CHUNK \<le> pack_limit + 2 * CHUNK"
  using assms by (auto simp: written_def)

section \<open>Numbers\<close>

definition read_int :: "mem_env \<Rightarrow> 32 word \<Rightarrow> sge_pack_buffer \<Rightarrow>
    (pack_code \<times> 32 word option \<times> sge_pack_buffer) option" where
  "read_int env a pb = map_option (\<lambda>(ret, v, pb'). (ret, Some v, pb')) (unpackint pb)"

definition be32 :: "32 word \<Rightarrow> byte list" where
  "be32 i = rev (le_bytes 4 i)"

lemma length_be32 [simp]: "length (be32 i) = 4"
  by (simp add: be32_def)

lemma unpackint_law:
  assumes "unread pb (be32 i @ rest)"
  obtains pb' where "unpackint pb = Some (PACK_SUCCESS, i, pb')" "unread pb' rest"
    "bytes_used pb' = bytes_used pb + 4" "mem_size pb' = mem_size pb"
proof -
  have "unpackint pb = Some (PACK_SUCCESS, i,
      pb\<lparr>cur_ptr := cur_ptr pb + 4, bytes_used := bytes_used pb + 4\<rparr>)"
    using get_unread[OF assms] ntohl_bytes[of i] by (simp add: unpackint_def be32_def)
  then show ?thesis using that get_unread[OF assms] by simp
qed

interpretation int_codec: codec packint read_int be32 "\<lambda>_. True" "\<lambda>i. i"
proof
  fix pb old a env
  assume w: "written pb old" and l: "length old + length (be32 a) < pack_limit"
  show "(\<exists>pb'. packint env pb a = Some (PACK_SUCCESS, pb') \<and> written pb' (old @ be32 a) \<and>
         (length old + length (be32 a) \<le> mem_size pb \<longrightarrow> mem_size pb' = mem_size pb)) \<or>
      ((\<exists>pb'. packint env pb a = Some (PACK_ENOMEM, pb')) \<and> mem_size pb < length old + length (be32 a) \<and>
      short_of_memory env)"
    unfolding packint_def bytes_htonl be32_def
    by (rule pack_bytes_law[OF w])
      (use l w chunk_step[OF w, of 4] in \<open>auto simp: written_used be32_def CHUNK_def\<close>)
next
  fix pb :: sge_pack_buffer and a env assume "just_count pb"
  then show "packint env pb a = Some (PACK_SUCCESS, pb\<lparr>bytes_used := bytes_used pb + length (be32 a)\<rparr>)"
    by (simp add: packint_def pack_bytes_count)
next
  fix pb a rest env assume "unread pb (be32 a @ rest)"
  from unpackint_law[OF this] show "(\<exists>pb'. read_int env a pb = Some (PACK_SUCCESS, Some a, pb') \<and> unread pb' rest) \<or>
      ((\<exists>v pb'. read_int env a pb = Some (PACK_ENOMEM, v, pb')) \<and> short_of_memory env)"
    by (metis (no_types, lifting) case_prod_conv option.simps(9) read_int_def)
qed

section \<open>Strings\<close>

definition read_str :: "mem_env \<Rightarrow> byte list option \<Rightarrow> sge_pack_buffer \<Rightarrow>
    (pack_code \<times> byte list option option \<times> sge_pack_buffer) option" where
  "read_str env a pb = unpackstr env pb"

definition str_bytes :: "byte list option \<Rightarrow> byte list" where
  "str_bytes a = (case a of None \<Rightarrow> [0] | Some cs \<Rightarrow> cs @ [0])"

definition str_ok :: "byte list option \<Rightarrow> bool" where
  "str_ok a \<longleftrightarrow> (case a of None \<Rightarrow> True | Some cs \<Rightarrow> 0 \<notin> set cs)"

text \<open>An empty string comes back as a null pointer.\<close>

definition str_norm :: "byte list option \<Rightarrow> byte list option" where
  "str_norm a = (if a = Some [] then None else a)"

lemma chunks_for_bounds:
  "need > mem \<Longrightarrow> mem \<le> chunks_for need mem \<and> need \<le> chunks_for need mem \<and> chunks_for need mem \<le> need + CHUNK"
proof (induction need mem rule: chunks_for.induct)
  case (1 need mem)
  show ?case
  proof (cases "need > mem + CHUNK")
    case True
    then show ?thesis using 1 by (simp add: chunks_for.simps[of need mem])
  next
    case False
    then show ?thesis using 1 by (simp add: chunks_for.simps[of need mem] chunks_for.simps[of need "mem + CHUNK"])
  qed
qed

lemma packstr_law:
  assumes w: "written pb old" and l: "length old + length (str_bytes a) < pack_limit"
  shows "(\<exists>pb'. packstr env pb a = Some (PACK_SUCCESS, pb') \<and> written pb' (old @ str_bytes a) \<and>
      (length old + length (str_bytes a) \<le> mem_size pb \<longrightarrow> mem_size pb' = mem_size pb)) \<or>
    ((\<exists>pb'. packstr env pb a = Some (PACK_ENOMEM, pb')) \<and> mem_size pb < length old + length (str_bytes a) \<and>
      short_of_memory env)"
proof (cases a)
  case None
  show ?thesis unfolding packstr_def None option.case str_bytes_def
    by (rule pack_bytes_law[OF w])
      (use l w chunk_step[OF w, of 1] None in \<open>auto simp: written_used str_bytes_def CHUNK_def\<close>)
next
  case (Some cs)
  show ?thesis unfolding packstr_def Some option.case str_bytes_def Let_def
    by (rule pack_bytes_law[OF w])
      (use l w chunks_for_bounds[of "mem_size pb" "length old + (length cs + 1)"] Some
        in \<open>auto simp: written_used str_bytes_def\<close>)
qed

lemma unread_first:
  assumes "unread pb (c # bs)"
  shows "first_byte pb = Some c"
  using get_unread[of pb "[c]" bs] assms by (simp add: first_byte_def)

lemma unpackstr_law:
  assumes u: "unread pb (str_bytes a @ rest)" and ok: "str_ok a"
  shows "(\<exists>pb'. read_str env a pb = Some (PACK_SUCCESS, Some (str_norm a), pb') \<and> unread pb' rest) \<or>
    ((\<exists>v pb'. read_str env a pb = Some (PACK_ENOMEM, v, pb')) \<and> short_of_memory env)"
proof -
  note g = get_unread[OF u]
  show ?thesis
  proof (cases "a = None \<or> a = Some []")
    case True
    then have e: "str_bytes a = [0]" by (auto simp: str_bytes_def)
    have "first_byte pb = Some 0" using u unread_first[of pb 0 rest] e by simp
    then show ?thesis using g True unfolding e read_str_def
      by (auto simp: unpackstr_def str_norm_def Let_def)
  next
    case False
    then obtain c cs where a: "a = Some (c # cs)" by (cases a) (auto simp: neq_Nil_conv)
    then have nz: "c \<noteq> 0" "0 \<notin> set (c # cs)" using ok by (auto simp: str_ok_def)
    have e: "str_bytes a = (c # cs) @ [0]" by (simp add: a str_bytes_def)
    have f: "first_byte pb = Some c" using u unread_first[of pb c] by (simp add: e)
    have "takeWhile (\<lambda>c. c \<noteq> 0) ((c # cs) @ 0 # rest) = c # cs" using nz by (auto simp: takeWhile_tail)
    then have s: "c_string_at pb = Some (c # cs)"
      using u by (auto simp: c_string_at_def unread_def e)
    show ?thesis using g[unfolded e] f s nz(1) unfolding read_str_def a
      by (auto simp: unpackstr_def str_norm_def short_of_memory_def Let_def)
  qed
qed

interpretation str_codec: codec packstr read_str str_bytes str_ok str_norm
  by unfold_locales
    (use packstr_law unpackstr_law in \<open>auto simp: packstr_def pack_bytes_count str_bytes_def split: option.split\<close>)

section \<open>Memory blocks and bit fields\<close>

definition packblock :: "mem_env \<Rightarrow> sge_pack_buffer \<Rightarrow> byte list \<Rightarrow> (pack_code \<times> sge_pack_buffer) option" where
  "packblock env pb bs = packbuf env pb bs (length bs)"

definition read_block :: "mem_env \<Rightarrow> byte list \<Rightarrow> sge_pack_buffer \<Rightarrow>
    (pack_code \<times> byte list option \<times> sge_pack_buffer) option" where
  "read_block env a pb =
     map_option (\<lambda>(ret, v, pb'). (ret, case v of Some w \<Rightarrow> w | None \<Rightarrow> Some [], pb')) (unpackbuf env pb (length a))"

lemma packbuf_law:
  assumes w: "written pb old" and l: "length old + n < pack_limit" and n: "n \<le> CHUNK" "n \<le> length buf"
  shows "(\<exists>pb'. packbuf env pb buf n = Some (PACK_SUCCESS, pb') \<and> written pb' (old @ take n buf) \<and>
      (length old + n \<le> mem_size pb \<longrightarrow> mem_size pb' = mem_size pb)) \<or>
    ((\<exists>pb'. packbuf env pb buf n = Some (PACK_ENOMEM, pb')) \<and> mem_size pb < length old + n \<and>
      short_of_memory env)"
proof -
  have lim: "pack_limit + 2 * CHUNK < u32_limit" by (simp add: pack_limit_def CHUNK_def)
  have m: "mem_size pb < u32_limit" "length old + n < u32_limit" "bytes_used pb = length old" "\<not> just_count pb"
    using w l lim by (auto simp: written_def)
  then have full: "u32_add n (bytes_used pb mod u32_limit) > mem_size pb mod u32_limit \<longleftrightarrow>
      length old + length (take n buf) > mem_size pb"
    using n by (simp add: u32_add_exact add.commute)
  have eq: "packbuf env pb buf n = pack_bytes env (length old + length (take n buf) > mem_size pb)
      (mem_size pb + CHUNK) (take n buf) pb"
    unfolding packbuf_def full using n m by (simp add: pack_bytes_def Let_def split: prod.split)
  show ?thesis unfolding eq
    using pack_bytes_law[OF w, of "take n buf" "length old + length (take n buf) > mem_size pb" "mem_size pb + CHUNK" env]
      chunk_step[OF w l n(1)] l n by simp
qed

lemma unpackbuf_law:
  assumes u: "unread pb (bs @ rest)" and ne: "bs \<noteq> []"
  shows "unpackbuf env pb (length bs) = Some (PACK_SUCCESS, Some (Some bs),
      pb\<lparr>cur_ptr := cur_ptr pb + length bs, bytes_used := bytes_used pb + length bs\<rparr>) \<or>
    (unpackbuf env pb (length bs) = Some (PACK_ENOMEM, Some None, pb) \<and> short_of_memory env)"
  using get_unread[OF u] ne by (auto simp: unpackbuf_def malloc_def short_of_memory_def)

interpretation block_codec: codec packblock read_block "\<lambda>bs. bs" "\<lambda>bs. length bs \<le> CHUNK" "\<lambda>bs. bs"
proof
  fix pb old and a :: "byte list" and env
  assume "written pb old" "length a \<le> CHUNK" "length old + length a < pack_limit"
  then show "(\<exists>pb'. packblock env pb a = Some (PACK_SUCCESS, pb') \<and> written pb' (old @ a) \<and>
         (length old + length a \<le> mem_size pb \<longrightarrow> mem_size pb' = mem_size pb)) \<or>
      ((\<exists>pb'. packblock env pb a = Some (PACK_ENOMEM, pb')) \<and> mem_size pb < length old + length a \<and>
      short_of_memory env)"
    using packbuf_law[of pb old "length a" a env] by (simp add: packblock_def)
next
  fix pb :: sge_pack_buffer and a env assume "just_count pb"
  then show "packblock env pb a = Some (PACK_SUCCESS, pb\<lparr>bytes_used := bytes_used pb + length a\<rparr>)"
    by (simp add: packblock_def packbuf_def)
next
  fix pb :: sge_pack_buffer and a rest env assume u: "unread pb (a @ rest)"
  show "(\<exists>pb'. read_block env a pb = Some (PACK_SUCCESS, Some a, pb') \<and> unread pb' rest) \<or>
      ((\<exists>v pb'. read_block env a pb = Some (PACK_ENOMEM, v, pb')) \<and> short_of_memory env)"
  proof (cases "a = []")
    case True
    then show ?thesis using u by (simp add: read_block_def unpackbuf_def)
  next
    case False
    then show ?thesis using unpackbuf_law[OF u False, of env] get_unread[OF u] by (auto simp: read_block_def)
  qed
qed

definition field_bytes :: "bitfield \<Rightarrow> byte list" where
  "field_bytes f = be32 (of_nat (bf_size f)) @ take (sge_bitfield_get_size_bytes (bf_size f)) (bf_buf f)"

definition field_ok :: "bitfield \<Rightarrow> bool" where
  "field_ok f \<longleftrightarrow> bf_wf f \<and> bf_size f < 8 * CHUNK"

text \<open>Of a field, the bytes up to its size come back; the rest of a short field is zero.\<close>

definition field_norm :: "bitfield \<Rightarrow> bitfield" where
  "field_norm f = f\<lparr>bf_buf := take (sge_bitfield_get_size_bytes (bf_size f)) (bf_buf f) @
     (if bf_size f \<le> fixed_bits
      then replicate (fixed_bits div 8 - sge_bitfield_get_size_bytes (bf_size f)) 0 else [])\<rparr>"

definition read_field :: "mem_env \<Rightarrow> bitfield \<Rightarrow> sge_pack_buffer \<Rightarrow>
    (pack_code \<times> bitfield option \<times> sge_pack_buffer) option" where
  "read_field env f pb = unpackbitfield env (fst env (sge_bitfield_get_size_bytes (bf_size f))) pb (bf_size f)"

lemma field_norm_bits: "bf_wf f \<Longrightarrow> bits_of (field_norm f) = bits_of f"
proof -
  assume "bf_wf f"
  have "i div 8 < sge_bitfield_get_size_bytes (bf_size f)" if "i < bf_size f" for i
    using that size_bytes_le[of "bf_size f"] size_bytes by (meson less_le_trans)
  then show ?thesis using bf_wf_length[OF \<open>bf_wf f\<close>] by (auto simp: bits_of_def field_norm_def nth_append)
qed

lemma field_sizes:
  assumes "field_ok f"
  shows "sge_bitfield_get_size_bytes (bf_size f) \<le> CHUNK" "bf_size f < u32_limit"
    "sge_bitfield_get_size_bytes (bf_size f) \<le> length (bf_buf f)"
    "unat (of_nat (bf_size f) :: 32 word) = bf_size f"
proof -
  have l: "bf_size f < 8 * CHUNK" "bf_wf f" using assms by (auto simp: field_ok_def)
  then show "sge_bitfield_get_size_bytes (bf_size f) \<le> CHUNK" unfolding size_bytes_eq by linarith
  show u: "bf_size f < u32_limit" using l by (simp add: CHUNK_def)
  show "sge_bitfield_get_size_bytes (bf_size f) \<le> length (bf_buf f)" using bf_wf_length l by blast
  show "unat (of_nat (bf_size f) :: 32 word) = bf_size f" using u by (simp add: unat_of_nat take_bit_nat_eq_self)
qed

lemma packbitfield_law:
  assumes w: "written pb old" and f: "field_ok f" and l: "length old + length (field_bytes f) < pack_limit"
  shows "(\<exists>pb'. packbitfield env pb f = Some (PACK_SUCCESS, pb') \<and> written pb' (old @ field_bytes f) \<and>
      (length old + length (field_bytes f) \<le> mem_size pb \<longrightarrow> mem_size pb' = mem_size pb)) \<or>
    ((\<exists>pb'. packbitfield env pb f = Some (PACK_ENOMEM, pb')) \<and> mem_size pb < length old + length (field_bytes f) \<and>
      short_of_memory env)"
proof -
  let ?n = "sge_bitfield_get_size_bytes (bf_size f)"
  let ?i = "of_nat (bf_size f) :: 32 word"
  note fs = field_sizes[OF f]
  have len: "length (field_bytes f) = 4 + ?n" using fs(3) by (simp add: field_bytes_def)
  have "length old + length (be32 ?i) < pack_limit" using l len by simp
  from int_codec.pack_law[OF w TrueI this, of env] show ?thesis
  proof
    assume "\<exists>pb'. packint env pb ?i = Some (PACK_SUCCESS, pb') \<and> written pb' (old @ be32 ?i) \<and>
      (length old + length (be32 ?i) \<le> mem_size pb \<longrightarrow> mem_size pb' = mem_size pb)"
    then obtain p where p: "packint env pb ?i = Some (PACK_SUCCESS, p)" "written p (old @ be32 ?i)"
      "length old + 4 \<le> mem_size pb \<longrightarrow> mem_size p = mem_size pb" by auto
    have "length (old @ be32 ?i) + ?n < pack_limit" using l len by simp
    from packbuf_law[OF p(2) this fs(1,3), of env] show ?thesis
      using p(1,3) len by (auto simp: packbitfield_def Let_def field_bytes_def)
  next
    assume "(\<exists>pb'. packint env pb ?i = Some (PACK_ENOMEM, pb')) \<and> mem_size pb < length old + length (be32 ?i) \<and>
      short_of_memory env"
    then show ?thesis using len by (auto simp: packbitfield_def Let_def)
  qed
qed

lemma unpackbitfield_law:
  assumes u: "unread pb (field_bytes f @ rest)" and f: "field_ok f"
  shows "(\<exists>pb'. read_field env f pb = Some (PACK_SUCCESS, Some (field_norm f), pb') \<and> unread pb' rest) \<or>
    ((\<exists>v pb'. read_field env f pb = Some (PACK_ENOMEM, v, pb')) \<and> short_of_memory env)"
proof (cases "sge_bitfield_init (fst env (sge_bitfield_get_size_bytes (bf_size f))) (bf_size f)")
  case None
  then have "short_of_memory env"
    by (auto simp: sge_bitfield_init_def short_of_memory_def Let_def split: if_splits)
  then show ?thesis using None by (simp add: read_field_def unpackbitfield_def)
next
  case (Some bf)
  let ?n = "sge_bitfield_get_size_bytes (bf_size f)"
  let ?bs = "take ?n (bf_buf f)"
  note fs = field_sizes[OF f]
  have len: "length ?bs = ?n" using fs(3) by simp
  have "unread pb (be32 (of_nat (bf_size f)) @ ?bs @ rest)" using u by (simp add: field_bytes_def)
  from unpackint_law[OF this] obtain p where
    p: "unpackint pb = Some (PACK_SUCCESS, of_nat (bf_size f), p)" "unread p (?bs @ rest)" .
  have new: "bf\<lparr>bf_buf := ?bs @ drop ?n (bf_buf bf)\<rparr> = field_norm f"
    using Some len by (auto simp: sge_bitfield_init_def field_norm_def Let_def split: if_splits)
  show ?thesis
  proof (cases "?n = 0")
    case True
    then show ?thesis using Some p new fs(4)
      by (simp add: read_field_def unpackbitfield_def unpackbuf_def Let_def)
  next
    case False
    then have "?bs \<noteq> []" using len by auto
    from unpackbuf_law[OF p(2) this, of env] get_unread[OF p(2)] show ?thesis
      using Some p new fs(4) len by (auto simp: read_field_def unpackbitfield_def Let_def)
  qed
qed

lemma packbitfield_count:
  "just_count pb \<Longrightarrow> field_ok f \<Longrightarrow>
    packbitfield env pb f = Some (PACK_SUCCESS, pb\<lparr>bytes_used := bytes_used pb + length (field_bytes f)\<rparr>)"
  using field_sizes(3)[of f]
  by (simp add: packbitfield_def packint_def packbuf_def pack_bytes_count field_bytes_def Let_def)

interpretation field_codec: codec packbitfield read_field field_bytes field_ok field_norm
  by unfold_locales (rule packbitfield_law unpackbitfield_law packbitfield_count; assumption)+

section \<open>Floating point numbers\<close>

text \<open>What the code relies on of the XDR library: eight bytes, from which the number comes back.\<close>

definition xdr_ok :: "('d \<Rightarrow> byte list option) \<Rightarrow> (byte list \<Rightarrow> 'd option) \<Rightarrow> bool" where
  "xdr_ok xenc xdec \<longleftrightarrow> (\<forall>d. \<exists>bs. xenc d = Some bs \<and> length bs = 8 \<and> xdec bs = Some d)"

definition read_double :: "(byte list \<Rightarrow> 'd::zero option) \<Rightarrow> sge_pack_buffer \<Rightarrow>
    (pack_code \<times> 'd option \<times> sge_pack_buffer) option" where
  "read_double xdec pb = map_option (\<lambda>(ret, v, pb'). (ret, Some v, pb')) (unpackdouble xdec pb)"

lemma packdouble_eq:
  assumes "xenc d = Some bs" "length bs = 8"
  shows "packdouble env xenc pb d =
    pack_bytes env (bytes_used pb + 8 > mem_size pb) (mem_size pb + CHUNK) bs pb"
  using assms by (simp add: packdouble_def pack_bytes_def Let_def split: prod.split)

lemma packdouble_law:
  assumes "xdr_ok xenc xdec" and w: "written pb old" and l: "length old + 8 < pack_limit"
  shows "(\<exists>pb'. packdouble env xenc pb d = Some (PACK_SUCCESS, pb') \<and> written pb' (old @ the (xenc d)) \<and>
      (length old + 8 \<le> mem_size pb \<longrightarrow> mem_size pb' = mem_size pb)) \<or>
    ((\<exists>pb'. packdouble env xenc pb d = Some (PACK_ENOMEM, pb')) \<and> mem_size pb < length old + 8 \<and>
      short_of_memory env)"
proof -
  obtain bs where bs: "xenc d = Some bs" "length bs = 8" using assms(1) by (auto simp: xdr_ok_def)
  show ?thesis
    using pack_bytes_law[OF w, of bs "bytes_used pb + 8 > mem_size pb" "mem_size pb + CHUNK" env]
      chunk_step[OF w l] l bs(2) unfolding packdouble_eq[where xenc = xenc, OF bs] bs(1)
    by (simp add: written_used[OF w] CHUNK_def)
qed

lemma unpackdouble_law:
  assumes "xdr_ok xenc xdec" "unread pb (the (xenc d) @ rest)"
  shows "\<exists>pb'. read_double xdec pb = Some (PACK_SUCCESS, Some d, pb') \<and> unread pb' rest"
proof -
  obtain bs where bs: "xenc d = Some bs" "length bs = 8" "xdec bs = Some d"
    using assms(1) by (auto simp: xdr_ok_def)
  have "unread pb (bs @ rest)" using assms(2) bs(1) by simp
  from get_unread[OF this] show ?thesis
    using bs by (simp add: read_double_def unpackdouble_def)
qed

section \<open>Values of any kind\<close>

datatype 'd item = Int_Item "32 word" | Str_Item "byte list option" | Block_Item "byte list"
  | Field_Item bitfield | Double_Item 'd

fun pack_item :: "('d \<Rightarrow> byte list option) \<Rightarrow> mem_env \<Rightarrow> sge_pack_buffer \<Rightarrow> 'd item \<Rightarrow>
    (pack_code \<times> sge_pack_buffer) option" where
  "pack_item xenc env pb (Int_Item i) = packint env pb i"
| "pack_item xenc env pb (Str_Item str) = packstr env pb str"
| "pack_item xenc env pb (Block_Item bs) = packblock env pb bs"
| "pack_item xenc env pb (Field_Item f) = packbitfield env pb f"
| "pack_item xenc env pb (Double_Item d) = packdouble env xenc pb d"

fun unpack_item :: "(byte list \<Rightarrow> 'd::zero option) \<Rightarrow> mem_env \<Rightarrow> 'd item \<Rightarrow> sge_pack_buffer \<Rightarrow>
    (pack_code \<times> 'd item option \<times> sge_pack_buffer) option" where
  "unpack_item xdec env (Int_Item i) pb = map_option (apsnd (apfst (map_option Int_Item))) (read_int env i pb)"
| "unpack_item xdec env (Str_Item str) pb = map_option (apsnd (apfst (map_option Str_Item))) (read_str env str pb)"
| "unpack_item xdec env (Block_Item bs) pb = map_option (apsnd (apfst (map_option Block_Item))) (read_block env bs pb)"
| "unpack_item xdec env (Field_Item f) pb = map_option (apsnd (apfst (map_option Field_Item))) (read_field env f pb)"
| "unpack_item xdec env (Double_Item d) pb = map_option (apsnd (apfst (map_option Double_Item))) (read_double xdec pb)"

fun item_bytes :: "('d \<Rightarrow> byte list option) \<Rightarrow> 'd item \<Rightarrow> byte list" where
  "item_bytes xenc (Int_Item i) = be32 i"
| "item_bytes xenc (Str_Item str) = str_bytes str"
| "item_bytes xenc (Block_Item bs) = bs"
| "item_bytes xenc (Field_Item f) = field_bytes f"
| "item_bytes xenc (Double_Item d) = the (xenc d)"

fun item_ok :: "'d item \<Rightarrow> bool" where
  "item_ok (Str_Item str) = str_ok str"
| "item_ok (Block_Item bs) = (length bs \<le> CHUNK)"
| "item_ok (Field_Item f) = field_ok f"
| "item_ok _ = True"

fun item_norm :: "'d item \<Rightarrow> 'd item" where
  "item_norm (Str_Item str) = Str_Item (str_norm str)"
| "item_norm (Field_Item f) = Field_Item (field_norm f)"
| "item_norm a = a"

lemma xdr_length: "xdr_ok xenc xdec \<Longrightarrow> length (the (xenc d)) = 8"
  unfolding xdr_ok_def by (metis option.sel)

lemma item_codec:
  fixes xenc :: "'d::zero \<Rightarrow> byte list option" and xdec :: "byte list \<Rightarrow> 'd option"
  assumes x: "xdr_ok xenc xdec"
  shows "codec (\<lambda>env pb a. pack_item xenc env pb a) (unpack_item xdec) (item_bytes xenc) item_ok item_norm"
proof
  fix pb old env and a :: "'d item"
  assume w: "written pb old" and ok: "item_ok a" and l: "length old + length (item_bytes xenc a) < pack_limit"
  show "(\<exists>pb'. pack_item xenc env pb a = Some (PACK_SUCCESS, pb') \<and> written pb' (old @ item_bytes xenc a) \<and>
         (length old + length (item_bytes xenc a) \<le> mem_size pb \<longrightarrow> mem_size pb' = mem_size pb)) \<or>
      ((\<exists>pb'. pack_item xenc env pb a = Some (PACK_ENOMEM, pb')) \<and>
         mem_size pb < length old + length (item_bytes xenc a) \<and> short_of_memory env)"
  proof (cases a)
    case (Double_Item d)
    then show ?thesis using packdouble_law[OF x w, of env d] l xdr_length[OF x, of d] by simp
  qed (use w ok l int_codec.pack_law[of pb old _ env] packstr_law[of pb old _ env] block_codec.pack_law[of pb old _ env]
        packbitfield_law[of pb old _ env] in simp_all)
next
  fix pb :: sge_pack_buffer and env and a :: "'d item"
  assume j: "just_count pb" and ok: "item_ok a"
  show "pack_item xenc env pb a = Some (PACK_SUCCESS, pb\<lparr>bytes_used := bytes_used pb + length (item_bytes xenc a)\<rparr>)"
  proof (cases a)
    case (Double_Item d)
    then show ?thesis using j xdr_length[OF x, of d] by (simp add: packdouble_def)
  qed (use j ok int_codec.count_law str_codec.count_law block_codec.count_law field_codec.count_law in simp_all)
next
  fix pb :: sge_pack_buffer and rest env and a :: "'d item"
  assume u: "unread pb (item_bytes xenc a @ rest)" and ok: "item_ok a"
  show "(\<exists>pb'. unpack_item xdec env a pb = Some (PACK_SUCCESS, Some (item_norm a), pb') \<and> unread pb' rest) \<or>
      ((\<exists>v pb'. unpack_item xdec env a pb = Some (PACK_ENOMEM, v, pb')) \<and> short_of_memory env)"
  proof (cases a)
    case (Int_Item i)
    then show ?thesis using u int_codec.unpack_law[of pb i rest env] by auto
  next
    case (Str_Item str)
    then show ?thesis using u ok unpackstr_law[of pb str rest env] by auto
  next
    case (Block_Item bs)
    then show ?thesis using u ok block_codec.unpack_law[of pb bs rest env] by auto
  next
    case (Field_Item f)
    then show ?thesis using u ok unpackbitfield_law[of pb f rest env] by auto
  next
    case (Double_Item d)
    then show ?thesis using u unpackdouble_law[OF x, of pb d rest] by auto
  qed
qed

section \<open>Whole buffers\<close>

definition header_bytes :: "byte list" where
  "header_bytes = be32 0 @ be32 CULL_VERSION"

lemma length_header [simp]: "length header_bytes = 8"
  by (simp add: header_bytes_def)

lemma init_packbuffer_law:
  assumes "n \<le> pack_limit" "malloc env (if n = 0 then CHUNK else n + 8) \<noteq> None"
  obtains pb where "init_packbuffer env (Some p) n False = Some (PACK_SUCCESS, Some pb)"
    "written pb header_bytes" "mem_size pb = (if n = 0 then CHUNK else n + 8)"
proof -
  let ?m = "if n = 0 then CHUNK else n + 8"
  obtain b where b: "malloc env ?m = Some b" using assms(2) by auto
  let ?z = "\<lparr>head_ptr = Some b, cur_ptr = 0, mem_size = ?m, bytes_used = 0,
      just_count = False, pb_version = CULL_VERSION\<rparr>"
  have m: "8 \<le> ?m" "?m \<le> pack_limit + 2 * CHUNK" using assms(1) by (auto simp: CHUNK_def)
  have lb: "length b = ?m" using b by (auto simp: malloc_def split: if_splits)
  have z: "written ?z []" using m lb by (simp add: written_def)
  have l: "8 < pack_limit" by (simp add: pack_limit_def)
  obtain p1 where p1: "packint env ?z 0 = Some (PACK_SUCCESS, p1)" "written p1 (be32 0)" "mem_size p1 = ?m"
    using int_codec.pack_law[OF z TrueI, of 0 env] m l by (auto simp del: split_paired_Ex)
  have v: "pb_version p1 = CULL_VERSION"
    using p1(1) m by (auto simp: packint_def pack_bytes_def put_def split: option.splits if_splits)
  obtain p2 where p2: "packint env p1 CULL_VERSION = Some (PACK_SUCCESS, p2)"
    "written p2 (be32 0 @ be32 CULL_VERSION)" "mem_size p2 = ?m"
    using int_codec.pack_law[OF p1(2) TrueI, of CULL_VERSION env] m l p1(3) by auto
  have "init_packbuffer env (Some p) n False = Some (PACK_SUCCESS, Some p2)"
    using b p1(1) p2(1) v by (cases "n = 0") (simp_all add: init_packbuffer_def Let_def)
  then show ?thesis using that p2 by (simp add: header_bytes_def)
qed

lemma init_from_buffer_law:
  assumes "bs = header_bytes @ rest"
  obtains pb where "init_packbuffer_from_buffer (Some p) (Some bs) (length bs) = Some (PACK_SUCCESS, Some pb)"
    "unread pb rest" "mem_size pb = length bs"
proof -
  let ?z = "\<lparr>head_ptr = Some bs, cur_ptr = 0, mem_size = length bs, bytes_used = 0,
      just_count = False, pb_version = 0\<rparr>"
  have "unread ?z (be32 0 @ be32 CULL_VERSION @ rest)" using assms by (simp add: unread_def header_bytes_def)
  from unpackint_law[OF this] obtain p1 where p1: "unpackint ?z = Some (PACK_SUCCESS, 0, p1)"
    "unread p1 (be32 CULL_VERSION @ rest)" "mem_size p1 = length bs" by auto
  from unpackint_law[OF p1(2)] obtain p2 where p2: "unpackint p1 = Some (PACK_SUCCESS, CULL_VERSION, p2)"
    "unread p2 rest" "mem_size p2 = length bs" using p1(3) by auto
  have "bs \<noteq> []" using arg_cong[OF assms, of length] by auto
  then have "init_packbuffer_from_buffer (Some p) (Some bs) (length bs) =
      Some (PACK_SUCCESS, Some (p2\<lparr>pb_version := CULL_VERSION\<rparr>))"
    using p1(1) p2(1) by (simp add: init_packbuffer_from_buffer_def Let_def)
  moreover have "unread (p2\<lparr>pb_version := CULL_VERSION\<rparr>) rest" using p2(2) by (auto simp: unread_def)
  ultimately show ?thesis using that p2(3) by simp
qed

section \<open>Where the functions go wrong\<close>

lemma le_bytes_add: "le_bytes (m + n) w = le_bytes m w @ le_bytes n (drop_bit (8 * m) w)"
  by (induction m arbitrary: w) (simp_all add: add.commute)

lemma le_bytes_zero [simp]: "le_bytes n 0 = replicate n 0"
  by (induction n) simp_all

lemma bytes_of_widened: "le_bytes 8 (ucast (w :: 32 word) :: 64 word) = le_bytes 4 w @ [0, 0, 0, 0]"
proof -
  have low: "le_bytes 4 (ucast w :: 64 word) = le_bytes 4 w"
    by (rule nth_equalityI) (auto simp: le_bytes_nth intro!: bit_word_eqI simp: bit_simps)
  have high: "drop_bit (8 * 4) (ucast w :: 64 word) = 0"
    by (rule bit_word_eqI) (auto simp: bit_simps dest: bit_imp_le_length)
  show ?thesis
    using le_bytes_add[of 4 4 "ucast w :: 64 word"] unfolding low high
    by (simp add: numeral_eq_Suc)
qed

lemma packbuf_overflow:
  assumes w: "written pb old" and "mem_size pb = length old" "length old + length bs < pack_limit"
    and "CHUNK < length bs" "fst env (mem_size pb + CHUNK)"
  shows "packbuf env pb bs (length bs) = None"
proof -
  have "length old + length bs < u32_limit" using assms(3) by (simp add: pack_limit_def)
  then have full: "u32_add (length bs) (bytes_used pb mod u32_limit) > mem_size pb mod u32_limit"
    using assms(2,4) by (auto simp: written_used[OF w] u32_add_exact add.commute)
  have "mem_size pb \<le> mem_size pb + CHUNK" "mem_size pb + CHUNK \<le> pack_limit + 2 * CHUNK"
    using assms(2,3) by auto
  from grow_written[OF w this, of env] assms(5) obtain p where
    p: "grow env (mem_size pb + CHUNK) pb = (True, p)" "written p old" "mem_size p = mem_size pb + CHUNK"
    by (auto simp: grow_def realloc_def malloc_def split: option.splits)
  have "put bs p = None" using p(2,3) assms(2,4) by (auto simp: put_def written_def)
  then show ?thesis using w p(1) full by (simp add: packbuf_def written_def)
qed

lemma read_behind: "unread pb [] \<Longrightarrow> unpackstr env pb = None"
  by (auto simp: unpackstr_def first_byte_def get_def unread_def)

lemma packint64_halved:
  assumes w: "written pb old" and "length old + 8 \<le> mem_size pb"
  shows "\<exists>pb'. packint64 env pb i = Some (PACK_SUCCESS, pb') \<and> written pb' (old @ be32 (ucast i) @ [0, 0, 0, 0])"
proof -
  let ?bs = "be32 (ucast i) @ [0, 0, 0, 0]"
  have bs: "le_bytes (4 * 2) (ucast (htonl (ucast i)) :: 64 word) = ?bs"
    using bytes_of_widened[of "htonl (ucast i)"] by (simp add: bytes_htonl be32_def)
  have "length old + length ?bs \<le> mem_size pb" using assms(2) by simp
  from put_written[OF w this] obtain p where "put ?bs pb = Some p"
    "written (p\<lparr>bytes_used := bytes_used p + length ?bs\<rparr>) (old @ ?bs)" .
  then show ?thesis using w assms(2) unfolding packint64_def bs
    by (simp add: pack_bytes_def written_def)
qed

section \<open>Properties\<close>

text \<open>
  C8. What is packed is unpacked again. Numbers, strings, memory blocks, bit fields and floating
  point numbers in any order, packed into a buffer of any initial size, are read back from its bytes,
  and nothing is left over. Memory is found, and a block has at most a chunk of bytes. An empty
  string comes back as a null pointer, a bit field with its bits.
\<close>

theorem packed_values_come_back:
  fixes xenc :: "'d::zero \<Rightarrow> byte list option" and xdec :: "byte list \<Rightarrow> 'd option"
  assumes "xdr_ok xenc xdec" "\<forall>m. fst env m" "\<forall>a \<in> set as. item_ok a" "n \<le> pack_limit"
    and "8 + length (concat (map (item_bytes xenc) as)) < pack_limit"
  shows "\<exists>pb pb' b rb rb'. init_packbuffer env (Some p) n False = Some (PACK_SUCCESS, Some pb) \<and>
    pack_all (pack_item xenc env) as pb = Some (PACK_SUCCESS, pb') \<and> head_ptr pb' = Some b \<and>
    init_packbuffer_from_buffer (Some q) (Some (take (bytes_used pb') b)) (bytes_used pb') =
      Some (PACK_SUCCESS, Some rb) \<and>
    unpack_all (unpack_item xdec env) as rb = Some (PACK_SUCCESS, map (Some \<circ> item_norm) as, rb') \<and>
    pb_unused rb' = 0"
proof -
  note c = item_codec[OF assms(1)]
  have mem: "\<not> short_of_memory env" using assms(2) by (simp add: short_of_memory_def)
  have "malloc env (if n = 0 then CHUNK else n + 8) \<noteq> None" using assms(2) by (simp add: malloc_def)
  from init_packbuffer_law[OF assms(4) this] obtain pb where
    pb: "init_packbuffer env (Some p) n False = Some (PACK_SUCCESS, Some pb)" "written pb header_bytes" .
  let ?body = "concat (map (item_bytes xenc) as)"
  obtain pb' where pb': "pack_all (pack_item xenc env) as pb = Some (PACK_SUCCESS, pb')"
      "written pb' (header_bytes @ ?body)"
    using codec.pack_all_law[OF c pb(2) assms(3), of env] assms(5) mem by auto
  obtain b where b: "head_ptr pb' = Some b" "take (bytes_used pb') b = header_bytes @ ?body"
      "bytes_used pb' = length (header_bytes @ ?body)"
    using pb'(2) by (auto simp: written_def)
  obtain rb where rb: "init_packbuffer_from_buffer (Some q) (Some (header_bytes @ ?body))
      (length (header_bytes @ ?body)) = Some (PACK_SUCCESS, Some rb)" "unread rb (?body @ [])"
    using init_from_buffer_law[OF refl, of q ?body] by auto
  obtain rb' where rb': "unpack_all (unpack_item xdec env) as rb = Some (PACK_SUCCESS, map (Some \<circ> item_norm) as, rb')"
      "unread rb' []"
    using codec.unpack_all_law[OF c rb(2) assms(3), of env] mem by auto
  have "pb_unused rb' = 0" using rb'(2) by (auto simp: unread_def pb_unused_def)
  then show ?thesis using pb(1) pb'(1) b rb(1) rb'(1) by (intro exI[of _ pb] exI[of _ pb']) auto
qed

definition xdr64_enc :: "64 word \<Rightarrow> byte list option" where
  "xdr64_enc d = Some (rev (le_bytes 8 d))"

definition xdr64_dec :: "byte list \<Rightarrow> 64 word option" where
  "xdr64_dec bs = Some (le_word (rev bs))"

lemma xdr64_ok: "xdr_ok xdr64_enc xdr64_dec"
  by (simp add: xdr_ok_def xdr64_enc_def xdr64_dec_def le_word_bytes take_bit_word_beyond_length_eq)

abbreviation (input) plenty :: mem_env where "plenty \<equiv> (\<lambda>_. True, \<lambda>_. 0)"

abbreviation (input) empty_buffer :: "nat \<Rightarrow> sge_pack_buffer" where
  "empty_buffer n \<equiv> \<lparr>head_ptr = Some (replicate n 0), cur_ptr = 0, mem_size = n, bytes_used = 0,
     just_count = False, pb_version = 0\<rparr>"

abbreviation (input) some_items :: "64 word item list" where
  "some_items \<equiv> [Int_Item 5, Str_Item (Some [65, 66]), Str_Item (Some []), Double_Item 3, Block_Item [1]]"

lemma some_items_ok:
  "\<forall>a \<in> set some_items. item_ok a" "length (concat (map (item_bytes xdr64_enc) some_items)) = 17"
  by (simp_all add: str_ok_def str_bytes_def xdr64_enc_def CHUNK_def)

theorem packed_values_come_back_witness:
  "\<exists>pb pb' b rb rb'. init_packbuffer plenty (Some (empty_buffer 0)) 0 False = Some (PACK_SUCCESS, Some pb) \<and>
    pack_all (pack_item xdr64_enc plenty) some_items pb = Some (PACK_SUCCESS, pb') \<and> head_ptr pb' = Some b \<and>
    init_packbuffer_from_buffer (Some (empty_buffer 0)) (Some (take (bytes_used pb') b)) (bytes_used pb') =
      Some (PACK_SUCCESS, Some rb) \<and>
    unpack_all (unpack_item xdr64_dec plenty) some_items rb =
      Some (PACK_SUCCESS, [Some (Int_Item 5), Some (Str_Item (Some [65, 66])), Some (Str_Item None),
        Some (Double_Item 3), Some (Block_Item [1])], rb') \<and>
    pb_unused rb' = 0"
  using packed_values_come_back[OF xdr64_ok _ some_items_ok(1), of plenty 0 "empty_buffer 0" "empty_buffer 0"]
    some_items_ok(2)
  by (simp add: pack_limit_def str_norm_def)

text \<open>
  C36. Counting is exact. In a counting buffer the values add up to the bytes they take; a buffer
  made with that size is filled to its last byte and never enlarged.
\<close>

theorem counted_size_is_exact:
  fixes xenc :: "'d::zero \<Rightarrow> byte list option" and xdec :: "byte list \<Rightarrow> 'd option"
  assumes "xdr_ok xenc xdec" "\<forall>a \<in> set as. item_ok a" "0 < n"
    and "8 + length (concat (map (item_bytes xenc) as)) < pack_limit" "malloc env (n + 8) \<noteq> None"
    and "\<exists>cb cb'. init_packbuffer env (Some p) 0 True = Some (PACK_SUCCESS, Some cb) \<and>
      pack_all (pack_item xenc env) as cb = Some (PACK_SUCCESS, cb') \<and> n = pb_used cb'"
  shows "\<exists>pb pb'. init_packbuffer env (Some q) n False = Some (PACK_SUCCESS, Some pb) \<and>
    pack_all (pack_item xenc env) as pb = Some (PACK_SUCCESS, pb') \<and> pb_unused pb' = 0 \<and>
    mem_size pb' = mem_size pb"
proof -
  note c = item_codec[OF assms(1)]
  let ?body = "concat (map (item_bytes xenc) as)"
  have n: "n = length ?body"
    using assms(6) codec.count_all_law[OF c _ assms(2), of _ env]
    by (auto simp: init_packbuffer_def pb_used_def)
  then have "n \<le> pack_limit" using assms(4) by simp
  from init_packbuffer_law[OF this, of env q] assms(3,5) obtain pb where
    pb: "init_packbuffer env (Some q) n False = Some (PACK_SUCCESS, Some pb)" "written pb header_bytes"
      "mem_size pb = n + 8" by auto
  obtain pb' where pb': "pack_all (pack_item xenc env) as pb = Some (PACK_SUCCESS, pb')"
      "written pb' (header_bytes @ ?body)" "mem_size pb' = mem_size pb"
    using codec.pack_all_law[OF c pb(2) assms(2), of env] assms(4) pb(3) n by auto
  have "pb_unused pb' = 0" using pb' pb(3) n by (simp add: pb_unused_def written_def)
  then show ?thesis using pb(1) pb'(1,3) by blast
qed

theorem counted_size_is_exact_witness:
  "\<exists>pb pb'. init_packbuffer plenty (Some (empty_buffer 0)) 17 False = Some (PACK_SUCCESS, Some pb) \<and>
    pack_all (pack_item xdr64_enc plenty) some_items pb = Some (PACK_SUCCESS, pb') \<and> pb_unused pb' = 0 \<and>
    mem_size pb' = mem_size pb"
proof (rule counted_size_is_exact[OF xdr64_ok some_items_ok(1)])
  show "\<exists>cb cb'. init_packbuffer plenty (Some (empty_buffer 0)) 0 True = Some (PACK_SUCCESS, Some cb) \<and>
      pack_all (pack_item xdr64_enc plenty) some_items cb = Some (PACK_SUCCESS, cb') \<and> 17 = pb_used cb'"
    by (simp add: init_packbuffer_def pb_used_def packint_def packstr_def pack_bytes_def packdouble_def
        packblock_def packbuf_def)
qed (use some_items_ok(2) in \<open>simp_all add: pack_limit_def malloc_def\<close>)

text \<open>
  C39. Where the functions go wrong. A block of more than a chunk, packed into a full buffer, is
  written behind the memory of the buffer, which \<open>packbuf\<close> enlarges by one chunk only. A string that
  is to be read where the buffer ends is read behind it, before the size is looked at. Of a 64-bit
  number only the low half comes back.
\<close>

theorem pack_faults:
  "(written pb old \<longrightarrow> mem_size pb = length old \<longrightarrow> length old + length bs < pack_limit \<longrightarrow>
      CHUNK < length bs \<longrightarrow> fst env (mem_size pb + CHUNK) \<longrightarrow> packbuf env pb bs (length bs) = None) \<and>
   (unread pb [] \<longrightarrow> unpackstr env pb = None) \<and>
   (written pb old \<longrightarrow> length old + 8 \<le> mem_size pb \<longrightarrow>
      (\<exists>pb'. packint64 env pb i = Some (PACK_SUCCESS, pb') \<and>
         written pb' (old @ be32 (ucast i) @ [0, 0, 0, 0])))"
  using packbuf_overflow[of pb old bs env] read_behind[of pb env] packint64_halved[of pb old env i] by blast

theorem pack_faults_witness:
  "packbuf plenty (empty_buffer 0) (replicate (CHUNK + 1) 7) (length (replicate (CHUNK + 1) (7 :: byte))) = None \<and>
   unpackstr plenty (empty_buffer 0) = None \<and>
   (\<exists>pb'. packint64 plenty (empty_buffer 8) 0x100000002 = Some (PACK_SUCCESS, pb') \<and>
      written pb' ([0, 0, 0, 2, 0, 0, 0, 0]))"
proof (intro conjI)
  have w: "written (empty_buffer 0) []" "written (empty_buffer 8) []" "unread (empty_buffer 0) []"
    by (simp_all add: written_def unread_def pack_limit_def)
  have l: "length (replicate (CHUNK + 1) (7 :: byte)) < pack_limit"
    unfolding length_replicate by (simp add: pack_limit_def CHUNK_def)
  have c: "CHUNK < length (replicate (CHUNK + 1) (7 :: byte))" unfolding length_replicate by simp
  show "packbuf plenty (empty_buffer 0) (replicate (CHUNK + 1) 7) (length (replicate (CHUNK + 1) (7 :: byte))) = None"
    using pack_faults[of "empty_buffer 0" "[]" "replicate (CHUNK + 1) 7" plenty, THEN conjunct1, rule_format, OF w(1) _ _ c] l
    by (simp del: length_replicate replicate_Suc)
  show "unpackstr plenty (empty_buffer 0) = None"
    using pack_faults[of "empty_buffer 0" "[]" "[]" plenty] w(3) by simp
  have b: "be32 (ucast (0x100000002 :: 64 word)) = [0, 0, 0, 2]" by code_simp
  show "\<exists>pb'. packint64 plenty (empty_buffer 8) 0x100000002 = Some (PACK_SUCCESS, pb') \<and>
      written pb' ([0, 0, 0, 2, 0, 0, 0, 0])"
    using pack_faults[of "empty_buffer 8" "[]" "[]" plenty "0x100000002"] w(2) unfolding b
    by (simp del: replicate_Suc)
qed

end
