(* ===== verification/Cull.thy ===== *)
theory Cull
  imports Pack
begin

text \<open>
  The lists of Grid Engine, \<^verbatim>\<open>source/libs/cull\<close>: values of a type that their descriptor tells,
  elements with a descriptor, and lists of elements. A descriptor is the list of its fields without
  the end mark. The chains of elements are HOL lists, so an element is known by its position; the
  hash tables that index a list hold no data of their own and are left out.
\<close>

section \<open>Types and descriptors\<close>

datatype lMultiT = lEndT | lFloatT | lDoubleT | lUlongT | lLongT | lCharT | lBoolT | lIntT | lStringT
  | lListT | lObjectT | lRefT | lHostT | lUlong64T | no_type

text \<open>The type is in the low byte of the type field; numbers behind the last type are no type.\<close>

definition mt_get_type :: "32 word \<Rightarrow> lMultiT" where
  "mt_get_type mt =
     (let t = unat (mt AND 0xFF) in
      if t < 14
      then [lEndT, lFloatT, lDoubleT, lUlongT, lLongT, lCharT, lBoolT, lIntT, lStringT,
            lListT, lObjectT, lRefT, lHostT, lUlong64T] ! t
      else no_type)"

definition NoName :: "32 word" where "NoName = - 1"
definition CULL_IS_REDUCED :: "32 word" where "CULL_IS_REDUCED = 0x00200000"
definition MAX_DESCR_SIZE :: nat where "MAX_DESCR_SIZE = 4 * 50"

definition FREE_ELEM :: "32 word" where "FREE_ELEM = 1"
definition BOUND_ELEM :: "32 word" where "BOUND_ELEM = 2"
definition TRANS_BOUND_ELEM :: "32 word" where "TRANS_BOUND_ELEM = 4"
definition OBJECT_ELEM :: "32 word" where "OBJECT_ELEM = 8"

lemmas elem_status_defs = FREE_ELEM_def BOUND_ELEM_def TRANS_BOUND_ELEM_def OBJECT_ELEM_def

record lDescr =
  d_nm :: "32 word"
  d_mt :: "32 word"

abbreviation d_type :: "lDescr \<Rightarrow> lMultiT" where
  "d_type f \<equiv> mt_get_type (d_mt f)"

text \<open>
  The loops over a descriptor stop at the first field without a type, or at the first one without a
  name.
\<close>

definition lCountDescr :: "lDescr list \<Rightarrow> nat" where
  "lCountDescr dp = length (takeWhile (\<lambda>f. d_type f \<noteq> lEndT) dp)"

section \<open>Values, elements, lists\<close>

text \<open>
  The union of the values is tagged here; reading a member that was not written has no result.
  Floating point numbers are of a type \<open>'d\<close>; a reference is an address, 0 the null pointer. A bool
  is a \<open>char\<close>.
\<close>

datatype 'd lMultiType = V_Float 'd | V_Double 'd | V_Ulong "32 word" | V_Long "64 word" | V_Char byte
    | V_Bool byte | V_Int "32 word" | V_String "byte list option" | V_List "'d lList option"
    | V_Object "'d lListElem option" | V_Ref nat | V_Host "byte list option" | V_Ulong64 "64 word"
  and 'd lListElem = Elem (el_status: "32 word") (el_descr: "lDescr list") (el_cont: "'d lMultiType list")
      (el_changed: bitfield)
  and 'd lList = CList (l_name: "byte list option") (l_changed: bool) (l_descr: "lDescr list")
      (l_elems: "'d lListElem list")

text \<open>A value of zero bytes, as \<open>calloc\<close> makes it.\<close>

fun zero_value :: "lMultiT \<Rightarrow> 'd::zero lMultiType" where
  "zero_value lFloatT = V_Float 0"
| "zero_value lDoubleT = V_Double 0"
| "zero_value lUlongT = V_Ulong 0"
| "zero_value lLongT = V_Long 0"
| "zero_value lCharT = V_Char 0"
| "zero_value lBoolT = V_Bool 0"
| "zero_value lIntT = V_Int 0"
| "zero_value lStringT = V_String None"
| "zero_value lListT = V_List None"
| "zero_value lObjectT = V_Object None"
| "zero_value lHostT = V_Host None"
| "zero_value lUlong64T = V_Ulong64 0"
| "zero_value _ = V_Ref 0"

text \<open>The sizes of the structures, where memory is asked for.\<close>

abbreviation (input) sizeof_lDescr :: nat where "sizeof_lDescr \<equiv> 16"
abbreviation (input) sizeof_lMultiType :: nat where "sizeof_lMultiType \<equiv> 8"
abbreviation (input) sizeof_lListElem :: nat where "sizeof_lListElem \<equiv> 56"
abbreviation (input) sizeof_lList :: nat where "sizeof_lList \<equiv> 48"
abbreviation (input) sizeof_lEnumeration :: nat where "sizeof_lEnumeration \<equiv> 24"
abbreviation (input) sizeof_lCondition :: nat where "sizeof_lCondition \<equiv> 32"

definition can_init_bitfield :: "mem_env \<Rightarrow> nat \<Rightarrow> bool" where
  "can_init_bitfield env n = fst env (sge_bitfield_get_size_bytes n)"

section \<open>Elements and lists\<close>

definition lCreateElem :: "mem_env \<Rightarrow> lDescr list \<Rightarrow> 'd::zero lListElem option" where
  "lCreateElem env dp =
     (let n = lCountDescr dp in
      if n = 0 then None
      else if \<not> fst env sizeof_lListElem \<or> \<not> fst env (sizeof_lDescr * (n + 1)) \<or>
          \<not> fst env (sizeof_lMultiType * n) then None
      else do { changed \<leftarrow> sge_bitfield_init (can_init_bitfield env n) n;
                let descr = map (\<lambda>f. f\<lparr>d_mt := d_mt f OR (d_mt (hd dp) AND CULL_IS_REDUCED)\<rparr>) (take n dp) in
                Some (Elem FREE_ELEM descr (map (\<lambda>f. zero_value (d_type f)) descr) changed) })"

definition no_list_name :: "byte list" where
  "no_list_name = map (of_nat \<circ> of_char) ''No list name specified''"

definition lCreateListHash :: "mem_env \<Rightarrow> byte list option \<Rightarrow> lDescr list \<Rightarrow> 'd lList option" where
  "lCreateListHash env listname dp =
     (let name = (case listname of None \<Rightarrow> no_list_name | Some s \<Rightarrow> s); n = lCountDescr dp in
      if n = 0 \<or> \<not> fst env sizeof_lList \<or> \<not> fst env (length name + 1) \<or> \<not> fst env (sizeof_lDescr * (n + 1))
      then None
      else Some (CList (Some name) False (take n dp) []))"

text \<open>
  Elements that are in a list or in another element must not be put into a list: then the program
  aborts (\<open>None\<close>). The position after which an element is inserted is \<open>None\<close> for the front.
\<close>

definition lInsertElem :: "'d lList \<Rightarrow> nat option \<Rightarrow> 'd lListElem \<Rightarrow> 'd lList option" where
  "lInsertElem lp pos new =
     (if el_status new = BOUND_ELEM \<or> el_status new = OBJECT_ELEM then None
      else (let i = (case pos of None \<Rightarrow> 0 | Some i \<Rightarrow> Suc i);
                new' = Elem BOUND_ELEM (l_descr lp) (el_cont new) (el_changed new) in
            Some (CList (l_name lp) True (l_descr lp) (take i (l_elems lp) @ [new'] @ drop i (l_elems lp)))))"

definition lAppendElem :: "'d lList \<Rightarrow> 'd lListElem \<Rightarrow> 'd lList option" where
  "lAppendElem lp ep =
     (if el_status ep = BOUND_ELEM \<or> el_status ep = OBJECT_ELEM then None
      else Some (CList (l_name lp) True (l_descr lp)
             (l_elems lp @ [Elem BOUND_ELEM (l_descr lp) (el_cont ep) (el_changed ep)])))"

definition lDechainElem :: "'d lList \<Rightarrow> nat \<Rightarrow> 'd lList \<times> 'd lListElem" where
  "lDechainElem lp i =
     (let ep = l_elems lp ! i in
      (CList (l_name lp) True (l_descr lp) (take i (l_elems lp) @ drop (Suc i) (l_elems lp)),
       Elem FREE_ELEM (el_descr ep) (el_cont ep) (el_changed ep)))"

text \<open>Equal names and types; other flags may differ.\<close>

definition lCompListDescr :: "lDescr list \<Rightarrow> lDescr list \<Rightarrow> int" where
  "lCompListDescr dp0 dp1 =
     (let n = lCountDescr dp0; m = lCountDescr dp1 in
      if n = 0 \<or> m = 0 then - 1
      else if n = m then
        (if list_all (\<lambda>i. d_nm (dp0 ! i) = d_nm (dp1 ! i) \<and> d_type (dp0 ! i) = d_type (dp1 ! i)) [0..<n]
         then 0 else - 1)
      else - 1)"

text \<open>The elements of the second list go to the first, one by one.\<close>

fun append_elems :: "'d lList \<Rightarrow> 'd lList \<Rightarrow> nat \<Rightarrow> ('d lList \<times> 'd lList) option" where
  "append_elems lp0 lp1 0 = Some (lp0, lp1)"
| "append_elems lp0 lp1 (Suc n) =
     (let (lp1', ep) = lDechainElem lp1 0 in
      do { lp0' \<leftarrow> lAppendElem lp0 ep; append_elems lp0' lp1' n })"

definition lAppendList :: "'d lList \<Rightarrow> 'd lList \<Rightarrow> (int \<times> 'd lList \<times> 'd lList) option" where
  "lAppendList lp0 lp1 =
     (if lCompListDescr (l_descr lp0) (l_descr lp1) \<noteq> 0 then Some (- 1, lp0, lp1)
      else do { (lp0', lp1') \<leftarrow> append_elems lp0 lp1 (length (l_elems lp1)); Some (0, lp0', lp1') })"

section \<open>Enumerations of fields\<close>

text \<open>A field of an enumeration: its position, type and name, and the fields of a list in it.\<close>

datatype lEnumeration = What (w_pos: "32 word") (w_mt: "32 word") (w_nm: "32 word")
  (w_ep: "lEnumeration list option")

definition WHAT_ALL :: "32 word" where "WHAT_ALL = - 1"
definition WHAT_NONE :: "32 word" where "WHAT_NONE = - 2"

text \<open>The position in the first field, or in the end mark of an enumeration without fields.\<close>

definition what_kind :: "lEnumeration list \<Rightarrow> 32 word" where
  "what_kind what = (case what of [] \<Rightarrow> 0 | w # _ \<Rightarrow> w_pos w)"

definition lCountWhat :: "lEnumeration list \<Rightarrow> lDescr list \<Rightarrow> nat" where
  "lCountWhat enp dp =
     (if what_kind enp = WHAT_NONE then 0
      else if what_kind enp = WHAT_ALL then lCountDescr dp
      else length (takeWhile (\<lambda>w. w_nm w \<noteq> NoName) enp))"

text \<open>
  The part of a descriptor. The loop reads the field before it tests its position: outside the
  descriptor with its end mark there is no result.
\<close>

fun partial_loop :: "lEnumeration list \<Rightarrow> lDescr list \<Rightarrow> lDescr list option option" where
  "partial_loop [] sdp = Some (Some [])"
| "partial_loop (w # ws) sdp =
     (if mt_get_type (w_mt w) = lEndT then Some (Some [])
      else
        (let pos = sint (w_pos w); n = lCountDescr sdp; end = \<lparr>d_nm = NoName, d_mt = 0\<rparr> in
         if pos < 0 \<or> pos > int n then None
         else
           (let f = (take n sdp @ [end]) ! nat pos in
            if mt_get_type (w_mt w) = d_type f \<and> w_nm w = d_nm f
            then do { rest \<leftarrow> partial_loop ws sdp;
                      Some (map_option (\<lambda>ds. f\<lparr>d_mt := d_mt f OR CULL_IS_REDUCED\<rparr> # ds) rest) }
            else Some None)))"

definition lPartialDescr :: "lEnumeration list \<Rightarrow> lDescr list \<Rightarrow> lDescr list option option" where
  "lPartialDescr enp sdp =
     (if what_kind enp = WHAT_NONE then Some (Some [])
      else if what_kind enp = WHAT_ALL then Some (Some (take (lCountDescr sdp) sdp))
      else partial_loop enp sdp)"

end
