(* ===== verification/Cull_Pack.thy ===== *)
theory Cull_Pack
  imports Cull
begin

text \<open>
  Packing lists, \<^verbatim>\<open>source/libs/cull/cull_pack.c\<close>. A step that fails ends a function with the
  result of the step; a step outside the memory of the buffer, and an abort, have no result.
\<close>

section \<open>Steps\<close>

type_synonym packer = "sge_pack_buffer \<Rightarrow> (pack_code \<times> sge_pack_buffer) option"
type_synonym 'a unpacker = "sge_pack_buffer \<Rightarrow> (pack_code \<times> 'a \<times> sge_pack_buffer) option"

definition pack_ret :: "pack_code \<Rightarrow> packer" where
  "pack_ret ret pb = Some (ret, pb)"

definition pack_then :: "packer \<Rightarrow> packer \<Rightarrow> packer" where
  "pack_then p q pb =
     do { (ret, pb1) \<leftarrow> p pb; if ret \<noteq> PACK_SUCCESS then Some (ret, pb1) else q pb1 }"

fun pack_each :: "('a \<Rightarrow> packer) \<Rightarrow> 'a list \<Rightarrow> packer" where
  "pack_each p [] = pack_ret PACK_SUCCESS"
| "pack_each p (x # xs) = pack_then (p x) (pack_each p xs)"

abbreviation pack_int :: "mem_env \<Rightarrow> 32 word \<Rightarrow> packer" where
  "pack_int env i \<equiv> (\<lambda>pb. packint env pb i)"

definition unpack_ret :: "pack_code \<Rightarrow> 'a \<Rightarrow> 'a unpacker" where
  "unpack_ret ret v pb = Some (ret, v, pb)"

text \<open>When the step fails, nothing is handed out.\<close>

definition unpack_then :: "'a unpacker \<Rightarrow> ('a \<Rightarrow> 'b option unpacker) \<Rightarrow> 'b option unpacker" where
  "unpack_then u k pb =
     do { (ret, v, pb1) \<leftarrow> u pb; if ret \<noteq> PACK_SUCCESS then Some (ret, None, pb1) else k v pb1 }"

definition need :: "mem_env \<Rightarrow> nat \<Rightarrow> pack_code \<Rightarrow> 'b option unpacker \<Rightarrow> 'b option unpacker" where
  "need env n ret u = (if fst env n then u else unpack_ret ret None)"

section \<open>Packing\<close>

definition cull_pack_descr :: "mem_env \<Rightarrow> lDescr list \<Rightarrow> packer" where
  "cull_pack_descr env dp =
     pack_then (pack_int env (of_nat (lCountDescr dp)))
       (pack_each (\<lambda>f. pack_then (pack_int env (d_nm f)) (pack_int env (d_mt f)))
         (takeWhile (\<lambda>f. d_nm f AND 0xFF \<noteq> NoName \<and> d_type f \<noteq> lEndT) dp))"

definition cull_pack_enum_as_descr :: "mem_env \<Rightarrow> lEnumeration list \<Rightarrow> lDescr list \<Rightarrow> packer" where
  "cull_pack_enum_as_descr env what descr =
     pack_then (pack_int env (of_nat (lCountWhat what descr)))
       (if what_kind what = WHAT_ALL then
          pack_each (\<lambda>f. pack_then (pack_int env (d_nm f)) (pack_int env (d_mt f)))
            (takeWhile (\<lambda>f. d_nm f \<noteq> NoName) descr)
        else if what_kind what = WHAT_NONE then pack_ret PACK_SUCCESS
        else
          pack_each (\<lambda>w. pack_then (pack_int env (w_nm w)) (pack_int env (w_mt w)))
            (takeWhile (\<lambda>w. w_nm w \<noteq> NoName) what))"

text \<open>
  A value is packed by the type of its field, and for a list by an enumeration of fields. Types that
  are not implemented are refused without a look at the value; a reference takes no bytes.
\<close>

type_synonym value_packer = "lEnumeration list option \<Rightarrow> lMultiT \<Rightarrow> packer"

definition pack_no_value :: value_packer where
  "pack_no_value what t =
     (if t = lRefT then pack_ret PACK_SUCCESS
      else if t \<in> {lIntT, lFloatT, lLongT, lCharT, lEndT, no_type} then pack_ret PACK_FORMAT
      else (\<lambda>pb. None))"

definition pack_if :: "lMultiT \<Rightarrow> (lEnumeration list option \<Rightarrow> packer) \<Rightarrow> value_packer" where
  "pack_if t p what t' = (if t' = t then p what else pack_no_value what t')"

text \<open>The flags choose among the fields; 0 takes all.\<close>

definition selected :: "32 word \<Rightarrow> 32 word \<Rightarrow> bool" where
  "selected flags mt \<longleftrightarrow> flags = 0 \<or> mt AND flags \<noteq> 0"

text \<open>\<open>cp\<close> are the packers of the values of an element.\<close>

definition packer_at :: "value_packer list \<Rightarrow> 32 word \<Rightarrow> value_packer" where
  "packer_at cp pos = (if 0 \<le> sint pos \<and> sint pos < int (length cp) then cp ! nat (sint pos) else pack_no_value)"

definition cull_pack_cont ::
  "32 word \<Rightarrow> value_packer list \<Rightarrow> lDescr list \<Rightarrow> lEnumeration list option \<Rightarrow> packer" where
  "cull_pack_cont flags cp dp what =
     (case what of
        None \<Rightarrow>
          pack_each (\<lambda>i. if selected flags (d_mt (dp ! i))
                         then (if i < length cp then cp ! i else pack_no_value) None (d_type (dp ! i))
                         else pack_ret PACK_SUCCESS)
            [0..<lCountDescr dp]
      | Some ws \<Rightarrow>
          pack_each (\<lambda>w. if selected flags (w_mt w)
                         then packer_at cp (w_pos w) (w_ep w) (mt_get_type (w_mt w))
                         else pack_ret PACK_SUCCESS)
            (takeWhile (\<lambda>w. w_nm w \<noteq> NoName) ws))"

definition pack_dummy_bitfield :: "mem_env \<Rightarrow> nat \<Rightarrow> packer" where
  "pack_dummy_bitfield env n =
     (case sge_bitfield_init (can_init_bitfield env n) n of
        None \<Rightarrow> pack_ret PACK_ENOMEM
      | Some field \<Rightarrow> (\<lambda>pb. packbitfield env pb field))"

text \<open>The head of an element and of a list that is not null.\<close>

definition pack_elem_head ::
  "mem_env \<Rightarrow> 32 word \<Rightarrow> lDescr list \<Rightarrow> lEnumeration list option \<Rightarrow> packer" where
  "pack_elem_head env status descr what =
     pack_then (pack_int env status)
       (pack_then
         (if status = FREE_ELEM then
            (case what of None \<Rightarrow> cull_pack_descr env descr | Some ws \<Rightarrow> cull_pack_enum_as_descr env ws descr)
          else pack_ret PACK_SUCCESS)
         (pack_dummy_bitfield env (case what of None \<Rightarrow> lCountDescr descr | Some ws \<Rightarrow> lCountWhat ws descr)))"

definition pack_list_head ::
  "mem_env \<Rightarrow> nat \<Rightarrow> byte list option \<Rightarrow> bool \<Rightarrow> lDescr list \<Rightarrow> lEnumeration list option \<Rightarrow> packer" where
  "pack_list_head env nelem listname changed descr what =
     pack_then (pack_int env (of_nat nelem))
       (pack_then (\<lambda>pb. packstr env pb listname)
         (pack_then (pack_int env (of_bool changed))
           (case what of None \<Rightarrow> cull_pack_descr env descr | Some ws \<Rightarrow> cull_pack_enum_as_descr env ws descr)))"

primrec cull_pack_switch ::
    "mem_env \<Rightarrow> ('d \<Rightarrow> byte list option) \<Rightarrow> 32 word \<Rightarrow> 'd lMultiType \<Rightarrow> value_packer"
  and pack_lListElem ::
    "mem_env \<Rightarrow> ('d \<Rightarrow> byte list option) \<Rightarrow> 32 word \<Rightarrow> 'd lListElem \<Rightarrow> lEnumeration list option \<Rightarrow> packer"
  and pack_lList ::
    "mem_env \<Rightarrow> ('d \<Rightarrow> byte list option) \<Rightarrow> 32 word \<Rightarrow> 'd lList \<Rightarrow> lEnumeration list option \<Rightarrow> packer" where
  "cull_pack_switch env xdr flags (V_Bool b) = pack_if lBoolT (\<lambda>_. pack_int env (scast b))"
| "cull_pack_switch env xdr flags (V_Ulong u) = pack_if lUlongT (\<lambda>_. pack_int env u)"
| "cull_pack_switch env xdr flags (V_Ulong64 u) = pack_if lUlong64T (\<lambda>_ pb. packint64 env pb u)"
| "cull_pack_switch env xdr flags (V_String s) = pack_if lStringT (\<lambda>_ pb. packstr env pb s)"
| "cull_pack_switch env xdr flags (V_Host s) = pack_if lHostT (\<lambda>_ pb. packstr env pb s)"
| "cull_pack_switch env xdr flags (V_List lp) = pack_if lListT
     (\<lambda>what. case map_option (pack_lList env xdr flags) lp of
               None \<Rightarrow> pack_int env 0
             | Some p \<Rightarrow> p what)"
| "cull_pack_switch env xdr flags (V_Object obj) = pack_if lObjectT
     (\<lambda>_. case map_option (pack_lListElem env xdr flags) obj of
            None \<Rightarrow> pack_int env 0
          | Some p \<Rightarrow> pack_then (pack_int env 1)
              (pack_then (cull_pack_descr env (el_descr (the obj))) (p None)))"
| "cull_pack_switch env xdr flags (V_Double d) = pack_if lDoubleT (\<lambda>_ pb. packdouble env xdr pb d)"
| "cull_pack_switch env xdr flags (V_Float d) = pack_no_value"
| "cull_pack_switch env xdr flags (V_Long l) = pack_no_value"
| "cull_pack_switch env xdr flags (V_Char c) = pack_no_value"
| "cull_pack_switch env xdr flags (V_Int i) = pack_no_value"
| "cull_pack_switch env xdr flags (V_Ref r) = pack_no_value"
| "pack_lListElem env xdr flags (Elem status descr cont changed) =
     (\<lambda>what. pack_then (pack_elem_head env status descr what)
       (cull_pack_cont flags (map (cull_pack_switch env xdr flags) cont) descr what))"
| "pack_lList env xdr flags (CList listname changed descr elems) =
     (\<lambda>what. pack_then (pack_int env 1)
       (pack_then (pack_list_head env (length elems) listname changed descr what)
         (pack_each (\<lambda>p. p what) (map (pack_lListElem env xdr flags) elems))))"

definition cull_pack_elem_partial where
  "cull_pack_elem_partial env xdr ep what flags pb = pack_lListElem env xdr flags ep what pb"

definition cull_pack_elem where
  "cull_pack_elem env xdr ep pb = cull_pack_elem_partial env xdr ep None 0 pb"

definition cull_pack_list_partial ::
  "mem_env \<Rightarrow> ('d \<Rightarrow> byte list option) \<Rightarrow> 'd lList option \<Rightarrow> lEnumeration list option \<Rightarrow> 32 word \<Rightarrow> packer" where
  "cull_pack_list_partial env xdr lp what flags =
     (case lp of None \<Rightarrow> pack_int env 0 | Some l \<Rightarrow> pack_lList env xdr flags l what)"

definition cull_pack_list :: "mem_env \<Rightarrow> ('d \<Rightarrow> byte list option) \<Rightarrow> 'd lList option \<Rightarrow> packer" where
  "cull_pack_list env xdr lp = cull_pack_list_partial env xdr lp None 0"

section \<open>Unpacking descriptors\<close>

text \<open>
  The names that the program knows: for each kind of object the first name and how many there are.
  A descriptor is reduced unless it has all names of a kind, in their order.
\<close>

type_synonym name_space = "(32 word \<times> nat) list"

definition descr_is_reduced :: "name_space option \<Rightarrow> lDescr list \<Rightarrow> bool" where
  "descr_is_reduced ns dp =
     (let names = map d_nm dp @ [NoName] in
      case find (\<lambda>(lower, cnt). hd names = lower)
             (takeWhile (\<lambda>(lower, cnt). lower \<noteq> 0 \<and> cnt \<noteq> 0) (case ns of None \<Rightarrow> [] | Some l \<Rightarrow> l)) of
        None \<Rightarrow> True
      | Some (lower, cnt) \<Rightarrow>
          cnt \<noteq> length dp \<or> \<not> list_all (\<lambda>k. names ! k = lower + of_nat k) [0..<cnt])"

definition mark_reduced :: "name_space option \<Rightarrow> lDescr list \<Rightarrow> lDescr list" where
  "mark_reduced ns dp =
     (if descr_is_reduced ns dp then map (\<lambda>f. f\<lparr>d_mt := d_mt f OR CULL_IS_REDUCED\<rparr>) dp else dp)"

fun unpack_fields :: "nat \<Rightarrow> lDescr list option unpacker" where
  "unpack_fields 0 = unpack_ret PACK_SUCCESS (Some [])"
| "unpack_fields (Suc n) =
     unpack_then unpackint (\<lambda>nm. unpack_then unpackint (\<lambda>mt.
       unpack_then (unpack_fields n) (\<lambda>ds. unpack_ret PACK_SUCCESS (Some (\<lparr>d_nm = nm, d_mt = mt\<rparr> # the ds)))))"

definition cull_unpack_descr :: "mem_env \<Rightarrow> name_space option \<Rightarrow> lDescr list option unpacker" where
  "cull_unpack_descr env ns =
     unpack_then unpackint (\<lambda>n.
       if unat n > MAX_DESCR_SIZE - 1 then unpack_ret PACK_ENOMEM None
       else need env (sizeof_lDescr * (unat n + 1)) PACK_ENOMEM
         (unpack_then (unpack_fields (unat n)) (\<lambda>dp. unpack_ret PACK_SUCCESS (Some (mark_reduced ns (the dp))))))"

section \<open>Unpacking elements and lists\<close>

text \<open>
  \<open>sw\<close> unpacks a value of a type. A format error does not end the loop over the fields; its field
  stays empty.
\<close>

type_synonym 'd value_unpacker = "lMultiT \<Rightarrow> 'd lMultiType unpacker"

record 'd cont_state =
  cs_values :: "'d lMultiType list"
  format_error :: bool
  only_at_bufferend :: bool
  last_error :: pack_code

fun unpack_cont_loop ::
  "'d::zero value_unpacker \<Rightarrow> 32 word \<Rightarrow> lDescr list \<Rightarrow> 'd cont_state \<Rightarrow> 'd cont_state unpacker" where
  "unpack_cont_loop sw flags [] st pb = Some (last_error st, st, pb)"
| "unpack_cont_loop sw flags (f # fs) st pb =
     (if selected flags (d_mt f) then
        do { (lret, v, pb1) \<leftarrow> sw (d_type f) pb;
             let st1 = st\<lparr>cs_values := cs_values st @ [v], last_error := lret\<rparr> in
             if lret = PACK_FORMAT then unpack_cont_loop sw flags fs (st1\<lparr>format_error := True\<rparr>) pb1
             else if lret \<noteq> PACK_SUCCESS then Some (lret, st1\<lparr>only_at_bufferend := False\<rparr>, pb1)
             else unpack_cont_loop sw flags fs st1 pb1 }
      else unpack_cont_loop sw flags fs (st\<lparr>cs_values := cs_values st @ [zero_value (d_type f)]\<rparr>) pb)"

definition cull_unpack_cont ::
  "mem_env \<Rightarrow> 'd::zero value_unpacker \<Rightarrow> 32 word \<Rightarrow> lDescr list \<Rightarrow> 'd lMultiType list option unpacker" where
  "cull_unpack_cont env sw flags dp =
     (let n = lCountDescr dp in
      need env (sizeof_lMultiType * (n + 1)) PACK_ENOMEM
        (\<lambda>pb. do { (_, st, pb1) \<leftarrow> unpack_cont_loop sw flags (take n dp)
                     \<lparr>cs_values = [], format_error = False, only_at_bufferend = True, last_error = PACK_SUCCESS\<rparr> pb;
                   if format_error st \<and> only_at_bufferend st then Some (PACK_SUCCESS, Some (cs_values st), pb1)
                   else if last_error st \<noteq> PACK_SUCCESS \<or> \<not> only_at_bufferend st
                   then Some (if last_error st \<noteq> PACK_SUCCESS then last_error st else PACK_FORMAT, None, pb1)
                   else Some (PACK_SUCCESS, Some (cs_values st), pb1) }))"

text \<open>
  The descriptor of an element: that of a free element is in the buffer, but for jobs (whose first
  name is 50) the one from outside is taken if there is one.
\<close>

definition JB_job_number_nm :: "32 word" where "JB_job_number_nm = 50"

definition unpack_elem_descr ::
  "mem_env \<Rightarrow> name_space option \<Rightarrow> 32 word \<Rightarrow> lDescr list option \<Rightarrow> lDescr list option unpacker" where
  "unpack_elem_descr env ns status dp =
     (if status = FREE_ELEM then
        unpack_then (cull_unpack_descr env ns) (\<lambda>descr.
          case dp of
            Some (f # fs) \<Rightarrow>
              if d_nm f = JB_job_number_nm
              then need env (sizeof_lDescr * (lCountDescr (f # fs) + 1)) PACK_BADARG
                     (unpack_ret PACK_SUCCESS (Some (f # fs)))
              else unpack_ret PACK_SUCCESS descr
          | _ \<Rightarrow> unpack_ret PACK_SUCCESS descr)
      else (case dp of None \<Rightarrow> unpack_ret PACK_BADARG None | Some d \<Rightarrow> unpack_ret PACK_SUCCESS (Some d)))"

definition unpack_elem ::
  "mem_env \<Rightarrow> name_space option \<Rightarrow> 'd::zero value_unpacker \<Rightarrow> 32 word \<Rightarrow> lDescr list option \<Rightarrow>
    'd lListElem option unpacker" where
  "unpack_elem env ns sw flags dp =
     need env sizeof_lListElem PACK_ENOMEM
       (unpack_then unpackint (\<lambda>status.
         unpack_then (unpack_elem_descr env ns status dp) (\<lambda>descr.
           let status1 = (if status = BOUND_ELEM \<or> status = OBJECT_ELEM then TRANS_BOUND_ELEM else status);
               n = lCountDescr (the descr) in
           unpack_then (\<lambda>pb. unpackbitfield env (can_init_bitfield env n) pb n) (\<lambda>changed.
             unpack_then (cull_unpack_cont env sw flags (the descr)) (\<lambda>cont.
               unpack_ret PACK_SUCCESS (Some (Elem status1 (the descr) (the cont) (the changed))))))))"

fun unpack_elems ::
  "('d lListElem option unpacker) \<Rightarrow> nat \<Rightarrow> 'd lList \<Rightarrow> 'd lList option unpacker" where
  "unpack_elems u 0 lp = unpack_ret PACK_SUCCESS (Some lp)"
| "unpack_elems u (Suc n) lp =
     unpack_then u (\<lambda>ep. case lAppendElem lp (the ep) of None \<Rightarrow> (\<lambda>_. None) | Some lp1 \<Rightarrow> unpack_elems u n lp1)"

text \<open>
  The variable of the result is null unless a list was read (the outer \<open>Some\<close>), which may be null
  itself.
\<close>

definition unpack_list ::
  "mem_env \<Rightarrow> name_space option \<Rightarrow> 'd::zero value_unpacker \<Rightarrow> 32 word \<Rightarrow> 'd lList option unpacker" where
  "unpack_list env ns sw flags =
     unpack_then unpackint (\<lambda>i.
       if i = 0 then unpack_ret PACK_SUCCESS None
       else need env sizeof_lList PACK_ENOMEM
         (unpack_then unpackint (\<lambda>n. unpack_then (unpackstr env) (\<lambda>name. unpack_then unpackint (\<lambda>c.
           unpack_then (cull_unpack_descr env ns) (\<lambda>descr.
             unpack_elems (unpack_elem env ns sw flags (Some (the descr))) (unat n)
               (CList (the name) (c \<noteq> 0) (the descr) [])))))))"

definition cull_unpack_object ::
  "mem_env \<Rightarrow> name_space option \<Rightarrow> 'd::zero value_unpacker \<Rightarrow> 32 word \<Rightarrow> 'd lListElem option unpacker" where
  "cull_unpack_object env ns sw flags =
     unpack_then unpackint (\<lambda>i.
       if i = 0 then unpack_ret PACK_SUCCESS None
       else unpack_then (cull_unpack_descr env ns) (\<lambda>descr.
         unpack_then (unpack_elem env ns sw flags (Some (the descr))) (\<lambda>ep.
           unpack_ret PACK_SUCCESS (Some (case the ep of Elem _ d c ch \<Rightarrow> Elem OBJECT_ELEM d c ch)))))"

definition unpack_as :: "('a \<Rightarrow> 'b) \<Rightarrow> 'a unpacker \<Rightarrow> 'b unpacker" where
  "unpack_as f u pb = do { (ret, v, pb1) \<leftarrow> u pb; Some (ret, f v, pb1) }"

definition unpack_value ::
  "mem_env \<Rightarrow> (byte list \<Rightarrow> 'd::zero option) \<Rightarrow> name_space option \<Rightarrow> 32 word \<Rightarrow> 'd value_unpacker \<Rightarrow> 'd value_unpacker" where
  "unpack_value env xdr ns flags sw t =
     (case t of
        lBoolT \<Rightarrow> unpack_as (\<lambda>i. V_Bool (ucast i)) unpackint
      | lUlongT \<Rightarrow> unpack_as V_Ulong unpackint
      | lUlong64T \<Rightarrow> unpack_as V_Ulong64 unpackint64
      | lStringT \<Rightarrow> unpack_as (\<lambda>s. V_String (case s of Some x \<Rightarrow> x | None \<Rightarrow> None)) (unpackstr env)
      | lHostT \<Rightarrow> unpack_as (\<lambda>s. V_Host (case s of Some x \<Rightarrow> x | None \<Rightarrow> None)) (unpackstr env)
      | lListT \<Rightarrow> unpack_as V_List (unpack_list env ns sw flags)
      | lObjectT \<Rightarrow> unpack_as V_Object (cull_unpack_object env ns sw flags)
      | lDoubleT \<Rightarrow> unpack_as V_Double (unpackdouble xdr)
      | lRefT \<Rightarrow> unpack_ret PACK_SUCCESS (V_Ref 0)
      | _ \<Rightarrow> unpack_ret PACK_FORMAT (zero_value t))"

text \<open>
  Lists nest in the buffer as deep as they like; the fuel is the depth allowed. Every level takes
  bytes, so the number of bytes left is enough.
\<close>

primrec cull_unpack_switch ::
  "mem_env \<Rightarrow> (byte list \<Rightarrow> 'd::zero option) \<Rightarrow> name_space option \<Rightarrow> 32 word \<Rightarrow> nat \<Rightarrow> 'd value_unpacker" where
  "cull_unpack_switch env xdr ns flags 0 = (\<lambda>t pb. None)"
| "cull_unpack_switch env xdr ns flags (Suc fuel) = unpack_value env xdr ns flags (cull_unpack_switch env xdr ns flags fuel)"

definition bytes_left :: "sge_pack_buffer \<Rightarrow> nat" where
  "bytes_left pb = mem_size pb - bytes_used pb"

definition cull_unpack_elem_partial ::
  "mem_env \<Rightarrow> (byte list \<Rightarrow> 'd::zero option) \<Rightarrow> name_space option \<Rightarrow> lDescr list option \<Rightarrow> 32 word \<Rightarrow>
    'd lListElem option unpacker" where
  "cull_unpack_elem_partial env xdr ns dp flags pb =
     unpack_elem env ns (cull_unpack_switch env xdr ns flags (Suc (bytes_left pb))) flags dp pb"

definition cull_unpack_elem where
  "cull_unpack_elem env xdr ns dp pb = cull_unpack_elem_partial env xdr ns dp 0 pb"

definition cull_unpack_list_partial ::
  "mem_env \<Rightarrow> (byte list \<Rightarrow> 'd::zero option) \<Rightarrow> name_space option \<Rightarrow> 32 word \<Rightarrow> 'd lList option unpacker" where
  "cull_unpack_list_partial env xdr ns flags pb =
     unpack_list env ns (cull_unpack_switch env xdr ns flags (Suc (bytes_left pb))) flags pb"

definition cull_unpack_list :: "mem_env \<Rightarrow> (byte list \<Rightarrow> 'd::zero option) \<Rightarrow> name_space option \<Rightarrow> 'd lList option unpacker" where
  "cull_unpack_list env xdr ns pb = cull_unpack_list_partial env xdr ns 0 pb"

end
