(* ===== verification/Cull_Pack_Facts.thy ===== *)
theory Cull_Pack_Facts
  imports Cull_Pack Pack_Facts
begin

text \<open>
  A packed list is unpacked as the list it was, up to what the format leaves out. The predicates
  \<open>packs\<close> and \<open>reads\<close> carry the contract of single values from \<open>Pack_Facts\<close> to sequences of steps.
\<close>

section \<open>Steps that write and read\<close>

definition has_memory :: "mem_env \<Rightarrow> bool" where
  "has_memory env \<longleftrightarrow> (\<forall>n. fst env n)"

lemma memory_not_short: "has_memory env \<Longrightarrow> \<not> short_of_memory env"
  by (simp add: has_memory_def short_of_memory_def)

definition packs :: "packer \<Rightarrow> byte list \<Rightarrow> bool" where
  "packs p bs \<longleftrightarrow> (\<forall>pb old. written pb old \<longrightarrow> length old + length bs < pack_limit \<longrightarrow>
     (\<exists>pb'. p pb = Some (PACK_SUCCESS, pb') \<and> written pb' (old @ bs)))"

definition reads :: "'a unpacker \<Rightarrow> byte list \<Rightarrow> 'a \<Rightarrow> bool" where
  "reads u bs v \<longleftrightarrow> (\<forall>pb rest. unread pb (bs @ rest) \<longrightarrow>
     (\<exists>pb'. u pb = Some (PACK_SUCCESS, v, pb') \<and> unread pb' rest))"

named_theorems packing "the bytes a packing step writes"
named_theorems reading "the bytes an unpacking step reads"

lemma packsD:
  assumes "packs p bs" "written pb old" "length old + length bs < pack_limit"
  obtains pb' where "p pb = Some (PACK_SUCCESS, pb')" "written pb' (old @ bs)"
  using assms unfolding packs_def by blast

lemma readsD:
  assumes "reads u bs v" "unread pb (bs @ rest)"
  obtains pb' where "u pb = Some (PACK_SUCCESS, v, pb')" "unread pb' rest"
  using assms unfolding reads_def by blast

lemma packs_ret [packing]: "packs (pack_ret PACK_SUCCESS) []"
  by (simp add: packs_def pack_ret_def)

lemma packs_then [packing]:
  assumes "packs p bs" "packs q cs"
  shows "packs (pack_then p q) (bs @ cs)"
  unfolding packs_def
proof (intro allI impI)
  fix pb old assume w: "written pb old" and l: "length old + length (bs @ cs) < pack_limit"
  have "length old + length bs < pack_limit" using l by simp
  from packsD[OF assms(1) w this] obtain p1 where p1: "p pb = Some (PACK_SUCCESS, p1)" "written p1 (old @ bs)" .
  have "length (old @ bs) + length cs < pack_limit" using l by simp
  from packsD[OF assms(2) p1(2) this] obtain p2 where "q p1 = Some (PACK_SUCCESS, p2)" "written p2 ((old @ bs) @ cs)" .
  then show "\<exists>pb'. pack_then p q pb = Some (PACK_SUCCESS, pb') \<and> written pb' (old @ bs @ cs)"
    using p1(1) by (simp add: pack_then_def)
qed

lemma packs_each [packing]:
  "(\<And>x. x \<in> set xs \<Longrightarrow> packs (p x) (f x)) \<Longrightarrow> packs (pack_each p xs) (concat (map f xs))"
  by (induction xs) (auto intro: packs_ret packs_then)

lemma pack_each_map: "pack_each p (map f xs) = pack_each (\<lambda>x. p (f x)) xs"
  by (induction xs) simp_all

lemma packs_int [packing]: "has_memory env \<Longrightarrow> packs (pack_int env i) (be32 i)"
  unfolding packs_def using int_codec.pack_law memory_not_short by (metis length_append)

lemma packs_str [packing]: "has_memory env \<Longrightarrow> str_ok s \<Longrightarrow> packs (\<lambda>pb. packstr env pb s) (str_bytes s)"
  unfolding packs_def using str_codec.pack_law memory_not_short by metis

lemma packs_field [packing]: "has_memory env \<Longrightarrow> field_ok f \<Longrightarrow> packs (\<lambda>pb. packbitfield env pb f) (field_bytes f)"
  unfolding packs_def using field_codec.pack_law memory_not_short by metis

lemma packs_double [packing]:
  "has_memory env \<Longrightarrow> xdr_ok xenc xdec \<Longrightarrow> packs (\<lambda>pb. packdouble env xenc pb d) (the (xenc d))"
  unfolding packs_def using packdouble_law memory_not_short xdr_length by metis

lemma reads_ret [reading]: "reads (unpack_ret PACK_SUCCESS v) [] v"
  by (simp add: reads_def unpack_ret_def)

lemma reads_then:
  assumes "reads u bs v" "reads (k v) cs w"
  shows "reads (unpack_then u k) (bs @ cs) w"
  unfolding reads_def
proof (intro allI impI)
  fix pb rest assume u: "unread pb ((bs @ cs) @ rest)"
  then have "unread pb (bs @ cs @ rest)" by simp
  from readsD[OF assms(1) this] obtain p1 where p1: "u pb = Some (PACK_SUCCESS, v, p1)" "unread p1 (cs @ rest)" .
  from readsD[OF assms(2) p1(2)] obtain p2 where "k v p1 = Some (PACK_SUCCESS, w, p2)" "unread p2 rest" .
  then show "\<exists>pb'. unpack_then u k pb = Some (PACK_SUCCESS, w, pb') \<and> unread pb' rest"
    using p1(1) by (simp add: unpack_then_def)
qed

lemma reads_last:
  assumes "reads u bs v" "reads (k v) [] w"
  shows "reads (unpack_then u k) bs w"
  using reads_then[of u bs v k "[]" w] assms by simp

lemma reads_need [reading]: "has_memory env \<Longrightarrow> reads u bs v \<Longrightarrow> reads (need env n ret u) bs v"
  by (simp add: need_def has_memory_def)

lemma reads_as [reading]: "reads u bs v \<Longrightarrow> reads (unpack_as f u) bs (f v)"
  unfolding reads_def unpack_as_def by fastforce

lemma reads_int [reading]: "reads unpackint (be32 i) i"
  unfolding reads_def by (metis unpackint_law)

lemma reads_str [reading]:
  assumes "has_memory env" "str_ok s"
  shows "reads (unpackstr env) (str_bytes s) (Some (str_norm s))"
  unfolding reads_def
proof (intro allI impI)
  fix pb rest assume "unread pb (str_bytes s @ rest)"
  from unpackstr_law[OF this assms(2), of env] memory_not_short[OF assms(1)]
  show "\<exists>pb'. unpackstr env pb = Some (PACK_SUCCESS, Some (str_norm s), pb') \<and> unread pb' rest"
    by (auto simp: read_str_def split: option.splits)
qed

lemma reads_double [reading]:
  assumes "xdr_ok xenc xdec"
  shows "reads (unpackdouble xdec) (the (xenc d)) d"
  unfolding reads_def
proof (intro allI impI)
  fix pb rest assume "unread pb (the (xenc d) @ rest)"
  from unpackdouble_law[OF assms this]
  show "\<exists>pb'. unpackdouble xdec pb = Some (PACK_SUCCESS, d, pb') \<and> unread pb' rest"
    by (auto simp: read_double_def split: option.splits)
qed

section \<open>64-bit numbers\<close>

lemma packs_int64 [packing]:
  assumes "has_memory env"
  shows "packs (\<lambda>pb. packint64 env pb i) (be32 (ucast i) @ [0, 0, 0, 0])"
  unfolding packs_def
proof (intro allI impI)
  fix pb old assume w: "written pb old" and l: "length old + length (be32 (ucast i) @ [0, 0, 0, 0]) < pack_limit"
  let ?bs = "be32 (ucast i) @ [0, 0, 0, 0]"
  have bs: "le_bytes (4 * 2) (ucast (htonl (ucast i)) :: 64 word) = ?bs"
    using bytes_of_widened[of "htonl (ucast i)"] by (simp add: bytes_htonl be32_def)
  have "length ?bs = 8" by simp
  then show "\<exists>pb'. packint64 env pb i = Some (PACK_SUCCESS, pb') \<and> written pb' (old @ ?bs)"
    using pack_bytes_law[OF w l, of "bytes_used pb + 8 > mem_size pb" "mem_size pb + CHUNK" env]
      chunk_step[OF w, of 8] l memory_not_short[OF assms]
    unfolding packint64_def bs by (auto simp: written_used[OF w] CHUNK_def)
qed

lemma ntohl_be32: "ntohl (le_word (be32 i)) = i"
  using ntohl_bytes[of i] by (simp add: be32_def)

lemma low_word: "ucast (le_word (bs @ [0, 0, 0, 0]) :: 64 word) = (le_word bs :: 32 word)" if "length bs = 4"
proof (rule bit_word_eqI)
  fix n assume "n < LENGTH(32)"
  then show "bit (ucast (le_word (bs @ [0, 0, 0, 0]) :: 64 word) :: 32 word) n = bit (le_word bs :: 32 word) n"
    using that by (auto simp: bit_simps le_word_bit nth_append)
qed

lemma reads_int64 [reading]: "reads unpackint64 (be32 i @ [0, 0, 0, 0]) (ucast i)"
  unfolding reads_def
proof (intro allI impI)
  fix pb rest assume "unread pb ((be32 i @ [0, 0, 0, 0]) @ rest)"
  from get_unread[OF this] show "\<exists>pb'. unpackint64 pb = Some (PACK_SUCCESS, ucast i, pb') \<and> unread pb' rest"
    using low_word[of "be32 i"] by (simp add: unpackint64_def ntohl_be32)
qed

section \<open>The bytes of lists\<close>

definition fresh_field :: "nat \<Rightarrow> bitfield" where
  "fresh_field n = the (sge_bitfield_init True n)"

definition descr_bytes :: "lDescr list \<Rightarrow> byte list" where
  "descr_bytes d = be32 (of_nat (length d)) @ concat (map (\<lambda>f. be32 (d_nm f) @ be32 (d_mt f)) d)"

definition cont_bytes :: "32 word \<Rightarrow> lDescr list \<Rightarrow> byte list list \<Rightarrow> byte list" where
  "cont_bytes flags d bs = concat (map (\<lambda>(f, b). if selected flags (d_mt f) then b else []) (zip d bs))"

primrec value_bytes :: "('d \<Rightarrow> byte list option) \<Rightarrow> 32 word \<Rightarrow> 'd lMultiType \<Rightarrow> byte list"
  and elem_bytes :: "('d \<Rightarrow> byte list option) \<Rightarrow> 32 word \<Rightarrow> 'd lListElem \<Rightarrow> byte list"
  and list_bytes :: "('d \<Rightarrow> byte list option) \<Rightarrow> 32 word \<Rightarrow> 'd lList \<Rightarrow> byte list" where
  "value_bytes x flags (V_Bool b) = be32 (scast b)"
| "value_bytes x flags (V_Ulong u) = be32 u"
| "value_bytes x flags (V_Ulong64 u) = be32 (ucast u) @ [0, 0, 0, 0]"
| "value_bytes x flags (V_String s) = str_bytes s"
| "value_bytes x flags (V_Host s) = str_bytes s"
| "value_bytes x flags (V_Double d) = the (x d)"
| "value_bytes x flags (V_List lp) =
     (case map_option (list_bytes x flags) lp of None \<Rightarrow> be32 0 | Some b \<Rightarrow> b)"
| "value_bytes x flags (V_Object obj) =
     (case map_option (elem_bytes x flags) obj of
        None \<Rightarrow> be32 0 | Some b \<Rightarrow> be32 1 @ descr_bytes (el_descr (the obj)) @ b)"
| "value_bytes x flags (V_Float d) = []"
| "value_bytes x flags (V_Long l) = []"
| "value_bytes x flags (V_Char c) = []"
| "value_bytes x flags (V_Int i) = []"
| "value_bytes x flags (V_Ref r) = []"
| "elem_bytes x flags (Elem status d c ch) =
     be32 status @ ((if status = FREE_ELEM then descr_bytes d else []) @ field_bytes (fresh_field (length d))) @
     cont_bytes flags d (map (value_bytes x flags) c)"
| "list_bytes x flags (CList n ch d es) =
     be32 1 @ (be32 (of_nat (length es)) @ str_bytes n @ be32 (of_bool ch) @ descr_bytes d) @
     concat (map (elem_bytes x flags) es)"

section \<open>Well-formed lists\<close>

text \<open>
  The fields of a descriptor have names and types; a value is of the type of its field, and that
  type is implemented; 64-bit numbers have 32 bits; elements have the descriptor of their list.
\<close>

definition descr_ok :: "lDescr list \<Rightarrow> bool" where
  "descr_ok d \<longleftrightarrow> length d < MAX_DESCR_SIZE \<and> list_all (\<lambda>f. d_type f \<noteq> lEndT \<and> d_nm f \<noteq> NoName) d"

definition cont_ok :: "lDescr list \<Rightarrow> (lMultiT \<Rightarrow> bool) list \<Rightarrow> bool" where
  "cont_ok d ps \<longleftrightarrow> list_all2 (\<lambda>f p. p (d_type f)) d ps"

primrec value_ok :: "'d lMultiType \<Rightarrow> lMultiT \<Rightarrow> bool"
  and elem_ok :: "'d lListElem \<Rightarrow> 32 word \<Rightarrow> lDescr list \<Rightarrow> bool"
  and list_ok :: "'d lList \<Rightarrow> bool" where
  "value_ok (V_Bool b) = (\<lambda>t. t = lBoolT)"
| "value_ok (V_Ulong u) = (\<lambda>t. t = lUlongT)"
| "value_ok (V_Ulong64 u) = (\<lambda>t. t = lUlong64T \<and> unat u < u32_limit)"
| "value_ok (V_String s) = (\<lambda>t. t = lStringT \<and> str_ok s)"
| "value_ok (V_Host s) = (\<lambda>t. t = lHostT \<and> str_ok s)"
| "value_ok (V_Double d) = (\<lambda>t. t = lDoubleT)"
| "value_ok (V_List lp) = (\<lambda>t. t = lListT \<and> (case map_option list_ok lp of None \<Rightarrow> True | Some p \<Rightarrow> p))"
| "value_ok (V_Object obj) = (\<lambda>t. t = lObjectT \<and> (case map_option elem_ok obj of None \<Rightarrow> True
     | Some p \<Rightarrow> descr_ok (el_descr (the obj)) \<and> p OBJECT_ELEM (el_descr (the obj))))"
| "value_ok (V_Ref r) = (\<lambda>t. t = lRefT)"
| "value_ok (V_Float d) = (\<lambda>_. False)"
| "value_ok (V_Long l) = (\<lambda>_. False)"
| "value_ok (V_Char c) = (\<lambda>_. False)"
| "value_ok (V_Int i) = (\<lambda>_. False)"
| "elem_ok (Elem status d c ch) = (\<lambda>st d'. status = st \<and> d = d' \<and> cont_ok d (map value_ok c))"
| "list_ok (CList n ch d es) =
     (descr_ok d \<and> str_ok n \<and> length es < u32_limit \<and> list_all (\<lambda>p. p BOUND_ELEM d) (map elem_ok es))"

section \<open>What comes back\<close>

definition cont_norm :: "32 word \<Rightarrow> lDescr list \<Rightarrow> 'd::zero lMultiType list \<Rightarrow> 'd lMultiType list" where
  "cont_norm flags d vs =
     map (\<lambda>(f, v). if selected flags (d_mt f) then v else zero_value (d_type f)) (zip d vs)"

primrec value_norm :: "name_space option \<Rightarrow> 32 word \<Rightarrow> 'd::zero lMultiType \<Rightarrow> 'd lMultiType"
  and elem_norm :: "name_space option \<Rightarrow> 32 word \<Rightarrow> 'd::zero lListElem \<Rightarrow> 32 word \<Rightarrow> 'd lListElem"
  and list_norm :: "name_space option \<Rightarrow> 32 word \<Rightarrow> 'd::zero lList \<Rightarrow> 'd lList" where
  "value_norm ns flags (V_Bool b) = V_Bool b"
| "value_norm ns flags (V_Ulong u) = V_Ulong u"
| "value_norm ns flags (V_Ulong64 u) = V_Ulong64 u"
| "value_norm ns flags (V_String s) = V_String (str_norm s)"
| "value_norm ns flags (V_Host s) = V_Host (str_norm s)"
| "value_norm ns flags (V_Double d) = V_Double d"
| "value_norm ns flags (V_List lp) = V_List (map_option (list_norm ns flags) lp)"
| "value_norm ns flags (V_Object obj) = V_Object (map_option (\<lambda>p. p OBJECT_ELEM) (map_option (elem_norm ns flags) obj))"
| "value_norm ns flags (V_Ref r) = V_Ref 0"
| "value_norm ns flags (V_Float d) = V_Float d"
| "value_norm ns flags (V_Long l) = V_Long l"
| "value_norm ns flags (V_Char c) = V_Char c"
| "value_norm ns flags (V_Int i) = V_Int i"
| "elem_norm ns flags (Elem status d c ch) =
     (\<lambda>st. Elem st (mark_reduced ns d) (cont_norm flags d (map (value_norm ns flags) c)) (fresh_field (length d)))"
| "list_norm ns flags (CList n ch d es) =
     CList (str_norm n) (ch \<or> es \<noteq> []) (mark_reduced ns d) (map (\<lambda>p. p BOUND_ELEM) (map (elem_norm ns flags) es))"

section \<open>Packing\<close>

lemma not_NoName: "x AND 0xFF \<noteq> NoName"
proof
  assume "x AND 0xFF = NoName"
  then have "bit (x AND 0xFF) 31 = bit NoName 31" by simp
  then show False by (simp add: NoName_def bit_simps)
qed

lemma count_descr: "list_all (\<lambda>f. d_type f \<noteq> lEndT) d \<Longrightarrow> lCountDescr d = length d"
  by (simp add: lCountDescr_def list_all_iff takeWhile_eq_all_conv[THEN iffD2])

lemma descr_okD:
  assumes "descr_ok d"
  shows "length d < 200" "lCountDescr d = length d" "take (lCountDescr d) d = d"
    "takeWhile (\<lambda>f. d_nm f AND 0xFF \<noteq> NoName \<and> d_type f \<noteq> lEndT) d = d"
    "takeWhile (\<lambda>f. d_nm f \<noteq> NoName) d = d"
proof -
  have "list_all (\<lambda>f. d_type f \<noteq> lEndT) d" using assms by (auto simp: descr_ok_def list_all_iff)
  then show "lCountDescr d = length d" by (rule count_descr)
  then show "take (lCountDescr d) d = d" by simp
qed (use assms in \<open>auto simp: descr_ok_def list_all_iff not_NoName MAX_DESCR_SIZE_def\<close>)

lemma packs_descr [packing]:
  assumes "has_memory env" "descr_ok d"
  shows "packs (cull_pack_descr env d) (descr_bytes d)"
  unfolding cull_pack_descr_def descr_bytes_def descr_okD[OF assms(2)]
  by (intro packing assms(1))

lemma init_fresh: "sge_bitfield_init True n = Some (fresh_field n)"
  by (simp add: fresh_field_def sge_bitfield_init_def Let_def)

lemma fresh_size [simp]: "bf_size (fresh_field n) = n"
  by (simp add: fresh_field_def sge_bitfield_init_def Let_def)

lemma fresh_ok: "n < 8 * CHUNK \<Longrightarrow> field_ok (fresh_field n)"
  by (simp add: field_ok_def bf_wf_def fresh_field_def sge_bitfield_init_def Let_def)

lemma fresh_norm: "field_norm (fresh_field n) = fresh_field n"
  using size_bytes_le by (auto simp: field_norm_def fresh_field_def sge_bitfield_init_def Let_def
      replicate_add[symmetric] min_def)

lemma packs_dummy_bitfield [packing]:
  assumes "has_memory env" "n < 200"
  shows "packs (pack_dummy_bitfield env n) (field_bytes (fresh_field n))"
proof -
  have "can_init_bitfield env n" using assms(1) by (simp add: can_init_bitfield_def has_memory_def)
  then show ?thesis using packs_field[OF assms(1) fresh_ok[of n]] assms(2)
    by (simp add: pack_dummy_bitfield_def init_fresh CHUNK_def)
qed

lemma packs_elem_head [packing]:
  assumes "has_memory env" "descr_ok d"
  shows "packs (pack_elem_head env status d None)
    (be32 status @ (if status = FREE_ELEM then descr_bytes d else []) @ field_bytes (fresh_field (length d)))"
  unfolding pack_elem_head_def
  using packs_descr[OF assms] packs_dummy_bitfield[OF assms(1) descr_okD(1)[OF assms(2)]] packs_ret
    packs_int[OF assms(1), of status]
  by (simp add: descr_okD[OF assms(2)] packs_then)

lemma packs_list_head [packing]:
  assumes "has_memory env" "descr_ok d" "str_ok n"
  shows "packs (pack_list_head env k n ch d None) (be32 (of_nat k) @ str_bytes n @ be32 (of_bool ch) @ descr_bytes d)"
  unfolding pack_list_head_def option.case by (intro packing assms)

lemma packs_cont [packing]:
  assumes "lCountDescr d = length d" "length cp = length d" "length bs = length d"
    and "\<And>i. i < length d \<Longrightarrow> packs ((cp ! i) None (d_type (d ! i))) (bs ! i)"
  shows "packs (cull_pack_cont flags cp d None) (cont_bytes flags d bs)"
proof -
  have "cont_bytes flags d bs =
      concat (map (\<lambda>i. if selected flags (d_mt (d ! i)) then bs ! i else []) [0..<length d])"
    unfolding cont_bytes_def by (rule arg_cong[of _ _ concat]) (rule nth_equalityI, use assms(3) in auto)
  then show ?thesis using assms
    by (auto simp: cull_pack_cont_def intro!: packs_each packs_ret)
qed

lemma cont_okD: "cont_ok d ps \<Longrightarrow> length ps = length d"
  by (simp add: cont_ok_def list_all2_lengthD)

lemma packs_values:
  fixes v :: "'d::zero lMultiType" and e :: "'d lListElem" and l :: "'d lList"
  assumes m: "has_memory env" and x: "xdr_ok xenc xdec"
  shows "value_ok v t \<Longrightarrow> packs (cull_pack_switch env xenc flags v None t) (value_bytes xenc flags v)"
    and "elem_ok e st d \<Longrightarrow> descr_ok d \<Longrightarrow> packs (pack_lListElem env xenc flags e None) (elem_bytes xenc flags e)"
    and "list_ok l \<Longrightarrow> packs (pack_lList env xenc flags l None) (list_bytes xenc flags l)"
proof (induction v and e and l arbitrary: t and st d)
  case (V_List lp)
  then show ?case using packs_int[OF m, of 0] by (cases lp) (auto simp: pack_if_def)
next
  case (V_Object obj)
  show ?case
  proof (cases obj)
    case (Some e)
    then have "packs (pack_lListElem env xenc flags e None) (elem_bytes xenc flags e)"
      "descr_ok (el_descr e)" using V_Object by auto
    then show ?thesis using Some V_Object.prems packs_int[OF m, of 1]
      by (auto simp: pack_if_def intro!: packs_then packs_descr m)
  qed (use V_Object.prems packs_int[OF m, of 0] in \<open>simp add: pack_if_def\<close>)
next
  case (Elem s dd c ch)
  then have dd: "dd = d" by simp
  from Elem have ok: "cont_ok d (map value_ok c)" "descr_ok d" by auto
  have "packs ((map (cull_pack_switch env xenc flags) c ! i) None (d_type (d ! i)))
      (map (value_bytes xenc flags) c ! i)" if "i < length d" for i
    using Elem.IH[of "c ! i"] ok(1) that by (auto simp: cont_ok_def list_all2_conv_all_nth)
  then have "packs (cull_pack_cont flags (map (cull_pack_switch env xenc flags) c) d None)
      (cont_bytes flags d (map (value_bytes xenc flags) c))"
    using ok cont_okD[OF ok(1)] descr_okD(2) by (auto intro!: packs_cont)
  then have "packs (pack_lListElem env xenc flags (Elem s d c ch) None)
      ((be32 s @ (if s = FREE_ELEM then descr_bytes d else []) @ field_bytes (fresh_field (length d))) @
       cont_bytes flags d (map (value_bytes xenc flags) c))"
    unfolding pack_lListElem.simps by (intro packs_then packs_elem_head m ok)
  then show ?case unfolding dd by (simp split: if_splits)
next
  case (CList n ch d es)
  then have ok: "descr_ok d" "str_ok n" "\<forall>e \<in> set es. elem_ok e BOUND_ELEM d"
    by (auto simp: list_all_iff)
  have "packs (pack_each (\<lambda>p. p None) (map (pack_lListElem env xenc flags) es))
      (concat (map (elem_bytes xenc flags) es))"
    unfolding pack_each_map by (rule packs_each) (use CList.IH ok in blast)
  then show ?case unfolding pack_lList.simps list_bytes.simps
    by (intro packs_then packs_int packs_list_head m ok)
qed (use m x packs_double in \<open>auto simp: pack_if_def pack_no_value_def intro!: packing\<close>)

section \<open>Unpacking\<close>

lemma reduced_type [simp]: "mt_get_type (mt OR CULL_IS_REDUCED) = mt_get_type mt"
proof -
  have "(mt OR CULL_IS_REDUCED) AND 0xFF = mt AND 0xFF"
    by (simp add: CULL_IS_REDUCED_def bit.conj_disj_distrib2)
  then show ?thesis by (simp add: mt_get_type_def)
qed

text \<open>The flags must not ask for the mark that unpacking adds.\<close>

definition flags_ok :: "32 word \<Rightarrow> bool" where
  "flags_ok flags \<longleftrightarrow> flags AND CULL_IS_REDUCED = 0"

lemma reduced_selected: "flags_ok flags \<Longrightarrow> selected flags (mt OR CULL_IS_REDUCED) = selected flags mt"
proof -
  assume "flags_ok flags"
  then have "CULL_IS_REDUCED AND flags = 0" by (simp add: flags_ok_def and.commute)
  then have "(mt OR CULL_IS_REDUCED) AND flags = mt AND flags"
    by (simp add: bit.conj_disj_distrib2)
  then show ?thesis by (simp add: selected_def)
qed

lemma mark_reduced_simps [simp]:
  "length (mark_reduced ns d) = length d"
  "map d_nm (mark_reduced ns d) = map d_nm d"
  "map d_type (mark_reduced ns d) = map d_type d"
  by (simp_all add: mark_reduced_def)

lemma mark_reduced_nth:
  "i < length d \<Longrightarrow> d_type (mark_reduced ns d ! i) = d_type (d ! i)"
  "i < length d \<Longrightarrow> flags_ok flags \<Longrightarrow>
    selected flags (d_mt (mark_reduced ns d ! i)) = selected flags (d_mt (d ! i))"
  by (simp_all add: mark_reduced_def reduced_selected)

lemma mark_reduced_ok: "descr_ok d \<Longrightarrow> descr_ok (mark_reduced ns d)"
  by (auto simp: descr_ok_def mark_reduced_def list_all_iff)

lemma reads_fields: "reads (unpack_fields (length d)) (concat (map (\<lambda>f. be32 (d_nm f) @ be32 (d_mt f)) d)) (Some d)"
proof (induction d)
  case (Cons f d)
  have "reads (unpack_fields (Suc (length d)))
      (be32 (d_nm f) @ be32 (d_mt f) @ concat (map (\<lambda>f. be32 (d_nm f) @ be32 (d_mt f)) d)) (Some (f # d))"
    unfolding unpack_fields.simps
    by (rule reads_then[OF reads_int], rule reads_then[OF reads_int], rule reads_last[OF Cons.IH])
      (cases f, simp add: reads_ret)
  then show ?case by simp
qed (simp add: reads_ret)

lemma reads_descr [reading]:
  assumes "has_memory env" "descr_ok d"
  shows "reads (cull_unpack_descr env ns) (descr_bytes d) (Some (mark_reduced ns d))"
proof -
  have n: "unat (of_nat (length d) :: 32 word) = length d" "\<not> length d > MAX_DESCR_SIZE - 1"
    using assms(2) by (auto simp: descr_ok_def MAX_DESCR_SIZE_def unat_of_nat take_bit_nat_eq_self)
  show ?thesis unfolding cull_unpack_descr_def descr_bytes_def
  proof (rule reads_then[OF reads_int])
    show "reads (if unat (of_nat (length d) :: 32 word) > MAX_DESCR_SIZE - 1 then unpack_ret PACK_ENOMEM None
        else need env (sizeof_lDescr * (unat (of_nat (length d) :: 32 word) + 1)) PACK_ENOMEM
          (unpack_then (unpack_fields (unat (of_nat (length d) :: 32 word)))
            (\<lambda>dp. unpack_ret PACK_SUCCESS (Some (mark_reduced ns (the dp))))))
      (concat (map (\<lambda>f. be32 (d_nm f) @ be32 (d_mt f)) d)) (Some (mark_reduced ns d))"
      unfolding n(1) if_not_P[OF n(2)]
      by (rule reads_need[OF assms(1)], rule reads_last[OF reads_fields]) (simp add: reads_ret)
  qed
qed

lemma reads_bitfield [reading]:
  assumes "has_memory env" "n < 200"
  shows "reads (\<lambda>pb. unpackbitfield env (can_init_bitfield env n) pb n) (field_bytes (fresh_field n))
    (Some (fresh_field n))"
  unfolding reads_def
proof (intro allI impI)
  fix pb rest assume u: "unread pb (field_bytes (fresh_field n) @ rest)"
  have ok: "field_ok (fresh_field n)" using assms(2) by (intro fresh_ok) (simp add: CHUNK_def)
  show "\<exists>pb'. unpackbitfield env (can_init_bitfield env n) pb n = Some (PACK_SUCCESS, Some (fresh_field n), pb') \<and>
      unread pb' rest"
    using field_codec.unpack_law[OF u ok, of env] memory_not_short[OF assms(1)]
    by (auto simp: read_field_def can_init_bitfield_def fresh_norm)
qed

lemma cont_loop_reads:
  assumes "length vs = length d" "length bs = length d"
    and "\<And>i. i < length d \<Longrightarrow> selected flags (d_mt (d ! i)) \<Longrightarrow> reads (sw (d_type (d ! i))) (bs ! i) (vs ! i)"
    and "unread pb (cont_bytes flags d bs @ rest)" "last_error st = PACK_SUCCESS"
  shows "\<exists>pb'. unpack_cont_loop sw flags d st pb =
      Some (PACK_SUCCESS, st\<lparr>cs_values := cs_values st @ cont_norm flags d vs\<rparr>, pb') \<and> unread pb' rest"
  using assms
proof (induction d arbitrary: vs bs pb st)
  case Nil
  then show ?case by (simp add: cont_norm_def cont_bytes_def)
next
  case (Cons f d)
  obtain v vs' b bs' where vb: "vs = v # vs'" "bs = b # bs'" "length vs' = length d" "length bs' = length d"
    using Cons.prems(1,2) by (auto simp: length_Suc_conv)
  have IH: "selected flags (d_mt (d ! i)) \<Longrightarrow> reads (sw (d_type (d ! i))) (bs' ! i) (vs' ! i)" if "i < length d" for i
    using Cons.prems(3)[of "Suc i"] that vb by simp
  show ?case
  proof (cases "selected flags (d_mt f)")
    case True
    have "reads (sw (d_type f)) b v" using Cons.prems(3)[of 0] True vb by simp
    moreover have "unread pb (b @ cont_bytes flags d bs' @ rest)"
      using Cons.prems(4) True vb by (simp add: cont_bytes_def)
    ultimately obtain p1 where p1: "sw (d_type f) pb = Some (PACK_SUCCESS, v, p1)"
        "unread p1 (cont_bytes flags d bs' @ rest)"
      by (rule readsD)
    show ?thesis using Cons.IH[OF vb(3,4) IH p1(2), of "st\<lparr>cs_values := cs_values st @ [v], last_error := PACK_SUCCESS\<rparr>"]
        p1(1) True vb(1) Cons.prems(5)
      by (auto simp: cont_norm_def Let_def)
  next
    case False
    have "unread pb (cont_bytes flags d bs' @ rest)"
      using Cons.prems(4) False vb by (simp add: cont_bytes_def)
    from Cons.IH[OF vb(3,4) IH this, of "st\<lparr>cs_values := cs_values st @ [zero_value (d_type f)]\<rparr>"]
    show ?thesis using False vb(1) Cons.prems(5) by (auto simp: cont_norm_def)
  qed
qed

lemma cont_norm_marked:
  assumes "flags_ok flags" "length vs = length d"
  shows "cont_norm flags (mark_reduced ns d) vs = cont_norm flags d vs"
    and "cont_bytes flags (mark_reduced ns d) bs = cont_bytes flags d bs"
proof -
  show "cont_norm flags (mark_reduced ns d) vs = cont_norm flags d vs"
    unfolding cont_norm_def
    by (rule nth_equalityI) (use assms mark_reduced_nth in \<open>auto simp: nth_append\<close>)
  show "cont_bytes flags (mark_reduced ns d) bs = cont_bytes flags d bs"
    unfolding cont_bytes_def
    by (rule arg_cong[of _ _ concat]) (rule nth_equalityI, use assms mark_reduced_nth in auto)
qed

lemma reads_cont [reading]:
  assumes m: "has_memory env" and f: "flags_ok flags" and d: "descr_ok d"
    and len: "length vs = length d" "length bs = length d"
    and vals: "\<And>i. i < length d \<Longrightarrow> selected flags (d_mt (d ! i)) \<Longrightarrow> reads (sw (d_type (d ! i))) (bs ! i) (vs ! i)"
  shows "reads (cull_unpack_cont env sw flags (mark_reduced ns d)) (cont_bytes flags d bs)
    (Some (cont_norm flags d vs))"
  unfolding reads_def
proof (intro allI impI)
  fix pb rest assume u: "unread pb (cont_bytes flags d bs @ rest)"
  let ?st = "\<lparr>cs_values = [], format_error = False, only_at_bufferend = True, last_error = PACK_SUCCESS\<rparr>"
  have "\<exists>pb'. unpack_cont_loop sw flags (mark_reduced ns d) ?st pb =
      Some (PACK_SUCCESS, ?st\<lparr>cs_values := cs_values ?st @ cont_norm flags (mark_reduced ns d) vs\<rparr>, pb') \<and> unread pb' rest"
  proof (rule cont_loop_reads)
    show "unread pb (cont_bytes flags (mark_reduced ns d) bs @ rest)" using u f len by (simp add: cont_norm_marked)
  qed (use f len vals mark_reduced_nth in simp_all)
  then show "\<exists>pb'. cull_unpack_cont env sw flags (mark_reduced ns d) pb =
      Some (PACK_SUCCESS, Some (cont_norm flags d vs), pb') \<and> unread pb' rest"
    using m descr_okD(3)[OF mark_reduced_ok[OF d]]
    by (auto simp: cull_unpack_cont_def need_def has_memory_def cont_norm_marked[OF f len(1)] Let_def)
qed

lemma reads_elem:
  assumes m: "has_memory env" and f: "flags_ok flags" and d: "descr_ok d" and c: "cont_ok d (map value_ok c)"
    and s: "s = BOUND_ELEM \<or> s = OBJECT_ELEM"
    and vals: "\<And>i. i < length c \<Longrightarrow> selected flags (d_mt (d ! i)) \<Longrightarrow>
      reads (sw (d_type (d ! i))) (value_bytes x flags (c ! i)) (value_norm ns flags (c ! i))"
  shows "reads (unpack_elem env ns sw flags (Some (mark_reduced ns d))) (elem_bytes x flags (Elem s d c ch))
    (Some (Elem TRANS_BOUND_ELEM (mark_reduced ns d) (cont_norm flags d (map (value_norm ns flags) c))
      (fresh_field (length d))))"
proof -
  have nf: "s \<noteq> FREE_ELEM" using s by (auto simp: elem_status_defs)
  have n: "lCountDescr (mark_reduced ns d) = length d" using descr_okD(2)[OF mark_reduced_ok[OF d]] by simp
  have cont: "reads (cull_unpack_cont env sw flags (mark_reduced ns d)) (cont_bytes flags d (map (value_bytes x flags) c))
      (Some (cont_norm flags d (map (value_norm ns flags) c)))"
    by (rule reads_cont[OF m f d]) (use c vals in \<open>auto simp: cont_ok_def list_all2_conv_all_nth\<close>)
  have "reads (unpack_elem env ns sw flags (Some (mark_reduced ns d)))
      (be32 s @ [] @ field_bytes (fresh_field (length d)) @ cont_bytes flags d (map (value_bytes x flags) c))
      (Some (Elem TRANS_BOUND_ELEM (mark_reduced ns d) (cont_norm flags d (map (value_norm ns flags) c))
        (fresh_field (length d))))"
    unfolding unpack_elem_def Let_def
  proof (rule reads_need[OF m], rule reads_then[OF reads_int], rule reads_then)
    show "reads (unpack_elem_descr env ns s (Some (mark_reduced ns d))) [] (Some (mark_reduced ns d))"
      using nf by (simp add: unpack_elem_descr_def reads_ret)
  next
    show "reads (unpack_then (\<lambda>pb. unpackbitfield env (can_init_bitfield env (lCountDescr (the (Some (mark_reduced ns d))))) pb
          (lCountDescr (the (Some (mark_reduced ns d)))))
        (\<lambda>changed. unpack_then (cull_unpack_cont env sw flags (the (Some (mark_reduced ns d))))
          (\<lambda>cont. unpack_ret PACK_SUCCESS (Some (Elem
             (if s = BOUND_ELEM \<or> s = OBJECT_ELEM then TRANS_BOUND_ELEM else s)
             (the (Some (mark_reduced ns d))) (the cont) (the changed))))))
      (field_bytes (fresh_field (length d)) @ cont_bytes flags d (map (value_bytes x flags) c))
      (Some (Elem TRANS_BOUND_ELEM (mark_reduced ns d) (cont_norm flags d (map (value_norm ns flags) c))
        (fresh_field (length d))))"
      unfolding option.sel n if_P[OF s]
      by (rule reads_then[OF reads_bitfield[OF m descr_okD(1)[OF d]]], rule reads_last[OF cont]) (simp add: reads_ret)
  qed
  then show ?thesis using nf by simp
qed

lemma reads_elems:
  assumes "\<And>e. e \<in> set es \<Longrightarrow> reads u (f e) (Some (Elem TRANS_BOUND_ELEM (l_descr lp) (g e) (h e)))"
  shows "reads (unpack_elems u (length es) lp) (concat (map f es))
    (Some (CList (l_name lp) (l_changed lp \<or> es \<noteq> []) (l_descr lp)
       (l_elems lp @ map (\<lambda>e. Elem BOUND_ELEM (l_descr lp) (g e) (h e)) es)))"
  using assms
proof (induction es arbitrary: lp)
  case Nil
  then show ?case by (simp add: reads_ret)
next
  case (Cons e es)
  let ?lp = "CList (l_name lp) True (l_descr lp) (l_elems lp @ [Elem BOUND_ELEM (l_descr lp) (g e) (h e)])"
  have app: "lAppendElem lp (Elem TRANS_BOUND_ELEM (l_descr lp) (g e) (h e)) = Some ?lp"
    by (simp add: lAppendElem_def elem_status_defs)
  have "reads (unpack_elems u (length es) ?lp) (concat (map f es))
      (Some (CList (l_name lp) True (l_descr lp)
         (l_elems ?lp @ map (\<lambda>e. Elem BOUND_ELEM (l_descr lp) (g e) (h e)) es)))"
    using Cons.IH[of ?lp] Cons.prems by simp
  then have "reads (unpack_elems u (Suc (length es)) lp) (f e @ concat (map f es))
      (Some (CList (l_name lp) True (l_descr lp)
         (l_elems ?lp @ map (\<lambda>e. Elem BOUND_ELEM (l_descr lp) (g e) (h e)) es)))"
    unfolding unpack_elems.simps using Cons.prems[of e] by (intro reads_then) (auto simp: app)
  then show ?case by simp
qed

lemma reads_list:
  assumes m: "has_memory env" and f: "flags_ok flags" and l: "list_ok (CList n ch d es)"
    and vals: "\<And>e i. e \<in> set es \<Longrightarrow> i < length (el_cont e) \<Longrightarrow> selected flags (d_mt (d ! i)) \<Longrightarrow>
      reads (sw (d_type (d ! i))) (value_bytes x flags (el_cont e ! i)) (value_norm ns flags (el_cont e ! i))"
  shows "reads (unpack_list env ns sw flags) (list_bytes x flags (CList n ch d es)) (Some (list_norm ns flags (CList n ch d es)))"
proof -
  let ?g = "\<lambda>e. cont_norm flags d (map (value_norm ns flags) (el_cont e))"
  let ?h = "\<lambda>e :: 'a lListElem. fresh_field (length d)"
  have ok: "descr_ok d" "str_ok n" "\<forall>e \<in> set es. elem_ok e BOUND_ELEM d" "length es < u32_limit"
    using l by (auto simp: list_all_iff)
  have cnt: "unat (of_nat (length es) :: 32 word) = length es"
    using ok(4) by (simp add: unat_of_nat take_bit_nat_eq_self)
  have elem: "reads (unpack_elem env ns sw flags (Some (mark_reduced ns d))) (elem_bytes x flags e)
      (Some (Elem TRANS_BOUND_ELEM (mark_reduced ns d) (?g e) (?h e)))" if e: "e \<in> set es" for e
  proof (cases e)
    case (Elem s d' c ch')
    then have "s = BOUND_ELEM" "d' = d" "cont_ok d (map value_ok c)" using ok(3) e by auto
    then show ?thesis unfolding Elem using reads_elem[OF m f ok(1), of c s sw x ns ch'] vals[OF e] Elem by simp
  qed
  have elems: "reads (unpack_elems (unpack_elem env ns sw flags (Some (mark_reduced ns d))) (length es)
      (CList (str_norm n) ch (mark_reduced ns d) [])) (concat (map (elem_bytes x flags) es))
    (Some (list_norm ns flags (CList n ch d es)))"
  proof -
    have eq: "map (\<lambda>p. p BOUND_ELEM) (map (elem_norm ns flags) es) =
        map (\<lambda>e. Elem BOUND_ELEM (mark_reduced ns d) (?g e) (?h e)) es"
    proof (rule nth_equalityI)
      fix i assume "i < length (map (\<lambda>p. p BOUND_ELEM) (map (elem_norm ns flags) es))"
      then have i: "i < length es" by simp
      then have "elem_ok (es ! i) BOUND_ELEM d" using ok(3) by simp
      then show "map (\<lambda>p. p BOUND_ELEM) (map (elem_norm ns flags) es) ! i =
          map (\<lambda>e. Elem BOUND_ELEM (mark_reduced ns d) (?g e) (?h e)) es ! i"
        using i by (cases "es ! i") simp
    qed simp
    show ?thesis unfolding list_norm.simps eq
      using reads_elems[of es "unpack_elem env ns sw flags (Some (mark_reduced ns d))" "elem_bytes x flags"
          "CList (str_norm n) ch (mark_reduced ns d) []" ?g ?h] elem
      by simp
  qed
  have "reads (unpack_list env ns sw flags)
      (be32 1 @ be32 (of_nat (length es)) @ str_bytes n @ be32 (of_bool ch) @ descr_bytes d @
       concat (map (elem_bytes x flags) es)) (Some (list_norm ns flags (CList n ch d es)))"
    unfolding unpack_list_def
  proof (rule reads_then[OF reads_int])
    have "reads (unpack_then unpackint (\<lambda>k. unpack_then (unpackstr env) (\<lambda>name. unpack_then unpackint (\<lambda>c.
        unpack_then (cull_unpack_descr env ns) (\<lambda>descr.
          unpack_elems (unpack_elem env ns sw flags (Some (the descr))) (unat k) (CList (the name) (c \<noteq> 0) (the descr) []))))))
      (be32 (of_nat (length es)) @ str_bytes n @ be32 (of_bool ch) @ descr_bytes d @
       concat (map (elem_bytes x flags) es)) (Some (list_norm ns flags (CList n ch d es)))"
      by (rule reads_then[OF reads_int], rule reads_then[OF reads_str[OF m ok(2)]], rule reads_then[OF reads_int],
          rule reads_then[OF reads_descr[OF m ok(1)]]) (use elems cnt in simp)
    from reads_need[OF m this]
    show "reads (if (1 :: 32 word) = 0 then unpack_ret PACK_SUCCESS None
        else need env sizeof_lList PACK_ENOMEM
          (unpack_then unpackint (\<lambda>k. unpack_then (unpackstr env) (\<lambda>name. unpack_then unpackint (\<lambda>c.
            unpack_then (cull_unpack_descr env ns) (\<lambda>descr.
              unpack_elems (unpack_elem env ns sw flags (Some (the descr))) (unat k)
                (CList (the name) (c \<noteq> 0) (the descr) [])))))))
      (be32 (of_nat (length es)) @ str_bytes n @ be32 (of_bool ch) @ descr_bytes d @
       concat (map (elem_bytes x flags) es)) (Some (list_norm ns flags (CList n ch d es)))"
      unfolding if_not_P[OF one_neq_zero] .
  qed
  then show ?thesis by simp
qed

lemma length_in_concat: "x \<in> set xs \<Longrightarrow> length x \<le> length (concat xs)"
  by (induction xs) auto

lemma inner_less_elem:
  "length (el_cont e) = length d \<Longrightarrow> el_descr e = d \<Longrightarrow> i < length d \<Longrightarrow> selected flags (d_mt (d ! i)) \<Longrightarrow>
    length (value_bytes x flags (el_cont e ! i)) + 8 \<le> length (elem_bytes x flags e)"
proof (cases e)
  case (Elem s d' c ch)
  assume "length (el_cont e) = length d" "el_descr e = d" and i: "i < length d" "selected flags (d_mt (d ! i))"
  then have d: "d' = d" "length c = length d" using Elem by auto
  let ?bs = "map (\<lambda>(f, b). if selected flags (d_mt f) then b else []) (zip d (map (value_bytes x flags) c))"
  have "?bs ! i = value_bytes x flags (c ! i)" using i d by simp
  moreover have "?bs ! i \<in> set ?bs" by (rule nth_mem) (use i d in simp)
  ultimately have "value_bytes x flags (c ! i) \<in> set ?bs" by simp
  then have "length (value_bytes x flags (c ! i)) \<le> length (concat ?bs)"
    by (rule length_in_concat)
  then have "length (value_bytes x flags (c ! i)) \<le> length (cont_bytes flags d (map (value_bytes x flags) c))"
    unfolding cont_bytes_def .
  moreover have "4 \<le> length (field_bytes (fresh_field (length d)))" by (simp add: field_bytes_def)
  ultimately show ?thesis unfolding Elem elem_bytes.simps d by simp
qed

lemma elem_less_list:
  "e \<in> set es \<Longrightarrow> length (elem_bytes x flags e) + 8 \<le> length (list_bytes x flags (CList n ch d es))"
proof -
  assume "e \<in> set es"
  then have "length (elem_bytes x flags e) \<le> length (concat (map (elem_bytes x flags) es))"
    by (intro length_in_concat) simp
  then show ?thesis by simp
qed

lemma elem_okD: "elem_ok e st d \<Longrightarrow> el_descr e = d \<and> length (el_cont e) = length d \<and> el_status e = st \<and>
    (\<forall>i < length d. value_ok (el_cont e ! i) (d_type (d ! i)))"
  by (cases e) (auto simp: cont_ok_def list_all2_conv_all_nth)

lemma switch_fuel:
  "0 < fuel \<Longrightarrow> cull_unpack_switch env xdec ns flags fuel =
    unpack_value env xdec ns flags (cull_unpack_switch env xdec ns flags (fuel - 1))"
  by (cases fuel) simp_all

lemma reads_as_str:
  "has_memory env \<Longrightarrow> str_ok s \<Longrightarrow>
    reads (unpack_as (\<lambda>s. V (case s of Some x \<Rightarrow> x | None \<Rightarrow> None)) (unpackstr env)) (str_bytes s) (V (str_norm s))"
  using reads_as[OF reads_str, of env s "\<lambda>s. V (case s of Some x \<Rightarrow> x | None \<Rightarrow> None)"] by simp

lemma reads_values:
  fixes v :: "'d::zero lMultiType" and e :: "'d lListElem" and l :: "'d lList"
  assumes m: "has_memory env" and f: "flags_ok flags" and x: "xdr_ok xenc xdec"
  shows "value_ok v t \<Longrightarrow> length (value_bytes xenc flags v) < fuel \<Longrightarrow>
      reads (cull_unpack_switch env xdec ns flags fuel t) (value_bytes xenc flags v) (value_norm ns flags v)"
    and "elem_ok e st d \<Longrightarrow> i < length d \<Longrightarrow> selected flags (d_mt (d ! i)) \<Longrightarrow>
      length (value_bytes xenc flags (el_cont e ! i)) < fuel \<Longrightarrow>
      reads (cull_unpack_switch env xdec ns flags fuel (d_type (d ! i)))
        (value_bytes xenc flags (el_cont e ! i)) (value_norm ns flags (el_cont e ! i))"
    and "list_ok l \<Longrightarrow> length (list_bytes xenc flags l) \<le> fuel \<Longrightarrow>
      reads (unpack_list env ns (cull_unpack_switch env xdec ns flags fuel) flags) (list_bytes xenc flags l)
        (Some (list_norm ns flags l))"
proof (induction v and e and l arbitrary: t fuel and st d i fuel and fuel)
  case (V_List lp)
  from V_List.prems obtain fu where fu: "fuel = Suc fu" by (cases fuel) auto
  show ?case
  proof (cases lp)
    case None
    have "reads (unpack_list env ns sw flags) (be32 0) (None :: 'd lList option)" for sw
      unfolding unpack_list_def by (rule reads_last[OF reads_int]) (simp add: reads_ret)
    then show ?thesis using None V_List.prems fu by (simp add: unpack_value_def reads_as)
  next
    case (Some l)
    then have "reads (unpack_list env ns (cull_unpack_switch env xdec ns flags fu) flags) (list_bytes xenc flags l)
        (Some (list_norm ns flags l))" using V_List fu by auto
    then show ?thesis using Some V_List.prems fu by (simp add: unpack_value_def reads_as)
  qed
next
  case (V_Object obj)
  from V_Object.prems obtain fu where fu: "fuel = Suc fu" by (cases fuel) auto
  show ?case
  proof (cases obj)
    case None
    have "reads (cull_unpack_object env ns sw flags) (be32 0) (None :: 'd lListElem option)" for sw
      unfolding cull_unpack_object_def by (rule reads_last[OF reads_int]) (simp add: reads_ret)
    then show ?thesis using None V_Object.prems fu by (simp add: unpack_value_def reads_as)
  next
    case (Some e)
    obtain s d c ch where e: "e = Elem s d c ch" by (cases e) auto
    from V_Object.prems have ok: "descr_ok d" "elem_ok e OBJECT_ELEM d" "t = lObjectT" using Some e by auto
    have s: "s = OBJECT_ELEM" "cont_ok d (map value_ok c)" using ok(2) e by auto
    have len: "length (elem_bytes xenc flags e) < fu" using V_Object.prems Some fu by simp
    have "reads (unpack_elem env ns (cull_unpack_switch env xdec ns flags fu) flags (Some (mark_reduced ns d)))
        (elem_bytes xenc flags e)
        (Some (Elem TRANS_BOUND_ELEM (mark_reduced ns d) (cont_norm flags d (map (value_norm ns flags) c)) (fresh_field (length d))))"
      unfolding e
    proof (rule reads_elem[OF m f ok(1) s(2)])
      fix i assume i: "i < length c" "selected flags (d_mt (d ! i))"
      have "i < length d" using i s(2) cont_okD[OF s(2)] by simp
      then show "reads (cull_unpack_switch env xdec ns flags fu (d_type (d ! i)))
          (value_bytes xenc flags (c ! i)) (value_norm ns flags (c ! i))"
        using V_Object.IH[of e, OF _ ok(2) _ i(2), of fu] inner_less_elem[of e d i flags xenc] len i e Some
          cont_okD[OF s(2)] by simp
    qed (use s in simp)
    then have "reads (cull_unpack_object env ns (cull_unpack_switch env xdec ns flags fu) flags)
        (be32 1 @ descr_bytes d @ elem_bytes xenc flags e) (Some (elem_norm ns flags e OBJECT_ELEM))"
      unfolding cull_unpack_object_def
      by (intro reads_then[OF reads_int]) (auto intro!: reads_then[OF reads_descr[OF m ok(1)]] reads_last reads_ret simp: e)
    then show ?thesis using Some e fu ok(3) by (simp add: unpack_value_def reads_as)
  qed
next
  case (Elem s dd c ch)
  then have ok: "value_ok (c ! i) (d_type (d ! i))" "i < length c" using elem_okD[OF Elem.prems(1)] by auto
  then show ?case using Elem.IH[of "c ! i" "d_type (d ! i)" fuel] Elem.prems by simp
next
  case (CList n ch d es)
  show ?case
  proof (rule reads_list[OF m f CList.prems(1)])
    fix e i assume e: "e \<in> set es" "i < length (el_cont e)" "selected flags (d_mt (d ! i))"
    have eok: "elem_ok e BOUND_ELEM d" using CList.prems(1) e(1) by (auto simp: list_all_iff)
    have i: "i < length d" using elem_okD[OF eok] e(2) by simp
    have "length (value_bytes xenc flags (el_cont e ! i)) < fuel"
      using inner_less_elem[of e d i flags xenc] elem_less_list[OF e(1), of xenc flags n ch d] elem_okD[OF eok]
        i e(3) CList.prems(2) by simp
    from CList.IH[OF e(1) eok i e(3) this]
    show "reads (cull_unpack_switch env xdec ns flags fuel (d_type (d ! i)))
        (value_bytes xenc flags (el_cont e ! i)) (value_norm ns flags (el_cont e ! i))" .
  qed
next
  case (V_Ulong64 u)
  then have "unat (ucast (ucast u :: 32 word) :: 64 word) = unat u"
    by (simp add: unsigned_ucast_eq unsigned_take_bit_eq take_bit_nat_eq_self)
  then have u: "ucast (ucast u :: 32 word) = u" by (simp only: word_unat_eq_iff)
  from V_Ulong64.prems obtain fu where "fuel = Suc fu" by (cases fuel) auto
  then show ?case using V_Ulong64.prems reads_as[OF reads_int64[of "ucast u"], of V_Ulong64]
    by (simp add: unpack_value_def u)
next
  case (V_Bool b)
  have b: "ucast (scast b :: 32 word) = b" by (rule bit_word_eqI) (auto simp: bit_simps)
  from V_Bool.prems obtain fu where "fuel = Suc fu" by (cases fuel) auto
  then show ?case
    using V_Bool.prems reads_as[OF reads_int[of "scast b"], of "\<lambda>i. V_Bool (ucast i)"]
    by (simp add: unpack_value_def b)
qed (use m x in \<open>auto simp: switch_fuel unpack_value_def
    intro!: reads_ret reads_as_str reads_as reads_int reads_double\<close>)

section \<open>Whole buffers\<close>

lemma unread_left: "unread pb bs \<Longrightarrow> bytes_left pb = length bs"
  by (auto simp: unread_def bytes_left_def)

text \<open>What is packed into a new buffer is read from its bytes, to the last one.\<close>

lemma whole_buffer:
  assumes m: "has_memory env" and n: "n \<le> pack_limit" and p: "packs p bs" and l: "8 + length bs < pack_limit"
    and u: "\<And>rb. unread rb bs \<Longrightarrow> bytes_left rb = length bs \<Longrightarrow> \<exists>rb'. u rb = Some (PACK_SUCCESS, v, rb') \<and> unread rb' []"
  shows "\<exists>pb pb' b rb rb'. init_packbuffer env (Some p0) n False = Some (PACK_SUCCESS, Some pb) \<and>
    p pb = Some (PACK_SUCCESS, pb') \<and> head_ptr pb' = Some b \<and>
    init_packbuffer_from_buffer (Some q0) (Some (take (bytes_used pb') b)) (bytes_used pb') =
      Some (PACK_SUCCESS, Some rb) \<and>
    u rb = Some (PACK_SUCCESS, v, rb') \<and> pb_unused rb' = 0"
proof -
  have "malloc env (if n = 0 then CHUNK else n + 8) \<noteq> None" using m by (simp add: malloc_def has_memory_def)
  from init_packbuffer_law[OF n this] obtain pb where
    pb: "init_packbuffer env (Some p0) n False = Some (PACK_SUCCESS, Some pb)" "written pb header_bytes" .
  have "length header_bytes + length bs < pack_limit" using l by simp
  from packsD[OF p pb(2) this] obtain pb' where pb': "p pb = Some (PACK_SUCCESS, pb')" "written pb' (header_bytes @ bs)" .
  obtain b where b: "head_ptr pb' = Some b" "take (bytes_used pb') b = header_bytes @ bs"
      "bytes_used pb' = length (header_bytes @ bs)"
    using pb'(2) by (auto simp: written_def)
  obtain rb where rb: "init_packbuffer_from_buffer (Some q0) (Some (header_bytes @ bs))
      (length (header_bytes @ bs)) = Some (PACK_SUCCESS, Some rb)" "unread rb bs"
    using init_from_buffer_law[OF refl, of q0 bs] by auto
  from u[OF rb(2) unread_left[OF rb(2)]] obtain rb' where rb': "u rb = Some (PACK_SUCCESS, v, rb')" "unread rb' []" by blast
  have "pb_unused rb' = 0" using rb'(2) by (auto simp: unread_def pb_unused_def)
  then show ?thesis using pb(1) pb'(1) b rb(1) rb'(1) by (intro exI[of _ pb] exI[of _ pb']) auto
qed

section \<open>Free elements\<close>

text \<open>An element outside of a list has its descriptor with it.\<close>

lemma reads_free_elem:
  assumes m: "has_memory env" and f: "flags_ok flags" and x: "xdr_ok xenc xdec"
    and d: "descr_ok d" and e: "elem_ok e FREE_ELEM d"
    and out: "case dp of Some (g # _) \<Rightarrow> d_nm g \<noteq> JB_job_number_nm | _ \<Rightarrow> True"
    and fuel: "length (elem_bytes xenc flags e) \<le> fuel"
  shows "reads (unpack_elem env ns (cull_unpack_switch env xdec ns flags fuel) flags dp) (elem_bytes xenc flags e)
    (Some (elem_norm ns flags e FREE_ELEM))"
proof -
  obtain c ch where Elem: "e = Elem FREE_ELEM d c ch" and c: "cont_ok d (map value_ok c)"
    using e by (cases e) auto
  let ?sw = "cull_unpack_switch env xdec ns flags fuel"
  have n: "lCountDescr (mark_reduced ns d) = length d" using descr_okD(2)[OF mark_reduced_ok[OF d]] by simp
  have cont: "reads (cull_unpack_cont env ?sw flags (mark_reduced ns d)) (cont_bytes flags d (map (value_bytes xenc flags) c))
      (Some (cont_norm flags d (map (value_norm ns flags) c)))"
  proof (rule reads_cont[OF m f d])
    fix i assume i: "i < length d" "selected flags (d_mt (d ! i))"
    have "length (value_bytes xenc flags (c ! i)) < fuel"
      using inner_less_elem[of e d i flags xenc] elem_okD[OF e] i fuel by (simp add: Elem)
    then show "reads (?sw (d_type (d ! i))) (map (value_bytes xenc flags) c ! i) (map (value_norm ns flags) c ! i)"
      using reads_values(2)[OF m f x e i] cont_okD[OF c] i by (simp add: Elem)
  qed (use cont_okD[OF c] in simp_all)
  have desc: "reads (unpack_elem_descr env ns FREE_ELEM dp) (descr_bytes d) (Some (mark_reduced ns d))"
    unfolding unpack_elem_descr_def if_P[OF refl]
    by (rule reads_last[OF reads_descr[OF m d]]) (use out in \<open>auto simp: reads_ret split: option.split list.split\<close>)
  have nb: "\<not> (FREE_ELEM = BOUND_ELEM \<or> FREE_ELEM = OBJECT_ELEM)" by (simp add: elem_status_defs)
  have "reads (unpack_elem env ns ?sw flags dp)
      (be32 FREE_ELEM @ descr_bytes d @ field_bytes (fresh_field (length d)) @ cont_bytes flags d (map (value_bytes xenc flags) c))
      (Some (Elem FREE_ELEM (mark_reduced ns d) (cont_norm flags d (map (value_norm ns flags) c)) (fresh_field (length d))))"
    unfolding unpack_elem_def Let_def if_not_P[OF nb]
    by (rule reads_need[OF m], rule reads_then[OF reads_int], unfold if_not_P[OF nb], rule reads_then[OF desc],
        unfold option.sel n, rule reads_then[OF reads_bitfield[OF m descr_okD(1)[OF d]]],
        rule reads_last[OF cont]) (simp add: reads_ret)
  then show ?thesis by (simp add: Elem)
qed

section \<open>Where unpacking goes wrong\<close>

lemma reads_list_of_free_elem:
  assumes m: "has_memory env" and f: "flags_ok flags" and x: "xdr_ok xenc xdec"
    and d: "descr_ok d" and n: "str_ok n" and d1: "descr_ok d1" and e: "elem_ok e FREE_ELEM d1"
    and out: "d = [] \<or> d_nm (hd d) \<noteq> JB_job_number_nm" and fuel: "length (elem_bytes xenc flags e) \<le> fuel"
  shows "reads (unpack_list env ns (cull_unpack_switch env xdec ns flags fuel) flags)
    (be32 1 @ be32 1 @ str_bytes n @ be32 (of_bool ch) @ descr_bytes d @ elem_bytes xenc flags e)
    (Some (CList (str_norm n) True (mark_reduced ns d)
      [Elem BOUND_ELEM (mark_reduced ns d) (el_cont (elem_norm ns flags e FREE_ELEM)) (fresh_field (length d1))]))"
proof -
  let ?u = "unpack_elem env ns (cull_unpack_switch env xdec ns flags fuel) flags"
  let ?lp = "CList (str_norm n) ch (mark_reduced ns d) [] :: 'a lList"
  have o: "case Some (mark_reduced ns d) of Some (g # _) \<Rightarrow> d_nm g \<noteq> JB_job_number_nm | _ \<Rightarrow> True"
    using out by (cases d) (auto simp: mark_reduced_def)
  have elem: "reads (?u (Some (mark_reduced ns d))) (elem_bytes xenc flags e) (Some (elem_norm ns flags e FREE_ELEM))"
    by (rule reads_free_elem[OF m f x d1 e o fuel])
  have st: "el_status (elem_norm ns flags e FREE_ELEM) = FREE_ELEM"
    "el_changed (elem_norm ns flags e FREE_ELEM) = fresh_field (length d1)"
    using e by (cases e; simp)+
  have app: "lAppendElem ?lp (elem_norm ns flags e FREE_ELEM) = Some (CList (str_norm n) True (mark_reduced ns d)
      [Elem BOUND_ELEM (mark_reduced ns d) (el_cont (elem_norm ns flags e FREE_ELEM)) (fresh_field (length d1))])"
    using st by (simp add: lAppendElem_def elem_status_defs)
  have elems: "reads (unpack_elems (?u (Some (mark_reduced ns d))) (unat (1 :: 32 word)) ?lp) (elem_bytes xenc flags e)
      (Some (CList (str_norm n) True (mark_reduced ns d)
        [Elem BOUND_ELEM (mark_reduced ns d) (el_cont (elem_norm ns flags e FREE_ELEM)) (fresh_field (length d1))]))"
    unfolding unat_1 One_nat_def unpack_elems.simps
    by (rule reads_last[OF elem]) (simp add: app reads_ret)
  show ?thesis unfolding unpack_list_def
    by (rule reads_then[OF reads_int], unfold if_not_P[OF one_neq_zero], rule reads_need[OF m],
        rule reads_then[OF reads_int], rule reads_then[OF reads_str[OF m n]], rule reads_then[OF reads_int],
        rule reads_then[OF reads_descr[OF m d]]) (use elems in simp)
qed

lemma int_too_short:
  assumes "unread pb bs" "length bs < 4"
  shows "unpackint pb = Some (PACK_FORMAT, 0, pb)"
proof -
  have "mem_size pb - bytes_used pb = length bs" using assms(1) by (auto simp: unread_def)
  then show ?thesis using assms by (auto simp: unpackint_def unread_def)
qed

lemma skipped_format_error:
  assumes m: "has_memory env" and u: "unread pb [a, b, 0]" and ab: "a \<noteq> 0" "b \<noteq> 0"
    and t: "d_type f = lUlongT" "d_type g = lStringT"
  shows "\<exists>pb'. cull_unpack_cont env (cull_unpack_switch env xdec ns 0 (Suc fuel)) 0 [f, g] pb =
    Some (PACK_SUCCESS, Some [V_Ulong 0, V_String (Some [a, b])], pb')"
proof -
  have i: "unpackint pb = Some (PACK_FORMAT, 0, pb)" using int_too_short[OF u] by simp
  have s: "str_bytes (Some [a, b]) = [a, b, 0]" "str_ok (Some [a, b])" "str_norm (Some [a, b]) = Some [a, b]"
    using ab by (auto simp: str_bytes_def str_ok_def str_norm_def)
  then have "unread pb (str_bytes (Some [a, b]) @ [])" using u by simp
  from readsD[OF reads_str[OF m s(2)] this] obtain p where
    p: "unpackstr env pb = Some (PACK_SUCCESS, Some (Some [a, b]), p)" using s(3) by auto
  show ?thesis using m t
    by (simp add: cull_unpack_cont_def need_def has_memory_def lCountDescr_def selected_def unpack_value_def
        unpack_as_def i p Let_def)
qed

lemma string_behind_end:
  assumes "has_memory env" "unread pb []" "d_type f = lStringT \<or> d_type f = lHostT"
  shows "cull_unpack_cont env (cull_unpack_switch env xdec ns 0 (Suc fuel)) 0 [f] pb = None"
  using assms read_behind[of pb env]
  by (auto simp: cull_unpack_cont_def need_def has_memory_def lCountDescr_def selected_def unpack_value_def
      unpack_as_def Let_def)

section \<open>Properties\<close>

text \<open>
  C9. A list comes back. A list of elements with sub-lists and sub-objects to any depth, packed whole or
  with the fields that flags select, is unpacked from the bytes of the buffer to the last one. What
  comes back has the elements in order with their selected values; other fields are zero, empty
  strings and references null, the record of changed fields is empty, and a list with elements counts
  as changed.
\<close>

theorem packed_list_comes_back:
  fixes l :: "'d::zero lList"
  assumes "has_memory env" "xdr_ok xenc xdec" "flags_ok flags" "list_ok l" "n \<le> pack_limit"
    and "8 + length (list_bytes xenc flags l) < pack_limit"
  shows "\<exists>pb pb' b rb rb'. init_packbuffer env (Some p0) n False = Some (PACK_SUCCESS, Some pb) \<and>
    cull_pack_list_partial env xenc (Some l) None flags pb = Some (PACK_SUCCESS, pb') \<and> head_ptr pb' = Some b \<and>
    init_packbuffer_from_buffer (Some q0) (Some (take (bytes_used pb') b)) (bytes_used pb') =
      Some (PACK_SUCCESS, Some rb) \<and>
    cull_unpack_list_partial env xdec ns flags rb = Some (PACK_SUCCESS, Some (list_norm ns flags l), rb') \<and>
    pb_unused rb' = 0"
proof (rule whole_buffer[OF assms(1,5) _ assms(6)])
  show "packs (cull_pack_list_partial env xenc (Some l) None flags) (list_bytes xenc flags l)"
    using packs_values(3)[OF assms(1,2,4)] by (simp add: cull_pack_list_partial_def)
next
  fix rb assume u: "unread rb (list_bytes xenc flags l)" and left: "bytes_left rb = length (list_bytes xenc flags l)"
  have "length (list_bytes xenc flags l) \<le> Suc (bytes_left rb)" using left by simp
  from reads_values(3)[OF assms(1,3,2,4) this] u
  show "\<exists>rb'. cull_unpack_list_partial env xdec ns flags rb = Some (PACK_SUCCESS, Some (list_norm ns flags l), rb') \<and>
      unread rb' []"
    unfolding cull_unpack_list_partial_def reads_def by (metis append.right_neutral)
qed

text \<open>An example: a list with one element, which has a number and a list with a string.\<close>

abbreviation (input) fld :: "32 word \<Rightarrow> 32 word \<Rightarrow> lDescr" where
  "fld nm mt \<equiv> \<lparr>d_nm = nm, d_mt = mt\<rparr>"

abbreviation (input) example_list :: "64 word lList" where
  "example_list \<equiv> CList (Some [65]) False [fld 1 3, fld 2 9]
     [Elem BOUND_ELEM [fld 1 3, fld 2 9]
       [V_Ulong 7, V_List (Some (CList None False [fld 5 8] [Elem BOUND_ELEM [fld 5 8] [V_String (Some [66])] (fresh_field 1)]))]
       (fresh_field 2)]"

lemma example_types: "mt_get_type 3 = lUlongT" "mt_get_type 8 = lStringT" "mt_get_type 9 = lListT"
  by code_simp+

lemma example_list_ok: "list_ok example_list"
  by (simp add: descr_ok_def cont_ok_def example_types str_ok_def MAX_DESCR_SIZE_def NoName_def)

lemma size_bytes_small: "sge_bitfield_get_size_bytes 1 = 1" "sge_bitfield_get_size_bytes 2 = 1"
  by code_simp+

lemma field_bytes_fresh: "length (field_bytes (fresh_field 2)) = 5" "length (field_bytes (fresh_field 1)) = 5"
  "length (field_bytes (fresh_field (Suc 0))) = 5" "length (field_bytes (fresh_field (Suc (Suc 0)))) = 5"
  using size_bytes_small
  by (simp_all add: field_bytes_def fresh_field_def sge_bitfield_init_def Let_def fixed_bits_def numeral_2_eq_2)

lemma example_length: "length (list_bytes x 0 example_list) = 83"
  by (simp add: field_bytes_fresh cont_bytes_def selected_def descr_bytes_def str_bytes_def elem_status_defs)

theorem packed_list_comes_back_witness:
  "\<exists>pb pb' b rb rb'. init_packbuffer plenty (Some (empty_buffer 0)) 0 False = Some (PACK_SUCCESS, Some pb) \<and>
    cull_pack_list_partial plenty xdr64_enc (Some example_list) None 0 pb = Some (PACK_SUCCESS, pb') \<and>
    head_ptr pb' = Some b \<and>
    init_packbuffer_from_buffer (Some (empty_buffer 0)) (Some (take (bytes_used pb') b)) (bytes_used pb') =
      Some (PACK_SUCCESS, Some rb) \<and>
    cull_unpack_list_partial plenty xdr64_dec None 0 rb =
      Some (PACK_SUCCESS, Some (list_norm None 0 example_list), rb') \<and>
    pb_unused rb' = 0"
  by (rule packed_list_comes_back[OF _ xdr64_ok _ example_list_ok])
    (simp_all only: example_length, simp_all add: has_memory_def flags_ok_def pack_limit_def)

text \<open>
  Where unpacking trusts too much. An element in a list that is marked as free is taken over with the
  values of a descriptor of its own, whatever the fields of the list are. A number that is cut short is
  set to zero, and the fields behind it are read from its bytes, though the comment in the code says that
  only errors at the end are forgiven. A string expected behind the end of a buffer, as when an old
  object is read with the longer descriptor of a new version, is read from behind the memory.
\<close>

theorem unpacking_trusts_its_input:
  fixes e :: "'d::zero lListElem"
  assumes m: "has_memory env" and x: "xdr_ok xenc xdec"
    and list: "descr_ok d" "d_nm (hd d) \<noteq> JB_job_number_nm" "descr_ok d1" "elem_ok e FREE_ELEM d1"
      "unread pb (be32 1 @ be32 1 @ [0] @ be32 0 @ descr_bytes d @ elem_bytes xenc 0 e)"
    and cut: "unread pb1 [a, b, 0]" "a \<noteq> 0" "b \<noteq> 0" "d_type f = lUlongT" "d_type g = lStringT"
    and over: "unread pb2 []"
  shows "(\<exists>pb' e'. cull_unpack_list env xdec ns pb =
      Some (PACK_SUCCESS, Some (CList None True (mark_reduced ns d) [e']), pb') \<and>
      length (el_descr e') = length d \<and> length (el_cont e') = length d1) \<and>
    (\<exists>pb'. cull_unpack_cont env (cull_unpack_switch env xdec ns 0 1) 0 [f, g] pb1 =
      Some (PACK_SUCCESS, Some [V_Ulong 0, V_String (Some [a, b])], pb')) \<and>
    cull_unpack_cont env (cull_unpack_switch env xdec ns 0 1) 0 [g] pb2 = None"
proof (intro conjI)
  have s: "str_bytes None = [0]" "str_ok None" "str_norm None = None"
    by (simp_all add: str_bytes_def str_ok_def str_norm_def)
  have f0: "flags_ok 0" by (simp add: flags_ok_def)
  have fuel: "length (elem_bytes xenc 0 e) \<le> Suc (bytes_left pb)" using unread_left[OF list(5)] by simp
  have "d = [] \<or> d_nm (hd d) \<noteq> JB_job_number_nm" using list(2) by simp
  from reads_list_of_free_elem[OF m f0 x list(1) s(2) list(3,4) this fuel, of ns False]
  have "\<exists>pb'. cull_unpack_list env xdec ns pb = Some (PACK_SUCCESS, Some (CList None True (mark_reduced ns d)
      [Elem BOUND_ELEM (mark_reduced ns d) (el_cont (elem_norm ns 0 e FREE_ELEM)) (fresh_field (length d1))]), pb')"
    using list(5) unfolding reads_def cull_unpack_list_def cull_unpack_list_partial_def s
    by (metis append.assoc append.right_neutral of_bool_eq(1))
  moreover have "length (el_cont (elem_norm ns 0 e FREE_ELEM)) = length d1"
    using list(4) cont_okD by (cases e) (fastforce simp: cont_norm_def)
  ultimately show "\<exists>pb' e'. cull_unpack_list env xdec ns pb =
      Some (PACK_SUCCESS, Some (CList None True (mark_reduced ns d) [e']), pb') \<and>
      length (el_descr e') = length d \<and> length (el_cont e') = length d1"
    by (metis lListElem.sel(2,3) mark_reduced_simps(1))
  show "\<exists>pb'. cull_unpack_cont env (cull_unpack_switch env xdec ns 0 1) 0 [f, g] pb1 =
      Some (PACK_SUCCESS, Some [V_Ulong 0, V_String (Some [a, b])], pb')"
    using skipped_format_error[OF m cut, of xdec ns 0] by simp
  show "cull_unpack_cont env (cull_unpack_switch env xdec ns 0 1) 0 [g] pb2 = None"
    using string_behind_end[OF m over, of g xdec ns 0] cut(5) by simp
qed

abbreviation (input) at_start :: "byte list \<Rightarrow> sge_pack_buffer" where
  "at_start bs \<equiv> \<lparr>head_ptr = Some bs, cur_ptr = 0, mem_size = length bs, bytes_used = 0,
     just_count = False, pb_version = 0\<rparr>"

abbreviation (input) free_elem :: "64 word lListElem" where
  "free_elem \<equiv> Elem FREE_ELEM [fld 1 3] [V_Ulong 7] (fresh_field 1)"

theorem unpacking_trusts_its_input_witness:
  "(\<exists>pb' e'. cull_unpack_list plenty xdr64_dec None
      (at_start (be32 1 @ be32 1 @ [0] @ be32 0 @ descr_bytes [fld 1 3, fld 2 9] @ elem_bytes xdr64_enc 0 free_elem)) =
      Some (PACK_SUCCESS, Some (CList None True (mark_reduced None [fld 1 3, fld 2 9]) [e']), pb') \<and>
      length (el_descr e') = length [fld 1 3, fld 2 9] \<and> length (el_cont e') = 1) \<and>
    (\<exists>pb'. cull_unpack_cont plenty (cull_unpack_switch plenty xdr64_dec None 0 1) 0 [fld 1 3, fld 2 8] (at_start [97, 98, 0]) =
      Some (PACK_SUCCESS, Some [V_Ulong 0, V_String (Some [97, 98])], pb')) \<and>
    cull_unpack_cont plenty (cull_unpack_switch plenty xdr64_dec None 0 1) 0 [fld 2 8] (at_start []) = None"
  using unpacking_trusts_its_input[OF _ xdr64_ok, of plenty "[fld 1 3, fld 2 9]" "[fld 1 3]" free_elem
      "at_start (be32 1 @ be32 1 @ [0] @ be32 0 @ descr_bytes [fld 1 3, fld 2 9] @ elem_bytes xdr64_enc 0 free_elem)"
      "at_start [97, 98, 0]" 97 98 "fld 1 3" "fld 2 8" "at_start []" None]
  by (simp add: has_memory_def descr_ok_def cont_ok_def example_types MAX_DESCR_SIZE_def NoName_def
      JB_job_number_nm_def unread_def del: elem_bytes.simps)

end
