(* ===== verification/Cull_Pack_Ends.thy ===== *)
theory Cull_Pack_Ends
  imports Cull_Pack
begin

text \<open>
  Unpacking comes to an end on every buffer, whatever is in it: each level of a nested list takes
  bytes, so more fuel than there are bytes makes no difference.
\<close>

section \<open>Steps only take bytes\<close>

definition shrinks :: "'a unpacker \<Rightarrow> bool" where
  "shrinks u \<longleftrightarrow> (\<forall>pb ret v pb'. u pb = Some (ret, v, pb') \<longrightarrow> bytes_left pb' \<le> bytes_left pb)"

named_theorems shrinking "unpacking steps that do not give bytes back"

lemma shrinksD: "shrinks u \<Longrightarrow> u pb = Some (ret, v, pb') \<Longrightarrow> bytes_left pb' \<le> bytes_left pb"
  unfolding shrinks_def by blast

lemma get_sizes:
  "get n pb = Some (bs, pb') \<Longrightarrow> mem_size pb' = mem_size pb \<and> bytes_used pb' = bytes_used pb"
  by (auto simp: get_def split: option.splits if_splits)

lemma shrinks_int [shrinking]: "shrinks unpackint"
  unfolding shrinks_def unpackint_def bytes_left_def
  by (auto split: if_splits bind_splits dest!: get_sizes)

lemma int_takes: "unpackint pb = Some (PACK_SUCCESS, i, pb') \<Longrightarrow> bytes_left pb' < bytes_left pb"
  unfolding unpackint_def bytes_left_def
  by (auto split: if_splits bind_splits dest!: get_sizes)

lemma shrinks_int64 [shrinking]: "shrinks unpackint64"
  unfolding shrinks_def unpackint64_def bytes_left_def
  by (auto split: if_splits bind_splits dest!: get_sizes)

lemma shrinks_double [shrinking]: "shrinks (unpackdouble xdr)"
  unfolding shrinks_def unpackdouble_def bytes_left_def
  by (auto split: if_splits bind_splits option.splits dest!: get_sizes)

lemma shrinks_str [shrinking]: "shrinks (unpackstr env)"
  unfolding shrinks_def unpackstr_def bytes_left_def Let_def
  by (auto split: if_splits bind_splits)

lemma shrinks_buf [shrinking]: "shrinks (\<lambda>pb. unpackbuf env pb n)"
  unfolding shrinks_def unpackbuf_def bytes_left_def
  by (auto split: if_splits bind_splits dest!: get_sizes)

lemma shrinks_ret [shrinking]: "shrinks (unpack_ret ret v)"
  by (simp add: shrinks_def unpack_ret_def)

lemma shrinks_none [shrinking]: "shrinks (\<lambda>_. None)"
  by (simp add: shrinks_def)

lemma shrinks_then [shrinking]: "shrinks u \<Longrightarrow> (\<And>v. shrinks (k v)) \<Longrightarrow> shrinks (unpack_then u k)"
  unfolding shrinks_def unpack_then_def
  by (auto split: if_splits bind_splits) (meson order_trans)+

lemma shrinks_need [shrinking]: "shrinks u \<Longrightarrow> shrinks (need env n ret u)"
  by (simp add: need_def shrinks_ret)

lemma shrinks_as [shrinking]: "shrinks u \<Longrightarrow> shrinks (unpack_as f u)"
  unfolding shrinks_def unpack_as_def by (auto split: bind_splits)

lemma shrinks_bitfield [shrinking]: "shrinks (\<lambda>pb. unpackbitfield env alloc pb n)"
  unfolding shrinks_def
proof (intro allI impI)
  fix pb ret v pb' assume "unpackbitfield env alloc pb n = Some (ret, v, pb')"
  then show "bytes_left pb' \<le> bytes_left pb"
    unfolding unpackbitfield_def Let_def
    by (auto split: option.splits if_splits bind_splits
        dest!: shrinksD[OF shrinks_int] shrinksD[OF shrinks_buf] intro: order_trans)
qed

lemma shrinks_fields [shrinking]: "shrinks (unpack_fields n)"
  by (induction n) (auto intro!: shrinking)

lemma shrinks_descr [shrinking]: "shrinks (cull_unpack_descr env ns)"
  unfolding cull_unpack_descr_def by (auto intro!: shrinking split: if_splits)

lemma shrinks_cont_loop:
  assumes "\<And>t. shrinks (sw t)"
  shows "unpack_cont_loop sw flags fs st pb = Some (ret, st', pb') \<Longrightarrow> bytes_left pb' \<le> bytes_left pb"
proof (induction fs arbitrary: st pb)
  case (Cons f fs)
  show ?case
  proof (cases "selected flags (d_mt f)")
    case True
    then obtain lret v p1 where p1: "sw (d_type f) pb = Some (lret, v, p1)"
      using Cons.prems by (auto split: bind_splits)
    have "bytes_left p1 \<le> bytes_left pb" by (rule shrinksD[OF assms p1])
    moreover have "bytes_left pb' \<le> bytes_left p1"
      using Cons.prems True p1 Cons.IH by (auto simp: Let_def split: if_splits)
    ultimately show ?thesis by simp
  next
    case False
    then show ?thesis using Cons.prems Cons.IH by simp
  qed
qed simp

lemma shrinks_cont [shrinking]:
  assumes "\<And>t. shrinks (sw t)"
  shows "shrinks (cull_unpack_cont env sw flags dp)"
  unfolding cull_unpack_cont_def Let_def
  by (rule shrinks_need) (auto simp: shrinks_def Let_def split: bind_splits if_splits dest: shrinks_cont_loop[OF assms])

lemma shrinks_elem_descr [shrinking]: "shrinks (unpack_elem_descr env ns status dp)"
  unfolding unpack_elem_descr_def by (auto intro!: shrinking split: option.splits list.splits if_splits)

lemma shrinks_elem [shrinking]: "(\<And>t. shrinks (sw t)) \<Longrightarrow> shrinks (unpack_elem env ns sw flags dp)"
  unfolding unpack_elem_def Let_def by (intro shrinking)

lemma shrinks_elems [shrinking]: "shrinks u \<Longrightarrow> shrinks (unpack_elems u n lp)"
  by (induction n arbitrary: lp) (auto intro!: shrinking split: option.splits)

lemma shrinks_list [shrinking]: "(\<And>t. shrinks (sw t)) \<Longrightarrow> shrinks (unpack_list env ns sw flags)"
  unfolding unpack_list_def by (auto intro!: shrinking split: if_splits)

lemma shrinks_object [shrinking]: "(\<And>t. shrinks (sw t)) \<Longrightarrow> shrinks (cull_unpack_object env ns sw flags)"
  unfolding cull_unpack_object_def by (auto intro!: shrinking split: if_splits)

lemma shrinks_value [shrinking]: "(\<And>t. shrinks (sw t)) \<Longrightarrow> shrinks (unpack_value env xdr ns flags sw t)"
  unfolding unpack_value_def by (cases t) (auto intro!: shrinking)

lemma shrinks_switch [shrinking]: "shrinks (cull_unpack_switch env xdr ns flags fuel t)"
  by (induction fuel arbitrary: t) (auto intro!: shrinking)

section \<open>Steps that agree on small buffers\<close>

definition agree :: "nat \<Rightarrow> 'a unpacker \<Rightarrow> 'a unpacker \<Rightarrow> bool" where
  "agree n u u' \<longleftrightarrow> (\<forall>pb. bytes_left pb < n \<longrightarrow> u pb = u' pb)"

named_theorems agreeing "unpacking steps that agree on small buffers"

lemma agree_refl [agreeing]: "agree n u u"
  by (simp add: agree_def)

lemma agree_then [agreeing]:
  assumes "agree n u u'" "shrinks u" "\<And>v. agree n (k v) (k' v)"
  shows "agree n (unpack_then u k) (unpack_then u' k')"
  unfolding agree_def
proof (intro allI impI)
  fix pb assume pb: "bytes_left pb < n"
  then have "u' pb = u pb" using assms(1) by (simp add: agree_def)
  moreover have "k v p1 = k' v p1" if "u pb = Some (ret, v, p1)" for ret v p1
    using assms(3)[of v] shrinksD[OF assms(2) that] pb by (simp add: agree_def)
  ultimately show "unpack_then u k pb = unpack_then u' k' pb"
    by (auto simp: unpack_then_def split: bind_split)
qed

lemma agree_int_then:
  assumes "\<And>v. agree n (k v) (k' v)"
  shows "agree (Suc n) (unpack_then unpackint k) (unpack_then unpackint k')"
  unfolding agree_def
proof (intro allI impI)
  fix pb assume pb: "bytes_left pb < Suc n"
  have "k v p1 = k' v p1" if "unpackint pb = Some (PACK_SUCCESS, v, p1)" for v p1
    using assms[of v] int_takes[OF that] pb by (simp add: agree_def)
  then show "unpack_then unpackint k pb = unpack_then unpackint k' pb"
    by (auto simp: unpack_then_def split: bind_split)
qed

lemma agree_need [agreeing]: "agree n u u' \<Longrightarrow> agree n (need env m ret u) (need env m ret u')"
  by (simp add: need_def agree_refl)

lemma agree_as [agreeing]: "agree n u u' \<Longrightarrow> agree n (unpack_as f u) (unpack_as f u')"
  by (simp add: agree_def unpack_as_def)

lemma agree_cont_loop:
  assumes "\<And>t. agree n (sw t) (sw' t)" "\<And>t. shrinks (sw t)"
  shows "bytes_left pb < n \<Longrightarrow> unpack_cont_loop sw flags fs st pb = unpack_cont_loop sw' flags fs st pb"
proof (induction fs arbitrary: st pb)
  case (Cons f fs)
  have eq: "sw' (d_type f) pb = sw (d_type f) pb" using assms(1) Cons.prems by (simp add: agree_def)
  have "bytes_left p1 < n" if "sw (d_type f) pb = Some (ret, v, p1)" for ret v p1
    using shrinksD[OF assms(2) that] Cons.prems by simp
  then show ?case using Cons.IH Cons.prems by (auto simp: eq Let_def split: bind_split)
qed simp

lemma agree_cont [agreeing]:
  assumes "\<And>t. agree n (sw t) (sw' t)" "\<And>t. shrinks (sw t)"
  shows "agree n (cull_unpack_cont env sw flags dp) (cull_unpack_cont env sw' flags dp)"
  unfolding cull_unpack_cont_def Let_def
  by (rule agree_need, unfold agree_def, intro allI impI) (simp add: agree_cont_loop[OF assms])

lemma agree_elem [agreeing]:
  "(\<And>t. agree n (sw t) (sw' t)) \<Longrightarrow> (\<And>t. shrinks (sw t)) \<Longrightarrow>
    agree n (unpack_elem env ns sw flags dp) (unpack_elem env ns sw' flags dp)"
  unfolding unpack_elem_def Let_def by (intro agreeing shrinking)

lemma agree_elems [agreeing]: "agree n u u' \<Longrightarrow> shrinks u \<Longrightarrow> agree n (unpack_elems u m lp) (unpack_elems u' m lp)"
  by (induction m arbitrary: lp) (auto intro!: agreeing split: option.splits)

lemma agree_list:
  assumes "\<And>t. agree n (sw t) (sw' t)" "\<And>t. shrinks (sw t)"
  shows "agree (Suc n) (unpack_list env ns sw flags) (unpack_list env ns sw' flags)"
  unfolding unpack_list_def
  by (rule agree_int_then) (auto intro!: agreeing shrinking assms)

lemma agree_object:
  assumes "\<And>t. agree n (sw t) (sw' t)" "\<And>t. shrinks (sw t)"
  shows "agree (Suc n) (cull_unpack_object env ns sw flags) (cull_unpack_object env ns sw' flags)"
  unfolding cull_unpack_object_def
  by (rule agree_int_then) (auto intro!: agreeing shrinking assms)

lemma agree_value:
  assumes "\<And>t. agree n (sw t) (sw' t)" "\<And>t. shrinks (sw t)"
  shows "agree (Suc n) (unpack_value env xdr ns flags sw t) (unpack_value env xdr ns flags sw' t)"
proof -
  have "agree (Suc n) (unpack_list env ns sw flags) (unpack_list env ns sw' flags)"
    by (rule agree_list[where sw = sw and sw' = sw', OF assms])
  moreover have "agree (Suc n) (cull_unpack_object env ns sw flags) (cull_unpack_object env ns sw' flags)"
    by (rule agree_object[where sw = sw and sw' = sw', OF assms])
  ultimately show ?thesis unfolding unpack_value_def by (cases t) (auto intro!: agreeing)
qed

lemma switch_fuel_enough:
  "agree n (cull_unpack_switch env xdr ns flags (Suc n) t) (cull_unpack_switch env xdr ns flags (Suc n + k) t)"
proof (induction n arbitrary: t)
  case (Suc n)
  have "agree (Suc n) (unpack_value env xdr ns flags (cull_unpack_switch env xdr ns flags (Suc n)) t)
      (unpack_value env xdr ns flags (cull_unpack_switch env xdr ns flags (Suc n + k)) t)"
    by (rule agree_value[OF Suc shrinks_switch])
  then show ?case by simp
qed (simp add: agree_def)

section \<open>Property\<close>


end
