(* ===== verification/Cull_Where.thy ===== *)
theory Cull_Where
  imports Cull_Pack Hostname
begin

text \<open>
  Conditions on elements: \<^verbatim>\<open>source/libs/cull/cull_where.c\<close>, the searches of \<^verbatim>\<open>cull_list.c\<close> and
  \<^verbatim>\<open>cull_db.c\<close> that use them, and their packing in \<^verbatim>\<open>cull_pack.c\<close>.
\<close>

section \<open>Conditions\<close>

datatype cond_op = SUBSCOPE | EQUAL | NOT_EQUAL | LOWER_EQUAL | LOWER | GREATER_EQUAL | GREATER
  | BITMASK | STRCASECMP | PATTERNCMP | HOSTNAMECMP | AND_OP | OR_OP | NEG | no_op

text \<open>The operators have the numbers of the tokens they are parsed from.\<close>

definition cond_op :: "32 word \<Rightarrow> cond_op" where
  "cond_op op =
     (let n = unat op in
      if n = 3 then SUBSCOPE
      else if 19 \<le> n \<and> n \<le> 31
      then [EQUAL, NOT_EQUAL, LOWER_EQUAL, LOWER, GREATER_EQUAL, GREATER, BITMASK, STRCASECMP,
            PATTERNCMP, HOSTNAMECMP, AND_OP, OR_OP, NEG] ! (n - 19)
      else no_op)"

text \<open>
  The members of the union: a comparison with a value, a condition on the elements of a list, and one
  or two conditions under a logical operator.
\<close>

datatype 'd lCondition =
    Cmp "32 word" "32 word" "32 word" "32 word" "'d lMultiType"
  | Cmp_List "32 word" "32 word" "32 word" "32 word" "'d lCondition option"
  | Log "32 word" "'d lCondition option" "'d lCondition option"

definition is_comparison :: "cond_op \<Rightarrow> bool" where
  "is_comparison op \<longleftrightarrow> op \<in> {SUBSCOPE, EQUAL, NOT_EQUAL, LOWER_EQUAL, LOWER, GREATER_EQUAL, GREATER,
     BITMASK, STRCASECMP, PATTERNCMP, HOSTNAMECMP}"

definition lOrWhere :: "'d lCondition option \<Rightarrow> 'd lCondition option \<Rightarrow> 'd lCondition option" where
  "lOrWhere cp0 cp1 = (if cp0 = None \<or> cp1 = None then None else Some (Log 30 cp0 cp1))"

definition lAndWhere :: "'d lCondition option \<Rightarrow> 'd lCondition option \<Rightarrow> 'd lCondition option" where
  "lAndWhere cp0 cp1 = (if cp0 = None \<or> cp1 = None then None else Some (Log 29 cp0 cp1))"

section \<open>Reading a field\<close>

text \<open>
  Reading a field of another type, or a number at a negative position, aborts; behind the element
  there is no result. A string at a negative position is null.
\<close>

definition get_pos :: "'d lListElem \<Rightarrow> 32 word \<Rightarrow> lMultiT \<Rightarrow> 'd lMultiType option" where
  "get_pos ep pos t =
     (let i = nat (sint pos) in
      if sint pos < 0 \<or> length (el_descr ep) \<le> i \<or> length (el_cont ep) \<le> i then None
      else if d_type (el_descr ep ! i) \<noteq> t then None
      else Some (el_cont ep ! i))"

definition lGetPosUlong :: "'d lListElem \<Rightarrow> 32 word \<Rightarrow> 32 word option" where
  "lGetPosUlong ep pos = do { v \<leftarrow> get_pos ep pos lUlongT; case v of V_Ulong u \<Rightarrow> Some u | _ \<Rightarrow> None }"

definition lGetPosString :: "'d lListElem \<Rightarrow> 32 word \<Rightarrow> byte list option option" where
  "lGetPosString ep pos =
     (if sint pos < 0 then Some None
      else do { v \<leftarrow> get_pos ep pos lStringT; case v of V_String s \<Rightarrow> Some s | _ \<Rightarrow> None })"

definition lGetPosHost :: "'d lListElem \<Rightarrow> 32 word \<Rightarrow> byte list option option" where
  "lGetPosHost ep pos =
     (if sint pos < 0 then Some None
      else do { v \<leftarrow> get_pos ep pos lHostT; case v of V_Host s \<Rightarrow> Some s | _ \<Rightarrow> None })"

definition lGetPosList :: "'d lListElem \<Rightarrow> 32 word \<Rightarrow> 'd lList option option" where
  "lGetPosList ep pos = do { v \<leftarrow> get_pos ep pos lListT; case v of V_List l \<Rightarrow> Some l | _ \<Rightarrow> None }"

section \<open>Comparing\<close>

text \<open>
  \<open>strcmp\<close> of the C library, \<open>fnmatch\<close> (0 for a match) and the settings for host names. Of \<open>strcmp\<close>
  only the sign is defined by the C standard.
\<close>

record compare_env =
  libc_strcmp :: "string \<Rightarrow> string \<Rightarrow> int"
  libc_fnmatch :: "string \<Rightarrow> string \<Rightarrow> int"
  host_conf :: bootstrap

definition to_string :: "byte list \<Rightarrow> string" where
  "to_string bs = map (\<lambda>b. char_of (unat b)) bs"

definition ord_cmp :: "'a::linorder \<Rightarrow> 'a \<Rightarrow> int" where
  "ord_cmp a b = (if a = b then 0 else if a < b then - 1 else 1)"

definition ulongcmp :: "32 word \<Rightarrow> 32 word \<Rightarrow> int" where "ulongcmp a b = ord_cmp a b"
definition ulong64cmp :: "64 word \<Rightarrow> 64 word \<Rightarrow> int" where "ulong64cmp a b = ord_cmp a b"
definition intcmp :: "32 word \<Rightarrow> 32 word \<Rightarrow> int" where "intcmp a b = ord_cmp (sint a) (sint b)"
definition longcmp :: "64 word \<Rightarrow> 64 word \<Rightarrow> int" where "longcmp a b = ord_cmp (sint a) (sint b)"
definition charcmp :: "byte \<Rightarrow> byte \<Rightarrow> int" where "charcmp a b = ord_cmp (sint a) (sint b)"
definition boolcmp :: "byte \<Rightarrow> byte \<Rightarrow> int" where "boolcmp a b = ord_cmp (sint a) (sint b)"
definition doublecmp :: "'d::linorder \<Rightarrow> 'd \<Rightarrow> int" where "doublecmp a b = ord_cmp a b"
definition floatcmp :: "'d::linorder \<Rightarrow> 'd \<Rightarrow> int" where "floatcmp a b = ord_cmp a b"
definition refcmp :: "nat \<Rightarrow> nat \<Rightarrow> int" where "refcmp a b = ord_cmp a b"
definition bitmaskcmp :: "32 word \<Rightarrow> 32 word \<Rightarrow> int" where
  "bitmaskcmp bm0 bm1 = (if bm0 AND bm1 = bm1 then 1 else 0)"

text \<open>The comparison by type; null strings end it with the result false (\<open>Inl\<close>).\<close>

definition string_values :: "byte list option \<Rightarrow> byte list option \<Rightarrow> (string \<Rightarrow> string \<Rightarrow> int) \<Rightarrow> int + int" where
  "string_values s1 s2 f =
     (case (s1, s2) of (Some a, Some b) \<Rightarrow> Inr (f (to_string a) (to_string b)) | _ \<Rightarrow> Inl 0)"

definition compare_value ::
  "compare_env \<Rightarrow> 'd::linorder lListElem \<Rightarrow> 32 word \<Rightarrow> lMultiT \<Rightarrow> 'd lMultiType \<Rightarrow> (int + int) option" where
  "compare_value ce ep pos t val =
     (case t of
        lStringT \<Rightarrow> do { s1 \<leftarrow> lGetPosString ep pos;
          case (s1, val) of (None, _) \<Rightarrow> Some (Inl 0)
          | (_, V_String s2) \<Rightarrow> Some (string_values s1 s2 (libc_strcmp ce)) | _ \<Rightarrow> None }
      | lHostT \<Rightarrow> do { s1 \<leftarrow> lGetPosHost ep pos;
          case (s1, val) of (None, _) \<Rightarrow> Some (Inl 0)
          | (_, V_Host s2) \<Rightarrow> Some (string_values s1 s2 (libc_strcmp ce)) | _ \<Rightarrow> None }
      | lListT \<Rightarrow> None
      | _ \<Rightarrow>
          if t \<in> {lIntT, lUlongT, lUlong64T, lFloatT, lDoubleT, lLongT, lCharT, lBoolT, lRefT}
          then do { v \<leftarrow> get_pos ep pos t;
            case (v, val) of
              (V_Int a, V_Int b) \<Rightarrow> Some (Inr (intcmp a b))
            | (V_Ulong a, V_Ulong b) \<Rightarrow> Some (Inr (ulongcmp a b))
            | (V_Ulong64 a, V_Ulong64 b) \<Rightarrow> Some (Inr (ulong64cmp a b))
            | (V_Float a, V_Float b) \<Rightarrow> Some (Inr (floatcmp a b))
            | (V_Double a, V_Double b) \<Rightarrow> Some (Inr (doublecmp a b))
            | (V_Long a, V_Long b) \<Rightarrow> Some (Inr (longcmp a b))
            | (V_Char a, V_Char b) \<Rightarrow> Some (Inr (charcmp a b))
            | (V_Bool a, V_Bool b) \<Rightarrow> Some (Inr (boolcmp a b))
            | (V_Ref a, V_Ref b) \<Rightarrow> Some (Inr (refcmp a b))
            | _ \<Rightarrow> None }
          else Some (Inl 0))"

text \<open>What the operator makes of the comparison.\<close>

definition apply_op :: "cond_op \<Rightarrow> int \<Rightarrow> int" where
  "apply_op op result =
     (case op of
        EQUAL \<Rightarrow> of_bool (result = 0)
      | NOT_EQUAL \<Rightarrow> of_bool (result \<noteq> 0)
      | LOWER_EQUAL \<Rightarrow> of_bool (result = - 1 \<or> result = 0)
      | LOWER \<Rightarrow> of_bool (result = - 1)
      | GREATER_EQUAL \<Rightarrow> of_bool (result = 1 \<or> result = 0)
      | GREATER \<Rightarrow> of_bool (result = 1)
      | _ \<Rightarrow> 0)"

definition string_field :: "'d lListElem \<Rightarrow> 32 word \<Rightarrow> lMultiT \<Rightarrow> byte list option option" where
  "string_field ep pos t = (if t = lStringT then lGetPosString ep pos else lGetPosHost ep pos)"

definition string_member :: "lMultiT \<Rightarrow> 'd lMultiType \<Rightarrow> byte list option option" where
  "string_member t val =
     (case val of V_String s \<Rightarrow> Some s | V_Host s \<Rightarrow> Some s | _ \<Rightarrow> None)"

definition compare_comparison ::
  "compare_env \<Rightarrow> 'd::linorder lListElem \<Rightarrow> cond_op \<Rightarrow> 32 word \<Rightarrow> lMultiT \<Rightarrow> 'd lMultiType \<Rightarrow> int option" where
  "compare_comparison ce ep op pos t val =
     (case op of
        STRCASECMP \<Rightarrow>
          if t \<noteq> lStringT \<and> t \<noteq> lHostT then Some 0
          else do { s1 \<leftarrow> string_field ep pos t;
                    case s1 of None \<Rightarrow> Some 0 | Some a \<Rightarrow>
                      do { s2 \<leftarrow> string_member t val;
                           case s2 of None \<Rightarrow> Some 0
                           | Some b \<Rightarrow> Some (of_bool (strcasecmp (to_string a) (to_string b) = 0)) } }
      | HOSTNAMECMP \<Rightarrow>
          if t \<noteq> lStringT \<and> t \<noteq> lHostT then Some 0
          else do { s1 \<leftarrow> string_field ep pos t;
                    case s1 of None \<Rightarrow> Some 0 | Some a \<Rightarrow>
                      do { s2 \<leftarrow> string_member t val;
                           case s2 of None \<Rightarrow> Some 0
                           | Some b \<Rightarrow> Some (of_bool (sge_hostcmp (host_conf ce)
                               (Some (to_string a)) (Some (to_string b)) = 0)) } }
      | PATTERNCMP \<Rightarrow>
          if t \<noteq> lStringT \<and> t \<noteq> lHostT then Some 0
          else do { s1 \<leftarrow> string_field ep pos t;
                    s2 \<leftarrow> string_member t val;
                    case s2 of None \<Rightarrow> Some 0
                    | Some b \<Rightarrow> Some (of_bool (libc_fnmatch ce (to_string b)
                        (case s1 of None \<Rightarrow> [] | Some a \<Rightarrow> to_string a) = 0)) }
      | BITMASK \<Rightarrow>
          if t \<noteq> lUlongT then Some 0
          else do { u \<leftarrow> lGetPosUlong ep pos; case val of V_Ulong b \<Rightarrow> Some (bitmaskcmp u b) | _ \<Rightarrow> None }
      | _ \<Rightarrow> do { r \<leftarrow> compare_value ce ep pos t val;
                 case r of Inl x \<Rightarrow> Some x | Inr x \<Rightarrow> Some (apply_op op x) })"

text \<open>The first of the elements for which the condition returns true.\<close>

fun find_loop :: "('e \<Rightarrow> int option) \<Rightarrow> 'e list \<Rightarrow> 'e option option" where
  "find_loop cond [] = Some None"
| "find_loop cond (ep # eps) =
     do { r \<leftarrow> cond ep; if r = 0 then find_loop cond eps else Some (Some ep) }"

definition null_cond :: "('e \<Rightarrow> int option) option \<Rightarrow> 'e \<Rightarrow> int option" where
  "null_cond cond ep = (case cond of None \<Rightarrow> Some 1 | Some f \<Rightarrow> f ep)"

primrec compare_cond :: "compare_env \<Rightarrow> 'd::linorder lCondition \<Rightarrow> 'd lListElem \<Rightarrow> int option" where
  "compare_cond ce (Cmp op pos mt nm val) = (\<lambda>ep.
     if is_comparison (cond_op op) then compare_comparison ce ep (cond_op op) pos (mt_get_type mt) val else None)"
| "compare_cond ce (Cmp_List op pos mt nm cp) = (\<lambda>ep.
     if \<not> is_comparison (cond_op op) then None
     else if cond_op op \<in> {BITMASK, STRCASECMP, PATTERNCMP, HOSTNAMECMP} \<and> mt_get_type mt = lListT then Some 0
     else if mt_get_type mt \<noteq> lListT then None
     else do { l \<leftarrow> lGetPosList ep pos;
               case l of None \<Rightarrow> Some 0
               | Some l \<Rightarrow> do { r \<leftarrow> find_loop (null_cond (map_option (compare_cond ce) cp)) (l_elems l);
                                Some (of_bool (r \<noteq> None)) } })"
| "compare_cond ce (Log op first second) = (\<lambda>ep.
     let f = null_cond (map_option (compare_cond ce) first); g = null_cond (map_option (compare_cond ce) second) in
     if cond_op op = AND_OP then do { r \<leftarrow> f ep; if r = 0 then Some 0 else g ep }
     else if cond_op op = OR_OP then do { r \<leftarrow> f ep; if r \<noteq> 0 then Some 1 else g ep }
     else if cond_op op = NEG then do { r \<leftarrow> f ep; Some (of_bool (r = 0)) }
     else None)"

definition lCompare :: "compare_env \<Rightarrow> 'd::linorder lListElem option \<Rightarrow> 'd lCondition option \<Rightarrow> int option" where
  "lCompare ce ep cp =
     (case ep of None \<Rightarrow> Some 0 | Some e \<Rightarrow> null_cond (map_option (compare_cond ce) cp) e)"

section \<open>Searching and splitting\<close>

definition lFindFirst :: "compare_env \<Rightarrow> 'd::linorder lList option \<Rightarrow> 'd lCondition option \<Rightarrow> 'd lListElem option option" where
  "lFindFirst ce slp cp =
     (case slp of None \<Rightarrow> Some None | Some l \<Rightarrow> find_loop (\<lambda>e. lCompare ce (Some e) cp) (l_elems l))"

definition lFindLast :: "compare_env \<Rightarrow> 'd::linorder lList option \<Rightarrow> 'd lCondition option \<Rightarrow> 'd lListElem option option" where
  "lFindLast ce slp cp =
     (case slp of None \<Rightarrow> Some None | Some l \<Rightarrow> find_loop (\<lambda>e. lCompare ce (Some e) cp) (rev (l_elems l)))"

text \<open>The elements behind, and before, the one at a position, from there on.\<close>

definition lFindNext :: "compare_env \<Rightarrow> 'd::linorder lList \<Rightarrow> nat \<Rightarrow> 'd lCondition option \<Rightarrow> 'd lListElem option option" where
  "lFindNext ce l i cp = find_loop (\<lambda>e. lCompare ce (Some e) cp) (drop (Suc i) (l_elems l))"

definition lFindPrev :: "compare_env \<Rightarrow> 'd::linorder lList \<Rightarrow> nat \<Rightarrow> 'd lCondition option \<Rightarrow> 'd lListElem option option" where
  "lFindPrev ce l i cp = find_loop (\<lambda>e. lCompare ce (Some e) cp) (rev (take i (l_elems l)))"

text \<open>
  The loop of \<open>lSplit\<close> at position \<open>i\<close> of the list: elements that do not suffice are taken out, and
  go to the second list, which is created on demand, if the caller wants one. The result has the
  return value, both lists, and whether the second one is new.
\<close>

type_synonym 'd split_state = "'d lList \<times> 'd lList option \<times> bool"

fun split_loop ::
  "compare_env \<Rightarrow> mem_env \<Rightarrow> bool \<Rightarrow> byte list option \<Rightarrow> 'd::linorder lCondition option \<Rightarrow> nat \<Rightarrow> nat \<Rightarrow>
    'd split_state \<Rightarrow> (int \<times> 'd split_state) option" where
  "split_loop ce env want ulp_name cp 0 i st = Some (0, st)"
| "split_loop ce env want ulp_name cp (Suc n) i (slp, ulp, new) =
     do { r \<leftarrow> lCompare ce (Some (l_elems slp ! i)) cp;
          if r \<noteq> 0 then split_loop ce env want ulp_name cp n (Suc i) (slp, ulp, new)
          else if \<not> want then
            split_loop ce env want ulp_name cp n i (fst (lDechainElem slp i), ulp, new)
          else
            (case (case ulp of
                     Some u \<Rightarrow> Some u
                   | None \<Rightarrow> lCreateListHash env (Some (case ulp_name of Some s \<Rightarrow> s | None \<Rightarrow> [117, 108, 112])) (l_descr slp)) of
               None \<Rightarrow> Some (- 1, slp, None, new)
             | Some u \<Rightarrow>
                 (let (slp1, ep) = lDechainElem slp i in
                  do { u1 \<leftarrow> lAppendElem u ep;
                       split_loop ce env want ulp_name cp n i (slp1, Some u1, new \<or> ulp = None) })) }"

definition null_if_empty :: "'d lList \<Rightarrow> 'd lList option" where
  "null_if_empty l = (if l_elems l = [] then None else Some l)"

definition lSplit ::
  "compare_env \<Rightarrow> mem_env \<Rightarrow> 'd::linorder lList option \<Rightarrow> 'd lList option option \<Rightarrow> byte list option \<Rightarrow>
    'd lCondition option \<Rightarrow> (int \<times> 'd lList option \<times> 'd lList option) option" where
  "lSplit ce env slp ulp ulp_name cp =
     (case slp of
        None \<Rightarrow> Some (0, None, case ulp of None \<Rightarrow> None | Some u \<Rightarrow> u)
      | Some l \<Rightarrow>
          do { (ret, l1, u, new) \<leftarrow> split_loop ce env (ulp \<noteq> None) ulp_name cp (length (l_elems l)) 0
                 (l, case ulp of None \<Rightarrow> None | Some u \<Rightarrow> u, False);
               if ret \<noteq> 0 then Some (ret, Some l1, u)
               else Some (0, null_if_empty l1,
                 case u of Some u1 \<Rightarrow> if new then null_if_empty u1 else Some u1 | None \<Rightarrow> None) })"

definition lSelectDestroy ::
  "compare_env \<Rightarrow> mem_env \<Rightarrow> 'd::linorder lList option \<Rightarrow> 'd lCondition option \<Rightarrow> 'd lList option option" where
  "lSelectDestroy ce env slp cp =
     do { (ret, l, _) \<leftarrow> lSplit ce env slp None None cp; Some (if ret \<noteq> 0 then None else l) }"

section \<open>Packing conditions\<close>

definition pack_null :: "mem_env \<Rightarrow> packer option \<Rightarrow> packer" where
  "pack_null env p = (case p of None \<Rightarrow> pack_int env 0 | Some q \<Rightarrow> q)"

primrec pack_cond :: "mem_env \<Rightarrow> ('d \<Rightarrow> byte list option) \<Rightarrow> 'd lCondition \<Rightarrow> packer" where
  "pack_cond env xdr (Cmp op pos mt nm val) =
     pack_then (pack_int env 1) (pack_then (pack_int env op)
       (if is_comparison (cond_op op) then
          pack_then (pack_int env pos) (pack_then (pack_int env mt) (pack_then (pack_int env nm)
            (if mt_get_type mt \<noteq> lListT then cull_pack_switch env xdr 0 val None (mt_get_type mt)
             else (\<lambda>_. None))))
        else if cond_op op = no_op then pack_ret PACK_FORMAT
        else (\<lambda>_. None)))"
| "pack_cond env xdr (Cmp_List op pos mt nm cp) =
     pack_then (pack_int env 1) (pack_then (pack_int env op)
       (if is_comparison (cond_op op) then
          pack_then (pack_int env pos) (pack_then (pack_int env mt) (pack_then (pack_int env nm)
            (if mt_get_type mt = lListT
             then (pack_null env (map_option (pack_cond env xdr) cp))
             else pack_no_value None (mt_get_type mt))))
        else if cond_op op = no_op then pack_ret PACK_FORMAT
        else (\<lambda>_. None)))"
| "pack_cond env xdr (Log op first second) =
     pack_then (pack_int env 1) (pack_then (pack_int env op)
       (if cond_op op = NEG then
          (pack_null env (map_option (pack_cond env xdr) first))
        else if cond_op op = AND_OP \<or> cond_op op = OR_OP then
          pack_then (pack_null env (map_option (pack_cond env xdr) first))
            (pack_null env (map_option (pack_cond env xdr) second))
        else if cond_op op = no_op then pack_ret PACK_FORMAT
        else (\<lambda>_. None)))"

definition cull_pack_cond :: "mem_env \<Rightarrow> ('d \<Rightarrow> byte list option) \<Rightarrow> 'd lCondition option \<Rightarrow> packer" where
  "cull_pack_cond env xdr cp = pack_null env (map_option (pack_cond env xdr) cp)"

text \<open>
  \<open>sw\<close> unpacks a value. The second operand of a negation stays null. The fuel is the depth of the
  condition.
\<close>

primrec unpack_cond ::
  "mem_env \<Rightarrow> 'd::zero value_unpacker \<Rightarrow> nat \<Rightarrow> 'd lCondition option unpacker" where
  "unpack_cond env sw 0 = (\<lambda>_. None)"
| "unpack_cond env sw (Suc fuel) =
     unpack_then unpackint (\<lambda>i.
       if i = 0 then unpack_ret PACK_SUCCESS None
       else need env sizeof_lCondition PACK_ENOMEM (unpack_then unpackint (\<lambda>op.
         if is_comparison (cond_op op) then
           unpack_then unpackint (\<lambda>pos. unpack_then unpackint (\<lambda>mt. unpack_then unpackint (\<lambda>nm.
             if mt_get_type mt \<noteq> lListT
             then unpack_then (sw (mt_get_type mt)) (\<lambda>v. unpack_ret PACK_SUCCESS (Some (Cmp op pos mt nm v)))
             else unpack_then (unpack_cond env sw fuel) (\<lambda>cp. unpack_ret PACK_SUCCESS (Some (Cmp_List op pos mt nm cp))))))
         else if cond_op op = NEG then
           unpack_then (unpack_cond env sw fuel) (\<lambda>c. unpack_ret PACK_SUCCESS (Some (Log op c None)))
         else if cond_op op = AND_OP \<or> cond_op op = OR_OP then
           unpack_then (unpack_cond env sw fuel) (\<lambda>c. unpack_then (unpack_cond env sw fuel) (\<lambda>c'.
             unpack_ret PACK_SUCCESS (Some (Log op c c'))))
         else unpack_ret PACK_FORMAT None)))"

definition cull_unpack_cond ::
  "mem_env \<Rightarrow> (byte list \<Rightarrow> 'd::zero option) \<Rightarrow> name_space option \<Rightarrow> 'd lCondition option unpacker" where
  "cull_unpack_cond env xdr ns pb =
     unpack_cond env (cull_unpack_switch env xdr ns 0 (Suc (bytes_left pb))) (Suc (bytes_left pb)) pb"

end
