(* ===== verification/Cull_Where_Facts.thy ===== *)
theory Cull_Where_Facts
  imports Cull_Where Cull_Pack_Facts
begin

text \<open>
  Conditions: they survive the network, they divide lists, and where their strings do not mean what
  they say.
\<close>

section \<open>The bytes of conditions\<close>

definition null_bytes :: "byte list option \<Rightarrow> byte list" where
  "null_bytes b = (case b of None \<Rightarrow> be32 0 | Some bs \<Rightarrow> bs)"

lemma null_bytes_simps: "null_bytes None = be32 0" "null_bytes (Some b) = b"
  by (simp_all add: null_bytes_def pack_null_def)

primrec cond_bytes :: "('d \<Rightarrow> byte list option) \<Rightarrow> 'd lCondition \<Rightarrow> byte list" where
  "cond_bytes x (Cmp op pos mt nm val) =
     be32 1 @ be32 op @ be32 pos @ be32 mt @ be32 nm @ value_bytes x 0 val"
| "cond_bytes x (Cmp_List op pos mt nm cp) =
     be32 1 @ be32 op @ be32 pos @ be32 mt @ be32 nm @
     null_bytes (map_option (cond_bytes x) cp)"
| "cond_bytes x (Log op first second) =
     be32 1 @ be32 op @
     null_bytes (map_option (cond_bytes x) first) @
     (if cond_op op = NEG then []
      else null_bytes (map_option (cond_bytes x) second))"

text \<open>The operator, the type and the value of a condition agree.\<close>

primrec cond_ok :: "'d lCondition \<Rightarrow> bool" where
  "cond_ok (Cmp op pos mt nm val) =
     (is_comparison (cond_op op) \<and> mt_get_type mt \<noteq> lListT \<and> value_ok val (mt_get_type mt))"
| "cond_ok (Cmp_List op pos mt nm cp) =
     (is_comparison (cond_op op) \<and> mt_get_type mt = lListT \<and> pred_option id (map_option cond_ok cp))"
| "cond_ok (Log op first second) =
     (cond_op op \<in> {AND_OP, OR_OP, NEG} \<and> (cond_op op = NEG \<longrightarrow> second = None) \<and>
      pred_option id (map_option cond_ok first) \<and> pred_option id (map_option cond_ok second))"

primrec cond_norm :: "name_space option \<Rightarrow> 'd::zero lCondition \<Rightarrow> 'd lCondition" where
  "cond_norm ns (Cmp op pos mt nm val) = Cmp op pos mt nm (value_norm ns 0 val)"
| "cond_norm ns (Cmp_List op pos mt nm cp) = Cmp_List op pos mt nm (map_option (cond_norm ns) cp)"
| "cond_norm ns (Log op first second) = Log op (map_option (cond_norm ns) first) (map_option (cond_norm ns) second)"

lemma packs_null:
  assumes "has_memory env" "\<And>c. cp = Some c \<Longrightarrow> packs (pack_cond env x c) (cond_bytes x c)"
  shows "packs (pack_null env (map_option (pack_cond env x) cp)) (null_bytes (map_option (cond_bytes x) cp))"
  using assms packs_int[of env 0] by (cases cp) (simp_all add: null_bytes_def pack_null_def)

lemma packs_cond:
  fixes c :: "'d::zero lCondition"
  assumes m: "has_memory env" and x: "xdr_ok xenc xdec"
  shows "cond_ok c \<Longrightarrow> packs (pack_cond env xenc c) (cond_bytes xenc c)"
proof (induction c)
  case (Cmp op pos mt nm val)
  then have "packs (cull_pack_switch env xenc 0 val None (mt_get_type mt)) (value_bytes xenc 0 val)"
    using packs_values(1)[OF m x] by simp
  then show ?case using Cmp by (auto intro!: packs_then packs_int m)
next
  case (Cmp_List op pos mt nm cp)
  then have "packs (pack_null env (map_option (pack_cond env xenc) cp)) (null_bytes (map_option (cond_bytes xenc) cp))"
    by (intro packs_null m) (auto simp: option.pred_map)
  then show ?case using Cmp_List.prems by (auto intro!: packs_then packs_int m)
next
  case (Log op first second)
  have f: "packs (pack_null env (map_option (pack_cond env xenc) first)) (null_bytes (map_option (cond_bytes xenc) first))"
    using Log by (intro packs_null m) (auto simp: option.pred_map)
  have g: "packs (pack_null env (map_option (pack_cond env xenc) second)) (null_bytes (map_option (cond_bytes xenc) second))"
    using Log by (intro packs_null m) (auto simp: option.pred_map)
  show ?case using Log.prems f g by (auto intro!: packs_then packs_int m)
qed

lemma reads_cond:
  fixes c :: "'d::zero lCondition"
  assumes m: "has_memory env" and x: "xdr_ok xenc xdec"
    and sw: "\<And>v t. value_ok v t \<Longrightarrow> length (value_bytes xenc 0 v) < n \<Longrightarrow> reads (sw t) (value_bytes xenc 0 v) (value_norm ns 0 v)"
  shows "cond_ok c \<Longrightarrow> length (cond_bytes xenc c) < fuel \<Longrightarrow> length (cond_bytes xenc c) \<le> n \<Longrightarrow>
    reads (unpack_cond env sw fuel) (cond_bytes xenc c) (Some (cond_norm ns c))"
proof (induction c arbitrary: fuel)
  have null: "reads (unpack_cond env sw fu) (null_bytes (map_option (cond_bytes xenc) cp)) (map_option (cond_norm ns) cp)"
    if "\<And>c. cp = Some c \<Longrightarrow> reads (unpack_cond env sw fu) (cond_bytes xenc c) (Some (cond_norm ns c))" "0 < fu" for cp fu
  proof (cases cp)
    case None
    have "reads (unpack_cond env sw fu) (be32 0) None"
      using that(2) by (cases fu) (auto intro!: reads_last[OF reads_int] reads_ret)
    then show ?thesis by (simp add: None null_bytes_def)
  qed (use that in \<open>simp add: null_bytes_def\<close>)
  {
    case (Cmp op pos mt nm val)
    then obtain fu where fu: "fuel = Suc fu" by (cases fuel) auto
    have v: "reads (sw (mt_get_type mt)) (value_bytes xenc 0 val) (value_norm ns 0 val)"
      using sw Cmp.prems by simp
    show ?case unfolding fu unpack_cond.simps cond_bytes.simps
      by (rule reads_then[OF reads_int], unfold if_not_P[OF one_neq_zero], rule reads_need[OF m],
          rule reads_then[OF reads_int])
        (use Cmp.prems in \<open>auto intro!: reads_then[OF reads_int] reads_last[OF v] reads_ret\<close>)
  next
    case (Cmp_List op pos mt nm cp)
    then obtain fu where fu: "fuel = Suc fu" "0 < fu" by (cases fuel) auto
    have c: "reads (unpack_cond env sw fu) (null_bytes (map_option (cond_bytes xenc) cp)) (map_option (cond_norm ns) cp)"
      by (rule null[OF _ fu(2)]) (use Cmp_List fu in \<open>auto simp: option.pred_map null_bytes_def\<close>)
    show ?case unfolding fu(1) unpack_cond.simps cond_bytes.simps
      by (rule reads_then[OF reads_int], unfold if_not_P[OF one_neq_zero], rule reads_need[OF m],
          rule reads_then[OF reads_int])
        (use Cmp_List.prems in \<open>auto intro!: reads_then[OF reads_int] reads_last[OF c] reads_ret\<close>)
  next
    case (Log op first second)
    then obtain fu where fu: "fuel = Suc fu" "0 < fu" by (cases fuel) auto
    have f: "reads (unpack_cond env sw fu) (null_bytes (map_option (cond_bytes xenc) first)) (map_option (cond_norm ns) first)"
      by (rule null[OF _ fu(2)]) (use Log fu in \<open>auto simp: option.pred_map null_bytes_def\<close>)
    have g: "cond_op op \<noteq> NEG \<Longrightarrow> reads (unpack_cond env sw fu) (null_bytes (map_option (cond_bytes xenc) second)) (map_option (cond_norm ns) second)"
      by (rule null[OF _ fu(2)]) (use Log fu in \<open>auto simp: option.pred_map null_bytes_def\<close>)
    have fg: "reads (unpack_then (unpack_cond env sw fu) (\<lambda>c'. unpack_ret PACK_SUCCESS
        (Some (Log op (map_option (cond_norm ns) first) c')))) (null_bytes (map_option (cond_bytes xenc) second))
        (Some (Log op (map_option (cond_norm ns) first) (map_option (cond_norm ns) second)))" if "cond_op op \<noteq> NEG"
      by (rule reads_last[OF g[OF that]]) (rule reads_ret)
    have nc: "\<not> is_comparison (cond_op op)" using Log.prems by (auto simp: is_comparison_def)
    show ?case unfolding fu(1) unpack_cond.simps cond_bytes.simps
      by (rule reads_then[OF reads_int], unfold if_not_P[OF one_neq_zero], rule reads_need[OF m],
          rule reads_then[OF reads_int])
        (use Log.prems f fg nc in \<open>auto intro!: reads_then[OF f] reads_last[OF f] reads_ret\<close>)
  }
qed

section \<open>The meaning of a condition that was packed\<close>

text \<open>No empty strings and no references.\<close>

primrec plain_cond :: "'d lCondition \<Rightarrow> bool" where
  "plain_cond (Cmp op pos mt nm val) =
     (case val of V_String s \<Rightarrow> s \<noteq> Some [] | V_Host s \<Rightarrow> s \<noteq> Some [] | V_Ref _ \<Rightarrow> False
      | V_List _ \<Rightarrow> False | V_Object _ \<Rightarrow> False | _ \<Rightarrow> True)"
| "plain_cond (Cmp_List op pos mt nm cp) = pred_option id (map_option plain_cond cp)"
| "plain_cond (Log op first second) =
     (pred_option id (map_option plain_cond first) \<and> pred_option id (map_option plain_cond second))"

lemma plain_norm: "plain_cond c \<Longrightarrow> cond_norm ns c = c"
proof (induction c)
  case (Cmp op pos mt nm val)
  then show ?case by (cases val) (auto simp: str_norm_def split: option.splits)
next
  case (Cmp_List op pos mt nm cp)
  then show ?case by (cases cp) (auto simp: option.pred_map)
next
  case (Log op first second)
  then show ?case by (cases first; cases second) (auto simp: option.pred_map)
qed

text \<open>
  C19. A condition comes back. A condition of any depth, packed into a buffer, is unpacked from its
  bytes to the last one, with its operators, positions and values, and if it has
  no empty strings it decides every element as before.
\<close>

theorem packed_condition_comes_back:
  fixes c :: "'d::{zero, linorder} lCondition"
  assumes "has_memory env" "xdr_ok xenc xdec" "cond_ok c" "n \<le> pack_limit"
    and "8 + length (cond_bytes xenc c) < pack_limit"
  shows "(\<exists>pb pb' b rb rb'. init_packbuffer env (Some p0) n False = Some (PACK_SUCCESS, Some pb) \<and>
    cull_pack_cond env xenc (Some c) pb = Some (PACK_SUCCESS, pb') \<and> head_ptr pb' = Some b \<and>
    init_packbuffer_from_buffer (Some q0) (Some (take (bytes_used pb') b)) (bytes_used pb') =
      Some (PACK_SUCCESS, Some rb) \<and>
    cull_unpack_cond env xdec ns rb = Some (PACK_SUCCESS, Some (cond_norm ns c), rb') \<and>
    pb_unused rb' = 0) \<and>
    (plain_cond c \<longrightarrow> (\<forall>ce e. compare_cond ce (cond_norm ns c) e = compare_cond ce c e))"
proof (rule conjI, rule whole_buffer[OF assms(1,4) _ assms(5)])
  show "packs (cull_pack_cond env xenc (Some c)) (cond_bytes xenc c)"
    using packs_cond[OF assms(1,2,3)] by (simp add: cull_pack_cond_def pack_null_def)
next
  fix rb assume u: "unread rb (cond_bytes xenc c)" and left: "bytes_left rb = length (cond_bytes xenc c)"
  have "flags_ok 0" by (simp add: flags_ok_def)
  note vals = reads_values(1)[OF assms(1) this assms(2)]
  have "reads (unpack_cond env (cull_unpack_switch env xdec ns 0 (Suc (bytes_left rb))) (Suc (bytes_left rb)))
      (cond_bytes xenc c) (Some (cond_norm ns c))"
  proof (rule reads_cond[OF assms(1,2) _ assms(3), of "Suc (bytes_left rb)"])
    fix v :: "'d lMultiType" and t assume "value_ok v t" "length (value_bytes xenc 0 v) < Suc (bytes_left rb)"
    then show "reads (cull_unpack_switch env xdec ns 0 (Suc (bytes_left rb)) t) (value_bytes xenc 0 v) (value_norm ns 0 v)"
      by (rule vals)
  qed (use left in simp_all)
  then show "\<exists>rb'. cull_unpack_cond env xdec ns rb = Some (PACK_SUCCESS, Some (cond_norm ns c), rb') \<and> unread rb' []"
    unfolding cull_unpack_cond_def reads_def using u by (metis append.right_neutral)
qed (simp add: plain_norm)

section \<open>Splitting a list\<close>

definition suffices :: "compare_env \<Rightarrow> 'd::linorder lCondition option \<Rightarrow> 'd lListElem \<Rightarrow> bool" where
  "suffices ce cp e \<longleftrightarrow> lCompare ce (Some e) cp \<noteq> Some 0"

definition bind_to :: "lDescr list \<Rightarrow> 'd lListElem \<Rightarrow> 'd lListElem" where
  "bind_to d e = Elem BOUND_ELEM d (el_cont e) (el_changed e)"

lemma dechain_middle:
  "lDechainElem (CList nm ch d (xs @ e # ys)) (length xs) =
    (CList nm True d (xs @ ys), Elem FREE_ELEM (el_descr e) (el_cont e) (el_changed e))"
  by (simp add: lDechainElem_def)

lemma append_free:
  "lAppendElem u (Elem FREE_ELEM d c ch) = Some (CList (l_name u) True (l_descr u) (l_elems u @ [Elem BOUND_ELEM (l_descr u) c ch]))"
  by (simp add: lAppendElem_def elem_status_defs)

lemma split_loop_removes:
  assumes "\<forall>e \<in> set rest. lCompare ce (Some e) cp \<noteq> None"
  shows "split_loop ce env False name cp (length rest) (length kept) (CList nm ch d (kept @ rest), u, new) =
    Some (0, CList nm (ch \<or> (\<exists>e \<in> set rest. \<not> suffices ce cp e)) d (kept @ filter (suffices ce cp) rest), u, new)"
  using assms
proof (induction rest arbitrary: kept ch)
  case (Cons e rest)
  obtain r where r: "lCompare ce (Some e) cp = Some r" using Cons.prems by auto
  show ?case
  proof (cases "r = 0")
    case True
    then show ?thesis using Cons.IH[of kept True] Cons.prems r
      by (simp add: dechain_middle suffices_def)
  next
    case False
    then show ?thesis using Cons.IH[of "kept @ [e]" ch] Cons.prems r by (simp add: suffices_def)
  qed
qed simp

lemma split_loop_moves:
  assumes "\<forall>e \<in> set rest. lCompare ce (Some e) cp \<noteq> None"
  shows "split_loop ce env True name cp (length rest) (length kept) (CList nm ch d (kept @ rest), Some u, new) =
    Some (0, CList nm (ch \<or> (\<exists>e \<in> set rest. \<not> suffices ce cp e)) d (kept @ filter (suffices ce cp) rest),
      Some (CList (l_name u) (l_changed u \<or> (\<exists>e \<in> set rest. \<not> suffices ce cp e)) (l_descr u)
        (l_elems u @ map (bind_to (l_descr u)) (filter (\<lambda>e. \<not> suffices ce cp e) rest))), new)"
  using assms
proof (induction rest arbitrary: kept ch u)
  case Nil
  then show ?case by (cases u) simp
next
  case (Cons e rest)
  obtain r where r: "lCompare ce (Some e) cp = Some r" using Cons.prems by auto
  show ?case
  proof (cases "r = 0")
    case True
    let ?u = "CList (l_name u) True (l_descr u) (l_elems u @ [bind_to (l_descr u) e])"
    show ?thesis using Cons.IH[of kept True ?u] Cons.prems r True
      by (simp add: dechain_middle append_free suffices_def bind_to_def)
  next
    case False
    then show ?thesis using Cons.IH[of "kept @ [e]" ch u] Cons.prems r by (simp add: suffices_def)
  qed
qed

lemma split_loop_creates:
  assumes "\<forall>e \<in> set rest. lCompare ce (Some e) cp \<noteq> None" and m: "has_memory env"
    and d: "lCountDescr d = length d" "d \<noteq> []"
  shows "\<exists>nm' ch'. split_loop ce env True name cp (length rest) (length kept) (CList nm ch d (kept @ rest), None, False) =
    Some (0, CList nm (ch \<or> (\<exists>e \<in> set rest. \<not> suffices ce cp e)) d (kept @ filter (suffices ce cp) rest),
      (if \<exists>e \<in> set rest. \<not> suffices ce cp e
       then Some (CList nm' ch' d (map (bind_to d) (filter (\<lambda>e. \<not> suffices ce cp e) rest))) else None),
      \<exists>e \<in> set rest. \<not> suffices ce cp e)"
  using assms(1)
proof (induction rest arbitrary: kept ch)
  case (Cons e rest)
  obtain r where r: "lCompare ce (Some e) cp = Some r" using Cons.prems by auto
  show ?case
  proof (cases "r = 0")
    case True
    let ?nm = "Some (case name of Some s \<Rightarrow> s | None \<Rightarrow> [117, 108, 112])"
    let ?u = "CList ?nm True d [bind_to d e]"
    have new: "lCreateListHash env ?nm d = Some (CList ?nm False d [])"
      using m d by (simp add: lCreateListHash_def has_memory_def Let_def)
    have ns: "\<not> suffices ce cp e" using r True by (simp add: suffices_def)
    show ?thesis using split_loop_moves[of rest ce cp env name kept nm True d ?u True] Cons.prems r True ns
      by (auto simp: dechain_middle append_free bind_to_def new)
  next
    case False
    then have s: "suffices ce cp e" using r by (simp add: suffices_def)
    then have flt: "filter (\<lambda>x. \<not> suffices ce cp x) (e # rest) = filter (\<lambda>x. \<not> suffices ce cp x) rest" by simp
    show ?thesis unfolding flt using s Cons.IH[of "kept @ [e]" ch] Cons.prems r False
      by (simp split del: if_split)
  qed
qed simp

text \<open>
  C21. \<open>lSplit\<close> divides a list by a condition: the elements that suffice stay, in their order, and the
  others go to the end of the second list, in their order, now bound to its descriptor. A list that
  becomes empty, or a second list that would be, is a null pointer.
\<close>

theorem split_divides_list:
  fixes l :: "'d::linorder lList"
  assumes "\<forall>e \<in> set (l_elems l). lCompare ce (Some e) cp \<noteq> None" "has_memory env"
    and "lCountDescr (l_descr l) = length (l_descr l)" "l_descr l \<noteq> []"
  shows "\<exists>ch u. lSplit ce env (Some l) (Some ulp) name cp =
      Some (0, null_if_empty (CList (l_name l) ch (l_descr l) (filter (suffices ce cp) (l_elems l))), u) \<and>
    (case u of None \<Rightarrow> [] | Some u1 \<Rightarrow> l_elems u1) =
      (case ulp of None \<Rightarrow> [] | Some u0 \<Rightarrow> l_elems u0) @
      map (bind_to (case ulp of None \<Rightarrow> l_descr l | Some u0 \<Rightarrow> l_descr u0))
        (filter (\<lambda>e. \<not> suffices ce cp e) (l_elems l)) \<and>
    (u = None \<longleftrightarrow> ulp = None \<and> list_all (suffices ce cp) (l_elems l))"
proof -
  obtain nm ch d es where l: "l = CList nm ch d es" by (cases l) auto
  have d: "lCountDescr d = length d" "d \<noteq> []" using assms(3,4) l by simp_all
  have es: "\<forall>e \<in> set es. lCompare ce (Some e) cp \<noteq> None" using assms(1) l by simp
  show ?thesis
  proof (cases ulp)
    case (Some u0)
    then show ?thesis
      using split_loop_moves[OF es, of env name "[]" nm ch d u0 False] by (auto simp: l lSplit_def)
  next
    case None
    from split_loop_creates[OF es assms(2) d, of name "[]" nm ch] obtain nm' ch' where
      run: "split_loop ce env True name cp (length es) 0 (CList nm ch d es, None, False) =
        Some (0, CList nm (ch \<or> (\<exists>e \<in> set es. \<not> suffices ce cp e)) d (filter (suffices ce cp) es),
          (if \<exists>e \<in> set es. \<not> suffices ce cp e
           then Some (CList nm' ch' d (map (bind_to d) (filter (\<lambda>e. \<not> suffices ce cp e) es))) else None),
          \<exists>e \<in> set es. \<not> suffices ce cp e)" by auto
    show ?thesis
    proof (cases "\<exists>e \<in> set es. \<not> suffices ce cp e")
      case True
      then have "filter (\<lambda>e. \<not> suffices ce cp e) es \<noteq> []" by (simp add: filter_empty_conv)
      then show ?thesis using run True None
        by (auto simp: l lSplit_def null_if_empty_def list_all_iff)
    next
      case False
      then have "filter (\<lambda>e. \<not> suffices ce cp e) es = []" "list_all (suffices ce cp) es"
        by (auto simp: list_all_iff filter_empty_conv)
      then show ?thesis using run False None by (auto simp: l lSplit_def)
    qed
  qed
qed

section \<open>Strings\<close>

text \<open>
  Where conditions on strings fail. The order of strings is taken from \<open>strcmp\<close> by comparing its
  result with 1 and -1, though only its sign is defined: for a C library that returns the difference of
  two characters, a smaller string is neither lower nor greater. The empty string in a condition is a
  null pointer after packing, so a condition that holds for an element no longer does on the other
  side.
\<close>

theorem conditions_on_strings_fail:
  assumes field: "lGetPosString ep pos = Some (Some a)" "mt_get_type mt = lStringT"
    and less: "libc_strcmp ce (to_string a) (to_string b) < - 1"
    and empty: "lGetPosString ep0 pos = Some (Some [])" "libc_strcmp ce [] [] = 0"
  shows "compare_cond ce (Cmp 22 pos mt nm (V_String (Some b))) ep = Some 0 \<and>
    compare_cond ce (Cmp 21 pos mt nm (V_String (Some b))) ep = Some 0 \<and>
    compare_cond ce (Cmp 24 pos mt nm (V_String (Some b))) ep = Some 0 \<and>
    compare_cond ce (Cmp 19 pos mt nm (V_String (Some b))) ep = Some 0 \<and>
    compare_cond ce (Cmp 19 pos mt nm (V_String (Some []))) ep0 = Some 1 \<and>
    compare_cond ce (cond_norm ns (Cmp 19 pos mt nm (V_String (Some [])))) ep0 = Some 0"
proof -
  have ops: "cond_op 22 = LOWER" "cond_op 21 = LOWER_EQUAL" "cond_op 24 = GREATER" "cond_op 19 = EQUAL"
    by code_simp+
  show ?thesis using field less empty
    by (simp add: is_comparison_def compare_comparison_def compare_value_def string_values_def apply_op_def ops
        to_string_def str_norm_def)
qed

section \<open>Examples\<close>

abbreviation (input) no_hosts :: bootstrap where
  "no_hosts \<equiv> \<lparr>ignore_fqdn = False, default_domain = None, CL_MAXHOSTLEN = 256\<rparr>"

text \<open>A \<open>strcmp\<close> that returns the difference of the first characters that differ.\<close>

fun byte_strcmp :: "string \<Rightarrow> string \<Rightarrow> int" where
  "byte_strcmp [] [] = 0"
| "byte_strcmp [] (b # bs) = - int (of_char b)"
| "byte_strcmp (a # as) [] = int (of_char a)"
| "byte_strcmp (a # as) (b # bs) = (if a = b then byte_strcmp as bs else int (of_char a) - int (of_char b))"

abbreviation (input) some_libc :: compare_env where
  "some_libc \<equiv> \<lparr>libc_strcmp = byte_strcmp, libc_fnmatch = (\<lambda>_ _. 1), host_conf = no_hosts\<rparr>"

abbreviation (input) number_is :: "32 word \<Rightarrow> 64 word lCondition" where
  "number_is n \<equiv> Cmp 19 0 3 1 (V_Ulong n)"

abbreviation (input) number_elem :: "32 word \<Rightarrow> 64 word lListElem" where
  "number_elem n \<equiv> Elem BOUND_ELEM [fld 1 3] [V_Ulong n] (fresh_field 1)"

abbreviation (input) string_elem :: "byte list \<Rightarrow> 64 word lListElem" where
  "string_elem s \<equiv> Elem BOUND_ELEM [fld 1 8] [V_String (Some s)] (fresh_field 1)"

lemma equal_op: "cond_op 19 = EQUAL"
  by code_simp

lemma number_is_ok: "cond_ok (number_is n)" "plain_cond (number_is n)" "length (cond_bytes x (number_is n)) = 24"
  by (simp_all add: equal_op is_comparison_def example_types)

lemma number_is_compare: "lCompare some_libc (Some (Elem BOUND_ELEM [fld 1 3] [V_Ulong n] f)) (Some (number_is m)) = Some (of_bool (n = m))"
  by (simp add: lCompare_def null_cond_def is_comparison_def compare_comparison_def compare_value_def example_types
      get_pos_def apply_op_def ulongcmp_def ord_cmp_def equal_op Let_def)

theorem packed_condition_comes_back_witness:
  "\<exists>pb pb' b rb rb'. init_packbuffer plenty (Some (empty_buffer 0)) 0 False = Some (PACK_SUCCESS, Some pb) \<and>
    cull_pack_cond plenty xdr64_enc (Some (number_is 7)) pb = Some (PACK_SUCCESS, pb') \<and> head_ptr pb' = Some b \<and>
    init_packbuffer_from_buffer (Some (empty_buffer 0)) (Some (take (bytes_used pb') b)) (bytes_used pb') =
      Some (PACK_SUCCESS, Some rb) \<and>
    cull_unpack_cond plenty xdr64_dec None rb = Some (PACK_SUCCESS, Some (number_is 7), rb') \<and>
    pb_unused rb' = 0"
  using conjunct1[OF packed_condition_comes_back[OF _ xdr64_ok number_is_ok(1)], of plenty 0 7 "empty_buffer 0" "empty_buffer 0" None]
  unfolding number_is_ok(3) by (simp add: has_memory_def pack_limit_def)

theorem split_divides_list_witness:
  "\<exists>ch u. lSplit some_libc plenty (Some (CList None False [fld 1 3] [number_elem 7, number_elem 8, number_elem 7]))
      (Some None) None (Some (number_is 7)) =
      Some (0, null_if_empty (CList None ch [fld 1 3] [number_elem 7, number_elem 7]), u) \<and>
    (case u of None \<Rightarrow> [] | Some u1 \<Rightarrow> l_elems u1) = [number_elem 8] \<and> u \<noteq> None"
  using split_divides_list[of "CList None False [fld 1 3] [number_elem 7, number_elem 8, number_elem 7]" some_libc
      "Some (number_is 7)" plenty None None]
  by (simp add: number_is_compare has_memory_def lCountDescr_def example_types suffices_def bind_to_def)

theorem conditions_on_strings_fail_witness:
  "compare_cond some_libc (Cmp 22 0 8 1 (V_String (Some [67]))) (string_elem [65]) = Some 0 \<and>
   compare_cond some_libc (Cmp 21 0 8 1 (V_String (Some [67]))) (string_elem [65]) = Some 0 \<and>
   compare_cond some_libc (Cmp 24 0 8 1 (V_String (Some [67]))) (string_elem [65]) = Some 0 \<and>
   compare_cond some_libc (Cmp 19 0 8 1 (V_String (Some []))) (string_elem []) = Some 1 \<and>
   compare_cond some_libc (cond_norm None (Cmp 19 0 8 1 (V_String (Some [])))) (string_elem []) = Some 0"
proof -
  have s: "lGetPosString (string_elem s) 0 = Some (Some s)" for s
    by (simp add: lGetPosString_def get_pos_def example_types Let_def)
  have "libc_strcmp some_libc (to_string [65]) (to_string [67]) < - 1" by code_simp
  from conditions_on_strings_fail[OF s example_types(2) this s, of 1 None] show ?thesis by simp
qed

end
