(* ===== verification/Cull_What.thy ===== *)
theory Cull_What
  imports Cull_Pack
begin

text \<open>
  Enumerations of fields: \<^verbatim>\<open>source/libs/cull/cull_what.c\<close> and their packing in \<^verbatim>\<open>cull_pack.c\<close>.
  An enumeration is the list of its fields without the end mark.
\<close>

section \<open>Making enumerations\<close>

definition lWhatAll :: "mem_env \<Rightarrow> lEnumeration list option" where
  "lWhatAll env = (if fst env (2 * sizeof_lEnumeration) then Some [What WHAT_ALL (- 99) (- 99) None] else None)"

text \<open>
  The position of a name. In a whole descriptor the names follow each other, so the position is the
  distance from the first one; it is not compared with the number of fields.
\<close>

definition lGetPosInDescr :: "lDescr list \<Rightarrow> 32 word \<Rightarrow> int" where
  "lGetPosInDescr dp name =
     (case dp of
        [] \<Rightarrow> (let pos = sint (name - NoName) in if pos < 0 \<or> pos > int MAX_DESCR_SIZE then - 1 else pos)
      | f # _ \<Rightarrow>
          if d_mt f AND CULL_IS_REDUCED = 0
          then (let pos = sint (name - d_nm f) in if pos < 0 \<or> pos > int MAX_DESCR_SIZE then - 1 else pos)
          else
            (let before = takeWhile (\<lambda>g. d_nm g \<noteq> name \<and> d_nm g \<noteq> NoName) dp in
             if length before = length dp \<or> d_nm (dp ! length before) = NoName then - 1
             else int (length before)))"

text \<open>
  An enumeration of names. A name that is not there ends it; a position behind the descriptor has no
  result. The format string that is built has room for 997 names.
\<close>

fun enumerate_names :: "lDescr list \<Rightarrow> 32 word list \<Rightarrow> lEnumeration list option option" where
  "enumerate_names dp [] = Some (Some [])"
| "enumerate_names dp (nm # nms) =
     (let pos = lGetPosInDescr dp nm in
      if pos < 0 then Some None
      else if int (length dp) \<le> pos then None
      else do { rest \<leftarrow> enumerate_names dp nms;
                Some (map_option ((#) (What (of_int pos) (d_mt (dp ! nat pos)) nm None)) rest) })"

definition lIntVector2What :: "mem_env \<Rightarrow> lDescr list \<Rightarrow> 32 word list \<Rightarrow> lEnumeration list option option" where
  "lIntVector2What env dp nms =
     (if nms = [] \<or> length nms > 997 \<or> \<not> fst env (sizeof_lEnumeration * (length nms + 1)) then Some None
      else enumerate_names dp nms)"

section \<open>Copying and merging\<close>

definition what_fields :: "lEnumeration list \<Rightarrow> lEnumeration list" where
  "what_fields what = takeWhile (\<lambda>w. mt_get_type (w_mt w) \<noteq> lEndT) what"

primrec copy_field :: "mem_env \<Rightarrow> lEnumeration \<Rightarrow> lEnumeration" where
  "copy_field env (What pos mt nm ep) =
     What pos mt nm
       (case map_option (map (\<lambda>w. (w, copy_field env w))) ep of
          None \<Rightarrow> None
        | Some ws \<Rightarrow>
            (let fields = takeWhile (\<lambda>(w, _). mt_get_type (w_mt w) \<noteq> lEndT) ws in
             if fst env (sizeof_lEnumeration * (length fields + 1)) then Some (map snd fields) else None))"

definition lCopyWhat :: "mem_env \<Rightarrow> lEnumeration list option \<Rightarrow> lEnumeration list option" where
  "lCopyWhat env ep = w_ep (copy_field env (What 0 0 0 ep))"

text \<open>
  Merging. The fields of the first enumeration are put into a table, those of the second that are not
  there are added. The code looks at the sub-enumeration of the end mark of the table (\<open>mark\<close>), which
  is null, instead of that of the field, so it never merges two of them.
\<close>

definition same_field :: "lEnumeration \<Rightarrow> lEnumeration \<Rightarrow> bool" where
  "same_field v w \<longleftrightarrow> w_mt v = w_mt w \<and> w_nm v = w_nm w \<and> w_pos v = w_pos w"

fun merge_loop :: "lEnumeration list \<Rightarrow> lEnumeration list option \<Rightarrow> lEnumeration list \<Rightarrow> lEnumeration list option" where
  "merge_loop table mark [] = Some table"
| "merge_loop table mark (w # ws) =
     (if mark \<noteq> None \<and> w_ep w \<noteq> None then None
      else if list_ex (\<lambda>v. same_field v w) table then merge_loop table None ws
      else merge_loop (table @ [What (w_pos w) (w_mt w) (w_nm w) None]) None ws)"

text \<open>
  The return value and the first enumeration; the second is null afterwards. The table has room for
  1000 fields with the end mark.
\<close>

definition lMergeWhat ::
  "mem_env \<Rightarrow> lEnumeration list option \<Rightarrow> lEnumeration list \<Rightarrow> (int \<times> lEnumeration list option) option" where
  "lMergeWhat env what1 what2 =
     (case what1 of
        None \<Rightarrow> Some (0, Some what2)
      | Some w1 \<Rightarrow>
          if what_kind w1 = WHAT_NONE \<or> what_kind what2 = WHAT_ALL then Some (0, Some what2)
          else if what_kind w1 = WHAT_ALL then Some (0, Some w1)
          else do { table \<leftarrow> merge_loop (what_fields w1) None (what_fields what2);
                    if length table \<ge> 1000 then None
                    else if fst env (sizeof_lEnumeration * (length table + 1)) then Some (0, Some table)
                    else Some (- 1, None) })"

definition lWhatSetSubWhat ::
  "lEnumeration list option \<Rightarrow> 32 word \<Rightarrow> lEnumeration list option \<Rightarrow> int \<times> lEnumeration list option" where
  "lWhatSetSubWhat what1 nm what2 =
     (case what1 of
        None \<Rightarrow> (- 1, None)
      | Some ws \<Rightarrow>
          (let before = takeWhile (\<lambda>w. w_nm w \<noteq> nm) (what_fields ws); i = length before in
           if i < length (what_fields ws)
           then (0, Some (ws[i := What (w_pos (ws ! i)) (w_mt (ws ! i)) (w_nm (ws ! i)) what2]))
           else (- 1, Some ws)))"

section \<open>Packing\<close>

primrec pack_what_field :: "mem_env \<Rightarrow> lEnumeration \<Rightarrow> packer" where
  "pack_what_field env (What pos mt nm ep) =
     pack_then (pack_int env pos) (pack_then (pack_int env mt) (pack_then (pack_int env nm)
       (case map_option (map (\<lambda>w. (w, pack_what_field env w))) ep of
          None \<Rightarrow> pack_int env 0
        | Some ws \<Rightarrow>
            pack_then (pack_int env 1) (pack_then (pack_int env 1)
              (if what_kind (map fst ws) = WHAT_ALL then pack_int env 0
               else if what_kind (map fst ws) = WHAT_NONE then pack_int env 1
               else
                 pack_then (pack_int env 2)
                   (pack_then (pack_int env (of_nat (length (takeWhile (\<lambda>(w, _). w_nm w \<noteq> NoName) ws))))
                     (pack_each snd (takeWhile (\<lambda>(w, _). w_nm w AND 0xFF \<noteq> NoName \<and> mt_get_type (w_mt w) \<noteq> lEndT) ws))))))))"

definition cull_pack_enum :: "mem_env \<Rightarrow> lEnumeration list option \<Rightarrow> packer" where
  "cull_pack_enum env enp =
     (case enp of
        None \<Rightarrow> pack_int env 0
      | Some ws \<Rightarrow>
          pack_then (pack_int env 1)
            (if what_kind ws = WHAT_ALL then pack_int env 0
             else if what_kind ws = WHAT_NONE then pack_int env 1
             else
               pack_then (pack_int env 2)
                 (pack_then (pack_int env (of_nat (length (takeWhile (\<lambda>w. w_nm w \<noteq> NoName) ws))))
                   (pack_each (pack_what_field env)
                     (takeWhile (\<lambda>w. w_nm w AND 0xFF \<noteq> NoName \<and> mt_get_type (w_mt w) \<noteq> lEndT) ws)))))"

text \<open>
  When a step fails inside the loop, the enumeration is freed up to an end mark that is not there yet:
  then there is no result. The test of the number of fields wraps around, so the greatest number
  gets memory for none. A flag that is neither all nor none leaves the position as it was in memory.
\<close>

definition or_wild :: "'a unpacker \<Rightarrow> 'a unpacker" where
  "or_wild u pb = do { (ret, v, pb1) \<leftarrow> u pb; if ret = PACK_SUCCESS then Some (ret, v, pb1) else None }"

fun unpack_what_fields ::
  "(lEnumeration list option unpacker) \<Rightarrow> nat \<Rightarrow> lEnumeration list option unpacker" where
  "unpack_what_fields sub 0 = unpack_ret PACK_SUCCESS (Some [])"
| "unpack_what_fields sub (Suc n) =
     unpack_then unpackint (\<lambda>pos. unpack_then unpackint (\<lambda>mt. unpack_then unpackint (\<lambda>nm.
       unpack_then unpackint (\<lambda>temp.
         unpack_then (if temp = 1 then sub else unpack_ret PACK_SUCCESS None) (\<lambda>ep.
           unpack_then (unpack_what_fields sub n) (\<lambda>ws.
             unpack_ret PACK_SUCCESS (Some (What pos mt nm ep # the ws))))))))"

primrec unpack_enum :: "mem_env \<Rightarrow> nat \<Rightarrow> lEnumeration list option unpacker" where
  "unpack_enum env 0 = (\<lambda>_. None)"
| "unpack_enum env (Suc fuel) =
     unpack_then unpackint (\<lambda>i.
       if i = 0 then unpack_ret PACK_SUCCESS None
       else unpack_then unpackint (\<lambda>flag.
         if flag \<noteq> 2 then
           need env (2 * sizeof_lEnumeration) PACK_ENOMEM
             (unpack_ret PACK_SUCCESS (Some [What
                (if flag = 0 then WHAT_ALL else if flag = 1 then WHAT_NONE
                 else le_word (map (snd env) [0..<4])) (- 99) (- 99) None]))
         else unpack_then unpackint (\<lambda>n.
           if unat (n + 1) > MAX_DESCR_SIZE then unpack_ret PACK_ENOMEM None
           else need env (sizeof_lEnumeration * unat (n + 1)) PACK_ENOMEM
             (if n + 1 = 0 then (\<lambda>_. None)
              else or_wild (unpack_what_fields (unpack_enum env fuel) (unat n))))))"

definition cull_unpack_enum :: "mem_env \<Rightarrow> lEnumeration list option unpacker" where
  "cull_unpack_enum env pb = unpack_enum env (Suc (bytes_left pb)) pb"

end
