(* ===== verification/Cull_What_Facts.thy ===== *)
theory Cull_What_Facts
  imports Cull_What Cull_Pack_Facts
begin

text \<open>
  Enumerations come back from the network as they were; broken ones are not recovered from. Merging
  keeps the fields but not the sub-enumerations.
\<close>

section \<open>The bytes of an enumeration\<close>

definition whats_bytes :: "lEnumeration list \<Rightarrow> byte list list \<Rightarrow> byte list" where
  "whats_bytes ws bs =
     be32 1 @
     (if what_kind ws = WHAT_ALL then be32 0
      else if what_kind ws = WHAT_NONE then be32 1
      else be32 2 @ be32 (of_nat (length ws)) @ concat bs)"

primrec what_bytes :: "lEnumeration \<Rightarrow> byte list" where
  "what_bytes (What pos mt nm ep) = be32 pos @ be32 mt @ be32 nm @
     (case map_option (map (\<lambda>w. (w, what_bytes w))) ep of
        None \<Rightarrow> be32 0
      | Some ws \<Rightarrow> be32 1 @ whats_bytes (map fst ws) (map snd ws))"

definition enum_bytes :: "lEnumeration list \<Rightarrow> byte list" where
  "enum_bytes ws = whats_bytes ws (map what_bytes ws)"

lemma what_bytes_eq: "what_bytes w = be32 (w_pos w) @ be32 (w_mt w) @ be32 (w_nm w) @
    (case w_ep w of None \<Rightarrow> be32 0 | Some ws \<Rightarrow> be32 1 @ enum_bytes ws)"
  by (cases w) (auto simp: enum_bytes_def o_def split: option.split)

text \<open>All fields or none, or fields with names and types.\<close>

definition whats_ok :: "lEnumeration list \<Rightarrow> bool" where
  "whats_ok ws \<longleftrightarrow>
     (if what_kind ws = WHAT_ALL \<or> what_kind ws = WHAT_NONE then ws = [What (what_kind ws) (- 99) (- 99) None]
      else length ws < MAX_DESCR_SIZE \<and>
        list_all (\<lambda>w. w_nm w \<noteq> NoName \<and> mt_get_type (w_mt w) \<noteq> lEndT) ws)"

primrec what_ok :: "lEnumeration \<Rightarrow> bool" where
  "what_ok (What pos mt nm ep) =
     (case map_option (map (\<lambda>w. (w, what_ok w))) ep of
        None \<Rightarrow> True
      | Some ws \<Rightarrow> whats_ok (map fst ws) \<and> list_all snd ws)"

definition enum_ok :: "lEnumeration list \<Rightarrow> bool" where
  "enum_ok ws \<longleftrightarrow> whats_ok ws \<and> list_all what_ok ws"

lemma what_ok_eq: "what_ok w \<longleftrightarrow> (case w_ep w of None \<Rightarrow> True | Some ws \<Rightarrow> enum_ok ws)"
  by (cases w) (auto simp: enum_ok_def o_def list_all_iff split: option.split)

lemma what_kinds: "WHAT_ALL \<noteq> WHAT_NONE"
  by (simp add: WHAT_ALL_def WHAT_NONE_def)

lemma pack_what_field_eq: "pack_what_field env w =
    pack_then (pack_int env (w_pos w)) (pack_then (pack_int env (w_mt w)) (pack_then (pack_int env (w_nm w))
      (case w_ep w of None \<Rightarrow> pack_int env 0 | Some ws \<Rightarrow> pack_then (pack_int env 1) (cull_pack_enum env (Some ws)))))"
proof (cases w)
  case (What pos mt nm ep)
  have tw: "takeWhile (\<lambda>(w, _). P w) (map (\<lambda>w. (w, f w)) ws) = map (\<lambda>w. (w, f w)) (takeWhile P ws)"
    for P and f :: "lEnumeration \<Rightarrow> packer" and ws
    by (simp add: takeWhile_map o_def)
  show ?thesis
  proof (cases ep)
    case (Some ws)
    then show ?thesis by (simp add: What cull_pack_enum_def tw o_def pack_each_map)
  qed (simp add: What)
qed

lemma packs_enum_fields:
  assumes "has_memory env" "whats_ok ws" "\<And>w. w \<in> set ws \<Longrightarrow> packs (pack_what_field env w) (what_bytes w)"
  shows "packs (cull_pack_enum env (Some ws)) (enum_bytes ws)"
proof (cases "what_kind ws = WHAT_ALL \<or> what_kind ws = WHAT_NONE")
  case True
  then show ?thesis using assms(1) what_kinds
    by (auto simp: cull_pack_enum_def enum_bytes_def whats_bytes_def intro!: packs_then packs_int)
next
  case False
  then have ok: "list_all (\<lambda>w. w_nm w \<noteq> NoName \<and> mt_get_type (w_mt w) \<noteq> lEndT) ws"
    using assms(2) by (simp add: whats_ok_def)
  then have tw: "takeWhile (\<lambda>w. w_nm w \<noteq> NoName) ws = ws"
    "takeWhile (\<lambda>w. w_nm w AND 0xFF \<noteq> NoName \<and> mt_get_type (w_mt w) \<noteq> lEndT) ws = ws"
    by (simp_all add: list_all_iff not_NoName)
  show ?thesis unfolding cull_pack_enum_def option.case tw enum_bytes_def whats_bytes_def
    using False assms(1,3) by (auto intro!: packs_then packs_int packs_each)
qed

lemma packs_what_field: "has_memory env \<Longrightarrow> what_ok w \<Longrightarrow> packs (pack_what_field env w) (what_bytes w)"
proof (induction w)
  case (What pos mt nm ep)
  show ?case
  proof (cases ep)
    case None
    then show ?thesis unfolding pack_what_field_eq what_bytes_eq
      by (auto intro!: packs_then packs_int What.prems)
  next
    case (Some ws)
    then have "enum_ok ws" using What.prems(2) by (simp add: what_ok_eq)
    then have "packs (cull_pack_enum env (Some ws)) (enum_bytes ws)"
      using What.IH[of ws] What.prems(1) Some
      by (intro packs_enum_fields) (auto simp: enum_ok_def list_all_iff)
    then show ?thesis unfolding pack_what_field_eq what_bytes_eq
      using Some by (auto intro!: packs_then packs_int What.prems)
  qed
qed

lemma packs_enum: "has_memory env \<Longrightarrow> enum_ok ws \<Longrightarrow> packs (cull_pack_enum env (Some ws)) (enum_bytes ws)"
  by (rule packs_enum_fields) (auto simp: enum_ok_def list_all_iff packs_what_field)

lemma reads_or_wild: "reads u bs v \<Longrightarrow> reads (or_wild u) bs v"
  unfolding reads_def or_wild_def by fastforce

lemma reads_what_fields:
  assumes "\<And>w sub_ws. w \<in> set ws \<Longrightarrow> w_ep w = Some sub_ws \<Longrightarrow> reads sub (enum_bytes sub_ws) (Some sub_ws)"
  shows "reads (unpack_what_fields sub (length ws)) (concat (map what_bytes ws)) (Some ws)"
  using assms
proof (induction ws)
  case Nil
  then show ?case by (simp add: reads_ret)
next
  case (Cons w ws)
  have rest: "reads (unpack_what_fields sub (length ws)) (concat (map what_bytes ws)) (Some ws)"
    using Cons by auto
  have ep: "reads (unpack_then unpackint (\<lambda>temp. unpack_then (if temp = 1 then sub else unpack_ret PACK_SUCCESS None) k))
      ((case w_ep w of None \<Rightarrow> be32 0 | Some ws \<Rightarrow> be32 1 @ enum_bytes ws) @ bs) v"
    if k: "reads (k (w_ep w)) bs v" for k :: "lEnumeration list option \<Rightarrow> lEnumeration list option unpacker" and bs v
  proof (cases "w_ep w")
    case None
    have "reads (unpack_then (if (0 :: 32 word) = 1 then sub else unpack_ret PACK_SUCCESS None) k) ([] @ bs) v"
      by (rule reads_then[where v = None]) (use k None in \<open>simp_all add: reads_ret\<close>)
    then show ?thesis unfolding None option.case by (intro reads_then[OF reads_int]) simp
  next
    case (Some ws')
    have sub: "reads sub (enum_bytes ws') (Some ws')" using Cons.prems[of w ws'] Some by simp
    have "reads (unpack_then (if (1 :: 32 word) = 1 then sub else unpack_ret PACK_SUCCESS None) k) (enum_bytes ws' @ bs) v"
      by (rule reads_then[where v = "Some ws'"]) (use k Some sub in simp_all)
    then show ?thesis unfolding Some option.case append_assoc by (intro reads_then[OF reads_int])
  qed
  have "reads (unpack_what_fields sub (Suc (length ws)))
      (be32 (w_pos w) @ be32 (w_mt w) @ be32 (w_nm w) @
       (case w_ep w of None \<Rightarrow> be32 0 | Some ws \<Rightarrow> be32 1 @ enum_bytes ws) @ concat (map what_bytes ws)) (Some (w # ws))"
    unfolding unpack_what_fields.simps
    by (rule reads_then[OF reads_int], rule reads_then[OF reads_int], rule reads_then[OF reads_int], rule ep,
        rule reads_last[OF rest]) (cases w, simp add: reads_ret)
  then show ?case by (simp add: what_bytes_eq[of w])
qed

lemma sub_enum_less:
  assumes "w \<in> set ws" "w_ep w = Some sub_ws" "\<not> (what_kind ws = WHAT_ALL \<or> what_kind ws = WHAT_NONE)"
  shows "length (enum_bytes sub_ws) < length (enum_bytes ws)"
proof -
  have "length (what_bytes w) \<le> length (concat (map what_bytes ws))"
    using assms(1) by (intro length_in_concat) simp
  moreover have "length (enum_bytes sub_ws) < length (what_bytes w)" using assms(2) by (simp add: what_bytes_eq)
  ultimately show ?thesis using assms(3) by (simp add: enum_bytes_def[of ws] whats_bytes_def)
qed

lemma reads_enum:
  "has_memory env \<Longrightarrow> enum_ok ws \<Longrightarrow> length (enum_bytes ws) < fuel \<Longrightarrow>
    reads (unpack_enum env fuel) (enum_bytes ws) (Some ws)"
proof (induction fuel arbitrary: ws)
  case (Suc fuel)
  show ?case
  proof (cases "what_kind ws = WHAT_ALL \<or> what_kind ws = WHAT_NONE")
    case True
    then have ws: "ws = [What (what_kind ws) (- 99) (- 99) None]"
      using Suc.prems by (simp add: enum_ok_def whats_ok_def)
    have flag: "(if what_kind ws = WHAT_ALL then be32 0 else if what_kind ws = WHAT_NONE then be32 1 else bs) =
        be32 (if what_kind ws = WHAT_ALL then 0 else 1)" for bs
      using True by auto
    show ?thesis unfolding unpack_enum.simps enum_bytes_def whats_bytes_def flag
      by (rule reads_then[OF reads_int], unfold if_not_P[OF one_neq_zero], rule reads_last[OF reads_int],
          subst ws) (use True what_kinds Suc.prems(1) in \<open>auto intro!: reads_need reads_ret\<close>)
  next
    case False
    then have ok: "length ws < 200" "list_all what_ok ws"
      using Suc.prems by (auto simp: enum_ok_def whats_ok_def MAX_DESCR_SIZE_def)
    have len: "unat (of_nat (length ws) :: 32 word) = length ws"
      using ok(1) by (simp add: unat_of_nat take_bit_nat_eq_self)
    have n: "unat (of_nat (length ws) + 1 :: 32 word) = length ws + 1"
    proof -
      have "(of_nat (length ws) + 1 :: 32 word) = of_nat (length ws + 1)" by simp
      then show ?thesis using ok(1) by (simp only: unat_of_nat) (simp add: take_bit_nat_eq_self)
    qed
    then have nz: "of_nat (length ws) + 1 \<noteq> (0 :: 32 word)" by auto
    have fields: "reads (unpack_what_fields (unpack_enum env fuel) (length ws)) (concat (map what_bytes ws)) (Some ws)"
    proof (rule reads_what_fields)
      fix w sub_ws assume w: "w \<in> set ws" "w_ep w = Some sub_ws"
      then have "enum_ok sub_ws" using ok(2) by (auto simp: list_all_iff what_ok_eq split: option.splits)
      then show "reads (unpack_enum env fuel) (enum_bytes sub_ws) (Some sub_ws)"
        using sub_enum_less[OF w False] Suc by simp
    qed
    have two: "\<not> (2 :: 32 word) \<noteq> 2" by simp
    have small: "\<not> unat (of_nat (length ws) + 1 :: 32 word) > MAX_DESCR_SIZE"
      using n ok(1) by (simp add: MAX_DESCR_SIZE_def)
    have bytes: "enum_bytes ws = be32 1 @ be32 2 @ be32 (of_nat (length ws)) @ concat (map what_bytes ws)"
      using False by (simp add: enum_bytes_def whats_bytes_def)
    show ?thesis unfolding unpack_enum.simps bytes
      by (rule reads_then[OF reads_int], unfold if_not_P[OF one_neq_zero], rule reads_then[OF reads_int],
          unfold if_not_P[OF two], rule reads_then[OF reads_int], unfold if_not_P[OF small] if_not_P[OF nz] len,
          rule reads_need[OF Suc.prems(1)], rule reads_or_wild[OF fields])
  qed
qed simp

section \<open>Properties\<close>

lemma int_then: "unpackint p = Some (PACK_SUCCESS, i, p') \<Longrightarrow> unpack_then unpackint k p = k i p'"
  by (simp add: unpack_then_def)

text \<open>
  C20. An enumeration comes back. An enumeration of fields with enumerations for their sub-lists to any
  depth, packed into a buffer, is unpacked from its bytes to the last one as it was.
\<close>

theorem packed_enumeration_comes_back:
  assumes "has_memory env" "enum_ok ws" "n \<le> pack_limit" "8 + length (enum_bytes ws) < pack_limit"
  shows "\<exists>pb pb' b rb rb'. init_packbuffer env (Some p0) n False = Some (PACK_SUCCESS, Some pb) \<and>
    cull_pack_enum env (Some ws) pb = Some (PACK_SUCCESS, pb') \<and> head_ptr pb' = Some b \<and>
    init_packbuffer_from_buffer (Some q0) (Some (take (bytes_used pb') b)) (bytes_used pb') =
      Some (PACK_SUCCESS, Some rb) \<and>
    cull_unpack_enum env rb = Some (PACK_SUCCESS, Some ws, rb') \<and> pb_unused rb' = 0"
proof (rule whole_buffer[OF assms(1,3) packs_enum[OF assms(1,2)] assms(4)])
  fix rb assume u: "unread rb (enum_bytes ws)" and left: "bytes_left rb = length (enum_bytes ws)"
  have "length (enum_bytes ws) < Suc (bytes_left rb)" using left by simp
  from reads_enum[OF assms(1,2) this] u
  show "\<exists>rb'. cull_unpack_enum env rb = Some (PACK_SUCCESS, Some ws, rb') \<and> unread rb' []"
    unfolding reads_def cull_unpack_enum_def by (metis append.right_neutral)
qed

abbreviation (input) example_enum :: "lEnumeration list" where
  "example_enum \<equiv> [What 0 3 1 None, What 1 9 2 (Some [What 0 8 5 None])]"

theorem packed_enumeration_comes_back_witness:
  "\<exists>pb pb' b rb rb'. init_packbuffer plenty (Some (empty_buffer 0)) 0 False = Some (PACK_SUCCESS, Some pb) \<and>
    cull_pack_enum plenty (Some example_enum) pb = Some (PACK_SUCCESS, pb') \<and> head_ptr pb' = Some b \<and>
    init_packbuffer_from_buffer (Some (empty_buffer 0)) (Some (take (bytes_used pb') b)) (bytes_used pb') =
      Some (PACK_SUCCESS, Some rb) \<and>
    cull_unpack_enum plenty rb = Some (PACK_SUCCESS, Some example_enum, rb') \<and> pb_unused rb' = 0"
  by (rule packed_enumeration_comes_back)
    (simp_all add: has_memory_def pack_limit_def enum_ok_def whats_ok_def what_kind_def WHAT_ALL_def WHAT_NONE_def
      MAX_DESCR_SIZE_def example_types NoName_def enum_bytes_def whats_bytes_def)

text \<open>
  Broken enumerations are not refused. A message that ends within the fields makes the program free
  an enumeration without its end mark, and the greatest number of fields passes the test of the
  number, which wraps around: both lead outside the memory. (A descriptor of that size is refused.)
\<close>

theorem broken_enumerations_accepted:
  assumes "has_memory env" "unread pb (be32 1 @ be32 2 @ be32 1)" "unread pb1 (be32 1 @ be32 2 @ be32 (- 1) @ rest)"
    and "unread pb2 (be32 (- 1) @ rest)"
  shows "cull_unpack_enum env pb = None \<and> cull_unpack_enum env pb1 = None \<and>
    (\<exists>pb'. cull_unpack_descr env ns pb2 = Some (PACK_ENOMEM, None, pb'))"
proof (intro conjI)
  have need: "need env m r u = u" for m r and u :: "lEnumeration list option unpacker"
    using assms(1) by (simp add: need_def has_memory_def)
  have one: "(1 :: 32 word) \<noteq> 0" "(2 :: 32 word) = 2" by simp_all
  obtain a b c where cut: "unpackint pb = Some (PACK_SUCCESS, 1, a)" "unpackint a = Some (PACK_SUCCESS, 2, b)"
      "unpackint b = Some (PACK_SUCCESS, 1, c)" "unread c []"
    using assms(2) readsD[OF reads_int] by (metis append.right_neutral)
  have fail: "unpackint c = Some (PACK_FORMAT, 0, c)" using int_too_short[OF cut(4)] by simp
  have two: "unat (1 + 1 :: 32 word) \<le> MAX_DESCR_SIZE" "(1 + 1 :: 32 word) \<noteq> 0" by (simp_all add: MAX_DESCR_SIZE_def)
  show "cull_unpack_enum env pb = None"
    using two by (simp add: cull_unpack_enum_def int_then[OF cut(1)] int_then[OF cut(2)] int_then[OF cut(3)] need
        or_wild_def unpack_then_def[of unpackint _ c] fail)
  obtain a1 b1 c1 where big: "unpackint pb1 = Some (PACK_SUCCESS, 1, a1)" "unpackint a1 = Some (PACK_SUCCESS, 2, b1)"
      "unpackint b1 = Some (PACK_SUCCESS, - 1, c1)"
    using assms(3) readsD[OF reads_int] by metis
  show "cull_unpack_enum env pb1 = None"
    by (simp add: cull_unpack_enum_def int_then[OF big(1)] int_then[OF big(2)] int_then[OF big(3)] need)
  obtain c2 where "unpackint pb2 = Some (PACK_SUCCESS, - 1, c2)"
    using assms(4) readsD[OF reads_int] by metis
  moreover have "unat (- 1 :: 32 word) > MAX_DESCR_SIZE - 1"
    by (simp add: MAX_DESCR_SIZE_def unsigned_minus_1_eq_mask mask_eq_exp_minus_1)
  ultimately show "\<exists>pb'. cull_unpack_descr env ns pb2 = Some (PACK_ENOMEM, None, pb')"
    by (simp add: cull_unpack_descr_def int_then unpack_ret_def)
qed

theorem broken_enumerations_accepted_witness:
  "cull_unpack_enum plenty (at_start (be32 1 @ be32 2 @ be32 1)) = None \<and>
   cull_unpack_enum plenty (at_start (be32 1 @ be32 2 @ be32 (- 1))) = None \<and>
   (\<exists>pb'. cull_unpack_descr plenty None (at_start (be32 (- 1))) = Some (PACK_ENOMEM, None, pb'))"
  using broken_enumerations_accepted[of plenty "at_start (be32 1 @ be32 2 @ be32 1)"
      "at_start (be32 1 @ be32 2 @ be32 (- 1))" "[]" "at_start (be32 (- 1))" None]
  by (simp add: has_memory_def unread_def)

section \<open>Merging\<close>

text \<open>A field is known by its type, name and position.\<close>

definition field_key :: "lEnumeration \<Rightarrow> 32 word \<times> 32 word \<times> 32 word" where
  "field_key w = (w_mt w, w_nm w, w_pos w)"

lemma same_field_key: "same_field v w \<longleftrightarrow> field_key v = field_key w"
  by (simp add: same_field_def field_key_def)

lemma merge_loop_fields:
  "\<exists>new. merge_loop table None ws = Some (table @ new) \<and> list_all (\<lambda>w. w_ep w = None) new \<and>
    set (map field_key (table @ new)) = set (map field_key table) \<union> set (map field_key ws) \<and>
    (distinct (map field_key table) \<longrightarrow> distinct (map field_key (table @ new)))"
proof (induction ws arbitrary: table)
  case (Cons w ws)
  show ?case
  proof (cases "list_ex (\<lambda>v. same_field v w) table")
    case True
    then obtain v where "v \<in> set table" "field_key v = field_key w"
      by (auto simp: list_ex_iff same_field_key)
    then have "field_key w \<in> set (map field_key table)" by (metis image_eqI set_map)
    then show ?thesis using Cons.IH[of table] True by auto
  next
    case False
    let ?w = "What (w_pos w) (w_mt w) (w_nm w) None"
    have key: "field_key ?w = field_key w" by (simp add: field_key_def)
    have "field_key w \<notin> set (map field_key table)" using False by (auto simp: list_ex_iff same_field_key)
    moreover from Cons.IH[of "table @ [?w]"] obtain new where
      "merge_loop (table @ [?w]) None ws = Some (table @ ?w # new)" "list_all (\<lambda>w. w_ep w = None) new"
      "set (map field_key (table @ ?w # new)) = set (map field_key (table @ [?w])) \<union> set (map field_key ws)"
      "distinct (map field_key (table @ [?w])) \<longrightarrow> distinct (map field_key (table @ ?w # new))"
      by auto
    ultimately show ?thesis using False key by (intro exI[of _ "?w # new"]) auto
  qed
qed simp

text \<open>
  Merging enumerations. The result has the fields of both, none twice. But the first enumeration
  goes in as it is, and what is added of the second has lost the enumeration of its sub-list: then all
  fields of the sub-list are asked for; and where both have the field, only the fields of the sub-list
  that the first asks for are.
\<close>

theorem merge_keeps_fields:
  assumes "has_memory env" "enum_ok w1" "enum_ok w2" "length w1 + length w2 < 1000"
    and "w1 \<noteq> []" "what_kind w1 \<noteq> WHAT_ALL" "what_kind w1 \<noteq> WHAT_NONE" "what_kind w2 \<noteq> WHAT_ALL" "what_kind w2 \<noteq> WHAT_NONE"
    and "distinct (map field_key w1)"
  shows "\<exists>new. lMergeWhat env (Some w1) w2 = Some (0, Some (w1 @ new)) \<and>
    set (map field_key (w1 @ new)) = set (map field_key w1) \<union> set (map field_key w2) \<and>
    distinct (map field_key (w1 @ new)) \<and> list_all (\<lambda>w. w_ep w = None) new"
proof -
  have fields: "what_fields w1 = w1" "what_fields w2 = w2"
    using assms by (auto simp: what_fields_def enum_ok_def whats_ok_def list_all_iff)
  obtain new where new: "merge_loop w1 None w2 = Some (w1 @ new)" "list_all (\<lambda>w. w_ep w = None) new"
    "set (map field_key (w1 @ new)) = set (map field_key w1) \<union> set (map field_key w2)"
    "distinct (map field_key (w1 @ new))"
    using merge_loop_fields[of w1 w2] assms(10) by blast
  have "length (w1 @ new) = card (set (map field_key (w1 @ new)))" using new(4) by (metis distinct_card length_map)
  also have "\<dots> \<le> length w1 + length w2" unfolding new(3)
    by (rule order_trans[OF card_Un_le]) (metis add_mono card_length length_map)
  finally have "length (w1 @ new) < 1000" using assms(4) by simp
  then show ?thesis using new assms(1,6-9) by (simp add: lMergeWhat_def fields has_memory_def)
qed

theorem merge_keeps_fields_witness:
  "\<exists>new. lMergeWhat plenty (Some [What 0 3 1 None]) example_enum = Some (0, Some (What 0 3 1 None # new)) \<and>
    list_all (\<lambda>w. w_ep w = None) new"
  using merge_keeps_fields[of plenty "[What 0 3 1 None]" example_enum]
  by (auto simp: has_memory_def enum_ok_def whats_ok_def what_kind_def WHAT_ALL_def WHAT_NONE_def
      MAX_DESCR_SIZE_def example_types NoName_def)

end
