(* ===== verification/Cull_Db.thy ===== *)
theory Cull_Db
  imports Cull_Where Cull_What
begin

text \<open>
  Selecting rows and columns of a list straight into a packing buffer, as the master answers the
  requests of clients: \<^verbatim>\<open>source/libs/cull/cull_db.c\<close> with the branches of \<^verbatim>\<open>cull_list.c\<close> for a
  buffer. The results of packing the elements are not looked at.
\<close>

definition cull_pack_list_summary ::
  "mem_env \<Rightarrow> 'd lList option \<Rightarrow> lEnumeration list option \<Rightarrow> byte list option \<Rightarrow>
    sge_pack_buffer \<Rightarrow> (pack_code \<times> nat \<times> nat \<times> sge_pack_buffer) option" where
  "cull_pack_list_summary env lp what name pb =
     do { (ret, pb1) \<leftarrow> packint env pb (of_bool (lp \<noteq> None));
          if ret \<noteq> PACK_SUCCESS then Some (ret, 0, 0, pb1)
          else (case lp of
                  None \<Rightarrow> Some (PACK_SUCCESS, 0, 0, pb1)
                | Some l \<Rightarrow>
                    do { (ret, pb2) \<leftarrow> pack_list_head env (length (l_elems l))
                           (case name of None \<Rightarrow> l_name l | Some s \<Rightarrow> Some s) (l_changed l) (l_descr l) what pb1;
                         Some (ret, cur_ptr pb1, bytes_used pb1, pb2) }) }"

definition lCopyElemPartialPack_pb ::
  "mem_env \<Rightarrow> ('d \<Rightarrow> byte list option) \<Rightarrow> 'd lListElem \<Rightarrow> lEnumeration list \<Rightarrow> sge_pack_buffer \<Rightarrow> sge_pack_buffer option" where
  "lCopyElemPartialPack_pb env xdr src enp pb =
     (if what_kind enp = WHAT_ALL then map_option snd (cull_pack_elem env xdr src pb)
      else if what_kind enp = WHAT_NONE then Some pb
      else map_option snd (cull_pack_elem_partial env xdr src (Some enp) 0 pb))"

text \<open>The number of elements packed is counted.\<close>

definition lSelectElemDPack_pb ::
  "compare_env \<Rightarrow> mem_env \<Rightarrow> ('d::linorder \<Rightarrow> byte list option) \<Rightarrow> 'd lCondition option \<Rightarrow> lEnumeration list \<Rightarrow>
    'd lListElem \<Rightarrow> u32 \<times> sge_pack_buffer \<Rightarrow> (u32 \<times> sge_pack_buffer) option" where
  "lSelectElemDPack_pb ce env xdr cp enp slp st =
     do { r \<leftarrow> lCompare ce (Some slp) cp;
          if r = 0 then Some st
          else do { pb1 \<leftarrow> lCopyElemPartialPack_pb env xdr slp enp (snd st);
                    Some (u32_add (fst st) 1, pb1) } }"

fun lSelectDPack_pb ::
  "compare_env \<Rightarrow> mem_env \<Rightarrow> ('d::linorder \<Rightarrow> byte list option) \<Rightarrow> 'd lCondition option \<Rightarrow> lEnumeration list \<Rightarrow>
    'd lListElem list \<Rightarrow> u32 \<times> sge_pack_buffer \<Rightarrow> (u32 \<times> sge_pack_buffer) option" where
  "lSelectDPack_pb ce env xdr cp enp [] st = Some st"
| "lSelectDPack_pb ce env xdr cp enp (ep # eps) st =
     do { st1 \<leftarrow> lSelectElemDPack_pb ce env xdr cp enp ep st; lSelectDPack_pb ce env xdr cp enp eps st1 }"

text \<open>
  The number of elements is packed before they are chosen, and corrected afterwards. Without an
  enumeration the condition plays no part.
\<close>

definition lSelectHashPack_pb ::
  "compare_env \<Rightarrow> mem_env \<Rightarrow> ('d::linorder \<Rightarrow> byte list option) \<Rightarrow> byte list option \<Rightarrow> 'd lList option \<Rightarrow>
    'd lCondition option \<Rightarrow> lEnumeration list option \<Rightarrow> sge_pack_buffer \<Rightarrow> sge_pack_buffer option" where
  "lSelectHashPack_pb ce env xdr name slp cp enp pb =
     (case enp of
        None \<Rightarrow> map_option snd (cull_pack_list env xdr slp pb)
      | Some ws \<Rightarrow>
          (let pack_name = (case name of Some s \<Rightarrow> Some s | None \<Rightarrow> (case slp of Some l \<Rightarrow> l_name l | None \<Rightarrow> Some [])) in
           do { (local_ret, offset, used, pb1) \<leftarrow> cull_pack_list_summary env slp (Some ws) pack_name pb;
                if local_ret \<noteq> PACK_SUCCESS then Some pb1
                else (case slp of
                        None \<Rightarrow> Some pb1
                      | Some l \<Rightarrow>
                          do { (n, pb2) \<leftarrow> lSelectDPack_pb ce env xdr cp ws (l_elems l) (0, pb1);
                               (ret, pb3) \<leftarrow> repackint (pb2\<lparr>cur_ptr := offset, bytes_used := used\<rparr>) (of_nat n);
                               if ret \<noteq> PACK_SUCCESS then Some pb3
                               else Some (pb3\<lparr>cur_ptr := cur_ptr pb2, bytes_used := bytes_used pb2\<rparr>) }) }))"

section \<open>Copying lists\<close>

text \<open>
  Copying a value into a field of a type; \<open>Inl\<close> is the error return. A string for which there is no
  memory is lost.
\<close>

definition copy_string :: "mem_env \<Rightarrow> byte list option \<Rightarrow> byte list option" where
  "copy_string env s = (case s of None \<Rightarrow> None | Some cs \<Rightarrow> if fst env (length cs + 1) then Some cs else None)"

definition copy_if :: "lMultiT \<Rightarrow> 'd lMultiType option \<Rightarrow> lMultiT \<Rightarrow> (unit + 'd lMultiType) option" where
  "copy_if t v t' = (if t' = t then map_option Inr v else if t' = lEndT \<or> t' = no_type then Some (Inl ()) else None)"

type_synonym 'd value_copier = "lMultiT \<Rightarrow> (unit + 'd lMultiType) option"

text \<open>The loop over the fields stops at the first error.\<close>

fun copy_fields :: "('d value_copier \<times> lMultiT) list \<Rightarrow> (unit + 'd lMultiType list) option" where
  "copy_fields [] = Some (Inr [])"
| "copy_fields ((p, t) # ps) =
     do { r \<leftarrow> p t;
          case r of Inl _ \<Rightarrow> Some (Inl ())
          | Inr v \<Rightarrow> do { rest \<leftarrow> copy_fields ps;
                         Some (case rest of Inl _ \<Rightarrow> Inl () | Inr vs \<Rightarrow> Inr (v # vs)) } }"

definition lCopyElemHash_with ::
  "mem_env \<Rightarrow> lDescr list \<Rightarrow> 'd::zero value_copier list \<Rightarrow> bitfield \<Rightarrow> 'd lListElem option option" where
  "lCopyElemHash_with env descr cont changed =
     (case (lCreateElem env descr :: 'd lListElem option) of
        None \<Rightarrow> Some None
      | Some new \<Rightarrow>
          if length cont < lCountDescr descr then None
          else do { r \<leftarrow> copy_fields (zip cont (map (d_type) (el_descr new)));
                    case r of Inl _ \<Rightarrow> Some None
                    | Inr vs \<Rightarrow>
                        (case sge_bitfield_copy (Some changed) (Some (el_changed new)) of
                           (True, Some ch) \<Rightarrow> Some (Some (Elem FREE_ELEM (el_descr new) vs ch))
                         | _ \<Rightarrow> Some None) })"

text \<open>The elements are copied and appended one by one; an element that cannot be copied ends it.\<close>

fun copy_elems :: "'d lListElem option option list \<Rightarrow> 'd lList \<Rightarrow> 'd lList option option" where
  "copy_elems [] dst = Some (Some dst)"
| "copy_elems (c # cs) dst =
     do { e \<leftarrow> c;
          case e of None \<Rightarrow> Some None
          | Some ep \<Rightarrow> do { dst1 \<leftarrow> lAppendElem dst ep; copy_elems cs dst1 } }"

primrec copy_value :: "mem_env \<Rightarrow> 'd::zero lMultiType \<Rightarrow> 'd value_copier"
  and lCopyElem :: "mem_env \<Rightarrow> 'd::zero lListElem \<Rightarrow> 'd lListElem option option"
  and lCopyList_src :: "mem_env \<Rightarrow> 'd::zero lList \<Rightarrow> byte list option \<Rightarrow> 'd lList option option" where
  "copy_value env (V_Ulong u) = copy_if lUlongT (Some (V_Ulong u))"
| "copy_value env (V_Ulong64 u) = copy_if lUlong64T (Some (V_Ulong64 u))"
| "copy_value env (V_String s) = copy_if lStringT (Some (V_String (copy_string env s)))"
| "copy_value env (V_Host s) = copy_if lHostT (Some (V_Host (copy_string env s)))"
| "copy_value env (V_Double d) = copy_if lDoubleT (Some (V_Double d))"
| "copy_value env (V_Int i) = copy_if lIntT (Some (V_Int i))"
| "copy_value env (V_Float d) = copy_if lFloatT (Some (V_Float d))"
| "copy_value env (V_Long l) = copy_if lLongT (Some (V_Long l))"
| "copy_value env (V_Char c) = copy_if lCharT (Some (V_Char c))"
| "copy_value env (V_Bool b) = copy_if lBoolT (Some (V_Bool b))"
| "copy_value env (V_Ref r) = copy_if lRefT (Some (V_Ref r))"
| "copy_value env (V_List lp) = copy_if lListT
     (case map_option (lCopyList_src env) lp of
        None \<Rightarrow> Some (V_List None)
      | Some f \<Rightarrow> map_option V_List (f (l_name (the lp))))"
| "copy_value env (V_Object obj) = copy_if lObjectT
     (case map_option (lCopyElem env) obj of
        None \<Rightarrow> Some (V_Object None)
      | Some r \<Rightarrow> do { e \<leftarrow> r;
          case e of None \<Rightarrow> None
          | Some (Elem _ d c ch) \<Rightarrow> Some (V_Object (Some (Elem OBJECT_ELEM d c ch))) })"
| "lCopyElem env (Elem status descr cont changed) =
     lCopyElemHash_with env descr (map (copy_value env) cont) changed"
| "lCopyList_src env (CList listname ch descr elems) =
     (\<lambda>name.
        case lCreateListHash env
          (case name of Some s \<Rightarrow> Some s | None \<Rightarrow> (case listname of Some s \<Rightarrow> Some s | None \<Rightarrow> Some no_list_name)) descr of
          None \<Rightarrow> Some None
        | Some dst \<Rightarrow> copy_elems (map (lCopyElem env) elems) dst)"

text \<open>The outer \<open>None\<close> is an access outside of memory, the inner one the null pointer returned.\<close>

definition lCopyList :: "mem_env \<Rightarrow> byte list option \<Rightarrow> 'd::zero lList option \<Rightarrow> 'd lList option option" where
  "lCopyList env name src = (case src of None \<Rightarrow> Some None | Some l \<Rightarrow> lCopyList_src env l name)"

end
