(* ===== verification/Cull_Db_Facts.thy ===== *)
theory Cull_Db_Facts
  imports Cull_Db Cull_Where_Facts Cull_What_Facts
begin

text \<open>
  What a selection packs: the bytes of the list that has only the rows that suffice and the columns
  enumerated. The predicate \<open>fits\<close> says that an enumeration is one for a list.
\<close>

section \<open>The columns chosen\<close>

definition what_descr :: "lEnumeration list \<Rightarrow> lDescr list" where
  "what_descr ws = map (\<lambda>w. \<lparr>d_nm = w_nm w, d_mt = w_mt w\<rparr>) ws"

abbreviation pos_of :: "lEnumeration \<Rightarrow> nat" where
  "pos_of w \<equiv> nat (sint (w_pos w))"

text \<open>The elements of a field that is an object are not reduced.\<close>

primrec pick_value :: "'d lMultiType \<Rightarrow> lEnumeration list option \<Rightarrow> 'd lMultiType"
  and pick_elem :: "'d lListElem \<Rightarrow> lEnumeration list option \<Rightarrow> 'd lListElem"
  and pick_list :: "'d lList \<Rightarrow> lEnumeration list option \<Rightarrow> 'd lList" where
  "pick_value (V_List lp) = (\<lambda>what. V_List (map_option (\<lambda>p. p what) (map_option pick_list lp)))"
| "pick_value (V_Object obj) = (\<lambda>_. V_Object obj)"
| "pick_value (V_Bool b) = (\<lambda>_. V_Bool b)"
| "pick_value (V_Ulong u) = (\<lambda>_. V_Ulong u)"
| "pick_value (V_Ulong64 u) = (\<lambda>_. V_Ulong64 u)"
| "pick_value (V_String s) = (\<lambda>_. V_String s)"
| "pick_value (V_Host s) = (\<lambda>_. V_Host s)"
| "pick_value (V_Double d) = (\<lambda>_. V_Double d)"
| "pick_value (V_Float d) = (\<lambda>_. V_Float d)"
| "pick_value (V_Long l) = (\<lambda>_. V_Long l)"
| "pick_value (V_Char c) = (\<lambda>_. V_Char c)"
| "pick_value (V_Int i) = (\<lambda>_. V_Int i)"
| "pick_value (V_Ref r) = (\<lambda>_. V_Ref r)"
| "pick_elem (Elem s d c ch) = (\<lambda>what. case what of
     None \<Rightarrow> Elem s d c ch
   | Some ws \<Rightarrow> Elem s (what_descr ws) (map (\<lambda>w. (map pick_value c ! pos_of w) (w_ep w)) ws) ch)"
| "pick_list (CList n ch d es) = (\<lambda>what. case what of
     None \<Rightarrow> CList n ch d es
   | Some ws \<Rightarrow> CList n ch (what_descr ws) (map (\<lambda>p. p what) (map pick_elem es)))"

text \<open>The fields of the enumeration are fields of the descriptor, those of lists in it too.\<close>

definition what_fits :: "lEnumeration list \<Rightarrow> lDescr list \<Rightarrow> bool" where
  "what_fits ws d \<longleftrightarrow> length ws < MAX_DESCR_SIZE \<and> what_kind ws \<noteq> WHAT_ALL \<and> what_kind ws \<noteq> WHAT_NONE \<and>
     list_all (\<lambda>w. 0 \<le> sint (w_pos w) \<and> pos_of w < length d \<and> w_nm w = d_nm (d ! pos_of w) \<and>
       mt_get_type (w_mt w) = d_type (d ! pos_of w)) ws"

primrec fits_value :: "'d lMultiType \<Rightarrow> lEnumeration list option \<Rightarrow> bool"
  and fits_elem :: "'d lListElem \<Rightarrow> lEnumeration list option \<Rightarrow> bool"
  and fits_list :: "'d lList \<Rightarrow> lEnumeration list option \<Rightarrow> bool" where
  "fits_value (V_List lp) = (\<lambda>what. pred_option (\<lambda>p. p what) (map_option fits_list lp))"
| "fits_value (V_Object obj) = (\<lambda>_. True)"
| "fits_value (V_Bool b) = (\<lambda>_. True)"
| "fits_value (V_Ulong u) = (\<lambda>_. True)"
| "fits_value (V_Ulong64 u) = (\<lambda>_. True)"
| "fits_value (V_String s) = (\<lambda>_. True)"
| "fits_value (V_Host s) = (\<lambda>_. True)"
| "fits_value (V_Double d) = (\<lambda>_. True)"
| "fits_value (V_Float d) = (\<lambda>_. True)"
| "fits_value (V_Long l) = (\<lambda>_. True)"
| "fits_value (V_Char c) = (\<lambda>_. True)"
| "fits_value (V_Int i) = (\<lambda>_. True)"
| "fits_value (V_Ref r) = (\<lambda>_. True)"
| "fits_elem (Elem s d c ch) = (\<lambda>what. case what of
     None \<Rightarrow> True
   | Some ws \<Rightarrow> what_fits ws d \<and> list_all (\<lambda>w. (map fits_value c ! pos_of w) (w_ep w)) ws)"
| "fits_list (CList n ch d es) = (\<lambda>what. case what of
     None \<Rightarrow> True
   | Some ws \<Rightarrow> what_fits ws d \<and> list_all (\<lambda>p. p what) (map fits_elem es))"

lemma pick_nothing [simp]: "pick_elem e None = e" "pick_list l None = l"
  by (cases e, simp, cases l, simp)

lemma what_fits_ok:
  assumes "what_fits ws d" "descr_ok d"
  shows "descr_ok (what_descr ws)" "list_all (\<lambda>w. w_nm w \<noteq> NoName) ws"
  using assms by (auto simp: what_fits_def descr_ok_def what_descr_def list_all_iff list_all_length)

lemma what_fits_count:
  assumes "what_fits ws d" "descr_ok d"
  shows "lCountWhat ws d = length ws" "lCountDescr (what_descr ws) = length ws"
    "takeWhile (\<lambda>w. w_nm w \<noteq> NoName) ws = ws"
proof -
  show t: "takeWhile (\<lambda>w. w_nm w \<noteq> NoName) ws = ws"
    using what_fits_ok(2)[OF assms] by (auto simp: list_all_iff)
  show "lCountWhat ws d = length ws" unfolding lCountWhat_def t using assms(1) by (simp add: what_fits_def)
  show "lCountDescr (what_descr ws) = length ws"
    using descr_okD(2)[OF what_fits_ok(1)[OF assms]] by (simp add: what_descr_def)
qed

lemma enum_as_descr:
  assumes "what_fits ws d" "descr_ok d"
  shows "cull_pack_enum_as_descr env ws d = cull_pack_descr env (what_descr ws)"
proof -
  have k: "what_kind ws \<noteq> WHAT_ALL" "what_kind ws \<noteq> WHAT_NONE" using assms(1) by (auto simp: what_fits_def)
  show ?thesis
    unfolding cull_pack_enum_as_descr_def cull_pack_descr_def what_fits_count[OF assms]
      if_not_P[OF k(1)] if_not_P[OF k(2)] descr_okD(4)[OF what_fits_ok(1)[OF assms]]
    by (simp add: what_descr_def pack_each_map)
qed

lemma pack_each_cong: "(\<And>x. x \<in> set xs \<Longrightarrow> p x = q x) \<Longrightarrow> pack_each p xs = pack_each q xs"
  by (induction xs) simp_all

lemma pick_cont:
  assumes "what_fits ws d" "descr_ok d" "length cp = length d" "length cq = length ws"
    and "\<And>i. i < length ws \<Longrightarrow> (cp ! pos_of (ws ! i)) (w_ep (ws ! i)) (mt_get_type (w_mt (ws ! i))) =
      (cq ! i) None (mt_get_type (w_mt (ws ! i)))"
  shows "cull_pack_cont flags cp d (Some ws) = cull_pack_cont flags cq (what_descr ws) None"
proof -
  have "pack_each (\<lambda>w. if selected flags (w_mt w) then packer_at cp (w_pos w) (w_ep w) (mt_get_type (w_mt w))
        else pack_ret PACK_SUCCESS) (map (\<lambda>i. ws ! i) [0..<length ws]) =
      pack_each (\<lambda>i. if selected flags (d_mt (what_descr ws ! i))
        then (if i < length cq then cq ! i else pack_no_value) None (d_type (what_descr ws ! i))
        else pack_ret PACK_SUCCESS) [0..<length ws]"
    unfolding pack_each_map
  proof (rule pack_each_cong)
    fix i assume "i \<in> set [0..<length ws]"
    then have i: "i < length ws" by simp
    then have w: "0 \<le> sint (w_pos (ws ! i))" "pos_of (ws ! i) < length d"
      using assms(1) by (auto simp: what_fits_def list_all_length)
    have "packer_at cp (w_pos (ws ! i)) = cp ! pos_of (ws ! i)"
      using w assms(3) by (simp add: packer_at_def nat_less_iff)
    then show "(if selected flags (w_mt (ws ! i)) then packer_at cp (w_pos (ws ! i)) (w_ep (ws ! i)) (mt_get_type (w_mt (ws ! i)))
        else pack_ret PACK_SUCCESS) =
      (if selected flags (d_mt (what_descr ws ! i))
        then (if i < length cq then cq ! i else pack_no_value) None (d_type (what_descr ws ! i))
        else pack_ret PACK_SUCCESS)"
      using assms(4,5) i by (simp add: what_descr_def)
  qed
  then show ?thesis
    unfolding cull_pack_cont_def option.case what_fits_count[OF assms(1,2)] map_nth .
qed

lemma fits_someD:
  assumes "fits_elem (Elem s d c ch) (Some ws)" "cont_ok d ps" "length c = length ps" "i < length ws"
  shows "pos_of (ws ! i) < length c" "fits_value (c ! pos_of (ws ! i)) (w_ep (ws ! i))"
    "mt_get_type (w_mt (ws ! i)) = d_type (d ! pos_of (ws ! i))"
proof -
  have w: "what_fits ws d" "list_all (\<lambda>w. (map fits_value c ! pos_of w) (w_ep w)) ws"
    using assms(1) by simp_all
  then have "pos_of (ws ! i) < length d \<and> mt_get_type (w_mt (ws ! i)) = d_type (d ! pos_of (ws ! i))"
    using assms(4) by (auto simp: what_fits_def list_all_length)
  then show p: "pos_of (ws ! i) < length c" "mt_get_type (w_mt (ws ! i)) = d_type (d ! pos_of (ws ! i))"
    using cont_okD[OF assms(2)] assms(3) by auto
  show "fits_value (c ! pos_of (ws ! i)) (w_ep (ws ! i))"
    using w(2)[unfolded list_all_length, rule_format, OF assms(4)] unfolding nth_map[OF p(1)] .
qed

lemma pick_ok:
  fixes v :: "'d::zero lMultiType" and e :: "'d lListElem" and l :: "'d lList"
  shows "fits_value v what \<Longrightarrow> value_ok v t \<Longrightarrow> value_ok (pick_value v what) t"
    and "fits_elem e (Some ws) \<Longrightarrow> elem_ok e st d \<Longrightarrow> elem_ok (pick_elem e (Some ws)) st (what_descr ws)"
    and "fits_list l what \<Longrightarrow> list_ok l \<Longrightarrow> list_ok (pick_list l what)"
proof (induction v and e and l arbitrary: what t and ws st d and what)
  case (V_List lp)
  then show ?case by (cases lp) auto
next
  case (Elem s dd c ch)
  then have ok: "cont_ok d (map value_ok c)" "s = st" "dd = d" by auto
  have len: "length c = length (map value_ok c)" by simp
  have "value_ok (pick_value (c ! pos_of (ws ! i)) (w_ep (ws ! i))) (mt_get_type (w_mt (ws ! i)))"
    if i: "i < length ws" for i
  proof -
    note f = fits_someD[OF Elem.prems(1)[unfolded ok] ok(1) len i]
    have "value_ok (c ! pos_of (ws ! i)) (d_type (d ! pos_of (ws ! i)))"
      using ok(1) f(1) by (auto simp: cont_ok_def list_all2_conv_all_nth)
    from Elem.IH[OF nth_mem[OF f(1)] f(2) this] show ?thesis unfolding f(3) .
  qed
  moreover have "pos_of (ws ! i) < length c" if "i < length ws" for i
    by (rule fits_someD(1)[OF Elem.prems(1)[unfolded ok] ok(1) len that])
  ultimately show ?case using ok by (simp add: cont_ok_def list_all2_conv_all_nth what_descr_def)
next
  case (CList n ch d es)
  show ?case
  proof (cases what)
    case (Some ws)
    then have w: "what_fits ws d" "\<forall>e \<in> set es. fits_elem e (Some ws)"
      using CList.prems(1) by (auto simp: list_all_iff)
    have ok: "descr_ok d" "\<forall>e \<in> set es. elem_ok e BOUND_ELEM d" using CList.prems(2) by (auto simp: list_all_iff)
    then have "\<forall>e \<in> set es. elem_ok (pick_elem e (Some ws)) BOUND_ELEM (what_descr ws)"
      using CList.IH w by blast
    then show ?thesis using what_fits_ok[OF w(1) ok(1)] CList.prems(2) Some by (auto simp: list_all_iff)
  qed (use CList.prems in simp)
qed auto

text \<open>Packing with an enumeration is packing the part that it chooses.\<close>

lemma pick_packs:
  fixes v :: "'d::zero lMultiType" and e :: "'d lListElem" and l :: "'d lList"
  shows "fits_value v what \<Longrightarrow> value_ok v t \<Longrightarrow>
      cull_pack_switch env x flags v what t = cull_pack_switch env x flags (pick_value v what) None t"
    and "fits_elem e (Some ws) \<Longrightarrow> elem_ok e st d \<Longrightarrow> descr_ok d \<Longrightarrow>
      pack_lListElem env x flags e (Some ws) = pack_lListElem env x flags (pick_elem e (Some ws)) None"
    and "fits_list l what \<Longrightarrow> list_ok l \<Longrightarrow> pack_lList env x flags l what = pack_lList env x flags (pick_list l what) None"
proof (induction v and e and l arbitrary: what t and ws st d and what)
  case (V_List lp)
  then show ?case by (cases lp) (auto simp: pack_if_def)
next
  case (Elem s dd c ch)
  then have ok: "cont_ok d (map value_ok c)" "dd = d" "descr_ok d" "what_fits ws d" by auto
  have len: "length c = length (map value_ok c)" by simp
  let ?cq = "map (\<lambda>w. (map pick_value c ! pos_of w) (w_ep w)) ws"
  have "cull_pack_cont flags (map (cull_pack_switch env x flags) c) d (Some ws) =
      cull_pack_cont flags (map (cull_pack_switch env x flags) ?cq) (what_descr ws) None"
  proof (rule pick_cont[OF ok(4,3)])
    fix i assume i: "i < length ws"
    note f = fits_someD[OF Elem.prems(1)[unfolded ok] ok(1) len i]
    have "value_ok (c ! pos_of (ws ! i)) (d_type (d ! pos_of (ws ! i)))"
      using ok(1) f(1) by (auto simp: cont_ok_def list_all2_conv_all_nth)
    note eq = Elem.IH[OF nth_mem[OF f(1)] f(2) this, folded f(3)]
    show "(map (cull_pack_switch env x flags) c ! pos_of (ws ! i)) (w_ep (ws ! i)) (mt_get_type (w_mt (ws ! i))) =
        (map (cull_pack_switch env x flags) ?cq ! i) None (mt_get_type (w_mt (ws ! i)))"
      unfolding nth_map[OF f(1)] nth_map[OF i] map_map o_def using eq by (simp add: i f(1))
  qed (use cont_okD[OF ok(1)] in simp_all)
  moreover have "pack_elem_head env s d (Some ws) = pack_elem_head env s (what_descr ws) None"
    unfolding pack_elem_head_def option.case enum_as_descr[OF ok(4,3)] what_fits_count[OF ok(4,3)] ..
  ultimately show ?case unfolding ok(2) by simp
next
  case (CList n ch d es)
  show ?case
  proof (cases what)
    case (Some ws)
    then have w: "what_fits ws d" "\<forall>e \<in> set es. fits_elem e (Some ws)"
      using CList.prems(1) by (auto simp: list_all_iff)
    have ok: "descr_ok d" "\<forall>e \<in> set es. elem_ok e BOUND_ELEM d" using CList.prems(2) by (auto simp: list_all_iff)
    have "pack_each (\<lambda>p. p (Some ws)) (map (pack_lListElem env x flags) es) =
        pack_each (\<lambda>p. p None) (map (pack_lListElem env x flags) (map (\<lambda>p. p (Some ws)) (map pick_elem es)))"
      unfolding pack_each_map map_map by (rule pack_each_cong) (use CList.IH w ok in \<open>auto simp: pack_each_map\<close>)
    then show ?thesis using Some enum_as_descr[OF w(1) ok(1)] by (simp add: pack_list_head_def)
  qed simp
qed (auto simp: pack_if_def pack_no_value_def)

section \<open>The number that is corrected\<close>

lemma put_over:
  assumes w: "written pb (xs @ old @ ys)" and l: "length new = length old"
  shows "\<exists>p. put new (pb\<lparr>cur_ptr := length xs, bytes_used := u\<rparr>) = Some p \<and>
    written (p\<lparr>cur_ptr := cur_ptr pb, bytes_used := bytes_used pb\<rparr>) (xs @ new @ ys)"
proof -
  obtain b where b: "head_ptr pb = Some b" "length b = mem_size pb" "take (length (xs @ old @ ys)) b = xs @ old @ ys"
      "length (xs @ old @ ys) \<le> length b"
    using w unfolding written_def by auto
  then have eq: "b = (xs @ old @ ys) @ drop (length (xs @ old @ ys)) b" by (metis append_take_drop_id)
  obtain zs where z: "b = xs @ old @ ys @ zs" using eq by auto
  let ?b = "take (length xs) b @ new @ drop (length xs + length new) b"
  have nb: "?b = xs @ new @ ys @ zs" unfolding z using l by simp
  have "put new (pb\<lparr>cur_ptr := length xs, bytes_used := u\<rparr>) =
      Some (pb\<lparr>head_ptr := Some (xs @ new @ ys @ zs), cur_ptr := length xs + length new, bytes_used := u\<rparr>)"
    unfolding put_def using b(1,4) l nb by simp
  moreover have "written (pb\<lparr>head_ptr := Some (xs @ new @ ys @ zs)\<rparr>) (xs @ new @ ys)"
    using w b(2) l unfolding written_def z by simp
  ultimately show ?thesis by simp
qed

lemma repack_written:
  assumes "written pb (xs @ be32 i @ ys)"
  shows "\<exists>p. repackint (pb\<lparr>cur_ptr := length xs, bytes_used := u\<rparr>) n = Some (PACK_SUCCESS, p) \<and>
    written (p\<lparr>cur_ptr := cur_ptr pb, bytes_used := bytes_used pb\<rparr>) (xs @ be32 n @ ys)"
proof -
  have jc: "\<not> just_count pb" using assms by (simp add: written_def)
  have "le_bytes INTSIZE (htonl n) = be32 n" using bytes_htonl[of n] by (simp add: be32_def)
  then show ?thesis using put_over[OF assms, of "be32 n" u] jc by (auto simp: repackint_def)
qed

section \<open>Selections\<close>

definition chosen_elem :: "lEnumeration list \<Rightarrow> 'd lListElem \<Rightarrow> 'd lListElem" where
  "chosen_elem ws e = (if what_kind ws = WHAT_ALL then e else pick_elem e (Some ws))"

definition chosen_descr :: "lEnumeration list \<Rightarrow> lDescr list \<Rightarrow> lDescr list" where
  "chosen_descr ws d = (if what_kind ws = WHAT_ALL then d else what_descr ws)"

definition selected_list ::
  "compare_env \<Rightarrow> 'd::linorder lCondition option \<Rightarrow> byte list option \<Rightarrow> lEnumeration list \<Rightarrow> 'd lList \<Rightarrow> 'd lList" where
  "selected_list ce cp name ws l =
     CList (case name of None \<Rightarrow> l_name l | Some s \<Rightarrow> Some s) (l_changed l) (chosen_descr ws (l_descr l))
       (map (chosen_elem ws) (filter (suffices ce cp) (l_elems l)))"

definition selection_fits :: "lEnumeration list \<Rightarrow> 'd lList \<Rightarrow> bool" where
  "selection_fits ws l \<longleftrightarrow> what_kind ws = WHAT_ALL \<or> fits_list l (Some ws)"

text \<open>A function that has no return value, as a step that succeeds.\<close>

abbreviation done_by :: "(sge_pack_buffer \<Rightarrow> sge_pack_buffer option) \<Rightarrow> packer" where
  "done_by f \<equiv> (\<lambda>pb. map_option (Pair PACK_SUCCESS) (f pb))"

lemma packs_done:
  assumes "packs p bs" "\<And>pb. f pb = map_option snd (p pb)"
  shows "packs (done_by f) bs"
  unfolding packs_def
proof (intro allI impI)
  fix pb old assume w: "written pb old" "length old + length bs < pack_limit"
  from packsD[OF assms(1) w] obtain pb' where "p pb = Some (PACK_SUCCESS, pb')" "written pb' (old @ bs)" .
  then show "\<exists>pb'. done_by f pb = Some (PACK_SUCCESS, pb') \<and> written pb' (old @ bs)"
    using assms(2) by simp
qed

lemma chosen_list_ok:
  fixes l :: "'d::{zero, linorder} lList"
  assumes l: "list_ok l" and f: "selection_fits ws l" and n: "case name of None \<Rightarrow> True | Some s \<Rightarrow> str_ok (Some s)"
  shows "list_ok (selected_list ce cp name ws l)"
    and "e \<in> set (l_elems l) \<Longrightarrow> elem_ok (chosen_elem ws e) BOUND_ELEM (chosen_descr ws (l_descr l))"
    and "descr_ok (chosen_descr ws (l_descr l))"
proof -
  obtain nm ch d es where L: "l = CList nm ch d es" by (cases l) auto
  have ok: "descr_ok d" "str_ok nm" "length es < u32_limit" "\<forall>e \<in> set es. elem_ok e BOUND_ELEM d"
    using l by (auto simp: L list_all_iff)
  have fits: "what_fits ws d" "\<forall>e \<in> set es. fits_elem e (Some ws)" if "what_kind ws \<noteq> WHAT_ALL"
    using f that by (auto simp: L selection_fits_def list_all_iff)
  show d: "descr_ok (chosen_descr ws (l_descr l))"
    using ok(1) what_fits_ok(1)[OF fits(1) ok(1)] by (auto simp: chosen_descr_def L)
  have e: "elem_ok (chosen_elem ws e) BOUND_ELEM (chosen_descr ws d)" if "e \<in> set es" for e
    using ok(4) that pick_ok(2)[of e ws BOUND_ELEM d] fits(2) by (auto simp: chosen_elem_def chosen_descr_def)
  then show "e \<in> set (l_elems l) \<Longrightarrow> elem_ok (chosen_elem ws e) BOUND_ELEM (chosen_descr ws (l_descr l))"
    by (simp add: L)
  have "length (filter (suffices ce cp) es) < u32_limit"
    by (rule le_less_trans[OF length_filter_le ok(3)])
  then show "list_ok (selected_list ce cp name ws l)"
    using d e ok(2) n by (auto simp: selected_list_def L list_all_iff split: option.splits)
qed

lemma packs_chosen:
  fixes l :: "'d::{zero, linorder} lList"
  assumes m: "has_memory env" and x: "xdr_ok xenc xdec" and l: "list_ok l" and f: "selection_fits ws l"
    and e: "e \<in> set (l_elems l)"
  shows "packs (done_by (lCopyElemPartialPack_pb env xenc e ws)) (elem_bytes xenc 0 (chosen_elem ws e))"
proof -
  have c: "packs (pack_lListElem env xenc 0 (chosen_elem ws e) None) (elem_bytes xenc 0 (chosen_elem ws e))"
    by (rule packs_values(2)[OF m x chosen_list_ok(2)[where name = None, OF l f _ e] chosen_list_ok(3)[where name = None, OF l f]])
      simp_all
  obtain nm ch d es where L: "l = CList nm ch d es" by (cases l) auto
  have ok: "elem_ok e BOUND_ELEM d" "descr_ok d" using l e by (auto simp: L list_all_iff)
  show ?thesis
  proof (rule packs_done[OF c])
    fix pb
    show "lCopyElemPartialPack_pb env xenc e ws pb = map_option snd (pack_lListElem env xenc 0 (chosen_elem ws e) None pb)"
    proof (cases "what_kind ws = WHAT_ALL")
      case False
      then have w: "what_fits ws d" "fits_elem e (Some ws)"
        using f e by (auto simp: L selection_fits_def list_all_iff)
      then have "what_kind ws \<noteq> WHAT_NONE" by (simp add: what_fits_def)
      then show ?thesis using False pick_packs(2)[OF w(2) ok]
        by (simp add: lCopyElemPartialPack_pb_def cull_pack_elem_partial_def chosen_elem_def)
    qed (simp add: lCopyElemPartialPack_pb_def cull_pack_elem_def cull_pack_elem_partial_def chosen_elem_def)
  qed
qed

lemma select_loop:
  assumes "\<And>e. e \<in> set es \<Longrightarrow> packs (done_by (lCopyElemPartialPack_pb env xenc e ws)) (eb e)"
    and "\<forall>e \<in> set es. lCompare ce (Some e) cp \<noteq> None" "written pb old" "k + length es < u32_limit"
    and "length old + length (concat (map eb (filter (suffices ce cp) es))) < pack_limit"
  shows "\<exists>pb'. lSelectDPack_pb ce env xenc cp ws es (k, pb) = Some (k + length (filter (suffices ce cp) es), pb') \<and>
    written pb' (old @ concat (map eb (filter (suffices ce cp) es)))"
  using assms
proof (induction es arbitrary: k pb old)
  case (Cons e es)
  obtain r where r: "lCompare ce (Some e) cp = Some r" using Cons.prems(2) by auto
  show ?case
  proof (cases "r = 0")
    case True
    then have "\<not> suffices ce cp e" using r by (simp add: suffices_def)
    then show ?thesis using Cons.IH[of pb old k] Cons.prems r True by (simp add: lSelectElemDPack_pb_def)
  next
    case False
    then have s: "suffices ce cp e" using r by (simp add: suffices_def)
    have "packs (done_by (lCopyElemPartialPack_pb env xenc e ws)) (eb e)" using Cons.prems(1) by simp
    moreover have "length old + length (eb e) < pack_limit" using Cons.prems(5) s by simp
    ultimately obtain p where p: "lCopyElemPartialPack_pb env xenc e ws pb = Some p" "written p (old @ eb e)"
      using Cons.prems(3) by (auto elim!: packsD)
    have k: "u32_add k 1 = Suc k" using Cons.prems(4) by (simp add: u32_add_def)
    have "\<exists>pb'. lSelectDPack_pb ce env xenc cp ws es (Suc k, p) = Some (Suc k + length (filter (suffices ce cp) es), pb') \<and>
        written pb' ((old @ eb e) @ concat (map eb (filter (suffices ce cp) es)))"
      by (rule Cons.IH) (use Cons.prems p(2) s in auto)
    then show ?thesis using False r p(1) k s by (simp add: lSelectElemDPack_pb_def)
  qed
qed simp

lemma chosen_head:
  assumes "descr_ok d" "selection_fits ws (CList nm ch d es)"
  shows "pack_list_head env k n c d (Some ws) = pack_list_head env k n c (chosen_descr ws d) None"
proof (cases "what_kind ws = WHAT_ALL")
  case True
  then have no: "what_kind ws \<noteq> WHAT_NONE" by (simp add: WHAT_ALL_def WHAT_NONE_def)
  show ?thesis
    unfolding pack_list_head_def option.case cull_pack_enum_as_descr_def cull_pack_descr_def lCountWhat_def chosen_descr_def
      descr_okD(5)[OF assms(1)]
    by (simp only: True simp_thms if_True if_False no[unfolded True] descr_okD(4)[OF assms(1)])
next
  case False
  then have "what_fits ws d" using assms(2) by (simp add: selection_fits_def)
  from enum_as_descr[OF this assms(1)] show ?thesis using False by (simp add: pack_list_head_def chosen_descr_def)
qed

lemma packs_selection:
  fixes l :: "'d::{zero, linorder} lList"
  assumes m: "has_memory env" and x: "xdr_ok xenc xdec" and l: "list_ok l" and f: "selection_fits ws l"
    and n: "case name of None \<Rightarrow> True | Some s \<Rightarrow> str_ok (Some s)"
    and cmp: "\<forall>e \<in> set (l_elems l). lCompare ce (Some e) cp \<noteq> None"
  shows "packs (done_by (lSelectHashPack_pb ce env xenc name (Some l) cp (Some ws)))
    (list_bytes xenc 0 (selected_list ce cp name ws l))"
  unfolding packs_def
proof (intro allI impI)
  fix pb old assume w: "written pb old"
    and len: "length old + length (list_bytes xenc 0 (selected_list ce cp name ws l)) < pack_limit"
  obtain nm ch d es where L: "l = CList nm ch d es" by (cases l) auto
  let ?name = "case name of None \<Rightarrow> nm | Some s \<Rightarrow> Some s"
  let ?sel = "filter (suffices ce cp) es"
  let ?eb = "\<lambda>e. elem_bytes xenc 0 (chosen_elem ws e)"
  let ?tail = "str_bytes ?name @ be32 (of_bool ch) @ descr_bytes (chosen_descr ws d)"
  let ?elems = "concat (map ?eb ?sel)"
  have ok: "descr_ok d" "str_ok nm" "length es < u32_limit" using l by (auto simp: L)
  have nok: "str_ok ?name" using n ok(2) by (cases name) auto
  have dok: "descr_ok (chosen_descr ws d)" using chosen_list_ok(3)[OF l f n] by (simp add: L)
  have bytes: "list_bytes xenc 0 (selected_list ce cp name ws l) = be32 1 @ be32 (of_nat (length ?sel)) @ ?tail @ ?elems"
    by (cases name) (simp_all add: selected_list_def L o_def)
  have l1: "length old + length (be32 1) < pack_limit" using len unfolding bytes by simp
  from packsD[OF packs_int[OF m] w l1] obtain p1 where
    p1: "packint env pb 1 = Some (PACK_SUCCESS, p1)" "written p1 (old @ be32 1)" .
  have l2: "length (old @ be32 1) + length (be32 (of_nat (length es)) @ ?tail) < pack_limit"
    using len unfolding bytes by simp
  from packsD[OF packs_list_head[OF m dok nok] p1(2) l2]
  obtain p2 where p2: "pack_list_head env (length es) ?name ch d (Some ws) p1 = Some (PACK_SUCCESS, p2)"
      "written p2 ((old @ be32 1) @ be32 (of_nat (length es)) @ ?tail)"
    unfolding chosen_head[OF ok(1) f[unfolded L], symmetric] .
  have "\<exists>pb'. lSelectDPack_pb ce env xenc cp ws es (0, p2) = Some (0 + length ?sel, pb') \<and>
      written pb' (((old @ be32 1) @ be32 (of_nat (length es)) @ ?tail) @ ?elems)"
    by (rule select_loop) (use packs_chosen[OF m x l f] cmp p2(2) ok(3) len[unfolded bytes] in \<open>auto simp: L\<close>)
  then obtain p3 where p3: "lSelectDPack_pb ce env xenc cp ws es (0, p2) = Some (length ?sel, p3)"
      "written p3 ((old @ be32 1) @ be32 (of_nat (length es)) @ (?tail @ ?elems))" by auto
  have used: "cur_ptr p1 = length (old @ be32 1)" using p1(2) by (simp add: written_def)
  from repack_written[OF p3(2), of "bytes_used p1" "of_nat (length ?sel)"]
  obtain p4 where p4: "repackint (p3\<lparr>cur_ptr := length (old @ be32 1), bytes_used := bytes_used p1\<rparr>)
      (of_nat (length ?sel)) = Some (PACK_SUCCESS, p4)"
    "written (p4\<lparr>cur_ptr := cur_ptr p3, bytes_used := bytes_used p3\<rparr>)
      ((old @ be32 1) @ be32 (of_nat (length ?sel)) @ (?tail @ ?elems))" by blast
  have nn: "(case ?name of None \<Rightarrow> l_name l | Some s \<Rightarrow> Some s) = ?name"
    "(case name of None \<Rightarrow> l_name l | Some s \<Rightarrow> Some s) = ?name"
    by (auto simp: L split: option.splits)
  have "cull_pack_list_summary env (Some l) (Some ws) ?name pb = Some (PACK_SUCCESS, cur_ptr p1, bytes_used p1, p2)"
    unfolding cull_pack_list_summary_def option.case nn(1) using p1(1) p2(1) by (simp add: L)
  then have "lSelectHashPack_pb ce env xenc name (Some l) cp (Some ws) pb =
      Some (p4\<lparr>cur_ptr := cur_ptr p3, bytes_used := bytes_used p3\<rparr>)"
    using p3(1) p4(1) used unfolding lSelectHashPack_pb_def option.case nn(2) Let_def by (simp add: L)
  then show "\<exists>pb'. done_by (lSelectHashPack_pb ce env xenc name (Some l) cp (Some ws)) pb = Some (PACK_SUCCESS, pb') \<and>
      written pb' (old @ list_bytes xenc 0 (selected_list ce cp name ws l))"
    using p4(2) unfolding bytes by simp
qed

text \<open>
  C10. What the master sends is what was asked for. The rows of a list that suffice a condition, with
  the columns of an enumeration, packed straight into a buffer with the number of rows corrected
  afterwards, are unpacked as the list of exactly these rows in their order with exactly these
  columns (those of lists in the rows chosen the same way), to the last byte.
\<close>

theorem selection_comes_back:
  fixes l :: "'d::{zero, linorder} lList"
  assumes "has_memory env" "xdr_ok xenc xdec" "list_ok l" "selection_fits ws l" "n \<le> pack_limit"
    and "case name of None \<Rightarrow> True | Some s \<Rightarrow> str_ok (Some s)"
    and "\<forall>e \<in> set (l_elems l). lCompare ce (Some e) cp \<noteq> None"
    and "8 + length (list_bytes xenc 0 (selected_list ce cp name ws l)) < pack_limit"
  shows "\<exists>pb pb' b rb rb'. init_packbuffer env (Some p0) n False = Some (PACK_SUCCESS, Some pb) \<and>
    lSelectHashPack_pb ce env xenc name (Some l) cp (Some ws) pb = Some pb' \<and> head_ptr pb' = Some b \<and>
    init_packbuffer_from_buffer (Some q0) (Some (take (bytes_used pb') b)) (bytes_used pb') =
      Some (PACK_SUCCESS, Some rb) \<and>
    cull_unpack_list env xdec ns rb =
      Some (PACK_SUCCESS, Some (list_norm ns 0 (selected_list ce cp name ws l)), rb') \<and>
    pb_unused rb' = 0"
proof -
  let ?sel = "selected_list ce cp name ws l"
  have f: "flags_ok 0" by (simp add: flags_ok_def)
  have "\<exists>rb'. cull_unpack_list env xdec ns rb = Some (PACK_SUCCESS, Some (list_norm ns 0 ?sel), rb') \<and> unread rb' []"
    if u: "unread rb (list_bytes xenc 0 ?sel)" "bytes_left rb = length (list_bytes xenc 0 ?sel)" for rb
    using reads_values(3)[OF assms(1) f assms(2) chosen_list_ok(1)[OF assms(3,4,6)], where fuel = "Suc (bytes_left rb)" and ns = ns] u
    unfolding cull_unpack_list_def cull_unpack_list_partial_def reads_def by (auto simp del: cull_unpack_switch.simps)
  from whole_buffer[OF assms(1,5) packs_selection[OF assms(1-4,6,7)] assms(8) this]
  show ?thesis by auto
qed

text \<open>An example: a list of two rows, the columns of which are a number and a list of strings.\<close>

abbreviation (input) example_row :: "32 word \<Rightarrow> 64 word lList option \<Rightarrow> 64 word lListElem" where
  "example_row n l \<equiv> Elem BOUND_ELEM [fld 1 3, fld 2 9] [V_Ulong n, V_List l] (fresh_field 2)"

abbreviation (input) example_names :: "64 word lList" where
  "example_names \<equiv> CList None False [fld 5 8] [Elem BOUND_ELEM [fld 5 8] [V_String (Some [66])] (fresh_field 1)]"

abbreviation (input) example_table :: "64 word lList" where
  "example_table \<equiv> CList (Some [65]) False [fld 1 3, fld 2 9] [example_row 7 (Some example_names), example_row 8 None]"

abbreviation (input) names_only :: "lEnumeration list" where
  "names_only \<equiv> [What 1 9 2 (Some [What 0 8 5 None])]"

lemma example_table_ok: "list_ok example_table" "selection_fits names_only example_table"
  by (simp_all add: descr_ok_def cont_ok_def example_types str_ok_def MAX_DESCR_SIZE_def NoName_def selection_fits_def
      what_fits_def what_kind_def WHAT_ALL_def WHAT_NONE_def)

lemma example_row_compare:
  "lCompare some_libc (Some (example_row n l)) (Some (number_is m)) = Some (of_bool (n = m))"
  by (simp add: lCompare_def null_cond_def is_comparison_def compare_comparison_def compare_value_def example_types
      get_pos_def apply_op_def ulongcmp_def ord_cmp_def equal_op Let_def)

lemma example_selected:
  "selected_list some_libc (Some (number_is 7)) (Some [67]) names_only example_table =
    CList (Some [67]) False [fld 2 9] [Elem BOUND_ELEM [fld 2 9] [V_List (Some example_names)] (fresh_field 2)]"
  by (simp add: selected_list_def suffices_def example_row_compare chosen_descr_def chosen_elem_def what_kind_def
      WHAT_ALL_def what_descr_def)

theorem selection_comes_back_witness:
  "\<exists>pb pb' b rb rb'. init_packbuffer plenty (Some (empty_buffer 0)) 0 False = Some (PACK_SUCCESS, Some pb) \<and>
    lSelectHashPack_pb some_libc plenty xdr64_enc (Some [67]) (Some example_table) (Some (number_is 7)) (Some names_only) pb =
      Some pb' \<and> head_ptr pb' = Some b \<and>
    init_packbuffer_from_buffer (Some (empty_buffer 0)) (Some (take (bytes_used pb') b)) (bytes_used pb') =
      Some (PACK_SUCCESS, Some rb) \<and>
    cull_unpack_list plenty xdr64_dec None rb = Some (PACK_SUCCESS, Some (list_norm None 0 (CList (Some [67]) False
      [fld 2 9] [Elem BOUND_ELEM [fld 2 9] [V_List (Some example_names)] (fresh_field 2)])), rb') \<and>
    pb_unused rb' = 0"
proof -
  have len: "8 + length (list_bytes xdr64_enc 0 (CList (Some [67]) False [fld 2 9]
      [Elem BOUND_ELEM [fld 2 9] [V_List (Some example_names)] (fresh_field 2)])) < pack_limit"
    by (simp add: field_bytes_fresh cont_bytes_def selected_def descr_bytes_def str_bytes_def elem_status_defs pack_limit_def)
  show ?thesis
    using selection_comes_back[OF _ xdr64_ok example_table_ok, of plenty 0 "Some [67]" some_libc "Some (number_is 7)"
        "empty_buffer 0" "empty_buffer 0" None]
    unfolding example_selected using len
    by (simp add: has_memory_def str_ok_def example_row_compare)
qed

section \<open>All columns of the lists in a list\<close>

lemma pack_fails_then:
  assumes "packs p bs" "\<And>pb. q pb = Some (PACK_FORMAT, pb)" "written pb old" "length old + length bs < pack_limit"
  shows "\<exists>pb'. pack_then p q pb = Some (PACK_FORMAT, pb') \<and> written pb' (old @ bs)"
proof -
  from packsD[OF assms(1,3,4)] obtain pb' where "p pb = Some (PACK_SUCCESS, pb')" "written pb' (old @ bs)" .
  then show ?thesis using assms(2) by (simp add: pack_then_def)
qed

lemma all_columns_cont:
  assumes "p \<in> {WHAT_ALL, WHAT_NONE}"
  shows "cull_pack_cont 0 cp d (Some [What p (- 99) (- 99) None]) pb = Some (PACK_FORMAT, pb)"
proof -
  have t: "mt_get_type (- 99) = no_type" by code_simp
  have "packer_at cp p = pack_no_value" using assms by (auto simp: packer_at_def WHAT_ALL_def WHAT_NONE_def)
  then show ?thesis
    by (simp add: cull_pack_cont_def NoName_def selected_def t pack_no_value_def pack_then_def pack_ret_def)
qed

text \<open>
  All columns of an inner list cannot be asked for. For a list inside of the rows the enumeration of
  all fields, as \<open>lWhat\<close> and \<open>lWhatAll\<close> make it, is refused while the first row is packed, though the documentation of
  \<open>lWhat\<close> says that it means the same as no enumeration, which packs the list.
\<close>

theorem all_columns_of_sublist_refused:
  fixes l :: "'d::zero lList"
  assumes m: "has_memory env" and x: "xdr_ok xenc xdec" and l: "list_ok l" "l_elems l \<noteq> []"
    and w: "written pb old" "length old + length (list_bytes xenc 0 l) < pack_limit"
  shows "(\<exists>pb'. cull_pack_switch env xenc 0 (V_List (Some l)) None lListT pb = Some (PACK_SUCCESS, pb')) \<and>
    (\<exists>pb'. cull_pack_switch env xenc 0 (V_List (Some l)) (lWhatAll env) lListT pb = Some (PACK_FORMAT, pb'))"
proof
  show "\<exists>pb'. cull_pack_switch env xenc 0 (V_List (Some l)) None lListT pb = Some (PACK_SUCCESS, pb')"
    using packsD[OF packs_values(3)[OF m x l(1)] w] by (auto simp: pack_if_def)
  obtain n ch d e es where L: "l = CList n ch d (e # es)" using l(2) by (cases l) (auto simp: neq_Nil_conv)
  obtain s d' c f where E: "e = Elem s d' c f" by (cases e) auto
  let ?ws = "[What WHAT_ALL (- 99) (- 99) None]"
  have ok: "descr_ok d" "str_ok n" "s = BOUND_ELEM" "d' = d" using l(1) by (auto simp: L E)
  have kind: "what_kind ?ws = WHAT_ALL" by (simp add: what_kind_def)
  have fits: "selection_fits ?ws l" by (simp add: selection_fits_def kind)
  let ?h = "be32 (of_nat (length (e # es))) @ str_bytes n @ be32 (of_bool ch) @ descr_bytes d"
  let ?b = "field_bytes (fresh_field (length d))"
  have head: "packs (pack_list_head env (length (e # es)) n ch d (Some ?ws)) ?h"
    unfolding chosen_head[OF ok(1) fits[unfolded L]] chosen_descr_def if_P[OF kind] by (rule packs_list_head[OF m ok(1,2)])
  have "lCountWhat ?ws d = lCountDescr d" by (simp add: lCountWhat_def what_kind_def WHAT_ALL_def WHAT_NONE_def)
  then have "pack_elem_head env s d (Some ?ws) = pack_elem_head env s d None"
    unfolding pack_elem_head_def ok(3) by (simp add: elem_status_defs)
  then have elem: "packs (pack_elem_head env s d (Some ?ws)) (be32 s @ ?b)"
    using packs_elem_head[OF m ok(1), of s] ok(3) by (simp add: elem_status_defs)
  have len: "length (be32 1 @ ?h) + length (be32 s @ ?b) \<le> length (list_bytes xenc 0 l)"
    unfolding L E ok(4) by (simp add: ok(3) elem_status_defs)
  have row: "\<exists>pb'. pack_lListElem env xenc 0 e (Some ?ws) pb1 = Some (PACK_FORMAT, pb')"
    if "written pb1 old1" "length old1 + length (be32 s @ ?b) < pack_limit" for pb1 old1
  proof -
    have "cull_pack_cont 0 (map (cull_pack_switch env xenc 0) c) d (Some ?ws) pb = Some (PACK_FORMAT, pb)" for pb
      by (rule all_columns_cont) simp
    from pack_fails_then[OF elem this that] show ?thesis unfolding E ok(4) by auto
  qed
  have l1: "length old + length (be32 1 @ ?h) < pack_limit" using len w(2) by simp
  obtain p1 where p1: "pack_then (pack_int env 1) (pack_list_head env (length (e # es)) n ch d (Some ?ws)) pb =
      Some (PACK_SUCCESS, p1)" "written p1 (old @ be32 1 @ ?h)"
    using packsD[OF packs_then[OF packs_int[OF m] head] w(1) l1] .
  have l2: "length (old @ be32 1 @ ?h) + length (be32 s @ ?b) < pack_limit" using len w(2) by simp
  from row[OF p1(2) l2] obtain p2 where p2: "pack_lListElem env xenc 0 e (Some ?ws) p1 = Some (PACK_FORMAT, p2)" by blast
  have all: "lWhatAll env = Some ?ws" using m by (simp add: lWhatAll_def has_memory_def)
  show "\<exists>pb'. cull_pack_switch env xenc 0 (V_List (Some l)) (lWhatAll env) lListT pb = Some (PACK_FORMAT, pb')"
    using p1(1) p2 unfolding all L
    by (auto simp: pack_if_def pack_then_def split: Option.bind_splits if_splits)
qed

theorem all_columns_of_sublist_refused_witness:
  "(\<exists>pb'. cull_pack_switch plenty xdr64_enc 0 (V_List (Some example_names)) None lListT (empty_buffer 100) = Some (PACK_SUCCESS, pb')) \<and>
   (\<exists>pb'. cull_pack_switch plenty xdr64_enc 0 (V_List (Some example_names)) (lWhatAll plenty) lListT (empty_buffer 100) = Some (PACK_FORMAT, pb'))"
proof -
  have len: "length (list_bytes x 0 example_names) = 36" for x
    by (simp add: field_bytes_fresh cont_bytes_def selected_def descr_bytes_def str_bytes_def elem_status_defs)
  have "written (empty_buffer 100) []" by (simp add: written_def pack_limit_def)
  from all_columns_of_sublist_refused[OF _ xdr64_ok _ _ this, of plenty example_names]
  show ?thesis unfolding len
    by (simp add: has_memory_def descr_ok_def cont_ok_def example_types str_ok_def MAX_DESCR_SIZE_def NoName_def pack_limit_def)
qed

end
