(* ===== verification/Calendar.thy ===== *)
theory Calendar
  imports Hostname
begin

unbundle bit_operations_syntax

text \<open>
  Calendars of queues, \<^verbatim>\<open>source/libs/sgeobj/sge_calendar.c\<close>: a text such as
  \<^verbatim>\<open>mon-fri=6-20=off\<close> is parsed into ranges of days and of times of the day, from which the
  state of a queue at a time, and the time of the next change, are computed. \<open>None\<close> is a run that
  leaves memory, reads a null pointer, or overflows a number.
\<close>

section \<open>The data\<close>

record tm =
  TM_mday :: "32 word"
  TM_mon :: "32 word"
  TM_year :: "32 word"
  TM_sec :: "32 word"
  TM_min :: "32 word"
  TM_hour :: "32 word"
  TM_wday :: "32 word"
  TM_yday :: "32 word"
  TM_isdst :: "32 word"

definition new_tm :: tm where
  "new_tm = \<lparr>TM_mday = 0, TM_mon = 0, TM_year = 0, TM_sec = 0, TM_min = 0, TM_hour = 0, TM_wday = 0,
     TM_yday = 0, TM_isdst = 0\<rparr>"

text \<open>A range has one begin, and an end or none; the lists in it have one element.\<close>

record tmr =
  TMR_begin :: tm
  TMR_end :: "tm option"

record calendar_entry =
  CA_yday_range_list :: "tmr list option"
  CA_wday_range_list :: "tmr list option"
  CA_daytime_range_list :: "tmr list option"
  CA_state :: "32 word"

definition QI_DO_NOTHING :: "32 word" where "QI_DO_NOTHING = 0"
definition QI_DO_DISABLE :: "32 word" where "QI_DO_DISABLE = 0x4"
definition QI_DO_ENABLE :: "32 word" where "QI_DO_ENABLE = 0x8"
definition QI_DO_SUSPEND :: "32 word" where "QI_DO_SUSPEND = 0x100"
definition QI_DO_CAL_DISABLE :: "32 word" where "QI_DO_CAL_DISABLE = 0x20000"
definition QI_DO_CAL_SUSPEND :: "32 word" where "QI_DO_CAL_SUSPEND = 0x40000"

lemmas qi_do_defs = QI_DO_NOTHING_def QI_DO_DISABLE_def QI_DO_ENABLE_def QI_DO_SUSPEND_def
  QI_DO_CAL_DISABLE_def QI_DO_CAL_SUSPEND_def

section \<open>Comparing\<close>

type_synonym cmp_func = "tm \<Rightarrow> tm \<Rightarrow> int"

definition tm_yday_cmp :: cmp_func where
  "tm_yday_cmp t1 t2 =
     (if TM_year t1 - TM_year t2 \<noteq> 0 then sint (TM_year t1 - TM_year t2)
      else if TM_mon t1 - TM_mon t2 \<noteq> 0 then sint (TM_mon t1 - TM_mon t2)
      else sint (TM_mday t1 - TM_mday t2))"

definition tm_wday_cmp :: cmp_func where
  "tm_wday_cmp t1 t2 = sint (TM_wday t1 - TM_wday t2)"

definition tm_daytime_cmp :: cmp_func where
  "tm_daytime_cmp t1 t2 =
     (if TM_hour t1 - TM_hour t2 \<noteq> 0 then sint (TM_hour t1 - TM_hour t2)
      else if TM_min t1 - TM_min t2 \<noteq> 0 then sint (TM_min t1 - TM_min t2)
      else sint (TM_sec t1 - TM_sec t2))"

definition in_range :: "tm \<Rightarrow> tmr \<Rightarrow> cmp_func \<Rightarrow> bool" where
  "in_range t r cmp =
     (case TMR_end r of
        Some t2 \<Rightarrow> cmp (TMR_begin r) t \<le> 0 \<and> cmp t t2 \<le> 0
      | None \<Rightarrow> cmp (TMR_begin r) t = 0)"

definition in_range_list :: "tm \<Rightarrow> tmr list option \<Rightarrow> cmp_func \<Rightarrow> bool" where
  "in_range_list t rl cmp = (case rl of None \<Rightarrow> True | Some rs \<Rightarrow> list_ex (\<lambda>r. in_range t r cmp) rs)"

section \<open>Normalising\<close>

text \<open>
  Overlapping ranges are combined into the first of the two. After that the second loop starts again
  behind the first range: \<open>skipped\<close> are the ranges it had passed.
\<close>

definition overlapping :: "cmp_func \<Rightarrow> tmr \<Rightarrow> tmr \<Rightarrow> bool" where
  "overlapping cmp r q \<longleftrightarrow>
     in_range (TMR_begin r) q cmp \<or> (case TMR_end r of Some e \<Rightarrow> in_range e q cmp | None \<Rightarrow> False) \<or>
     in_range (TMR_begin q) r cmp \<or> (case TMR_end q of Some e \<Rightarrow> in_range e r cmp | None \<Rightarrow> False)"

definition combine_ranges :: "cmp_func \<Rightarrow> tmr \<Rightarrow> tmr \<Rightarrow> tmr option" where
  "combine_ranges cmp r q =
     (let b = (if cmp (TMR_begin r) (TMR_begin q) > 0 then TMR_begin q else TMR_begin r) in
      case (TMR_end r, TMR_end q) of
        (None, Some e2) \<Rightarrow> Some \<lparr>TMR_begin = b, TMR_end = Some e2\<rparr>
      | (Some e1, Some e2) \<Rightarrow> Some \<lparr>TMR_begin = b, TMR_end = Some (if cmp e1 e2 < 0 then e2 else e1)\<rparr>
      | (_, None) \<Rightarrow> None)"

function (sequential) normalize_one :: "cmp_func \<Rightarrow> tmr \<Rightarrow> tmr list \<Rightarrow> tmr list \<Rightarrow> (tmr \<times> tmr list) option" where
  "normalize_one cmp r skipped [] = Some (r, skipped)"
| "normalize_one cmp r skipped (q # qs) =
     (if overlapping cmp r q
      then (case combine_ranges cmp r q of None \<Rightarrow> None | Some r' \<Rightarrow> normalize_one cmp r' [] (skipped @ qs))
      else normalize_one cmp r (skipped @ [q]) qs)"
  by pat_completeness auto
termination
  by (relation "(\<lambda>(cmp, r, skipped, qs). length skipped + length qs) <*mlex*> measure (\<lambda>(cmp, r, skipped, qs). length qs)")
    (auto simp: mlex_prod_def)

text \<open>One range takes up others; the list behind it gets shorter, or stays as it is.\<close>

lemma normalize_one_length: "normalize_one cmp r skipped qs = Some (r', rest) \<Longrightarrow> length rest \<le> length skipped + length qs"
  by (induction cmp r skipped qs rule: normalize_one.induct) (fastforce split: if_splits option.splits)+

function (sequential) normalize_range_list :: "cmp_func \<Rightarrow> tmr list \<Rightarrow> tmr list option" where
  "normalize_range_list cmp [] = Some []"
| "normalize_range_list cmp (r # rs) =
     (case normalize_one cmp r [] rs of
        None \<Rightarrow> None
      | Some (r', rest) \<Rightarrow> map_option ((#) r') (normalize_range_list cmp rest))"
  by pat_completeness auto
termination
  by (relation "measure (\<lambda>(cmp, rs). length rs)") (use normalize_one_length in \<open>auto simp: less_Suc_eq_le\<close>, fastforce)

text \<open>A range of times that goes over midnight becomes two.\<close>

definition full_day_end :: tm where "full_day_end = new_tm\<lparr>TM_hour := 24\<rparr>"

definition split_daytime_range :: "tmr \<Rightarrow> tmr list" where
  "split_daytime_range r =
     (case TMR_end r of
        Some t2 \<Rightarrow>
          if tm_daytime_cmp (TMR_begin r) t2 > 0
          then [r\<lparr>TMR_end := Some full_day_end\<rparr>, \<lparr>TMR_begin = new_tm, TMR_end = Some t2\<rparr>]
          else [r]
      | None \<Rightarrow> [r])"

definition split_wday_range :: "tmr \<Rightarrow> tmr list" where
  "split_wday_range r =
     (case TMR_end r of
        Some t2 \<Rightarrow>
          if tm_wday_cmp (TMR_begin r) t2 > 0
          then [r\<lparr>TMR_end := Some (new_tm\<lparr>TM_wday := 6\<rparr>)\<rparr>, \<lparr>TMR_begin = new_tm, TMR_end = Some t2\<rparr>]
          else [r]
      | None \<Rightarrow> [r])"

text \<open>
  Joining days. The begin and end of the first range (\<open>b1\<close>, \<open>e1\<close>) are read once; \<open>has_end\<close> says
  whether the first range had an end when the inner loop started, \<open>r1\<close> is what became of it.
\<close>

definition wday_begin :: "tmr \<Rightarrow> 32 word" where
  "wday_begin r = TM_wday (TMR_begin r)"

definition wday_end :: "tmr \<Rightarrow> 32 word" where
  "wday_end r = (case TMR_end r of Some e \<Rightarrow> TM_wday e | None \<Rightarrow> TM_wday (TMR_begin r))"

fun join_over :: "32 word \<Rightarrow> 32 word \<Rightarrow> bool \<Rightarrow> tmr \<Rightarrow> tmr list \<Rightarrow> tmr \<times> tmr list" where
  "join_over b1 e1 has_end r1 [] = (r1, [])"
| "join_over b1 e1 has_end r1 (r2 # rs) =
     (if wday_begin r2 \<le> e1 + 1 \<and> b1 \<le> wday_begin r2 then
        join_over b1 e1 has_end
          (if e1 < wday_end r2 then
             (if has_end then r1\<lparr>TMR_end := map_option (\<lambda>e. e\<lparr>TM_wday := wday_end r2\<rparr>) (TMR_end r1)\<rparr>
              else r1\<lparr>TMR_end := TMR_end r2\<rparr>)
           else r1) rs
      else (let (r, kept) = join_over b1 e1 has_end r1 rs in (r, r2 # kept)))"

lemma join_over_length: "length (snd (join_over b1 e1 he r1 rs)) \<le> length rs"
  by (induction b1 e1 he r1 rs rule: join_over.induct) (auto simp: le_SucI split: prod.splits)

function (sequential) join_loop :: "tmr list \<Rightarrow> tmr list \<Rightarrow> tmr list" where
  "join_loop before [] = before"
| "join_loop before (r1 # after) =
     (let b1 = wday_begin r1; e1 = wday_end r1; he = (TMR_end r1 \<noteq> None);
          (r, before') = join_over b1 e1 he r1 before;
          (r', after') = join_over b1 e1 he r after in
      join_loop (before' @ [r']) after')"
  by pat_completeness auto
termination
  by (relation "measure (\<lambda>(before, after). length after)")
    (auto simp: less_Suc_eq_le, metis join_over_length snd_conv)

definition join_wday_range :: "tmr list \<Rightarrow> tmr list" where
  "join_wday_range rs = join_loop [] rs"

text \<open>A range that ends with the week is extended by one that begins with it.\<close>

definition extend_one :: "tmr list \<Rightarrow> tmr \<Rightarrow> tmr" where
  "extend_one others r1 =
     (let e1 = wday_end r1 in
      fold (\<lambda>r2 r. if e1 = 6 \<and> wday_begin r2 = 0
                    then r\<lparr>TMR_end := Some ((case TMR_end r of Some e \<Rightarrow> e | None \<Rightarrow> TMR_begin r)
                      \<lparr>TM_wday := e1 + 1 + wday_end r2\<rparr>)\<rparr>
                    else r) others r1)"

fun extend_loop :: "tmr list \<Rightarrow> tmr list \<Rightarrow> tmr list" where
  "extend_loop before [] = before"
| "extend_loop before (r1 # after) = extend_loop (before @ [extend_one (before @ after) r1]) after"

definition extend_wday_range :: "tmr list \<Rightarrow> tmr list" where
  "extend_wday_range rs = extend_loop [] rs"

definition full_daytime_range :: "tmr list" where
  "full_daytime_range = [\<lparr>TMR_begin = new_tm, TMR_end = Some full_day_end\<rparr>]"

definition full_weekday_range :: "tmr list" where
  "full_weekday_range = [\<lparr>TMR_begin = new_tm, TMR_end = Some (new_tm\<lparr>TM_wday := 6\<rparr>)\<rparr>]"

section \<open>Parsing\<close>

text \<open>
  The scanner keeps the rest of the text and the token it is at, if that is valid. Texts are those of
  the C locale. A number that overflows an \<open>int\<close>, and a word or number of a thousand characters (the
  size of the buffer for it), have no result.
\<close>

datatype cal_token = DOT | COLON | EQUAL_SIGN | MINUS | COMMA | SPACE | NUMBER int | STRING string
  | NO_TOKEN | ERR_TOKEN

record cal_scan =
  scan_text :: string
  scan_token :: "cal_token option"
  scan_dots :: bool

definition is_digit :: "char \<Rightarrow> bool" where
  "is_digit c \<longleftrightarrow> (let n = of_char c :: nat in 48 \<le> n \<and> n \<le> 57)"

definition is_alpha :: "char \<Rightarrow> bool" where
  "is_alpha c \<longleftrightarrow> (let n = of_char c :: nat in 65 \<le> n \<and> n \<le> 90 \<or> 97 \<le> n \<and> n \<le> 122)"

definition number_of :: "string \<Rightarrow> int" where
  "number_of ds = foldl (\<lambda>n c. n * 10 + (of_char c - 48)) 0 ds"

definition next_token :: "bool \<Rightarrow> string \<Rightarrow> (cal_token \<times> string) option" where
  "next_token dots s =
     (case s of
        [] \<Rightarrow> Some (NO_TOKEN, [])
      | c # cs \<Rightarrow>
          if dots \<and> c = CHR ''.'' then Some (DOT, cs)
          else if c = CHR '':'' then Some (COLON, cs)
          else if c = CHR ''='' then Some (EQUAL_SIGN, cs)
          else if c = CHR ''-'' then Some (MINUS, cs)
          else if c = CHR '','' then Some (COMMA, cs)
          else if c = CHR '' '' then Some (SPACE, cs)
          else if is_alpha c then
            (let w = takeWhile (\<lambda>c. is_alpha c \<or> is_digit c) s in
             if 1000 \<le> length w then None else Some (STRING w, drop (length w) s))
          else if is_digit c then
            (let ds = takeWhile is_digit s in
             if number_of ds > 2147483647 \<or> 1000 \<le> length ds then None
             else Some (NUMBER (number_of ds), drop (length ds) s))
          else Some (ERR_TOKEN, s))"

text \<open>A parser fails with \<open>Inl\<close>, or has a result and the scanner behind it.\<close>

type_synonym 'a cal_parser = "cal_scan \<Rightarrow> (unit + 'a \<times> cal_scan) option"

definition p_ret :: "'a \<Rightarrow> 'a cal_parser" where "p_ret x st = Some (Inr (x, st))"
definition p_fail :: "'a cal_parser" where "p_fail st = Some (Inl ())"

definition p_bind :: "'a cal_parser \<Rightarrow> ('a \<Rightarrow> 'b cal_parser) \<Rightarrow> 'b cal_parser" where
  "p_bind p k st =
     (case p st of None \<Rightarrow> None | Some (Inl _) \<Rightarrow> Some (Inl ()) | Some (Inr (x, st')) \<Rightarrow> k x st')"

definition scan :: "cal_token cal_parser" where
  "scan st =
     (case scan_token st of
        Some t \<Rightarrow> Some (Inr (t, st))
      | None \<Rightarrow>
          (case next_token (scan_dots st) (scan_text st) of
             None \<Rightarrow> None
           | Some (t, s) \<Rightarrow> Some (Inr (t, st\<lparr>scan_text := s, scan_token := Some t\<rparr>))))"

definition eat_token :: "unit cal_parser" where
  "eat_token st = Some (Inr ((), st\<lparr>scan_token := None\<rparr>))"

definition strncasecmp :: "string \<Rightarrow> string \<Rightarrow> nat \<Rightarrow> int" where
  "strncasecmp a b n = strcasecmp (take n a) (take n b)"

text \<open>Words of at least \<open>n\<close> characters may be cut short. The result is \<open>- 1\<close> for no match.\<close>

definition cheap_scan :: "string \<Rightarrow> (int \<times> string) list \<Rightarrow> nat \<Rightarrow> int" where
  "cheap_scan s tokenv n =
     (case find (\<lambda>(_, text). if length s < n then strcasecmp text s = 0 else strncasecmp text s (length s) = 0) tokenv of
        None \<Rightarrow> - 1
      | Some (token, _) \<Rightarrow> token)"

definition statev :: "(int \<times> string) list" where
  "statev = [(8, ''on''), (4, ''off''), (0x100, ''suspended'')]"

definition weekdayv :: "(int \<times> string) list" where
  "weekdayv = [(0, ''sunday''), (1, ''monday''), (2, ''tuesday''), (3, ''wednesday''), (4, ''thursday''),
     (5, ''friday''), (6, ''saturday'')]"

definition monthv :: "(int \<times> string) list" where
  "monthv = [(1, ''january''), (2, ''february''), (3, ''march''), (4, ''april''), (5, ''may''), (6, ''june''),
     (7, ''july''), (8, ''august''), (9, ''september''), (10, ''october''), (11, ''november''), (12, ''december'')]"

subsection \<open>Days and times\<close>

definition range_number :: "int \<Rightarrow> int \<Rightarrow> int cal_parser" where
  "range_number lo hi =
     p_bind scan (\<lambda>t. case t of
        NUMBER n \<Rightarrow> p_bind eat_token (\<lambda>_. if n > hi \<or> n < lo then p_fail else p_ret n)
      | _ \<Rightarrow> p_fail)"

definition parse_month :: "int cal_parser" where
  "parse_month =
     p_bind scan (\<lambda>t. case t of
        STRING s \<Rightarrow> (let m = cheap_scan s monthv 3 in
          if m < 0 then p_fail else p_bind eat_token (\<lambda>_. p_ret (m - 1)))
      | _ \<Rightarrow> p_bind (range_number 1 12) (\<lambda>m. p_ret (m - 1)))"

definition expect :: "cal_token \<Rightarrow> unit cal_parser" where
  "expect tok = p_bind scan (\<lambda>t. if t = tok then eat_token else p_fail)"

definition year_day :: "tm cal_parser" where
  "year_day =
     p_bind (range_number 1 31) (\<lambda>d. p_bind (expect DOT) (\<lambda>_. p_bind parse_month (\<lambda>m.
       p_bind (expect DOT) (\<lambda>_. p_bind (range_number 1970 2037) (\<lambda>y.
         p_ret (new_tm\<lparr>TM_year := of_int (y - 1900), TM_mon := of_int m, TM_mday := of_int d\<rparr>))))))"

definition year_day_range :: "tmr cal_parser" where
  "year_day_range =
     p_bind year_day (\<lambda>t1. p_bind scan (\<lambda>t.
       if t = MINUS then
         p_bind eat_token (\<lambda>_. p_bind year_day (\<lambda>t2.
           if tm_yday_cmp t1 t2 > 0 then p_fail else p_ret \<lparr>TMR_begin = t1, TMR_end = Some t2\<rparr>))
       else p_ret \<lparr>TMR_begin = t1, TMR_end = None\<rparr>))"

definition week_day :: "tm cal_parser" where
  "week_day =
     p_bind scan (\<lambda>t. case t of
        STRING s \<Rightarrow> (let d = cheap_scan s weekdayv 3 in
          if d < 0 then p_fail else p_bind eat_token (\<lambda>_. p_ret (new_tm\<lparr>TM_wday := of_int d\<rparr>)))
      | _ \<Rightarrow> p_fail)"

definition week_day_range :: "tmr cal_parser" where
  "week_day_range =
     p_bind week_day (\<lambda>t1. p_bind scan (\<lambda>t.
       if t = MINUS then
         p_bind eat_token (\<lambda>_. p_bind week_day (\<lambda>t2.
           if tm_wday_cmp t1 t2 = 0 then p_fail else p_ret \<lparr>TMR_begin = t1, TMR_end = Some t2\<rparr>))
       else p_ret \<lparr>TMR_begin = t1, TMR_end = None\<rparr>))"

text \<open>A minute, or a second, behind a colon; without one it is 0.\<close>

definition opt_number :: "int option cal_parser" where
  "opt_number =
     p_bind scan (\<lambda>t. if t \<noteq> COLON then p_ret None
       else p_bind eat_token (\<lambda>_. p_bind (range_number 0 59) (\<lambda>n. p_ret (Some n))))"

definition daytime :: "tm cal_parser" where
  "daytime =
     p_bind (range_number 0 24) (\<lambda>h. p_bind opt_number (\<lambda>m.
       p_bind (if m = None then p_ret None else opt_number) (\<lambda>s.
         let m' = (case m of None \<Rightarrow> 0 | Some x \<Rightarrow> x); s' = (case s of None \<Rightarrow> 0 | Some x \<Rightarrow> x) in
         if h = 24 \<and> (m' \<noteq> 0 \<or> s' \<noteq> 0) then p_fail
         else p_ret (new_tm\<lparr>TM_hour := of_int h, TM_min := of_int m', TM_sec := of_int s'\<rparr>))))"

definition daytime_range :: "tmr cal_parser" where
  "daytime_range =
     p_bind daytime (\<lambda>t1. p_bind (expect MINUS) (\<lambda>_. p_bind daytime (\<lambda>t2.
       if tm_daytime_cmp t1 t2 = 0 then p_fail else p_ret \<lparr>TMR_begin = t1, TMR_end = Some t2\<rparr>)))"

subsection \<open>Lists\<close>

text \<open>
  The loops for lists end because each round takes characters from the text; the length of the text
  is enough fuel.
\<close>

primrec more_after :: "cal_token \<Rightarrow> 'a cal_parser \<Rightarrow> nat \<Rightarrow> 'a list cal_parser" where
  "more_after sep p 0 = (\<lambda>_. None)"
| "more_after sep p (Suc n) =
     p_bind scan (\<lambda>t. if t = sep
       then p_bind eat_token (\<lambda>_. p_bind p (\<lambda>x. p_bind (more_after sep p n) (\<lambda>xs. p_ret (x # xs))))
       else p_ret [])"

definition list_of :: "cal_token \<Rightarrow> 'a cal_parser \<Rightarrow> 'a list cal_parser" where
  "list_of sep p st = p_bind p (\<lambda>x. p_bind (more_after sep p (Suc (length (scan_text st)))) (\<lambda>xs. p_ret (x # xs))) st"

definition year_day_range_list :: "tmr list cal_parser" where
  "year_day_range_list = list_of COMMA year_day_range"

definition daytime_range_list :: "tmr list cal_parser" where
  "daytime_range_list = p_bind (list_of COMMA daytime_range) (\<lambda>rs. p_ret (concat (map split_daytime_range rs)))"

definition week_day_range_list :: "tmr list cal_parser" where
  "week_day_range_list = p_bind (list_of COMMA week_day_range) (\<lambda>rs.
     p_ret (extend_wday_range (join_wday_range (concat (map split_wday_range rs)))))"

definition parse_action :: "32 word cal_parser" where
  "parse_action =
     p_bind scan (\<lambda>t. case t of
        STRING s \<Rightarrow> (let state = cheap_scan s statev 3 in
          if state < 0 then p_fail else p_bind eat_token (\<lambda>_. p_ret (of_int state)))
      | _ \<Rightarrow> p_fail)"

subsection \<open>Entries\<close>

definition normalized :: "tmr list \<Rightarrow> tmr list cal_parser" where
  "normalized rs st = (case normalize_range_list tm_daytime_cmp rs of None \<Rightarrow> None | Some rs' \<Rightarrow> p_ret rs' st)"

text \<open>
  What follows the days of an entry: times and a state, separated by an equals sign. The result is the
  list of times, if there is one, and the state.
\<close>

definition times_and_state :: "(tmr list option \<times> 32 word) cal_parser" where
  "times_and_state =
     p_bind scan (\<lambda>t. case t of
        NUMBER _ \<Rightarrow>
          p_bind daytime_range_list (\<lambda>rs. p_bind (normalized rs) (\<lambda>ds. p_bind scan (\<lambda>t.
            if t \<noteq> EQUAL_SIGN then p_ret (Some ds, QI_DO_DISABLE)
            else p_bind eat_token (\<lambda>_. p_bind parse_action (\<lambda>s. p_ret (Some ds, s))))))
      | STRING _ \<Rightarrow> p_bind parse_action (\<lambda>s. p_ret (None, s))
      | _ \<Rightarrow> p_fail)"

definition daytimes_or_full :: "tmr list option \<Rightarrow> tmr list" where
  "daytimes_or_full ds = (case ds of None \<Rightarrow> full_daytime_range | Some rs \<Rightarrow> rs)"

definition disabled_year_entry :: "calendar_entry cal_parser" where
  "disabled_year_entry =
     (let make = (\<lambda>ydrl dtrl state. p_ret \<lparr>CA_yday_range_list = ydrl, CA_wday_range_list = None,
        CA_daytime_range_list = Some (daytimes_or_full dtrl), CA_state = state\<rparr>) in
      p_bind scan (\<lambda>t. case t of
        NUMBER _ \<Rightarrow>
          p_bind year_day_range_list (\<lambda>ys. p_bind scan (\<lambda>t.
            if t \<noteq> EQUAL_SIGN then make (Some ys) None QI_DO_DISABLE
            else p_bind eat_token (\<lambda>_. p_bind times_and_state (\<lambda>(ds, s). make (Some ys) ds s))))
      | _ \<Rightarrow> p_bind times_and_state (\<lambda>(ds, s). make None ds s)))"

definition disabled_week_entry :: "calendar_entry cal_parser" where
  "disabled_week_entry =
     (let make = (\<lambda>wdrl dtrl state. p_ret \<lparr>CA_yday_range_list = None,
        CA_wday_range_list = Some (case wdrl of None \<Rightarrow> full_weekday_range | Some rs \<Rightarrow> rs),
        CA_daytime_range_list = Some (daytimes_or_full dtrl), CA_state = state\<rparr>) in
      p_bind scan (\<lambda>t.
        if (case t of STRING s \<Rightarrow> cheap_scan s statev 3 < 0 | _ \<Rightarrow> False) then
          p_bind week_day_range_list (\<lambda>ws. p_bind scan (\<lambda>t.
            if t \<noteq> EQUAL_SIGN then make (Some ws) None QI_DO_DISABLE
            else p_bind eat_token (\<lambda>_. p_bind times_and_state (\<lambda>(ds, s). make (Some ws) ds s))))
        else p_bind times_and_state (\<lambda>(ds, s). make None ds s)))"

text \<open>Several spaces may separate entries.\<close>

primrec eat_spaces :: "nat \<Rightarrow> unit cal_parser" where
  "eat_spaces 0 = (\<lambda>_. None)"
| "eat_spaces (Suc n) = p_bind scan (\<lambda>t. if t = SPACE then p_bind eat_token (\<lambda>_. eat_spaces n) else p_ret ())"

definition entry_list :: "calendar_entry cal_parser \<Rightarrow> calendar_entry list cal_parser" where
  "entry_list entry st =
     p_bind entry (\<lambda>x. p_bind (more_after SPACE
         (p_bind (eat_spaces (Suc (length (scan_text st)))) (\<lambda>_. entry)) (Suc (length (scan_text st)))) (\<lambda>xs.
       p_bind scan (\<lambda>t. if t \<noteq> NO_TOKEN then p_fail else p_ret (x # xs)))) st"

text \<open>The result is the list of entries, null for the text \<^verbatim>\<open>none\<close>, or \<open>Inl\<close> for an error.\<close>

definition disabled_list :: "bool \<Rightarrow> calendar_entry cal_parser \<Rightarrow> string option \<Rightarrow> (unit + calendar_entry list) option" where
  "disabled_list dots entry text =
     (case text of
        None \<Rightarrow> Some (Inr [])
      | Some s \<Rightarrow>
          if strcasecmp s ''none'' = 0 then Some (Inr [])
          else map_option (map_sum id fst)
                 (entry_list entry \<lparr>scan_text = s, scan_token = None, scan_dots = dots\<rparr>))"

definition disabled_year_list :: "string option \<Rightarrow> (unit + calendar_entry list) option" where
  "disabled_year_list = disabled_list True disabled_year_entry"

definition disabled_week_list :: "string option \<Rightarrow> (unit + calendar_entry list) option" where
  "disabled_week_list = disabled_list False disabled_week_entry"

end
