(* ===== verification/Calendar_State.thy ===== *)
theory Calendar_State
  imports Calendar
begin

text \<open>
  The state of a queue at a time by its calendars, and when it changes: the second half of
  \<^verbatim>\<open>sge_calendar.c\<close>. The clock of the system, \<open>localtime_r\<close> and \<open>mktime\<close>, is a parameter; a time is
  a number of seconds.
\<close>

record clock =
  localtime :: "int \<Rightarrow> tm"
  mktime :: "tm \<Rightarrow> int"

section \<open>The next change by one entry\<close>

definition is_full_day :: "tmr list \<Rightarrow> bool option" where
  "is_full_day dts =
     (case dts of
        [] \<Rightarrow> None
      | r # _ \<Rightarrow>
          (case TMR_end r of
             None \<Rightarrow> None
           | Some e \<Rightarrow>
               (let b = TMR_begin r in
                Some (TM_sec e = 0 \<and> TM_min e = 0 \<and> TM_hour e = 24 \<and> TM_sec b = 0 \<and> TM_min b = 0 \<and> TM_hour b = 0))))"

definition last_second :: "tm \<Rightarrow> tm" where
  "last_second t = t\<lparr>TM_sec := 59, TM_min := 59, TM_hour := 23\<rparr>"

text \<open>
  The last day of the range of the week that is active: the day found, and whether every range so far
  is a whole week.
\<close>

fun active_week :: "bool \<Rightarrow> tm \<Rightarrow> tmr list \<Rightarrow> bool \<Rightarrow> tm option \<times> bool" where
  "active_week full now [] always = (None, always)"
| "active_week full now (r # rs) always =
     (let always' = (always \<and> full \<and> (case TMR_end r of Some e \<Rightarrow> TM_wday e - TM_wday (TMR_begin r) = 6 | None \<Rightarrow> False)) in
      if in_range now r tm_wday_cmp
      then (let e = (case TMR_end r of Some e \<Rightarrow> e | None \<Rightarrow> TMR_begin r) in
            (Some (now\<lparr>TM_mday := TM_mday now + (TM_wday e - TM_wday now)\<rparr>), always'))
      else active_week full now rs always')"

text \<open>The first begin of a range after now, or of all ranges.\<close>

definition nearest :: "cmp_func \<Rightarrow> (tm \<Rightarrow> bool) \<Rightarrow> tmr list \<Rightarrow> tm option" where
  "nearest cmp later rs =
     foldl (\<lambda>lep r. let b = TMR_begin r in
              if later b \<and> (case lep of None \<Rightarrow> True | Some l \<Rightarrow> cmp l b > 0) then Some b else lep) None rs"

text \<open>
  The day of the next change, when the entry does not change its state today. \<open>Inl\<close> means that it
  never changes; the day is null when there is no other one; the bool is the end of the day.
\<close>

definition other_day ::
  "bool \<Rightarrow> bool \<Rightarrow> tmr list option \<Rightarrow> tmr list option \<Rightarrow> tm \<Rightarrow> (unit + tm option \<times> bool) option" where
  "other_day full active year_time week_time now =
     (if active then
        (case year_time of
           Some ys \<Rightarrow>
             (case find (\<lambda>r. in_range now r tm_yday_cmp) ys of
                None \<Rightarrow> None
              | Some r \<Rightarrow> Some (Inr (Some (last_second (case TMR_end r of Some e \<Rightarrow> e | None \<Rightarrow> TMR_begin r)), True)))
         | None \<Rightarrow>
             (let (lep, always) = active_week full now (case week_time of Some ws \<Rightarrow> ws | None \<Rightarrow> []) True in
              if always then Some (Inl ())
              else (case lep of None \<Rightarrow> None | Some l \<Rightarrow> Some (Inr (Some (last_second l), True)))))
      else
        (case year_time of
           Some ys \<Rightarrow> Some (Inr (nearest tm_yday_cmp (\<lambda>b. tm_yday_cmp now b < 0) ys, False))
         | None \<Rightarrow>
             (let ws = (case week_time of Some ws \<Rightarrow> ws | None \<Rightarrow> []) in
              case nearest tm_wday_cmp (\<lambda>b. tm_wday_cmp now b < 0) ws of
                Some l \<Rightarrow>
                  Some (Inr (Some (l\<lparr>TM_mday := TM_mday now + (TM_wday l - TM_wday now),
                    TM_mon := TM_mon now, TM_year := TM_year now\<rparr>), False))
              | None \<Rightarrow>
                  (case nearest tm_wday_cmp (\<lambda>_. True) ws of
                     None \<Rightarrow> None
                   | Some l \<Rightarrow>
                       Some (Inr (Some (l\<lparr>TM_mday := TM_mday now + (7 - TM_wday now) + TM_wday l,
                         TM_mon := TM_mon now, TM_year := TM_year now\<rparr>), False))))))"

text \<open>The change within a day; the second result says that there is none left on this day.\<close>

definition day_change :: "clock \<Rightarrow> bool \<Rightarrow> bool \<Rightarrow> tmr list \<Rightarrow> tm \<Rightarrow> int \<times> bool" where
  "day_change clk active is_year dts now =
     (let lep = (if active
                 then (case find (\<lambda>r. in_range now r tm_daytime_cmp) dts of None \<Rightarrow> None | Some r \<Rightarrow> TMR_end r)
                 else nearest tm_daytime_cmp
                   (\<lambda>b. if is_year then tm_daytime_cmp now b < 0 else tm_daytime_cmp now b \<le> 0) dts);
          l = (case lep of Some l \<Rightarrow> l | None \<Rightarrow> now\<lparr>TM_hour := 24, TM_min := 0, TM_sec := 0\<rparr>);
          end_of_day = (TM_hour l = 24);
          l' = (if end_of_day then last_second l else l);
          tm_limit = now\<lparr>TM_hour := TM_hour l', TM_min := TM_min l', TM_sec := TM_sec l'\<rparr> in
      (mktime clk tm_limit + of_bool end_of_day, lep = None))"

definition compute_limit ::
  "clock \<Rightarrow> bool \<Rightarrow> bool \<Rightarrow> tmr list option \<Rightarrow> tmr list option \<Rightarrow> tmr list option \<Rightarrow> tm \<Rightarrow> (int \<times> bool) option" where
  "compute_limit clk today active year_time week_time day_time now =
     (case day_time of
        None \<Rightarrow> Some (0, False)
      | Some dts \<Rightarrow>
          if (year_time = None) = (week_time = None) then Some (0, False)
          else do {
            full \<leftarrow> is_full_day dts;
            if \<not> full \<and> today then Some (day_change clk active (year_time \<noteq> None) dts now)
            else do {
              step \<leftarrow> other_day full active year_time week_time now;
              case step of
                Inl _ \<Rightarrow> Some (0, False)
              | Inr (None, _) \<Rightarrow> Some (0, False)
              | Inr (Some lep, end_of_day) \<Rightarrow>
                  (let lep' = lep\<lparr>TM_isdst := - 1\<rparr> in
                   if full then Some (mktime clk lep' + of_bool end_of_day, False)
                   else Some (day_change clk active (year_time \<noteq> None) dts lep')) } })"

section \<open>The state by one entry\<close>

text \<open>
  When the day ends without a change, the function calls itself for the first second of the next day, and
  the state there becomes the result. The recursion count is handed on before it is increased. The
  results are the state, the time of the next change, and the state after it. The fuel is the depth of
  the recursion.
\<close>

fun is_week_entry_active ::
  "clock \<Rightarrow> nat \<Rightarrow> tm \<Rightarrow> calendar_entry \<Rightarrow> int \<Rightarrow> (32 word \<times> int \<times> 32 word) option" where
  "is_week_entry_active clk 0 t entry rec_count = None"
| "is_week_entry_active clk (Suc fuel) t entry rec_count =
     (let in_wday = in_range_list t (CA_wday_range_list entry) tm_wday_cmp;
          in_daytime = (in_wday \<and> in_range_list t (CA_daytime_range_list entry) tm_daytime_cmp);
          state = (if in_daytime then CA_state entry else 0);
          next_state = (if in_daytime then 0 else CA_state entry) in
      do { (limit, end_of_day) \<leftarrow> compute_limit clk in_wday in_daytime None (CA_wday_range_list entry)
             (CA_daytime_range_list entry) t;
           (state', limit', next_state') \<leftarrow>
             (if end_of_day then
                (if rec_count < 4
                 then is_week_entry_active clk fuel (localtime clk (limit + 1)) entry rec_count
                 else Some (state, limit + 1, next_state))
              else Some (state, limit, next_state));
           Some (state', limit', if limit' = 0 then 0 else next_state') })"

text \<open>
  The times of the day are looked at only on the days of the entry, so the entry never enables a
  queue outside of its times.
\<close>

fun is_year_entry_active :: "clock \<Rightarrow> nat \<Rightarrow> tm \<Rightarrow> calendar_entry \<Rightarrow> (32 word \<times> int) option" where
  "is_year_entry_active clk 0 t entry = None"
| "is_year_entry_active clk (Suc fuel) t entry =
     (let in_yday = in_range_list t (CA_yday_range_list entry) tm_yday_cmp;
          in_daytime = (in_yday \<and> in_range_list t (CA_daytime_range_list entry) tm_daytime_cmp);
          state = (if in_daytime then CA_state entry else 0) in
      do { (limit, end_of_day) \<leftarrow> compute_limit clk in_yday in_daytime (CA_yday_range_list entry) None
             (CA_daytime_range_list entry) t;
           if end_of_day then is_year_entry_active clk fuel (localtime clk (limit + 1)) entry
           else Some (state, limit) })"

section \<open>The state by all entries\<close>

text \<open>The year calendar: the state and the time of the next event so far.\<close>

fun year_loop :: "clock \<Rightarrow> nat \<Rightarrow> tm \<Rightarrow> calendar_entry list \<Rightarrow> 32 word \<times> int \<Rightarrow> (32 word \<times> int) option" where
  "year_loop clk fuel t [] st = Some st"
| "year_loop clk fuel t (yc # ycs) (state, next_event) =
     do { (active, limit) \<leftarrow> is_year_entry_active clk fuel t yc;
          year_loop clk fuel t ycs
            (if state \<noteq> active \<or> state = QI_DO_NOTHING
             then (state OR active, if next_event = 0 \<or> (limit \<noteq> 0 \<and> next_event > limit) then limit else next_event)
             else (state, if next_event = 0 \<or> (limit \<noteq> 0 \<and> next_event < limit) then limit else next_event)) }"

record week_state =
  ws_tm :: tm
  ws_state :: "32 word"
  ws_next :: int
  ws_visited :: "bool list"
  ws_overlapping :: bool

text \<open>One pass over the week calendar; \<open>i\<close> counts the entries.\<close>

definition take_limit :: "week_state \<Rightarrow> int \<Rightarrow> 32 word \<Rightarrow> week_state" where
  "take_limit st limit next_state =
     (if ws_state st \<noteq> next_state \<and> (ws_next st = 0 \<or> (limit \<noteq> 0 \<and> ws_next st > limit))
      then st\<lparr>ws_next := limit\<rparr> else st)"

fun week_pass :: "clock \<Rightarrow> nat \<Rightarrow> calendar_entry list \<Rightarrow> nat \<Rightarrow> week_state \<Rightarrow> week_state option" where
  "week_pass clk fuel [] i st = Some st"
| "week_pass clk fuel (wc # wcs) i st =
     do { (active, limit, next_state) \<leftarrow> is_week_entry_active clk fuel (ws_tm st) wc 0;
          let st1 = st\<lparr>ws_state := ws_state st OR active\<rparr> in
          if limit \<noteq> 0 \<and> ws_state st1 = next_state \<and> ws_next st1 \<ge> limit then
            (if \<not> ws_visited st1 ! i then
               (let t = localtime clk (ws_next st1 + 1) in
                do { (active, limit, next_state) \<leftarrow> is_week_entry_active clk fuel t wc 0;
                     week_pass clk fuel wcs (Suc i)
                       (take_limit (st1\<lparr>ws_tm := t, ws_state := ws_state st1 OR active, ws_next := 0,
                          ws_visited := (ws_visited st1)[i := True], ws_overlapping := True\<rparr>) limit next_state) })
             else Some (st1\<lparr>ws_next := 0, ws_overlapping := False\<rparr>))
          else week_pass clk fuel wcs (Suc i) (take_limit st1 limit next_state) }"

text \<open>Each further pass marks an entry as visited, so one more pass than entries is enough.\<close>

fun week_loop :: "clock \<Rightarrow> nat \<Rightarrow> calendar_entry list \<Rightarrow> nat \<Rightarrow> week_state \<Rightarrow> week_state option" where
  "week_loop clk fuel wcal 0 st = None"
| "week_loop clk fuel wcal (Suc n) st =
     do { st1 \<leftarrow> week_pass clk fuel wcal 0 (st\<lparr>ws_overlapping := False\<rparr>);
          if ws_overlapping st1 then week_loop clk fuel wcal n st1 else Some st1 }"

definition queue_state :: "32 word \<Rightarrow> 32 word" where
  "queue_state state =
     (if state AND QI_DO_ENABLE \<noteq> 0 then QI_DO_ENABLE
      else if state AND QI_DO_SUSPEND \<noteq> 0 then QI_DO_SUSPEND
      else if state AND QI_DO_DISABLE \<noteq> 0 then QI_DO_DISABLE
      else QI_DO_ENABLE)"

definition state_at ::
  "clock \<Rightarrow> nat \<Rightarrow> int \<Rightarrow> calendar_entry list \<Rightarrow> calendar_entry list \<Rightarrow> (32 word \<times> int) option" where
  "state_at clk fuel now ycal wcal =
     do { (state, next_event) \<leftarrow> year_loop clk fuel (localtime clk now) ycal (0, 0);
          if state \<noteq> 0 then Some (queue_state state, next_event)
          else do {
            st \<leftarrow> week_loop clk fuel wcal (Suc (length wcal))
              \<lparr>ws_tm = localtime clk now, ws_state = state, ws_next = next_event,
               ws_visited = replicate (length wcal) False, ws_overlapping = False\<rparr>;
            Some (queue_state (ws_state st), ws_next st) } }"

section \<open>Changes of state\<close>

record calendar =
  CAL_parsed_year_calendar :: "calendar_entry list"
  CAL_parsed_week_calendar :: "calendar_entry list"

definition calendar_get_current_state_and_end :: "clock \<Rightarrow> nat \<Rightarrow> calendar \<Rightarrow> int \<Rightarrow> (32 word \<times> int) option" where
  "calendar_get_current_state_and_end clk fuel cep now =
     do { (state, next_event) \<leftarrow> state_at clk fuel now (CAL_parsed_year_calendar cep) (CAL_parsed_week_calendar cep);
          Some (if state = QI_DO_DISABLE then QI_DO_CAL_DISABLE
                else if state = QI_DO_SUSPEND then QI_DO_CAL_SUSPEND else QI_DO_NOTHING, next_event) }"

text \<open>
  The loops that look for a change: from the time of the last event on, while the state is \<open>same\<close>, up to
  60 events. The results are the time before the last step, the state, the next time, and the count.
\<close>

definition max_state_changes :: nat where "max_state_changes = 60"

function change_loop ::
  "(int \<Rightarrow> (32 word \<times> int) option) \<Rightarrow> 32 word \<Rightarrow> int \<Rightarrow> nat \<Rightarrow> (int \<times> 32 word \<times> int \<times> nat) option" where
  "change_loop get same temp_when changes =
     (case get (temp_when + 1) of
        None \<Rightarrow> None
      | Some (state, next) \<Rightarrow>
          if next \<noteq> 0 \<and> state = same \<and> Suc changes < max_state_changes
          then change_loop get same next (Suc changes)
          else Some (temp_when, state, next, Suc changes))"
  by pat_completeness auto
termination
  by (relation "measure (\<lambda>(get, same, temp_when, changes). max_state_changes - changes)") auto

declare change_loop.simps [simp del]

text \<open>The state, the list of changes with their times, and the time of the next change.\<close>

definition calender_state_changes ::
  "clock \<Rightarrow> nat \<Rightarrow> calendar \<Rightarrow> int \<Rightarrow> (32 word \<times> (32 word \<times> 32 word) list \<times> int) option" where
  "calender_state_changes clk fuel cep now =
     (let get = calendar_get_current_state_and_end clk fuel cep in
      do { (state0, temp_when) \<leftarrow> get now;
           (wn, state1, when1) \<leftarrow>
             (if temp_when = 0 then Some (temp_when, 0, 0)
              else do {
                (w, state1, tw, changes) \<leftarrow> change_loop get state0 temp_when 0;
                let w' = (if state0 = state1 then tw else w) in
                do { (w1, state2, tw2) \<leftarrow>
                       (if tw = 0 then Some (tw, 0, tw)
                        else do { (w1, state2, tw2, _) \<leftarrow> change_loop get state1 tw changes; Some (w1, state2, tw2) });
                     Some (w', state1, if state1 = state2 then tw2 else w1) } });
           Some (state0, (state0, of_int wn) # (if wn \<noteq> 0 then [(state1, of_int when1)] else []), wn) })"

text \<open>Whether the queue stays open; the fuel is the number of changes looked at.\<close>

definition duration_add_offset :: "u32 \<Rightarrow> u32 \<Rightarrow> u32" where
  "duration_add_offset duration offset =
     (if duration = u32_limit - 1 \<or> offset = u32_limit - 1 then u32_limit - 1
      else if u32_limit - 1 - offset < duration then u32_limit - 1 else duration + offset)"

fun open_loop :: "(int \<Rightarrow> (32 word \<times> int) option) \<Rightarrow> int \<Rightarrow> nat \<Rightarrow> int \<Rightarrow> bool option" where
  "open_loop get end_time 0 start = None"
| "open_loop get end_time (Suc n) start =
     do { (state, next_change) \<leftarrow> get start;
          if state = QI_DO_ENABLE \<and> next_change \<noteq> 0 \<and> next_change \<le> end_time
          then open_loop get end_time n next_change
          else Some (state = QI_DO_ENABLE) }"

definition calendar_open_in_time_frame :: "clock \<Rightarrow> nat \<Rightarrow> nat \<Rightarrow> calendar option \<Rightarrow> u32 \<Rightarrow> u32 \<Rightarrow> bool option" where
  "calendar_open_in_time_frame clk fuel changes cep start_time duration =
     (let (ycal, wcal) = (case cep of None \<Rightarrow> ([], []) | Some c \<Rightarrow> (CAL_parsed_year_calendar c, CAL_parsed_week_calendar c)) in
      open_loop (\<lambda>t. state_at clk fuel t ycal wcal) (int (duration_add_offset start_time duration)) changes (int start_time))"

end
