(* ===== verification/Calendar_Facts.thy ===== *)
theory Calendar_Facts
  imports Calendar_State
begin

text \<open>
  Ranges of days and times as sets. The locale \<open>time_order\<close> states what the three compare functions
  promise: on valid times they order them by a number.
\<close>

locale time_order =
  fixes cmp :: cmp_func and key :: "tm \<Rightarrow> int" and valid :: "tm \<Rightarrow> bool"
  assumes cmp_sign: "valid a \<Longrightarrow> valid b \<Longrightarrow> sgn (cmp a b) = sgn (key a - key b)"
begin

lemma cmp_simps:
  assumes "valid a" "valid b"
  shows "cmp a b < 0 \<longleftrightarrow> key a < key b" "cmp a b \<le> 0 \<longleftrightarrow> key a \<le> key b" "cmp a b > 0 \<longleftrightarrow> key b < key a"
    "cmp a b = 0 \<longleftrightarrow> key a = key b"
  using cmp_sign[OF assms] by (auto simp: sgn_if split: if_splits)

definition valid_range :: "tmr \<Rightarrow> bool" where
  "valid_range r \<longleftrightarrow> valid (TMR_begin r) \<and> (\<exists>e. TMR_end r = Some e \<and> valid e \<and> key (TMR_begin r) \<le> key e)"

definition span :: "tmr \<Rightarrow> int set" where
  "span r = {key (TMR_begin r)..key (the (TMR_end r))}"

lemma in_range_span: "valid t \<Longrightarrow> valid_range r \<Longrightarrow> in_range t r cmp \<longleftrightarrow> key t \<in> span r"
  by (auto simp: in_range_def valid_range_def span_def cmp_simps)

lemma in_list_span:
  "valid t \<Longrightarrow> list_all valid_range rs \<Longrightarrow> in_range_list t (Some rs) cmp \<longleftrightarrow> key t \<in> \<Union> (span ` set rs)"
  by (auto simp: in_range_list_def list_ex_iff list_all_iff in_range_span)

lemma overlapping_span:
  assumes "valid_range r" "valid_range q"
  shows "overlapping cmp r q \<longleftrightarrow> span r \<inter> span q \<noteq> {}"
proof -
  obtain e f where "TMR_end r = Some e" "TMR_end q = Some f" using assms by (auto simp: valid_range_def)
  then show ?thesis
    using assms by (auto simp: overlapping_def in_range_def valid_range_def span_def cmp_simps)
qed

lemma combine_span:
  assumes "valid_range r" "valid_range q" "span r \<inter> span q \<noteq> {}"
  obtains r' where "combine_ranges cmp r q = Some r'" "valid_range r'" "span r' = span r \<union> span q"
proof -
  obtain e f where ef: "TMR_end r = Some e" "TMR_end q = Some f" using assms by (auto simp: valid_range_def)
  let ?r' = "\<lparr>TMR_begin = (if cmp (TMR_begin r) (TMR_begin q) > 0 then TMR_begin q else TMR_begin r),
    TMR_end = Some (if cmp e f < 0 then f else e)\<rparr>"
  have "valid_range ?r'" "span ?r' = span r \<union> span q"
    using assms ef by (auto simp: valid_range_def span_def cmp_simps)
  moreover have "combine_ranges cmp r q = Some ?r'" using ef by (simp add: combine_ranges_def Let_def)
  ultimately show ?thesis using that by blast
qed

lemma normalize_one_span:
  assumes "c = cmp" "valid_range r" "list_all valid_range skipped" "list_all valid_range qs"
    and "\<forall>s \<in> set skipped. span r \<inter> span s = {}"
  shows "\<exists>r' rest. normalize_one c r skipped qs = Some (r', rest) \<and> valid_range r' \<and> list_all valid_range rest \<and>
    span r' \<union> \<Union> (span ` set rest) = span r \<union> \<Union> (span ` set skipped) \<union> \<Union> (span ` set qs) \<and>
    (\<forall>s \<in> set rest. span r' \<inter> span s = {})"
  using assms
proof (induction c r skipped qs rule: normalize_one.induct)
  case (2 c r skipped q qs)
  have q: "valid_range q" "list_all valid_range qs" using "2.prems" by auto
  show ?case
  proof (cases "span r \<inter> span q = {}")
    case True
    then have "\<not> overlapping c r q" using "2.prems" q overlapping_span by simp
    then show ?thesis using "2.IH"(2) "2.prems" q True by (simp add: Un_ac)
  next
    case False
    then have o: "overlapping c r q" using "2.prems" q overlapping_span by simp
    obtain r1 where r1: "combine_ranges c r q = Some r1" "valid_range r1" "span r1 = span r \<union> span q"
      using combine_span[OF "2.prems"(2) q(1) False] "2.prems"(1) by metis
    show ?thesis using "2.IH"(1)[OF o r1(1)] "2.prems" q o r1 by (simp add: Un_ac)
  qed
qed simp

text \<open>Normalising keeps the times, and leaves ranges that do not overlap.\<close>

lemma normalize_span:
  assumes "c = cmp" "list_all valid_range rs"
  shows "\<exists>rs'. normalize_range_list c rs = Some rs' \<and> list_all valid_range rs' \<and>
    \<Union> (span ` set rs') = \<Union> (span ` set rs) \<and> pairwise (\<lambda>r s. span r \<inter> span s = {}) (set rs') \<and> (rs \<noteq> [] \<longrightarrow> rs' \<noteq> [])"
  using assms
proof (induction c rs rule: normalize_range_list.induct)
  case (2 c r rs)
  obtain r' rest where n: "normalize_one c r [] rs = Some (r', rest)" "valid_range r'" "list_all valid_range rest"
      "span r' \<union> \<Union> (span ` set rest) = span r \<union> \<Union> (span ` set rs)" "\<forall>s \<in> set rest. span r' \<inter> span s = {}"
    using normalize_one_span[OF "2.prems"(1), of r "[]" rs] "2.prems"(2) by auto
  obtain rs' where rs': "normalize_range_list c rest = Some rs'" "list_all valid_range rs'"
      "\<Union> (span ` set rs') = \<Union> (span ` set rest)" "pairwise (\<lambda>r s. span r \<inter> span s = {}) (set rs')"
    using "2.IH"[OF n(1) refl] "2.prems"(1) n(3) by auto
  have "\<forall>s \<in> set rs'. span r' \<inter> span s = {}" using n(5) rs'(3) by blast
  then have "pairwise (\<lambda>r s. span r \<inter> span s = {}) (set (r' # rs'))"
    using rs'(4) by (auto simp: pairwise_insert)
  then show ?case using n rs' by auto
qed simp

end

section \<open>The three orders\<close>

definition daytime_key :: "tm \<Rightarrow> int" where
  "daytime_key t = (uint (TM_hour t) * 60 + uint (TM_min t)) * 60 + uint (TM_sec t)"

definition daytime_valid :: "tm \<Rightarrow> bool" where
  "daytime_valid t \<longleftrightarrow> TM_hour t \<le> 24 \<and> TM_min t < 60 \<and> TM_sec t < 60 \<and>
     (TM_hour t = 24 \<longrightarrow> TM_min t = 0 \<and> TM_sec t = 0)"

definition wday_key :: "tm \<Rightarrow> int" where "wday_key t = uint (TM_wday t)"
definition wday_valid :: "tm \<Rightarrow> bool" where "wday_valid t \<longleftrightarrow> TM_wday t < 100"

definition yday_key :: "tm \<Rightarrow> int" where
  "yday_key t = (uint (TM_year t) * 12 + uint (TM_mon t)) * 32 + uint (TM_mday t)"

definition yday_valid :: "tm \<Rightarrow> bool" where
  "yday_valid t \<longleftrightarrow> TM_year t < 10000 \<and> TM_mon t < 12 \<and> TM_mday t < 32"

lemma sint_diff:
  fixes a b :: "32 word"
  assumes "uint a < 1000000" "uint b < 1000000"
  shows "sint (a - b) = uint a - uint b"
proof -
  have s: "signed_take_bit 31 k = k" if "- 2147483648 \<le> k" "k < 2147483648" for k :: int
    using that by (intro signed_take_bit_int_eq_self) simp_all
  have "sint a = uint a" "sint b = uint b" using assms by (auto simp: sint_uint intro!: s order_trans[OF _ uint_ge_0])
  then have "sint (a - b) = signed_take_bit 31 (uint a - uint b)" by (simp add: sint_word_ariths)
  also have "\<dots> = uint a - uint b" using assms uint_ge_0[of a] uint_ge_0[of b] by (intro s) linarith+
  finally show ?thesis .
qed

lemma word_diff_0: "(a :: 32 word) - b \<noteq> 0 \<longleftrightarrow> uint a - uint b \<noteq> 0"
  unfolding right_minus_eq word_uint_eq_iff[of a b] ..

text \<open>Comparing field by field is comparing numbers of mixed radix.\<close>

lemma mixed_radix:
  fixes a1 b1 a2 b2 m :: int
  assumes "0 \<le> a2" "a2 < m" "0 \<le> b2" "b2 < m"
  shows "sgn (if a1 - b1 \<noteq> 0 then a1 - b1 else a2 - b2) = sgn ((a1 * m + a2) - (b1 * m + b2))"
proof (cases "a1 = b1")
  case False
  then consider "a1 + 1 \<le> b1" | "b1 + 1 \<le> a1" by linarith
  then show ?thesis
  proof cases
    case 1
    then have "(a1 + 1) * m \<le> b1 * m" using assms by (intro mult_right_mono) auto
    then show ?thesis using 1 assms by (simp add: sgn_if algebra_simps)
  next
    case 2
    then have "(b1 + 1) * m \<le> a1 * m" using assms by (intro mult_right_mono) auto
    then show ?thesis using 2 assms by (simp add: sgn_if algebra_simps)
  qed
qed simp

lemma sgn_if_nested: "sgn (if c then x else y) = (if c then sgn x else sgn (y :: int))"
  by simp

lemma word_bounds:
  fixes a :: "32 word"
  shows "a < 60 \<Longrightarrow> uint a < 60" "a \<le> 24 \<Longrightarrow> uint a \<le> 24" "a < 100 \<Longrightarrow> uint a < 100" "a < 10000 \<Longrightarrow> uint a < 10000"
    "a < 12 \<Longrightarrow> uint a < 12" "a < 32 \<Longrightarrow> uint a < 32"
  by (simp_all add: word_less_def word_le_def)

interpretation dt: time_order tm_daytime_cmp daytime_key daytime_valid
proof
  fix a b assume v: "daytime_valid a" "daytime_valid b"
  have u: "uint (TM_hour x) \<le> 24" "uint (TM_min x) < 60" "uint (TM_sec x) < 60" if "x \<in> {a, b}" for x
    using v that by (auto simp: daytime_valid_def intro: word_bounds)
  note ua = u[of a, simplified] u[of b, simplified]
  have "sgn (tm_daytime_cmp a b) = sgn (if uint (TM_hour a) - uint (TM_hour b) \<noteq> 0 then uint (TM_hour a) - uint (TM_hour b)
      else (if uint (TM_min a) - uint (TM_min b) \<noteq> 0 then uint (TM_min a) - uint (TM_min b)
        else uint (TM_sec a) - uint (TM_sec b)))"
    unfolding tm_daytime_cmp_def word_diff_0 using ua by (simp add: sint_diff)
  also have "\<dots> = sgn (if uint (TM_hour a) - uint (TM_hour b) \<noteq> 0 then uint (TM_hour a) - uint (TM_hour b)
      else ((uint (TM_min a) * 60 + uint (TM_sec a)) - (uint (TM_min b) * 60 + uint (TM_sec b))))"
    unfolding sgn_if_nested using mixed_radix[of "uint (TM_sec a)" 60 "uint (TM_sec b)"] ua by (simp add: sgn_if_nested)
  also have "\<dots> = sgn ((uint (TM_hour a) * 3600 + (uint (TM_min a) * 60 + uint (TM_sec a))) -
      (uint (TM_hour b) * 3600 + (uint (TM_min b) * 60 + uint (TM_sec b))))"
    by (rule mixed_radix) (use ua uint_ge_0[of "TM_min a"] uint_ge_0[of "TM_min b"] uint_ge_0[of "TM_sec a"] uint_ge_0[of "TM_sec b"] in linarith)+
  finally show "sgn (tm_daytime_cmp a b) = sgn (daytime_key a - daytime_key b)"
    by (simp add: daytime_key_def algebra_simps)
qed

interpretation wd: time_order tm_wday_cmp wday_key wday_valid
proof
  fix a b assume "wday_valid a" "wday_valid b"
  then have "uint (TM_wday a) < 100" "uint (TM_wday b) < 100" by (auto simp: wday_valid_def intro: word_bounds)
  then show "sgn (tm_wday_cmp a b) = sgn (wday_key a - wday_key b)"
    by (simp add: tm_wday_cmp_def wday_key_def sint_diff)
qed

interpretation yd: time_order tm_yday_cmp yday_key yday_valid
proof
  fix a b assume v: "yday_valid a" "yday_valid b"
  have u: "uint (TM_year x) < 10000" "uint (TM_mon x) < 12" "uint (TM_mday x) < 32" if "x \<in> {a, b}" for x
    using v that by (auto simp: yday_valid_def intro: word_bounds)
  note ua = u[of a, simplified] u[of b, simplified]
  have "sgn (tm_yday_cmp a b) = sgn (if uint (TM_year a) - uint (TM_year b) \<noteq> 0 then uint (TM_year a) - uint (TM_year b)
      else (if uint (TM_mon a) - uint (TM_mon b) \<noteq> 0 then uint (TM_mon a) - uint (TM_mon b)
        else uint (TM_mday a) - uint (TM_mday b)))"
    unfolding tm_yday_cmp_def word_diff_0 using ua by (simp add: sint_diff)
  also have "\<dots> = sgn (if uint (TM_year a) - uint (TM_year b) \<noteq> 0 then uint (TM_year a) - uint (TM_year b)
      else ((uint (TM_mon a) * 32 + uint (TM_mday a)) - (uint (TM_mon b) * 32 + uint (TM_mday b))))"
    unfolding sgn_if_nested using mixed_radix[of "uint (TM_mday a)" 32 "uint (TM_mday b)"] ua by (simp add: sgn_if_nested)
  also have "\<dots> = sgn ((uint (TM_year a) * 384 + (uint (TM_mon a) * 32 + uint (TM_mday a))) -
      (uint (TM_year b) * 384 + (uint (TM_mon b) * 32 + uint (TM_mday b))))"
    by (rule mixed_radix) (use ua uint_ge_0[of "TM_mon a"] uint_ge_0[of "TM_mon b"] uint_ge_0[of "TM_mday a"] uint_ge_0[of "TM_mday b"] in linarith)+
  finally show "sgn (tm_yday_cmp a b) = sgn (yday_key a - yday_key b)"
    by (simp add: yday_key_def algebra_simps)
qed

section \<open>Times of the day\<close>

lemma daytime_key_bounds: "daytime_valid t \<Longrightarrow> 0 \<le> daytime_key t \<and> daytime_key t \<le> 86400"
proof -
  assume v: "daytime_valid t"
  have u: "uint (TM_hour t) \<le> 24" "uint (TM_min t) < 60" "uint (TM_sec t) < 60"
    using v by (auto simp: daytime_valid_def intro: word_bounds)
  show ?thesis
  proof (cases "TM_hour t = 24")
    case False
    then have "uint (TM_hour t) \<noteq> 24" by (simp add: word_uint_eq_iff)
    then have "uint (TM_hour t) \<le> 23" using u(1) by simp
    moreover have "0 \<le> uint (TM_hour t)" "0 \<le> uint (TM_min t)" "0 \<le> uint (TM_sec t)" by simp_all
    ultimately show ?thesis using u unfolding daytime_key_def distrib_right by (intro conjI) linarith+
  qed (use v in \<open>simp add: daytime_valid_def daytime_key_def\<close>)
qed

text \<open>What a range of times means, also over midnight.\<close>

definition within_times :: "tm \<Rightarrow> tmr \<Rightarrow> bool" where
  "within_times t r \<longleftrightarrow>
     (let k = daytime_key t; b = daytime_key (TMR_begin r); e = daytime_key (the (TMR_end r)) in
      if b \<le> e then b \<le> k \<and> k \<le> e else b \<le> k \<or> k \<le> e)"

definition times_ok :: "tmr \<Rightarrow> bool" where
  "times_ok r \<longleftrightarrow> daytime_valid (TMR_begin r) \<and> (\<exists>e. TMR_end r = Some e \<and> daytime_valid e)"

lemma midnight_valid: "daytime_valid new_tm" "daytime_valid full_day_end" "daytime_key new_tm = 0" "daytime_key full_day_end = 86400"
  by (simp_all add: daytime_valid_def new_tm_def full_day_end_def daytime_key_def)

lemma split_times:
  assumes "times_ok r"
  shows "list_all dt.valid_range (split_daytime_range r)" "split_daytime_range r \<noteq> []"
    "daytime_valid t \<Longrightarrow> daytime_key t \<in> \<Union> (dt.span ` set (split_daytime_range r)) \<longleftrightarrow> within_times t r"
proof -
  obtain b e where r: "r = \<lparr>TMR_begin = b, TMR_end = Some e\<rparr>" "daytime_valid b" "daytime_valid e"
    using assms by (cases r) (auto simp: times_ok_def)
  have k: "0 \<le> daytime_key x \<and> daytime_key x \<le> 86400" if "x \<in> {b, e}" for x
    using daytime_key_bounds r that by auto
  show "list_all dt.valid_range (split_daytime_range r)" "split_daytime_range r \<noteq> []"
    using r k by (auto simp: split_daytime_range_def dt.valid_range_def dt.cmp_simps midnight_valid)
  show "daytime_valid t \<Longrightarrow> daytime_key t \<in> \<Union> (dt.span ` set (split_daytime_range r)) \<longleftrightarrow> within_times t r"
    using r k daytime_key_bounds[of t]
    by (auto simp: split_daytime_range_def dt.span_def within_times_def dt.cmp_simps midnight_valid Let_def)
qed



end
