(* ===== verification/Calendar_Days.thy ===== *)
theory Calendar_Days
  imports Calendar_Facts
begin

text \<open>
  The week days of an entry, after splitting, joining and extending the ranges written: they are the days
  written when the ranges do not touch, and not all of them otherwise.
\<close>

section \<open>Ranges that do not touch\<close>

definition touches :: "tmr \<Rightarrow> tmr \<Rightarrow> bool" where
  "touches r q \<longleftrightarrow> wday_begin q \<le> wday_end r + 1 \<and> wday_begin r \<le> wday_begin q"

text \<open>No range touches another one, before or behind it in the list.\<close>

fun apart :: "tmr list \<Rightarrow> bool" where
  "apart [] = True"
| "apart (r # rs) \<longleftrightarrow> list_all (\<lambda>q. \<not> touches r q \<and> \<not> touches q r) rs \<and> apart rs"

lemma apart_append: "apart (rs @ qs) \<longleftrightarrow> apart rs \<and> apart qs \<and> (\<forall>r \<in> set rs. \<forall>q \<in> set qs. \<not> touches r q \<and> \<not> touches q r)"
  by (induction rs) (auto simp: list_all_iff)

lemma join_over_apart: "list_all (\<lambda>q. \<not> touches r q) qs \<Longrightarrow> join_over (wday_begin r) (wday_end r) he r1 qs = (r1, qs)"
  by (induction qs) (auto simp: touches_def)

lemma join_loop_apart: "apart (before @ after) \<Longrightarrow> join_loop before after = before @ after"
proof (induction before after rule: join_loop.induct)
  case (2 before r after)
  have o: "join_over (wday_begin r) (wday_end r) he q before = (q, before)"
    "join_over (wday_begin r) (wday_end r) he q after = (q, after)" for he q
    using "2.prems" by (auto intro!: join_over_apart simp: apart_append list_all_iff)
  have a: "apart ((before @ [r]) @ after)" using "2.prems" by simp
  show ?case using "2.IH"[OF refl refl refl _ refl _ refl, of r before r after] a
    by (simp add: o Let_def)
qed simp

lemma join_apart: "apart rs \<Longrightarrow> join_wday_range rs = rs"
  unfolding join_wday_range_def by (subst join_loop_apart) simp_all

section \<open>Over the end of the week\<close>

text \<open>A week day, and a range of them; in a range over the end of the week the end is before the begin.\<close>

definition days_ok :: "tmr \<Rightarrow> bool" where
  "days_ok r \<longleftrightarrow> wday_begin r \<le> 6 \<and> wday_end r \<le> 6"

definition on_days :: "tm \<Rightarrow> tmr \<Rightarrow> bool" where
  "on_days t r \<longleftrightarrow>
     (if wday_begin r \<le> wday_end r then wday_begin r \<le> TM_wday t \<and> TM_wday t \<le> wday_end r
      else wday_begin r \<le> TM_wday t \<or> TM_wday t \<le> wday_end r)"

lemma wday_cmp_simps:
  assumes "TM_wday a < 100" "TM_wday b < 100"
  shows "tm_wday_cmp a b \<le> 0 \<longleftrightarrow> TM_wday a \<le> TM_wday b" "tm_wday_cmp a b > 0 \<longleftrightarrow> TM_wday b < TM_wday a"
    "tm_wday_cmp a b = 0 \<longleftrightarrow> TM_wday a = TM_wday b"
  using wd.cmp_simps[of a b] assms
  by (auto simp: wday_valid_def wday_key_def word_le_def word_less_def word_uint_eq_iff)

lemma less_100: "(x :: 32 word) \<le> 13 \<Longrightarrow> x < 100"
  by (rule order.strict_trans1) (assumption, simp add: word_less_def)

lemma in_range_days:
  assumes "wday_begin r \<le> 6" "wday_end r \<le> 13" "TM_wday t \<le> 6"
  shows "in_range t r tm_wday_cmp \<longleftrightarrow> wday_begin r \<le> TM_wday t \<and> TM_wday t \<le> wday_end r"
proof -
  have "(6 :: 32 word) \<le> 13" by simp
  then have v: "TM_wday (TMR_begin r) < 100" "TM_wday t < 100" "wday_end r < 100"
    using assms by (auto intro!: less_100 simp: wday_begin_def intro: order_trans)
  show ?thesis
    using v by (auto simp: in_range_def wday_begin_def wday_end_def wday_cmp_simps split: option.splits)
qed

text \<open>Extending a range adds no day of the week to it.\<close>

definition extends :: "tmr \<Rightarrow> tmr \<Rightarrow> bool" where
  "extends r1 r \<longleftrightarrow> TMR_begin r = TMR_begin r1 \<and>
     (wday_end r = wday_end r1 \<or> wday_end r1 = 6 \<and> 6 \<le> wday_end r \<and> wday_end r \<le> 13)"

lemma extend_one_extends:
  assumes "\<forall>q \<in> set others. wday_begin q = 0 \<longrightarrow> wday_end q \<le> 6"
  shows "extends r1 (extend_one others r1)"
proof -
  have e: "extends r1 (fold (\<lambda>r2 r. if wday_end r1 = 6 \<and> wday_begin r2 = 0
      then r\<lparr>TMR_end := Some ((case TMR_end r of Some e \<Rightarrow> e | None \<Rightarrow> TMR_begin r)\<lparr>TM_wday := wday_end r1 + 1 + wday_end r2\<rparr>)\<rparr>
      else r) others r)" if "extends r1 r" for r
    using assms that
  proof (induction others arbitrary: r)
    case (Cons q qs)
    have "6 \<le> 7 + x \<and> 7 + x \<le> 13" if "x \<le> 6" for x :: "32 word"
    proof -
      have "unat x \<le> 6" using that by (simp add: word_le_nat_alt)
      then have "unat (7 + x) = 7 + unat x" by (subst unat_add_lem[THEN iffD1]) simp_all
      then show ?thesis using \<open>unat x \<le> 6\<close> by (simp add: word_le_nat_alt)
    qed
    then show ?case using Cons by (auto simp: extends_def wday_end_def)
  qed simp
  show ?thesis unfolding extend_one_def Let_def by (rule e) (simp add: extends_def)
qed

lemma extend_one_same: "\<forall>q \<in> set others. wday_begin q \<noteq> 0 \<Longrightarrow> extend_one others r1 = r1"
proof -
  assume "\<forall>q \<in> set others. wday_begin q \<noteq> 0"
  then have "fold (\<lambda>r2 r. if wday_end r1 = 6 \<and> wday_begin r2 = 0
      then r\<lparr>TMR_end := Some ((case TMR_end r of Some e \<Rightarrow> e | None \<Rightarrow> TMR_begin r)\<lparr>TM_wday := wday_end r1 + 1 + wday_end r2\<rparr>)\<rparr>
      else r) others r = r" for r :: tmr
    by (induction others arbitrary: r) auto
  then show ?thesis by (simp add: extend_one_def)
qed

text \<open>Only one range begins with the week, so it is not itself extended before it extends another one.\<close>

lemma extend_loop_extends:
  assumes "distinct (map wday_begin (before @ after))" "\<forall>q \<in> set (before @ after). wday_begin q = 0 \<longrightarrow> wday_end q \<le> 6"
  shows "\<exists>after'. extend_loop before after = before @ after' \<and> list_all2 extends after after'"
  using assms
proof (induction before after rule: extend_loop.induct)
  case (2 before r after)
  let ?r = "extend_one (before @ after) r"
  have e: "extends r ?r" using "2.prems"(2) by (intro extend_one_extends) simp
  then have b: "wday_begin ?r = wday_begin r" by (simp add: extends_def wday_begin_def)
  have "?r = r" if "wday_begin r = 0" using "2.prems"(1) that by (intro extend_one_same) force
  then have "\<forall>q \<in> set ((before @ [?r]) @ after). wday_begin q = 0 \<longrightarrow> wday_end q \<le> 6" using "2.prems"(2) b by auto
  moreover have "distinct (map wday_begin ((before @ [?r]) @ after))" using "2.prems"(1) b by auto
  ultimately obtain after' where "extend_loop (before @ [?r]) after = (before @ [?r]) @ after'" "list_all2 extends after after'"
    using "2.IH" by blast
  then show ?case using e by auto
qed simp

lemma apart_distinct: "apart rs \<Longrightarrow> list_all (\<lambda>r. wday_begin r \<le> wday_end r \<and> days_ok r) rs \<Longrightarrow> distinct (map wday_begin rs)"
proof (induction rs)
  case (Cons r rs)
  have "wday_begin q \<noteq> wday_begin r" if "q \<in> set rs" for q
  proof
    assume e: "wday_begin q = wday_begin r"
    have "wday_end r \<le> wday_end r + 1"
    proof -
      have "unat (wday_end r) \<le> 6" using Cons.prems by (simp add: days_ok_def word_le_nat_alt)
      then have "unat (wday_end r + 1) = unat (wday_end r) + 1" by (subst unat_add_lem[THEN iffD1]) simp_all
      then show ?thesis by (simp add: word_le_nat_alt)
    qed
    then have "touches r q" using e Cons.prems by (auto simp: touches_def)
    then show False using Cons.prems(1) that by (auto simp: list_all_iff)
  qed
  then have "wday_begin r \<notin> wday_begin ` set rs" by force
  then show ?case using Cons by simp
qed simp

lemma list_all2_list_ex:
  "list_all2 P xs ys \<Longrightarrow> (\<And>x y. P x y \<Longrightarrow> x \<in> set xs \<Longrightarrow> Q y \<longleftrightarrow> R x) \<Longrightarrow> list_ex Q ys \<longleftrightarrow> (\<exists>x \<in> set xs. R x)"
  by (induction rule: list_all2_induct) auto

lemma extended_days:
  assumes "apart rs" "list_all (\<lambda>r. wday_begin r \<le> wday_end r \<and> days_ok r) rs" "TM_wday t \<le> 6"
  shows "in_range_list t (Some (extend_wday_range rs)) tm_wday_cmp \<longleftrightarrow> (\<exists>r \<in> set rs. wday_begin r \<le> TM_wday t \<and> TM_wday t \<le> wday_end r)"
proof -
  have "\<forall>q \<in> set rs. wday_begin q = 0 \<longrightarrow> wday_end q \<le> 6" using assms(2) by (auto simp: list_all_iff days_ok_def)
  then have l: "list_all2 extends rs (extend_wday_range rs)"
    using extend_loop_extends[of "[]" rs] apart_distinct[OF assms(1,2)] by (auto simp: extend_wday_range_def)
  have "in_range t q tm_wday_cmp \<longleftrightarrow> wday_begin r \<le> TM_wday t \<and> TM_wday t \<le> wday_end r" if "extends r q" "r \<in> set rs" for r q
  proof -
    have 6: "(6 :: 32 word) \<le> 13" by simp
    have b: "wday_begin q = wday_begin r" "wday_begin r \<le> 6" "wday_end r \<le> 6"
      using that assms(2) by (auto simp: extends_def wday_begin_def list_all_iff days_ok_def)
    have e: "wday_end q = wday_end r \<or> wday_end r = 6 \<and> 6 \<le> wday_end q \<and> wday_end q \<le> 13"
      using that by (simp add: extends_def)
    then have "wday_end q \<le> 13" using b 6 by (auto intro: order_trans)
    then show ?thesis using in_range_days[of q t] b e assms(3) by (auto intro: order_trans)
  qed
  then show ?thesis unfolding in_range_list_def option.case by (rule list_all2_list_ex[OF l])
qed

text \<open>
  The days of an entry are the days written. When no two of the ranges written touch, a day of the
  week is in the list of ranges that is kept, after splitting the ranges that go over the end of the
  week, joining and extending them, exactly if it is in one of the ranges written.
\<close>

theorem week_days_are_those_written:
  assumes "list_all days_ok rs" "apart (concat (map split_wday_range rs))" "TM_wday t \<le> 6"
  shows "in_range_list t (Some (extend_wday_range (join_wday_range (concat (map split_wday_range rs))))) tm_wday_cmp
    \<longleftrightarrow> (\<exists>r \<in> set rs. on_days t r)"
proof -
  have s: "list_all (\<lambda>q. wday_begin q \<le> wday_end q \<and> days_ok q) (split_wday_range r) \<and>
      ((\<exists>q \<in> set (split_wday_range r). wday_begin q \<le> TM_wday t \<and> TM_wday t \<le> wday_end q) \<longleftrightarrow> on_days t r)"
    if "r \<in> set rs" for r
  proof -
    have "days_ok r" using assms(1) that by (simp add: list_all_iff)
    moreover have "tm_wday_cmp (TMR_begin r) e > 0 \<longleftrightarrow> TM_wday e < TM_wday (TMR_begin r)" if "TMR_end r = Some e" for e
      using \<open>days_ok r\<close> that by (intro wday_cmp_simps less_100) (auto simp: days_ok_def wday_begin_def wday_end_def intro: order_trans)
    ultimately show ?thesis using assms(3)
      by (auto simp: split_wday_range_def on_days_def days_ok_def wday_begin_def wday_end_def new_tm_def not_less
          split: option.splits)
  qed
  then have "list_all (\<lambda>q. wday_begin q \<le> wday_end q \<and> days_ok q) (concat (map split_wday_range rs))"
    by (auto simp: list_all_iff)
  then show ?thesis unfolding join_apart[OF assms(2)] using extended_days[OF assms(2) _ assms(3)] s by auto
qed

theorem week_days_are_those_written_witness:
  "in_range_list (new_tm\<lparr>TM_wday := 0\<rparr>) (Some (extend_wday_range (join_wday_range (concat (map split_wday_range
    [\<lparr>TMR_begin = new_tm\<lparr>TM_wday := 6\<rparr>, TMR_end = Some (new_tm\<lparr>TM_wday := 1\<rparr>)\<rparr>]))))) tm_wday_cmp"
  by (subst week_days_are_those_written) code_simp+

section \<open>Ranges that touch\<close>

text \<open>The days of the week on which a calendar has an entry.\<close>

definition days_of_week :: "string \<Rightarrow> nat list option" where
  "days_of_week s =
     (case disabled_week_list (Some s) of
        Some (Inr es) \<Rightarrow>
          Some (filter (\<lambda>d. list_ex (\<lambda>e. in_range_list (new_tm\<lparr>TM_wday := of_nat d\<rparr>) (CA_wday_range_list e) tm_wday_cmp) es) [0..<7])
      | _ \<Rightarrow> None)"

text \<open>
  Days that touch the ones before them are lost. Joining the days \<^verbatim>\<open>mon,tue\<close> keeps Monday only, since
  the end of the second, a single day, is a null list, and joining \<^verbatim>\<open>mon-tue,tue-fri,wed-thu\<close> loses
  Friday, since the end compared with is the one before joining.
\<close>

theorem touching_days_are_lost:
  "days_of_week ''mon,tue'' = Some [1] \<and> days_of_week ''mon-tue,tue-fri,wed-thu'' = Some [1, 2, 3, 4] \<and>
   days_of_week ''mon-tue,thu-fri'' = Some [1, 2, 4, 5]"
  by code_simp

end
