(* ===== verification/Calendar_Times.thy ===== *)
theory Calendar_Times
  imports Calendar_Facts
begin

text \<open>
  The state of a queue by its calendars: what the entries of whole days give, and that the computation
  of the state and of the next change ends, for every calendar the parser accepts. What is relied on of
  the clock is stated in \<open>lawful_clock\<close>.
\<close>

section \<open>Entries\<close>

text \<open>
  The local time is one of the 24 hours and 7 days, and two seconds behind the last second of a day is the
  second second of a day: the clock is not changed at midnight.
\<close>

definition lawful_clock :: "clock \<Rightarrow> bool" where
  "lawful_clock clk \<longleftrightarrow>
     (\<forall>t. daytime_valid (localtime clk t) \<and> TM_hour (localtime clk t) < 24 \<and> TM_wday (localtime clk t) \<le> 6) \<and>
     (\<forall>x. let t = localtime clk (mktime clk (last_second x) + 2) in
        TM_hour t = 0 \<and> TM_min t = 0 \<and> TM_sec t = 1)"

text \<open>A clock of days of 24 hours, without months.\<close>

definition day_clock :: clock where
  "day_clock = \<lparr>
     localtime = \<lambda>t. new_tm\<lparr>TM_mday := of_int (t div 86400 + 1), TM_year := 104, TM_hour := of_int (t mod 86400 div 3600),
       TM_min := of_int (t mod 3600 div 60), TM_sec := of_int (t mod 60), TM_wday := of_int (t div 86400 mod 7)\<rparr>,
     mktime = \<lambda>t. (sint (TM_mday t) - 1) * 86400 + sint (TM_hour t) * 3600 + sint (TM_min t) * 60 + sint (TM_sec t)\<rparr>"

lemma div_bounds:
  fixes x :: int
  assumes "0 \<le> x" "x < c * d" "0 < c"
  shows "0 \<le> x div c \<and> x div c < d"
proof -
  have "c * (x div c) \<le> x" using pos_mod_sign[OF assms(3), of x] by (simp add: minus_mod_eq_mult_div[symmetric])
  then have "\<not> d \<le> x div c" using mult_left_mono[of d "x div c" c] assms by linarith
  then show ?thesis using assms by (simp add: pos_imp_zdiv_nonneg_iff)
qed

lemma day_clock_lawful: "lawful_clock day_clock"
proof -
  have b: "0 \<le> t mod 86400 div 3600 \<and> t mod 86400 div 3600 < 24" "0 \<le> t mod 3600 div 60 \<and> t mod 3600 div 60 < 60"
    "0 \<le> t mod 60 \<and> t mod 60 < 60" "0 \<le> t div 86400 mod 7 \<and> t div 86400 mod 7 < 7" for t :: int
    using div_bounds[of "t mod 86400" 3600 24] div_bounds[of "t mod 3600" 60 60] by simp_all
  have w: "(of_int n :: 32 word) < of_int m" if "0 \<le> n \<and> n < m" "m < 1000" for n m :: int
    using that by (simp add: word_less_def uint_word_of_int take_bit_int_eq_self)
  have "daytime_valid (localtime day_clock t) \<and> TM_hour (localtime day_clock t) < 24 \<and> TM_wday (localtime day_clock t) \<le> 6" for t
  proof -
    have "TM_hour (localtime day_clock t) < 24" "TM_min (localtime day_clock t) < 60" "TM_sec (localtime day_clock t) < 60"
      "TM_wday (localtime day_clock t) < 7"
      using w[OF b(1)[of t]] w[OF b(2)[of t]] w[OF b(3)[of t]] w[OF b(4)[of t]] by (simp_all add: day_clock_def)
    moreover have "x \<le> 6" if "x < 7" for x :: "32 word" using that by (simp add: word_less_nat_alt word_le_nat_alt)
    ultimately show ?thesis by (auto simp: daytime_valid_def)
  qed
  moreover have "let t = localtime day_clock (mktime day_clock (last_second x) + 2) in TM_hour t = 0 \<and> TM_min t = 0 \<and> TM_sec t = 1" for x
  proof -
    define k where "k = mktime day_clock (last_second x) + 2"
    have "k = (sint (TM_mday x) - 1) * 86400 + 86401" by (simp add: k_def day_clock_def last_second_def)
    then have k: "k = 1 + 86400 * sint (TM_mday x)" "k = 1 + 3600 * (24 * sint (TM_mday x))" "k = 1 + 60 * (1440 * sint (TM_mday x))"
      by simp_all
    have "k mod 86400 = 1" unfolding k(1) mod_mult_self2 by simp
    moreover have "k mod 3600 = 1" unfolding k(2) mod_mult_self2 by simp
    moreover have "k mod 60 = 1" unfolding k(3) mod_mult_self2 by simp
    ultimately have "k mod 86400 div 3600 = 0" "k mod 3600 div 60 = 0" "k mod 60 = 1" by simp_all
    then show ?thesis unfolding k_def[symmetric] by (simp add: day_clock_def Let_def)
  qed
  ultimately show ?thesis unfolding lawful_clock_def by blast
qed


definition begins_day :: "tmr \<Rightarrow> bool" where
  "begins_day r \<longleftrightarrow> TM_hour (TMR_begin r) = 0 \<and> TM_min (TMR_begin r) = 0 \<and> TM_sec (TMR_begin r) = 0"

definition times_list_ok :: "tmr list option \<Rightarrow> bool" where
  "times_list_ok dl \<longleftrightarrow> (\<exists>ds. dl = Some ds \<and> list_all dt.valid_range ds \<and> (\<exists>r \<in> set ds. 0 < daytime_key (the (TMR_end r))))"

definition week_entry_ok :: "calendar_entry \<Rightarrow> bool" where
  "week_entry_ok e \<longleftrightarrow> CA_yday_range_list e = None \<and> times_list_ok (CA_daytime_range_list e) \<and>
     (\<exists>ws. CA_wday_range_list e = Some ws \<and> ws \<noteq> [] \<and> list_all begins_day ws)"

definition year_entry_ok :: "calendar_entry \<Rightarrow> bool" where
  "year_entry_ok e \<longleftrightarrow> CA_wday_range_list e = None \<and> times_list_ok (CA_daytime_range_list e) \<and>
     (\<forall>ys. CA_yday_range_list e = Some ys \<longrightarrow> list_all begins_day ys)"

lemma nearest_None: "nearest cmp later rs = None \<longleftrightarrow> list_all (\<lambda>r. \<not> later (TMR_begin r)) rs"
proof -
  have "foldl (\<lambda>lep r. let b = TMR_begin r in
      if later b \<and> (case lep of None \<Rightarrow> True | Some l \<Rightarrow> cmp l b > 0) then Some b else lep) lep rs = None
    \<longleftrightarrow> lep = None \<and> list_all (\<lambda>r. \<not> later (TMR_begin r)) rs" for lep
    by (induction rs arbitrary: lep) (auto simp: Let_def split: option.splits)
  then show ?thesis by (simp add: nearest_def)
qed

lemma nearest_Some: "nearest cmp later rs = Some l \<Longrightarrow> \<exists>r \<in> set rs. l = TMR_begin r \<and> later l"
proof -
  have "foldl (\<lambda>lep r. let b = TMR_begin r in
      if later b \<and> (case lep of None \<Rightarrow> True | Some l \<Rightarrow> cmp l b > 0) then Some b else lep) lep rs = Some l
    \<Longrightarrow> lep = Some l \<or> (\<exists>r \<in> set rs. l = TMR_begin r \<and> later l)" for lep
    by (induction rs arbitrary: lep) (fastforce simp: Let_def split: option.splits if_splits)+
  then show "nearest cmp later rs = Some l \<Longrightarrow> ?thesis" unfolding nearest_def by blast
qed

lemma active_week_Some: "in_range_list now (Some ws) tm_wday_cmp \<Longrightarrow> fst (active_week full now ws always) \<noteq> None"
  by (induction full now ws always rule: active_week.induct) (auto simp: in_range_list_def Let_def)

lemma full_day_Some: "times_list_ok dl \<Longrightarrow> \<exists>ds full. dl = Some ds \<and> is_full_day ds = Some full"
  by (cases dl; cases "the dl") (auto simp: times_list_ok_def is_full_day_def dt.valid_range_def Let_def)

section \<open>The change within a day\<close>

text \<open>On a day of the entry there is a later change if the entry is active, or begins later.\<close>

lemma day_change_active:
  assumes "times_list_ok (Some ds)" "in_range_list t (Some ds) tm_daytime_cmp"
  shows "\<not> snd (day_change clk True is_year ds t)"
proof -
  obtain r where r: "find (\<lambda>r. in_range t r tm_daytime_cmp) ds = Some r"
    using assms(2) by (cases "find (\<lambda>r. in_range t r tm_daytime_cmp) ds") (auto simp: in_range_list_def list_ex_iff find_None_iff)
  then have "r \<in> set ds" by (metis find_Some_iff nth_mem)
  then show ?thesis using r assms(1)
    by (auto simp: day_change_def Let_def times_list_ok_def list_all_iff dt.valid_range_def)
qed

lemma last_second_alt: "t\<lparr>TM_hour := 23, TM_min := 59, TM_sec := 59\<rparr> = last_second t"
  by (cases t) (simp add: last_second_def)

lemma day_change_end: "snd (day_change clk active is_year ds t) \<Longrightarrow> fst (day_change clk active is_year ds t) = mktime clk (last_second t) + 1"
  by (cases t) (auto simp: day_change_def Let_def last_second_def)

text \<open>The first second of a day is within a range of times that begins with the day.\<close>

lemma later_begin:
  assumes "times_list_ok (Some ds)" "TM_hour t = 0" "TM_min t = 0" "TM_sec t = 1" "\<not> in_range_list t (Some ds) tm_daytime_cmp"
  shows "\<not> list_all (\<lambda>r. \<not> tm_daytime_cmp t (TMR_begin r) < 0) ds"
proof -
  obtain r where r: "r \<in> set ds" "dt.valid_range r" "0 < daytime_key (the (TMR_end r))" "\<not> in_range t r tm_daytime_cmp"
    using assms(1,5) by (auto simp: times_list_ok_def in_range_list_def list_ex_iff list_all_iff)
  have v: "daytime_valid t" "daytime_key t = 1" using assms by (simp_all add: daytime_valid_def daytime_key_def)
  have "daytime_key t < daytime_key (TMR_begin r)"
    using r v dt.in_range_span[OF v(1), of r] by (auto simp: dt.span_def)
  then show ?thesis using r v dt.cmp_simps(1)[OF v(1)] by (auto simp: list_all_iff dt.valid_range_def)
qed

section \<open>The state by an entry of the week\<close>

lemma other_day_week:
  assumes "ws \<noteq> []" "list_all begins_day ws" "active \<Longrightarrow> in_range_list t (Some ws) tm_wday_cmp"
  shows "\<exists>step. other_day full active None (Some ws) t = Some step \<and>
    (\<forall>l e. \<not> active \<longrightarrow> step = Inr (Some l, e) \<longrightarrow> TM_hour l = 0 \<and> TM_min l = 0 \<and> TM_sec l = 0)"
proof (cases active)
  case True
  then have "fst (active_week full t ws True) \<noteq> None" using assms(3) by (intro active_week_Some) simp
  then show ?thesis using True by (auto simp: other_day_def split: prod.splits option.splits)
next
  case False
  have n: "nearest tm_wday_cmp (\<lambda>_. True) ws \<noteq> None" unfolding nearest_None using assms(1) by (cases ws) auto
  have b: "TM_hour l = 0 \<and> TM_min l = 0 \<and> TM_sec l = 0" if "nearest tm_wday_cmp later ws = Some l" for later l
    using nearest_Some[OF that] assms(2) by (auto simp: list_all_iff begins_day_def)
  show ?thesis using False n by (auto simp: other_day_def b split: option.splits)
qed

text \<open>The limit exists; only on a day of the entry, and behind its last time, is it the end of the day.\<close>

lemma compute_limit_week:
  assumes "ws \<noteq> []" "list_all begins_day ws" "times_list_ok (Some ds)" "today = in_range_list t (Some ws) tm_wday_cmp"
    "active = (today \<and> in_range_list t (Some ds) tm_daytime_cmp)"
  shows "\<exists>limit end_of_day. compute_limit clk today active None (Some ws) (Some ds) t = Some (limit, end_of_day) \<and>
    (end_of_day \<longrightarrow> today \<and> \<not> active \<and> limit = mktime clk (last_second t) + 1 \<and>
      list_all (\<lambda>r. \<not> tm_daytime_cmp t (TMR_begin r) < 0) ds)"
proof -
  obtain full where full: "is_full_day ds = Some full" using full_day_Some[OF assms(3)] by auto
  show ?thesis
  proof (cases "\<not> full \<and> today")
    case True
    then have c: "compute_limit clk today active None (Some ws) (Some ds) t = Some (day_change clk active False ds t)"
      using full by (simp add: compute_limit_def)
    obtain limit eod where d: "day_change clk active False ds t = (limit, eod)" by fastforce
    have "\<not> active \<and> limit = mktime clk (last_second t) + 1 \<and> list_all (\<lambda>r. \<not> tm_daytime_cmp t (TMR_begin r) < 0) ds" if "eod"
    proof -
      have "\<not> active" using day_change_active[OF assms(3), of t clk False] assms(5) d that by auto
      moreover have "limit = mktime clk (last_second t) + 1" using day_change_end[of clk active False ds t] d that by simp
      moreover have "nearest tm_daytime_cmp (\<lambda>b. tm_daytime_cmp t b \<le> 0) ds = None"
        using d that \<open>\<not> active\<close> by (simp add: day_change_def Let_def)
      ultimately show ?thesis by (auto simp: nearest_None list_all_iff)
    qed
    then show ?thesis using c d True by auto
  next
    case False
    obtain step where o: "other_day full active None (Some ws) t = Some step"
      "\<forall>l e. \<not> active \<longrightarrow> step = Inr (Some l, e) \<longrightarrow> TM_hour l = 0 \<and> TM_min l = 0 \<and> TM_sec l = 0"
      using other_day_week[OF assms(1,2), of active t full] assms(4,5) by blast
    have "\<exists>limit. day_change clk active False ds (l\<lparr>TM_isdst := - 1\<rparr>) = (limit, False)" if l: "\<not> full" "step = Inr (Some l, e)" for l e
    proof -
      have "\<not> active" using l(1) False assms(5) by blast
      then have z: "TM_hour l = 0" "TM_min l = 0" "TM_sec l = 0" using o(2) l(2) by auto
      have k: "daytime_valid (l\<lparr>TM_isdst := - 1\<rparr>)" "daytime_key (l\<lparr>TM_isdst := - 1\<rparr>) = 0"
        using z by (simp_all add: daytime_valid_def daytime_key_def)
      obtain r where r: "r \<in> set ds" "daytime_valid (TMR_begin r)"
        using assms(3) by (auto simp: times_list_ok_def list_all_iff dt.valid_range_def)
      have "tm_daytime_cmp (l\<lparr>TM_isdst := - 1\<rparr>) (TMR_begin r) \<le> 0"
        unfolding dt.cmp_simps(2)[OF k(1) r(2)] k(2) by (simp add: daytime_key_def)
      then have "nearest tm_daytime_cmp (\<lambda>b. tm_daytime_cmp (l\<lparr>TM_isdst := - 1\<rparr>) b \<le> 0) ds \<noteq> None"
        using r(1) unfolding nearest_None by (auto simp: list_all_iff)
      then show ?thesis using \<open>\<not> active\<close> by (auto simp: day_change_def Let_def)
    qed
    note inside = this
    consider "step = Inl ()" | e where "step = Inr (None, e)" | l e where "step = Inr (Some l, e)" "full"
      | l e where "step = Inr (Some l, e)" "\<not> full"
      by (cases step) (auto, metis option.exhaust)
    then have "\<exists>limit. compute_limit clk today active None (Some ws) (Some ds) t = Some (limit, False)"
    proof cases
      case (4 l e)
      then obtain limit where "day_change clk active False ds (l\<lparr>TM_isdst := - 1\<rparr>) = (limit, False)" using inside by blast
      then show ?thesis using 4 False full o(1) by (simp add: compute_limit_def Let_def)
    qed (use False full o(1) in \<open>auto simp: compute_limit_def Let_def\<close>)
    then show ?thesis by blast
  qed
qed

definition week_limit :: "clock \<Rightarrow> tm \<Rightarrow> calendar_entry \<Rightarrow> (int \<times> bool) option" where
  "week_limit clk t e = (let today = in_range_list t (CA_wday_range_list e) tm_wday_cmp in
     compute_limit clk today (today \<and> in_range_list t (CA_daytime_range_list e) tm_daytime_cmp) None
       (CA_wday_range_list e) (CA_daytime_range_list e) t)"

lemma week_entry_done: "week_limit clk t e = Some (limit, False) \<Longrightarrow> is_week_entry_active clk (Suc fuel) t e rec_count \<noteq> None"
  by (simp add: week_limit_def Let_def)

lemma week_entry_again:
  "week_limit clk t e = Some (limit, True) \<Longrightarrow> is_week_entry_active clk fuel (localtime clk (limit + 1)) e 0 \<noteq> None \<Longrightarrow>
    is_week_entry_active clk (Suc fuel) t e 0 \<noteq> None"
  by (auto simp: week_limit_def Let_def)

text \<open>The computation calls itself at most once more.\<close>

lemma week_entry_returns:
  assumes "lawful_clock clk" "week_entry_ok e"
  shows "is_week_entry_active clk (Suc (Suc fuel)) t e 0 \<noteq> None"
proof -
  obtain ws ds where e: "CA_wday_range_list e = Some ws" "ws \<noteq> []" "list_all begins_day ws"
      "CA_daytime_range_list e = Some ds" "times_list_ok (Some ds)"
    using assms(2) by (auto simp: week_entry_ok_def times_list_ok_def)
  have limit: "\<exists>l eod. week_limit clk t e = Some (l, eod) \<and> (eod \<longrightarrow> l = mktime clk (last_second t) + 1 \<and>
      \<not> in_range_list t (Some ds) tm_daytime_cmp \<and> list_all (\<lambda>r. \<not> tm_daytime_cmp t (TMR_begin r) < 0) ds)" for t
    using compute_limit_week[OF e(2,3,5) refl refl, of clk t] e by (auto simp: week_limit_def Let_def)
  obtain l eod where l: "week_limit clk t e = Some (l, eod)" "eod \<longrightarrow> l = mktime clk (last_second t) + 1"
    using limit by blast
  show ?thesis
  proof (cases eod)
    case True
    define t' where "t' = localtime clk (l + 1)"
    moreover have "l + 1 = mktime clk (last_second t) + 2" using l(2) True by simp
    ultimately have t': "TM_hour t' = 0" "TM_min t' = 0" "TM_sec t' = 1"
      using assms(1) by (simp_all only: lawful_clock_def Let_def)
    obtain l' where "week_limit clk t' e = Some (l', False)"
      using limit[of t'] later_begin[OF e(5) t'] by (metis (full_types))
    then have "is_week_entry_active clk (Suc fuel) (localtime clk (l + 1)) e 0 \<noteq> None" unfolding t'_def by (rule week_entry_done)
    moreover have "week_limit clk t e = Some (l, True)" using l(1) True by simp
    ultimately show ?thesis by (rule week_entry_again[rotated])
  next
    case False
    then have "week_limit clk t e = Some (l, False)" using l(1) by simp
    then show ?thesis by (rule week_entry_done)
  qed
qed


section \<open>The state by a week calendar\<close>

definition unvisited :: "week_state \<Rightarrow> nat" where
  "unvisited st = length (filter Not (ws_visited st))"

lemma visit_length: "i < length vs \<Longrightarrow> \<not> vs ! i \<Longrightarrow> length (filter Not vs) = Suc (length (filter Not (vs[i := True])))"
  by (induction vs arbitrary: i) (auto simp: nth_Cons split: nat.splits)

lemma take_limit_simps [simp]:
  "ws_visited (take_limit st limit next) = ws_visited st" "ws_overlapping (take_limit st limit next) = ws_overlapping st"
  "ws_state (take_limit st limit next) = ws_state st" "ws_tm (take_limit st limit next) = ws_tm st"
  by (simp_all add: take_limit_def)

text \<open>A pass that leaves something to look at again has marked one more entry as visited.\<close>

lemma week_pass_returns:
  assumes "\<forall>e \<in> set wcs. \<forall>t. is_week_entry_active clk fuel t e 0 \<noteq> None" "i + length wcs = length (ws_visited st)"
  shows "\<exists>st'. week_pass clk fuel wcs i st = Some st' \<and> length (ws_visited st') = length (ws_visited st) \<and>
    unvisited st' \<le> unvisited st \<and> (ws_overlapping st' \<longrightarrow> ws_overlapping st \<or> unvisited st' < unvisited st)"
  using assms
proof (induction wcs arbitrary: i st)
  case (Cons wc wcs)
  obtain active limit next_state where a: "is_week_entry_active clk fuel (ws_tm st) wc 0 = Some (active, limit, next_state)"
    using Cons.prems(1) by fastforce
  let ?st1 = "st\<lparr>ws_state := ws_state st OR active\<rparr>"
  have v: "ws_visited ?st1 = ws_visited st" "ws_overlapping ?st1 = ws_overlapping st" by simp_all
  show ?case
  proof (cases "limit \<noteq> 0 \<and> ws_state ?st1 = next_state \<and> ws_next ?st1 \<ge> limit")
    case True
    show ?thesis
    proof (cases "ws_visited st ! i")
      case False
      let ?t = "localtime clk (ws_next ?st1 + 1)"
      obtain active' limit' next' where a': "is_week_entry_active clk fuel ?t wc 0 = Some (active', limit', next')"
        using Cons.prems(1) by fastforce
      define st2 where "st2 = take_limit (?st1\<lparr>ws_tm := ?t, ws_state := ws_state ?st1 OR active', ws_next := 0,
        ws_visited := (ws_visited ?st1)[i := True], ws_overlapping := True\<rparr>) limit' next'"
      have u: "unvisited st = Suc (unvisited st2)" "length (ws_visited st2) = length (ws_visited st)"
        using False Cons.prems(2) by (auto simp: unvisited_def st2_def visit_length)
      obtain st' where st': "week_pass clk fuel wcs (Suc i) st2 = Some st'" "length (ws_visited st') = length (ws_visited st2)"
          "unvisited st' \<le> unvisited st2"
        using Cons.IH[of "Suc i" st2] Cons.prems u by auto
      have "week_pass clk fuel (wc # wcs) i st = Some st'"
        using a a' True False st'(1) by (simp add: st2_def Let_def)
      then show ?thesis using u st' by auto
    qed (use a True in \<open>auto simp: Let_def unvisited_def\<close>)
  next
    case False
    obtain st' where "week_pass clk fuel wcs (Suc i) (take_limit ?st1 limit next_state) = Some st'"
        "length (ws_visited st') = length (ws_visited st)" "unvisited st' \<le> unvisited st"
        "ws_overlapping st' \<longrightarrow> ws_overlapping st \<or> unvisited st' < unvisited st"
      using Cons.IH[of "Suc i" "take_limit ?st1 limit next_state"] Cons.prems by (auto simp: unvisited_def)
    moreover from this have "week_pass clk fuel (wc # wcs) i st = Some st'" using a False by (auto simp: Let_def)
    ultimately show ?thesis by blast
  qed
qed simp

lemma week_loop_returns:
  assumes "\<forall>e \<in> set wcal. \<forall>t. is_week_entry_active clk fuel t e 0 \<noteq> None" "length wcal = length (ws_visited st)" "unvisited st < n"
  shows "week_loop clk fuel wcal n st \<noteq> None"
  using assms(2,3)
proof (induction n arbitrary: st)
  case (Suc n)
  obtain st' where st': "week_pass clk fuel wcal 0 (st\<lparr>ws_overlapping := False\<rparr>) = Some st'"
      "length (ws_visited st') = length (ws_visited st)" "ws_overlapping st' \<longrightarrow> unvisited st' < unvisited st"
    using week_pass_returns[OF assms(1), of 0 "st\<lparr>ws_overlapping := False\<rparr>"] Suc.prems by (auto simp: unvisited_def)
  show ?case
  proof (cases "ws_overlapping st'")
    case True
    then have "week_loop clk fuel wcal n st' \<noteq> None" using st' Suc.prems by (intro Suc.IH) auto
    then show ?thesis using st'(1) True by simp
  qed (use st' in simp)
qed simp

lemma unvisited_start: "unvisited \<lparr>ws_tm = t, ws_state = s, ws_next = n, ws_visited = replicate k False, ws_overlapping = o'\<rparr> = k"
  by (induction k) (simp_all add: unvisited_def)

lemma week_entries_return:
  assumes "lawful_clock clk" "list_all week_entry_ok wcal"
  shows "\<exists>state next. state_at clk (Suc (Suc fuel)) now [] wcal = Some (state, next)"
proof -
  have "\<forall>e \<in> set wcal. \<forall>t. is_week_entry_active clk (Suc (Suc fuel)) t e 0 \<noteq> None"
    using assms week_entry_returns by (simp only: list_all_iff) blast
  then show ?thesis
    using week_loop_returns[of wcal clk "Suc (Suc fuel)" "\<lparr>ws_tm = localtime clk now, ws_state = 0, ws_next = 0,
      ws_visited = replicate (length wcal) False, ws_overlapping = False\<rparr>" "Suc (length wcal)"]
    by (auto simp: state_at_def unvisited_start simp del: week_loop.simps)
qed


section \<open>Whole days\<close>

definition whole_day :: "calendar_entry \<Rightarrow> bool" where
  "whole_day e \<longleftrightarrow> CA_daytime_range_list e = Some full_daytime_range"

definition on_day :: "tm \<Rightarrow> calendar_entry \<Rightarrow> bool" where
  "on_day t e \<longleftrightarrow> in_range_list t (CA_yday_range_list e) tm_yday_cmp \<and> in_range_list t (CA_wday_range_list e) tm_wday_cmp"

lemma full_range: "daytime_valid t \<Longrightarrow> in_range_list t (Some full_daytime_range) tm_daytime_cmp"
proof -
  assume v: "daytime_valid t"
  have "dt.valid_range \<lparr>TMR_begin = new_tm, TMR_end = Some full_day_end\<rparr>"
    by (simp add: dt.valid_range_def midnight_valid)
  then show ?thesis using dt.in_range_span[OF v] daytime_key_bounds[OF v]
    by (simp add: in_range_list_def full_daytime_range_def dt.span_def midnight_valid)
qed

lemma is_full_day_full: "is_full_day full_daytime_range = Some True"
  by (simp add: is_full_day_def full_daytime_range_def full_day_end_def new_tm_def Let_def)

text \<open>An entry of whole days of the year.\<close>

lemma year_entry_whole:
  assumes "whole_day e" "CA_wday_range_list e = None" "daytime_valid t"
  shows "\<exists>limit. is_year_entry_active clk (Suc fuel) t e = Some (if on_day t e then CA_state e else 0, limit)"
proof -
  have d: "on_day t e \<longleftrightarrow> in_range_list t (CA_yday_range_list e) tm_yday_cmp" using assms(2) by (simp add: on_day_def in_range_list_def)
  have f: "in_range_list t (Some full_daytime_range) tm_daytime_cmp" using assms(3) by (rule full_range)
  have "\<exists>limit. compute_limit clk (on_day t e) (on_day t e) (CA_yday_range_list e) None (Some full_daytime_range) t = Some (limit, False)"
  proof (cases "CA_yday_range_list e")
    case (Some ys)
    show ?thesis
    proof (cases "on_day t e")
      case True
      then obtain r where "find (\<lambda>r. in_range t r tm_yday_cmp) ys = Some r"
        using d Some by (cases "find (\<lambda>r. in_range t r tm_yday_cmp) ys") (auto simp: in_range_list_def list_ex_iff find_None_iff)
      then show ?thesis using True Some by (simp add: compute_limit_def is_full_day_full other_day_def Let_def)
    next
      case False
      then show ?thesis using Some
        by (cases "nearest tm_yday_cmp (\<lambda>b. tm_yday_cmp t b < 0) ys")
          (simp_all add: compute_limit_def is_full_day_full other_day_def Let_def)
    qed
  qed (simp add: compute_limit_def)
  then show ?thesis using assms(1) d f by (auto simp: whole_day_def)
qed

lemma year_loop_whole:
  assumes "list_all (\<lambda>e. whole_day e \<and> CA_wday_range_list e = None) ycal" "daytime_valid t"
  shows "\<exists>next'. year_loop clk (Suc fuel) t ycal (state, next) =
    Some (fold (\<lambda>e s. s OR CA_state e) (filter (on_day t) ycal) state, next')"
  using assms(1)
proof (induction ycal arbitrary: state "next")
  case (Cons e ycal)
  obtain limit where e: "is_year_entry_active clk (Suc fuel) t e = Some (if on_day t e then CA_state e else 0, limit)"
    using year_entry_whole assms(2) Cons.prems by fastforce
  have "\<exists>next'. year_loop clk (Suc fuel) t (e # ycal) (state, next)
      = year_loop clk (Suc fuel) t ycal (if on_day t e then state OR CA_state e else state, next')"
    unfolding year_loop.simps e bind_simps prod.case by auto
  then show ?case using Cons by fastforce
qed simp

lemma fold_or_bit:
  "fold (\<lambda>e s. s OR f e) es (s :: 32 word) AND b \<noteq> 0 \<longleftrightarrow> s AND b \<noteq> 0 \<or> (\<exists>e \<in> set es. f e AND b \<noteq> 0)"
proof (induction es arbitrary: s)
  case (Cons e es)
  have "(s OR f e) AND b \<noteq> 0 \<longleftrightarrow> s AND b \<noteq> 0 \<or> f e AND b \<noteq> 0"
    by (auto simp: bit_eq_iff bit_and_iff bit_or_iff)
  then show ?case using Cons by auto
qed simp




text \<open>An entry of whole days of the week, and a week calendar of such entries that all have the same state.\<close>

lemma week_entry_whole:
  assumes "whole_day e" "week_entry_ok e" "daytime_valid t"
  shows "\<exists>limit. is_week_entry_active clk (Suc fuel) t e rec_count =
    Some (if on_day t e then CA_state e else 0, limit, if on_day t e \<or> limit = 0 then 0 else CA_state e)"
proof -
  obtain ws where ws: "CA_wday_range_list e = Some ws" "ws \<noteq> []" "list_all begins_day ws" "CA_yday_range_list e = None"
    using assms(2) by (auto simp: week_entry_ok_def)
  have d: "in_range_list t (Some ws) tm_wday_cmp \<longleftrightarrow> on_day t e" using ws by (simp add: on_day_def in_range_list_def)
  have f: "in_range_list t (Some full_daytime_range) tm_daytime_cmp" using assms(3) by (rule full_range)
  obtain step where o: "other_day True (on_day t e) None (Some ws) t = Some step"
    using other_day_week[OF ws(2,3), of "on_day t e" t True] d by blast
  have "\<exists>limit. compute_limit clk (on_day t e) (on_day t e) None (Some ws) (Some full_daytime_range) t = Some (limit, False)"
    using o by (auto simp: compute_limit_def is_full_day_full Let_def split: sum.split option.split prod.split)
  then show ?thesis using assms(1) ws(1) d f by (auto simp: whole_day_def Let_def)
qed

declare is_week_entry_active.simps [simp del]

lemma week_pass_whole:
  assumes "list_all (\<lambda>e. whole_day e \<and> week_entry_ok e \<and> CA_state e = s) wcs" "lawful_clock clk" "s \<noteq> 0"
    "week_pass clk (Suc fuel) wcs i st = Some st'"
    "ws_state st = s \<or> ws_state st = 0 \<and> ws_tm st = localtime clk now \<and> \<not> ws_overlapping st" "daytime_valid (ws_tm st)"
  shows "(if ws_state st = s \<or> list_ex (on_day (localtime clk now)) wcs then ws_state st' = s
    else ws_state st' = 0 \<and> \<not> ws_overlapping st') \<and> daytime_valid (ws_tm st')"
  using assms(1,4-)
proof (induction wcs arbitrary: i st)
  case (Cons e wcs)
  define act where "act = on_day (ws_tm st) e"
  have e: "whole_day e" "week_entry_ok e" "CA_state e = s" using Cons.prems(1) by auto
  obtain limit where a: "is_week_entry_active clk (Suc fuel) (ws_tm st) e 0 =
      Some (if act then s else 0, limit, if act \<or> limit = 0 then 0 else s)"
    using week_entry_whole[OF e(1,2) Cons.prems(4), of clk fuel 0] e(3) by (auto simp: act_def)
  let ?st1 = "st\<lparr>ws_state := ws_state st OR (if act then s else 0)\<rparr>"
  have s1: "ws_state ?st1 = (if ws_state st = s \<or> act then s else 0)" using Cons.prems(3) by auto
  show ?case
  proof (cases "limit \<noteq> 0 \<and> ws_state ?st1 = (if act \<or> limit = 0 then 0 else s) \<and> ws_next ?st1 \<ge> limit")
    case True
    then have st: "ws_state st = s" "\<not> act" using s1 assms(3) by (auto split: if_splits)
    let ?t = "localtime clk (ws_next ?st1 + 1)"
    have v: "daytime_valid ?t" using assms(2) by (simp add: lawful_clock_def)
    obtain limit' where a': "is_week_entry_active clk (Suc fuel) ?t e 0 =
        Some (if on_day ?t e then s else 0, limit', if on_day ?t e \<or> limit' = 0 then 0 else s)"
      using week_entry_whole[OF e(1,2) v, of clk fuel 0] e(3) by auto
    show ?thesis
    proof (cases "ws_visited st ! i")
      case False
      define st2 where "st2 = take_limit (?st1\<lparr>ws_tm := ?t, ws_state := ws_state ?st1 OR (if on_day ?t e then s else 0),
        ws_next := 0, ws_visited := (ws_visited ?st1)[i := True], ws_overlapping := True\<rparr>) limit'
        (if on_day ?t e \<or> limit' = 0 then 0 else s)"
      have "week_pass clk (Suc fuel) wcs (Suc i) st2 = Some st'"
        using Cons.prems(2) a a' True False by (simp only: week_pass.simps bind_simps prod.case Let_def if_True st2_def simp_thms) simp
      moreover have "ws_state st2 = s" "ws_tm st2 = ?t" using st by (simp_all add: st2_def)
      ultimately show ?thesis using Cons.IH[of "Suc i" st2] Cons.prems(1) v st by simp
    next
      case visited: True
      then have "st' = ?st1\<lparr>ws_next := 0, ws_overlapping := False\<rparr>"
        using Cons.prems(2) a True by (simp only: week_pass.simps bind_simps prod.case Let_def if_True simp_thms) simp
      then show ?thesis using st Cons.prems(4) by simp
    qed
  next
    case False
    let ?st2 = "take_limit ?st1 limit (if act \<or> limit = 0 then 0 else s)"
    have "week_pass clk (Suc fuel) wcs (Suc i) ?st2 = Some st'"
      using Cons.prems(2) unfolding week_pass.simps a bind_simps prod.case Let_def using False by auto
    moreover have "on_day (localtime clk now) e = act" if "ws_state st \<noteq> s" using that Cons.prems(3) by (auto simp: act_def)
    ultimately show ?thesis using Cons.IH[of "Suc i" ?st2] Cons.prems s1 assms(3) by (auto split: if_splits)
  qed
qed auto


lemma week_loop_whole:
  assumes "list_all (\<lambda>e. whole_day e \<and> week_entry_ok e \<and> CA_state e = s) wcs" "lawful_clock clk" "s \<noteq> 0"
    "week_loop clk (Suc fuel) wcs n st = Some st'"
    "ws_state st = s \<or> ws_state st = 0 \<and> ws_tm st = localtime clk now" "daytime_valid (ws_tm st)"
  shows "ws_state st' = (if ws_state st = s \<or> list_ex (on_day (localtime clk now)) wcs then s else 0)"
  using assms(4-)
proof (induction n arbitrary: st)
  case (Suc n)
  obtain st1 where st1: "week_pass clk (Suc fuel) wcs 0 (st\<lparr>ws_overlapping := False\<rparr>) = Some st1"
      "(if ws_overlapping st1 then week_loop clk (Suc fuel) wcs n st1 else Some st1) = Some st'"
    using Suc.prems(1) by (auto simp: Option.bind_eq_Some_conv)
  have p: "(if ws_state st = s \<or> list_ex (on_day (localtime clk now)) wcs then ws_state st1 = s
      else ws_state st1 = 0 \<and> \<not> ws_overlapping st1) \<and> daytime_valid (ws_tm st1)"
    using week_pass_whole[OF assms(1-3) st1(1), of now] Suc.prems(2,3) by auto
  show ?case
  proof (cases "ws_overlapping st1")
    case True
    then have "ws_state st1 = s" using p by (auto split: if_splits)
    then show ?thesis using Suc.IH[of st1] st1(2) True p by (auto split: if_splits)
  next
    case False
    then show ?thesis using st1(2) p by (auto split: if_splits)
  qed
qed simp




end
