(* ===== verification/Calendar_Parse.thy ===== *)
theory Calendar_Parse
  imports Calendar_Times
begin

text \<open>
  What the parser of calendars accepts is well-formed: times of the day are valid and in order, days begin
  at midnight, and no list is empty, so that the state of a queue can always be computed from it.
\<close>

section \<open>Results of parsers\<close>

definition gives :: "'a cal_parser \<Rightarrow> ('a \<Rightarrow> bool) \<Rightarrow> bool" where
  "gives p P \<longleftrightarrow> (\<forall>st x st'. p st = Some (Inr (x, st')) \<longrightarrow> P x)"

named_theorems yields_rules

lemma p_bind_yields: "gives p P \<Longrightarrow> (\<And>x. P x \<Longrightarrow> gives (k x) Q) \<Longrightarrow> gives (p_bind p k) Q"
  by (fastforce simp: gives_def p_bind_def split: option.splits sum.splits)

lemma yields_ret [yields_rules]: "P x \<Longrightarrow> gives (p_ret x) P"
  by (simp add: gives_def p_ret_def)

lemma yields_fail [yields_rules]: "gives p_fail P"
  by (simp add: gives_def p_fail_def)

lemma yields_any: "gives p (\<lambda>_. True)"
  by (simp add: gives_def)

lemma yields_skip [yields_rules]:
  "(\<And>t. gives (k t) Q) \<Longrightarrow> gives (p_bind scan k) Q"
  "(\<And>t. gives (f t) Q) \<Longrightarrow> gives (p_bind eat_token f) Q"
  "(\<And>t. gives (f t) Q) \<Longrightarrow> gives (p_bind (expect tok) f) Q"
  by (rule p_bind_yields[OF yields_any], blast)+

lemma yields_if [yields_rules]: "(c \<Longrightarrow> gives p P) \<Longrightarrow> (\<not> c \<Longrightarrow> gives q P) \<Longrightarrow> gives (if c then p else q) P"
  by simp

lemma yields_weaken: "gives p P \<Longrightarrow> (\<And>x. P x \<Longrightarrow> Q x) \<Longrightarrow> gives p Q"
  by (auto simp: gives_def)

lemma yields_token [yields_rules]:
  "(\<And>n. gives (f n) P) \<Longrightarrow> (\<And>s. gives (g s) P) \<Longrightarrow> gives q P \<Longrightarrow>
    gives (case t of NUMBER n \<Rightarrow> f n | STRING s \<Rightarrow> g s | _ \<Rightarrow> q) P"
  by (cases t) auto

lemma yields_range_number: "gives (range_number lo hi) (\<lambda>n. lo \<le> n \<and> n \<le> hi)"
  unfolding range_number_def by (intro yields_rules) auto

lemmas yields_number [yields_rules] = p_bind_yields[OF yields_range_number]

lemma yields_more: "gives p P \<Longrightarrow> gives (more_after sep p n) (list_all P)"
proof (induction n)
  case (Suc n)
  show ?case unfolding more_after.simps
    by (intro yields_rules p_bind_yields[OF Suc.prems] p_bind_yields[OF Suc.IH[OF Suc.prems]]) auto
qed (simp add: gives_def)

lemma yields_list:
  assumes "gives p P"
  shows "gives (list_of sep p) (\<lambda>xs. xs \<noteq> [] \<and> list_all P xs)"
proof -
  have "gives (p_bind p (\<lambda>x. p_bind (more_after sep p n) (\<lambda>xs. p_ret (x # xs)))) (\<lambda>xs. xs \<noteq> [] \<and> list_all P xs)" for n
    by (intro yields_rules p_bind_yields[OF assms] p_bind_yields[OF yields_more[OF assms]]) auto
  then show ?thesis unfolding gives_def list_of_def by blast
qed

section \<open>Times\<close>

lemma of_int_le: "0 \<le> n \<Longrightarrow> n \<le> m \<Longrightarrow> m < 1000 \<Longrightarrow> (of_int n :: 32 word) \<le> of_int m"
  by (simp add: word_of_int_less_eq_iff word_le_def uint_word_of_int take_bit_int_eq_self)

lemma yields_opt_number: "gives opt_number (\<lambda>m. \<forall>x. m = Some x \<longrightarrow> 0 \<le> x \<and> x \<le> 59)"
  unfolding opt_number_def by (intro yields_rules) auto

lemma yields_daytime: "gives daytime daytime_valid"
proof -
  have v: "daytime_valid (new_tm\<lparr>TM_hour := of_int h, TM_min := of_int m, TM_sec := of_int s\<rparr>)"
    if "0 \<le> h" "h \<le> 24" "0 \<le> m" "m \<le> 59" "0 \<le> s" "s \<le> 59" "h = 24 \<longrightarrow> m = 0 \<and> s = 0" for h m s :: int
  proof -
    have "(of_int m :: 32 word) \<le> 59" "(of_int s :: 32 word) \<le> 59" "(of_int h :: 32 word) \<le> 24"
      using of_int_le[of m 59] of_int_le[of s 59] of_int_le[of h 24] that by simp_all
    moreover have "(x :: 32 word) < 60" if "x \<le> 59" for x using that by (rule order.strict_trans1) (simp add: word_less_def)
    moreover have "h = 24" if "(of_int h :: 32 word) = 24"
      using that \<open>0 \<le> h\<close> \<open>h \<le> 24\<close> by (simp add: word_uint_eq_iff uint_word_of_int take_bit_int_eq_self)
    ultimately show ?thesis using that by (auto simp: daytime_valid_def)
  qed
  have v': "daytime_valid (new_tm\<lparr>TM_hour := of_int h, TM_min := of_int (case m of None \<Rightarrow> 0 | Some x \<Rightarrow> x),
      TM_sec := of_int (case s of None \<Rightarrow> 0 | Some x \<Rightarrow> x)\<rparr>)"
    if "0 \<le> h \<and> h \<le> 24" "\<forall>x. m = Some x \<longrightarrow> 0 \<le> x \<and> x \<le> 59" "\<forall>x. s = Some x \<longrightarrow> 0 \<le> x \<and> x \<le> 59"
      "\<not> (h = 24 \<and> ((case m of None \<Rightarrow> 0 | Some x \<Rightarrow> x) \<noteq> 0 \<or> (case s of None \<Rightarrow> 0 | Some x \<Rightarrow> x) \<noteq> 0))"
    for h :: int and m s
    by (rule v) (use that in \<open>auto split: option.splits\<close>)
  have s: "gives (if m = None then p_ret None else opt_number) (\<lambda>m. \<forall>x. m = Some x \<longrightarrow> 0 \<le> x \<and> x \<le> 59)" for m :: "int option"
    using yields_opt_number by (auto intro: yields_ret)
  show ?thesis unfolding daytime_def Let_def
    by (intro yields_rules p_bind_yields[OF yields_opt_number] p_bind_yields[OF s]) (rule v'; assumption)
qed

definition times_written :: "tmr \<Rightarrow> bool" where
  "times_written r \<longleftrightarrow> times_ok r \<and> daytime_key (TMR_begin r) \<noteq> daytime_key (the (TMR_end r))"

lemma yields_daytime_range: "gives daytime_range times_written"
  unfolding daytime_range_def
  by (intro yields_rules p_bind_yields[OF yields_daytime]) (simp add: times_written_def times_ok_def dt.cmp_simps)

text \<open>A list of times has a time that is not the first second of the day.\<close>

lemma split_not_empty:
  assumes "times_written r"
  shows "\<exists>q \<in> set (split_daytime_range r). 0 < daytime_key (the (TMR_end q))"
proof -
  obtain e where e: "TMR_end r = Some e" "daytime_valid (TMR_begin r)" "daytime_valid e" "daytime_key (TMR_begin r) \<noteq> daytime_key e"
    using assms by (auto simp: times_written_def times_ok_def)
  have "0 \<le> daytime_key (TMR_begin r)" by (simp add: daytime_key_def)
  then show ?thesis using e by (auto simp: split_daytime_range_def dt.cmp_simps midnight_valid)
qed

lemma yields_times:
  "gives (p_bind daytime_range_list normalized) (\<lambda>ds. times_list_ok (Some ds))"
proof -
  have n: "gives (normalized (concat (map split_daytime_range rs))) (\<lambda>ds. times_list_ok (Some ds))"
    if rs: "rs \<noteq> [] \<and> list_all times_written rs" for rs
  proof -
    let ?rs = "concat (map split_daytime_range rs)"
    have v: "list_all dt.valid_range ?rs" using rs split_times(1) by (auto simp: list_all_iff times_written_def)
    obtain q where q: "q \<in> set ?rs" "0 < daytime_key (the (TMR_end q))"
      using rs split_not_empty by (cases rs) auto
    have "times_list_ok (Some ds)" if ds: "normalize_range_list tm_daytime_cmp ?rs = Some ds" for ds
    proof -
      have d: "list_all dt.valid_range ds" "\<Union> (dt.span ` set ds) = \<Union> (dt.span ` set ?rs)"
        using dt.normalize_span[OF refl v] ds by auto
      have "dt.valid_range q" using q(1) v unfolding list_all_iff by blast
      then have "daytime_key (the (TMR_end q)) \<in> dt.span q" by (auto simp: dt.valid_range_def dt.span_def)
      then obtain r where "r \<in> set ds" "daytime_key (the (TMR_end q)) \<in> dt.span r" using d(2) q(1) by blast
      moreover from this have "0 < daytime_key (the (TMR_end r))" using q(2) by (simp add: dt.span_def)
      ultimately show ?thesis using d(1) by (auto simp: times_list_ok_def)
    qed
    then show ?thesis by (auto simp: gives_def normalized_def p_ret_def split: option.splits)
  qed
  have "gives (p_bind (p_bind (list_of COMMA daytime_range) (\<lambda>rs. p_ret (concat (map split_daytime_range rs)))) normalized)
      (\<lambda>ds. times_list_ok (Some ds))"
  proof (rule p_bind_yields)
    show "gives (p_bind (list_of COMMA daytime_range) (\<lambda>rs. p_ret (concat (map split_daytime_range rs))))
        (\<lambda>cs. \<exists>rs. cs = concat (map split_daytime_range rs) \<and> rs \<noteq> [] \<and> list_all times_written rs)"
      by (intro yields_rules p_bind_yields[OF yields_list[OF yields_daytime_range]]) blast
  qed (use n in blast)
  then show ?thesis by (simp add: daytime_range_list_def)
qed


section \<open>Days and states\<close>

lemma yields_year_day: "gives year_day (\<lambda>t. TM_hour t = 0 \<and> TM_min t = 0 \<and> TM_sec t = 0)"
  unfolding year_day_def parse_month_def by (intro yields_rules p_bind_yields[OF yields_any]) (simp add: new_tm_def)

lemma yields_week_day: "gives week_day (\<lambda>t. TM_hour t = 0 \<and> TM_min t = 0 \<and> TM_sec t = 0)"
  unfolding week_day_def Let_def by (intro yields_rules) (simp add: new_tm_def)

lemma yields_year_range: "gives year_day_range begins_day"
  unfolding year_day_range_def
  by (intro yields_rules p_bind_yields[OF yields_year_day]) (simp_all add: begins_day_def)

lemma yields_week_range: "gives week_day_range begins_day"
  unfolding week_day_range_def
  by (intro yields_rules p_bind_yields[OF yields_week_day]) (simp_all add: begins_day_def)

text \<open>Splitting, joining and extending keep the begins.\<close>

lemma split_wday_begins: "begins_day r \<Longrightarrow> list_all begins_day (split_wday_range r) \<and> split_wday_range r \<noteq> []"
  by (auto simp: split_wday_range_def begins_day_def new_tm_def split: option.splits)

lemma join_over_projections:
  "TMR_begin (fst (join_over b1 e1 he r1 rs)) = TMR_begin r1 \<and> set (snd (join_over b1 e1 he r1 rs)) \<subseteq> set rs"
proof (induction b1 e1 he r1 rs rule: join_over.induct)
  case (2 b1 e1 he r1 r2 rs)
  show ?case
  proof (cases "wday_begin r2 \<le> e1 + 1 \<and> b1 \<le> wday_begin r2")
    case True
    then show ?thesis using "2.IH"(1)[OF True] by (auto split: if_splits)
  next
    case False
    then show ?thesis using "2.IH"(2)[OF False] by (auto simp: Let_def split: prod.splits)
  qed
qed simp

lemma join_over_begins: "join_over b1 e1 he r1 rs = (r, kept) \<Longrightarrow> TMR_begin r = TMR_begin r1 \<and> set kept \<subseteq> set rs"
  using join_over_projections[of b1 e1 he r1 rs] by simp

lemma join_loop_begins:
  "list_all begins_day (before @ after) \<Longrightarrow> before @ after \<noteq> [] \<Longrightarrow>
    list_all begins_day (join_loop before after) \<and> join_loop before after \<noteq> []"
proof (induction before after rule: join_loop.induct)
  case (2 before r1 after)
  obtain r before' where 1: "join_over (wday_begin r1) (wday_end r1) (TMR_end r1 \<noteq> None) r1 before = (r, before')" by fastforce
  obtain r' after' where 2: "join_over (wday_begin r1) (wday_end r1) (TMR_end r1 \<noteq> None) r after = (r', after')" by fastforce
  have "list_all begins_day ((before' @ [r']) @ after')"
    using "2.prems"(1) join_over_begins[OF 1] join_over_begins[OF 2] by (auto simp: list_all_iff begins_day_def)
  then show ?case using "2.IH"[OF refl refl refl refl 1[symmetric] refl 2[symmetric]]
    unfolding join_loop.simps Let_def 1 prod.case 2 by simp
qed simp

lemma extend_one_begin: "TMR_begin (extend_one others r1) = TMR_begin r1"
proof -
  have "TMR_begin (fold (\<lambda>r2 r. if e1 = 6 \<and> wday_begin r2 = 0
      then r\<lparr>TMR_end := Some ((case TMR_end r of Some e \<Rightarrow> e | None \<Rightarrow> TMR_begin r)\<lparr>TM_wday := e1 + 1 + wday_end r2\<rparr>)\<rparr>
      else r) others r) = TMR_begin r" for e1 :: "32 word" and r :: tmr
    by (induction others arbitrary: r) auto
  then show ?thesis unfolding extend_one_def Let_def .
qed

lemma extend_loop_begins:
  "list_all begins_day (before @ after) \<Longrightarrow> before @ after \<noteq> [] \<Longrightarrow>
    list_all begins_day (extend_loop before after) \<and> extend_loop before after \<noteq> []"
  by (induction before after rule: extend_loop.induct) (auto simp: begins_day_def extend_one_begin)

lemma yields_week_list: "gives week_day_range_list (\<lambda>ws. ws \<noteq> [] \<and> list_all begins_day ws)"
proof -
  have "list_all begins_day (extend_wday_range (join_wday_range (concat (map split_wday_range rs)))) \<and>
      extend_wday_range (join_wday_range (concat (map split_wday_range rs))) \<noteq> []"
    if rs: "rs \<noteq> [] \<and> list_all begins_day rs" for rs
  proof -
    have "list_all begins_day (concat (map split_wday_range rs)) \<and> concat (map split_wday_range rs) \<noteq> []"
      using rs split_wday_begins by (cases rs) (auto simp: list_all_iff)
    then show ?thesis
      using join_loop_begins[of "[]"] extend_loop_begins[of "[]"] by (simp add: join_wday_range_def extend_wday_range_def)
  qed
  then show ?thesis unfolding week_day_range_list_def
    by (intro yields_rules p_bind_yields[OF yields_list[OF yields_week_range]]) blast
qed

definition state_ok :: "32 word \<Rightarrow> bool" where
  "state_ok s \<longleftrightarrow> s \<in> {QI_DO_ENABLE, QI_DO_DISABLE, QI_DO_SUSPEND}"

lemma yields_action: "gives parse_action state_ok"
  unfolding parse_action_def Let_def
  by (intro yields_rules) (auto simp: cheap_scan_def statev_def state_ok_def qi_do_defs split: if_splits)

lemma yields_times_and_state:
  "gives times_and_state (\<lambda>(ds, s). times_list_ok (Some (daytimes_or_full ds)) \<and> state_ok s)"
proof -
  have full: "times_list_ok (Some full_daytime_range)"
    by (simp add: times_list_ok_def full_daytime_range_def dt.valid_range_def midnight_valid)
  have "gives (p_bind daytime_range_list (\<lambda>rs. p_bind (normalized rs) k)) Q"
    if "\<And>ds. times_list_ok (Some ds) \<Longrightarrow> gives (k ds) Q" for k :: "tmr list \<Rightarrow> 'a cal_parser" and Q
  proof -
    have "p_bind daytime_range_list (\<lambda>rs. p_bind (normalized rs) k) = p_bind (p_bind daytime_range_list normalized) k"
      by (rule ext) (simp add: p_bind_def split: option.split sum.split prod.split)
    then show ?thesis using p_bind_yields[OF yields_times that] by simp
  qed
  note times = this
  show ?thesis unfolding times_and_state_def
    by (intro yields_rules times p_bind_yields[OF yields_action])
      (auto simp: daytimes_or_full_def full state_ok_def qi_do_defs)
qed


section \<open>Calendars\<close>

lemma full_times: "times_list_ok (Some (daytimes_or_full None))"
  by (simp add: daytimes_or_full_def times_list_ok_def full_daytime_range_def dt.valid_range_def midnight_valid)

lemma full_week: "full_weekday_range \<noteq> [] \<and> list_all begins_day full_weekday_range"
  by (simp add: full_weekday_range_def begins_day_def new_tm_def)

lemma yields_pair: "gives p (\<lambda>(x, y). P x y) \<Longrightarrow> (\<And>x y. P x y \<Longrightarrow> gives (k x y) Q) \<Longrightarrow> gives (p_bind p (\<lambda>(x, y). k x y)) Q"
  by (rule p_bind_yields[where P = "\<lambda>(x, y). P x y"]) auto

lemma yields_week_entry: "gives disabled_week_entry (\<lambda>e. week_entry_ok e \<and> state_ok (CA_state e))"
  unfolding disabled_week_entry_def Let_def
  by (intro yields_rules p_bind_yields[OF yields_week_list] yields_pair[OF yields_times_and_state])
    (use full_times full_week in \<open>auto simp: week_entry_ok_def state_ok_def\<close>)

lemma yields_year_entry: "gives disabled_year_entry (\<lambda>e. year_entry_ok e \<and> state_ok (CA_state e))"
  unfolding disabled_year_entry_def year_day_range_list_def Let_def
  by (intro yields_rules p_bind_yields[OF yields_list[OF yields_year_range]] yields_pair[OF yields_times_and_state])
    (use full_times in \<open>auto simp: year_entry_ok_def state_ok_def\<close>)

lemma yields_entry_list:
  assumes "gives entry P"
  shows "gives (entry_list entry) (list_all P)"
proof -
  have e: "gives (p_bind (eat_spaces n) (\<lambda>_. entry)) P" for n
    by (intro p_bind_yields[OF yields_any] assms)
  have "gives (p_bind entry (\<lambda>x. p_bind (more_after SPACE (p_bind (eat_spaces n) (\<lambda>_. entry)) n) (\<lambda>xs.
       p_bind scan (\<lambda>t. if t \<noteq> NO_TOKEN then p_fail else p_ret (x # xs))))) (list_all P)" for n
    by (intro yields_rules p_bind_yields[OF assms] p_bind_yields[OF yields_more[OF e]]) auto
  then show ?thesis unfolding gives_def entry_list_def by blast
qed

lemma disabled_list_ok:
  assumes "gives entry P" "disabled_list dots entry s = Some (Inr es)"
  shows "list_all P es"
proof -
  have "es = [] \<or> (\<exists>st st'. entry_list entry st = Some (Inr (es, st')))"
  proof (cases s)
    case (Some w)
    let ?st = "\<lparr>scan_text = w, scan_token = None, scan_dots = dots\<rparr>"
    show ?thesis
    proof (cases "strcasecmp w ''none'' = 0")
      case False
      then obtain z where "entry_list entry ?st = Some z" "map_sum id fst z = Inr es"
        using assms(2) Some by (auto simp: disabled_list_def)
      then show ?thesis by (cases z) auto
    qed (use assms(2) Some in \<open>simp add: disabled_list_def\<close>)
  qed (use assms(2) in \<open>simp add: disabled_list_def\<close>)
  then show ?thesis using yields_entry_list[OF assms(1)] by (auto simp: gives_def)
qed



definition mondays :: string where "mondays = ''mon=6-20=off sat-sun''"


text \<open>The state of a queue at a time of the day clock, by the texts of its calendars.\<close>

definition state_by :: "string \<Rightarrow> string \<Rightarrow> int \<Rightarrow> 32 word option" where
  "state_by ytext wtext now =
     (case (disabled_year_list (Some ytext), disabled_week_list (Some wtext)) of
        (Some (Inr ycal), Some (Inr wcal)) \<Rightarrow> map_option fst (state_at day_clock 4 now ycal wcal)
      | _ \<Rightarrow> None)"

text \<open>
  The state is that of a later time when the last time of a day is over. At noon of a Monday the
  calendar \<^verbatim>\<open>mon-fri=0-6\<close> disables the queue, and so does at noon of a day of January the calendar \<^verbatim>\<open>1.1.2004-31.1.2004=0-6\<close>,
  as the state of the first second of the next day replaces the one computed; with a later time, or without the next day, the queue is enabled as it should be.
\<close>

theorem state_after_last_time_is_wrong:
  "state_by ''none'' ''mon-fri=0-6'' (86400 + 43200) = Some QI_DO_DISABLE \<and>
   state_by ''1.1.2004-31.1.2004=0-6'' ''none'' (86400 + 43200) = Some QI_DO_DISABLE \<and>
   state_by ''none'' ''mon-fri=0-6,13-14'' (86400 + 43200) = Some QI_DO_ENABLE \<and>
   state_by ''none'' ''fri=0-6'' (5 * 86400 + 43200) = Some QI_DO_ENABLE"
  by code_simp

text \<open>
  An entry for a later day counts for today. On Monday the calendar \<^verbatim>\<open>mon=off tue-wed=off tue=suspended\<close> suspends
  the queue, because the entries behind the second are looked at with the time at which the second begins;
  without the second entry the queue is disabled as it should be.
\<close>

theorem later_entry_counts_today:
  "state_by ''none'' ''mon=off tue-wed=off tue=suspended'' (86400 + 43200) = Some QI_DO_SUSPEND \<and>
   state_by ''none'' ''mon=off tue=suspended'' (86400 + 43200) = Some QI_DO_DISABLE"
  by code_simp

end
