(* ===== verification/Simple_List.thy ===== *)
theory Simple_List
  imports Prelude
begin

text \<open>
  Doubly linked lists, \<^verbatim>\<open>source/libs/uti/sge_sl.c\<close>. The memory maps addresses to elements and to list
  heads; reading or writing where nothing is allocated has no result. What \<open>malloc\<close> returns is an argument,
  null being \<open>None\<close>. The list mutex makes each function one step for the other threads.
\<close>

section \<open>Memory\<close>

type_synonym ptr = nat

datatype sl_direction = SGE_SL_FORWARD | SGE_SL_BACKWARD

record 'd sl_elem =
  sl_prev :: "ptr option"
  sl_next :: "ptr option"
  sl_data :: 'd

record sl_list =
  sl_first :: "ptr option"
  sl_last :: "ptr option"
  sl_elements :: "32 word"

text \<open>\<open>sl_destroyed\<close> are the data the destroy functions have been called for.\<close>

record 'd sl_mem =
  elem_at :: "ptr \<rightharpoonup> 'd sl_elem"
  list_at :: "ptr \<rightharpoonup> sl_list"
  sl_destroyed :: "'d list"

type_synonym 'd sl_compare = "'d \<Rightarrow> 'd \<Rightarrow> int"

definition upd_elem :: "('d sl_elem \<Rightarrow> 'd sl_elem) \<Rightarrow> ptr \<Rightarrow> 'd sl_mem \<Rightarrow> 'd sl_mem option" where
  "upd_elem f p m = map_option (\<lambda>e. m\<lparr>elem_at := (elem_at m)(p \<mapsto> f e)\<rparr>) (elem_at m p)"

definition upd_list :: "(sl_list \<Rightarrow> sl_list) \<Rightarrow> ptr \<Rightarrow> 'd sl_mem \<Rightarrow> 'd sl_mem option" where
  "upd_list f l m = map_option (\<lambda>h. m\<lparr>list_at := (list_at m)(l \<mapsto> f h)\<rparr>) (list_at m l)"

section \<open>Elements\<close>

definition sge_sl_elem_create :: "ptr option \<Rightarrow> 'd \<Rightarrow> 'd sl_mem \<Rightarrow> (bool \<times> ptr option) \<times> 'd sl_mem" where
  "sge_sl_elem_create malloc d m =
     (case malloc of
        Some a \<Rightarrow> ((True, Some a), m\<lparr>elem_at := (elem_at m)(a \<mapsto> \<lparr>sl_prev = None, sl_next = None, sl_data = d\<rparr>)\<rparr>)
      | None \<Rightarrow> ((False, None), m))"

definition sge_sl_elem_destroy :: "ptr option \<Rightarrow> bool \<Rightarrow> 'd sl_mem \<Rightarrow> (bool \<times> 'd sl_mem) option" where
  "sge_sl_elem_destroy elem destroy m =
     (case elem of
        None \<Rightarrow> Some (True, m)
      | Some p \<Rightarrow> do {
          e \<leftarrow> elem_at m p;
          Some (True, m\<lparr>elem_at := (elem_at m)(p := None),
            sl_destroyed := (if destroy then sl_destroyed m @ [sl_data e] else sl_destroyed m)\<rparr>) })"

definition sge_sl_elem_data :: "ptr option \<Rightarrow> 'd sl_mem \<Rightarrow> 'd option option" where
  "sge_sl_elem_data elem m = (case elem of None \<Rightarrow> Some None | Some p \<Rightarrow> map_option (\<lambda>e. Some (sl_data e)) (elem_at m p))"

definition sge_sl_dechain :: "ptr option \<Rightarrow> ptr option \<Rightarrow> 'd sl_mem \<Rightarrow> (bool \<times> 'd sl_mem) option" where
  "sge_sl_dechain list elem m =
     (case (list, elem) of
        (Some l, Some p) \<Rightarrow> do {
          e \<leftarrow> elem_at m p;
          m1 \<leftarrow> (case sl_prev e of
                  Some q \<Rightarrow> upd_elem (\<lambda>x. x\<lparr>sl_next := sl_next e\<rparr>) q m
                | None \<Rightarrow> upd_list (\<lambda>h. h\<lparr>sl_first := sl_next e\<rparr>) l m);
          e1 \<leftarrow> elem_at m1 p;
          m2 \<leftarrow> (case sl_next e1 of
                  Some q \<Rightarrow> upd_elem (\<lambda>x. x\<lparr>sl_prev := sl_prev e1\<rparr>) q m1
                | None \<Rightarrow> upd_list (\<lambda>h. h\<lparr>sl_last := sl_prev e1\<rparr>) l m1);
          m3 \<leftarrow> upd_elem (\<lambda>x. x\<lparr>sl_next := None, sl_prev := None\<rparr>) p m2;
          m4 \<leftarrow> upd_list (\<lambda>h. h\<lparr>sl_elements := sl_elements h - 1\<rparr>) l m3;
          Some (True, m4) }
      | _ \<Rightarrow> Some (True, m))"

definition sge_sl_insert_before :: "ptr option \<Rightarrow> ptr option \<Rightarrow> ptr option \<Rightarrow> 'd sl_mem \<Rightarrow> (bool \<times> 'd sl_mem) option" where
  "sge_sl_insert_before list new_elem elem m =
     (case (list, new_elem, elem) of
        (Some l, Some n, Some p) \<Rightarrow> do {
          e \<leftarrow> elem_at m p;
          m3 \<leftarrow> (case sl_prev e of
                  None \<Rightarrow> do {
                    m1 \<leftarrow> upd_elem (\<lambda>x. x\<lparr>sl_prev := Some n\<rparr>) p m;
                    m2 \<leftarrow> upd_elem (\<lambda>x. x\<lparr>sl_next := Some p\<rparr>) n m1;
                    upd_list (\<lambda>h. h\<lparr>sl_first := Some n\<rparr>) l m2 }
                | Some q \<Rightarrow> do {
                    m1 \<leftarrow> upd_elem (\<lambda>x. x\<lparr>sl_next := Some n\<rparr>) q m;
                    m2 \<leftarrow> upd_elem (\<lambda>x. x\<lparr>sl_prev := Some n\<rparr>) p m1;
                    upd_elem (\<lambda>x. x\<lparr>sl_prev := Some q, sl_next := Some p\<rparr>) n m2 });
          m4 \<leftarrow> upd_list (\<lambda>h. h\<lparr>sl_elements := sl_elements h + 1\<rparr>) l m3;
          Some (True, m4) }
      | _ \<Rightarrow> Some (True, m))"

definition sge_sl_append_after :: "ptr option \<Rightarrow> ptr option \<Rightarrow> ptr option \<Rightarrow> 'd sl_mem \<Rightarrow> (bool \<times> 'd sl_mem) option" where
  "sge_sl_append_after list new_elem elem m =
     (case (list, new_elem, elem) of
        (Some l, Some n, Some p) \<Rightarrow> do {
          e \<leftarrow> elem_at m p;
          m3 \<leftarrow> (case sl_next e of
                  None \<Rightarrow> do {
                    m1 \<leftarrow> upd_elem (\<lambda>x. x\<lparr>sl_next := Some n\<rparr>) p m;
                    m2 \<leftarrow> upd_elem (\<lambda>x. x\<lparr>sl_prev := Some p\<rparr>) n m1;
                    upd_list (\<lambda>h. h\<lparr>sl_last := Some n\<rparr>) l m2 }
                | Some q \<Rightarrow> do {
                    m1 \<leftarrow> upd_elem (\<lambda>x. x\<lparr>sl_next := Some n\<rparr>) p m;
                    m2 \<leftarrow> upd_elem (\<lambda>x. x\<lparr>sl_prev := Some n\<rparr>) q m1;
                    upd_elem (\<lambda>x. x\<lparr>sl_prev := Some p, sl_next := Some q\<rparr>) n m2 });
          m4 \<leftarrow> upd_list (\<lambda>h. h\<lparr>sl_elements := sl_elements h + 1\<rparr>) l m3;
          Some (True, m4) }
      | _ \<Rightarrow> Some (True, m))"

text \<open>The element behind, or before; from no element on, the first or the last.\<close>

definition step_from :: "sl_direction \<Rightarrow> ptr \<Rightarrow> ptr option \<Rightarrow> 'd sl_mem \<Rightarrow> ptr option option" where
  "step_from direction l elem m =
     (case elem of
        Some p \<Rightarrow> map_option (\<lambda>e. if direction = SGE_SL_FORWARD then sl_next e else sl_prev e) (elem_at m p)
      | None \<Rightarrow> map_option (\<lambda>h. if direction = SGE_SL_FORWARD then sl_first h else sl_last h) (list_at m l))"

definition sge_sl_elem_next :: "ptr option \<Rightarrow> ptr option \<Rightarrow> sl_direction \<Rightarrow> 'd sl_mem \<Rightarrow> (bool \<times> ptr option) option" where
  "sge_sl_elem_next list elem direction m =
     (case list of None \<Rightarrow> Some (True, elem) | Some l \<Rightarrow> map_option (\<lambda>e. (True, e)) (step_from direction l elem m))"

text \<open>The search ends only if the chain does; on a chain that goes round it has no result.\<close>

partial_function (option) search_loop ::
  "('d \<Rightarrow> bool) \<Rightarrow> sl_direction \<Rightarrow> (ptr \<rightharpoonup> 'd sl_elem) \<Rightarrow> ptr option \<Rightarrow> ptr option option" where
  "search_loop hit direction h current =
     (case current of
        None \<Rightarrow> Some None
      | Some p \<Rightarrow> do {
          e \<leftarrow> h p;
          if hit (sl_data e) then Some (Some p)
          else search_loop hit direction h (if direction = SGE_SL_FORWARD then sl_next e else sl_prev e) })"

definition sge_sl_elem_search ::
  "ptr option \<Rightarrow> ptr option \<Rightarrow> 'd \<Rightarrow> 'd sl_compare \<Rightarrow> sl_direction \<Rightarrow> 'd sl_mem \<Rightarrow> (bool \<times> ptr option) option" where
  "sge_sl_elem_search list elem key compare direction m =
     (case list of
        None \<Rightarrow> Some (True, elem)
      | Some l \<Rightarrow> do {
          nxt \<leftarrow> step_from direction l elem m;
          current \<leftarrow> search_loop (\<lambda>d. compare key d = 0) direction (elem_at m) nxt;
          Some (True, current) })"

section \<open>Lists\<close>

definition sge_sl_create :: "ptr option \<Rightarrow> 'd sl_mem \<Rightarrow> (bool \<times> ptr option) \<times> 'd sl_mem" where
  "sge_sl_create malloc m =
     (case malloc of
        Some a \<Rightarrow> ((True, Some a), m\<lparr>list_at := (list_at m)(a \<mapsto> \<lparr>sl_first = None, sl_last = None, sl_elements = 0\<rparr>)\<rparr>)
      | None \<Rightarrow> ((False, None), m))"

partial_function (option) destroy_loop :: "bool \<Rightarrow> ptr option \<Rightarrow> bool \<Rightarrow> 'd sl_mem \<Rightarrow> (bool \<times> 'd sl_mem) option" where
  "destroy_loop destroy current ret m =
     (case current of
        None \<Rightarrow> Some (ret, m)
      | Some p \<Rightarrow> do {
          e \<leftarrow> elem_at m p;
          (r, m1) \<leftarrow> sge_sl_elem_destroy (Some p) destroy m;
          destroy_loop destroy (sl_next e) (ret \<and> r) m1 })"

definition sge_sl_destroy :: "ptr option \<Rightarrow> bool \<Rightarrow> 'd sl_mem \<Rightarrow> (bool \<times> 'd sl_mem) option" where
  "sge_sl_destroy list destroy m =
     (case list of
        None \<Rightarrow> Some (True, m)
      | Some l \<Rightarrow> do {
          h \<leftarrow> list_at m l;
          (ret, m1) \<leftarrow> destroy_loop destroy (sl_first h) True m;
          Some (ret, m1\<lparr>list_at := (list_at m1)(l := None)\<rparr>) })"

definition sge_sl_insert :: "ptr option \<Rightarrow> ptr option \<Rightarrow> 'd \<Rightarrow> sl_direction \<Rightarrow> 'd sl_mem \<Rightarrow> (bool \<times> 'd sl_mem) option" where
  "sge_sl_insert malloc list d direction m =
     (case list of
        None \<Rightarrow> Some (True, m)
      | Some l \<Rightarrow>
          (case sge_sl_elem_create malloc d m of
             ((False, _), m0) \<Rightarrow> Some (False, m0)
           | ((True, None), m0) \<Rightarrow> None
           | ((True, Some n), m0) \<Rightarrow> do {
               h \<leftarrow> list_at m0 l;
               m3 \<leftarrow> (if direction = SGE_SL_FORWARD then do {
                        m1 \<leftarrow> (case sl_first h of Some q \<Rightarrow> upd_elem (\<lambda>x. x\<lparr>sl_prev := Some n\<rparr>) q m0 | None \<Rightarrow> Some m0);
                        m2 \<leftarrow> upd_elem (\<lambda>x. x\<lparr>sl_next := sl_first h\<rparr>) n m1;
                        upd_list (\<lambda>h. h\<lparr>sl_first := Some n, sl_last := (if sl_last h = None then Some n else sl_last h)\<rparr>) l m2 }
                      else do {
                        m1 \<leftarrow> (case sl_last h of Some q \<Rightarrow> upd_elem (\<lambda>x. x\<lparr>sl_next := Some n\<rparr>) q m0 | None \<Rightarrow> Some m0);
                        m2 \<leftarrow> upd_elem (\<lambda>x. x\<lparr>sl_prev := sl_last h\<rparr>) n m1;
                        upd_list (\<lambda>h. h\<lparr>sl_last := Some n, sl_first := (if sl_first h = None then Some n else sl_first h)\<rparr>) l m2 });
               m4 \<leftarrow> upd_list (\<lambda>h. h\<lparr>sl_elements := sl_elements h + 1\<rparr>) l m3;
               Some (True, m4) }))"

text \<open>The place for a new element is behind all that compare less: the results are the elements around it.\<close>

partial_function (option) insert_place ::
  "('d \<Rightarrow> bool) \<Rightarrow> (ptr \<rightharpoonup> 'd sl_elem) \<Rightarrow> ptr option \<Rightarrow> ptr option \<Rightarrow> (ptr option \<times> ptr option) option" where
  "insert_place behind h before current =
     (case current of
        None \<Rightarrow> Some (before, None)
      | Some p \<Rightarrow> do {
          e \<leftarrow> h p;
          if behind (sl_data e) then insert_place behind h (Some p) (sl_next e)
          else Some (before, Some p) })"

definition sge_sl_insert_search :: "ptr option \<Rightarrow> ptr option \<Rightarrow> 'd \<Rightarrow> 'd sl_compare \<Rightarrow> 'd sl_mem \<Rightarrow> (bool \<times> 'd sl_mem) option" where
  "sge_sl_insert_search malloc list d compare m =
     (case list of
        None \<Rightarrow> Some (True, m)
      | Some l \<Rightarrow>
          (case sge_sl_elem_create malloc d m of
             ((False, _), m0) \<Rightarrow> Some (False, m0)
           | ((True, None), m0) \<Rightarrow> None
           | ((True, Some n), m0) \<Rightarrow> do {
               h \<leftarrow> list_at m0 l;
               (before, current) \<leftarrow> insert_place (\<lambda>x. compare d x > 0) (elem_at m0) None (sl_first h);
               m3 \<leftarrow> (case (before, current) of
                       (None, None) \<Rightarrow> upd_list (\<lambda>h. h\<lparr>sl_first := Some n, sl_last := Some n\<rparr>) l m0
                     | (None, Some p) \<Rightarrow> do {
                         m1 \<leftarrow> upd_elem (\<lambda>x. x\<lparr>sl_prev := Some n\<rparr>) p m0;
                         m2 \<leftarrow> upd_elem (\<lambda>x. x\<lparr>sl_next := Some p\<rparr>) n m1;
                         upd_list (\<lambda>h. h\<lparr>sl_first := Some n\<rparr>) l m2 }
                     | (Some q, None) \<Rightarrow> do {
                         m1 \<leftarrow> upd_elem (\<lambda>x. x\<lparr>sl_next := Some n\<rparr>) q m0;
                         m2 \<leftarrow> upd_elem (\<lambda>x. x\<lparr>sl_prev := Some q\<rparr>) n m1;
                         upd_list (\<lambda>h. h\<lparr>sl_last := Some n\<rparr>) l m2 }
                     | (Some q, Some p) \<Rightarrow> do {
                         m1 \<leftarrow> upd_elem (\<lambda>x. x\<lparr>sl_next := Some n\<rparr>) q m0;
                         m2 \<leftarrow> upd_elem (\<lambda>x. x\<lparr>sl_prev := Some n\<rparr>) p m1;
                         upd_elem (\<lambda>x. x\<lparr>sl_prev := Some q, sl_next := Some p\<rparr>) n m2 });
               m4 \<leftarrow> upd_list (\<lambda>h. h\<lparr>sl_elements := sl_elements h + 1\<rparr>) l m3;
               Some (True, m4) }))"

text \<open>The data of the first or the last element, null for an empty list.\<close>

definition sge_sl_data_of :: "ptr option \<Rightarrow> sl_direction \<Rightarrow> 'd sl_mem \<Rightarrow> 'd option option" where
  "sge_sl_data_of list direction m =
     (case list of
        None \<Rightarrow> Some None
      | Some l \<Rightarrow> do {
          h \<leftarrow> list_at m l;
          sge_sl_elem_data (if direction = SGE_SL_FORWARD then sl_first h else sl_last h) m })"

definition sge_sl_data_search :: "ptr option \<Rightarrow> 'd \<Rightarrow> 'd sl_compare \<Rightarrow> sl_direction \<Rightarrow> 'd sl_mem \<Rightarrow> 'd option option" where
  "sge_sl_data_search list key compare direction m =
     (case list of
        None \<Rightarrow> Some None
      | Some l \<Rightarrow> do {
          (ret, elem) \<leftarrow> sge_sl_elem_search list None key compare direction m;
          if ret then sge_sl_elem_data elem m else Some None })"

definition sge_sl_delete :: "ptr option \<Rightarrow> bool \<Rightarrow> sl_direction \<Rightarrow> 'd sl_mem \<Rightarrow> (bool \<times> 'd sl_mem) option" where
  "sge_sl_delete list destroy direction m =
     (case list of
        None \<Rightarrow> Some (True, m)
      | Some l \<Rightarrow> do {
          h \<leftarrow> list_at m l;
          let elem = (if direction = SGE_SL_FORWARD then sl_first h else sl_last h) in
          do { (ret, m1) \<leftarrow> sge_sl_dechain list elem m;
               if ret then sge_sl_elem_destroy elem destroy m1 else Some (ret, m1) } })"

definition sge_sl_delete_search ::
  "ptr option \<Rightarrow> 'd option \<Rightarrow> bool \<Rightarrow> 'd sl_compare \<Rightarrow> sl_direction \<Rightarrow> 'd sl_mem \<Rightarrow> (bool \<times> 'd sl_mem) option" where
  "sge_sl_delete_search list key destroy compare direction m =
     (case (list, key) of
        (Some l, Some k) \<Rightarrow> do {
          (ret, elem) \<leftarrow> sge_sl_elem_search list None k compare direction m;
          (ret, m1) \<leftarrow> (if ret then sge_sl_dechain list elem m else Some (ret, m));
          if ret then sge_sl_elem_destroy elem destroy m1 else Some (ret, m1) }
      | _ \<Rightarrow> Some (True, m))"

definition sge_sl_get_elem_count :: "ptr option \<Rightarrow> 'd sl_mem \<Rightarrow> 32 word option" where
  "sge_sl_get_elem_count list m = (case list of None \<Rightarrow> Some 0 | Some l \<Rightarrow> map_option sl_elements (list_at m l))"

text \<open>
  Sorting reads the data into an array, sorts that with \<open>qsort\<close>, a parameter, and writes it back. An
  array with fewer places than elements is left.
\<close>

partial_function (option) read_data :: "ptr \<Rightarrow> 'd sl_mem \<Rightarrow> ptr option \<Rightarrow> nat \<Rightarrow> 'd list option" where
  "read_data l m elem room =
     (case elem of
        None \<Rightarrow> Some []
      | Some p \<Rightarrow>
          if room = 0 then None
          else do {
            e \<leftarrow> elem_at m p;
            nxt \<leftarrow> step_from SGE_SL_FORWARD l elem m;
            ds \<leftarrow> read_data l m nxt (room - 1);
            Some (sl_data e # ds) })"

fun write_data :: "ptr \<Rightarrow> ptr option \<Rightarrow> 'd list \<Rightarrow> 'd sl_mem \<Rightarrow> 'd sl_mem option" where
  "write_data l None ds m = Some m"
| "write_data l (Some p) [] m = None"
| "write_data l (Some p) (d # ds) m = do {
     m1 \<leftarrow> upd_elem (\<lambda>x. x\<lparr>sl_data := d\<rparr>) p m;
     nxt \<leftarrow> step_from SGE_SL_FORWARD l (Some p) m1;
     write_data l nxt ds m1 }"

definition sge_sl_sort :: "('d list \<Rightarrow> 'd list) \<Rightarrow> bool \<Rightarrow> ptr option \<Rightarrow> 'd sl_mem \<Rightarrow> (bool \<times> 'd sl_mem) option" where
  "sge_sl_sort qsort memory list m =
     (case list of
        None \<Rightarrow> Some (True, m)
      | Some l \<Rightarrow>
          if \<not> memory then Some (False, m)
          else do {
            h \<leftarrow> list_at m l;
            ds \<leftarrow> read_data l m (sl_first h) (unat (sl_elements h));
            m1 \<leftarrow> write_data l (sl_first h) (qsort ds) m;
            Some (True, m1) })"

end
