(* ===== verification/Simple_List_Facts.thy ===== *)
theory Simple_List_Facts
  imports Simple_List
begin

text \<open>
  A doubly linked list in memory stands for the sequence of its elements, each an address with its data. Every
  operation does to this sequence what it should, and leaves the rest of the memory alone.
\<close>

section \<open>Chains\<close>

definition first_of :: "(ptr \<times> 'd) list \<Rightarrow> ptr option \<Rightarrow> ptr option" where
  "first_of xs a = (case xs of [] \<Rightarrow> a | x # _ \<Rightarrow> Some (fst x))"

definition last_of :: "ptr option \<Rightarrow> (ptr \<times> 'd) list \<Rightarrow> ptr option" where
  "last_of b xs = (if xs = [] then b else Some (fst (last xs)))"

lemma first_of_simps [simp]:
  "first_of [] a = a" "first_of (x # xs) a = Some (fst x)" "first_of (xs @ ys) a = first_of xs (first_of ys a)"
  by (auto simp: first_of_def split: list.splits)

lemma last_of_simps [simp]:
  "last_of b [] = b" "last_of b (x # xs) = last_of (Some (fst x)) xs" "last_of b (xs @ ys) = last_of (last_of b xs) ys"
  by (auto simp: last_of_def)

fun dseg :: "(ptr \<rightharpoonup> 'd sl_elem) \<Rightarrow> ptr option \<Rightarrow> (ptr \<times> 'd) list \<Rightarrow> ptr option \<Rightarrow> bool" where
  "dseg h b [] a = True"
| "dseg h b ((p, d) # xs) a \<longleftrightarrow>
     h p = Some \<lparr>sl_prev = b, sl_next = first_of xs a, sl_data = d\<rparr> \<and> dseg h (Some p) xs a"

lemma dseg_append [simp]: "dseg h b (xs @ ys) a \<longleftrightarrow> dseg h b xs (first_of ys a) \<and> dseg h (last_of b xs) ys a"
  by (induction h b xs a rule: dseg.induct) auto

lemma dseg_frame [simp]: "p \<notin> fst ` set xs \<Longrightarrow> dseg (h(p := e)) b xs a = dseg h b xs a"
  by (induction h b xs a rule: dseg.induct) auto

lemma dseg_cong: "(\<And>p. p \<in> fst ` set xs \<Longrightarrow> h' p = h p) \<Longrightarrow> dseg h' b xs a = dseg h b xs a"
  by (induction h b xs a rule: dseg.induct) auto

definition rep :: "'d sl_mem \<Rightarrow> ptr \<Rightarrow> (ptr \<times> 'd) list \<Rightarrow> bool" where
  "rep m l xs \<longleftrightarrow>
     list_at m l = Some \<lparr>sl_first = first_of xs None, sl_last = last_of None xs, sl_elements = of_nat (length xs)\<rparr> \<and>
     distinct (map fst xs) \<and> dseg (elem_at m) None xs None"

text \<open>Nothing else is changed: elements of other lists, and their heads.\<close>

definition unchanged :: "'d sl_mem \<Rightarrow> 'd sl_mem \<Rightarrow> ptr set \<Rightarrow> ptr \<Rightarrow> bool" where
  "unchanged m m' ps l \<longleftrightarrow> (\<forall>p. p \<notin> ps \<longrightarrow> elem_at m' p = elem_at m p) \<and> (\<forall>k. k \<noteq> l \<longrightarrow> list_at m' k = list_at m k)"

definition single :: "'d sl_mem \<Rightarrow> ptr \<Rightarrow> 'd \<Rightarrow> bool" where
  "single m p d \<longleftrightarrow> elem_at m p = Some \<lparr>sl_prev = None, sl_next = None, sl_data = d\<rparr>"

named_theorems sl_defs
lemmas [sl_defs] = rep_def unchanged_def single_def upd_elem_def upd_list_def

lemma links_by_address:
  assumes "map fst xs = map fst ys"
  shows "first_of xs a = first_of ys a" "last_of b xs = last_of b ys"
proof -
  show "first_of xs a = first_of ys a" using assms by (cases xs; cases ys) auto
  show "last_of b xs = last_of b ys" using assms by (cases xs rule: rev_cases; cases ys rule: rev_cases) auto
qed

lemma link_not_null [simp]: "last_of (Some p) xs \<noteq> None" "first_of xs (Some p) \<noteq> None"
  by (auto simp: last_of_def first_of_def split: list.splits)

lemma rep_in_memory: "rep m l xs \<Longrightarrow> p \<in> fst ` set xs \<Longrightarrow> elem_at m p \<noteq> None"
proof -
  assume r: "rep m l xs" and "p \<in> fst ` set xs"
  then obtain d ys zs where "xs = ys @ (p, d) # zs" by (metis (no_types, lifting) imageE prod.collapse split_list)
  then show ?thesis using r by (simp add: rep_def)
qed

lemma rep_other:
  assumes "rep m k ys" "unchanged m m' ps l" "k \<noteq> l" "fst ` set ys \<inter> ps = {}"
  shows "rep m' k ys"
proof -
  have "dseg (elem_at m') None ys None = dseg (elem_at m) None ys None"
    using assms(2,4) by (intro dseg_cong) (auto simp: unchanged_def)
  then show ?thesis using assms by (simp add: rep_def unchanged_def)
qed

section \<open>Elements\<close>

lemma dechain_rep:
  assumes "rep m l (xs @ (p, d) # ys)"
  shows "\<exists>m'. sge_sl_dechain (Some l) (Some p) m = Some (True, m') \<and> rep m' l (xs @ ys) \<and> single m' p d \<and>
    unchanged m m' (fst ` set (xs @ (p, d) # ys)) l \<and> sl_destroyed m' = sl_destroyed m"
  using assms by (cases xs rule: rev_cases; cases ys) (auto simp: sl_defs image_Un sge_sl_dechain_def)

lemma insert_before_rep:
  assumes "rep m l (xs @ (p, d) # ys)" "single m n e" "n \<notin> fst ` set (xs @ (p, d) # ys)"
  shows "\<exists>m'. sge_sl_insert_before (Some l) (Some n) (Some p) m = Some (True, m') \<and> rep m' l (xs @ (n, e) # (p, d) # ys) \<and>
    unchanged m m' (insert n (fst ` set (xs @ (p, d) # ys))) l \<and> sl_destroyed m' = sl_destroyed m"
  using assms by (cases xs rule: rev_cases; cases ys) (auto simp: sl_defs image_Un sge_sl_insert_before_def)

lemma append_after_rep:
  assumes "rep m l (xs @ (p, d) # ys)" "single m n e" "n \<notin> fst ` set (xs @ (p, d) # ys)"
  shows "\<exists>m'. sge_sl_append_after (Some l) (Some n) (Some p) m = Some (True, m') \<and> rep m' l (xs @ (p, d) # (n, e) # ys) \<and>
    unchanged m m' (insert n (fst ` set (xs @ (p, d) # ys))) l \<and> sl_destroyed m' = sl_destroyed m"
  using assms by (cases xs rule: rev_cases; cases ys) (auto simp: sl_defs image_Un sge_sl_append_after_def)


lemma step_behind:
  assumes "rep m l (xs @ (p, d) # ys)"
  shows "step_from SGE_SL_FORWARD l (Some p) m = Some (first_of ys None)" "step_from SGE_SL_BACKWARD l (Some p) m = Some (last_of None xs)"
  using assms by (simp_all add: rep_def step_from_def)

lemma step_start:
  assumes "rep m l xs"
  shows "step_from SGE_SL_FORWARD l None m = Some (first_of xs None)" "step_from SGE_SL_BACKWARD l None m = Some (last_of None xs)"
  using assms by (simp_all add: rep_def step_from_def)

text \<open>A search finds the first hit behind, or the last before, the element it starts from.\<close>

lemma search_forward:
  "dseg h b ys None \<Longrightarrow> search_loop hit SGE_SL_FORWARD h (first_of ys None) = Some (map_option fst (find (hit \<circ> snd) ys))"
  by (induction ys arbitrary: b) (auto simp: search_loop.simps)

lemma search_backward:
  "dseg h None xs a \<Longrightarrow> search_loop hit SGE_SL_BACKWARD h (last_of None xs) = Some (map_option fst (find (hit \<circ> snd) (rev xs)))"
  by (induction xs arbitrary: a rule: rev_induct) (auto simp: search_loop.simps)

lemma elem_search_behind:
  assumes "rep m l (xs @ (p, d) # ys)"
  shows "sge_sl_elem_search (Some l) (Some p) key compare SGE_SL_FORWARD m
      = Some (True, map_option fst (find ((\<lambda>x. compare key x = 0) \<circ> snd) ys))"
    "sge_sl_elem_search (Some l) (Some p) key compare SGE_SL_BACKWARD m
      = Some (True, map_option fst (find ((\<lambda>x. compare key x = 0) \<circ> snd) (rev xs)))"
  using assms search_forward[of "elem_at m" "Some p" ys] search_backward[of "elem_at m" xs "Some p"]
  by (simp_all add: sge_sl_elem_search_def step_behind[OF assms]) (simp_all add: rep_def)

lemma elem_search_all:
  assumes "rep m l xs"
  shows "sge_sl_elem_search (Some l) None key compare direction m = Some (True, map_option fst
    (find ((\<lambda>x. compare key x = 0) \<circ> snd) (if direction = SGE_SL_FORWARD then xs else rev xs)))"
  using assms search_forward[of "elem_at m" None xs] search_backward[of "elem_at m" xs None]
  by (cases direction) (simp_all add: sge_sl_elem_search_def step_start[OF assms] rep_def)

section \<open>Lists\<close>

lemma create_rep: "sge_sl_create (Some a) m = ((True, Some a), m') \<Longrightarrow> rep m' a [] \<and> unchanged m m' {} a \<and> sl_destroyed m' = sl_destroyed m"
  by (auto simp: sge_sl_create_def sl_defs)

lemma insert_rep:
  assumes "rep m l xs" "elem_at m n = None"
  shows "\<exists>m'. sge_sl_insert (Some n) (Some l) d direction m = Some (True, m') \<and>
    rep m' l (if direction = SGE_SL_FORWARD then (n, d) # xs else xs @ [(n, d)]) \<and>
    unchanged m m' (insert n (fst ` set xs)) l \<and> sl_destroyed m' = sl_destroyed m"
proof -
  have n: "n \<notin> fst ` set xs" using rep_in_memory[OF assms(1)] assms(2) by blast
  show ?thesis
  proof (cases direction)
    case SGE_SL_FORWARD
    then show ?thesis using assms n by (cases xs) (auto simp: sl_defs sge_sl_insert_def sge_sl_elem_create_def)
  next
    case SGE_SL_BACKWARD
    then show ?thesis using assms n
      by (cases xs rule: rev_cases) (auto simp: sl_defs sge_sl_insert_def sge_sl_elem_create_def image_Un)
  qed
qed

lemma insert_place_rep:
  "dseg h b ys None \<Longrightarrow> insert_place g h b (first_of ys None) =
    Some (last_of b (takeWhile (g \<circ> snd) ys), first_of (dropWhile (g \<circ> snd) ys) None)"
  by (induction ys arbitrary: b) (auto simp: insert_place.simps)

lemma insert_search_rep:
  assumes "rep m l xs" "elem_at m n = None"
  shows "\<exists>m'. sge_sl_insert_search (Some n) (Some l) d compare m = Some (True, m') \<and>
    rep m' l (takeWhile (\<lambda>x. compare d (snd x) > 0) xs @ (n, d) # dropWhile (\<lambda>x. compare d (snd x) > 0) xs) \<and>
    unchanged m m' (insert n (fst ` set xs)) l \<and> sl_destroyed m' = sl_destroyed m"
proof -
  have n: "n \<notin> fst ` set xs" using rep_in_memory[OF assms(1)] assms(2) by blast
  define ys where "ys = takeWhile (\<lambda>x. compare d (snd x) > 0) xs"
  define zs where "zs = dropWhile (\<lambda>x. compare d (snd x) > 0) xs"
  have xs: "xs = ys @ zs" by (simp add: ys_def zs_def)
  have p: "insert_place (\<lambda>x. compare d x > 0) ((elem_at m)(n := e)) None (first_of xs None) = Some (last_of None ys, first_of zs None)" for e
    using insert_place_rep[of "(elem_at m)(n := e)" None xs "\<lambda>x. compare d x > 0"] assms(1) n
    by (simp add: rep_def ys_def zs_def comp_def)
  show ?thesis unfolding ys_def[symmetric] zs_def[symmetric] using assms(1) n p unfolding xs
    by (cases ys rule: rev_cases; cases zs) (auto simp: sl_defs sge_sl_insert_search_def sge_sl_elem_create_def image_Un)
qed


lemma data_rep:
  assumes "rep m l xs"
  shows "sge_sl_data_of (Some l) direction m =
    Some (if xs = [] then None else Some (snd (if direction = SGE_SL_FORWARD then hd xs else last xs)))"
proof (cases direction)
  case SGE_SL_FORWARD
  then show ?thesis using assms by (cases xs) (auto simp: sge_sl_data_of_def sge_sl_elem_data_def rep_def)
next
  case SGE_SL_BACKWARD
  then show ?thesis using assms by (cases xs rule: rev_cases) (auto simp: sge_sl_data_of_def sge_sl_elem_data_def rep_def)
qed

lemma elem_data_rep: "rep m l xs \<Longrightarrow> x \<in> set xs \<Longrightarrow> sge_sl_elem_data (Some (fst x)) m = Some (Some (snd x))"
  by (cases x) (auto simp: rep_def sge_sl_elem_data_def dest!: split_list)

definition found :: "'d sl_compare \<Rightarrow> 'd \<Rightarrow> sl_direction \<Rightarrow> (ptr \<times> 'd) list \<Rightarrow> (ptr \<times> 'd) option" where
  "found compare key direction xs =
     find ((\<lambda>x. compare key x = 0) \<circ> snd) (if direction = SGE_SL_FORWARD then xs else rev xs)"

lemma found_in: "found compare key direction xs = Some x \<Longrightarrow> x \<in> set xs"
  by (auto simp: found_def find_Some_iff split: if_splits) (metis length_rev nth_mem set_rev)

lemma data_search_rep:
  assumes "rep m l xs"
  shows "sge_sl_data_search (Some l) key compare direction m = Some (map_option snd (found compare key direction xs))"
  unfolding sge_sl_data_search_def option.case elem_search_all[OF assms] found_def[symmetric] bind_simps prod.case if_True
  using elem_data_rep[OF assms] found_in[of compare key direction xs]
  by (cases "found compare key direction xs") (auto simp: sge_sl_elem_data_def)

text \<open>
  What an operation does to a list and to nothing else: the list is another one, and elements that are
  no longer in it have been freed.
\<close>

definition becomes :: "'d sl_mem \<Rightarrow> 'd sl_mem \<Rightarrow> ptr \<Rightarrow> (ptr \<times> 'd) list \<Rightarrow> (ptr \<times> 'd) list \<Rightarrow> bool" where
  "becomes m m' l xs xs' \<longleftrightarrow> rep m' l xs' \<and> unchanged m m' (fst ` set xs \<union> fst ` set xs') l \<and>
     (\<forall>p \<in> fst ` set xs - fst ` set xs'. elem_at m' p = None)"

lemma becomes_same: "rep m l xs \<Longrightarrow> becomes m m l xs xs"
  by (simp add: becomes_def unchanged_def)

lemma dechain_destroy:
  assumes "rep m l (xs @ (p, d) # ys)"
  shows "\<exists>m1 m'. sge_sl_dechain (Some l) (Some p) m = Some (True, m1) \<and> sge_sl_elem_destroy (Some p) destroy m1 = Some (True, m') \<and>
    becomes m m' l (xs @ (p, d) # ys) (xs @ ys) \<and> sl_destroyed m' = sl_destroyed m @ (if destroy then [d] else [])"
proof -
  obtain m1 where m1: "sge_sl_dechain (Some l) (Some p) m = Some (True, m1)" "rep m1 l (xs @ ys)" "single m1 p d"
      "unchanged m m1 (fst ` set (xs @ (p, d) # ys)) l" "sl_destroyed m1 = sl_destroyed m"
    using dechain_rep[OF assms] by blast
  have "p \<notin> fst ` set (xs @ ys)" using assms by (auto simp: rep_def image_Un)
  then show ?thesis using m1
    by (auto simp: sge_sl_elem_destroy_def single_def becomes_def rep_def unchanged_def image_Un)
qed

lemma delete_rep:
  assumes "rep m l xs"
  shows "\<exists>m'. sge_sl_delete (Some l) destroy direction m = Some (True, m') \<and>
    becomes m m' l xs (if direction = SGE_SL_FORWARD then tl xs else butlast xs)"
proof (cases "xs = []")
  case True
  then show ?thesis using assms becomes_same[OF assms]
    by (auto simp: sge_sl_delete_def sge_sl_dechain_def sge_sl_elem_destroy_def rep_def)
next
  case False
  show ?thesis
  proof (cases direction)
    case SGE_SL_FORWARD
    obtain p d ys where xs: "xs = [] @ (p, d) # ys" using False by (cases xs) auto
    show ?thesis using dechain_destroy[OF assms[unfolded xs], of destroy] assms SGE_SL_FORWARD xs
      by (auto simp: sge_sl_delete_def rep_def)
  next
    case SGE_SL_BACKWARD
    obtain p d ys where xs: "xs = ys @ (p, d) # []" using False by (cases xs rule: rev_cases) auto
    show ?thesis using dechain_destroy[OF assms[unfolded xs], of destroy] assms SGE_SL_BACKWARD xs
      by (auto simp: sge_sl_delete_def rep_def butlast_append)
  qed
qed

lemma remove1_middle: "distinct (map fst (xs @ x # ys)) \<Longrightarrow> remove1 x (xs @ x # ys) = xs @ ys"
  by (auto simp: remove1_append)

lemma delete_search_rep:
  assumes "rep m l xs"
  shows "\<exists>m'. sge_sl_delete_search (Some l) (Some key) destroy compare direction m = Some (True, m') \<and>
    becomes m m' l xs (case found compare key direction xs of None \<Rightarrow> xs | Some x \<Rightarrow> remove1 x xs)"
proof (cases "found compare key direction xs")
  case None
  then show ?thesis using becomes_same[OF assms]
    by (simp add: sge_sl_delete_search_def elem_search_all[OF assms] flip: found_def)
      (simp add: sge_sl_dechain_def sge_sl_elem_destroy_def)
next
  case (Some x)
  obtain ys p d zs where xs: "xs = ys @ (p, d) # zs" "x = (p, d)"
    using split_list[OF found_in[OF Some]] by (cases x) auto
  have "remove1 x xs = ys @ zs" using assms xs remove1_middle[of ys x zs] by (simp add: rep_def)
  then show ?thesis using dechain_destroy[OF assms[unfolded xs(1)], of destroy] Some
    by (auto simp: sge_sl_delete_search_def elem_search_all[OF assms] xs simp flip: found_def)
qed

section \<open>Sorting and freeing\<close>

lemma read_data_rep:
  "dseg (elem_at m) b ys None \<Longrightarrow> length ys \<le> room \<Longrightarrow> read_data l m (first_of ys None) room = Some (map snd ys)"
proof (induction ys arbitrary: b room)
  case (Cons x ys)
  then show ?case by (cases x; cases room) (auto simp: read_data.simps[of _ _ _ "Suc _"] step_from_def)
qed (simp add: read_data.simps)

lemma write_data_rep:
  assumes "dseg (elem_at m) b ys None" "distinct (map fst ys)" "length ds = length ys"
  shows "\<exists>m'. write_data l (first_of ys None) ds m = Some m' \<and> dseg (elem_at m') b (zip (map fst ys) ds) None \<and>
    unchanged m m' (fst ` set ys) l \<and> list_at m' = list_at m"
  using assms
proof (induction ys arbitrary: b ds m)
  case (Cons x ys)
  obtain p d where x: "x = (p, d)" by (cases x)
  obtain e es where ds: "ds = e # es" using Cons.prems by (cases ds) auto
  let ?m1 = "m\<lparr>elem_at := (elem_at m)(p \<mapsto> \<lparr>sl_prev = b, sl_next = first_of ys None, sl_data = e\<rparr>)\<rparr>"
  have d: "dseg (elem_at ?m1) (Some p) ys None" using Cons.prems x by simp
  obtain m' where m': "write_data l (first_of ys None) es ?m1 = Some m'" "dseg (elem_at m') (Some p) (zip (map fst ys) es) None"
      "unchanged ?m1 m' (fst ` set ys) l" "list_at m' = list_at m"
    using Cons.IH[OF d, of es] Cons.prems(2,3) ds by auto
  have "first_of (zip (map fst ys) es) None = first_of ys None"
    using Cons.prems ds by (cases ys; cases es) auto
  moreover have "elem_at m' p = elem_at ?m1 p" using m'(3) Cons.prems(2) x by (auto simp: unchanged_def)
  ultimately show ?case using m' Cons.prems x ds
    by (auto simp: upd_elem_def step_from_def unchanged_def)
qed (simp add: unchanged_def)

lemma sort_rep:
  assumes "rep m l xs" "\<And>ds. length (qsort ds) = length ds" "length xs < 2 ^ 32"
  shows "\<exists>m'. sge_sl_sort qsort True (Some l) m = Some (True, m') \<and> becomes m m' l xs (zip (map fst xs) (qsort (map snd xs)))"
proof -
  let ?ds = "qsort (map snd xs)"
  have r: "list_at m l = Some \<lparr>sl_first = first_of xs None, sl_last = last_of None xs, sl_elements = of_nat (length xs)\<rparr>"
    "distinct (map fst xs)" "dseg (elem_at m) None xs None" using assms(1) by (simp_all add: rep_def)
  have n: "unat (of_nat (length xs) :: 32 word) = length xs" using assms(3) by (simp add: unsigned_of_nat take_bit_nat_eq_self)
  have len: "length ?ds = length xs" using assms(2) by simp
  obtain m' where m': "write_data l (first_of xs None) ?ds m = Some m'" "dseg (elem_at m') None (zip (map fst xs) ?ds) None"
      "unchanged m m' (fst ` set xs) l" "list_at m' = list_at m"
    using write_data_rep[OF r(3,2) len] by blast
  have f: "map fst (zip (map fst xs) ?ds) = map fst xs" using len by simp
  then have f': "fst ` set (zip (map fst xs) ?ds) = fst ` set xs" by (metis list.set_map)
  have "first_of (zip (map fst xs) ?ds) None = first_of xs None" "last_of None (zip (map fst xs) ?ds) = last_of None xs"
    using links_by_address[OF f] by blast+
  then have "becomes m m' l xs (zip (map fst xs) ?ds)"
    using m' r f f' len by (simp add: becomes_def rep_def)
  then show ?thesis using m'(1) r read_data_rep[OF r(3), of "length xs" l] n by (simp add: sge_sl_sort_def)
qed


text \<open>Freeing a list frees each element once, in order.\<close>

lemma destroy_loop_rep:
  assumes "dseg (elem_at m) b ys None" "distinct (map fst ys)"
  shows "\<exists>m'. destroy_loop destroy (first_of ys None) ret m = Some (ret, m') \<and>
    elem_at m' = (elem_at m) |` (- (fst ` set ys)) \<and> list_at m' = list_at m \<and>
    sl_destroyed m' = sl_destroyed m @ (if destroy then map snd ys else [])"
  using assms
proof (induction ys arbitrary: b m)
  case Nil
  show ?case by (simp add: destroy_loop.simps)
next
  case (Cons x ys)
  obtain p d where x: "x = (p, d)" by (cases x)
  let ?m1 = "m\<lparr>elem_at := (elem_at m)(p := None), sl_destroyed := (if destroy then sl_destroyed m @ [d] else sl_destroyed m)\<rparr>"
  have s: "dseg (elem_at ?m1) (Some p) ys None" "distinct (map fst ys)" using Cons.prems x by simp_all
  obtain m' where m': "destroy_loop destroy (first_of ys None) ret ?m1 = Some (ret, m')"
      "elem_at m' = (elem_at ?m1) |` (- (fst ` set ys))" "list_at m' = list_at ?m1"
      "sl_destroyed m' = sl_destroyed ?m1 @ (if destroy then map snd ys else [])"
    using Cons.IH[OF s] by blast
  have "destroy_loop destroy (Some p) ret m = destroy_loop destroy (first_of ys None) ret ?m1"
    using Cons.prems(1) x by (subst destroy_loop.simps) (simp add: sge_sl_elem_destroy_def)
  moreover have "(elem_at m)(p := None) |` (- (fst ` set ys)) = elem_at m |` (- (fst ` set (x # ys)))"
    using x by (auto simp: restrict_map_def fun_eq_iff)
  ultimately show ?case using m' x by auto
qed

text \<open>
  C35. Freeing a list. The destroy function is called once for each datum, from the first to the last; then
  none of the elements and not the list is in memory any more, and everything else is as before.
\<close>

theorem destroy_frees_everything_once:
  assumes "rep m l xs"
  shows "\<exists>m'. sge_sl_destroy (Some l) True m = Some (True, m') \<and> sl_destroyed m' = sl_destroyed m @ map snd xs \<and>
    elem_at m' = elem_at m |` (- (fst ` set xs)) \<and> list_at m' = (list_at m)(l := None)"
  using assms destroy_loop_rep[of m None xs True True] by (auto simp: rep_def sge_sl_destroy_def)

end
