(* ===== verification/Simple_List_Spec.thy ===== *)
theory Simple_List_Spec
  imports Simple_List_Facts
begin

text \<open>
  A list in memory against its specification: any sequence of operations returns what it would return on a
  sequence of data.
\<close>

datatype 'd sl_op =
    Insert "ptr option" 'd sl_direction
  | Insert_Search "ptr option" 'd
  | Delete bool sl_direction
  | Delete_Search 'd bool sl_direction
  | Sort bool
  | Data sl_direction
  | Data_Search 'd sl_direction
  | Count

datatype 'd sl_result = Done bool | Datum "'d option" | Number "32 word"

fun sl_exec :: "'d sl_compare \<Rightarrow> ('d list \<Rightarrow> 'd list) \<Rightarrow> ptr \<Rightarrow> 'd sl_op \<Rightarrow> 'd sl_mem \<Rightarrow> ('d sl_result \<times> 'd sl_mem) option" where
  "sl_exec compare qsort l (Insert a d dir) m = map_option (map_prod Done id) (sge_sl_insert a (Some l) d dir m)"
| "sl_exec compare qsort l (Insert_Search a d) m = map_option (map_prod Done id) (sge_sl_insert_search a (Some l) d compare m)"
| "sl_exec compare qsort l (Delete destroy dir) m = map_option (map_prod Done id) (sge_sl_delete (Some l) destroy dir m)"
| "sl_exec compare qsort l (Delete_Search k destroy dir) m =
     map_option (map_prod Done id) (sge_sl_delete_search (Some l) (Some k) destroy compare dir m)"
| "sl_exec compare qsort l (Sort memory) m = map_option (map_prod Done id) (sge_sl_sort qsort memory (Some l) m)"
| "sl_exec compare qsort l (Data dir) m = map_option (\<lambda>d. (Datum d, m)) (sge_sl_data_of (Some l) dir m)"
| "sl_exec compare qsort l (Data_Search k dir) m = map_option (\<lambda>d. (Datum d, m)) (sge_sl_data_search (Some l) k compare dir m)"
| "sl_exec compare qsort l Count m = map_option (\<lambda>n. (Number n, m)) (sge_sl_get_elem_count (Some l) m)"

fun sl_run :: "'d sl_compare \<Rightarrow> ('d list \<Rightarrow> 'd list) \<Rightarrow> ptr \<Rightarrow> 'd sl_op list \<Rightarrow> 'd sl_mem \<Rightarrow> ('d sl_result list \<times> 'd sl_mem) option" where
  "sl_run compare qsort l [] m = Some ([], m)"
| "sl_run compare qsort l (op # ops) m =
     do { (r, m1) \<leftarrow> sl_exec compare qsort l op m;
          (rs, m2) \<leftarrow> sl_run compare qsort l ops m1;
          Some (r # rs, m2) }"

text \<open>
  The specification. An address that \<open>malloc\<close> returns is not in use: neither by the list nor by the rest
  of the memory.
\<close>

fun abs_exec :: "'d sl_compare \<Rightarrow> ('d list \<Rightarrow> 'd list) \<Rightarrow> ptr set \<Rightarrow> 'd sl_op \<Rightarrow> (ptr \<times> 'd) list \<Rightarrow> ('d sl_result \<times> (ptr \<times> 'd) list) option" where
  "abs_exec compare qsort used (Insert None d dir) xs = Some (Done False, xs)"
| "abs_exec compare qsort used (Insert (Some a) d dir) xs =
     (if a \<in> used \<union> fst ` set xs then None
      else Some (Done True, if dir = SGE_SL_FORWARD then (a, d) # xs else xs @ [(a, d)]))"
| "abs_exec compare qsort used (Insert_Search None d) xs = Some (Done False, xs)"
| "abs_exec compare qsort used (Insert_Search (Some a) d) xs =
     (if a \<in> used \<union> fst ` set xs then None
      else Some (Done True, takeWhile (\<lambda>x. compare d (snd x) > 0) xs @ (a, d) # dropWhile (\<lambda>x. compare d (snd x) > 0) xs))"
| "abs_exec compare qsort used (Delete destroy dir) xs = Some (Done True, if dir = SGE_SL_FORWARD then tl xs else butlast xs)"
| "abs_exec compare qsort used (Delete_Search k destroy dir) xs =
     Some (Done True, case found compare k dir xs of None \<Rightarrow> xs | Some x \<Rightarrow> remove1 x xs)"
| "abs_exec compare qsort used (Sort memory) xs =
     Some (Done memory, if memory then zip (map fst xs) (qsort (map snd xs)) else xs)"
| "abs_exec compare qsort used (Data dir) xs =
     Some (Datum (if xs = [] then None else Some (snd (if dir = SGE_SL_FORWARD then hd xs else last xs))), xs)"
| "abs_exec compare qsort used (Data_Search k dir) xs = Some (Datum (map_option snd (found compare k dir xs)), xs)"
| "abs_exec compare qsort used Count xs = Some (Number (of_nat (length xs)), xs)"

fun abs_run :: "'d sl_compare \<Rightarrow> ('d list \<Rightarrow> 'd list) \<Rightarrow> ptr set \<Rightarrow> 'd sl_op list \<Rightarrow> (ptr \<times> 'd) list \<Rightarrow> ('d sl_result list \<times> (ptr \<times> 'd) list) option" where
  "abs_run compare qsort used [] xs = Some ([], xs)"
| "abs_run compare qsort used (op # ops) xs =
     do { (r, xs1) \<leftarrow> abs_exec compare qsort used op xs;
          (rs, xs2) \<leftarrow> abs_run compare qsort used ops xs1;
          Some (r # rs, xs2) }"

text \<open>The memory of one list and of other elements, \<open>used\<close>.\<close>

definition sl_sim :: "ptr set \<Rightarrow> 'd sl_mem \<Rightarrow> ptr \<Rightarrow> (ptr \<times> 'd) list \<Rightarrow> bool" where
  "sl_sim used m l xs \<longleftrightarrow> rep m l xs \<and> fst ` set xs \<inter> used = {} \<and> dom (elem_at m) \<subseteq> used \<union> fst ` set xs"

lemma sim_becomes:
  assumes "sl_sim used m l xs" "becomes m m' l xs xs'" "fst ` set xs' \<inter> used = {}"
  shows "sl_sim used m' l xs' \<and> unchanged m m' (- used) l"
proof -
  have u: "unchanged m m' (fst ` set xs \<union> fst ` set xs') l" and f: "\<forall>p \<in> fst ` set xs - fst ` set xs'. elem_at m' p = None"
    and r: "rep m' l xs'" using assms(2) by (simp_all add: becomes_def)
  have "p \<in> used \<union> fst ` set xs'" if "elem_at m' p \<noteq> None" for p
  proof (cases "p \<in> fst ` set xs \<union> fst ` set xs'")
    case False
    then have "elem_at m p \<noteq> None" using u that by (simp add: unchanged_def)
    then show ?thesis using assms(1) False by (auto simp: sl_sim_def)
  next
    case True
    then show ?thesis using f that by (cases "p \<in> fst ` set xs'") auto
  qed
  moreover have "p \<notin> fst ` set xs \<union> fst ` set xs'" if "p \<in> used" for p
    using assms(1,3) that unfolding sl_sim_def by blast
  then have "unchanged m m' (- used) l" using u by (simp add: unchanged_def)
  ultimately show ?thesis using r assms(3) by (auto simp: sl_sim_def)
qed

lemma insert_becomes:
  assumes "rep m l xs" "elem_at m n = None"
  shows "\<exists>m'. sge_sl_insert (Some n) (Some l) d direction m = Some (True, m') \<and>
    becomes m m' l xs (if direction = SGE_SL_FORWARD then (n, d) # xs else xs @ [(n, d)])"
  using insert_rep[OF assms, of d direction] by (cases direction) (auto simp: becomes_def insert_commute)

lemma set_insertion: "set (takeWhile P xs @ x # dropWhile P xs) = insert x (set xs)"
proof -
  have "set xs = set (takeWhile P xs) \<union> set (dropWhile P xs)" by (metis set_append takeWhile_dropWhile_id)
  then show ?thesis by auto
qed

lemma insert_search_becomes:
  assumes "rep m l xs" "elem_at m n = None"
  shows "\<exists>m'. sge_sl_insert_search (Some n) (Some l) d compare m = Some (True, m') \<and>
    becomes m m' l xs (takeWhile (\<lambda>x. compare d (snd x) > 0) xs @ (n, d) # dropWhile (\<lambda>x. compare d (snd x) > 0) xs)"
  using insert_search_rep[OF assms, of d compare] unfolding becomes_def set_insertion by (auto simp: unchanged_def)

lemma insert_no_memory:
  "sge_sl_insert None (Some l) d direction m = Some (False, m)" "sge_sl_insert_search None (Some l) d compare m = Some (False, m)"
  by (simp_all add: sge_sl_insert_def sge_sl_insert_search_def sge_sl_elem_create_def)

lemma exec_becomes:
  assumes "sl_sim used m l xs" "abs_exec compare qsort used op xs = Some (r, xs')" "\<And>ds. length (qsort ds) = length ds"
    "length xs < 2 ^ 32"
  shows "\<exists>m'. sl_exec compare qsort l op m = Some (r, m') \<and> becomes m m' l xs xs'"
proof -
  have rep: "rep m l xs" using assms(1) by (simp add: sl_sim_def)
  have fresh: "elem_at m a = None" if "a \<notin> used \<union> fst ` set xs" for a using assms(1) that by (auto simp: sl_sim_def)
  note same = becomes_same[OF rep]
  show ?thesis
  proof (cases op)
    case (Insert a d dir)
    then show ?thesis using assms(2) same insert_becomes[OF rep fresh, of _ d dir]
      by (cases a) (fastforce simp: insert_no_memory split: if_splits)+
  next
    case (Insert_Search a d)
    then show ?thesis using assms(2) same insert_search_becomes[OF rep fresh, of _ d compare]
      by (cases a) (fastforce simp: insert_no_memory split: if_splits)+
  next
    case (Delete destroy dir)
    then show ?thesis using assms(2) delete_rep[OF rep, of destroy dir] by auto
  next
    case (Delete_Search k destroy dir)
    then show ?thesis using assms(2) delete_search_rep[OF rep, of k destroy compare dir] by auto
  next
    case (Sort memory)
    then show ?thesis using assms(2) same sort_rep[OF rep, of qsort] assms(3,4)
      by (cases memory) (auto simp: sge_sl_sort_def)
  qed (use assms(2) same rep in \<open>auto simp: data_rep[OF rep] data_search_rep[OF rep] sge_sl_get_elem_count_def rep_def\<close>)
qed

lemma addresses_zip: "length ds = length xs \<Longrightarrow> fst ` set (zip (map fst xs) ds) = fst ` set xs"
  by (metis length_map list.set_map map_fst_zip)

lemma abs_exec_lists:
  assumes "abs_exec compare qsort used op xs = Some (r, xs')" "fst ` set xs \<inter> used = {}" "\<And>ds. length (qsort ds) = length ds"
  shows "fst ` set xs' \<inter> used = {} \<and> length xs' \<le> Suc (length xs)"
proof -
  have "fst ` set xs' \<subseteq> fst ` set xs \<union> (- used) \<and> length xs' \<le> Suc (length xs)"
  proof (cases op)
    case (Insert a d dir)
    then show ?thesis using assms(1) by (cases a) (auto split: if_splits)
  next
    case (Insert_Search a d)
    let ?P = "\<lambda>x. compare d (snd x) > 0"
    have "length (takeWhile ?P xs) + length (dropWhile ?P xs) = length xs" by (metis length_append takeWhile_dropWhile_id)
    then show ?thesis using Insert_Search assms(1) set_insertion[of ?P xs]
      by (cases a) (auto simp del: set_append set_simps split: if_splits)
  next
    case (Delete destroy dir)
    then show ?thesis using assms(1) by (cases xs) (auto dest!: in_set_butlastD split: if_splits)
  next
    case (Delete_Search k destroy dir)
    have "set (remove1 x xs) \<subseteq> set xs" for x by (rule set_remove1_subset)
    then have "fst ` set (remove1 x xs) \<subseteq> fst ` set xs" for x by (rule image_mono)
    then show ?thesis using assms(1) Delete_Search by (auto simp: length_remove1 split: option.splits)
  next
    case (Sort memory)
    then show ?thesis using assms(1,3) addresses_zip[of "qsort (map snd xs)" xs] by (auto split: if_splits)
  qed (use assms(1) in auto)
  then show ?thesis using assms(2) by blast
qed

text \<open>
  C11. A list in memory is a sequence. Whatever operations are done on a list that a caller owns, of insertion at
  either end or by order, deletion, search and sorting, each returns what it would return on the sequence of data, if
  \<^verbatim>\<open>malloc\<close> returns no address in use; the list stays well linked in both directions, and the rest of the
  memory, \<open>used\<close>, is not touched. Failing to get memory changes nothing.
\<close>

theorem list_refines_sequence:
  assumes "sl_sim used m l xs" "abs_run compare qsort used ops xs = Some (rs, xs')"
    "\<And>ds. length (qsort ds) = length ds" "length xs + length ops < 2 ^ 32"
  shows "\<exists>m'. sl_run compare qsort l ops m = Some (rs, m') \<and> sl_sim used m' l xs' \<and> unchanged m m' (- used) l"
  using assms(1,2,4)
proof (induction ops arbitrary: m xs rs)
  case (Cons op ops)
  obtain r xs1 rs1 where a: "abs_exec compare qsort used op xs = Some (r, xs1)" "abs_run compare qsort used ops xs1 = Some (rs1, xs')"
      "rs = r # rs1" using Cons.prems(2) by (auto simp: Option.bind_eq_Some_conv)
  have l: "fst ` set xs1 \<inter> used = {}" "length xs1 \<le> Suc (length xs)"
    using abs_exec_lists[OF a(1) _ assms(3)] Cons.prems(1) by (auto simp: sl_sim_def)
  obtain m1 where m1: "sl_exec compare qsort l op m = Some (r, m1)" "becomes m m1 l xs xs1"
    using exec_becomes[OF Cons.prems(1) a(1) assms(3)] Cons.prems(3) by auto
  have s1: "sl_sim used m1 l xs1" "unchanged m m1 (- used) l" using sim_becomes[OF Cons.prems(1) m1(2) l(1)] by simp_all
  obtain m' where "sl_run compare qsort l ops m1 = Some (rs1, m')" "sl_sim used m' l xs'" "unchanged m1 m' (- used) l"
    using Cons.IH[OF s1(1) a(2)] l(2) Cons.prems(3) by auto
  then show ?case using m1(1) s1(2) a(3) by (auto simp: unchanged_def)
qed (auto simp: unchanged_def)


text \<open>A small memory: a list of two numbers beside another element.\<close>

definition small_memory :: "nat sl_mem" where
  "small_memory = \<lparr>elem_at = [10 \<mapsto> \<lparr>sl_prev = None, sl_next = Some 20, sl_data = 4\<rparr>,
       20 \<mapsto> \<lparr>sl_prev = Some 10, sl_next = None, sl_data = 2\<rparr>, 30 \<mapsto> \<lparr>sl_prev = None, sl_next = None, sl_data = 9\<rparr>],
     list_at = [1 \<mapsto> \<lparr>sl_first = Some 10, sl_last = Some 20, sl_elements = 2\<rparr>,
       2 \<mapsto> \<lparr>sl_first = Some 30, sl_last = Some 30, sl_elements = 1\<rparr>],
     sl_destroyed = []\<rparr>"

definition by_number :: "nat sl_compare" where "by_number a b = int a - int b"

lemma small_memory_rep: "rep small_memory 1 [(10, 4), (20, 2)]" "rep small_memory 2 [(30, 9)]"
  by (simp_all add: rep_def small_memory_def)

theorem list_refines_sequence_witness:
  "\<exists>m'. sl_run by_number sort 1 [Sort True, Insert_Search (Some 40) 3, Data SGE_SL_BACKWARD, Delete_Search 2 True SGE_SL_FORWARD, Count, Insert None 7 SGE_SL_FORWARD] small_memory
     = Some ([Done True, Done True, Datum (Some 4), Done True, Number 2, Done False], m') \<and> rep m' 1 [(40, 3), (20, 4)]"
proof -
  have s: "sl_sim {30} small_memory 1 [(10, 4), (20, 2)]"
    using small_memory_rep by (auto simp: sl_sim_def small_memory_def)
  have a: "abs_run by_number sort {30} [Sort True, Insert_Search (Some 40) 3, Data SGE_SL_BACKWARD, Delete_Search 2 True SGE_SL_FORWARD, Count, Insert None 7 SGE_SL_FORWARD]
      [(10, 4), (20, 2)] = Some ([Done True, Done True, Datum (Some 4), Done True, Number 2, Done False], [(40, 3), (20, 4)])"
    by (simp add: by_number_def found_def)
  show ?thesis using list_refines_sequence[OF s a] by (auto simp: sl_sim_def)
qed

theorem destroy_frees_everything_once_witness:
  "\<exists>m'. sge_sl_destroy (Some 1) True small_memory = Some (True, m') \<and> sl_destroyed m' = [4, 2] \<and>
    elem_at m' 20 = None \<and> elem_at m' 30 = elem_at small_memory 30"
  using destroy_frees_everything_once[OF small_memory_rep(1)] by (auto simp: small_memory_def restrict_map_def)

section \<open>Moving and sorting\<close>

text \<open>
  Moving an element. Taking an element out of one list and appending it in another one behind any of its elements
  takes it from the one sequence to the other, and nothing else changes, if the lists share no elements.
\<close>

theorem element_moves_between_lists:
  assumes "rep m l (xs @ (p, d) # ys)" "rep m k (zs @ (q, e) # ws)" "l \<noteq> k"
    "fst ` set (xs @ (p, d) # ys) \<inter> fst ` set (zs @ (q, e) # ws) = {}"
  shows "\<exists>m1 m2. sge_sl_dechain (Some l) (Some p) m = Some (True, m1) \<and>
    sge_sl_append_after (Some k) (Some p) (Some q) m1 = Some (True, m2) \<and>
    rep m2 l (xs @ ys) \<and> rep m2 k (zs @ (q, e) # (p, d) # ws)"
proof -
  obtain m1 where m1: "sge_sl_dechain (Some l) (Some p) m = Some (True, m1)" "rep m1 l (xs @ ys)" "single m1 p d"
      "unchanged m m1 (fst ` set (xs @ (p, d) # ys)) l" using dechain_rep[OF assms(1)] by blast
  have k: "rep m1 k (zs @ (q, e) # ws)" using rep_other[OF assms(2) m1(4)] assms(3,4) by blast
  have p: "p \<notin> fst ` set (zs @ (q, e) # ws)" using assms(4) by auto
  obtain m2 where m2: "sge_sl_append_after (Some k) (Some p) (Some q) m1 = Some (True, m2)" "rep m2 k (zs @ (q, e) # (p, d) # ws)"
      "unchanged m1 m2 (insert p (fst ` set (zs @ (q, e) # ws))) k"
    using append_after_rep[OF k m1(3) p] by blast
  have "p \<notin> fst ` set (xs @ ys)" using assms(1) by (auto simp: rep_def image_Un)
  moreover have "fst ` set (xs @ ys) \<subseteq> fst ` set (xs @ (p, d) # ys)" by auto
  ultimately have "fst ` set (xs @ ys) \<inter> insert p (fst ` set (zs @ (q, e) # ws)) = {}" using assms(4) by blast
  then have "rep m2 l (xs @ ys)" using rep_other[OF m1(2) m2(3)] assms(3) by blast
  then show ?thesis using m1(1) m2 by blast
qed

theorem element_moves_between_lists_witness:
  "\<exists>m1 m2. sge_sl_dechain (Some 1) (Some 10) small_memory = Some (True, m1) \<and>
    sge_sl_append_after (Some 2) (Some 10) (Some 30) m1 = Some (True, m2) \<and>
    rep m2 1 [(20, 2)] \<and> rep m2 2 [(30, 9), (10, 4)]"
  using element_moves_between_lists[of small_memory 1 "[]" 10 4 "[(20, 2)]" 2 "[]" 30 9 "[]"] small_memory_rep by simp

text \<open>
  Sorted insertion. With a compare function that orders the data, inserting by search into a sorted list leaves
  it sorted, with the new datum before those that are equal to it.
\<close>

theorem sorted_insertion_keeps_order:
  assumes "rep m l xs" "elem_at m n = None"
    "\<And>a b. sgn (compare b a) = - sgn (compare a b)" "\<And>a b c. compare a b \<le> 0 \<Longrightarrow> compare b c \<le> 0 \<Longrightarrow> compare a c \<le> 0"
    "sorted_wrt (\<lambda>a b. compare a b \<le> 0) (map snd xs)"
  shows "\<exists>m' ys zs. sge_sl_insert_search (Some n) (Some l) d compare m = Some (True, m') \<and>
    rep m' l (ys @ (n, d) # zs) \<and> xs = ys @ zs \<and> sorted_wrt (\<lambda>a b. compare a b \<le> 0) (map snd (ys @ (n, d) # zs)) \<and>
    (\<forall>y \<in> set ys. compare (snd y) d < 0)"
proof -
  let ?P = "\<lambda>x. compare d (snd x) > 0"
  define ys where "ys = takeWhile ?P xs"
  define zs where "zs = dropWhile ?P xs"
  have xs: "xs = ys @ zs" by (simp add: ys_def zs_def)
  have before: "compare (snd y) d < 0" if "y \<in> set ys" for y
  proof -
    have "compare d (snd y) > 0" using set_takeWhileD[of y ?P xs] that by (simp add: ys_def)
    then show ?thesis using assms(3)[of "snd y" d] by (auto simp: sgn_if split: if_splits)
  qed
  have sorted: "sorted_wrt (\<lambda>a b. compare a b \<le> 0) (map snd ys @ map snd zs)" using assms(5) by (simp add: xs)
  have behind: "compare d (snd z) \<le> 0" if "z \<in> set zs" for z
  proof (cases zs)
    case (Cons z0 zs')
    then have z0: "compare d (snd z0) \<le> 0" using hd_dropWhile[of ?P xs] by (simp add: zs_def not_less)
    then show ?thesis using that sorted assms(4)[OF z0] Cons by (auto simp: sorted_wrt_append)
  qed (use that in simp)
  have "sorted_wrt (\<lambda>a b. compare a b \<le> 0) (map snd (ys @ (n, d) # zs))"
    using sorted before behind by (auto simp: sorted_wrt_append dest: less_imp_le)
  then show ?thesis using insert_search_rep[OF assms(1,2), of d compare] xs before
    unfolding ys_def[symmetric] zs_def[symmetric] by blast
qed

theorem sorted_insertion_keeps_order_witness:
  "\<exists>m' ys zs. sge_sl_insert_search (Some 40) (Some 2) 11 by_number small_memory = Some (True, m') \<and>
    rep m' 2 (ys @ (40, 11) # zs) \<and> [(30, 9)] = ys @ zs"
proof -
  have "elem_at small_memory 40 = None" by (simp add: small_memory_def)
  moreover have "sgn (by_number b a) = - sgn (by_number a b)" for a b by (auto simp: by_number_def sgn_if)
  moreover have "by_number a b \<le> 0 \<Longrightarrow> by_number b c \<le> 0 \<Longrightarrow> by_number a c \<le> 0" for a b c by (simp add: by_number_def)
  moreover have "sorted_wrt (\<lambda>a b. by_number a b \<le> 0) (map snd [(30 :: ptr, 9)])" by simp
  ultimately show ?thesis using sorted_insertion_keeps_order[OF small_memory_rep(2), of 40 by_number 11] by blast
qed

end
