(* ===== verification/Task_Queue.thy ===== *)
theory Task_Queue
  imports Simple_List_Spec
begin

text \<open>
  Queues of tasks between threads, \<^verbatim>\<open>source/libs/uti/sge_tq.c\<close>. Tasks are kept in a doubly linked list whose
  mutex also protects the queue; a task is modelled by its value. A function runs from taking the mutex
  to giving it back, or to waiting on the condition, as one step.
\<close>

section \<open>The functions\<close>

datatype sge_tq_type = SGE_TQ_UNKNOWN | SGE_TQ_GDI_PACKET | SGE_TQ_TYPE1 | SGE_TQ_TYPE2

fun tq_number :: "sge_tq_type \<Rightarrow> nat" where
  "tq_number SGE_TQ_UNKNOWN = 0"
| "tq_number SGE_TQ_GDI_PACKET = 1"
| "tq_number SGE_TQ_TYPE1 = 2"
| "tq_number SGE_TQ_TYPE2 = 3"

record 'd sge_tq_task =
  tq_type :: sge_tq_type
  tq_data :: "'d option"

text \<open>The queue, with the memory its list is in.\<close>

record 'd sge_tq_queue =
  tq_list :: "ptr option"
  tq_waiting :: "32 word"
  tq_mem :: "'d sge_tq_task sl_mem"

definition sge_tq_task_compare_type :: "'d sge_tq_task \<Rightarrow> 'd sge_tq_task \<Rightarrow> int" where
  "sge_tq_task_compare_type t1 t2 =
     (if tq_type t1 = SGE_TQ_UNKNOWN then 0
      else if tq_number (tq_type t1) < tq_number (tq_type t2) then - 1
      else if tq_number (tq_type t1) > tq_number (tq_type t2) then 1
      else 0)"

definition sge_tq_task_create :: "bool \<Rightarrow> sge_tq_type \<Rightarrow> 'd option \<Rightarrow> bool \<times> 'd sge_tq_task option" where
  "sge_tq_task_create memory type d =
     (if type \<noteq> SGE_TQ_UNKNOWN \<and> d \<noteq> None
      then if memory then (True, Some \<lparr>tq_type = type, tq_data = d\<rparr>) else (False, None)
      else (True, None))"

text \<open>The result of creating the list is not looked at.\<close>

definition sge_tq_create :: "bool \<Rightarrow> ptr option \<Rightarrow> 'd sge_tq_task sl_mem \<Rightarrow> bool \<times> 'd sge_tq_queue option" where
  "sge_tq_create memory malloc m =
     (if memory then
        (case sge_sl_create malloc m of
           ((_, l), m1) \<Rightarrow> (True, Some \<lparr>tq_list = l, tq_waiting = 0, tq_mem = m1\<rparr>))
      else (False, None))"

definition sge_tq_destroy :: "'d sge_tq_queue \<Rightarrow> (bool \<times> 'd sge_tq_task sl_mem) option" where
  "sge_tq_destroy q = map_option (\<lambda>(_, m). (True, m)) (sge_sl_destroy (tq_list q) True (tq_mem q))"

definition sge_tq_get_task_count :: "'d sge_tq_queue \<Rightarrow> 32 word option" where
  "sge_tq_get_task_count q = sge_sl_get_elem_count (tq_list q) (tq_mem q)"

definition sge_tq_get_waiting_count :: "'d sge_tq_queue \<Rightarrow> 32 word" where
  "sge_tq_get_waiting_count q = tq_waiting q"

text \<open>The second result says that the condition is broadcast.\<close>

definition sge_tq_store_notify ::
  "bool \<Rightarrow> ptr option \<Rightarrow> sge_tq_type \<Rightarrow> 'd option \<Rightarrow> 'd sge_tq_queue \<Rightarrow> (bool \<times> bool \<times> 'd sge_tq_queue) option" where
  "sge_tq_store_notify memory malloc type d q =
     (if type \<noteq> SGE_TQ_UNKNOWN \<and> d \<noteq> None then
        (case sge_tq_task_create memory type d of
           (True, Some t) \<Rightarrow> do {
             (ret, m) \<leftarrow> sge_sl_insert malloc (tq_list q) t SGE_SL_BACKWARD (tq_mem q);
             Some (ret, ret \<and> tq_waiting q > 0, q\<lparr>tq_mem := m\<rparr>) }
         | (ret, _) \<Rightarrow> Some (ret, False, q))
      else Some (True, False, q))"

text \<open>
  Waiting for a task is cut where it waits on the condition. It returns the task whose data it hands over.
\<close>

datatype 'd tq_outcome = Waits | Returns bool "'d sge_tq_task option"

definition tq_search :: "sge_tq_type \<Rightarrow> 'd sge_tq_queue \<Rightarrow> (bool \<times> ptr option) option" where
  "tq_search type q =
     sge_sl_elem_search (tq_list q) None \<lparr>tq_type = type, tq_data = None\<rparr> sge_tq_task_compare_type SGE_SL_FORWARD (tq_mem q)"

definition tq_take :: "bool \<Rightarrow> ptr option \<Rightarrow> 'd sge_tq_queue \<Rightarrow> ('d tq_outcome \<times> 'd sge_tq_queue) option" where
  "tq_take ret elem q =
     (if ret \<and> elem \<noteq> None then do {
        (ret1, m1) \<leftarrow> sge_sl_dechain (tq_list q) elem (tq_mem q);
        if ret1 then do {
          d \<leftarrow> sge_sl_elem_data elem m1;
          (ret2, m2) \<leftarrow> sge_sl_elem_destroy elem True m1;
          Some (Returns ret2 d, q\<lparr>tq_mem := m2\<rparr>) }
        else Some (Returns ret1 None, q\<lparr>tq_mem := m1\<rparr>) }
      else Some (Returns ret None, q))"

definition tq_wait_enter :: "bool \<Rightarrow> sge_tq_type \<Rightarrow> 'd sge_tq_queue \<Rightarrow> ('d tq_outcome \<times> 'd sge_tq_queue) option" where
  "tq_wait_enter shutdown type q = do {
     (ret, elem) \<leftarrow> tq_search type q;
     if ret \<and> elem = None \<and> \<not> shutdown then Some (Waits, q\<lparr>tq_waiting := tq_waiting q + 1\<rparr>)
     else tq_take ret elem q }"

definition tq_wait_resume :: "bool \<Rightarrow> sge_tq_type \<Rightarrow> 'd sge_tq_queue \<Rightarrow> ('d tq_outcome \<times> 'd sge_tq_queue) option" where
  "tq_wait_resume shutdown type q = do {
     (ret, elem) \<leftarrow> tq_search type q;
     if ret \<and> elem = None \<and> \<not> shutdown then Some (Waits, q)
     else tq_take ret elem (q\<lparr>tq_waiting := tq_waiting q - 1\<rparr>) }"

section \<open>Threads\<close>

text \<open>A waiting thread has been woken or not; its time may run out at any moment.\<close>

datatype tq_phase = Running | Waiting sge_tq_type bool

record 'd tq_system =
  sys_queue :: "'d sge_tq_queue"
  sys_shutdown :: bool
  sys_phase :: "nat \<Rightarrow> tq_phase"

definition wake_all :: "(nat \<Rightarrow> tq_phase) \<Rightarrow> nat \<Rightarrow> tq_phase" where
  "wake_all phase i = (case phase i of Waiting type _ \<Rightarrow> Waiting type True | Running \<Rightarrow> Running)"

datatype 'd tq_event = Stored "'d sge_tq_task" | Taken "'d sge_tq_task" | Silent

definition handed_over :: "'d sge_tq_task option \<Rightarrow> 'd tq_event" where
  "handed_over t = (case t of Some x \<Rightarrow> Taken x | None \<Rightarrow> Silent)"

inductive tq_step :: "nat \<Rightarrow> 'd tq_system \<Rightarrow> 'd tq_event \<Rightarrow> 'd tq_system \<Rightarrow> bool" for n where
  store: "i < n \<Longrightarrow> sys_phase s i = Running \<Longrightarrow> \<forall>a. malloc = Some a \<longrightarrow> elem_at (tq_mem (sys_queue s)) a = None \<Longrightarrow>
    sge_tq_store_notify memory malloc type d (sys_queue s) = Some (ret, wake, q) \<Longrightarrow>
    tq_step n s (if ret \<and> type \<noteq> SGE_TQ_UNKNOWN \<and> d \<noteq> None then Stored \<lparr>tq_type = type, tq_data = d\<rparr> else Silent)
      (s\<lparr>sys_queue := q, sys_phase := (if wake then wake_all (sys_phase s) else sys_phase s)\<rparr>)"
| enter_waits: "i < n \<Longrightarrow> sys_phase s i = Running \<Longrightarrow> tq_wait_enter (sys_shutdown s) type (sys_queue s) = Some (Waits, q) \<Longrightarrow>
    tq_step n s Silent (s\<lparr>sys_queue := q, sys_phase := (sys_phase s)(i := Waiting type False)\<rparr>)"
| enter_returns: "i < n \<Longrightarrow> sys_phase s i = Running \<Longrightarrow> tq_wait_enter (sys_shutdown s) type (sys_queue s) = Some (Returns ret t, q) \<Longrightarrow>
    tq_step n s (handed_over t) (s\<lparr>sys_queue := q\<rparr>)"
| resume_waits: "i < n \<Longrightarrow> sys_phase s i = Waiting type woken \<Longrightarrow> tq_wait_resume (sys_shutdown s) type (sys_queue s) = Some (Waits, q) \<Longrightarrow>
    tq_step n s Silent (s\<lparr>sys_queue := q, sys_phase := (sys_phase s)(i := Waiting type False)\<rparr>)"
| resume_returns: "i < n \<Longrightarrow> sys_phase s i = Waiting type woken \<Longrightarrow>
    tq_wait_resume (sys_shutdown s) type (sys_queue s) = Some (Returns ret t, q) \<Longrightarrow>
    tq_step n s (handed_over t) (s\<lparr>sys_queue := q, sys_phase := (sys_phase s)(i := Running)\<rparr>)"
| wakeup: "tq_step n s Silent (s\<lparr>sys_phase := wake_all (sys_phase s)\<rparr>)"
| shut_down: "tq_step n s Silent (s\<lparr>sys_shutdown := True\<rparr>)"

inductive tq_run :: "nat \<Rightarrow> 'd tq_system \<Rightarrow> 'd tq_event list \<Rightarrow> 'd tq_system \<Rightarrow> bool" for n s where
  start: "tq_run n s [] s"
| further: "tq_run n s es s1 \<Longrightarrow> tq_step n s1 e s2 \<Longrightarrow> tq_run n s (es @ [e]) s2"

inductive_cases tq_stepE: "tq_step n s e s'"

end
