(* ===== verification/Task_Queue_Facts.thy ===== *)
theory Task_Queue_Facts
  imports Task_Queue
begin

text \<open>
  What the threads that share a task queue can rely on: each task stored is handed over at most once, those
  of one type in the order they were stored, and no thread sleeps while there is a task for it.
\<close>

section \<open>The steps on the list\<close>

definition matches :: "sge_tq_type \<Rightarrow> 'd sge_tq_task \<Rightarrow> bool" where
  "matches type t \<longleftrightarrow> type = SGE_TQ_UNKNOWN \<or> tq_type t = type"

lemma tq_number_eq: "tq_number a = tq_number b \<longleftrightarrow> a = b"
  by (cases a; cases b) auto

lemma compare_matches: "sge_tq_task_compare_type \<lparr>tq_type = type, tq_data = d\<rparr> t = 0 \<longleftrightarrow> matches type t"
  using tq_number_eq[of type "tq_type t"] by (auto simp: sge_tq_task_compare_type_def matches_def)

definition holds :: "'d sge_tq_queue \<Rightarrow> ptr \<Rightarrow> (ptr \<times> 'd sge_tq_task) list \<Rightarrow> bool" where
  "holds q l xs \<longleftrightarrow> tq_list q = Some l \<and> rep (tq_mem q) l xs"

definition first_match :: "sge_tq_type \<Rightarrow> (ptr \<times> 'd sge_tq_task) list \<Rightarrow> (ptr \<times> 'd sge_tq_task) option" where
  "first_match type xs = find (matches type \<circ> snd) xs"

definition without :: "(ptr \<times> 'd) option \<Rightarrow> (ptr \<times> 'd) list \<Rightarrow> (ptr \<times> 'd) list" where
  "without x xs = (case x of None \<Rightarrow> xs | Some y \<Rightarrow> remove1 y xs)"

lemma search_holds: "holds q l xs \<Longrightarrow> tq_search type q = Some (True, map_option fst (first_match type xs))"
  using elem_search_all[of "tq_mem q" l xs "\<lparr>tq_type = type, tq_data = None\<rparr>" sge_tq_task_compare_type SGE_SL_FORWARD]
  by (simp add: tq_search_def holds_def first_match_def compare_matches)

lemma first_match_split:
  "first_match type xs = Some x \<Longrightarrow>
    \<exists>ys zs. xs = ys @ x # zs \<and> matches type (snd x) \<and> (\<forall>y \<in> set ys. \<not> matches type (snd y))"
  unfolding first_match_def
proof (induction xs)
  case (Cons a xs)
  show ?case
  proof (cases "matches type (snd a)")
    case True
    then show ?thesis using Cons.prems by (intro exI[of _ "[]"] exI[of _ xs]) simp
  next
    case False
    then obtain ys zs where "xs = ys @ x # zs" "matches type (snd x)" "\<forall>y \<in> set ys. \<not> matches type (snd y)"
      using Cons by auto
    then show ?thesis using False by (intro exI[of _ "a # ys"] exI[of _ zs]) simp
  qed
qed simp

lemma take_holds:
  assumes "holds q l xs"
  shows "\<exists>q'. tq_take True (map_option fst (first_match type xs)) q = Some (Returns True (map_option snd (first_match type xs)), q') \<and>
    holds q' l (without (first_match type xs) xs) \<and> tq_waiting q' = tq_waiting q"
proof (cases "first_match type xs")
  case None
  then show ?thesis using assms by (simp add: tq_take_def without_def)
next
  case (Some x)
  then obtain ys p d zs where xs: "xs = ys @ (p, d) # zs" "x = (p, d)"
    using first_match_split by (metis prod.collapse)
  have r: "rep (tq_mem q) l (ys @ (p, d) # zs)" "tq_list q = Some l" using assms xs by (simp_all add: holds_def)
  obtain m1 where m1: "sge_sl_dechain (Some l) (Some p) (tq_mem q) = Some (True, m1)" "single m1 p d"
    using dechain_rep[OF r(1)] by blast
  obtain m' where m': "sge_sl_elem_destroy (Some p) True m1 = Some (True, m')" "rep m' l (ys @ zs)"
    using dechain_destroy[OF r(1), of True] m1(1) by (auto simp: becomes_def)
  have "remove1 x xs = ys @ zs" using r(1) xs remove1_middle[of ys x zs] by (simp add: rep_def)
  moreover have "sge_sl_elem_data (Some p) m1 = Some (Some d)" using m1(2) by (simp add: single_def sge_sl_elem_data_def)
  ultimately show ?thesis using Some xs m1(1) m' r(2)
    by (simp add: tq_take_def without_def holds_def)
qed

lemma holds_waiting [simp]: "holds (q\<lparr>tq_waiting := w\<rparr>) l xs = holds q l xs"
  by (simp add: holds_def)

lemma wait_enter_holds:
  assumes "holds q l xs" "tq_wait_enter shutdown type q = Some (out, q')"
  shows "(case out of
      Waits \<Rightarrow> first_match type xs = None \<and> holds q' l xs \<and> tq_waiting q' = tq_waiting q + 1
    | Returns ret t \<Rightarrow> t = map_option snd (first_match type xs) \<and> holds q' l (without (first_match type xs) xs) \<and> tq_waiting q' = tq_waiting q)"
  using assms(2) take_holds[OF assms(1), of type] assms(1)
  by (auto simp: tq_wait_enter_def search_holds[OF assms(1)] split: if_splits)

lemma wait_resume_holds:
  assumes "holds q l xs" "tq_wait_resume shutdown type q = Some (out, q')"
  shows "(case out of
      Waits \<Rightarrow> first_match type xs = None \<and> holds q' l xs \<and> tq_waiting q' = tq_waiting q
    | Returns ret t \<Rightarrow> t = map_option snd (first_match type xs) \<and> holds q' l (without (first_match type xs) xs) \<and> tq_waiting q' = tq_waiting q - 1)"
  using assms(2) take_holds[of "q\<lparr>tq_waiting := tq_waiting q - 1\<rparr>" l xs type] assms(1)
  by (auto simp: tq_wait_resume_def search_holds[OF assms(1)] split: if_splits)

lemma store_holds:
  assumes "holds q l xs" "\<forall>a. malloc = Some a \<longrightarrow> elem_at (tq_mem q) a = None"
    "sge_tq_store_notify memory malloc type d q = Some (ret, wake, q')"
  shows "tq_waiting q' = tq_waiting q \<and>
    (if ret \<and> type \<noteq> SGE_TQ_UNKNOWN \<and> d \<noteq> None
     then (\<exists>a. holds q' l (xs @ [(a, \<lparr>tq_type = type, tq_data = d\<rparr>)])) \<and> (wake \<longleftrightarrow> tq_waiting q > 0)
     else holds q' l xs \<and> \<not> wake)"
proof (cases "type \<noteq> SGE_TQ_UNKNOWN \<and> d \<noteq> None \<and> memory")
  case True
  let ?t = "\<lparr>tq_type = type, tq_data = d\<rparr>"
  have l: "tq_list q = Some l" "rep (tq_mem q) l xs" using assms(1) by (simp_all add: holds_def)
  show ?thesis
  proof (cases malloc)
    case None
    then show ?thesis using assms True l by (auto simp: sge_tq_store_notify_def sge_tq_task_create_def insert_no_memory)
  next
    case (Some a)
    then obtain m' where "sge_sl_insert (Some a) (Some l) ?t SGE_SL_BACKWARD (tq_mem q) = Some (True, m')" "rep m' l (xs @ [(a, ?t)])"
      using insert_rep[OF l(2), of a ?t SGE_SL_BACKWARD] assms(2) by auto
    then show ?thesis using assms(3) True l Some by (auto simp: sge_tq_store_notify_def sge_tq_task_create_def holds_def)
  qed
next
  case False
  then show ?thesis using assms(1,3) by (cases d) (auto simp: sge_tq_store_notify_def sge_tq_task_create_def split: if_splits)
qed

section \<open>The invariant\<close>

definition stored :: "sge_tq_type \<Rightarrow> 'd tq_event list \<Rightarrow> 'd sge_tq_task list" where
  "stored type es = concat (map (\<lambda>e. case e of Stored t \<Rightarrow> if tq_type t = type then [t] else [] | _ \<Rightarrow> []) es)"

definition taken :: "sge_tq_type \<Rightarrow> 'd tq_event list \<Rightarrow> 'd sge_tq_task list" where
  "taken type es = concat (map (\<lambda>e. case e of Taken t \<Rightarrow> if tq_type t = type then [t] else [] | _ \<Rightarrow> []) es)"

definition queued :: "sge_tq_type \<Rightarrow> (ptr \<times> 'd sge_tq_task) list \<Rightarrow> 'd sge_tq_task list" where
  "queued type xs = filter (\<lambda>t. tq_type t = type) (map snd xs)"

definition waiting :: "nat \<Rightarrow> (nat \<Rightarrow> tq_phase) \<Rightarrow> nat set" where
  "waiting n phase = {i. i < n \<and> phase i \<noteq> Running}"

definition tq_ok :: "nat \<Rightarrow> ptr \<Rightarrow> 'd tq_event list \<Rightarrow> 'd tq_system \<Rightarrow> (ptr \<times> 'd sge_tq_task) list \<Rightarrow> bool" where
  "tq_ok n l es s xs \<longleftrightarrow> holds (sys_queue s) l xs \<and>
     tq_waiting (sys_queue s) = of_nat (card (waiting n (sys_phase s))) \<and>
     (\<forall>i \<ge> n. sys_phase s i = Running) \<and>
     (\<forall>type. taken type es @ queued type xs = stored type es) \<and>
     (\<forall>i type. sys_phase s i = Waiting type False \<longrightarrow> first_match type xs = None)"


lemma events_snoc [simp]:
  "stored type (es @ [e]) = stored type es @ (case e of Stored t \<Rightarrow> if tq_type t = type then [t] else [] | _ \<Rightarrow> [])"
  "taken type (es @ [e]) = taken type es @ (case e of Taken t \<Rightarrow> if tq_type t = type then [t] else [] | _ \<Rightarrow> [])"
  by (simp_all add: stored_def taken_def)

text \<open>The first match is the first of its type.\<close>

lemma queued_without:
  assumes "first_match type xs = Some x" "distinct (map fst xs)"
  shows "queued ty xs = (if tq_type (snd x) = ty then [snd x] else []) @ queued ty (without (first_match type xs) xs)"
proof -
  obtain ys zs where xs: "xs = ys @ x # zs" "matches type (snd x)" "\<forall>y \<in> set ys. \<not> matches type (snd y)"
    using first_match_split[OF assms(1)] by blast
  have w: "without (first_match type xs) xs = ys @ zs" using assms xs remove1_middle[of ys x zs] by (simp add: without_def)
  have "filter (\<lambda>t. tq_type t = ty) (map snd ys) = []" if "tq_type (snd x) = ty"
    using xs(2,3) that by (auto simp: matches_def filter_empty_conv)
  then show ?thesis unfolding w by (simp add: queued_def xs(1))
qed

lemma handed_over_events:
  assumes "\<forall>ty. taken ty es @ queued ty xs = stored ty es" "distinct (map fst xs)"
  shows "taken ty (es @ [handed_over (map_option snd (first_match type xs))]) @ queued ty (without (first_match type xs) xs)
    = stored ty (es @ [handed_over (map_option snd (first_match type xs))])"
  using spec[OF assms(1), of ty] assms(2) queued_without[of type xs _ ty]
  by (cases "first_match type xs") (auto simp: handed_over_def without_def)

lemma no_match_without: "first_match ty xs = None \<Longrightarrow> first_match ty (without x xs) = None"
  by (cases x) (auto simp: first_match_def without_def find_None_iff dest: notin_set_remove1[THEN contrapos_nn] set_remove1_subset[THEN subsetD])

lemma waiting_card:
  assumes "i < n"
  shows "card (waiting n (phase(i := p))) + (if phase i = Running then 0 else 1) = card (waiting n phase) + (if p = Running then 0 else 1)"
proof -
  have f: "finite (waiting n phase)" by (simp add: waiting_def)
  have w: "waiting n (phase(i := p)) = (if p = Running then waiting n phase - {i} else insert i (waiting n phase))"
    using assms by (auto simp: waiting_def)
  have m: "i \<in> waiting n phase \<longleftrightarrow> phase i \<noteq> Running" using assms by (simp add: waiting_def)
  have "card (waiting n phase) > 0" if "phase i \<noteq> Running" using f m that card_gt_0_iff by blast
  then show ?thesis using f m by (auto simp: w card_insert_if)
qed

lemma wake_all_simps [simp]:
  "wake_all phase i = Running \<longleftrightarrow> phase i = Running" "wake_all phase i \<noteq> Waiting type False"
  by (simp_all add: wake_all_def split: tq_phase.splits)

lemma waiting_wake_all [simp]: "waiting n (wake_all phase) = waiting n phase"
  by (simp add: waiting_def)

lemma none_waiting: "n < 2 ^ 32 \<Longrightarrow> \<not> (of_nat (card (waiting n phase)) :: 32 word) > 0 \<Longrightarrow> waiting n phase = {}"
proof -
  assume n: "n < 2 ^ 32" and z: "\<not> (of_nat (card (waiting n phase)) :: 32 word) > 0"
  have "waiting n phase \<subseteq> {..<n}" by (auto simp: waiting_def)
  then have "card (waiting n phase) \<le> n" using card_mono[of "{..<n}"] by force
  then have "unat (of_nat (card (waiting n phase)) :: 32 word) = card (waiting n phase)"
    using n by (simp add: unsigned_of_nat take_bit_nat_eq_self)
  then have "card (waiting n phase) = 0" using z by (metis unat_0 word_gt_0)
  then show ?thesis by (simp add: waiting_def)
qed

lemma holds_distinct: "holds q l xs \<Longrightarrow> distinct (map fst xs)"
  by (simp add: holds_def rep_def)

lemma step_keeps:
  assumes "tq_ok n l es s xs" "tq_step n s e s'" "n < 2 ^ 32"
  shows "\<exists>xs'. tq_ok n l (es @ [e]) s' xs'"
proof -
  let ?q = "sys_queue s"
  have h: "holds ?q l xs" and w: "tq_waiting ?q = of_nat (card (waiting n (sys_phase s)))"
    and r: "\<forall>i \<ge> n. sys_phase s i = Running" and ev: "\<forall>type. taken type es @ queued type xs = stored type es"
    and nm: "\<forall>i type. sys_phase s i = Waiting type False \<longrightarrow> first_match type xs = None"
    using assms(1) by (simp_all add: tq_ok_def)
  note over = handed_over_events[OF ev holds_distinct[OF h]]
  have nm': "sys_phase s i = Waiting ty False \<Longrightarrow> first_match ty (without x xs) = None" for i ty x
    using nm no_match_without by blast
  from assms(2) show ?thesis
  proof (cases rule: tq_step.cases)
    case (store i malloc memory type d ret wake q)
    note st = store_holds[OF h store(5,6)]
    show ?thesis
    proof (cases "ret \<and> type \<noteq> SGE_TQ_UNKNOWN \<and> d \<noteq> None")
      case True
      let ?t = "\<lparr>tq_type = type, tq_data = d\<rparr>"
      obtain a where a: "holds q l (xs @ [(a, ?t)])" "wake \<longleftrightarrow> tq_waiting ?q > 0" "tq_waiting q = tq_waiting ?q" using st True by auto
      have "sys_phase s i' \<noteq> Waiting ty False" if "\<not> wake" for i' ty
      proof -
        have "waiting n (sys_phase s) = {}" using a(2) w that none_waiting[OF assms(3)] by simp
        then show ?thesis using r by (cases "i' < n") (auto simp: waiting_def)
      qed
      then have "tq_ok n l (es @ [Stored ?t]) s' (xs @ [(a, ?t)])"
        using a w r ev store(2) by (auto simp: tq_ok_def queued_def)
      then show ?thesis using store(1) True by auto
    next
      case False
      then have "tq_ok n l (es @ [Silent]) s' xs" using st w r ev nm store(2) by (auto simp: tq_ok_def)
      then show ?thesis using store(1) False by auto
    qed
  next
    case (enter_waits i type q)
    have "first_match type xs = None \<and> holds q l xs \<and> tq_waiting q = tq_waiting ?q + 1" using wait_enter_holds[OF h enter_waits(5)] by simp
    moreover have "card (waiting n ((sys_phase s)(i := Waiting type False))) = card (waiting n (sys_phase s)) + 1"
      using waiting_card[OF enter_waits(3), of "sys_phase s" "Waiting type False"] enter_waits(4) by simp
    ultimately have "tq_ok n l (es @ [e]) s' xs" using w r ev nm enter_waits(1-3) by (auto simp: tq_ok_def)
    then show ?thesis ..
  next
    case (enter_returns i type ret t q)
    have t: "t = map_option snd (first_match type xs) \<and> holds q l (without (first_match type xs) xs) \<and> tq_waiting q = tq_waiting ?q"
      using wait_enter_holds[OF h enter_returns(5)] by simp
    then have "tq_ok n l (es @ [e]) s' (without (first_match type xs) xs)"
      using w r over nm' enter_returns(1,2) by (auto simp: tq_ok_def simp del: events_snoc)
    then show ?thesis ..
  next
    case (resume_waits i type woken q)
    have "first_match type xs = None \<and> holds q l xs \<and> tq_waiting q = tq_waiting ?q" using wait_resume_holds[OF h resume_waits(5)] by simp
    moreover have "card (waiting n ((sys_phase s)(i := Waiting type False))) = card (waiting n (sys_phase s))"
      using waiting_card[OF resume_waits(3), of "sys_phase s" "Waiting type False"] resume_waits(4) by simp
    ultimately have "tq_ok n l (es @ [e]) s' xs" using w r ev nm resume_waits(1-3) by (auto simp: tq_ok_def)
    then show ?thesis ..
  next
    case (resume_returns i type woken ret t q)
    have t: "t = map_option snd (first_match type xs) \<and> holds q l (without (first_match type xs) xs) \<and> tq_waiting q = tq_waiting ?q - 1"
      using wait_resume_holds[OF h resume_returns(5)] by simp
    moreover have "card (waiting n (sys_phase s)) = card (waiting n ((sys_phase s)(i := Running))) + 1"
      using waiting_card[OF resume_returns(3), of "sys_phase s" Running] resume_returns(4) by simp
    ultimately have "tq_ok n l (es @ [e]) s' (without (first_match type xs) xs)"
      using w r over nm' resume_returns(1,2) by (auto simp: tq_ok_def simp del: events_snoc)
    then show ?thesis ..
  next
    case wakeup
    then have "tq_ok n l (es @ [e]) s' xs" using h w r ev by (auto simp: tq_ok_def)
    then show ?thesis ..
  next
    case shut_down
    then have "tq_ok n l (es @ [e]) s' xs" using h w r ev nm by (auto simp: tq_ok_def)
    then show ?thesis ..
  qed
qed


lemma run_keeps: "tq_run n s0 es s \<Longrightarrow> tq_ok n l [] s0 xs0 \<Longrightarrow> n < 2 ^ 32 \<Longrightarrow> \<exists>xs. tq_ok n l es s xs"
proof (induction rule: tq_run.induct)
  case (further es s1 e s2)
  then show ?case using step_keeps by blast
qed blast

section \<open>Properties\<close>

definition empty_memory :: "'d sge_tq_task sl_mem" where
  "empty_memory = \<lparr>elem_at = Map.empty, list_at = Map.empty, sl_destroyed = []\<rparr>"

text \<open>A new queue, with all threads running.\<close>

definition new_system :: "'d tq_system \<Rightarrow> bool" where
  "new_system s \<longleftrightarrow>
     (\<exists>l m q. sge_tq_create True (Some l) m = (True, Some q) \<and>
        s = \<lparr>sys_queue = q, sys_shutdown = False, sys_phase = (\<lambda>_. Running)\<rparr>)"

lemma new_system_ok: "new_system s \<Longrightarrow> \<exists>l. tq_ok n l [] s []"
proof -
  assume "new_system s"
  then obtain l m q where q: "sge_tq_create True (Some l) m = (True, Some q)" "s = \<lparr>sys_queue = q, sys_shutdown = False, sys_phase = (\<lambda>_. Running)\<rparr>"
    by (auto simp: new_system_def)
  obtain m1 where m1: "sge_sl_create (Some l) m = ((True, Some l), m1)" by (simp add: sge_sl_create_def)
  then have "tq_ok n l [] s []"
    using q create_rep[OF m1] by (auto simp: sge_tq_create_def tq_ok_def holds_def waiting_def stored_def taken_def queued_def)
  then show ?thesis ..
qed

text \<open>
  C12. First in, first out. However the threads that share a queue are interleaved, and however often they are woken,
  the tasks of each type that have been handed over, followed by those in the list, are those that have been
  stored, in this order; the list is well linked, and the number of waiting threads is counted right.
\<close>

theorem task_queue_is_fifo:
  assumes "new_system s0" "tq_run n s0 es s" "n < 2 ^ 32"
  shows "\<exists>l xs. tq_list (sys_queue s) = Some l \<and> rep (tq_mem (sys_queue s)) l xs \<and>
    (\<forall>type. taken type es @ queued type xs = stored type es) \<and>
    sge_tq_get_waiting_count (sys_queue s) = of_nat (card (waiting n (sys_phase s)))"
proof -
  obtain l where "tq_ok n l [] s0 []" using new_system_ok[OF assms(1)] by blast
  then obtain xs where "tq_ok n l es s xs" using run_keeps[OF assms(2) _ assms(3)] by blast
  then show ?thesis by (auto simp: tq_ok_def holds_def sge_tq_get_waiting_count_def)
qed

text \<open>
  C13. No lost wake-up. Whenever a thread waits for tasks of a type and has not been woken, no task in the
  queue is of that type: storing wakes all that wait, and no one waits without having looked.
\<close>

theorem no_sleep_beside_task:
  assumes "new_system s0" "tq_run n s0 es s" "n < 2 ^ 32" "sys_phase s i = Waiting type False"
  shows "tq_search type (sys_queue s) = Some (True, None)"
proof -
  obtain l where "tq_ok n l [] s0 []" using new_system_ok[OF assms(1)] by blast
  then obtain xs where "tq_ok n l es s xs" using run_keeps[OF assms(2) _ assms(3)] by blast
  then show ?thesis using assms(4) search_holds[of "sys_queue s" l xs type] by (auto simp: tq_ok_def)
qed


section \<open>Examples\<close>

definition job_task :: "nat sge_tq_task" where
  "job_task = \<lparr>tq_type = SGE_TQ_TYPE1, tq_data = Some 5\<rparr>"

definition start_system :: "nat tq_system" where
  "start_system = \<lparr>sys_queue = the (snd (sge_tq_create True (Some 1) empty_memory)), sys_shutdown = False, sys_phase = (\<lambda>_. Running)\<rparr>"

definition sleeping_system :: "nat tq_system" where
  "sleeping_system = start_system\<lparr>sys_queue := sys_queue start_system\<lparr>tq_waiting := 1\<rparr>,
     sys_phase := (\<lambda>_. Running)(0 := Waiting SGE_TQ_TYPE1 False)\<rparr>"

definition woken_system :: "nat tq_system" where
  "woken_system = sleeping_system\<lparr>sys_queue := snd (snd (the (sge_tq_store_notify True (Some 7) SGE_TQ_TYPE1 (Some 5) (sys_queue sleeping_system)))),
     sys_phase := wake_all (sys_phase sleeping_system)\<rparr>"

lemmas example_defs = start_system_def sleeping_system_def woken_system_def sge_tq_create_def sge_sl_create_def empty_memory_def

lemma example_new: "new_system start_system"
  unfolding new_system_def by (intro exI[of _ 1] exI[of _ empty_memory]) (simp add: example_defs)

lemma example_sleeping: "tq_run 2 start_system [Silent] sleeping_system"
proof -
  have "tq_wait_enter False SGE_TQ_TYPE1 (sys_queue start_system) = Some (Waits, sys_queue sleeping_system)"
    by (simp add: example_defs tq_wait_enter_def tq_search_def sge_sl_elem_search_def step_from_def search_loop.simps)
  then have "tq_step 2 start_system Silent
      (start_system\<lparr>sys_queue := sys_queue sleeping_system, sys_phase := (sys_phase start_system)(0 := Waiting SGE_TQ_TYPE1 False)\<rparr>)"
    by (intro tq_step.enter_waits) (simp_all add: example_defs)
  then have "tq_step 2 start_system Silent sleeping_system" by (simp add: sleeping_system_def start_system_def)
  then show ?thesis using tq_run.further[OF tq_run.start] by fastforce
qed

lemma example_woken: "tq_run 2 start_system [Silent, Stored job_task] woken_system"
proof -
  have "sge_tq_store_notify True (Some 7) SGE_TQ_TYPE1 (Some 5) (sys_queue sleeping_system) = Some (True, True, sys_queue woken_system)"
    by (simp add: example_defs sge_tq_store_notify_def sge_tq_task_create_def sge_sl_insert_def sge_sl_elem_create_def upd_elem_def upd_list_def)
  then have "tq_step 2 sleeping_system (if True \<and> SGE_TQ_TYPE1 \<noteq> SGE_TQ_UNKNOWN \<and> Some 5 \<noteq> (None :: nat option)
        then Stored \<lparr>tq_type = SGE_TQ_TYPE1, tq_data = Some 5\<rparr> else Silent)
      (sleeping_system\<lparr>sys_queue := sys_queue woken_system,
        sys_phase := (if True then wake_all (sys_phase sleeping_system) else sys_phase sleeping_system)\<rparr>)"
    by (intro tq_step.store[of 1]) (simp_all add: example_defs)
  then have "tq_step 2 sleeping_system (Stored job_task) woken_system" by (simp add: woken_system_def job_task_def)
  then show ?thesis using tq_run.further[OF example_sleeping] by fastforce
qed

theorem task_queue_is_fifo_witness:
  "\<exists>l xs. tq_list (sys_queue woken_system) = Some l \<and> rep (tq_mem (sys_queue woken_system)) l xs \<and>
    queued SGE_TQ_TYPE1 xs = [job_task] \<and> sge_tq_get_waiting_count (sys_queue woken_system) = 1"
proof -
  obtain l xs where "tq_list (sys_queue woken_system) = Some l" "rep (tq_mem (sys_queue woken_system)) l xs"
    "\<forall>type. taken type [Silent, Stored job_task] @ queued type xs = stored type [Silent, Stored job_task]"
    "sge_tq_get_waiting_count (sys_queue woken_system) = of_nat (card (waiting 2 (sys_phase woken_system)))"
    using task_queue_is_fifo[OF example_new example_woken] by auto
  moreover have "waiting 2 (sys_phase woken_system) = {0}" by (auto simp: waiting_def example_defs)
  ultimately show ?thesis by (auto simp: taken_def stored_def job_task_def dest: spec[of _ SGE_TQ_TYPE1])
qed

theorem no_sleep_beside_task_witness:
  "sys_phase sleeping_system 0 = Waiting SGE_TQ_TYPE1 False \<and> tq_search SGE_TQ_TYPE1 (sys_queue sleeping_system) = Some (True, None)"
proof -
  have "sys_phase sleeping_system 0 = Waiting SGE_TQ_TYPE1 False" by (simp add: example_defs)
  then show ?thesis using no_sleep_beside_task[OF example_new example_sleeping] by simp
qed

end
