(* ===== verification/Cull_Hash.thy ===== *)
theory Cull_Hash
  imports Hash_Table
begin

text \<open>
  The indices of CULL lists, \<^verbatim>\<open>source/libs/cull/cull_hash.c\<close>: a field of a descriptor can have a hash table
  that finds the elements of the list by the value of the field. Where the values need not be unique, the table
  holds for each value a header, with a doubly linked chain of nodes for the elements, and a second table
  finds the node of an element. Headers and nodes live in memory, elements are known by their address; reading
  where nothing is allocated has no result. What \<open>malloc\<close> returns is an argument.
\<close>

section \<open>Structures\<close>

type_synonym addr = "64 word"

record nu_header =
  nu_first :: "addr option"
  nu_last :: "addr option"

record nu_hash =
  nu_prev :: "addr option"
  nu_next :: "addr option"
  nu_data :: addr

record nu_mem =
  header_at :: "addr \<rightharpoonup> nu_header"
  node_at :: "addr \<rightharpoonup> nu_hash"

record 'k cull_htable =
  key_ht :: "('k, addr) htable_rec"
  nuht :: "(addr, addr) htable_rec option"

definition set_header :: "addr \<Rightarrow> nu_header \<Rightarrow> nu_mem \<Rightarrow> nu_mem" where
  "set_header h x m = m\<lparr>header_at := (header_at m)(h \<mapsto> x)\<rparr>"

definition set_node :: "addr \<Rightarrow> nu_hash \<Rightarrow> nu_mem \<Rightarrow> nu_mem" where
  "set_node n x m = m\<lparr>node_at := (node_at m)(n \<mapsto> x)\<rparr>"

definition upd_node :: "(nu_hash \<Rightarrow> nu_hash) \<Rightarrow> addr \<Rightarrow> nu_mem \<Rightarrow> nu_mem option" where
  "upd_node f n m = map_option (\<lambda>x. set_node n (f x) m) (node_at m n)"

definition free_node :: "addr \<Rightarrow> nu_mem \<Rightarrow> nu_mem" where
  "free_node n m = m\<lparr>node_at := (node_at m)(n := None)\<rparr>"

definition free_header :: "addr \<Rightarrow> nu_mem \<Rightarrow> nu_mem" where
  "free_header h m = m\<lparr>header_at := (header_at m)(h := None)\<rparr>"

definition MIN_CULL_HASH_SIZE :: nat where "MIN_CULL_HASH_SIZE = 4"

text \<open>The functions for keys, which the type of the field chooses in the code, are arguments.\<close>

definition cull_hash_create :: "('k \<Rightarrow> int) \<Rightarrow> ('k \<Rightarrow> 'k \<Rightarrow> int) \<Rightarrow> bool \<Rightarrow> nat \<Rightarrow> 'k cull_htable" where
  "cull_hash_create hash cmp unique sz =
     (let n = (if sz = 0 then MIN_CULL_HASH_SIZE else sz) in
      \<lparr>key_ht = sge_htable_create n hash cmp,
       nuht = (if unique then None else Some (sge_htable_create n hash_func_pointer hash_compare_pointer))\<rparr>)"

section \<open>Inserting and removing\<close>

definition append_node :: "addr \<Rightarrow> addr \<Rightarrow> addr \<Rightarrow> nu_mem \<Rightarrow> nu_mem option" where
  "append_node n ep h m = do {
     hd \<leftarrow> header_at m h;
     p \<leftarrow> nu_last hd;
     m1 \<leftarrow> upd_node (\<lambda>x. x\<lparr>nu_next := Some n\<rparr>) p (set_node n \<lparr>nu_prev = Some p, nu_next = None, nu_data = ep\<rparr> m);
     Some (set_header h (hd\<lparr>nu_last := Some n\<rparr>) m1) }"

text \<open>\<open>n\<close> and \<open>h\<close> are the addresses of a new node and a new header.\<close>

definition cull_hash_insert ::
  "addr \<Rightarrow> addr \<Rightarrow> addr \<Rightarrow> 'k option \<Rightarrow> bool \<Rightarrow> 'k cull_htable \<Rightarrow> nu_mem \<Rightarrow> ('k cull_htable \<times> nu_mem) option" where
  "cull_hash_insert n h ep key unique t m =
     (case key of
        None \<Rightarrow> Some (t, m)
      | Some k \<Rightarrow>
          if unique then Some (t\<lparr>key_ht := sge_htable_store (key_ht t) k ep\<rparr>, m)
          else (case sge_htable_lookup (key_ht t) k of
                  Some h' \<Rightarrow> do {
                    nu \<leftarrow> nuht t;
                    case sge_htable_lookup nu ep of
                      Some _ \<Rightarrow> Some (t, m)
                    | None \<Rightarrow> do {
                        m1 \<leftarrow> append_node n ep h' m;
                        Some (t\<lparr>nuht := Some (sge_htable_store nu ep n)\<rparr>, m1) } }
                | None \<Rightarrow> do {
                    nu \<leftarrow> nuht t;
                    Some (t\<lparr>key_ht := sge_htable_store (key_ht t) k h, nuht := Some (sge_htable_store nu ep n)\<rparr>,
                      set_header h \<lparr>nu_first = Some n, nu_last = Some n\<rparr>
                        (set_node n \<lparr>nu_prev = None, nu_next = None, nu_data = ep\<rparr> m)) }))"

definition unlink_node :: "addr \<Rightarrow> addr \<Rightarrow> nu_mem \<Rightarrow> nu_mem option" where
  "unlink_node n h m = do {
     hd \<leftarrow> header_at m h;
     x \<leftarrow> node_at m n;
     if nu_first hd = Some n
     then if nu_last hd = Some n
          then Some (set_header h (hd\<lparr>nu_first := nu_next x, nu_last := None\<rparr>) m)
          else do {
            f \<leftarrow> nu_next x;
            upd_node (\<lambda>y. y\<lparr>nu_prev := None\<rparr>) f (set_header h (hd\<lparr>nu_first := nu_next x\<rparr>) m) }
     else if nu_last hd = Some n
     then do {
       l \<leftarrow> nu_prev x;
       upd_node (\<lambda>y. y\<lparr>nu_next := None\<rparr>) l (set_header h (hd\<lparr>nu_last := nu_prev x\<rparr>) m) }
     else do {
       p \<leftarrow> nu_prev x;
       m1 \<leftarrow> upd_node (\<lambda>y. y\<lparr>nu_next := nu_next x\<rparr>) p m;
       x1 \<leftarrow> node_at m1 n;
       q \<leftarrow> nu_next x1;
       upd_node (\<lambda>y. y\<lparr>nu_prev := nu_prev x1\<rparr>) q m1 } }"

definition drop_if_empty :: "addr \<Rightarrow> 'k \<Rightarrow> 'k cull_htable \<Rightarrow> nu_mem \<Rightarrow> ('k cull_htable \<times> nu_mem) option" where
  "drop_if_empty h k t m = do {
     hd \<leftarrow> header_at m h;
     if nu_first hd = None \<and> nu_last hd = None
     then Some (t\<lparr>key_ht := sge_htable_delete (key_ht t) k\<rparr>, free_header h m)
     else Some (t, m) }"

definition cull_hash_remove ::
  "addr \<Rightarrow> 'k option \<Rightarrow> bool \<Rightarrow> 'k cull_htable \<Rightarrow> nu_mem \<Rightarrow> ('k cull_htable \<times> nu_mem) option" where
  "cull_hash_remove ep key unique t m =
     (case key of
        None \<Rightarrow> Some (t, m)
      | Some k \<Rightarrow>
          if unique then Some (t\<lparr>key_ht := sge_htable_delete (key_ht t) k\<rparr>, m)
          else (case sge_htable_lookup (key_ht t) k of
                  None \<Rightarrow> Some (t, m)
                | Some h \<Rightarrow> do {
                    nu \<leftarrow> nuht t;
                    case sge_htable_lookup nu ep of
                      None \<Rightarrow> drop_if_empty h k t m
                    | Some n \<Rightarrow> do {
                        m1 \<leftarrow> unlink_node n h m;
                        drop_if_empty h k (t\<lparr>nuht := Some (sge_htable_delete nu ep)\<rparr>) (free_node n m1) } }))"

section \<open>Searching\<close>

text \<open>Results are the element, or null, and what \<open>*iterator\<close> is set to.\<close>

definition cull_hash_first ::
  "'k cull_htable \<Rightarrow> 'k option \<Rightarrow> bool \<Rightarrow> nu_mem \<Rightarrow> (addr option \<times> addr option) option" where
  "cull_hash_first t key unique m =
     (case key of
        None \<Rightarrow> Some (None, None)
      | Some k \<Rightarrow>
          (case sge_htable_lookup (key_ht t) k of
             None \<Rightarrow> Some (None, None)
           | Some p \<Rightarrow>
               if unique then Some (Some p, None)
               else do {
                 hd \<leftarrow> header_at m p;
                 n \<leftarrow> nu_first hd;
                 x \<leftarrow> node_at m n;
                 Some (Some (nu_data x), Some n) }))"

definition cull_hash_next :: "addr option \<Rightarrow> nu_mem \<Rightarrow> (addr option \<times> addr option) option" where
  "cull_hash_next iterator m = do {
     n \<leftarrow> iterator;
     x \<leftarrow> node_at m n;
     case nu_next x of
       None \<Rightarrow> Some (None, None)
     | Some q \<Rightarrow> do { y \<leftarrow> node_at m q; Some (Some (nu_data y), Some q) } }"

section \<open>Freeing\<close>

partial_function (option) free_nodes :: "addr option \<Rightarrow> nu_mem \<Rightarrow> nu_mem option" where
  "free_nodes nuh m =
     (case nuh of
        None \<Rightarrow> Some m
      | Some n \<Rightarrow> do { x \<leftarrow> node_at m n; free_nodes (nu_next x) (free_node n m) })"

text \<open>The procedure for \<open>sge_htable_for_each\<close>, with the memory as its state.\<close>

definition cull_hash_delete_non_unique_chain :: "nu_mem option \<Rightarrow> 'k \<Rightarrow> addr \<Rightarrow> nu_mem option \<times> addr" where
  "cull_hash_delete_non_unique_chain m key h =
     (do { m0 \<leftarrow> m; hd \<leftarrow> header_at m0 h; m1 \<leftarrow> free_nodes (nu_first hd) m0; Some (free_header h m1) }, h)"

definition cull_hash_free_descr :: "bool \<Rightarrow> 'k cull_htable option \<Rightarrow> nu_mem \<Rightarrow> nu_mem option" where
  "cull_hash_free_descr unique ht m =
     (case ht of
        None \<Rightarrow> Some m
      | Some t \<Rightarrow> if unique then Some m
                  else fst (sge_htable_for_each (key_ht t) cull_hash_delete_non_unique_chain (Some m)))"

section \<open>Lists with an indexed field\<close>

text \<open>
  What the operations on lists do with the index of one field: elements are their address and the value
  of the field, null being \<open>None\<close>. The indices of several fields do not touch each other. \<open>mallocs\<close> are the
  addresses for nodes and headers, two for each element.
\<close>

record 'k indexed_list =
  il_elems :: "(addr \<times> 'k option) list"
  il_ht :: "'k cull_htable option"
  il_unique :: bool

type_synonym 'k il_state = "'k indexed_list \<times> nu_mem"

definition with_index ::
  "('k cull_htable \<Rightarrow> nu_mem \<Rightarrow> ('k cull_htable \<times> nu_mem) option) \<Rightarrow> 'k il_state \<Rightarrow> 'k il_state option" where
  "with_index f s =
     (case il_ht (fst s) of
        None \<Rightarrow> Some s
      | Some t \<Rightarrow> do { (t1, m1) \<leftarrow> f t (snd s); Some ((fst s)\<lparr>il_ht := Some t1\<rparr>, m1) })"

definition cull_hash_elem :: "addr \<Rightarrow> addr \<Rightarrow> addr \<times> 'k option \<Rightarrow> 'k il_state \<Rightarrow> 'k il_state option" where
  "cull_hash_elem n h e s = with_index (cull_hash_insert n h (fst e) (snd e) (il_unique (fst s))) s"

definition il_lInsertElem :: "addr \<Rightarrow> addr \<Rightarrow> nat \<Rightarrow> addr \<times> 'k option \<Rightarrow> 'k il_state \<Rightarrow> 'k il_state option" where
  "il_lInsertElem n h i e s =
     (let xs = il_elems (fst s) in cull_hash_elem n h e ((fst s)\<lparr>il_elems := take i xs @ e # drop i xs\<rparr>, snd s))"

definition il_lAppendElem :: "addr \<Rightarrow> addr \<Rightarrow> addr \<times> 'k option \<Rightarrow> 'k il_state \<Rightarrow> 'k il_state option" where
  "il_lAppendElem n h e s = cull_hash_elem n h e ((fst s)\<lparr>il_elems := il_elems (fst s) @ [e]\<rparr>, snd s)"

definition il_lDechainElem :: "addr \<times> 'k option \<Rightarrow> 'k il_state \<Rightarrow> 'k il_state option" where
  "il_lDechainElem e s =
     with_index (cull_hash_remove (fst e) (snd e) (il_unique (fst s)))
       ((fst s)\<lparr>il_elems := filter (\<lambda>x. fst x \<noteq> fst e) (il_elems (fst s))\<rparr>, snd s)"

text \<open>A field gets a new value where \<open>strcmp\<close> tells the values apart.\<close>

definition il_lSetString :: "addr \<Rightarrow> addr \<Rightarrow> addr \<times> 'k option \<Rightarrow> 'k option \<Rightarrow> 'k il_state \<Rightarrow> 'k il_state option" where
  "il_lSetString n h e value s =
     (if value = snd e then Some s
      else do {
        s1 \<leftarrow> with_index (cull_hash_remove (fst e) (snd e) (il_unique (fst s))) s;
        let xs = map (\<lambda>x. if fst x = fst e then (fst e, value) else x) (il_elems (fst s1));
        with_index (cull_hash_insert n h (fst e) value (il_unique (fst s))) ((fst s1)\<lparr>il_elems := xs\<rparr>, snd s1) })"

fun insert_all :: "bool \<Rightarrow> (addr \<times> addr) list \<Rightarrow> (addr \<times> 'k option) list \<Rightarrow> 'k il_state \<Rightarrow> 'k il_state option" where
  "insert_all unique mallocs [] s = Some s"
| "insert_all unique [] (e # es) s = None"
| "insert_all unique ((n, h) # mallocs) (e # es) s = do {
     s1 \<leftarrow> with_index (cull_hash_insert n h (fst e) (snd e) unique) s;
     insert_all unique mallocs es s1 }"

definition cull_hash_create_hashtables ::
  "('k \<Rightarrow> int) \<Rightarrow> ('k \<Rightarrow> 'k \<Rightarrow> int) \<Rightarrow> (addr \<times> addr) list \<Rightarrow> 'k il_state \<Rightarrow> 'k il_state option" where
  "cull_hash_create_hashtables hash cmp mallocs s =
     (let lp = fst s; sz = hash_compute_size (int (length (il_elems lp)));
          lp1 = (case il_ht lp of None \<Rightarrow> lp\<lparr>il_ht := Some (cull_hash_create hash cmp (il_unique lp) sz)\<rparr> | Some _ \<Rightarrow> lp)
      in insert_all (il_unique lp) mallocs (il_elems lp) (lp1, snd s))"

text \<open>The result 0 is a refusal: the field has an index already.\<close>

definition cull_hash_new ::
  "('k \<Rightarrow> int) \<Rightarrow> ('k \<Rightarrow> 'k \<Rightarrow> int) \<Rightarrow> (addr \<times> addr) list \<Rightarrow> bool \<Rightarrow> 'k il_state \<Rightarrow> (int \<times> 'k il_state) option" where
  "cull_hash_new hash cmp mallocs unique s =
     (let lp = fst s; u = (unique \<or> il_unique lp) in
      if il_ht lp \<noteq> None then Some (0, s)
      else do {
        s1 \<leftarrow> insert_all unique mallocs (il_elems lp)
                (lp\<lparr>il_unique := u, il_ht := Some (cull_hash_create hash cmp u (hash_compute_size (int (length (il_elems lp)))))\<rparr>,
                 snd s);
        Some (1, s1) })"

definition cull_hash_new_check ::
  "('k \<Rightarrow> int) \<Rightarrow> ('k \<Rightarrow> 'k \<Rightarrow> int) \<Rightarrow> (addr \<times> addr) list \<Rightarrow> bool \<Rightarrow> 'k il_state \<Rightarrow> (int \<times> 'k il_state) option" where
  "cull_hash_new_check hash cmp mallocs unique s =
     (if il_ht (fst s) = None then cull_hash_new hash cmp mallocs unique s else Some (1, s))"

text \<open>A unique index does not depend on the order of the elements and is kept.\<close>

definition cull_hash_recreate_after_sort ::
  "('k \<Rightarrow> int) \<Rightarrow> ('k \<Rightarrow> 'k \<Rightarrow> int) \<Rightarrow> (addr \<times> addr) list \<Rightarrow> 'k il_state \<Rightarrow> 'k il_state option" where
  "cull_hash_recreate_after_sort hash cmp mallocs s =
     (let lp = fst s; sz = hash_compute_size (int (length (il_elems lp))) in
      case il_ht lp of
        None \<Rightarrow> Some s
      | Some t \<Rightarrow>
          if il_unique lp then Some s
          else do {
            m1 \<leftarrow> fst (sge_htable_for_each (key_ht t) cull_hash_delete_non_unique_chain (Some (snd s)));
            insert_all False mallocs (il_elems lp) (lp\<lparr>il_ht := Some (cull_hash_create hash cmp False sz)\<rparr>, m1) })"

text \<open>\<open>order\<close> is what \<open>qsort\<close> makes of the array of elements.\<close>

definition il_lSortList ::
  "('k \<Rightarrow> int) \<Rightarrow> ('k \<Rightarrow> 'k \<Rightarrow> int) \<Rightarrow> (addr \<times> addr) list \<Rightarrow>
    ((addr \<times> 'k option) list \<Rightarrow> (addr \<times> 'k option) list) \<Rightarrow> 'k il_state \<Rightarrow> 'k il_state option" where
  "il_lSortList hash cmp mallocs order s =
     (if length (il_elems (fst s)) < 2 then Some s
      else cull_hash_recreate_after_sort hash cmp mallocs ((fst s)\<lparr>il_elems := order (il_elems (fst s))\<rparr>, snd s))"

text \<open>
  Without an index the list is searched; the iterator is then the element found. The comparison is one
  of equality for the types that can be indexed.
\<close>

fun seek :: "'k \<Rightarrow> (addr \<times> 'k option) list \<Rightarrow> addr option" where
  "seek k [] = None"
| "seek k ((e, key) # es) = (if key = Some k then Some e else seek k es)"

definition lGetElemFirst :: "'k \<Rightarrow> 'k il_state \<Rightarrow> (addr option \<times> addr option) option" where
  "lGetElemFirst k s =
     (case il_ht (fst s) of
        Some t \<Rightarrow> cull_hash_first t (Some k) (il_unique (fst s)) (snd s)
      | None \<Rightarrow> (let ep = seek k (il_elems (fst s)) in Some (ep, ep)))"

definition lGetElemNext :: "'k \<Rightarrow> addr option \<Rightarrow> 'k il_state \<Rightarrow> (addr option \<times> addr option) option" where
  "lGetElemNext k iterator s =
     (case iterator of
        None \<Rightarrow> Some (None, None)
      | Some it \<Rightarrow>
          (case il_ht (fst s) of
             Some t \<Rightarrow> cull_hash_next iterator (snd s)
           | None \<Rightarrow>
               (let ep = seek k (drop 1 (dropWhile (\<lambda>x. fst x \<noteq> it) (il_elems (fst s)))) in Some (ep, ep))))"

text \<open>The usual loop of the callers, until no element is found.\<close>

partial_function (option) get_rest :: "'k \<Rightarrow> addr option \<times> addr option \<Rightarrow> 'k il_state \<Rightarrow> addr list option" where
  "get_rest k r s =
     (case fst r of
        None \<Rightarrow> Some []
      | Some ep \<Rightarrow> do { r1 \<leftarrow> lGetElemNext k (snd r) s; es \<leftarrow> get_rest k r1 s; Some (ep # es) })"

definition get_all :: "'k \<Rightarrow> 'k il_state \<Rightarrow> addr list option" where
  "get_all k s = do { r \<leftarrow> lGetElemFirst k s; get_rest k r s }"

end
