(* ===== verification/Cull_Hash_Facts.thy ===== *)
theory Cull_Hash_Facts
  imports Cull_Hash Hash_Facts
begin

text \<open>
  The index of a field finds what a search of the list would find. An index whose values need not be unique
  stands for the sequence of its entries, each a node, an element and a value.
\<close>

section \<open>Chains of nodes\<close>

type_synonym 'k entry = "addr \<times> addr \<times> 'k"

definition front_of :: "(addr \<times> addr) list \<Rightarrow> addr option \<Rightarrow> addr option" where
  "front_of xs a = (case xs of [] \<Rightarrow> a | x # _ \<Rightarrow> Some (fst x))"

definition back_of :: "addr option \<Rightarrow> (addr \<times> addr) list \<Rightarrow> addr option" where
  "back_of b xs = (if xs = [] then b else Some (fst (last xs)))"

lemma front_of_simps [simp]:
  "front_of [] a = a" "front_of (x # xs) a = Some (fst x)" "front_of (xs @ ys) a = front_of xs (front_of ys a)"
  by (auto simp: front_of_def split: list.splits)

lemma back_of_simps [simp]:
  "back_of b [] = b" "back_of b (x # xs) = back_of (Some (fst x)) xs" "back_of b (xs @ ys) = back_of (back_of b xs) ys"
  by (auto simp: back_of_def)

lemma back_of_other [simp]: "n \<noteq> a \<Longrightarrow> n \<notin> fst ` set xs \<Longrightarrow> back_of (Some a) xs \<noteq> Some n"
  using last_in_set[of xs] by (auto simp: back_of_def)

fun nseg :: "(addr \<rightharpoonup> nu_hash) \<Rightarrow> addr option \<Rightarrow> (addr \<times> addr) list \<Rightarrow> addr option \<Rightarrow> bool" where
  "nseg h b [] a = True"
| "nseg h b ((n, e) # xs) a \<longleftrightarrow>
     h n = Some \<lparr>nu_prev = b, nu_next = front_of xs a, nu_data = e\<rparr> \<and> nseg h (Some n) xs a"

lemma nseg_append [simp]: "nseg h b (xs @ ys) a \<longleftrightarrow> nseg h b xs (front_of ys a) \<and> nseg h (back_of b xs) ys a"
  by (induction h b xs a rule: nseg.induct) auto

lemma nseg_frame [simp]: "n \<notin> fst ` set xs \<Longrightarrow> nseg (h(n := x)) b xs a = nseg h b xs a"
  by (induction h b xs a rule: nseg.induct) auto

lemma nseg_cong: "(\<And>n. n \<in> fst ` set xs \<Longrightarrow> h' n = h n) \<Longrightarrow> nseg h' b xs a = nseg h b xs a"
  by (induction h b xs a rule: nseg.induct) auto

section \<open>What an index stands for\<close>

definition chain :: "'k \<Rightarrow> 'k entry list \<Rightarrow> (addr \<times> addr) list" where
  "chain k L = map (\<lambda>x. (fst x, fst (snd x))) (filter (\<lambda>x. snd (snd x) = k) L)"

definition node_of :: "'k entry list \<Rightarrow> addr \<Rightarrow> addr option" where
  "node_of L = map_of (map (\<lambda>x. (fst (snd x), fst x)) L)"

definition chains_ok :: "('k \<rightharpoonup> addr) \<Rightarrow> nu_mem \<Rightarrow> 'k entry list \<Rightarrow> bool" where
  "chains_ok km m L \<longleftrightarrow>
     (\<forall>k. km k = None \<longleftrightarrow> chain k L = []) \<and>
     (\<forall>k h. km k = Some h \<longrightarrow>
        header_at m h = Some \<lparr>nu_first = front_of (chain k L) None, nu_last = back_of None (chain k L)\<rparr> \<and>
        nseg (node_at m) None (chain k L) None) \<and>
     (\<forall>k k' h. km k = Some h \<and> km k' = Some h \<longrightarrow> k = k') \<and>
     distinct (map fst L) \<and> dom (node_at m) = fst ` set L \<and> dom (header_at m) = ran km"

definition index_rep ::
  "('k \<Rightarrow> int) \<Rightarrow> ('k \<Rightarrow> 'k \<Rightarrow> int) \<Rightarrow> 'k cull_htable \<Rightarrow> nu_mem \<Rightarrow> 'k entry list \<Rightarrow> bool" where
  "index_rep hash cmp t m L \<longleftrightarrow>
     ht_ok hash cmp (key_ht t) \<and>
     (\<exists>nu. nuht t = Some nu \<and> ht_ok hash_func_pointer hash_compare_pointer nu \<and> ht_map nu = node_of L) \<and>
     distinct (map (fst \<circ> snd) L) \<and> chains_ok (ht_map (key_ht t)) m L"

lemma chain_simps [simp]:
  "chain k [] = []" "chain k (L @ L') = chain k L @ chain k L'"
  "chain k ((n, e, k') # L) = (if k' = k then (n, e) # chain k L else chain k L)"
  by (auto simp: chain_def)

lemma chain_nodes: "fst ` set (chain k L) = fst ` {x \<in> set L. snd (snd x) = k}"
  by (auto simp: chain_def image_def)

lemma chain_nil: "chain k L = [] \<longleftrightarrow> k \<notin> snd ` snd ` set L"
  by (auto simp: chain_def filter_empty_conv)

lemma index_rep_new: "index_rep hash cmp (cull_hash_create hash cmp False sz) \<lparr>header_at = Map.empty, node_at = Map.empty\<rparr> []"
  using create_ok[of _ _ hash cmp] create_ok[of _ _ hash_func_pointer hash_compare_pointer]
  by (auto simp: index_rep_def cull_hash_create_def chains_ok_def node_of_def Let_def)

section \<open>Inserting\<close>

lemma chains_insert_new:
  assumes "chains_ok km m L" "n \<notin> dom (node_at m)" "h \<notin> dom (header_at m)" "km k = None"
  shows "chains_ok (km(k \<mapsto> h)) (set_header h \<lparr>nu_first = Some n, nu_last = Some n\<rparr>
      (set_node n \<lparr>nu_prev = None, nu_next = None, nu_data = ep\<rparr> m)) (L @ [(n, ep, k)])"
proof -
  have n: "n \<notin> fst ` set L" and h: "h \<notin> ran km" using assms by (auto simp: chains_ok_def)
  then have c: "n \<notin> fst ` set (chain k' L)" for k' by (auto simp: chain_nodes)
  have h': "km k' \<noteq> Some h" for k' using h by (auto simp: ran_def)
  have "chain k L = []" using assms(1,4) by (auto simp: chains_ok_def)
  then show ?thesis using assms n h' c
    by (auto simp: chains_ok_def set_header_def set_node_def)
qed

lemma chain_in_dom: "chains_ok km m L \<Longrightarrow> n \<in> fst ` set (chain k L) \<Longrightarrow> n \<in> dom (node_at m)"
  by (auto simp: chains_ok_def chain_nodes)

lemma other_chain: "distinct (map fst L) \<Longrightarrow> n \<in> fst ` set (chain k L) \<Longrightarrow> k' \<noteq> k \<Longrightarrow> n \<notin> fst ` set (chain k' L)"
  by (auto simp: chain_nodes distinct_map inj_on_def)

lemma chain_distinct: "distinct (map fst L) \<Longrightarrow> distinct (map fst (chain k L))"
  by (induction L) (auto simp: chain_def)

lemma chains_append:
  assumes ok: "chains_ok km m L" and n: "n \<notin> dom (node_at m)" and k: "km k = Some h"
  shows "\<exists>m'. append_node n ep h m = Some m' \<and> chains_ok km m' (L @ [(n, ep, k)])"
proof -
  have hd: "header_at m h = Some \<lparr>nu_first = front_of (chain k L) None, nu_last = back_of None (chain k L)\<rparr>"
    and seg: "nseg (node_at m) None (chain k L) None" and d: "distinct (map fst L)"
    using ok k by (auto simp: chains_ok_def)
  have ne: "chain k L \<noteq> []" using ok k unfolding chains_ok_def by (metis option.distinct(1))
  from ne obtain xs p e where c: "chain k L = xs @ [(p, e)]" by (cases "chain k L" rule: rev_cases) auto
  have pn: "p \<noteq> n" using chain_in_dom[OF ok, of p k] n c by auto
  have nn: "n \<notin> fst ` set (chain k' L)" for k' using chain_in_dom[OF ok, of n k'] n by blast
  have pk: "k' \<noteq> k \<Longrightarrow> p \<notin> fst ` set (chain k' L)" for k' using other_chain[OF d, of p k k'] c by simp
  have px: "p \<notin> fst ` set xs" using chain_distinct[OF d, of k] c by (auto simp: distinct_map)
  let ?m = "set_header h \<lparr>nu_first = front_of (chain k L) None, nu_last = Some n\<rparr>
      (set_node p \<lparr>nu_prev = back_of None xs, nu_next = Some n, nu_data = e\<rparr>
        (set_node n \<lparr>nu_prev = Some p, nu_next = None, nu_data = ep\<rparr> m))"
  have "append_node n ep h m = Some ?m"
    using hd seg pn by (simp add: append_node_def upd_node_def set_header_def set_node_def c)
  moreover have "chains_ok km ?m (L @ [(n, ep, k)])"
    unfolding chains_ok_def
  proof (intro conjI allI impI)
    fix k' h' assume h': "km k' = Some h'"
    show "header_at ?m h' = Some \<lparr>nu_first = front_of (chain k' (L @ [(n, ep, k)])) None,
        nu_last = back_of None (chain k' (L @ [(n, ep, k)]))\<rparr>"
      using ok h' k by (cases "k' = k") (auto simp: chains_ok_def set_header_def set_node_def c)
    show "nseg (node_at ?m) None (chain k' (L @ [(n, ep, k)])) None"
      using ok h' k nn[of k'] nn[of k] pk[of k'] px pn seg[unfolded c]
      by (cases "k' = k") (auto simp: chains_ok_def set_header_def set_node_def c)
  next
    have "p \<in> dom (node_at m)" using chain_in_dom[OF ok, of p k] c by simp
    then show "dom (node_at ?m) = fst ` set (L @ [(n, ep, k)])"
      using ok by (auto simp: chains_ok_def set_header_def set_node_def)
    show "dom (header_at ?m) = ran km" using ok k by (auto simp: chains_ok_def set_header_def set_node_def ran_def)
  qed (use ok k n ne in \<open>auto simp: chains_ok_def\<close>)
  ultimately show ?thesis by blast
qed

section \<open>Removing\<close>

definition without_elem :: "addr \<Rightarrow> 'k entry list \<Rightarrow> 'k entry list" where
  "without_elem e L = filter (\<lambda>x. fst (snd x) \<noteq> e) L"

lemma chain_elem: "(n, e, k) \<in> set L \<Longrightarrow> (n, e) \<in> set (chain k L)"
  by (force simp: chain_def)

lemma chain_without:
  assumes "distinct (map (fst \<circ> snd) L)" "(n, e, k) \<in> set L"
  shows "k' \<noteq> k \<Longrightarrow> chain k' (without_elem e L) = chain k' L"
    and "chain k L = xs @ (n, e) # ys \<Longrightarrow> chain k (without_elem e L) = xs @ ys"
proof -
  have o: "fst (snd x) = e \<longleftrightarrow> x = (n, e, k)" if "x \<in> set L" for x
    using assms that by (auto simp: distinct_map inj_on_def)
  show "chain k' (without_elem e L) = chain k' L" if "k' \<noteq> k"
    unfolding chain_def without_elem_def filter_filter
    by (rule arg_cong[where f = "map _"], rule filter_cong) (use o that in auto)
  assume c: "chain k L = xs @ (n, e) # ys"
  have f: "filter (\<lambda>x. snd x \<noteq> e) (chain k L) = chain k (without_elem e L)"
    unfolding chain_def without_elem_def by (simp add: filter_map comp_def conj_commute)
  have "distinct (map snd (chain k L))"
    using assms(1) unfolding chain_def
    by (simp add: comp_def distinct_map_filter)
  then have "e \<notin> snd ` set xs" "e \<notin> snd ` set ys" using c by auto
  then have "filter (\<lambda>x. snd x \<noteq> e) xs = xs" "filter (\<lambda>x. snd x \<noteq> e) ys = ys"
    by (auto simp: filter_id_conv)
  then show "chain k (without_elem e L) = xs @ ys" using f c by simp
qed

lemma unlink_chain:
  assumes hd: "header_at m h = Some \<lparr>nu_first = front_of (xs @ (n, e) # ys) None, nu_last = back_of None (xs @ (n, e) # ys)\<rparr>"
    and seg: "nseg (node_at m) None (xs @ (n, e) # ys) None" and d: "distinct (map fst (xs @ (n, e) # ys))"
  shows "\<exists>m'. unlink_node n h m = Some m' \<and>
    header_at m' = (header_at m)(h \<mapsto> \<lparr>nu_first = front_of (xs @ ys) None, nu_last = back_of None (xs @ ys)\<rparr>) \<and>
    nseg (node_at m') None (xs @ ys) None \<and> dom (node_at m') = dom (node_at m) \<and>
    (\<forall>p. p \<notin> fst ` set (xs @ ys) \<longrightarrow> node_at m' p = node_at m p)"
proof (cases xs rule: rev_cases)
  case Nil
  show ?thesis
  proof (cases ys)
    case Nil
    then show ?thesis using hd seg \<open>xs = []\<close> by (auto simp: unlink_node_def set_header_def)
  next
    case (Cons y ys')
    then show ?thesis using hd seg d \<open>xs = []\<close>
      by (cases y) (auto simp: unlink_node_def set_header_def upd_node_def set_node_def)
  qed
next
  case (snoc xs' x)
  show ?thesis
  proof (cases ys)
    case Nil
    then show ?thesis using hd seg d snoc
      by (cases x; cases xs') (auto simp: unlink_node_def set_header_def upd_node_def set_node_def)
  next
    case (Cons y ys')
    then show ?thesis using hd seg d snoc
      by (cases x; cases y; cases xs') (auto simp: unlink_node_def set_header_def upd_node_def set_node_def fun_upd_idem)
  qed
qed

lemma chains_remove:
  assumes ok: "chains_ok km m L" and de: "distinct (map (fst \<circ> snd) L)" and e: "(n, e, k) \<in> set L" and k: "km k = Some h"
  shows "\<exists>m1. unlink_node n h m = Some m1 \<and>
    header_at m1 h = Some \<lparr>nu_first = front_of (chain k (without_elem e L)) None, nu_last = back_of None (chain k (without_elem e L))\<rparr> \<and>
    (if chain k (without_elem e L) = [] then chains_ok (km(k := None)) (free_header h (free_node n m1)) (without_elem e L)
     else chains_ok km (free_node n m1) (without_elem e L))"
proof -
  let ?L = "without_elem e L"
  have d: "distinct (map fst L)" using ok by (simp add: chains_ok_def)
  obtain xs ys where c: "chain k L = xs @ (n, e) # ys" using chain_elem[OF e] by (metis split_list)
  have c': "chain k ?L = xs @ ys" and o: "\<And>k'. k' \<noteq> k \<Longrightarrow> chain k' ?L = chain k' L"
    using chain_without[OF de e] c by auto
  have nn: "k' \<noteq> k \<Longrightarrow> n \<notin> fst ` set (chain k' L)" for k' using other_chain[OF d, of n k k'] c by simp
  have dk: "distinct (map fst (xs @ (n, e) # ys))" using chain_distinct[OF d, of k] c by simp
  obtain m1 where u: "unlink_node n h m = Some m1"
    and h1: "header_at m1 = (header_at m)(h \<mapsto> \<lparr>nu_first = front_of (xs @ ys) None, nu_last = back_of None (xs @ ys)\<rparr>)"
    and s1: "nseg (node_at m1) None (xs @ ys) None" and d1: "dom (node_at m1) = dom (node_at m)"
    and f1: "\<forall>p. p \<notin> fst ` set (xs @ ys) \<longrightarrow> node_at m1 p = node_at m p"
    using unlink_chain[of m h xs n e ys] ok k c dk unfolding chains_ok_def by force
  have s2: "nseg ((node_at m1)(n := None)) None (xs @ ys) None"
    using s1 dk by (subst nseg_frame) auto
  have s3: "nseg ((node_at m1)(n := None)) None (chain k' L) None" if "k' \<noteq> k" "km k' = Some h'" for k' h'
  proof -
    have "nseg (node_at m1) None (chain k' L) None = nseg (node_at m) None (chain k' L) None"
    proof (rule nseg_cong)
      fix p assume "p \<in> fst ` set (chain k' L)"
      then have "p \<notin> fst ` set (chain k L)" using other_chain[OF d, of p k' k] that(1) by simp
      then show "node_at m1 p = node_at m p" using f1 c by simp
    qed
    then show ?thesis using ok that nn by (auto simp: chains_ok_def)
  qed
  have hn: "km k' = Some h' \<Longrightarrow> k' \<noteq> k \<Longrightarrow> h' \<noteq> h" for k' h' using ok k unfolding chains_ok_def by blast
  have nL: "fst ` set ?L = fst ` set L - {n}"
  proof -
    have "fst (snd x) = e \<longleftrightarrow> fst x = n" if "x \<in> set L" for x
      using inj_on_eq_iff[of fst "set L" x "(n, e, k)"] inj_on_eq_iff[of "fst \<circ> snd" "set L" x "(n, e, k)"]
        d de e that by (simp add: distinct_map)
    then show ?thesis by (auto simp: without_elem_def image_iff)
  qed
  have base: "(\<forall>k'. k' \<noteq> k \<longrightarrow> (km k' = None \<longleftrightarrow> chain k' ?L = []))" using ok o by (auto simp: chains_ok_def)
  have dL: "distinct (map fst ?L)" using d by (simp add: without_elem_def distinct_map_filter)
  show ?thesis
  proof (intro exI conjI, rule u)
    show "header_at m1 h = Some \<lparr>nu_first = front_of (chain k ?L) None, nu_last = back_of None (chain k ?L)\<rparr>"
      by (simp add: h1 c')
    show "if chain k ?L = [] then chains_ok (km(k := None)) (free_header h (free_node n m1)) ?L
      else chains_ok km (free_node n m1) ?L"
    proof (cases "chain k ?L = []")
      case True
      have "ran (km(k := None)) = ran km - {h}" 
        using hn k unfolding ran_def by (intro set_eqI) (simp, metis option.inject)
      then have "dom ((header_at m1)(h := None)) = ran (km(k := None))" using ok h1 by (auto simp: chains_ok_def)
      then show ?thesis using ok base o True s3 hn h1 nL d1 dL unfolding chains_ok_def
        by (auto simp: free_node_def free_header_def)
    next
      case False
      have "dom (header_at m1) = ran km" using ok h1 k by (auto simp: chains_ok_def ran_def)
      moreover have "header_at m1 h' = Some \<lparr>nu_first = front_of (chain k' ?L) None, nu_last = back_of None (chain k' ?L)\<rparr>"
        if "km k' = Some h'" for k' h' using ok that k hn[OF that] o[of k'] c' h1 by (cases "k' = k") (auto simp: chains_ok_def)
      moreover have "nseg ((node_at m1)(n := None)) None (chain k' ?L) None" if "km k' = Some h'" for k' h'
        using s2 s3[OF _ that] o[of k'] c' by (cases "k' = k") auto
      moreover have "km k' = None \<longleftrightarrow> chain k' ?L = []" for k' using base False k by (cases "k' = k") auto
      moreover have "\<forall>k k' h. km k = Some h \<and> km k' = Some h \<longrightarrow> k = k'" "dom (node_at m) = fst ` set L"
        using ok by (simp_all add: chains_ok_def)
      ultimately show ?thesis using False nL d1 dL unfolding chains_ok_def by (simp add: free_node_def)
    qed
  qed
qed

section \<open>The operations on a table\<close>

lemma node_of_None: "node_of L e = None \<longleftrightarrow> e \<notin> fst ` snd ` set L"
  by (force simp: node_of_def map_of_eq_None_iff)

lemma node_of_Some: "distinct (map (fst \<circ> snd) L) \<Longrightarrow> (n, e, k) \<in> set L \<Longrightarrow> node_of L e = Some n"
  unfolding node_of_def by (rule map_of_is_SomeI) (force simp: comp_def)+

lemma node_of_append: "node_of L e = None \<Longrightarrow> node_of (L @ [(n, e, k)]) = (node_of L)(e \<mapsto> n)"
  by (auto simp: node_of_def fun_eq_iff map_add_def split: option.splits)

lemma node_of_without: "node_of (without_elem e L) = (node_of L)(e := None)"
proof
  fix x
  show "node_of (without_elem e L) x = ((node_of L)(e := None)) x"
    by (induction L) (auto simp: node_of_def without_elem_def)
qed

context hash_key begin

lemma insert_index:
  assumes r: "index_rep hash cmp t m L" and n: "n \<notin> dom (node_at m)" and h: "h \<notin> dom (header_at m)"
    and e: "e \<notin> fst ` snd ` set L"
  shows "\<exists>t' m'. cull_hash_insert n h e (Some k) False t m = Some (t', m') \<and> index_rep hash cmp t' m' (L @ [(n, e, k)]) \<and>
    dom (header_at m') \<subseteq> insert h (dom (header_at m))"
proof -
  obtain nu where ok: "ht_ok hash cmp (key_ht t)" and nu: "nuht t = Some nu" "ht_ok hash_func_pointer hash_compare_pointer nu"
    "ht_map nu = node_of L" and d: "distinct (map (fst \<circ> snd) L)" and c: "chains_ok (ht_map (key_ht t)) m L"
    using r by (auto simp: index_rep_def)
  have ne: "node_of L e = None" using e by (simp add: node_of_None)
  have nu': "ht_ok hash_func_pointer hash_compare_pointer (sge_htable_store nu e n) \<and>
      ht_map (sge_htable_store nu e n) = node_of (L @ [(n, e, k)])"
    using pointer_key.store_law[OF nu(2), of e n] nu(3) node_of_append[OF ne] by simp
  have d': "distinct (map (fst \<circ> snd) (L @ [(n, e, k)]))" using d e by (auto simp: image_image)
  have lk: "sge_htable_lookup (key_ht t) k = ht_map (key_ht t) k" by (rule lookup_law[OF ok])
  have le: "sge_htable_lookup nu e = None" using pointer_key.lookup_law[OF nu(2), of e] nu(3) ne by simp
  show ?thesis
  proof (cases "ht_map (key_ht t) k")
    case None
    then show ?thesis using lk nu nu' d' store_law[OF ok, of k h] chains_insert_new[OF c n h None, of e]
      by (auto simp: cull_hash_insert_def index_rep_def set_header_def set_node_def)
  next
    case (Some h')
    obtain m' where m': "append_node n e h' m = Some m'" "chains_ok (ht_map (key_ht t)) m' (L @ [(n, e, k)])"
      using chains_append[OF c n Some] by blast
    moreover have "dom (header_at m') = dom (header_at m)" using m'(2) c by (simp add: chains_ok_def)
    ultimately show ?thesis using lk Some nu nu' d' le ok by (auto simp: cull_hash_insert_def index_rep_def)
  qed
qed

lemma remove_index:
  assumes r: "index_rep hash cmp t m L" and e: "(n, e, k) \<in> set L"
  shows "\<exists>t' m'. cull_hash_remove e (Some k) False t m = Some (t', m') \<and> index_rep hash cmp t' m' (without_elem e L)"
proof -
  obtain nu where ok: "ht_ok hash cmp (key_ht t)" and nu: "nuht t = Some nu" "ht_ok hash_func_pointer hash_compare_pointer nu"
    "ht_map nu = node_of L" and d: "distinct (map (fst \<circ> snd) L)" and c: "chains_ok (ht_map (key_ht t)) m L"
    using r by (auto simp: index_rep_def)
  have "ht_map (key_ht t) k \<noteq> None" using c chain_elem[OF e] by (auto simp: chains_ok_def)
  then obtain h where h: "ht_map (key_ht t) k = Some h" by blast
  have lk: "sge_htable_lookup (key_ht t) k = Some h" using lookup_law[OF ok, of k] h by simp
  have le: "sge_htable_lookup nu e = Some n"
    using pointer_key.lookup_law[OF nu(2), of e] nu(3) node_of_Some[OF d e] by simp
  have nu': "ht_ok hash_func_pointer hash_compare_pointer (sge_htable_delete nu e) \<and>
      ht_map (sge_htable_delete nu e) = node_of (without_elem e L)"
    using pointer_key.delete_law[OF nu(2), of e] nu(3) by (simp add: node_of_without)
  have d': "distinct (map (fst \<circ> snd) (without_elem e L))" using d by (simp add: without_elem_def distinct_map_filter)
  obtain m1 where u: "unlink_node n h m = Some m1"
    and hd: "header_at m1 h = Some \<lparr>nu_first = front_of (chain k (without_elem e L)) None, nu_last = back_of None (chain k (without_elem e L))\<rparr>"
    and cs: "if chain k (without_elem e L) = [] then chains_ok ((ht_map (key_ht t))(k := None)) (free_header h (free_node n m1)) (without_elem e L)
     else chains_ok (ht_map (key_ht t)) (free_node n m1) (without_elem e L)"
    using chains_remove[OF c d e h] by blast
  have hd': "header_at (free_node n m1) h = Some \<lparr>nu_first = front_of (chain k (without_elem e L)) None, nu_last = back_of None (chain k (without_elem e L))\<rparr>"
    using hd by (simp add: free_node_def)
  have em: "front_of xs None = None \<and> back_of None xs = None \<longleftrightarrow> xs = []" for xs
    by (auto simp: back_of_def)
  show ?thesis
  proof (cases "chain k (without_elem e L) = []")
    case True
    then show ?thesis using lk nu nu' le u hd' cs d' delete_law[OF ok, of k]
      by (simp add: cull_hash_remove_def drop_if_empty_def index_rep_def)
  next
    case False
    then show ?thesis using lk nu nu' le u hd' cs d' ok em[of "chain k (without_elem e L)"]
      by (auto simp: cull_hash_remove_def drop_if_empty_def index_rep_def)
  qed
qed

end

end
