(* ===== verification/Cull_Index.thy ===== *)
theory Cull_Index
  imports Cull_Hash_Facts
begin

text \<open>
  The states a list with an index can get into, and what a search finds in them: with the index, what the
  search of the list would find without.
\<close>

section \<open>Walking through an index\<close>

lemma get_rest_chain:
  assumes "il_ht (fst s) = Some t" "nseg (node_at (snd s)) b ((n, e) # xs) None"
  shows "get_rest k (Some e, Some n) s = Some (e # map snd xs)"
  using assms(2)
proof (induction xs arbitrary: b n e)
  case Nil
  then show ?case using assms(1)
    by (simp add: get_rest.simps[of k "(Some e, Some n)"] get_rest.simps[of k "(None, None)"] lGetElemNext_def cull_hash_next_def)
next
  case (Cons x xs)
  then show ?case using assms(1) Cons.IH[of "Some n" "fst x" "snd x"]
    by (cases x) (simp add: get_rest.simps[of k "(Some e, Some n)"] lGetElemNext_def cull_hash_next_def)
qed

context hash_key begin

lemma get_all_index:
  assumes t: "il_ht (fst s) = Some t" "\<not> il_unique (fst s)" and r: "index_rep hash cmp t (snd s) L"
  shows "get_all k s = Some (map snd (chain k L))"
proof -
  have ok: "ht_ok hash cmp (key_ht t)" and c: "chains_ok (ht_map (key_ht t)) (snd s) L" using r by (auto simp: index_rep_def)
  note l = lookup_law[OF ok, of k]
  show ?thesis
  proof (cases "ht_map (key_ht t) k")
    case None
    then show ?thesis using c l t
      by (simp add: get_all_def lGetElemFirst_def cull_hash_first_def get_rest.simps[of k "(None, None)"] chains_ok_def)
  next
    case (Some h)
    then have h: "header_at (snd s) h = Some \<lparr>nu_first = front_of (chain k L) None, nu_last = back_of None (chain k L)\<rparr>"
      "nseg (node_at (snd s)) None (chain k L) None"
      using c Some by (auto simp: chains_ok_def)
    have "chain k L \<noteq> []"
    proof
      assume "chain k L = []"
      then have "ht_map (key_ht t) k = None" using c by (simp add: chains_ok_def)
      then show False using Some by simp
    qed
    then obtain n e xs where x: "chain k L = (n, e) # xs" by (cases "chain k L") auto
    then show ?thesis using h l t Some get_rest_chain[OF t(1), of None n e xs]
      by (simp add: get_all_def lGetElemFirst_def cull_hash_first_def)
  qed
qed

end

section \<open>Walking through a list\<close>

fun keyed :: "(addr \<times> 'k option) list \<Rightarrow> (addr \<times> 'k) list" where
  "keyed [] = []"
| "keyed ((e, None) # xs) = keyed xs"
| "keyed ((e, Some k) # xs) = (e, k) # keyed xs"

definition having :: "'k \<Rightarrow> (addr \<times> 'k option) list \<Rightarrow> addr list" where
  "having k xs = map fst (filter (\<lambda>x. snd x = Some k) xs)"

lemma having_keyed: "having k xs = map fst (filter (\<lambda>x. snd x = k) (keyed xs))"
  by (induction xs rule: keyed.induct) (auto simp: having_def)

lemma keyed_append [simp]: "keyed (xs @ ys) = keyed xs @ keyed ys"
  by (induction xs rule: keyed.induct) auto

lemma keyed_filter [simp]: "keyed (filter (\<lambda>x. fst x \<noteq> e) xs) = filter (\<lambda>x. fst x \<noteq> e) (keyed xs)"
  by (induction xs rule: keyed.induct) auto

lemma in_keyed: "(e, k) \<in> set (keyed xs) \<longleftrightarrow> (e, Some k) \<in> set xs"
  by (induction xs rule: keyed.induct) auto

lemma keyed_mset:
  assumes "mset xs = mset ys"
  shows "mset (keyed xs) = mset (keyed ys)"
proof -
  have f: "mset (keyed xs) = image_mset (\<lambda>x. (fst x, the (snd x))) (filter_mset (\<lambda>x. snd x \<noteq> None) (mset xs))" for xs
    by (induction xs rule: keyed.induct) auto
  show ?thesis unfolding f assms ..
qed

lemma chain_keyed: "map snd (chain k L) = map fst (filter (\<lambda>x. snd x = k) (map snd L))"
  by (induction L) (auto simp: chain_def)

lemma seek_cases:
  "(seek k xs = None \<and> having k xs = []) \<or>
   (\<exists>us e vs. xs = us @ (e, Some k) # vs \<and> seek k xs = Some e \<and> having k us = [])"
proof (induction xs)
  case (Cons x xs)
  obtain e key where x: "x = (e, key)" by (cases x)
  show ?case
  proof (cases "key = Some k")
    case True
    then show ?thesis using x by (intro disjI2 exI[of _ "[]"] exI[of _ e] exI[of _ xs]) (simp add: having_def)
  next
    case False
    from Cons.IH show ?thesis
    proof (elim disjE exE conjE)
      fix us e' vs assume "xs = us @ (e', Some k) # vs" "seek k xs = Some e'" "having k us = []"
      then show ?thesis using x False by (intro disjI2 exI[of _ "x # us"] exI[of _ e'] exI[of _ vs]) (simp add: having_def)
    qed (use x False in \<open>simp add: having_def\<close>)
  qed
qed (simp add: having_def)

lemma get_rest_list:
  assumes t: "il_ht (fst s) = None" and d: "distinct (map fst (il_elems (fst s)))"
    and xs: "il_elems (fst s) = zs @ xs"
  shows "get_rest k (seek k xs, seek k xs) s = Some (having k xs)"
  using xs
proof (induction "length xs" arbitrary: xs zs rule: less_induct)
  case less
  from seek_cases[of k xs] show ?case
  proof (elim disjE exE conjE)
    assume "seek k xs = None" "having k xs = []"
    then show ?thesis by (simp add: get_rest.simps[of k "(None, None)"])
  next
    fix us e vs assume x: "xs = us @ (e, Some k) # vs" "seek k xs = Some e" and u: "having k us = []"
    have "\<forall>y \<in> set (zs @ us). fst y \<noteq> e" using d less.prems x(1) by auto
    then have "dropWhile (\<lambda>y. fst y \<noteq> e) (zs @ us @ (e, Some k) # vs) = (e, Some k) # vs"
      using dropWhile_append2[of "zs @ us" "\<lambda>y. fst y \<noteq> e" "(e, Some k) # vs"] by simp
    then have "lGetElemNext k (Some e) s = Some (seek k vs, seek k vs)"
      using t less.prems x(1) by (simp add: lGetElemNext_def Let_def)
    moreover have "get_rest k (seek k vs, seek k vs) s = Some (having k vs)"
      using less.hyps[of vs "zs @ us @ [(e, Some k)]"] less.prems x(1) by simp
    ultimately show ?thesis using x u by (simp add: get_rest.simps[of k "(Some e, Some e)"] having_def)
  qed
qed

lemma get_all_list:
  "il_ht (fst s) = None \<Longrightarrow> distinct (map fst (il_elems (fst s))) \<Longrightarrow> get_all k s = Some (having k (il_elems (fst s)))"
  using get_rest_list[of s "[]" "il_elems (fst s)" k] by (simp add: get_all_def lGetElemFirst_def Let_def)


section \<open>Freeing an index\<close>

lemma free_nodes_seg:
  assumes "nseg (node_at m) b xs None" "distinct (map fst xs)"
  shows "free_nodes (front_of xs None) m = Some (m\<lparr>node_at := node_at m |` (- fst ` set xs)\<rparr>)"
  using assms
proof (induction xs arbitrary: b m)
  case Nil
  then show ?case by (simp add: free_nodes.simps[of None] restrict_map_def)
next
  case (Cons x xs)
  obtain n e where x: "x = (n, e)" by (cases x)
  let ?m = "free_node n m"
  have "n \<notin> fst ` set xs" using Cons.prems x by simp
  then have "nseg (node_at ?m) (Some n) xs None" using Cons.prems x by (simp add: free_node_def)
  then have "free_nodes (front_of xs None) ?m = Some (?m\<lparr>node_at := node_at ?m |` (- fst ` set xs)\<rparr>)"
    using Cons.IH[of ?m "Some n"] Cons.prems(2) by simp
  moreover have "node_at ?m |` (- fst ` set xs) = node_at m |` (- fst ` set (x # xs))"
    using x by (auto simp: free_node_def restrict_map_def)
  moreover have "?m\<lparr>node_at := f\<rparr> = m\<lparr>node_at := f\<rparr>" for f by (simp add: free_node_def)
  ultimately show ?case using Cons.prems x by (simp add: free_nodes.simps[of "Some n"])
qed

definition without_key :: "'k \<Rightarrow> 'k entry list \<Rightarrow> 'k entry list" where
  "without_key k L = filter (\<lambda>x. snd (snd x) \<noteq> k) L"

lemma chain_without_key: "chain k' (without_key k L) = (if k' = k then [] else chain k' L)"
  unfolding chain_def without_key_def filter_filter by (auto intro!: arg_cong[where f = "map _"] filter_cong)

lemma delete_chain:
  assumes ok: "chains_ok km m L" and k: "km k = Some h"
  shows "\<exists>m'. cull_hash_delete_non_unique_chain (Some m) k h = (Some m', h) \<and>
    chains_ok (km(k := None)) m' (without_key k L)"
proof -
  have d: "distinct (map fst L)" using ok by (simp add: chains_ok_def)
  have hd: "header_at m h = Some \<lparr>nu_first = front_of (chain k L) None, nu_last = back_of None (chain k L)\<rparr>"
    and seg: "nseg (node_at m) None (chain k L) None" using ok k by (auto simp: chains_ok_def)
  let ?m = "free_header h (m\<lparr>node_at := node_at m |` (- fst ` set (chain k L))\<rparr>)"
  have "cull_hash_delete_non_unique_chain (Some m) k h = (Some ?m, h)"
    using free_nodes_seg[OF seg chain_distinct[OF d]] hd by (simp add: cull_hash_delete_non_unique_chain_def)
  moreover have "chains_ok (km(k := None)) ?m (without_key k L)"
    unfolding chains_ok_def
  proof (intro conjI allI impI)
    fix k' h' assume h': "(km(k := None)) k' = Some h'"
    then have kk: "k' \<noteq> k" "km k' = Some h'" by (auto split: if_splits)
    have "h' \<noteq> h" using ok k kk unfolding chains_ok_def by blast
    then show "header_at ?m h' = Some \<lparr>nu_first = front_of (chain k' (without_key k L)) None,
        nu_last = back_of None (chain k' (without_key k L))\<rparr>"
      using ok kk by (simp add: chains_ok_def free_header_def chain_without_key)
    have "nseg (node_at ?m) None (chain k' L) None = nseg (node_at m) None (chain k' L) None"
      using other_chain[OF d, of _ k' k] kk(1)
      by (intro nseg_cong) (simp add: free_header_def restrict_map_def)
    then show "nseg (node_at ?m) None (chain k' (without_key k L)) None"
      using ok kk by (simp add: chains_ok_def chain_without_key)
  next
    have "fst ` set (without_key k L) = fst ` set L - fst ` set (chain k L)"
    proof -
      have "x = y" if "x \<in> set L" "y \<in> set L" "fst x = fst y" for x y
        using d that by (auto simp: distinct_map inj_on_def)
      then show ?thesis unfolding chain_nodes without_key_def by auto
    qed
    then show "dom (node_at ?m) = fst ` set (without_key k L)"
      using ok by (simp add: chains_ok_def free_header_def Diff_eq)
    have "ran (km(k := None)) = ran km - {h}"
      using ok k unfolding ran_def chains_ok_def by (intro set_eqI) (simp, metis option.inject)
    then show "dom (header_at ?m) = ran (km(k := None))" using ok by (simp add: chains_ok_def free_header_def)
  next
    fix k' show "((km(k := None)) k' = None) = (chain k' (without_key k L) = [])"
      using ok by (simp add: chains_ok_def chain_without_key)
  next
    show "\<And>k' k'' h. (km(k := None)) k' = Some h \<and> (km(k := None)) k'' = Some h \<Longrightarrow> k' = k''"
      using ok unfolding chains_ok_def by (auto split: if_splits)
    show "distinct (map fst (without_key k L))" using d by (simp add: without_key_def distinct_map_filter)
  qed
  ultimately show ?thesis by blast
qed

text \<open>A procedure that leaves the data alone sees the entries one after the other.\<close>

lemma for_each_state:
  assumes "\<And>s k v. snd (proc s k v) = v"
  shows "fst (for_each_bucket proc c s) = foldl (\<lambda>s e. fst (proc s (fst e) (snd e))) s c"
    and "fst (for_each_chain proc cs s) = foldl (\<lambda>s e. fst (proc s (fst e) (snd e))) s (concat cs)"
proof -
  show b: "fst (for_each_bucket proc c s) = foldl (\<lambda>s e. fst (proc s (fst e) (snd e))) s c" for c s
    by (induction c arbitrary: s) (auto split: prod.splits, metis fst_conv)
  show "fst (for_each_chain proc cs s) = foldl (\<lambda>s e. fst (proc s (fst e) (snd e))) s (concat cs)"
  proof (induction cs arbitrary: s)
    case (Cons c cs)
    then show ?case using b[of c s] by (auto split: prod.splits, metis fst_conv)
  qed simp
qed

lemma delete_chains:
  assumes "chains_ok (map_of es) m L" "distinct (map fst es)"
  shows "foldl (\<lambda>s e. fst (cull_hash_delete_non_unique_chain s (fst e) (snd e))) (Some m) es =
    Some \<lparr>header_at = Map.empty, node_at = Map.empty\<rparr>"
  using assms
proof (induction es arbitrary: m L)
  case Nil
  have "L = []"
  proof (cases L)
    case (Cons x L')
    then have "chain (snd (snd x)) L \<noteq> []" by (simp add: chain_nil)
    then show ?thesis using Nil by (simp add: chains_ok_def)
  qed
  then show ?case using Nil by (cases m) (simp add: chains_ok_def)
next
  case (Cons e es)
  obtain k h where e: "e = (k, h)" by (cases e)
  have "(map_of (e # es)) k = Some h" by (simp add: e)
  from delete_chain[OF Cons.prems(1) this] obtain m' where
    m': "cull_hash_delete_non_unique_chain (Some m) k h = (Some m', h)"
    "chains_ok ((map_of (e # es))(k := None)) m' (without_key k L)" by blast
  have "map_of es k = None" using Cons.prems(2) e by (simp add: map_of_eq_None_iff)
  then have "(map_of (e # es))(k := None) = map_of es" using e by (auto simp: fun_eq_iff)
  then show ?case using Cons.IH[of m' "without_key k L"] m' Cons.prems(2) e by simp
qed

lemma free_index:
  fixes t :: "'k cull_htable"
  assumes "index_rep hash cmp t m L"
  shows "fst (sge_htable_for_each (key_ht t) cull_hash_delete_non_unique_chain (Some m)) =
    Some \<lparr>header_at = Map.empty, node_at = Map.empty\<rparr>"
proof -
  have sh: "ht_shape (key_ht t)" and c: "chains_ok (map_of (entries (key_ht t))) m L"
    using assms by (auto simp: index_rep_def ht_ok_def ht_map_def)
  have d: "distinct (map fst (entries (key_ht t)))" using sh by (simp add: ht_shape_def table_ok_def entries_def)
  have s: "snd (cull_hash_delete_non_unique_chain s k v) = v" for s v and k :: 'k
    by (simp add: cull_hash_delete_non_unique_chain_def)
  have "take (nat (ht_mask (key_ht t) + 1)) (ht_table (key_ht t)) = ht_table (key_ht t)"
    using sh by (simp add: ht_shape_def nat_power_eq)
  then show ?thesis using for_each_state(2)[of cull_hash_delete_non_unique_chain, OF s] delete_chains[OF c d]
    by (simp add: sge_htable_for_each_def Let_def split_beta entries_def)
qed


section \<open>The states of a list with an index\<close>

definition il_rel :: "('k \<Rightarrow> int) \<Rightarrow> ('k \<Rightarrow> 'k \<Rightarrow> int) \<Rightarrow> bool \<Rightarrow> 'k il_state \<Rightarrow> bool" where
  "il_rel hash cmp ord s \<longleftrightarrow>
     (\<exists>t L. il_ht (fst s) = Some t \<and> \<not> il_unique (fst s) \<and> index_rep hash cmp t (snd s) L \<and>
        distinct (map fst (il_elems (fst s))) \<and> mset (keyed (il_elems (fst s))) = mset (map snd L) \<and>
        (ord \<longrightarrow> keyed (il_elems (fst s)) = map snd L))"

definition fresh :: "addr \<Rightarrow> addr \<Rightarrow> 'k il_state \<Rightarrow> bool" where
  "fresh n h s \<longleftrightarrow> n \<notin> dom (node_at (snd s)) \<and> h \<notin> dom (header_at (snd s))"

definition enough :: "(addr \<times> addr) list \<Rightarrow> (addr \<times> 'k option) list \<Rightarrow> bool" where
  "enough mallocs es \<longleftrightarrow> length es \<le> length mallocs \<and> distinct (map fst mallocs) \<and> distinct (map snd mallocs)"

context hash_key begin

lemma insert_all_index:
  assumes "il_ht (fst s) = Some t" "index_rep hash cmp t (snd s) L" "distinct (map fst es)"
    and "fst ` set es \<inter> fst ` snd ` set L = {}" "enough mallocs es"
    and "\<forall>p \<in> set mallocs. fresh (fst p) (snd p) s"
  shows "\<exists>t' m' L'. insert_all False mallocs es s = Some ((fst s)\<lparr>il_ht := Some t'\<rparr>, m') \<and>
    index_rep hash cmp t' m' (L @ L') \<and> map snd L' = keyed es"
  using assms
proof (induction es arbitrary: mallocs s t L)
  case Nil
  then show ?case by (intro exI[of _ t] exI[of _ "snd s"] exI[of _ "[]"]) (cases s, simp)
next
  case (Cons x es)
  obtain e key where x: "x = (e, key)" by (cases x)
  obtain n h mallocs' where ml: "mallocs = (n, h) # mallocs'" using Cons.prems(5) by (cases mallocs) (auto simp: enough_def)
  have en: "enough mallocs' es" using Cons.prems(5) ml by (simp add: enough_def)
  show ?case
  proof (cases key)
    case None
    have "with_index (cull_hash_insert n h e None False) s = Some s"
      using Cons.prems(1) by (cases s) (simp add: with_index_def cull_hash_insert_def)
    then show ?thesis using Cons.IH[OF Cons.prems(1,2) _ _ en] Cons.prems x ml None by simp
  next
    case (Some k)
    have f: "n \<notin> dom (node_at (snd s))" "h \<notin> dom (header_at (snd s))" "e \<notin> fst ` snd ` set L"
      using Cons.prems(4,6) ml x by (auto simp: fresh_def)
    obtain t1 m1 where i: "cull_hash_insert n h e (Some k) False t (snd s) = Some (t1, m1)"
      "index_rep hash cmp t1 m1 (L @ [(n, e, k)])" "dom (header_at m1) \<subseteq> insert h (dom (header_at (snd s)))"
      using insert_index[OF Cons.prems(2) f] by blast
    let ?s = "((fst s)\<lparr>il_ht := Some t1\<rparr>, m1)"
    have "dom (node_at m1) = insert n (dom (node_at (snd s)))"
      using i(2) Cons.prems(2) by (auto simp: index_rep_def chains_ok_def)
    note dn = this
    have "\<forall>p \<in> set mallocs'. fresh (fst p) (snd p) ?s"
    proof
      fix p assume p: "p \<in> set mallocs'"
      then have "fst p \<noteq> n" "snd p \<noteq> h" "fresh (fst p) (snd p) s"
        using Cons.prems(5,6) ml by (auto simp: enough_def)
      then show "fresh (fst p) (snd p) ?s" using dn i(3) unfolding fresh_def by auto
    qed
    moreover have "fst ` set es \<inter> fst ` snd ` set (L @ [(n, e, k)]) = {}" using Cons.prems(3,4) x by auto
    moreover have "distinct (map fst es)" using Cons.prems(3) by simp
    moreover have "il_ht (fst ?s) = Some t1" "index_rep hash cmp t1 (snd ?s) (L @ [(n, e, k)])" using i(2) by simp_all
    ultimately obtain t' m' L' where "insert_all False mallocs' es ?s = Some ((fst ?s)\<lparr>il_ht := Some t'\<rparr>, m')"
      "index_rep hash cmp t' m' ((L @ [(n, e, k)]) @ L')" "map snd L' = keyed es"
      using Cons.IH[of ?s t1 "L @ [(n, e, k)]" mallocs'] en by blast
    then show ?thesis using i(1) Cons.prems(1) x ml Some
      by (intro exI[of _ t'] exI[of _ m'] exI[of _ "(n, e, k) # L'"]) (simp add: with_index_def)
  qed
qed

lemma insert_rel:
  assumes s: "il_ht (fst s) = Some t" "\<not> il_unique (fst s)" and r: "index_rep hash cmp t (snd s) L"
    and f: "fresh n h s" and e: "e \<notin> fst ` snd ` set L"
  shows "\<exists>t' m' L'. with_index (cull_hash_insert n h e key False) s = Some ((fst s)\<lparr>il_ht := Some t'\<rparr>, m') \<and>
    index_rep hash cmp t' m' (L @ L') \<and> map snd L' = keyed [(e, key)]"
  using insert_all_index[of s t L "[(e, key)]" "[(n, h)]"] s r f e
  by (cases "with_index (cull_hash_insert n h e key False) s") (auto simp: enough_def)


lemma not_indexed: "mset (keyed xs) = mset (map snd L) \<Longrightarrow> e \<notin> fst ` set xs \<Longrightarrow> e \<notin> fst ` snd ` set L"
proof -
  assume "mset (keyed xs) = mset (map snd L)" and e: "e \<notin> fst ` set xs"
  then have "snd ` set L = set (keyed xs)" by (metis mset_eq_setD list.set_map)
  moreover have "fst ` set (keyed xs) \<subseteq> fst ` set xs" by (force simp: in_keyed)
  ultimately show ?thesis using e by auto
qed

lemma insert_step:
  assumes r: "il_rel hash cmp ord s" and e: "fst x \<notin> fst ` set (il_elems (fst s))" and f: "fresh n h s"
    and xs: "mset xs = add_mset x (mset (il_elems (fst s)))"
    and ord: "ord' \<longrightarrow> ord \<and> xs = il_elems (fst s) @ [x]"
  shows "\<exists>s'. cull_hash_elem n h x ((fst s)\<lparr>il_elems := xs\<rparr>, snd s) = Some s' \<and> il_rel hash cmp ord' s'"
proof -
  obtain t L where t: "il_ht (fst s) = Some t" "\<not> il_unique (fst s)" "index_rep hash cmp t (snd s) L"
    and d: "distinct (map fst (il_elems (fst s)))" and m: "mset (keyed (il_elems (fst s))) = mset (map snd L)"
    and o: "ord \<Longrightarrow> keyed (il_elems (fst s)) = map snd L"
    using r unfolding il_rel_def by blast
  let ?s = "((fst s)\<lparr>il_elems := xs\<rparr>, snd s)"
  have "il_ht (fst ?s) = Some t" "\<not> il_unique (fst ?s)" "index_rep hash cmp t (snd ?s) L" "fresh n h ?s"
    using t f by (simp_all add: fresh_def)
  from insert_rel[OF this not_indexed[OF m e], of "snd x"] obtain t' m' L' where
    i: "with_index (cull_hash_insert n h (fst x) (snd x) False) ?s = Some ((fst ?s)\<lparr>il_ht := Some t'\<rparr>, m')"
    "index_rep hash cmp t' m' (L @ L')" "map snd L' = keyed [(fst x, snd x)]" by blast
  have mx: "mset xs = mset (il_elems (fst s) @ [x])" using xs by simp
  have "mset (map fst xs) = mset (map fst (il_elems (fst s) @ [x]))" using mx by (metis mset_map)
  then have "distinct (map fst xs)" using d e mset_eq_imp_distinct_iff by fastforce
  moreover have "mset (keyed xs) = mset (map snd (L @ L'))" using keyed_mset[OF mx] m i(3) by simp
  moreover have "ord' \<Longrightarrow> keyed xs = map snd (L @ L')" using ord o i(3) by simp
  ultimately have "il_rel hash cmp ord' ((fst ?s)\<lparr>il_ht := Some t'\<rparr>, m')"
    using i(2) t(2) unfolding il_rel_def by (intro exI[of _ t'] exI[of _ "L @ L'"]) simp
  then show ?thesis using i(1) t(2) by (simp add: cull_hash_elem_def)
qed

lemma remove_rel:
  assumes r: "il_rel hash cmp ord s" and e: "x \<in> set (il_elems (fst s))"
  shows "\<exists>t' m' L'. with_index (cull_hash_remove (fst x) (snd x) False) s = Some ((fst s)\<lparr>il_ht := Some t'\<rparr>, m') \<and>
    index_rep hash cmp t' m' L' \<and> mset (map snd L') = mset (filter (\<lambda>y. fst y \<noteq> fst x) (keyed (il_elems (fst s)))) \<and>
    (ord \<longrightarrow> map snd L' = filter (\<lambda>y. fst y \<noteq> fst x) (keyed (il_elems (fst s))))"
proof -
  obtain t L where t: "il_ht (fst s) = Some t" "\<not> il_unique (fst s)" "index_rep hash cmp t (snd s) L"
    and d: "distinct (map fst (il_elems (fst s)))" and m: "mset (keyed (il_elems (fst s))) = mset (map snd L)"
    and o: "ord \<Longrightarrow> keyed (il_elems (fst s)) = map snd L"
    using r unfolding il_rel_def by blast
  let ?f = "filter (\<lambda>y. fst y \<noteq> fst x)"
  have fw: "?f (map snd L) = map snd (without_elem (fst x) L)" by (simp add: without_elem_def filter_map comp_def)
  have mf: "mset (?f (map snd L)) = mset (?f (keyed (il_elems (fst s))))" using m by (metis mset_filter)
  show ?thesis
  proof (cases "snd x")
    case None
    have "(fst x, k) \<notin> set (keyed (il_elems (fst s)))" for k
    proof
      assume "(fst x, k) \<in> set (keyed (il_elems (fst s)))"
      then have "x = (fst x, Some k)"
        using d e inj_on_eq_iff[of fst "set (il_elems (fst s))" x "(fst x, Some k)"] by (simp add: in_keyed distinct_map)
      then have "snd x = Some k" by (metis snd_conv)
      then show False using None by simp
    qed
    then have i: "?f (keyed (il_elems (fst s))) = keyed (il_elems (fst s))"
      by (auto simp: filter_id_conv)
    have "with_index (cull_hash_remove (fst x) None False) s = Some ((fst s)\<lparr>il_ht := Some t\<rparr>, snd s)"
      using t(1) by (simp add: with_index_def cull_hash_remove_def)
    then show ?thesis using None t(3) m o unfolding i by (intro exI[of _ t] exI[of _ "snd s"] exI[of _ L]) simp
  next
    case (Some k)
    then have "(fst x, k) \<in> set (keyed (il_elems (fst s)))" using e by (simp add: in_keyed flip: Some)
    then have "(fst x, k) \<in> set (map snd L)" using m by (metis mset_eq_setD)
    then obtain n where "(n, fst x, k) \<in> set L" by auto
    from remove_index[OF t(3) this] obtain t' m' where
      i: "cull_hash_remove (fst x) (Some k) False t (snd s) = Some (t', m')"
      "index_rep hash cmp t' m' (without_elem (fst x) L)" by blast
    then show ?thesis using t(1) Some mf o fw
      by (intro exI[of _ t'] exI[of _ m'] exI[of _ "without_elem (fst x) L"]) (auto simp: with_index_def)
  qed
qed


lemma append_step:
  assumes "il_rel hash cmp ord s" "fst x \<notin> fst ` set (il_elems (fst s))" "fresh n h s"
  shows "\<exists>s'. il_lAppendElem n h x s = Some s' \<and> il_rel hash cmp ord s'"
  unfolding il_lAppendElem_def using insert_step[OF assms, of "il_elems (fst s) @ [x]" ord] by simp

lemma insert_elem_step:
  assumes "il_rel hash cmp ord s" "fst x \<notin> fst ` set (il_elems (fst s))" "fresh n h s"
  shows "\<exists>s'. il_lInsertElem n h i x s = Some s' \<and> il_rel hash cmp False s'"
proof -
  have "mset (take i xs) + mset (drop i xs) = mset xs" for xs :: "(addr \<times> 'k option) list"
    by (metis append_take_drop_id mset_append)
  then show ?thesis unfolding il_lInsertElem_def Let_def
    using insert_step[OF assms, of "take i (il_elems (fst s)) @ x # drop i (il_elems (fst s))" False] by simp
qed

lemma dechain_step:
  assumes r: "il_rel hash cmp ord s" and e: "x \<in> set (il_elems (fst s))"
  shows "\<exists>s'. il_lDechainElem x s = Some s' \<and> il_rel hash cmp ord s'"
proof -
  let ?xs = "filter (\<lambda>y. fst y \<noteq> fst x) (il_elems (fst s))"
  obtain t' m' L' where i: "with_index (cull_hash_remove (fst x) (snd x) False) s = Some ((fst s)\<lparr>il_ht := Some t'\<rparr>, m')"
    "index_rep hash cmp t' m' L'" "mset (map snd L') = mset (keyed ?xs)" "ord \<longrightarrow> map snd L' = keyed ?xs"
    using remove_rel[OF r e] by auto
  obtain t where t: "il_ht (fst s) = Some t" "\<not> il_unique (fst s)" and d: "distinct (map fst (il_elems (fst s)))"
    using r by (auto simp: il_rel_def)
  have "with_index (cull_hash_remove (fst x) (snd x) False) ((fst s)\<lparr>il_elems := ?xs\<rparr>, snd s) =
      Some ((fst s)\<lparr>il_elems := ?xs, il_ht := Some t'\<rparr>, m')"
    using i(1) t(1) by (cases "cull_hash_remove (fst x) (snd x) False t (snd s)") (auto simp: with_index_def dest: arg_cong[of _ _ il_ht])
  moreover have "il_rel hash cmp ord ((fst s)\<lparr>il_elems := ?xs, il_ht := Some t'\<rparr>, m')"
    using i t(2) d unfolding il_rel_def
    by (intro exI[of _ t'] exI[of _ L']) (auto simp del: keyed_filter simp: distinct_map_filter)
  ultimately show ?thesis using t(2) by (simp add: il_lDechainElem_def)
qed

lemma set_step:
  assumes r: "il_rel hash cmp ord s" and e: "x \<in> set (il_elems (fst s))"
    and f: "\<forall>s1. with_index (cull_hash_remove (fst x) (snd x) False) s = Some s1 \<longrightarrow> fresh n h s1"
  shows "\<exists>s'. il_lSetString n h x v s = Some s' \<and> il_rel hash cmp False s'"
proof (cases "v = snd x")
  case True
  then show ?thesis using r by (auto simp: il_lSetString_def il_rel_def)
next
  case False
  let ?es = "il_elems (fst s)"
  let ?xs = "map (\<lambda>y. if fst y = fst x then (fst x, v) else y) ?es"
  obtain t' m' L' where i: "with_index (cull_hash_remove (fst x) (snd x) False) s = Some ((fst s)\<lparr>il_ht := Some t'\<rparr>, m')"
    and L': "index_rep hash cmp t' m' L'" "mset (map snd L') = mset (filter (\<lambda>y. fst y \<noteq> fst x) (keyed ?es))"
    using remove_rel[OF r e] by blast
  obtain t where t: "il_ht (fst s) = Some t" "\<not> il_unique (fst s)" and d: "distinct (map fst ?es)"
    using r by (auto simp: il_rel_def)
  let ?s = "((fst s)\<lparr>il_ht := Some t', il_elems := ?xs\<rparr>, m')"
  have fr: "fresh n h ?s" using f i by (auto simp: fresh_def)
  have "set (map snd L') = set (filter (\<lambda>y. fst y \<noteq> fst x) (keyed ?es))" using L'(2) by (rule mset_eq_setD)
  then have nl: "fst x \<notin> fst ` snd ` set L'" by auto
  obtain t2 m2 L2 where j: "with_index (cull_hash_insert n h (fst x) v False) ?s = Some ((fst ?s)\<lparr>il_ht := Some t2\<rparr>, m2)"
    "index_rep hash cmp t2 m2 (L' @ L2)" "map snd L2 = keyed [(fst x, v)]"
    using insert_rel[of ?s t' L' n h "fst x" v] t(2) L'(1) fr nl by auto
  obtain us vs where u: "?es = us @ x # vs" using e by (metis split_list)
  have "fst x \<notin> fst ` (set us \<union> set vs)" using d u by auto
  then have nx: "fst y \<noteq> fst x" if "y \<in> set us \<union> set vs" for y using that by (metis image_eqI)
  then have "?xs = us @ (fst x, v) # vs" using u by (simp add: map_idI)
  moreover have "filter (\<lambda>y. fst y \<noteq> fst x) ?es = us @ vs" using u nx by (auto simp: filter_id_conv)
  ultimately have mk: "mset (keyed ?xs) = mset (keyed (filter (\<lambda>y. fst y \<noteq> fst x) ?es)) + mset (keyed [(fst x, v)])"
    using keyed_append[of us "(fst x, v) # vs"] keyed_append[of us vs] keyed_append[of "[(fst x, v)]" vs]
    by (simp del: keyed_filter keyed_append)
  have "map fst ?xs = map fst ?es" by (simp add: comp_def if_distrib cong: map_cong)
  then have dx: "distinct (map fst ?xs)" using d by (simp only:)
  have "il_rel hash cmp False ((fst ?s)\<lparr>il_ht := Some t2\<rparr>, m2)"
    using j t(2) dx L'(2) mk unfolding il_rel_def
    by (intro exI[of _ t2] exI[of _ "L' @ L2"]) (simp del: map_map)
  then show ?thesis using i j(1) t(2) False by (simp add: il_lSetString_def Let_def)
qed

lemma sort_step:
  assumes r: "il_rel hash cmp ord s" and p: "mset (order (il_elems (fst s))) = mset (il_elems (fst s))"
    and en: "enough mallocs (il_elems (fst s))"
  shows "\<exists>s'. il_lSortList hash cmp mallocs order s = Some s' \<and> il_rel hash cmp True s'"
proof -
  let ?es = "il_elems (fst s)" let ?xs = "order ?es"
  obtain t L where t: "il_ht (fst s) = Some t" "\<not> il_unique (fst s)" and L: "index_rep hash cmp t (snd s) L"
    and d: "distinct (map fst ?es)" and m: "mset (keyed ?es) = mset (map snd L)"
    using r unfolding il_rel_def by blast
  show ?thesis
  proof (cases "length ?es < 2")
    case True
    then have "keyed ?es = map snd L"
    proof (cases ?es rule: keyed.cases)
      case (3 e k ys)
      then have "ys = []" using True by (cases ys) auto
      then have "mset (map snd L) = {#(e, k)#}" using 3 m by simp
      then have "map snd L = [(e, k)]" by (simp only: mset_single_iff)
      then show ?thesis using 3 \<open>ys = []\<close> by simp
    qed (use True m in \<open>auto simp: length_Suc_conv neq_Nil_conv\<close>)
    then show ?thesis using True t L d by (auto simp: il_lSortList_def il_rel_def)
  next
    case False
    let ?t = "cull_hash_create hash cmp False (hash_compute_size (int (length ?xs)))"
    let ?s = "((fst s)\<lparr>il_elems := ?xs, il_ht := Some ?t\<rparr>, \<lparr>header_at = Map.empty, node_at = Map.empty\<rparr>)"
    have "mset (map fst ?xs) = mset (map fst ?es)" using p by (metis mset_map)
    then have dx: "distinct (map fst ?xs)" using d mset_eq_imp_distinct_iff by blast
    have "length ?xs = length ?es" using p by (metis size_mset)
    then have enx: "enough mallocs ?xs" using en by (simp add: enough_def)
    have "index_rep hash cmp ?t (snd ?s) []" using index_rep_new[of hash cmp] by simp
    from insert_all_index[of ?s ?t "[]" ?xs mallocs] this dx enx
    obtain t' m' L' where i: "insert_all False mallocs ?xs ?s = Some ((fst ?s)\<lparr>il_ht := Some t'\<rparr>, m')"
      "index_rep hash cmp t' m' L'" "map snd L' = keyed ?xs"
      by (auto simp: fresh_def)
    have "il_lSortList hash cmp mallocs order s = Some ((fst ?s)\<lparr>il_ht := Some t'\<rparr>, m')"
      using False t i(1) free_index[OF L]
      by (simp add: il_lSortList_def cull_hash_recreate_after_sort_def Let_def)
    moreover have "il_rel hash cmp True ((fst ?s)\<lparr>il_ht := Some t'\<rparr>, m')"
      using i t(2) dx unfolding il_rel_def by (intro exI[of _ t'] exI[of _ L']) simp
    ultimately show ?thesis by blast
  qed
qed

lemma create_step:
  assumes d: "distinct (map fst es)" and en: "enough mallocs es"
  shows "\<exists>s'. cull_hash_create_hashtables hash cmp mallocs
      (\<lparr>il_elems = es, il_ht = None, il_unique = False\<rparr>, \<lparr>header_at = Map.empty, node_at = Map.empty\<rparr>) = Some s' \<and>
    il_rel hash cmp True s'"
proof -
  let ?t = "cull_hash_create hash cmp False (hash_compute_size (int (length es)))"
  let ?s = "(\<lparr>il_elems = es, il_ht = Some ?t, il_unique = False\<rparr>, \<lparr>header_at = Map.empty, node_at = Map.empty\<rparr>)"
  have "index_rep hash cmp ?t (snd ?s) []" using index_rep_new[of hash cmp] by simp
  from insert_all_index[of ?s ?t "[]" es mallocs] this d en
  obtain t' m' L' where i: "insert_all False mallocs es ?s = Some ((fst ?s)\<lparr>il_ht := Some t'\<rparr>, m')"
    "index_rep hash cmp t' m' L'" "map snd L' = keyed es"
    by (auto simp: fresh_def)
  then have "il_rel hash cmp True ((fst ?s)\<lparr>il_ht := Some t'\<rparr>, m')"
    using d unfolding il_rel_def by (intro exI[of _ t'] exI[of _ L']) simp
  then show ?thesis using i(1) by (simp add: cull_hash_create_hashtables_def Let_def)
qed

end


text \<open>
  The states that lists with an index get into. The flag tells that nothing has been inserted in the middle,
  and no value changed, since the list was sorted or created.
\<close>

inductive il_reach :: "('k \<Rightarrow> int) \<Rightarrow> ('k \<Rightarrow> 'k \<Rightarrow> int) \<Rightarrow> bool \<Rightarrow> 'k il_state \<Rightarrow> bool" for hash cmp where
  reach_new:
    "il_reach hash cmp True (\<lparr>il_elems = [], il_ht = Some (cull_hash_create hash cmp False 0), il_unique = False\<rparr>,
       \<lparr>header_at = Map.empty, node_at = Map.empty\<rparr>)"
| reach_create:
    "distinct (map fst es) \<Longrightarrow> enough mallocs es \<Longrightarrow>
     cull_hash_create_hashtables hash cmp mallocs
       (\<lparr>il_elems = es, il_ht = None, il_unique = False\<rparr>, \<lparr>header_at = Map.empty, node_at = Map.empty\<rparr>) = Some s \<Longrightarrow>
     il_reach hash cmp True s"
| reach_append:
    "il_reach hash cmp ord s \<Longrightarrow> fst x \<notin> fst ` set (il_elems (fst s)) \<Longrightarrow> fresh n h s \<Longrightarrow>
     il_lAppendElem n h x s = Some s' \<Longrightarrow> il_reach hash cmp ord s'"
| reach_insert:
    "il_reach hash cmp ord s \<Longrightarrow> fst x \<notin> fst ` set (il_elems (fst s)) \<Longrightarrow> fresh n h s \<Longrightarrow>
     il_lInsertElem n h i x s = Some s' \<Longrightarrow> il_reach hash cmp False s'"
| reach_dechain:
    "il_reach hash cmp ord s \<Longrightarrow> x \<in> set (il_elems (fst s)) \<Longrightarrow> il_lDechainElem x s = Some s' \<Longrightarrow>
     il_reach hash cmp ord s'"
| reach_set:
    "il_reach hash cmp ord s \<Longrightarrow> x \<in> set (il_elems (fst s)) \<Longrightarrow>
     (\<forall>s1. with_index (cull_hash_remove (fst x) (snd x) False) s = Some s1 \<longrightarrow> fresh n h s1) \<Longrightarrow>
     il_lSetString n h x v s = Some s' \<Longrightarrow> il_reach hash cmp False s'"
| reach_sort:
    "il_reach hash cmp ord s \<Longrightarrow> mset (order (il_elems (fst s))) = mset (il_elems (fst s)) \<Longrightarrow>
     enough mallocs (il_elems (fst s)) \<Longrightarrow> il_lSortList hash cmp mallocs order s = Some s' \<Longrightarrow>
     il_reach hash cmp True s'"

lemma new_rel:
  "il_rel hash cmp True (\<lparr>il_elems = [], il_ht = Some (cull_hash_create hash cmp False 0), il_unique = False\<rparr>,
     \<lparr>header_at = Map.empty, node_at = Map.empty\<rparr>)"
  using index_rep_new[of hash cmp 0] unfolding il_rel_def
  by (intro exI[of _ "cull_hash_create hash cmp False 0"] exI[of _ "[]"]) simp

context hash_key begin

lemma reach_rel: "il_reach hash cmp ord s \<Longrightarrow> il_rel hash cmp ord s"
proof (induction rule: il_reach.induct)
  case reach_new
  show ?case by (rule new_rel)
next
  case (reach_create es mallocs s)
  then show ?case using create_step[of es mallocs] by auto
next
  case (reach_append ord s x n h s')
  then show ?case using append_step[of ord s x n h] by auto
next
  case (reach_insert ord s x n h i s')
  then show ?case using insert_elem_step[of ord s x n h i] by auto
next
  case (reach_dechain ord s x s')
  then show ?case using dechain_step[of ord s x] by auto
next
  case (reach_set ord s x n h v s')
  from set_step[OF reach_set.IH reach_set.hyps(2,3), of v] reach_set.hyps(4) show ?case by auto
next
  case (reach_sort ord s order mallocs s')
  then show ?case using sort_step[of ord s order mallocs] by auto
qed

lemma rel_search:
  assumes "il_rel hash cmp ord s"
  shows "\<exists>es. get_all k s = Some es \<and> mset es = mset (having k (il_elems (fst s))) \<and>
    (ord \<longrightarrow> es = having k (il_elems (fst s)))"
proof -
  obtain t L where t: "il_ht (fst s) = Some t" "\<not> il_unique (fst s)" "index_rep hash cmp t (snd s) L"
    and m: "mset (keyed (il_elems (fst s))) = mset (map snd L)" and o: "ord \<Longrightarrow> keyed (il_elems (fst s)) = map snd L"
    using assms unfolding il_rel_def by blast
  have "mset (map fst (filter (\<lambda>x. snd x = k) (keyed (il_elems (fst s))))) = mset (map fst (filter (\<lambda>x. snd x = k) (map snd L)))"
    unfolding mset_map[of fst] mset_filter m ..
  then show ?thesis using get_all_index[OF t] o by (auto simp: having_keyed chain_keyed)
qed

end


section \<open>Properties\<close>

definition without_index :: "'k il_state \<Rightarrow> 'k il_state" where
  "without_index s = ((fst s)\<lparr>il_ht := None\<rparr>, snd s)"

lemma search_without_index:
  "distinct (map fst (il_elems (fst s))) \<Longrightarrow> get_all k (without_index s) = Some (having k (il_elems (fst s)))"
  using get_all_list[of "without_index s" k] by (simp add: without_index_def)


definition two_elements :: "(addr \<times> string option) list" where
  "two_elements = [(16, Some ''b''), (32, Some ''a''), (48, None), (64, Some ''a'')]"

definition four_mallocs :: "(addr \<times> addr) list" where
  "four_mallocs = [(100, 101), (102, 103), (104, 105), (106, 107)]"

lemma two_elements_reached:
  obtains s where "il_reach (hash_func_string \<circ> Some) hash_compare_string True s" "il_elems (fst s) = two_elements"
proof -
  let ?s = "cull_hash_create_hashtables (hash_func_string \<circ> Some) hash_compare_string four_mallocs
      (\<lparr>il_elems = two_elements, il_ht = None, il_unique = False\<rparr>, \<lparr>header_at = Map.empty, node_at = Map.empty\<rparr>)"
  have e: "enough four_mallocs two_elements" "distinct (map fst two_elements)" by code_simp+
  have "map_option (il_elems \<circ> fst) ?s = Some two_elements" by code_simp
  then obtain s where "?s = Some s" "il_elems (fst s) = two_elements" by auto
  then show thesis using that reach_create[OF e(2,1)] by blast
qed




end
