(* ===== verification/Host_List.thy ===== *)
theory Host_List
  imports Hash_Facts
begin

text \<open>
  CULL lists whose key is a host name with a unique index: \<^verbatim>\<open>HR_Type\<close>, references to hosts and host groups,
  and \<^verbatim>\<open>HGRP_Type\<close>, host groups. What the functions of \<^verbatim>\<open>source/libs/cull/cull_list.c\<close>,
  \<^verbatim>\<open>cull_multitype.c\<close> and \<^verbatim>\<open>cull_hash.c\<close> do with them. An element is known by the number of elements
  that were put into its list before it; the settings of \<open>sge_hostcmp\<close> are an argument.
\<close>

section \<open>Keys\<close>

definition toupper :: "char \<Rightarrow> char" where
  "toupper c = (let n = (of_char c :: nat) in if 97 \<le> n \<and> n \<le> 122 then char_of (n - 32) else c)"

definition sge_strtoupper :: "string \<Rightarrow> nat \<Rightarrow> string" where
  "sge_strtoupper buffer max_len = map toupper (take max_len buffer) @ drop max_len buffer"

definition cull_hash_key :: "bootstrap \<Rightarrow> string \<Rightarrow> string" where
  "cull_hash_key conf host = sge_strtoupper (sge_hostcpy conf host) (CL_MAXHOSTLEN conf)"

section \<open>Lists\<close>

record 'a host_list =
  hl_elems :: "(nat \<times> string \<times> 'a) list"
  hl_ht :: "(string, nat) htable_rec option"
  hl_next :: nat

abbreviation (input) string_htable :: "nat \<Rightarrow> (string, nat) htable_rec" where
  "string_htable n \<equiv> sge_htable_create n (hash_func_string \<circ> Some) hash_compare_string"

definition lCreateList :: "'a host_list" where
  "lCreateList = \<lparr>hl_elems = [], hl_ht = Some (string_htable 4), hl_next = 0\<rparr>"

definition hl_names :: "'a host_list \<Rightarrow> string list" where
  "hl_names l = map (fst \<circ> snd) (hl_elems l)"

definition hl_get :: "nat \<Rightarrow> 'a host_list \<Rightarrow> (nat \<times> string \<times> 'a) option" where
  "hl_get i l = find (\<lambda>e. fst e = i) (hl_elems l)"

definition index_store :: "bootstrap \<Rightarrow> string \<Rightarrow> nat \<Rightarrow> 'a host_list \<Rightarrow> 'a host_list" where
  "index_store conf name i l = l\<lparr>hl_ht := map_option (\<lambda>t. sge_htable_store t (cull_hash_key conf name) i) (hl_ht l)\<rparr>"

definition index_delete :: "bootstrap \<Rightarrow> string \<Rightarrow> 'a host_list \<Rightarrow> 'a host_list" where
  "index_delete conf name l = l\<lparr>hl_ht := map_option (\<lambda>t. sge_htable_delete t (cull_hash_key conf name)) (hl_ht l)\<rparr>"

definition hl_lAppendElem :: "bootstrap \<Rightarrow> string \<Rightarrow> 'a \<Rightarrow> 'a host_list \<Rightarrow> 'a host_list" where
  "hl_lAppendElem conf name r l =
     (let i = hl_next l in
      index_store conf name i (l\<lparr>hl_elems := hl_elems l @ [(i, name, r)], hl_next := Suc i\<rparr>))"

text \<open>Taking an element out deletes its key from the index; \<open>lRemoveElem\<close> frees the element besides.\<close>

definition hl_lDechainElem :: "bootstrap \<Rightarrow> nat \<Rightarrow> 'a host_list \<Rightarrow> 'a host_list" where
  "hl_lDechainElem conf i l =
     (case hl_get i l of
        None \<Rightarrow> l
      | Some (_, name, _) \<Rightarrow> index_delete conf name (l\<lparr>hl_elems := filter (\<lambda>e. fst e \<noteq> i) (hl_elems l)\<rparr>))"

definition hl_lRemoveElem :: "bootstrap \<Rightarrow> nat \<Rightarrow> 'a host_list \<Rightarrow> 'a host_list" where
  "hl_lRemoveElem conf i l =
     (case hl_get i l of
        None \<Rightarrow> l
      | Some (_, name, _) \<Rightarrow> index_delete conf name (l\<lparr>hl_elems := filter (\<lambda>e. fst e \<noteq> i) (hl_elems l)\<rparr>))"

definition hl_lSetHost :: "bootstrap \<Rightarrow> nat \<Rightarrow> string \<Rightarrow> 'a host_list \<Rightarrow> 'a host_list" where
  "hl_lSetHost conf i val l =
     (case hl_get i l of
        None \<Rightarrow> l
      | Some (_, name, _) \<Rightarrow>
          if strcmp val name = 0 then l
          else (let l1 = index_delete conf name l;
                    l2 = l1\<lparr>hl_elems := map (\<lambda>e. if fst e = i then (i, val, snd (snd e)) else e) (hl_elems l1)\<rparr>
                in index_store conf val i l2))"

definition lAddElemHost :: "bootstrap \<Rightarrow> 'a host_list option \<Rightarrow> string \<Rightarrow> 'a \<Rightarrow> 'a host_list" where
  "lAddElemHost conf lpp str r =
     hl_lAppendElem conf str r (case lpp of None \<Rightarrow> lCreateList | Some l \<Rightarrow> l)"

definition lGetElemHostFirst :: "bootstrap \<Rightarrow> 'a host_list option \<Rightarrow> string option \<Rightarrow> nat option" where
  "lGetElemHostFirst conf lp str =
     (case (lp, str) of
        (Some l, Some s) \<Rightarrow>
          (case hl_ht l of
             Some t \<Rightarrow> sge_htable_lookup t (cull_hash_key conf s)
           | None \<Rightarrow>
               map_option fst (find (\<lambda>e. strcasecmp (sge_hostcpy conf (fst (snd e))) (sge_hostcpy conf s) = 0) (hl_elems l)))
      | _ \<Rightarrow> None)"

definition lGetElemHost :: "bootstrap \<Rightarrow> 'a host_list option \<Rightarrow> string option \<Rightarrow> nat option" where
  "lGetElemHost conf lp str = lGetElemHostFirst conf lp str"

text \<open>The elements of the second list go to the end of the first, one after the other.\<close>

definition hl_lAddList :: "bootstrap \<Rightarrow> 'a host_list \<Rightarrow> 'a host_list \<Rightarrow> 'a host_list" where
  "hl_lAddList conf lp0 lp1 = fold (\<lambda>e. hl_lAppendElem conf (fst (snd e)) (snd (snd e))) (hl_elems lp1) lp0"

definition hl_lCopyList :: "bootstrap \<Rightarrow> 'a host_list option \<Rightarrow> 'a host_list option" where
  "hl_lCopyList conf src =
     map_option (\<lambda>l. fold (\<lambda>e. hl_lAppendElem conf (fst (snd e)) (snd (snd e))) (hl_elems l)
        \<lparr>hl_elems = [], hl_ht = Some (string_htable (hash_compute_size (int (length (hl_elems l))))), hl_next = 0\<rparr>) src"

section \<open>What the index knows\<close>

lemma of_char_toupper: "(of_char (toupper c) :: nat) = (if 97 \<le> (of_char c :: nat) \<and> (of_char c :: nat) \<le> 122 then of_char c - 32 else of_char c)"
  by (auto simp: toupper_def Let_def intro!: mod_less)

lemma of_char_tolower: "(of_char (tolower c) :: nat) = (if 65 \<le> (of_char c :: nat) \<and> (of_char c :: nat) \<le> 90 then of_char c + 32 else of_char c)"
  by (auto simp: tolower_def Let_def intro!: mod_less)

lemma case_numbers:
  "(if 97 \<le> n \<and> n \<le> 122 then n - 32 else n) = (if 97 \<le> m \<and> m \<le> 122 then m - 32 else m) \<longleftrightarrow>
   (if 65 \<le> n \<and> n \<le> 90 then n + 32 else n) = (if 65 \<le> m \<and> m \<le> 90 then m + 32 else (m :: nat))"
  by auto

lemma upper_lower: "toupper a = toupper b \<longleftrightarrow> tolower a = tolower b"
proof -
  have i: "c = d \<longleftrightarrow> (of_char c :: nat) = of_char d" for c d :: char by simp
  show ?thesis unfolding i[of "toupper a"] i[of "tolower a"] of_char_toupper of_char_tolower
    by (rule case_numbers)
qed

lemma upper_lower_map: "map toupper a = map toupper b \<longleftrightarrow> map tolower a = map tolower b"
proof -
  have "length a = length b \<Longrightarrow> ?thesis" by (induction rule: list_induct2) (simp_all add: upper_lower)
  then show ?thesis using map_eq_imp_length_eq by blast
qed

lemma key_map: "cull_hash_key conf a = map toupper (sge_hostcpy conf a)"
proof -
  have "length (sge_hostcpy conf a) \<le> CL_MAXHOSTLEN conf"
    by (auto simp: sge_hostcpy_def sge_strlcpy_def split: option.splits intro: order_trans[OF length_takeWhile_le])
  then show ?thesis by (simp add: cull_hash_key_def sge_strtoupper_def)
qed

text \<open>The key of the index tells names apart as \<open>sge_hostcmp\<close> does.\<close>

lemma key_hostcmp:
  "cull_hash_key conf a = cull_hash_key conf b \<longleftrightarrow> strcasecmp (sge_hostcpy conf a) (sge_hostcpy conf b) = 0"
  by (simp add: key_map strcasecmp_def upper_lower_map)

lemma toupper_at: "toupper c = CHR ''@'' \<longleftrightarrow> c = CHR ''@''"
proof -
  have i: "c = d \<longleftrightarrow> (of_char c :: nat) = of_char d" for c d :: char by simp
  have "(if 97 \<le> n \<and> n \<le> 122 then n - 32 else n) = 64 \<longleftrightarrow> n = (64 :: nat)" for n by auto
  then show ?thesis unfolding i[of "toupper c"] i[of c] of_char_toupper by simp
qed

text \<open>Only names of host groups have a key that begins like one.\<close>

lemma group_key:
  assumes "CL_MAXHOSTLEN conf > 1"
  shows "is_hgroup_name a \<longleftrightarrow> is_hgroup_name (cull_hash_key conf a)"
proof (cases a)
  case Nil
  then show ?thesis
    by (cases "CL_MAXHOSTLEN conf - 1")
      (auto simp: key_map is_hgroup_name_def sge_hostcpy_def sge_strlcpy_def toupper_def split: option.splits)
next
  case (Cons c r)
  obtain k where "CL_MAXHOSTLEN conf - 1 = Suc k" using assms by (cases "CL_MAXHOSTLEN conf - 1") auto
  then show ?thesis using Cons
    by (auto simp: key_map is_hgroup_name_def sge_hostcpy_def sge_strlcpy_def toupper_at split: option.splits)
qed

end
