(* ===== verification/Host_Groups.thy ===== *)
theory Host_Groups
  imports Host_List Eval_Expr
begin

text \<open>
  References to hosts and host groups, \<^verbatim>\<open>source/libs/sgeobj/sge_href.c\<close>, and host groups,
  \<^verbatim>\<open>source/libs/sgeobj/sge_hgroup.c\<close>. A list that was never created is \<open>None\<close>; of a pointer to a list,
  which the caller may leave null, \<open>None\<close> is the null pointer. Memory is always found. Texts for the user
  are left out, the result tells whether there is an error.
\<close>

section \<open>Lists of references\<close>

type_synonym hr_list = "unit host_list"
type_synonym hgrp_list = "hr_list option host_list"
type_synonym hr_ptr = "hr_list option option"

definition names_of :: "'a host_list option \<Rightarrow> string list" where
  "names_of l = (case l of None \<Rightarrow> [] | Some l \<Rightarrow> hl_names l)"

definition href_list_locate :: "bootstrap \<Rightarrow> hr_list option \<Rightarrow> string option \<Rightarrow> nat option" where
  "href_list_locate conf this name = (if this \<noteq> None \<and> name \<noteq> None then lGetElemHost conf this name else None)"

definition href_list_has_member :: "bootstrap \<Rightarrow> hr_list option \<Rightarrow> string option \<Rightarrow> bool" where
  "href_list_has_member conf this host_or_group \<longleftrightarrow>
     this \<noteq> None \<and> host_or_group \<noteq> None \<and> href_list_locate conf this host_or_group \<noteq> None"

definition href_list_add :: "bootstrap \<Rightarrow> hr_ptr \<Rightarrow> string option \<Rightarrow> bool \<times> hr_ptr" where
  "href_list_add conf this host_or_group =
     (case (this, host_or_group) of
        (Some l, Some n) \<Rightarrow>
          (True, Some (if \<not> href_list_has_member conf l (Some n) then Some (lAddElemHost conf l n ()) else l))
      | _ \<Rightarrow> (False, this))"

record compare_result =
  cr_ret :: bool
  add_hosts :: hr_ptr
  add_groups :: hr_ptr
  equity_hosts :: hr_ptr
  equity_groups :: hr_ptr

definition compare_one :: "bootstrap \<Rightarrow> hr_list option \<Rightarrow> string \<Rightarrow> compare_result \<Rightarrow> compare_result" where
  "compare_one conf lst n c =
     (if \<not> href_list_has_member conf lst (Some n)
      then (if is_hgroup_name n
            then (if add_groups c \<noteq> None
                  then (let (r, p) = href_list_add conf (add_groups c) (Some n) in c\<lparr>cr_ret := r, add_groups := p\<rparr>) else c)
            else if add_hosts c \<noteq> None
                 then (let (r, p) = href_list_add conf (add_hosts c) (Some n) in c\<lparr>cr_ret := r, add_hosts := p\<rparr>) else c)
      else (if is_hgroup_name n
            then (if equity_groups c \<noteq> None
                  then (let (r, p) = href_list_add conf (equity_groups c) (Some n) in c\<lparr>cr_ret := r, equity_groups := p\<rparr>) else c)
            else if equity_hosts c \<noteq> None
                 then (let (r, p) = href_list_add conf (equity_hosts c) (Some n) in c\<lparr>cr_ret := r, equity_hosts := p\<rparr>) else c))"

fun compare_loop :: "bootstrap \<Rightarrow> hr_list option \<Rightarrow> string list \<Rightarrow> compare_result \<Rightarrow> compare_result" where
  "compare_loop conf lst [] c = c"
| "compare_loop conf lst (n # ns) c =
     (let c1 = compare_one conf lst n c in if \<not> cr_ret c1 then c1 else compare_loop conf lst ns c1)"

definition href_list_compare ::
  "bootstrap \<Rightarrow> hr_list option \<Rightarrow> hr_list option \<Rightarrow> hr_ptr \<Rightarrow> hr_ptr \<Rightarrow> hr_ptr \<Rightarrow> hr_ptr \<Rightarrow> compare_result" where
  "href_list_compare conf this lst ah ag eh eg =
     compare_loop conf lst (names_of this)
       \<lparr>cr_ret = True, add_hosts = ah, add_groups = ag, equity_hosts = eh, equity_groups = eg\<rparr>"

text \<open>The results: whether all went well, hosts added and removed, groups added and removed.\<close>

definition href_list_find_diff ::
  "bootstrap \<Rightarrow> hr_list option \<Rightarrow> hr_list option \<Rightarrow> hr_ptr \<Rightarrow> hr_ptr \<Rightarrow> hr_ptr \<Rightarrow> hr_ptr \<Rightarrow>
    bool \<times> hr_ptr \<times> hr_ptr \<times> hr_ptr \<times> hr_ptr" where
  "href_list_find_diff conf this lst ah rh ag rg =
     (let c1 = href_list_compare conf this lst ah ag None None;
          c2 = href_list_compare conf lst this rh rg None None
      in (cr_ret c1 \<and> cr_ret c2, add_hosts c1, add_hosts c2, add_groups c1, add_groups c2))"

section \<open>Following references\<close>

definition hgroup_list_locate :: "bootstrap \<Rightarrow> hgrp_list option \<Rightarrow> string \<Rightarrow> nat option" where
  "hgroup_list_locate conf this name = lGetElemHost conf this (Some name)"

text \<open>The list of hosts of the group found, that is read from the element.\<close>

definition host_list_of :: "hgrp_list \<Rightarrow> nat \<Rightarrow> hr_list option" where
  "host_list_of master i = (case hl_get i master of Some (_, _, hrefs) \<Rightarrow> hrefs | None \<Rightarrow> None)"

definition add_if_wanted :: "bootstrap \<Rightarrow> hr_ptr \<Rightarrow> string \<Rightarrow> hr_ptr" where
  "add_if_wanted conf p name = (if p \<noteq> None then snd (href_list_add conf p (Some name)) else p)"

definition use_name :: "bootstrap \<Rightarrow> string \<Rightarrow> hr_ptr \<times> hr_ptr \<Rightarrow> hr_ptr \<times> hr_ptr" where
  "use_name conf name2 u =
     (if is_hgroup_name name2 then (fst u, add_if_wanted conf (snd u) name2)
      else (add_if_wanted conf (fst u) name2, snd u))"

definition references_one :: "bootstrap \<Rightarrow> hgrp_list \<Rightarrow> string \<Rightarrow> hr_ptr \<times> hr_ptr \<Rightarrow> hr_ptr \<times> hr_ptr" where
  "references_one conf master name u =
     (if is_hgroup_name name
      then (case hgroup_list_locate conf (Some master) name of
              Some i \<Rightarrow> fold (use_name conf) (names_of (host_list_of master i)) u
            | None \<Rightarrow> u)
      else (add_if_wanted conf (fst u) name, snd u))"

definition href_list_find_references ::
  "bootstrap \<Rightarrow> hr_list option \<Rightarrow> hgrp_list option \<Rightarrow> hr_ptr \<Rightarrow> hr_ptr \<Rightarrow> bool \<times> hr_ptr \<times> hr_ptr" where
  "href_list_find_references conf this master used_hosts used_groups =
     (case (this, master) of
        (Some l, Some m) \<Rightarrow> (True, fold (references_one conf m) (hl_names l) (used_hosts, used_groups))
      | _ \<Rightarrow> (True, used_hosts, used_groups))"

text \<open>The list found below is put behind what is there; its pointer is never null.\<close>

definition merge_lists :: "bootstrap \<Rightarrow> hr_ptr \<Rightarrow> hr_ptr \<Rightarrow> hr_ptr" where
  "merge_lists conf used sub =
     (case (used, sub) of
        (Some (Some l), Some (Some l')) \<Rightarrow> Some (Some (hl_lAddList conf l l'))
      | (Some None, Some (Some l')) \<Rightarrow> Some (Some l')
      | _ \<Rightarrow> used)"

text \<open>The recursion ends only where the groups have no subgroups any more.\<close>

partial_function (option) href_list_find_all_references ::
  "bootstrap \<Rightarrow> hr_list option \<Rightarrow> hgrp_list option \<Rightarrow> hr_ptr \<Rightarrow> hr_ptr \<Rightarrow> (bool \<times> hr_ptr \<times> hr_ptr) option" where
  "href_list_find_all_references conf this master used_hosts used_groups =
     (if this \<noteq> None \<and> master \<noteq> None
      then (let tmp = (if used_groups = None then Some None else used_groups);
                (ret, uh, ug) = href_list_find_references conf this master used_hosts tmp
            in case ug of
                 Some (Some l) \<Rightarrow>
                   if ret
                   then do {
                     (ret2, suh, sug) \<leftarrow> href_list_find_all_references conf (Some l) master (Some None) (Some None);
                     Some (if ret2
                           then (True, merge_lists conf uh suh, if used_groups = None then None else merge_lists conf ug sug)
                           else (False, uh, if used_groups = None then None else ug)) }
                   else Some (ret, uh, if used_groups = None then None else ug)
               | _ \<Rightarrow> Some (ret, uh, if used_groups = None then None else ug))
      else Some (True, used_hosts, used_groups))"

definition href_list_find_effective_diff ::
  "bootstrap \<Rightarrow> hr_list option \<Rightarrow> hr_list option \<Rightarrow> hgrp_list option \<Rightarrow> hr_ptr \<Rightarrow> hr_ptr \<Rightarrow>
    (bool \<times> hr_ptr \<times> hr_ptr) option" where
  "href_list_find_effective_diff conf ag rg master ah rh = do {
     (ret, ah1) \<leftarrow> (if ag \<noteq> None
                    then map_option (\<lambda>(r, uh, _). (r, uh)) (href_list_find_all_references conf ag master ah None)
                    else Some (True, ah));
     (ret, rh1) \<leftarrow> (if ret \<and> rg \<noteq> None
                    then map_option (\<lambda>(r, uh, _). (r, uh)) (href_list_find_all_references conf rg master rh None)
                    else Some (ret, rh));
     Some (case (ah1, rh1) of
             (Some (Some a), Some (Some b)) \<Rightarrow>
               if ret
               then (let (ret2, ta, tr, _, _) = href_list_find_diff conf (Some a) (Some b) (Some None) (Some None) None None
                     in if ret2 then (True, ta, tr) else (False, ah1, rh1))
               else (ret, ah1, rh1)
           | _ \<Rightarrow> (ret, ah1, rh1)) }"

definition occupants_of :: "bootstrap \<Rightarrow> hgrp_list option \<Rightarrow> string \<Rightarrow> hr_ptr \<Rightarrow> hr_ptr" where
  "occupants_of conf master name p =
     fold (\<lambda>(_, hgroup, hrefs) p.
         if href_list_locate conf hrefs (Some name) \<noteq> None then snd (href_list_add conf p (Some hgroup)) else p)
       (case master of None \<Rightarrow> [] | Some m \<Rightarrow> hl_elems m) p"

definition href_list_find_referencees ::
  "bootstrap \<Rightarrow> hr_list option \<Rightarrow> hgrp_list option \<Rightarrow> hr_ptr \<Rightarrow> bool \<times> hr_ptr" where
  "href_list_find_referencees conf this master occupant_groups =
     (if this \<noteq> None \<and> occupant_groups \<noteq> None
      then (True, fold (\<lambda>name p. if is_hgroup_name name then occupants_of conf master name p else p) (names_of this) occupant_groups)
      else (False, occupant_groups))"

partial_function (option) href_list_find_all_referencees ::
  "bootstrap \<Rightarrow> hr_list option \<Rightarrow> hgrp_list option \<Rightarrow> hr_ptr \<Rightarrow> (bool \<times> hr_ptr) option" where
  "href_list_find_all_referencees conf this master occupant_groups =
     (if this \<noteq> None \<and> occupant_groups \<noteq> None
      then (let (ret, og) = href_list_find_referencees conf this master occupant_groups
            in case og of
                 Some (Some l) \<Rightarrow>
                   if ret
                   then do {
                     (ret2, sub) \<leftarrow> href_list_find_all_referencees conf (Some l) master (Some None);
                     Some (ret2, case sub of
                                   Some (Some l') \<Rightarrow> if ret2 then Some (Some (hl_lAddList conf l l')) else og
                                 | _ \<Rightarrow> og) }
                   else Some (ret, og)
               | _ \<Rightarrow> Some (ret, og))
      else Some (False, occupant_groups))"

section \<open>Other operations on references\<close>

text \<open>\<open>getuniquehostname\<close> asks the resolver of the system and is a parameter; \<open>None\<close> is a failure.\<close>

definition resolve_one :: "bootstrap \<Rightarrow> (string \<Rightarrow> string option) \<Rightarrow> bool \<Rightarrow> nat \<Rightarrow> bool \<times> hr_list \<Rightarrow> bool \<times> hr_list" where
  "resolve_one conf getuniquehostname ignore_errors i s =
     (case hl_get i (snd s) of
        None \<Rightarrow> s
      | Some (_, name, _) \<Rightarrow>
          if \<not> is_hgroup_name name
          then (case getuniquehostname name of
                  Some resolved_name \<Rightarrow> (fst s, hl_lSetHost conf i resolved_name (snd s))
                | None \<Rightarrow> (fst s \<and> ignore_errors, snd s))
          else s)"

definition href_list_resolve_hostnames ::
  "bootstrap \<Rightarrow> (string \<Rightarrow> string option) \<Rightarrow> hr_list option \<Rightarrow> bool \<Rightarrow> bool \<times> hr_list option" where
  "href_list_resolve_hostnames conf getuniquehostname this ignore_errors =
     (case this of
        None \<Rightarrow> (True, None)
      | Some l \<Rightarrow>
          (let (ret, l1) = fold (resolve_one conf getuniquehostname ignore_errors) (map fst (hl_elems l)) (True, l)
           in (ret, Some l1)))"

fun join_names :: "bool \<Rightarrow> string list \<Rightarrow> string \<Rightarrow> string" where
  "join_names is_first [] s = s"
| "join_names is_first (n # ns) s = join_names False ns ((if \<not> is_first then s @ '' '' else s) @ n)"

definition href_list_append_to_dstring :: "hr_list option \<Rightarrow> string option \<Rightarrow> bool \<times> string option" where
  "href_list_append_to_dstring this s =
     (case (this, s) of (Some l, Some s) \<Rightarrow> (True, Some (join_names True (hl_names l) s)) | _ \<Rightarrow> (False, s))"

definition remove_one :: "bootstrap \<Rightarrow> string \<Rightarrow> hr_list \<Rightarrow> hr_list" where
  "remove_one conf hostname l =
     (case lGetElemHost conf (Some l) (Some hostname) of None \<Rightarrow> l | Some i \<Rightarrow> hl_lRemoveElem conf i l)"

definition href_list_remove_existing :: "bootstrap \<Rightarrow> hr_list option \<Rightarrow> hr_list option \<Rightarrow> bool \<times> hr_list option" where
  "href_list_remove_existing conf this lst =
     (case (this, lst) of
        (Some l, Some l') \<Rightarrow>
          (let l1 = fold (remove_one conf) (hl_names l') l in (True, if hl_elems l1 = [] then None else Some l1))
      | _ \<Rightarrow> (True, this))"

definition uniq_one :: "bootstrap \<Rightarrow> nat \<times> string \<Rightarrow> hr_list \<Rightarrow> hr_list" where
  "uniq_one conf e l =
     (case lGetElemHostFirst conf (Some l) (Some (snd e)) of
        None \<Rightarrow> l
      | Some i \<Rightarrow> if fst e \<noteq> i then hl_lRemoveElem conf (fst e) l else l)"

definition href_list_make_uniq :: "bootstrap \<Rightarrow> hr_list \<Rightarrow> hr_list" where
  "href_list_make_uniq conf this = fold (uniq_one conf) (map (\<lambda>e. (fst e, fst (snd e))) (hl_elems this)) this"

section \<open>Host groups\<close>

text \<open>A host group is its name and its list of references.\<close>

type_synonym hgroup = "string \<times> hr_list option"

definition hgroup_add_references :: "bootstrap \<Rightarrow> hgroup \<Rightarrow> hr_list option \<Rightarrow> bool \<times> hgroup" where
  "hgroup_add_references conf this hrefs =
     (if hrefs \<noteq> None
      then (True, fst this,
        the (fold (\<lambda>name p. snd (href_list_add conf p (Some name))) (names_of hrefs) (Some (snd this))))
      else (False, this))"

definition single_ref :: "bootstrap \<Rightarrow> string \<Rightarrow> hr_list option" where
  "single_ref conf name = the (snd (href_list_add conf (Some None) (Some name)))"

definition hgroup_find_all_references ::
  "bootstrap \<Rightarrow> hgroup \<Rightarrow> hgrp_list option \<Rightarrow> hr_ptr \<Rightarrow> hr_ptr \<Rightarrow> (bool \<times> hr_ptr \<times> hr_ptr) option" where
  "hgroup_find_all_references conf this master uh ug =
     (if master \<noteq> None then href_list_find_all_references conf (single_ref conf (fst this)) master uh ug
      else Some (True, uh, ug))"

definition hgroup_find_references ::
  "bootstrap \<Rightarrow> hgroup \<Rightarrow> hgrp_list option \<Rightarrow> hr_ptr \<Rightarrow> hr_ptr \<Rightarrow> bool \<times> hr_ptr \<times> hr_ptr" where
  "hgroup_find_references conf this master uh ug =
     (if master \<noteq> None then href_list_find_references conf (single_ref conf (fst this)) master uh ug
      else (True, uh, ug))"

definition hgroup_find_all_referencees ::
  "bootstrap \<Rightarrow> hgroup \<Rightarrow> hgrp_list option \<Rightarrow> hr_ptr \<Rightarrow> (bool \<times> hr_ptr) option" where
  "hgroup_find_all_referencees conf this master og =
     (if og \<noteq> None then href_list_find_all_referencees conf (single_ref conf (fst this)) master og
      else Some (True, og))"

definition hgroup_list_exists :: "bootstrap \<Rightarrow> hgrp_list option \<Rightarrow> hr_list option \<Rightarrow> bool" where
  "hgroup_list_exists conf this hrefs =
     (hrefs = None \<or> this = None \<or>
      list_all (\<lambda>name. is_hgroup_name name \<longrightarrow> hgroup_list_locate conf this name \<noteq> None) (names_of hrefs))"

text \<open>An error of the evaluation counts as no match, as in the code, which tests for 0.\<close>

definition matches_group :: "matcher \<Rightarrow> string \<Rightarrow> string \<Rightarrow> bool option" where
  "matches_group mc pat name = map_option (\<lambda>r. fst r = 0) (sge_eval_expression mc TYPE_HOST (Some pat) (Some name))"

fun resolve_matching ::
  "matcher \<Rightarrow> hgrp_list \<Rightarrow> string \<Rightarrow> string list \<Rightarrow> bool \<times> hr_ptr \<Rightarrow> (bool \<times> hr_ptr) option" where
  "resolve_matching mc master pat [] s = Some s"
| "resolve_matching mc master pat (name # names) (ret, uh) = do {
     m \<leftarrow> matches_group mc pat name;
     if \<not> m then resolve_matching mc master pat names (ret, uh)
     else do {
       (ret1, tmp, _) \<leftarrow> hgroup_find_all_references (snd mc) (name, None) (Some master) (Some None) None;
       let hs = names_of (the tmp);
       let uh1 = (case uh of None \<Rightarrow> None | Some l \<Rightarrow> Some (fold (\<lambda>h l. Some (lAddElemHost (snd mc) l h ())) hs l));
       resolve_matching mc master pat names (ret1, uh1) } }"

definition hgroup_list_find_matching_and_resolve ::
  "matcher \<Rightarrow> hgrp_list option \<Rightarrow> string option \<Rightarrow> hr_ptr \<Rightarrow> (bool \<times> hr_ptr) option" where
  "hgroup_list_find_matching_and_resolve mc this hgroup_pattern used_hosts =
     (case (this, hgroup_pattern) of
        (Some m, Some pat) \<Rightarrow> resolve_matching mc m pat (hl_names m) (True, used_hosts)
      | _ \<Rightarrow> Some (True, used_hosts))"

fun find_matching_loop :: "matcher \<Rightarrow> string \<Rightarrow> string list \<Rightarrow> hr_ptr \<Rightarrow> hr_ptr option" where
  "find_matching_loop mc pat [] p = Some p"
| "find_matching_loop mc pat (name # names) p = do {
     m \<leftarrow> matches_group mc pat name;
     find_matching_loop mc pat names
       (if m then (case p of None \<Rightarrow> None | Some l \<Rightarrow> Some (Some (lAddElemHost (snd mc) l name ()))) else p) }"

definition hgroup_list_find_matching ::
  "matcher \<Rightarrow> hgrp_list option \<Rightarrow> string option \<Rightarrow> hr_ptr \<Rightarrow> (bool \<times> hr_ptr) option" where
  "hgroup_list_find_matching mc this hgroup_pattern hrefs =
     (case (this, hgroup_pattern) of
        (Some m, Some pat) \<Rightarrow> map_option (\<lambda>p. (True, p)) (find_matching_loop mc pat (hl_names m) hrefs)
      | _ \<Rightarrow> Some (True, hrefs))"

end
