(* ===== verification/Object_Names.thy ===== *)
theory Object_Names
  imports Hostname
begin

text \<open>
  Which names objects may have: \<^verbatim>\<open>verify_str_key\<close> and \<^verbatim>\<open>verify_host_name\<close> of
  \<^verbatim>\<open>source/libs/sgeobj/sge_utility.c\<close>, \<^verbatim>\<open>object_verify_name\<close> of \<^verbatim>\<open>sge_object.c\<close> and
  \<^verbatim>\<open>hgroup_check_name\<close> of \<^verbatim>\<open>sge_hgroup.c\<close>. The texts of the answers are left out. The
  character classes are those of the C locale.
\<close>

abbreviation (input) STATUS_OK :: int where "STATUS_OK \<equiv> 1"
abbreviation (input) STATUS_EUNKNOWN :: int where "STATUS_EUNKNOWN \<equiv> 4"
abbreviation (input) KEY_TABLE :: nat where "KEY_TABLE \<equiv> 1"
abbreviation (input) QSUB_TABLE :: nat where "QSUB_TABLE \<equiv> 2"
abbreviation (input) WC_TABLE :: nat where "WC_TABLE \<equiv> 3"
abbreviation (input) MAX_VERIFY_STRING :: nat where "MAX_VERIFY_STRING \<equiv> 512"

definition isgraph :: "char \<Rightarrow> bool" where
  "isgraph c \<longleftrightarrow> 33 \<le> (of_char c :: nat) \<and> (of_char c :: nat) \<le> 126"

definition isdigit_char :: "char \<Rightarrow> bool" where
  "isdigit_char c \<longleftrightarrow> 48 \<le> (of_char c :: nat) \<and> (of_char c :: nat) \<le> 57"

definition asciichar :: "char \<Rightarrow> bool" where
  "asciichar c \<longleftrightarrow> (of_char c :: nat) < 128"

text \<open>The rows of the tables up to their first 0.\<close>

definition begin_chars :: "string list" where
  "begin_chars = [''.#'', '''', ''.#'']"

definition mid_characters :: "string list" where
  "mid_characters =
     [[CHR ''\<newline>'', CHR 0x09, CHR 0x0D] @ '' /:'' @ [CHR 0x27, CHR 0x22, CHR 0x5C] @ ''[]{}|()@%,'',
      [CHR ''\<newline>'', CHR 0x09, CHR 0x0D] @ ''/:@'' @ [CHR 0x5C] @ ''*?'',
      [CHR ''\<newline>'', CHR 0x09, CHR 0x0D] @ '' /:'' @ [CHR 0x27, CHR 0x22, CHR 0x5C] @ ''{}|()@%,'']"

definition keywords_of_names :: "string list" where
  "keywords_of_names = [''NONE'', ''ALL'', ''TEMPLATE'']"

text \<open>The character \<open>str[0]\<close> of the empty string is the NUL at its end, which no row of the table holds.\<close>

definition verify_str_key :: "string option \<Rightarrow> nat \<Rightarrow> nat \<Rightarrow> int" where
  "verify_str_key s str_length table_nr =
     (if table_nr > WC_TABLE then STATUS_EUNKNOWN
      else case s of
        None \<Rightarrow> STATUS_EUNKNOWN
      | Some str \<Rightarrow>
          if length str > str_length then STATUS_EUNKNOWN
          else if list_ex (\<lambda>c. str \<noteq> [] \<and> hd str = c) (begin_chars ! (table_nr - 1)) then STATUS_EUNKNOWN
          else if list_ex (strchr str) (mid_characters ! (table_nr - 1)) then STATUS_EUNKNOWN
          else if list_ex (\<lambda>c. \<not> (isgraph c \<and> asciichar c)) str then STATUS_EUNKNOWN
          else if list_ex (\<lambda>k. strcasecmp str k = 0) keywords_of_names then STATUS_EUNKNOWN
          else STATUS_OK)"

definition object_verify_name :: "string option \<Rightarrow> int" where
  "object_verify_name object_name =
     (case object_name of
        None \<Rightarrow> 0
      | Some n \<Rightarrow>
          if n \<noteq> [] \<and> isdigit_char (hd n) then STATUS_EUNKNOWN
          else if verify_str_key (Some n) MAX_VERIFY_STRING QSUB_TABLE \<noteq> STATUS_OK then STATUS_EUNKNOWN
          else 0)"

definition hgroup_check_name :: "string \<Rightarrow> bool" where
  "hgroup_check_name name \<longleftrightarrow>
     is_hgroup_name name \<and> verify_str_key (Some (tl name)) MAX_VERIFY_STRING KEY_TABLE = STATUS_OK"

text \<open>Whether the name passes, and whether an error was put into the answers. The longest length is a
  constant of the system.\<close>

definition verify_host_name :: "nat \<Rightarrow> string option \<Rightarrow> bool \<times> bool" where
  "verify_host_name CL_MAXHOSTNAMELEN_LENGTH host_name =
     (let (ret, err) = (if host_name = None \<or> host_name = Some [] then (False, True) else (True, False))
      in if ret
         then (if length (the host_name) > CL_MAXHOSTNAMELEN_LENGTH then (ret, True) else (ret, err))
         else (ret, err))"

end
