(* ===== verification/Host_Admin.thy ===== *)
theory Host_Admin
  imports Host_Groups Object_Names
begin

unbundle bit_operations_syntax

text \<open>
  How the master changes its host groups: \<^verbatim>\<open>source/daemons/qmaster/sge_hgroup_qmaster.c\<close>, with
  \<^verbatim>\<open>attr_mod_sub_list\<close> of \<^verbatim>\<open>sge_utility_qmaster.c\<close> for the list of hosts of a group and the part of
  \<^verbatim>\<open>sge_gdi_add_mod_generic\<close> in \<^verbatim>\<open>sge_c_gdi.c\<close> that takes the change over into the list of all groups.
\<close>

section \<open>Changing a list of references\<close>

abbreviation (input) SGE_GDI_CHANGE :: int where "SGE_GDI_CHANGE \<equiv> 2 ^ 11"
abbreviation (input) SGE_GDI_APPEND :: int where "SGE_GDI_APPEND \<equiv> 2 ^ 12"
abbreviation (input) SGE_GDI_REMOVE :: int where "SGE_GDI_REMOVE \<equiv> 2 ^ 13"

definition SGE_GDI_IS_SUBCOMMAND_SET :: "int \<Rightarrow> int \<Rightarrow> bool" where
  "SGE_GDI_IS_SUBCOMMAND_SET x y \<longleftrightarrow> x AND y \<noteq> 0"

text \<open>The inner loop: the first element of the full list that has the name of the reduced one.\<close>

definition full_element :: "bootstrap \<Rightarrow> string \<Rightarrow> hr_list option \<Rightarrow> (nat \<times> string \<times> unit) option" where
  "full_element conf rstring full_sublist =
     (case full_sublist of
        None \<Rightarrow> None
      | Some f \<Rightarrow> find (\<lambda>e. sge_hostcmp conf (Some rstring) (Some (fst (snd e))) = 0) (hl_elems f))"

text \<open>What \<open>object_has_differences\<close> says of two references, whose only attribute is the name.\<close>

definition href_has_differences :: "bootstrap \<Rightarrow> string \<Rightarrow> string \<Rightarrow> bool" where
  "href_has_differences conf new_str old_str \<longleftrightarrow> sge_hostcmp conf (Some new_str) (Some old_str) \<noteq> 0"

lemma filter_shorter: "find (\<lambda>e. fst e = i) xs = Some x \<Longrightarrow> length (filter (\<lambda>e. fst e \<noteq> i) xs) < length xs"
  by (induction xs) (auto split: if_splits simp: le_imp_less_Suc)

lemma dechain_shorter: "hl_get i l = Some x \<Longrightarrow> length (hl_elems (hl_lDechainElem conf i l)) < length (hl_elems l)"
  by (cases x) (auto simp: hl_lDechainElem_def hl_get_def index_delete_def dest: filter_shorter)

text \<open>
  The outer loop; its first argument after the command holds the elements of the reduced list that are still
  to come. When an element was found, the loop starts anew at the head of the reduced list.
\<close>

function reduce_loop :: "bootstrap \<Rightarrow> int \<Rightarrow> nat list \<Rightarrow> hr_list \<Rightarrow> hr_list option \<Rightarrow> bool \<times> hr_list \<times> hr_list option" where
  "reduce_loop conf sub_command [] reduced full = (True, reduced, full)"
| "reduce_loop conf sub_command (i # is) reduced full =
     (case hl_get i reduced of
        None \<Rightarrow> reduce_loop conf sub_command is reduced full
      | Some (_, rstring, _) \<Rightarrow>
          (case full_element conf rstring full of
             None \<Rightarrow> reduce_loop conf sub_command is reduced full
           | Some (j, fstring, _) \<Rightarrow>
               (let reduced1 = hl_lDechainElem conf i reduced;
                    again = map fst (hl_elems reduced1)
                in if SGE_GDI_IS_SUBCOMMAND_SET sub_command SGE_GDI_CHANGE
                   then (if href_has_differences conf rstring fstring
                         then reduce_loop conf sub_command again reduced1
                                (map_option (\<lambda>f. hl_lAppendElem conf rstring () (hl_lDechainElem conf j f)) full)
                         else reduce_loop conf sub_command again reduced1 full)
                   else if SGE_GDI_IS_SUBCOMMAND_SET sub_command SGE_GDI_APPEND then (False, reduced1, full)
                   else if SGE_GDI_IS_SUBCOMMAND_SET sub_command SGE_GDI_REMOVE
                   then reduce_loop conf sub_command again reduced1 (map_option (hl_lDechainElem conf j) full)
                   else reduce_loop conf sub_command is reduced full)))"
  by pat_completeness auto
termination
  by (relation "measures [\<lambda>(_, _, _, r, _). length (hl_elems r), \<lambda>(_, _, is, _, _). length is]")
    (auto simp: dechain_shorter)

text \<open>The elements of the reduced list that are left go to the end of the full list.\<close>

definition add_rest :: "bootstrap \<Rightarrow> int \<Rightarrow> hr_list \<Rightarrow> hr_list option \<Rightarrow> hr_list option" where
  "add_rest conf sub_command reduced full =
     (if hl_elems reduced = [] \<or> SGE_GDI_IS_SUBCOMMAND_SET sub_command SGE_GDI_REMOVE then full
      else case full of
        None \<Rightarrow> hl_lCopyList conf (Some reduced)
      | Some f \<Rightarrow> Some (fold (\<lambda>e. hl_lAppendElem conf (fst (snd e)) (snd (snd e))) (hl_elems reduced) f))"

text \<open>
  For the list of hosts of a group: \<open>delta\<close> is the attribute of the request, \<open>None\<close> when the request has none.
  The message for an element that exists already is asked for (\<open>no_info\<close> is 0).
\<close>

definition attr_mod_sub_list :: "bootstrap \<Rightarrow> int \<Rightarrow> hr_list option \<Rightarrow> hr_list option option \<Rightarrow> bool \<times> hr_list option" where
  "attr_mod_sub_list conf sub_command this delta =
     (case delta of
        None \<Rightarrow> (False, this)
      | Some reduced \<Rightarrow>
          (let (ret, new) =
             (if SGE_GDI_IS_SUBCOMMAND_SET sub_command SGE_GDI_CHANGE \<or>
                 SGE_GDI_IS_SUBCOMMAND_SET sub_command SGE_GDI_APPEND \<or>
                 SGE_GDI_IS_SUBCOMMAND_SET sub_command SGE_GDI_REMOVE
              then (case reduced of
                      None \<Rightarrow> (True, this)
                    | Some r \<Rightarrow>
                        (let (ret, r1, full) = reduce_loop conf sub_command (map fst (hl_elems r)) r this
                         in (ret, if ret then add_rest conf sub_command r1 full else full)))
              else (True, hl_lCopyList conf reduced))
           in (ret, if ret \<and> (case new of None \<Rightarrow> False | Some l \<Rightarrow> hl_elems l = []) then None else new)))"

section \<open>Changing a group\<close>

text \<open>The lists for the caller: hosts added, hosts removed, and the groups that hold the group.\<close>

record mod_lists =
  ml_add_hosts :: "hr_list option"
  ml_rem_hosts :: "hr_list option"
  ml_occupants :: "hr_list option"

abbreviation (input) tmp_hosts :: "(bool \<times> hr_ptr \<times> hr_ptr) \<Rightarrow> hr_list option" where
  "tmp_hosts r \<equiv> the (fst (snd r))"

text \<open>Adding what the change brings and taking out what was there or stays.\<close>

definition effective_hosts ::
  "bootstrap \<Rightarrow> hgrp_list option \<Rightarrow> hr_list option \<Rightarrow> hr_list option \<Rightarrow> mod_lists \<Rightarrow> (bool \<times> mod_lists) option" where
  "effective_hosts conf master_list old_href_list href_list ml = do {
     t1 \<leftarrow> href_list_find_all_references conf old_href_list master_list (Some None) None;
     let (r1, add) = href_list_remove_existing conf (ml_add_hosts ml) (tmp_hosts t1);
     t2 \<leftarrow> href_list_find_all_references conf href_list master_list (Some None) None;
     let (r2, rem) = href_list_remove_existing conf (ml_rem_hosts ml) (tmp_hosts t2);
     Some (fst t1 \<and> r1 \<and> fst t2 \<and> r2, ml\<lparr>ml_add_hosts := add, ml_rem_hosts := rem\<rparr>) }"

text \<open>Whether one of the groups added holds the group: the groups that hold it, and the answer.\<close>

definition check_cycle ::
  "bootstrap \<Rightarrow> hgrp_list option \<Rightarrow> hgroup \<Rightarrow> hr_list option \<Rightarrow> hr_list option \<Rightarrow> (bool \<times> hr_list option) option" where
  "check_cycle conf master_list hgroup added occupant_groups = do {
     (r1, occ) \<leftarrow> hgroup_find_all_referencees conf hgroup master_list (Some occupant_groups);
     let (r2, occ2) = href_list_add conf occ (Some (fst hgroup));
     let ret = (r1 \<and> r2);
     Some (if ret \<and> the occ2 \<noteq> None \<and> added \<noteq> None
           then \<not> list_ex (\<lambda>name. href_list_has_member conf (the occ2) (Some name)) (names_of added) else ret,
           the occ2) }"

definition hgroup_mod_hostlist ::
  "bootstrap \<Rightarrow> (string \<Rightarrow> string option) \<Rightarrow> hgrp_list option \<Rightarrow> hgroup \<Rightarrow> hr_list option option \<Rightarrow> int \<Rightarrow> mod_lists \<Rightarrow>
    (bool \<times> hgroup \<times> mod_lists) option" where
  "hgroup_mod_hostlist conf getuniquehostname master_list hgroup reduced sub_command ml =
     (case reduced of
        None \<Rightarrow> Some (True, hgroup, ml)
      | Some lst \<Rightarrow>
          (let old_href_list = hl_lCopyList conf (snd hgroup);
               (r1, lst1) = href_list_resolve_hostnames conf getuniquehostname lst True
           in if \<not> r1 then Some (False, hgroup, ml)
           else let href_list = snd (attr_mod_sub_list conf sub_command (snd hgroup) (Some lst1));
                    hgroup1 = (fst hgroup, href_list);
                    (r2, ah, rh, ag, rg) = href_list_find_diff conf href_list old_href_list
                       (Some (ml_add_hosts ml)) (Some (ml_rem_hosts ml)) (Some None) (Some None);
                    ml1 = ml\<lparr>ml_add_hosts := the ah, ml_rem_hosts := the rh\<rparr>
           in if \<not> r2 \<or> (the ag \<noteq> None \<and> \<not> hgroup_list_exists conf master_list (the ag)) then Some (False, hgroup1, ml1)
           else case href_list_find_effective_diff conf (the ag) (the rg) master_list
                       (Some (ml_add_hosts ml1)) (Some (ml_rem_hosts ml1)) of
             None \<Rightarrow> None
           | Some (r3, ah3, rh3) \<Rightarrow>
           (let ml3 = ml1\<lparr>ml_add_hosts := the ah3, ml_rem_hosts := the rh3\<rparr>
            in if \<not> r3 then Some (False, hgroup1, ml3)
            else let (r4, ah4) = href_list_resolve_hostnames conf getuniquehostname (ml_add_hosts ml3) False;
                     ml4 = ml3\<lparr>ml_add_hosts := ah4\<rparr>
            in if \<not> r4 then Some (False, hgroup1, ml4)
            else case check_cycle conf master_list hgroup1 (the ag) (ml_occupants ml4) of
              None \<Rightarrow> None
            | Some (r5, occ) \<Rightarrow>
            (let ml5 = ml4\<lparr>ml_occupants := occ\<rparr>
             in if \<not> r5 then Some (False, hgroup1, ml5)
             else case effective_hosts conf master_list old_href_list href_list ml5 of
               None \<Rightarrow> None
             | Some (r6, ml6) \<Rightarrow> Some (r6, hgroup1, ml6)))))"

text \<open>
  A request holds the name of a group and, maybe, a list of hosts. What follows for the cluster queues and the
  execution hosts is not modelled: \<open>queues\<close> tells whether it goes well.
\<close>

type_synonym hgroup_request = "string option \<times> hr_list option option"

definition hgroup_mod ::
  "bootstrap \<Rightarrow> (string \<Rightarrow> string option) \<Rightarrow> (hgroup \<Rightarrow> mod_lists \<Rightarrow> bool) \<Rightarrow> hgrp_list option \<Rightarrow> hgroup \<Rightarrow> hgroup_request \<Rightarrow>
    bool \<Rightarrow> int \<Rightarrow> (bool \<times> hgroup) option" where
  "hgroup_mod conf getuniquehostname queues master_list hgroup reduced_elem add sub_command =
     (let (ret, hgroup1) =
        (case fst reduced_elem of
           Some name \<Rightarrow>
             if add then (if hgroup_check_name name then (True, name, snd hgroup) else (False, hgroup))
             else (sge_hostcmp conf (Some (fst hgroup)) (Some name) = 0, hgroup)
         | None \<Rightarrow> (False, hgroup))
      in if ret \<and> snd reduced_elem \<noteq> None
         then (case hgroup_mod_hostlist conf getuniquehostname master_list hgroup1 (snd reduced_elem) sub_command
                      \<lparr>ml_add_hosts = None, ml_rem_hosts = None, ml_occupants = None\<rparr> of
                 None \<Rightarrow> None
               | Some (ret2, hgroup2, ml) \<Rightarrow> Some (ret2 \<and> queues hgroup2 ml, hgroup2))
         else Some (ret, hgroup1))"

section \<open>The list of all groups\<close>

text \<open>Adding a group, or changing one. A new group has no name until \<open>hgroup_mod\<close> sets it. \<open>writer\<close> spools.\<close>

definition hgroup_add_mod ::
  "bootstrap \<Rightarrow> (string \<Rightarrow> string option) \<Rightarrow> (hgroup \<Rightarrow> mod_lists \<Rightarrow> bool) \<Rightarrow> (hgroup \<Rightarrow> bool) \<Rightarrow> hgroup_request \<Rightarrow> bool \<Rightarrow> int \<Rightarrow>
    hgrp_list option \<Rightarrow> (bool \<times> hgrp_list option) option" where
  "hgroup_add_mod conf getuniquehostname queues writer instructions add sub_command master_list =
     (case fst instructions of
        None \<Rightarrow> Some (False, master_list)
      | Some name \<Rightarrow>
          (let old_obj = lGetElemHost conf master_list (Some name)
           in if (old_obj \<noteq> None \<and> add) \<or> (old_obj = None \<and> \<not> add) then Some (False, master_list)
           else let new_obj = (if add then ('''', None)
                               else case hl_get (the old_obj) (the master_list) of
                                      Some (_, n, hrefs) \<Rightarrow> (n, hl_lCopyList conf hrefs) | None \<Rightarrow> ('''', None))
           in case hgroup_mod conf getuniquehostname queues master_list new_obj instructions add sub_command of
             None \<Rightarrow> None
           | Some (ret, new_obj) \<Rightarrow>
             Some (if \<not> ret \<or> \<not> writer new_obj then (False, master_list)
                   else let l1 = (case old_obj of Some i \<Rightarrow> map_option (hl_lDechainElem conf i) master_list | None \<Rightarrow> master_list);
                            l2 = (case l1 of None \<Rightarrow> lCreateList | Some l \<Rightarrow> l)
                        in (True, Some (hl_lAppendElem conf (fst new_obj) (snd new_obj) l2)))))"

text \<open>The groups part of \<open>hgroup_find_referencees\<close>.\<close>

definition hgroup_find_referencees :: "bootstrap \<Rightarrow> hgroup \<Rightarrow> hgrp_list option \<Rightarrow> hr_ptr \<Rightarrow> bool \<times> hr_ptr" where
  "hgroup_find_referencees conf this master og =
     (if og \<noteq> None then href_list_find_referencees conf (single_ref conf (fst this)) master og else (True, og))"

text \<open>Deleting a group; \<open>unused\<close> tells whether no cluster queue and no user refers to it and it is spooled.\<close>

definition hgroup_del :: "bootstrap \<Rightarrow> (string \<Rightarrow> bool) \<Rightarrow> string option \<Rightarrow> hgrp_list option \<Rightarrow> bool \<times> hgrp_list option" where
  "hgroup_del conf unused name master_list =
     (case name of
        None \<Rightarrow> (False, master_list)
      | Some n \<Rightarrow>
          (case (hgroup_list_locate conf master_list n, master_list) of
             (Some i, Some m) \<Rightarrow>
               (case hl_get i m of
                  None \<Rightarrow> (False, master_list)
                | Some (_, gname, hrefs) \<Rightarrow>
                    (let (ret, og) = hgroup_find_referencees conf (gname, hrefs) master_list (Some None)
                     in if ret \<and> (case og of Some None \<Rightarrow> True | _ \<Rightarrow> False) \<and> unused n then (True, Some (hl_lRemoveElem conf i m))
                        else (False, master_list)))
           | _ \<Rightarrow> (False, master_list)))"

datatype hgroup_op =
    HG_add hgroup_request int
  | HG_mod hgroup_request int
  | HG_del "string option"

text \<open>The parameters of a run: the resolver, and what queues, spooling and users say at each request.\<close>

record hgroup_world =
  hw_conf :: bootstrap
  hw_resolve :: "string \<Rightarrow> string option"
  hw_queues :: "hgroup \<Rightarrow> mod_lists \<Rightarrow> bool"
  hw_writer :: "hgroup \<Rightarrow> bool"
  hw_unused :: "string \<Rightarrow> bool"

fun hgroup_request_step :: "hgroup_world \<Rightarrow> hgroup_op \<Rightarrow> hgrp_list option \<Rightarrow> (bool \<times> hgrp_list option) option" where
  "hgroup_request_step w (HG_add req cmd) m = hgroup_add_mod (hw_conf w) (hw_resolve w) (hw_queues w) (hw_writer w) req True cmd m"
| "hgroup_request_step w (HG_mod req cmd) m = hgroup_add_mod (hw_conf w) (hw_resolve w) (hw_queues w) (hw_writer w) req False cmd m"
| "hgroup_request_step w (HG_del name) m = Some (hgroup_del (hw_conf w) (hw_unused w) name m)"

fun hgroup_requests :: "hgroup_world \<Rightarrow> hgroup_op list \<Rightarrow> hgrp_list option \<Rightarrow> hgrp_list option option" where
  "hgroup_requests w [] m = Some m"
| "hgroup_requests w (r # rs) m =
     (case hgroup_request_step w r m of None \<Rightarrow> None | Some (_, m1) \<Rightarrow> hgroup_requests w rs m1)"

end
