(* ===== verification/Host_List_Facts.thy ===== *)
theory Host_List_Facts
  imports Host_List
begin

text \<open>
  When the index of a list of hosts tells the truth. Every entry is right; that every name has an entry, and
  an entry of its own, is lost when two elements have the same name.
\<close>

definition hl_idx :: "'a host_list \<Rightarrow> string \<Rightarrow> nat option" where
  "hl_idx l = (case hl_ht l of Some t \<Rightarrow> ht_map t | None \<Rightarrow> Map.empty)"

definition hl_wf :: "bootstrap \<Rightarrow> 'a host_list \<Rightarrow> bool" where
  "hl_wf conf l \<longleftrightarrow>
     (\<exists>t. hl_ht l = Some t \<and> ht_ok (hash_func_string \<circ> Some) hash_compare_string t) \<and>
     (\<forall>k i. hl_idx l k = Some i \<longrightarrow> (\<exists>n r. (i, n, r) \<in> set (hl_elems l) \<and> cull_hash_key conf n = k)) \<and>
     distinct (map fst (hl_elems l)) \<and> (\<forall>e \<in> set (hl_elems l). fst e < hl_next l)"

definition hl_covers :: "bootstrap \<Rightarrow> (string \<Rightarrow> bool) \<Rightarrow> 'a host_list \<Rightarrow> bool" where
  "hl_covers conf P l \<longleftrightarrow> (\<forall>n \<in> set (hl_names l). P n \<longrightarrow> hl_idx l (cull_hash_key conf n) \<noteq> None)"

definition hl_exact :: "bootstrap \<Rightarrow> (string \<Rightarrow> bool) \<Rightarrow> 'a host_list \<Rightarrow> bool" where
  "hl_exact conf P l \<longleftrightarrow>
     (\<forall>e \<in> set (hl_elems l). P (fst (snd e)) \<longrightarrow> hl_idx l (cull_hash_key conf (fst (snd e))) = Some (fst e))"

definition by_key :: "bootstrap \<Rightarrow> (string \<Rightarrow> bool) \<Rightarrow> bool" where
  "by_key conf P \<longleftrightarrow> (\<forall>a b. cull_hash_key conf a = cull_hash_key conf b \<longrightarrow> P a = P b)"

lemma exact_covers: "hl_exact conf P l \<Longrightarrow> hl_covers conf P l"
  by (auto simp: hl_exact_def hl_covers_def hl_names_def)

lemma wf_sound: "hl_wf conf l \<Longrightarrow> hl_idx l k = Some i \<Longrightarrow> \<exists>n r. (i, n, r) \<in> set (hl_elems l) \<and> cull_hash_key conf n = k"
  unfolding hl_wf_def by blast

lemma exactD: "hl_exact conf P l \<Longrightarrow> (i, n, r) \<in> set (hl_elems l) \<Longrightarrow> P n \<Longrightarrow> hl_idx l (cull_hash_key conf n) = Some i"
  unfolding hl_exact_def by fastforce

lemma in_names: "n \<in> set (hl_names l) \<longleftrightarrow> (\<exists>i r. (i, n, r) \<in> set (hl_elems l))"
  by (force simp: hl_names_def)

lemma string_table_store:
  "ht_ok (hash_func_string \<circ> Some) hash_compare_string t \<Longrightarrow>
   ht_ok (hash_func_string \<circ> Some) hash_compare_string (sge_htable_store t k i) \<and> ht_map (sge_htable_store t k i) = (ht_map t)(k \<mapsto> i)"
  by (rule string_key.store_law)

lemma string_table_delete:
  "ht_ok (hash_func_string \<circ> Some) hash_compare_string t \<Longrightarrow>
   ht_ok (hash_func_string \<circ> Some) hash_compare_string (sge_htable_delete t k) \<and> ht_map (sge_htable_delete t k) = (ht_map t)(k := None)"
  by (rule string_key.delete_law)

lemma empty_list:
  "hl_wf conf \<lparr>hl_elems = [], hl_ht = Some (string_htable n), hl_next = 0\<rparr> \<and>
   hl_idx \<lparr>hl_elems = [], hl_ht = Some (string_htable n), hl_next = 0\<rparr> = Map.empty"
  using create_ok[of "string_htable n :: (string, nat) htable_rec" n "hash_func_string \<circ> Some" hash_compare_string]
  by (auto simp: hl_wf_def hl_idx_def)

lemma create_list [simp]: "hl_wf conf lCreateList" "hl_names lCreateList = []" "hl_idx lCreateList = Map.empty"
  "hl_covers conf P lCreateList" "hl_exact conf P lCreateList"
  using empty_list[of conf 4] by (auto simp: lCreateList_def hl_names_def hl_covers_def hl_exact_def)

lemma append_list:
  assumes "hl_wf conf l"
  shows "hl_wf conf (hl_lAppendElem conf n r l)"
    and "hl_names (hl_lAppendElem conf n r l) = hl_names l @ [n]"
    and "hl_idx (hl_lAppendElem conf n r l) = (hl_idx l)(cull_hash_key conf n \<mapsto> hl_next l)"
    and "hl_elems (hl_lAppendElem conf n r l) = hl_elems l @ [(hl_next l, n, r)]"
proof -
  obtain t where t: "hl_ht l = Some t" "ht_ok (hash_func_string \<circ> Some) hash_compare_string t"
    using assms by (auto simp: hl_wf_def)
  show i: "hl_idx (hl_lAppendElem conf n r l) = (hl_idx l)(cull_hash_key conf n \<mapsto> hl_next l)"
    using t string_table_store[OF t(2)] by (simp add: hl_lAppendElem_def index_store_def hl_idx_def Let_def)
  show e: "hl_elems (hl_lAppendElem conf n r l) = hl_elems l @ [(hl_next l, n, r)]"
    by (simp add: hl_lAppendElem_def index_store_def Let_def)
  show "hl_names (hl_lAppendElem conf n r l) = hl_names l @ [n]" by (simp add: hl_names_def e)
  have "hl_next (hl_lAppendElem conf n r l) = Suc (hl_next l)" "hl_ht (hl_lAppendElem conf n r l) = Some (sge_htable_store t (cull_hash_key conf n) (hl_next l))"
    using t by (simp_all add: hl_lAppendElem_def index_store_def Let_def)
  then show "hl_wf conf (hl_lAppendElem conf n r l)"
    using assms string_table_store[OF t(2)] unfolding hl_wf_def i e
    by (fastforce simp: less_Suc_eq split: if_splits)
qed

lemma append_covers:
  assumes "hl_wf conf l" "hl_covers conf P l"
  shows "hl_covers conf P (hl_lAppendElem conf n r l)"
  using assms(2) by (auto simp: hl_covers_def append_list[OF assms(1)])

lemma append_exact:
  assumes "hl_wf conf l" "hl_exact conf P l" "\<forall>m \<in> set (hl_names l). P m \<longrightarrow> cull_hash_key conf m \<noteq> cull_hash_key conf n"
  shows "hl_exact conf P (hl_lAppendElem conf n r l)"
  using assms(2,3) by (auto simp: hl_exact_def append_list[OF assms(1)] hl_names_def)

lemma get_elem:
  assumes "distinct (map fst (hl_elems l))" "(i, n, r) \<in> set (hl_elems l)"
  shows "hl_get i l = Some (i, n, r)"
proof -
  obtain x where x: "hl_get i l = Some x"
    using assms(2) by (cases "hl_get i l") (auto simp: hl_get_def find_None_iff)
  then have "x \<in> set (hl_elems l)" "fst x = i" by (auto simp: hl_get_def find_Some_iff)
  then have "x = (i, n, r)" using assms inj_on_eq_iff[of fst "set (hl_elems l)" x "(i, n, r)"] by (simp add: distinct_map)
  then show ?thesis using x by simp
qed

lemma dechain_list:
  assumes wf: "hl_wf conf l" and e: "(i, n, r) \<in> set (hl_elems l)"
  shows "hl_wf conf (hl_lDechainElem conf i l)"
    and "hl_elems (hl_lDechainElem conf i l) = filter (\<lambda>x. fst x \<noteq> i) (hl_elems l)"
    and "hl_idx (hl_lDechainElem conf i l) = (hl_idx l)(cull_hash_key conf n := None)"
proof -
  obtain t where t: "hl_ht l = Some t" "ht_ok (hash_func_string \<circ> Some) hash_compare_string t"
    using wf by (auto simp: hl_wf_def)
  have d: "distinct (map fst (hl_elems l))" using wf by (simp add: hl_wf_def)
  note g = get_elem[OF d e]
  show el: "hl_elems (hl_lDechainElem conf i l) = filter (\<lambda>x. fst x \<noteq> i) (hl_elems l)"
    using g by (simp add: hl_lDechainElem_def index_delete_def)
  show ix: "hl_idx (hl_lDechainElem conf i l) = (hl_idx l)(cull_hash_key conf n := None)"
    using g t string_table_delete[OF t(2)] by (simp add: hl_lDechainElem_def index_delete_def hl_idx_def)
  have "hl_next (hl_lDechainElem conf i l) = hl_next l"
    "hl_ht (hl_lDechainElem conf i l) = Some (sge_htable_delete t (cull_hash_key conf n))"
    using g t by (simp_all add: hl_lDechainElem_def index_delete_def)
  moreover have "\<exists>m q. (j, m, q) \<in> set (filter (\<lambda>x. fst x \<noteq> i) (hl_elems l)) \<and> cull_hash_key conf m = k"
    if k: "hl_idx l k = Some j" "k \<noteq> cull_hash_key conf n" for k j
  proof -
    obtain m q where m: "(j, m, q) \<in> set (hl_elems l)" "cull_hash_key conf m = k" using wf_sound[OF wf k(1)] by blast
    have "j \<noteq> i"
    proof
      assume "j = i"
      then have "(j, m, q) = (i, n, r)"
        using m(1) e d inj_on_eq_iff[of fst "set (hl_elems l)" "(j, m, q)" "(i, n, r)"] by (simp add: distinct_map)
      then show False using k(2) m(2) by simp
    qed
    then show ?thesis using m by auto
  qed
  ultimately show "hl_wf conf (hl_lDechainElem conf i l)"
    using wf string_table_delete[OF t(2)] unfolding hl_wf_def el ix by (auto simp: distinct_map_filter)
qed

lemma dechain_exact:
  assumes wf: "hl_wf conf l" and e: "(i, n, r) \<in> set (hl_elems l)" and x: "hl_exact conf P l" and p: "by_key conf P"
  shows "hl_exact conf P (hl_lDechainElem conf i l)"
  unfolding hl_exact_def dechain_list[OF wf e]
proof (intro ballI impI)
  fix y assume y: "y \<in> set (filter (\<lambda>x. fst x \<noteq> i) (hl_elems l))" and py: "P (fst (snd y))"
  have "cull_hash_key conf (fst (snd y)) \<noteq> cull_hash_key conf n"
  proof
    assume k: "cull_hash_key conf (fst (snd y)) = cull_hash_key conf n"
    then have "P n" using py p unfolding by_key_def by blast
    then have "hl_idx l (cull_hash_key conf n) = Some i" using exactD[OF x e] by simp
    moreover have "hl_idx l (cull_hash_key conf (fst (snd y))) = Some (fst y)" using x y py by (simp add: hl_exact_def)
    ultimately show False using k y by simp
  qed
  then show "((hl_idx l)(cull_hash_key conf n := None)) (cull_hash_key conf (fst (snd y))) = Some (fst y)"
    using x y py by (simp add: hl_exact_def)
qed

lemma get_host_idx:
  assumes "hl_wf conf l"
  shows "lGetElemHost conf (Some l) (Some s) = hl_idx l (cull_hash_key conf s)"
proof -
  obtain t where t: "hl_ht l = Some t" "ht_ok (hash_func_string \<circ> Some) hash_compare_string t"
    using assms by (auto simp: hl_wf_def)
  then show ?thesis using string_key.lookup_law[OF t(2)]
    by (simp add: lGetElemHost_def lGetElemHostFirst_def hl_idx_def)
qed

lemma get_host_Some:
  assumes "hl_wf conf l" "lGetElemHost conf (Some l) (Some s) = Some i"
  obtains n r where "(i, n, r) \<in> set (hl_elems l)" "cull_hash_key conf n = cull_hash_key conf s" "hl_get i l = Some (i, n, r)"
proof -
  obtain n r where "(i, n, r) \<in> set (hl_elems l)" "cull_hash_key conf n = cull_hash_key conf s"
    using assms(2) wf_sound[OF assms(1)] unfolding get_host_idx[OF assms(1)] by blast
  then show ?thesis using that get_elem assms(1) by (metis hl_wf_def)
qed

definition hl_keys :: "bootstrap \<Rightarrow> 'a host_list \<Rightarrow> string set" where
  "hl_keys conf l = cull_hash_key conf ` set (hl_names l)"

lemma member_keys:
  assumes "hl_wf conf l" "hl_covers conf P l" "P s" "by_key conf P"
  shows "lGetElemHost conf (Some l) (Some s) \<noteq> None \<longleftrightarrow> cull_hash_key conf s \<in> hl_keys conf l"
proof
  assume "lGetElemHost conf (Some l) (Some s) \<noteq> None"
  then obtain i n r where "(i, n, r) \<in> set (hl_elems l)" "cull_hash_key conf n = cull_hash_key conf s"
    using get_host_Some[OF assms(1)] by blast
  then have "n \<in> set (hl_names l)" "cull_hash_key conf n = cull_hash_key conf s" by (auto simp: in_names)
  then show "cull_hash_key conf s \<in> hl_keys conf l" unfolding hl_keys_def by (metis image_eqI)
next
  assume "cull_hash_key conf s \<in> hl_keys conf l"
  then obtain n where n: "n \<in> set (hl_names l)" "cull_hash_key conf n = cull_hash_key conf s" by (auto simp: hl_keys_def)
  then have "P n" using assms(3,4) unfolding by_key_def by blast
  then have "hl_idx l (cull_hash_key conf n) \<noteq> None" using n(1) assms(2) unfolding hl_covers_def by blast
  then show "lGetElemHost conf (Some l) (Some s) \<noteq> None" unfolding get_host_idx[OF assms(1)] n(2) .
qed

lemma add_list:
  assumes "hl_wf conf l" "hl_covers conf P l"
  shows "hl_wf conf (hl_lAddList conf l l') \<and> hl_covers conf P (hl_lAddList conf l l') \<and>
    hl_names (hl_lAddList conf l l') = hl_names l @ hl_names l'"
proof -
  have "hl_wf conf (fold (\<lambda>e. hl_lAppendElem conf (fst (snd e)) (snd (snd e))) es l) \<and>
      hl_covers conf P (fold (\<lambda>e. hl_lAppendElem conf (fst (snd e)) (snd (snd e))) es l) \<and>
      hl_names (fold (\<lambda>e. hl_lAppendElem conf (fst (snd e)) (snd (snd e))) es l) = hl_names l @ map (fst \<circ> snd) es" for es
    using assms
  proof (induction es arbitrary: l)
    case (Cons e es)
    from Cons.IH[OF append_list(1)[OF Cons.prems(1)] append_covers[OF Cons.prems]] show ?case
      by (simp add: append_list[OF Cons.prems(1)])
  qed simp
  then show ?thesis unfolding hl_lAddList_def hl_names_def[of l'] .
qed

end
