(* ===== verification/Host_Groups_Facts.thy ===== *)
theory Host_Groups_Facts
  imports Host_Groups Host_List_Facts
begin

text \<open>
  Following the references of host groups: the graph whose nodes are the keys of names, when the recursion
  over it returns, and what it has collected then.
\<close>

section \<open>Names and keys\<close>

abbreviation hkey :: "bootstrap \<Rightarrow> string \<Rightarrow> string" where "hkey \<equiv> cull_hash_key"

lemma group_by_key: "CL_MAXHOSTLEN conf > 1 \<Longrightarrow> by_key conf is_hgroup_name"
  using group_key unfolding by_key_def by metis

lemma all_by_key [simp]: "by_key conf (\<lambda>_. True)"
  by (simp add: by_key_def)

section \<open>Pointers to lists\<close>

definition ptr_names :: "hr_ptr \<Rightarrow> string list" where
  "ptr_names p = (case p of None \<Rightarrow> [] | Some l \<Rightarrow> names_of l)"

definition ptr_keys :: "bootstrap \<Rightarrow> hr_ptr \<Rightarrow> string set" where
  "ptr_keys conf p = hkey conf ` set (ptr_names p)"

definition ptr_ok :: "bootstrap \<Rightarrow> hr_ptr \<Rightarrow> bool" where
  "ptr_ok conf p \<longleftrightarrow> (\<forall>l. p = Some (Some l) \<longrightarrow> hl_wf conf l \<and> hl_covers conf (\<lambda>_. True) l)"

lemma ptr_simps [simp]: "ptr_names None = []" "ptr_names (Some None) = []" "ptr_names (Some (Some l)) = hl_names l"
  "ptr_keys conf None = {}" "ptr_keys conf (Some None) = {}" "ptr_keys conf (Some (Some l)) = hl_keys conf l"
  "ptr_ok conf None" "ptr_ok conf (Some None)"
  by (auto simp: ptr_names_def ptr_keys_def ptr_ok_def names_of_def hl_keys_def)

lemma has_member_key:
  assumes "hl_wf conf l" "hl_covers conf (\<lambda>_. True) l"
  shows "href_list_has_member conf (Some l) (Some n) \<longleftrightarrow> hkey conf n \<in> hl_keys conf l"
  using member_keys[OF assms, of n] by (simp add: href_list_has_member_def href_list_locate_def)

lemma add_elem:
  assumes "ptr_ok conf (Some l)"
  shows "ptr_ok conf (Some (Some (lAddElemHost conf l n ()))) \<and>
    hl_names (lAddElemHost conf l n ()) = ptr_names (Some l) @ [n]"
proof -
  let ?l = "case l of None \<Rightarrow> lCreateList | Some l \<Rightarrow> l"
  have w: "hl_wf conf ?l" "hl_covers conf (\<lambda>_. True) ?l" using assms by (auto simp: ptr_ok_def split: option.splits)
  have "hl_names ?l = ptr_names (Some l)" by (simp split: option.splits)
  then show ?thesis using append_list[OF w(1)] append_covers[OF w]
    by (simp add: lAddElemHost_def ptr_ok_def)
qed

lemma add_ref:
  assumes "ptr_ok conf (Some l)"
  shows "\<exists>l'. href_list_add conf (Some l) (Some n) = (True, Some l') \<and> ptr_ok conf (Some l') \<and> l' \<noteq> None \<and>
    ptr_keys conf (Some l') = insert (hkey conf n) (ptr_keys conf (Some l)) \<and>
    set (ptr_names (Some l')) \<subseteq> insert n (set (ptr_names (Some l)))"
proof (cases "href_list_has_member conf l (Some n)")
  case True
  then obtain k where "l = Some k" by (auto simp: href_list_has_member_def)
  then show ?thesis using True assms has_member_key[of conf k n]
    by (auto simp: href_list_add_def ptr_ok_def insert_absorb)
next
  case False
  then show ?thesis using add_elem[OF assms, of n]
    by (auto simp: href_list_add_def ptr_keys_def ptr_names_def names_of_def)
qed

lemma add_wanted:
  assumes "ptr_ok conf p"
  shows "ptr_ok conf (add_if_wanted conf p n)"
    and "ptr_keys conf (add_if_wanted conf p n) = (if p = None then {} else insert (hkey conf n) (ptr_keys conf p))"
    and "set (ptr_names (add_if_wanted conf p n)) \<subseteq> insert n (set (ptr_names p))"
    and "add_if_wanted conf p n = None \<longleftrightarrow> p = None"
  using assms add_ref[of conf _ n] by (cases p; force simp: add_if_wanted_def)+


section \<open>The graph of the groups\<close>

definition hosts_in :: "bootstrap \<Rightarrow> string set \<Rightarrow> string set" where
  "hosts_in conf ns = hkey conf ` {n \<in> ns. \<not> is_hgroup_name n}"

definition groups_in :: "bootstrap \<Rightarrow> string set \<Rightarrow> string set" where
  "groups_in conf ns = hkey conf ` {n \<in> ns. is_hgroup_name n}"

text \<open>The names in the lists of the groups that have a key.\<close>

definition names_at :: "bootstrap \<Rightarrow> hgrp_list \<Rightarrow> string \<Rightarrow> string set" where
  "names_at conf m k = (\<Union>e \<in> {e \<in> set (hl_elems m). hkey conf (fst (snd e)) = k}. set (names_of (snd (snd e))))"

definition group_edges :: "bootstrap \<Rightarrow> hgrp_list \<Rightarrow> (string \<times> string) set" where
  "group_edges conf m = {(k, k'). k' \<in> groups_in conf (names_at conf m k)}"

definition hosts_at :: "bootstrap \<Rightarrow> hgrp_list \<Rightarrow> string set \<Rightarrow> string set" where
  "hosts_at conf m K = (\<Union>k \<in> K. hosts_in conf (names_at conf m k))"

definition master_ok :: "bootstrap \<Rightarrow> hgrp_list \<Rightarrow> bool" where
  "master_ok conf m \<longleftrightarrow> hl_wf conf m \<and> hl_exact conf (\<lambda>_. True) m"

lemma in_simps [simp]: "hosts_in conf {} = {}" "groups_in conf {} = {}"
  "hosts_in conf (A \<union> B) = hosts_in conf A \<union> hosts_in conf B" "groups_in conf (A \<union> B) = groups_in conf A \<union> groups_in conf B"
  "hosts_in conf (insert n A) = (if is_hgroup_name n then hosts_in conf A else insert (hkey conf n) (hosts_in conf A))"
  "groups_in conf (insert n A) = (if is_hgroup_name n then insert (hkey conf n) (groups_in conf A) else groups_in conf A)"
  by (auto simp: hosts_in_def groups_in_def)

lemma locate_group:
  assumes "master_ok conf m"
  shows "(case hgroup_list_locate conf (Some m) name of Some i \<Rightarrow> set (names_of (host_list_of m i)) | None \<Rightarrow> {}) =
    names_at conf m (hkey conf name)"
proof -
  have wf: "hl_wf conf m" and x: "hl_exact conf (\<lambda>_. True) m" using assms by (auto simp: master_ok_def)
  have u: "hl_idx m (hkey conf g) = Some i" if "(i, g, h) \<in> set (hl_elems m)" for i g h using exactD[OF x that] by simp
  show ?thesis
  proof (cases "hgroup_list_locate conf (Some m) name")
    case None
    then have "hl_idx m (hkey conf name) = None" by (simp add: hgroup_list_locate_def get_host_idx[OF wf])
    then have e: "{e \<in> set (hl_elems m). hkey conf (fst (snd e)) = hkey conf name} = {}" using u by force
    have "names_at conf m (hkey conf name) = {}" unfolding names_at_def e by (rule UN_empty)
    then show ?thesis using None by simp
  next
    case (Some i)
    then obtain g h where g: "(i, g, h) \<in> set (hl_elems m)" "hkey conf g = hkey conf name" "hl_get i m = Some (i, g, h)"
      using get_host_Some[OF wf] by (metis hgroup_list_locate_def)
    have "e = (i, g, h)" if "e \<in> set (hl_elems m)" "hkey conf (fst (snd e)) = hkey conf name" for e
    proof -
      have "hl_idx m (hkey conf name) = Some (fst e)" using u[of "fst e" "fst (snd e)" "snd (snd e)"] that by simp
      moreover have "hl_idx m (hkey conf name) = Some i" using u[OF g(1)] g(2) by simp
      ultimately have "fst e = i" by simp
      then show ?thesis using get_elem[of m i g h] get_elem[of m "fst e" "fst (snd e)" "snd (snd e)"] wf g(1) that(1)
        by (auto simp: hl_wf_def)
    qed
    note u1 = this
    have "(i, g, h) \<in> {e \<in> set (hl_elems m). hkey conf (fst (snd e)) = hkey conf name}" using g(1,2) by simp
    then have "{e \<in> set (hl_elems m). hkey conf (fst (snd e)) = hkey conf name} = {(i, g, h)}" using u1 by blast
    then show ?thesis using Some g(3) unfolding names_at_def host_list_of_def by simp
  qed
qed

section \<open>One level of references\<close>

text \<open>A list is only created to hold a name.\<close>

definition filled :: "hr_ptr \<Rightarrow> bool" where
  "filled p \<longleftrightarrow> (\<forall>l. p = Some (Some l) \<longrightarrow> hl_names l \<noteq> [])"

lemma add_filled: "ptr_ok conf p \<Longrightarrow> filled p \<Longrightarrow> filled (add_if_wanted conf p n)"
  using add_elem[of conf _ n] by (cases p) (auto simp: filled_def add_if_wanted_def href_list_add_def)

text \<open>What a step adds to the pointers: hosts \<open>H\<close> to the first and groups \<open>G\<close> to the second.\<close>

definition grows :: "bootstrap \<Rightarrow> string set \<Rightarrow> string set \<Rightarrow> hr_ptr \<times> hr_ptr \<Rightarrow> hr_ptr \<times> hr_ptr \<Rightarrow> bool" where
  "grows conf H G u u' \<longleftrightarrow> (ptr_ok conf (fst u) \<and> ptr_ok conf (snd u) \<longrightarrow>
     ptr_ok conf (fst u') \<and> ptr_ok conf (snd u') \<and> (fst u' = None \<longleftrightarrow> fst u = None) \<and> (snd u' = None \<longleftrightarrow> snd u = None) \<and>
     ptr_keys conf (fst u') = (if fst u = None then {} else ptr_keys conf (fst u) \<union> H) \<and>
     ptr_keys conf (snd u') = (if snd u = None then {} else ptr_keys conf (snd u) \<union> G) \<and>
     (filled (snd u) \<longrightarrow> filled (snd u')) \<and>
     (\<forall>n \<in> set (ptr_names (snd u')). n \<in> set (ptr_names (snd u)) \<or> is_hgroup_name n))"

lemma grows_refl: "grows conf {} {} u u"
  by (auto simp: grows_def)

lemma grows_trans: "grows conf H G u v \<Longrightarrow> grows conf H' G' v w \<Longrightarrow> grows conf (H \<union> H') (G \<union> G') u w"
  unfolding grows_def by (auto split: if_splits)

lemma grows_fold:
  assumes "\<And>x u. grows conf (H x) (G x) u (f x u)"
  shows "grows conf (\<Union>x \<in> set xs. H x) (\<Union>x \<in> set xs. G x) u (fold f xs u)"
proof (induction xs arbitrary: u)
  case (Cons x xs)
  then show ?case using grows_trans[OF assms[of x u] Cons.IH[of "f x u"]] by simp
qed (simp add: grows_refl)

lemma use_name_grows: "grows conf (hosts_in conf {n}) (groups_in conf {n}) u (use_name conf n u)"
proof (cases "is_hgroup_name n")
  case True
  then show ?thesis using add_wanted[of conf "snd u" n] add_filled[of conf "snd u" n]
    by (auto simp: grows_def use_name_def dest!: subsetD split: if_splits)
next
  case False
  then show ?thesis using add_wanted[of conf "fst u" n] by (auto simp: grows_def use_name_def split: if_splits)
qed

lemma UN_single: "(\<Union>n \<in> A. hosts_in conf {n}) = hosts_in conf A" "(\<Union>n \<in> A. groups_in conf {n}) = groups_in conf A"
  by (auto simp: hosts_in_def groups_in_def)

lemma use_names_grow: "grows conf (hosts_in conf (set ns)) (groups_in conf (set ns)) u (fold (use_name conf) ns u)"
  using grows_fold[of conf "\<lambda>n. hosts_in conf {n}" "\<lambda>n. groups_in conf {n}" "use_name conf" ns u, OF use_name_grows]
  unfolding UN_single .

definition refs_of :: "bootstrap \<Rightarrow> hgrp_list \<Rightarrow> string \<Rightarrow> string set" where
  "refs_of conf m n = (if is_hgroup_name n then names_at conf m (hkey conf n) else {n})"

lemma in_UN: "hosts_in conf (\<Union>x \<in> A. f x) = (\<Union>x \<in> A. hosts_in conf (f x))" "groups_in conf (\<Union>x \<in> A. f x) = (\<Union>x \<in> A. groups_in conf (f x))"
  by (auto simp: hosts_in_def groups_in_def)

lemma references_one_grows:
  assumes "master_ok conf m"
  shows "grows conf (hosts_in conf (refs_of conf m n)) (groups_in conf (refs_of conf m n)) u (references_one conf m n u)"
proof (cases "is_hgroup_name n")
  case True
  note l = locate_group[OF assms, of n]
  show ?thesis
  proof (cases "hgroup_list_locate conf (Some m) n")
    case None
    then show ?thesis using True l by (simp add: references_one_def refs_of_def grows_refl)
  next
    case (Some i)
    then show ?thesis using True l use_names_grow[of conf "names_of (host_list_of m i)" u]
      by (simp add: references_one_def refs_of_def)
  qed
next
  case False
  then show ?thesis using use_name_grows[of conf n u] by (simp add: references_one_def refs_of_def use_name_def)
qed

definition level :: "bootstrap \<Rightarrow> hgrp_list \<Rightarrow> string set \<Rightarrow> string set" where
  "level conf m ns = (\<Union>n \<in> ns. refs_of conf m n)"

lemma find_references_grows:
  assumes "master_ok conf m"
  shows "\<exists>u'. href_list_find_references conf (Some l) (Some m) uh ug = (True, u') \<and>
    grows conf (hosts_in conf (level conf m (set (hl_names l)))) (groups_in conf (level conf m (set (hl_names l)))) (uh, ug) u'"
  using grows_fold[OF references_one_grows[OF assms], where xs = "hl_names l" and u = "(uh, ug)"]
  by (simp add: href_list_find_references_def level_def in_UN)

lemma level_keys:
  "groups_in conf (level conf m ns) = group_edges conf m `` groups_in conf ns"
  "hosts_in conf (level conf m ns) = hosts_in conf ns \<union> hosts_at conf m (groups_in conf ns)"
proof -
  show "groups_in conf (level conf m ns) = group_edges conf m `` groups_in conf ns"
    unfolding level_def in_UN by (auto simp: group_edges_def refs_of_def groups_in_def split: if_splits)
  show "hosts_in conf (level conf m ns) = hosts_in conf ns \<union> hosts_at conf m (groups_in conf ns)"
    unfolding level_def in_UN by (auto simp: hosts_at_def refs_of_def groups_in_def hosts_in_def split: if_splits)
qed

section \<open>The recursion\<close>

lemma merge_keys:
  assumes "ptr_ok conf used" "ptr_ok conf sub"
  shows "ptr_ok conf (merge_lists conf used sub)"
    and "ptr_keys conf (merge_lists conf used sub) = (if used = None then {} else ptr_keys conf used \<union> ptr_keys conf sub)"
    and "merge_lists conf used sub = None \<longleftrightarrow> used = None"
    and "set (ptr_names (merge_lists conf used sub)) \<subseteq> set (ptr_names used) \<union> set (ptr_names sub)"
proof -
  have a: "hl_wf conf (hl_lAddList conf l l') \<and> hl_covers conf (\<lambda>_. True) (hl_lAddList conf l l') \<and>
    hl_names (hl_lAddList conf l l') = hl_names l @ hl_names l'" if "used = Some (Some l)" for l l' :: hr_list
    using add_list[of conf l "\<lambda>_. True" l'] assms(1) that by (simp add: ptr_ok_def)
  show "ptr_ok conf (merge_lists conf used sub)" using assms a by (auto simp: merge_lists_def ptr_ok_def split: option.splits)
  show "ptr_keys conf (merge_lists conf used sub) = (if used = None then {} else ptr_keys conf used \<union> ptr_keys conf sub)"
    using a by (auto simp: merge_lists_def ptr_keys_def ptr_names_def names_of_def split: option.splits)
  show "merge_lists conf used sub = None \<longleftrightarrow> used = None" by (simp add: merge_lists_def split: option.splits)
  show "set (ptr_names (merge_lists conf used sub)) \<subseteq> set (ptr_names used) \<union> set (ptr_names sub)"
    using a by (auto simp: merge_lists_def ptr_names_def names_of_def split: option.splits)
qed

lemma only_groups: "\<forall>n \<in> ns. is_hgroup_name n \<Longrightarrow> hosts_in conf ns = {} \<and> groups_in conf ns = hkey conf ` ns"
  by (auto simp: hosts_in_def groups_in_def)

lemma image_pow: "(r ^^ Suc N) `` A = (r ^^ N) `` (r `` A)"
proof -
  have "r ^^ Suc N = r O r ^^ N" by (simp add: relpow_commute)
  then show ?thesis by (simp only: relcomp_Image)
qed

lemma trancl_split: "r\<^sup>+ `` A = r `` A \<union> r\<^sup>+ `` (r `` A)"
  by (auto elim: converse_tranclE intro: trancl_into_trancl2)

lemma rtrancl_split: "r\<^sup>* `` A = A \<union> r\<^sup>* `` (r `` A)"
  by (auto elim: converse_rtranclE intro: converse_rtrancl_into_rtrancl)

lemma hosts_at_Un: "hosts_at conf m (A \<union> B) = hosts_at conf m A \<union> hosts_at conf m B"
  by (auto simp: hosts_at_def)

text \<open>What a call leaves when it has found hosts \<open>H\<close> and groups \<open>G\<close>.\<close>

definition found :: "bootstrap \<Rightarrow> string set \<Rightarrow> string set \<Rightarrow> hr_ptr \<Rightarrow> hr_ptr \<Rightarrow> hr_ptr \<Rightarrow> hr_ptr \<Rightarrow> bool" where
  "found conf H G uh ug uh' ug' \<longleftrightarrow>
     ptr_ok conf uh' \<and> ptr_ok conf ug' \<and> (uh' = None \<longleftrightarrow> uh = None) \<and> (ug' = None \<longleftrightarrow> ug = None) \<and>
     ptr_keys conf uh' = (if uh = None then {} else ptr_keys conf uh \<union> H) \<and>
     ptr_keys conf ug' = (if ug = None then {} else G) \<and> (\<forall>n \<in> set (ptr_names ug'). is_hgroup_name n)"

lemma one_level:
  fixes l :: hr_list
  assumes m: "master_ok conf m" and ok: "ptr_ok conf uh"
    and E: "E = group_edges conf m" and G: "G = groups_in conf (set (hl_names l))"
  obtains uh1 where "href_list_find_references conf (Some l) (Some m) uh (Some None) = (True, uh1, Some None)" "E `` G = {}"
      "found conf (hosts_in conf (set (hl_names l)) \<union> hosts_at conf m G) {} uh (Some None) uh1 (Some None)"
    | uh1 l1 where "href_list_find_references conf (Some l) (Some m) uh (Some None) = (True, uh1, Some (Some l1))"
      "groups_in conf (set (hl_names l1)) = E `` G" "hosts_in conf (set (hl_names l1)) = {}" "E `` G \<noteq> {}"
      "found conf (hosts_in conf (set (hl_names l)) \<union> hosts_at conf m G) (E `` G) uh (Some None) uh1 (Some (Some l1))"
proof -
  let ?H = "hosts_in conf (set (hl_names l)) \<union> hosts_at conf m G"
  obtain uh1 ug1 where u1: "href_list_find_references conf (Some l) (Some m) uh (Some None) = (True, uh1, ug1)"
    and g: "grows conf ?H (E `` G) (uh, Some None) (uh1, ug1)"
    using find_references_grows[OF m, of l uh "Some None"] unfolding level_keys E G by (metis prod.collapse)
  have f: "found conf ?H (E `` G) uh (Some None) uh1 ug1" and fl: "filled ug1" "ug1 \<noteq> None"
    using g ok by (auto simp: grows_def found_def filled_def)
  show thesis
  proof (cases "ug1 = Some None")
    case True
    then have "E `` G = {}" using f by (simp add: found_def)
    then show ?thesis using that(1) u1 f True by simp
  next
    case False
    then obtain l1 where l1: "ug1 = Some (Some l1)" using fl(2) by (cases ug1) auto
    have k: "\<forall>n \<in> set (hl_names l1). is_hgroup_name n" "hl_keys conf l1 = E `` G" "hl_names l1 \<noteq> []"
      using f l1 fl(1) by (auto simp: found_def filled_def)
    then have "E `` G \<noteq> {}" by (auto simp: hl_keys_def)
    then show ?thesis using that(2) u1 f l1 only_groups[OF k(1)] k(2) by (simp add: hl_keys_def)
  qed
qed

lemma found_merge:
  assumes "found conf H1 G1 uh (Some None) uh1 (Some (Some l1))" "found conf H2 G2 (Some None) (Some None) suh sug"
    "ug = None \<or> ug = Some None"
  shows "found conf (H1 \<union> H2) (G1 \<union> G2) uh ug (merge_lists conf uh1 suh)
    (if ug = None then None else merge_lists conf (Some (Some l1)) sug)"
  using assms merge_keys[of conf uh1 suh] merge_keys[of conf "Some (Some l1)" sug]
  unfolding found_def by (auto dest: subsetD)

lemma found_no_groups:
  "found conf H {} uh (Some None) uh1 (Some None) \<Longrightarrow> ug = None \<or> ug = Some None \<Longrightarrow>
   found conf H {} uh ug uh1 (if ug = None then None else Some None)"
  unfolding found_def by auto

lemma find_all_level:
  fixes l :: hr_list
  assumes m: "master_ok conf m" and ok: "ptr_ok conf uh" and ug: "ug = None \<or> ug = Some None"
    and E: "E = group_edges conf m" and G: "G = groups_in conf (set (hl_names l))"
    and below: "\<And>l1. groups_in conf (set (hl_names l1)) = E `` G \<Longrightarrow> hosts_in conf (set (hl_names l1)) = {} \<Longrightarrow> E `` G \<noteq> {} \<Longrightarrow>
      \<exists>suh sug. href_list_find_all_references conf (Some l1) (Some m) (Some None) (Some None) = Some (True, suh, sug) \<and>
        found conf (hosts_at conf m (E\<^sup>* `` (E `` G))) (E\<^sup>+ `` (E `` G)) (Some None) (Some None) suh sug"
  shows "\<exists>uh' ug'. href_list_find_all_references conf (Some l) (Some m) uh ug = Some (True, uh', ug') \<and>
    found conf (hosts_in conf (set (hl_names l)) \<union> hosts_at conf m (E\<^sup>* `` G)) (E\<^sup>+ `` G) uh ug uh' ug'"
proof (rule one_level[OF m ok E G])
  have t: "(if ug = None then Some None else ug) = Some None" using ug by auto
  let ?H = "hosts_in conf (set (hl_names l)) \<union> hosts_at conf m G"
  {
    fix uh1 assume u: "href_list_find_references conf (Some l) (Some m) uh (Some None) = (True, uh1, Some None)"
      and e: "E `` G = {}" and f: "found conf ?H {} uh (Some None) uh1 (Some None)"
    have "E\<^sup>+ `` G = {}" "E\<^sup>* `` G = G" using trancl_split[of E G] rtrancl_split[of E G] e by simp_all
    moreover have "href_list_find_all_references conf (Some l) (Some m) uh ug =
        Some (True, uh1, if ug = None then None else Some None)"
      using u t by (subst href_list_find_all_references.simps) simp
    ultimately show ?thesis using found_no_groups[OF f ug] by simp
  next
    fix uh1 l1 assume u: "href_list_find_references conf (Some l) (Some m) uh (Some None) = (True, uh1, Some (Some l1))"
      and l1: "groups_in conf (set (hl_names l1)) = E `` G" "hosts_in conf (set (hl_names l1)) = {}" "E `` G \<noteq> {}"
      and f: "found conf ?H (E `` G) uh (Some None) uh1 (Some (Some l1))"
    obtain suh sug where s: "href_list_find_all_references conf (Some l1) (Some m) (Some None) (Some None) = Some (True, suh, sug)"
      "found conf (hosts_at conf m (E\<^sup>* `` (E `` G))) (E\<^sup>+ `` (E `` G)) (Some None) (Some None) suh sug"
      using below[OF l1] by blast
    have "href_list_find_all_references conf (Some l) (Some m) uh ug =
        Some (True, merge_lists conf uh1 suh, if ug = None then None else merge_lists conf (Some (Some l1)) sug)"
      using u t s(1) by (subst href_list_find_all_references.simps) simp
    moreover have "?H \<union> hosts_at conf m (E\<^sup>* `` (E `` G)) = hosts_in conf (set (hl_names l)) \<union> hosts_at conf m (E\<^sup>* `` G)"
      unfolding rtrancl_split[of E G] hosts_at_Un by (rule Un_assoc)
    ultimately show ?thesis using found_merge[OF f s(2) ug] unfolding trancl_split[of E G] by auto
  }
qed

lemma find_all_returns:
  assumes m: "master_ok conf m" and E: "E = group_edges conf m"
    and "(E ^^ N) `` groups_in conf (set (hl_names l)) = {}" "ptr_ok conf uh" "ug = None \<or> ug = Some None"
  shows "\<exists>uh' ug'. href_list_find_all_references conf (Some l) (Some m) uh ug = Some (True, uh', ug') \<and>
    found conf (hosts_in conf (set (hl_names l)) \<union> hosts_at conf m (E\<^sup>* `` groups_in conf (set (hl_names l))))
      (E\<^sup>+ `` groups_in conf (set (hl_names l))) uh ug uh' ug'"
  using assms(3-)
proof (induction N arbitrary: l uh ug)
  case 0
  show ?case
  proof (rule find_all_level[OF m 0(2,3) E refl], goal_cases)
    case 1
    then show ?case using 0(1) by simp
  qed
next
  case (Suc N)
  show ?case
  proof (rule find_all_level[OF m Suc.prems(2,3) E refl], goal_cases)
    case (1 l1)
    have "(E ^^ N) `` groups_in conf (set (hl_names l1)) = {}" using Suc.prems(1) unfolding image_pow 1(1) .
    from Suc.IH[OF this, of "Some None" "Some None"] show ?case unfolding 1(1,2) by simp
  qed
qed

text \<open>When it returns, the levels below have come to an end.\<close>

lemma find_all_ends:
  assumes m: "master_ok conf m" and E: "E = group_edges conf m"
    and "href_list_find_all_references conf this master uh ug = Some r"
    and "this = Some l" "master = Some m" "ptr_ok conf uh" "ug = None \<or> ug = Some None"
  shows "\<exists>N. (E ^^ N) `` groups_in conf (set (hl_names l)) = {}"
  using assms(3-7) m E
proof (induction arbitrary: l rule: href_list_find_all_references.raw_induct[rotated, consumes 1, case_names level])
  case (level rec conf this master uh ug r)
  have t: "(if ug = None then Some None else ug) = Some None" using level.prems(4) by auto
  show ?case
  proof (rule one_level[OF level.prems(5,3,6) refl, of l])
    assume "E `` groups_in conf (set (hl_names l)) = {}"
    then have "(E ^^ 1) `` groups_in conf (set (hl_names l)) = {}" by simp
    then show ?thesis by blast
  next
    fix uh1 l1 assume u: "href_list_find_references conf (Some l) (Some m) uh (Some None) = (True, uh1, Some (Some l1))"
      and l1: "groups_in conf (set (hl_names l1)) = E `` groups_in conf (set (hl_names l))"
    obtain r' where "rec conf (Some l1) (Some m) (Some None) (Some None) = Some r'"
      using level.hyps u t unfolding level.prems(1,2) by (auto simp: Option.bind_eq_Some_conv)
    then obtain N where "(E ^^ N) `` groups_in conf (set (hl_names l1)) = {}"
      using level.IH[of conf "Some l1" "Some m" "Some None" "Some None" r' l1] level.prems(5,6) by auto
    then have "(E ^^ Suc N) `` groups_in conf (set (hl_names l)) = {}" unfolding l1 image_pow .
    then show ?thesis by blast
  qed
qed

end
