(* ===== verification/Host_References.thy ===== *)
theory Host_References
  imports Host_Groups_Facts
begin

text \<open>
  Properties of references to hosts and host groups: when the search for all references ends and what it
  finds, what the difference of two lists holds, and where removing duplicates goes wrong.
\<close>

section \<open>Ends of graphs\<close>

lemma pow_end_mono: "((r :: ('a \<times> 'a) set) ^^ N) `` A = {} \<Longrightarrow> (r ^^ (N + k)) `` A = {}"
  by (simp add: relpow_add relcomp_Image)

lemma cycle_steps: "(k, k) \<in> (r :: ('a \<times> 'a) set)\<^sup>+ \<Longrightarrow> \<exists>y. (k, y) \<in> r ^^ n \<and> (y, k) \<in> r\<^sup>+"
proof (induction n)
  case (Suc n)
  then obtain y where y: "(k, y) \<in> r ^^ n" "(y, k) \<in> r\<^sup>+" by blast
  from y(2) obtain z where z: "(y, z) \<in> r" "z = k \<or> (z, k) \<in> r\<^sup>+" by (metis converse_tranclE)
  then have "(k, z) \<in> r ^^ Suc n" using y(1) by auto
  then show ?case using z(2) Suc.prems by blast
qed simp

lemma cycle_endless:
  assumes "k \<in> r\<^sup>* `` A" "(k, k) \<in> r\<^sup>+"
  shows "(r ^^ N) `` A \<noteq> {}"
proof
  assume e: "(r ^^ N) `` A = {}"
  obtain x j where x: "x \<in> A" "(x, k) \<in> r ^^ j" using assms(1) rtrancl_imp_relpow by blast
  obtain y where "(k, y) \<in> r ^^ N" using cycle_steps[OF assms(2)] by blast
  then have "(x, y) \<in> r ^^ (j + N)" using x(2) unfolding relpow_add by blast
  moreover have "(r ^^ (j + N)) `` A = {}" using pow_end_mono[OF e, of j] by (simp only: add.commute)
  ultimately show False using x(1) by blast
qed

lemma uniform_end:
  fixes r :: "('a \<times> 'a) set"
  assumes "finite A" "\<And>x. x \<in> A \<Longrightarrow> \<exists>N. (r ^^ N) `` {x} = {}"
  shows "\<exists>N. (r ^^ N) `` A = {}"
  using assms
proof (induction A rule: finite_induct)
  case (insert x A)
  obtain M N where "(r ^^ M) `` {x} = {}" "(r ^^ N) `` A = {}" using insert by blast
  then have "(r ^^ (M + N)) `` {x} = {}" "(r ^^ (M + N)) `` A = {}"
    using pow_end_mono[of M r "{x}" N] pow_end_mono[of N r A M] by (simp_all add: add.commute)
  then have "(r ^^ (M + N)) `` insert x A = {}" by blast
  then show ?case by blast
qed simp

lemma acyclic_end:
  assumes fin: "finite r" "finite A" and ac: "\<And>k. k \<in> r\<^sup>* `` A \<Longrightarrow> (k, k) \<notin> r\<^sup>+"
  shows "\<exists>N. (r ^^ N) `` A = {}"
proof -
  define q where "q = Restr r (r\<^sup>* `` A)"
  have "q \<subseteq> r" by (auto simp: q_def)
  then have qt: "q\<^sup>+ \<subseteq> r\<^sup>+" by (rule trancl_mono_subset)
  have "acyclic q"
  proof (rule acyclicI, intro allI notI)
    fix k assume k: "(k, k) \<in> q\<^sup>+"
    then obtain z where "(k, z) \<in> q" by (metis converse_tranclE)
    then have "k \<in> r\<^sup>* `` A" by (simp add: q_def)
    then show False using ac k qt by blast
  qed
  then have w: "wf (q\<inverse>)" using fin(1) by (intro finite_acyclic_wf_converse) (simp_all add: q_def)
  have "x \<in> r\<^sup>* `` A \<Longrightarrow> \<exists>N. (r ^^ N) `` {x} = {}" for x
    using w
  proof (induction x rule: wf_induct_rule)
    case (less x)
    have "\<exists>N. (r ^^ N) `` (r `` {x}) = {}"
    proof (rule uniform_end)
      show "finite (r `` {x})" using fin(1) by simp
      fix y assume y: "y \<in> r `` {x}"
      then have "y \<in> r\<^sup>* `` A" using less.prems by (auto intro: rtrancl_into_rtrancl)
      then show "\<exists>N. (r ^^ N) `` {y} = {}" using less.IH[of y] less.prems y by (simp add: q_def)
    qed
    then show ?case unfolding image_pow[symmetric] by blast
  qed
  then show ?thesis using uniform_end[OF fin(2)] by (meson Image_singleton_iff rtrancl.rtrancl_refl ImageI)
qed

lemma finite_names_at: "finite (names_at conf m k)"
  by (simp add: names_at_def)

lemma finite_groups_in: "finite ns \<Longrightarrow> finite (groups_in conf ns)"
  by (simp add: groups_in_def)

lemma finite_edges: "finite (group_edges conf m)"
proof -
  let ?K = "(\<lambda>e. hkey conf (fst (snd e))) ` set (hl_elems m)"
  have "group_edges conf m \<subseteq> (\<Union>k \<in> ?K. {k} \<times> groups_in conf (names_at conf m k))"
  proof
    fix x assume x: "x \<in> group_edges conf m"
    then have "fst x \<in> ?K" by (force simp: group_edges_def groups_in_def names_at_def)
    moreover have "x \<in> {fst x} \<times> groups_in conf (names_at conf m (fst x))" using x by (auto simp: group_edges_def)
    ultimately show "x \<in> (\<Union>k \<in> ?K. {k} \<times> groups_in conf (names_at conf m k))" by (rule UN_I)
  qed
  moreover have "finite (\<Union>k \<in> ?K. {k} \<times> groups_in conf (names_at conf m k))"
    by (simp add: finite_groups_in finite_names_at)
  ultimately show ?thesis by (rule finite_subset)
qed

section \<open>All references\<close>

text \<open>C16. Starting from a list of names, \<open>href_list_find_all_references\<close> returns unless a group that can be
  reached over any number of references lies on a cycle of references, and when it does not return there is
  such a cycle. When it returns, the hosts are those of the list and those in the groups that can be reached,
  and the groups are those that can be reached by at least one reference, both compared by key.\<close>

theorem all_references_are_found:
  assumes "master_ok conf m"
  shows "case href_list_find_all_references conf (Some l) (Some m) (Some None) (Some None) of
     None \<Rightarrow> \<exists>k \<in> (group_edges conf m)\<^sup>* `` groups_in conf (set (hl_names l)). (k, k) \<in> (group_edges conf m)\<^sup>+
   | Some (r, hosts, groups) \<Rightarrow>
       (\<forall>k \<in> (group_edges conf m)\<^sup>* `` groups_in conf (set (hl_names l)). (k, k) \<notin> (group_edges conf m)\<^sup>+) \<and> r \<and>
       ptr_keys conf hosts = hosts_in conf (set (hl_names l)) \<union>
         hosts_at conf m ((group_edges conf m)\<^sup>* `` groups_in conf (set (hl_names l))) \<and>
       ptr_keys conf groups = (group_edges conf m)\<^sup>+ `` groups_in conf (set (hl_names l))"
proof (cases "href_list_find_all_references conf (Some l) (Some m) (Some None) (Some None)")
  case None
  have "\<nexists>N. (group_edges conf m ^^ N) `` groups_in conf (set (hl_names l)) = {}"
    using find_all_returns[OF assms refl, of _ l "Some None" "Some None"] None by fastforce
  then show ?thesis
    using acyclic_end[OF finite_edges finite_groups_in[OF finite_set], of conf m conf "hl_names l"] None by auto
next
  case (Some x)
  then obtain N where N: "(group_edges conf m ^^ N) `` groups_in conf (set (hl_names l)) = {}"
    using find_all_ends[OF assms refl Some refl refl] by auto
  show ?thesis
    using find_all_returns[OF assms refl N, of "Some None" "Some None"] cycle_endless[OF _ _ ] N
    by (fastforce simp: found_def)
qed

end
