(* ===== verification/Host_Admin_Facts.thy ===== *)
theory Host_Admin_Facts
  imports Host_Admin Host_References
begin

text \<open>
  What the requests keep of the list of all groups: every group is found by its name, in every list of hosts
  every group is found, and no group holds itself over any number of references. The requests themselves
  always come to an end then.
\<close>

section \<open>Lists in which groups are found\<close>

definition keys_of :: "bootstrap \<Rightarrow> (string \<Rightarrow> bool) \<Rightarrow> string list \<Rightarrow> string list" where
  "keys_of conf P ns = map (hkey conf) (filter P ns)"

lemma keys_of_simps [simp]: "keys_of conf P [] = []"
  "keys_of conf P (n # ns) = (if P n then hkey conf n # keys_of conf P ns else keys_of conf P ns)"
  "keys_of conf P (ns @ ns') = keys_of conf P ns @ keys_of conf P ns'"
  by (auto simp: keys_of_def)

lemma in_keys: "k \<in> set (keys_of conf P ns) \<longleftrightarrow> (\<exists>n \<in> set ns. P n \<and> k = hkey conf n)"
  by (auto simp: keys_of_def)

lemma names_elems: "hl_names l = map (\<lambda>e. fst (snd e)) (hl_elems l)"
  by (simp add: hl_names_def comp_def)

abbreviation append_all :: "bootstrap \<Rightarrow> (nat \<times> string \<times> 'a) list \<Rightarrow> 'a host_list \<Rightarrow> 'a host_list" where
  "append_all conf \<equiv> fold (\<lambda>e. hl_lAppendElem conf (fst (snd e)) (snd (snd e)))"

lemma append_all_list:
  assumes "hl_wf conf l"
  shows "hl_wf conf (append_all conf es l) \<and> hl_names (append_all conf es l) = hl_names l @ map (\<lambda>e. fst (snd e)) es"
  using assms by (induction es arbitrary: l) (simp_all add: append_list)

lemma append_all_exact:
  assumes "hl_wf conf l" "hl_exact conf P l" "by_key conf P"
    and "distinct (keys_of conf P (hl_names l @ map (\<lambda>e. fst (snd e)) es))"
  shows "hl_exact conf P (append_all conf es l)"
  using assms(1,2,4)
proof (induction es arbitrary: l)
  case (Cons e es)
  have "hl_exact conf P (hl_lAppendElem conf (fst (snd e)) (snd (snd e)) l)"
  proof (rule append_exact[OF Cons.prems(1,2)], intro ballI impI notI)
    fix x assume x: "x \<in> set (hl_names l)" "P x" "hkey conf x = hkey conf (fst (snd e))"
    then have "P (fst (snd e))" using assms(3) unfolding by_key_def by blast
    then have "hkey conf (fst (snd e)) \<in> set (keys_of conf P (hl_names l))" using x unfolding in_keys by metis
    then show False using Cons.prems(3) \<open>P (fst (snd e))\<close> by auto
  qed
  moreover have "distinct (keys_of conf P (hl_names (hl_lAppendElem conf (fst (snd e)) (snd (snd e)) l) @ map (\<lambda>e. fst (snd e)) es))"
    using Cons.prems(3) by (simp add: append_list[OF Cons.prems(1)])
  ultimately show ?case using Cons.IH[OF append_list(1)[OF Cons.prems(1)]] by simp
qed simp

lemma exact_distinct:
  assumes "hl_wf conf l" "hl_exact conf P l"
  shows "distinct (keys_of conf P (hl_names l))"
proof -
  have "distinct (keys_of conf P (map (\<lambda>e. fst (snd e)) es))" if "set es \<subseteq> set (hl_elems l)" "distinct (map fst es)" for es
    using that
  proof (induction es)
    case (Cons e es)
    have "hkey conf (fst (snd e)) \<notin> set (keys_of conf P (map (\<lambda>e. fst (snd e)) es))" if "P (fst (snd e))"
    proof
      assume "hkey conf (fst (snd e)) \<in> set (keys_of conf P (map (\<lambda>e. fst (snd e)) es))"
      then obtain e' where e': "e' \<in> set es" "P (fst (snd e'))" "hkey conf (fst (snd e)) = hkey conf (fst (snd e'))"
        unfolding in_keys by auto
      have "hl_idx l (hkey conf (fst (snd e))) = Some (fst e)" "hl_idx l (hkey conf (fst (snd e'))) = Some (fst e')"
        using assms(2) e' that Cons.prems(1) by (auto simp: hl_exact_def)
      then have "fst e = fst e'" using e'(3) by simp
      then show False using Cons.prems(2) e'(1) by force
    qed
    then show ?case using Cons by simp
  qed simp
  from this[of "hl_elems l"] show ?thesis using assms(1) by (simp add: hl_wf_def names_elems)
qed

lemma copy_list:
  assumes "hl_copy = hl_lCopyList conf (Some l)"
  obtains l' where "hl_copy = Some l'" "hl_wf conf l'" "hl_names l' = hl_names l"
    "\<And>P. by_key conf P \<Longrightarrow> hl_wf conf l \<Longrightarrow> hl_exact conf P l \<Longrightarrow> hl_exact conf P l'"
proof -
  let ?e = "\<lparr>hl_elems = [], hl_ht = Some (string_htable (hash_compute_size (int (length (hl_elems l))))), hl_next = 0\<rparr>"
  have e: "hl_wf conf ?e" "hl_names ?e = []" using empty_list[of conf] by (auto simp: names_elems)
  have "hl_exact conf P (append_all conf (hl_elems l) ?e)" if "by_key conf P" "hl_wf conf l" "hl_exact conf P l" for P
  proof (rule append_all_exact[OF e(1) _ that(1)])
    show "hl_exact conf P ?e" by (simp add: hl_exact_def)
    show "distinct (keys_of conf P (hl_names ?e @ map (\<lambda>e. fst (snd e)) (hl_elems l)))"
      using exact_distinct[OF that(2,3)] by (simp add: e(2) names_elems)
  qed
  then show thesis using that[of "append_all conf (hl_elems l) ?e"] append_all_list[OF e(1), of "hl_elems l"] assms e(2)
    by (simp add: hl_lCopyList_def names_elems)
qed

lemma copy_list_None [simp]: "hl_lCopyList conf None = None"
  by (simp add: hl_lCopyList_def)

definition good_list :: "bootstrap \<Rightarrow> hr_list option \<Rightarrow> bool" where
  "good_list conf h \<longleftrightarrow> (\<forall>l. h = Some l \<longrightarrow> hl_wf conf l \<and> hl_exact conf is_hgroup_name l)"

lemma good_simps [simp]: "good_list conf None" "good_list conf (Some l) \<longleftrightarrow> hl_wf conf l \<and> hl_exact conf is_hgroup_name l"
  by (auto simp: good_list_def)

lemma names_of_simps [simp]: "names_of None = []" "names_of (Some l) = hl_names l"
  by (auto simp: names_of_def)

definition group_keys :: "bootstrap \<Rightarrow> hr_list option \<Rightarrow> string set" where
  "group_keys conf h = groups_in conf (set (names_of h))"

lemma good_copy:
  assumes "by_key conf is_hgroup_name" "good_list conf h"
  shows "good_list conf (hl_lCopyList conf h) \<and> names_of (hl_lCopyList conf h) = names_of h"
proof (cases h)
  case (Some l)
  obtain l' where "hl_lCopyList conf h = Some l'" "hl_wf conf l'" "hl_names l' = hl_names l"
    "\<And>P. by_key conf P \<Longrightarrow> hl_wf conf l \<Longrightarrow> hl_exact conf P l \<Longrightarrow> hl_exact conf P l'"
    using copy_list[OF refl, of conf l] Some by metis
  then show ?thesis using assms Some by simp
qed simp

lemma group_member:
  assumes "by_key conf is_hgroup_name" "good_list conf h" "is_hgroup_name n"
  shows "href_list_has_member conf h (Some n) \<longleftrightarrow> hkey conf n \<in> group_keys conf h"
proof (cases h)
  case (Some l)
  have l: "hl_wf conf l" "hl_covers conf is_hgroup_name l" using assms(2) Some exact_covers by auto
  have "hkey conf n \<in> hl_keys conf l \<longleftrightarrow> hkey conf n \<in> group_keys conf h"
  proof
    assume "hkey conf n \<in> hl_keys conf l"
    then obtain x where x: "x \<in> set (hl_names l)" "hkey conf n = hkey conf x" by (auto simp: hl_keys_def)
    then have "is_hgroup_name x" using assms(1,3) unfolding by_key_def by blast
    then show "hkey conf n \<in> group_keys conf h" using x Some by (auto simp: group_keys_def groups_in_def)
  next
    assume "hkey conf n \<in> group_keys conf h"
    then show "hkey conf n \<in> hl_keys conf l" using Some by (auto simp: group_keys_def groups_in_def hl_keys_def)
  qed
  then show ?thesis using member_keys[OF l assms(3,1)] Some
    by (simp add: href_list_has_member_def href_list_locate_def)
qed (simp add: href_list_has_member_def group_keys_def)

lemma group_locate: "href_list_locate conf h (Some n) \<noteq> None \<longleftrightarrow> href_list_has_member conf h (Some n)"
  by (auto simp: href_list_has_member_def href_list_locate_def)

section \<open>Renaming a host\<close>

lemma get_in: "hl_get i l = Some (j, n, r) \<Longrightarrow> j = i \<and> (i, n, r) \<in> set (hl_elems l)"
  unfolding hl_get_def find_Some_iff by (metis fst_conv nth_mem)

lemma set_host:
  assumes l: "hl_wf conf l" "hl_exact conf P l" and e: "hl_get i l = Some (j, n, r)" and p: "by_key conf P" "\<not> P n" "\<not> P v"
  shows "hl_wf conf (hl_lSetHost conf i v l)" and "hl_exact conf P (hl_lSetHost conf i v l)"
    and "filter P (hl_names (hl_lSetHost conf i v l)) = filter P (hl_names l)"
proof -
  have je: "j = i" "(i, n, r) \<in> set (hl_elems l)" using get_in[OF e] by auto
  obtain t where t: "hl_ht l = Some t" "ht_ok (hash_func_string \<circ> Some) hash_compare_string t"
    using l(1) by (auto simp: hl_wf_def)
  have d: "distinct (map fst (hl_elems l))" using l(1) by (simp add: hl_wf_def)
  have u: "n' = n" if "(i, n', r') \<in> set (hl_elems l)" for n' r'
    using get_elem[OF d that] e by simp
  let ?f = "\<lambda>e. if fst e = i then (i, v, snd (snd e)) else e"
  let ?l = "hl_lSetHost conf i v l"
  have "hl_wf conf ?l \<and> hl_exact conf P ?l \<and> filter P (hl_names ?l) = filter P (hl_names l)"
  proof (cases "v = n")
    case True
    then show ?thesis using l e by (simp add: hl_lSetHost_def)
  next
    case False
    note t1 = string_table_delete[OF t(2), of "hkey conf n"]
    note t2 = string_table_store[OF conjunct1[OF t1], of "hkey conf v" i]
    have el: "hl_elems ?l = map ?f (hl_elems l)" and nx: "hl_next ?l = hl_next l"
      and ht: "hl_ht ?l = Some (sge_htable_store (sge_htable_delete t (hkey conf n)) (hkey conf v) i)"
      using False e t(1) by (simp_all add: hl_lSetHost_def index_delete_def index_store_def Let_def)
    have ix: "hl_idx ?l = (hl_idx l)(hkey conf n := None, hkey conf v \<mapsto> i)"
      using ht t(1) t1 t2 by (simp add: hl_idx_def)
    have "\<exists>x q. (a, x, q) \<in> set (hl_elems ?l) \<and> hkey conf x = k" if "hl_idx ?l k = Some a" for k a
    proof (cases "k = hkey conf v")
      case True
      then have "a = i" using that ix by simp
      moreover have "?f (i, n, r) \<in> ?f ` set (hl_elems l)" using je(2) by (rule imageI)
      ultimately show ?thesis using True unfolding el by auto
    next
      case k: False
      then have "hl_idx l k = Some a" "k \<noteq> hkey conf n" using that ix by (auto split: if_splits)
      then obtain x q where x: "(a, x, q) \<in> set (hl_elems l)" "hkey conf x = k" using wf_sound[OF l(1)] by blast
      then have "a \<noteq> i" using u \<open>k \<noteq> hkey conf n\<close> by auto
      moreover have "?f (a, x, q) \<in> ?f ` set (hl_elems l)" using x(1) by (rule imageI)
      ultimately show ?thesis using x(2) unfolding el by auto
    qed
    moreover have "map fst (hl_elems ?l) = map fst (hl_elems l)" unfolding el by (induction "hl_elems l") auto
    moreover have "\<forall>x \<in> set (hl_elems ?l). fst x < hl_next ?l"
      using l(1) unfolding el nx by (auto simp: hl_wf_def)
    ultimately have wf: "hl_wf conf ?l" using t2 ht d unfolding hl_wf_def by simp
    have ex: "hl_exact conf P ?l" unfolding hl_exact_def
    proof (intro ballI impI)
      fix x assume x: "x \<in> set (hl_elems ?l)" "P (fst (snd x))"
      then obtain y where y: "y \<in> set (hl_elems l)" "x = ?f y" unfolding el set_map by blast
      then have m: "x \<in> set (hl_elems l)" "fst x \<noteq> i" using x(2) p(3) by (simp_all split: if_splits)
      then have "hl_idx l (hkey conf (fst (snd x))) = Some (fst x)" using l(2) x(2) by (simp add: hl_exact_def)
      moreover have "hkey conf (fst (snd x)) \<noteq> hkey conf n" "hkey conf (fst (snd x)) \<noteq> hkey conf v"
        using p x(2) unfolding by_key_def by blast+
      ultimately show "hl_idx ?l (hkey conf (fst (snd x))) = Some (fst x)" by (simp add: ix)
    qed
    have "filter P (map (\<lambda>e. fst (snd e)) (map ?f es)) = filter P (map (\<lambda>e. fst (snd e)) es)"
      if "\<forall>x \<in> set es. fst x = i \<longrightarrow> \<not> P (fst (snd x))" for es
      using that p(3) by (induction es) auto
    then have "filter P (hl_names ?l) = filter P (hl_names l)" using u p(2) unfolding names_elems el by fastforce
    then show ?thesis using wf ex by simp
  qed
  then show "hl_wf conf ?l" "hl_exact conf P ?l" "filter P (hl_names ?l) = filter P (hl_names l)" by simp_all
qed

definition resolver_ok :: "(string \<Rightarrow> string option) \<Rightarrow> bool" where
  "resolver_ok r \<longleftrightarrow> (\<forall>h n. r h = Some n \<longrightarrow> \<not> is_hgroup_name n)"

lemma resolve_fold:
  assumes "by_key conf is_hgroup_name" "resolver_ok res" "hl_wf conf l" "hl_exact conf is_hgroup_name l"
  shows "hl_wf conf (snd (fold (resolve_one conf res ign) is (r, l))) \<and>
    hl_exact conf is_hgroup_name (snd (fold (resolve_one conf res ign) is (r, l))) \<and>
    filter is_hgroup_name (hl_names (snd (fold (resolve_one conf res ign) is (r, l)))) = filter is_hgroup_name (hl_names l)"
  using assms(3,4)
proof (induction "is" arbitrary: r l)
  case (Cons i "is")
  let ?s = "resolve_one conf res ign i (r, l)"
  have "hl_wf conf (snd ?s) \<and> hl_exact conf is_hgroup_name (snd ?s) \<and>
      filter is_hgroup_name (hl_names (snd ?s)) = filter is_hgroup_name (hl_names l)"
  proof (cases "hl_get i l")
    case (Some e)
    then obtain j n q where e: "hl_get i l = Some (j, n, q)" by (cases e) auto
    show ?thesis
    proof (cases "is_hgroup_name n \<or> res n = None")
      case True
      then show ?thesis using e Cons.prems by (auto simp: resolve_one_def split: option.splits)
    next
      case False
      then obtain v where v: "res n = Some v" "\<not> is_hgroup_name n" "\<not> is_hgroup_name v"
        using assms(2) by (auto simp: resolver_ok_def)
      show ?thesis using set_host[OF Cons.prems e assms(1) v(2,3)] e v by (simp add: resolve_one_def)
    qed
  qed (simp add: resolve_one_def Cons.prems)
  then show ?case using Cons.IH[of "snd ?s" "fst ?s"] by simp
qed simp

lemma group_keys_filter:
  "filter is_hgroup_name (names_of h) = filter is_hgroup_name (names_of h') \<Longrightarrow> group_keys conf h = group_keys conf h'"
proof -
  have "groups_in conf (set ns) = hkey conf ` set (filter is_hgroup_name ns)" for ns by (auto simp: groups_in_def)
  then show "filter is_hgroup_name (names_of h) = filter is_hgroup_name (names_of h') \<Longrightarrow> group_keys conf h = group_keys conf h'"
    unfolding group_keys_def by metis
qed

lemma resolve_good:
  assumes "by_key conf is_hgroup_name" "resolver_ok res" "good_list conf h"
  shows "good_list conf (snd (href_list_resolve_hostnames conf res h ign)) \<and>
    group_keys conf (snd (href_list_resolve_hostnames conf res h ign)) = group_keys conf h"
proof (cases h)
  case (Some l)
  have l: "hl_wf conf l" "hl_exact conf is_hgroup_name l" using assms(3) Some by simp_all
  let ?s = "fold (resolve_one conf res ign) (map fst (hl_elems l)) (True, l)"
  have "snd (href_list_resolve_hostnames conf res h ign) = Some (snd ?s)"
    using Some by (simp add: href_list_resolve_hostnames_def split: prod.splits)
  then show ?thesis using resolve_fold[OF assms(1,2) l, of ign "map fst (hl_elems l)" True] Some
    by (simp add: group_keys_filter)
qed (simp add: href_list_resolve_hostnames_def)

section \<open>Changing a list\<close>

lemma dechain_good:
  assumes "by_key conf P" "hl_wf conf l" "hl_exact conf P l"
  shows "hl_wf conf (hl_lDechainElem conf i l) \<and> hl_exact conf P (hl_lDechainElem conf i l) \<and>
    set (hl_elems (hl_lDechainElem conf i l)) \<subseteq> set (hl_elems l)"
proof (cases "hl_get i l")
  case None
  then show ?thesis using assms by (simp add: hl_lDechainElem_def)
next
  case (Some e)
  obtain j n q where e: "hl_get i l = Some (j, n, q)" using Some by (cases e) auto
  note m = conjunct2[OF get_in[OF e]]
  show ?thesis using dechain_list[OF assms(2) m] dechain_exact[OF assms(2) m assms(3,1)] by auto
qed

lemma host_key_hkey: "sge_hostcmp conf (Some a) (Some b) = 0 \<longleftrightarrow> hkey conf a = hkey conf b"
  by (simp add: sge_hostcmp_def key_hostcmp)

lemma full_element_None:
  "full_element conf r full = None \<longleftrightarrow> (\<forall>n \<in> set (names_of full). hkey conf n \<noteq> hkey conf r)"
proof (cases full)
  case (Some f)
  have "full_element conf r full = None \<longleftrightarrow> (\<forall>e \<in> set (hl_elems f). hkey conf r \<noteq> hkey conf (fst (snd e)))"
    unfolding full_element_def Some option.case find_None_iff host_key_hkey by blast
  then show ?thesis unfolding Some names_of_simps names_elems by auto
qed (simp add: full_element_def)

lemma full_element_Some:
  assumes "full_element conf r full = Some (j, f, u)"
  obtains l where "full = Some l" "hkey conf r = hkey conf f"
proof (cases full)
  case (Some l)
  then obtain k where "hkey conf r = hkey conf (fst (snd (hl_elems l ! k)))" "(j, f, u) = hl_elems l ! k"
    using assms unfolding full_element_def Some option.case find_Some_iff host_key_hkey by blast
  then show ?thesis using that Some by (metis fst_conv snd_conv)
qed (use assms in \<open>simp add: full_element_def\<close>)

lemma get_None: "hl_get i l = None \<Longrightarrow> e \<in> set (hl_elems l) \<Longrightarrow> fst e \<noteq> i"
  unfolding hl_get_def find_None_iff by blast

lemma get_unique:
  assumes "hl_wf conf l" "hl_get (fst e) l = Some x" "e \<in> set (hl_elems l)"
  shows "x = e"
  using assms get_elem[of l "fst e" "fst (snd e)" "snd (snd e)"] by (auto simp: hl_wf_def)

lemma names_mono: "set (hl_elems l) \<subseteq> set (hl_elems l') \<Longrightarrow> group_keys conf (Some l) \<subseteq> group_keys conf (Some l')"
  by (auto simp: group_keys_def groups_in_def names_elems)

text \<open>The loop keeps both lists good; when it ends well, nothing that is left is in the full list.\<close>

lemma reduce_loop_good:
  assumes "by_key conf is_hgroup_name"
    and "hl_wf conf r" "hl_exact conf is_hgroup_name r" "good_list conf full"
    and "\<forall>e \<in> set (hl_elems r). fst e \<in> set is \<or> full_element conf (fst (snd e)) full = None"
    and "SGE_GDI_IS_SUBCOMMAND_SET cmd SGE_GDI_CHANGE \<or> SGE_GDI_IS_SUBCOMMAND_SET cmd SGE_GDI_APPEND \<or> SGE_GDI_IS_SUBCOMMAND_SET cmd SGE_GDI_REMOVE"
    and "reduce_loop conf cmd is r full = (ret, r', full')"
  shows "hl_wf conf r' \<and> hl_exact conf is_hgroup_name r' \<and> good_list conf full' \<and> group_keys conf full' \<subseteq> group_keys conf full \<and>
    set (hl_elems r') \<subseteq> set (hl_elems r) \<and> (full' = None \<longleftrightarrow> full = None) \<and>
    (ret \<longrightarrow> (\<forall>e \<in> set (hl_elems r'). full_element conf (fst (snd e)) full' = None))"
  using assms
proof (induction conf cmd "is" r full arbitrary: ret r' full' rule: reduce_loop.induct)
  case (1 conf cmd r full)
  then show ?case by simp
next
  case (2 conf cmd i "is" r full)
  note p = "2.prems"(1-5) and cmd = "2.prems"(6) and res = "2.prems"(7)
  show ?case
  proof (cases "hl_get i r")
    case None
    then have "\<forall>e \<in> set (hl_elems r). fst e \<in> set is \<or> full_element conf (fst (snd e)) full = None"
      using p(5) get_None[OF None] by auto
    then show ?thesis using "2.IH"(1)[OF None p(1-4) _ cmd] res None by simp
  next
    case (Some x)
    obtain a n u where x: "x = (a, n, u)" by (cases x)
    note g = Some[unfolded x]
    show ?thesis
    proof (cases "full_element conf n full")
      case None
      have "\<forall>e \<in> set (hl_elems r). fst e \<in> set is \<or> full_element conf (fst (snd e)) full = None"
      proof
        fix e assume e: "e \<in> set (hl_elems r)"
        show "fst e \<in> set is \<or> full_element conf (fst (snd e)) full = None"
        proof (cases "fst e = i")
          case True
          then have "e = (a, n, u)" using get_unique[OF p(2) _ e] g by auto
          then show ?thesis using None by simp
        next
          case False
          then show ?thesis using p(5) e by auto
        qed
      qed
      then show ?thesis using "2.IH"(2)[OF g refl refl None p(1-4) _ cmd] res g None by simp
    next
      case (Some y)
      obtain j f v where y: "y = (j, f, v)" by (cases y)
      note fe = Some[unfolded y]
      obtain l where l: "full = Some l" "hkey conf n = hkey conf f" using full_element_Some[OF fe] .
      then have nd: "\<not> href_has_differences conf n f" by (simp add: href_has_differences_def host_key_hkey)
      note d = dechain_good[OF p(1,2,3), of i]
      let ?r = "hl_lDechainElem conf i r"
      let ?full = "map_option (hl_lDechainElem conf j) full"
      have all: "\<forall>e \<in> set (hl_elems ?r). fst e \<in> set (map fst (hl_elems ?r)) \<or> Q e" for Q by simp
      have full: "good_list conf ?full" "group_keys conf ?full \<subseteq> group_keys conf full"
        using dechain_good[of conf is_hgroup_name l j] p(1,4) l(1) names_mono by simp_all
      note step = g refl refl fe refl refl refl refl
      consider "SGE_GDI_IS_SUBCOMMAND_SET cmd SGE_GDI_CHANGE"
        | "\<not> SGE_GDI_IS_SUBCOMMAND_SET cmd SGE_GDI_CHANGE" "SGE_GDI_IS_SUBCOMMAND_SET cmd SGE_GDI_APPEND"
        | "\<not> SGE_GDI_IS_SUBCOMMAND_SET cmd SGE_GDI_CHANGE" "\<not> SGE_GDI_IS_SUBCOMMAND_SET cmd SGE_GDI_APPEND"
          "SGE_GDI_IS_SUBCOMMAND_SET cmd SGE_GDI_REMOVE" using cmd by blast
      then show ?thesis
      proof cases
        case 1
        then have "reduce_loop conf cmd (map fst (hl_elems ?r)) ?r full = (ret, r', full')"
          using res g fe nd by (simp add: Let_def)
        note h = "2.IH"(4)[OF step 1 nd p(1) conjunct1[OF d] conjunct1[OF conjunct2[OF d]] p(4) all cmd this]
        have "set (hl_elems r') \<subseteq> set (hl_elems r)"
          by (rule subset_trans[OF _ conjunct2[OF conjunct2[OF d]]]) (simp only: h)
        then show ?thesis using h by (elim conjE) (intro conjI; assumption)
      next
        case 2
        then have "(ret, r', full') = (False, ?r, full)" using res g fe by (simp add: Let_def)
        then show ?thesis using d p(4) by simp
      next
        case 3
        then have "reduce_loop conf cmd (map fst (hl_elems ?r)) ?r ?full = (ret, r', full')"
          using res g fe by (simp add: Let_def)
        note h = "2.IH"(5)[OF step 3 p(1) conjunct1[OF d] conjunct1[OF conjunct2[OF d]] full(1) all cmd this]
        have "set (hl_elems r') \<subseteq> set (hl_elems r)"
          by (rule subset_trans[OF _ conjunct2[OF conjunct2[OF d]]]) (simp only: h)
        moreover have "group_keys conf full' \<subseteq> group_keys conf full"
          by (rule subset_trans[OF _ full(2)]) (simp only: h)
        moreover have "full' = None \<longleftrightarrow> full = None" using h by simp
        ultimately show ?thesis using h by (elim conjE) (intro conjI; assumption)
      qed
    qed
  qed
qed

lemma add_rest_good:
  assumes b: "by_key conf is_hgroup_name" and r: "hl_wf conf r" "hl_exact conf is_hgroup_name r" and f: "good_list conf full"
    and n: "\<forall>e \<in> set (hl_elems r). full_element conf (fst (snd e)) full = None"
  shows "good_list conf (add_rest conf cmd r full) \<and> group_keys conf (add_rest conf cmd r full) \<subseteq> group_keys conf full \<union> group_keys conf (Some r)"
proof (cases "hl_elems r = [] \<or> SGE_GDI_IS_SUBCOMMAND_SET cmd SGE_GDI_REMOVE")
  case True
  then show ?thesis using f by (auto simp: add_rest_def)
next
  case False
  show ?thesis
  proof (cases full)
    case None
    then show ?thesis using False good_copy[OF b, of "Some r"] r by (simp add: add_rest_def group_keys_def)
  next
    case (Some l)
    then have l: "hl_wf conf l" "hl_exact conf is_hgroup_name l" using f by simp_all
    have "set (keys_of conf is_hgroup_name (hl_names l)) \<inter> set (keys_of conf is_hgroup_name (hl_names r)) = {}"
      using n unfolding Some full_element_None names_of_simps by (force simp: in_keys names_elems[of r])
    then have "distinct (keys_of conf is_hgroup_name (hl_names l @ map (\<lambda>e. fst (snd e)) (hl_elems r)))"
      using exact_distinct[OF l] exact_distinct[OF r] by (simp add: names_elems[of r])
    from append_all_exact[OF l b this] append_all_list[OF l(1), of "hl_elems r"]
    show ?thesis using False Some by (simp add: add_rest_def group_keys_def names_elems[of r])
  qed
qed

lemma attr_mod_good:
  assumes b: "by_key conf is_hgroup_name" and g: "good_list conf this" "good_list conf d"
  shows "good_list conf (snd (attr_mod_sub_list conf cmd this (Some d))) \<and>
    group_keys conf (snd (attr_mod_sub_list conf cmd this (Some d))) \<subseteq> group_keys conf this \<union> group_keys conf d"
proof -
  let ?c = "SGE_GDI_IS_SUBCOMMAND_SET cmd SGE_GDI_CHANGE \<or> SGE_GDI_IS_SUBCOMMAND_SET cmd SGE_GDI_APPEND \<or> SGE_GDI_IS_SUBCOMMAND_SET cmd SGE_GDI_REMOVE"
  let ?n = "\<lambda>ret new. if ret \<and> (case new of None \<Rightarrow> False | Some l \<Rightarrow> hl_elems l = []) then None else new"
  have n: "good_list conf (?n ret new) \<and> group_keys conf (?n ret new) \<subseteq> K" if "good_list conf new" "group_keys conf new \<subseteq> K" for ret new K
    using that by (auto simp: group_keys_def)
  show ?thesis
  proof (cases "?c \<and> d \<noteq> None")
    case False
    let ?new = "if ?c then this else hl_lCopyList conf d"
    have e: "attr_mod_sub_list conf cmd this (Some d) = (True, ?n True ?new)"
      using False by (cases d) (simp_all add: attr_mod_sub_list_def)
    have "good_list conf (if ?c then this else hl_lCopyList conf d)"
      "group_keys conf (if ?c then this else hl_lCopyList conf d) \<subseteq> group_keys conf this \<union> group_keys conf d"
      using g good_copy[OF b g(2)] by (auto simp: group_keys_def)
    then show ?thesis unfolding e snd_conv by (rule n)
  next
    case True
    then obtain r where r: "d = Some r" by blast
    obtain ret r1 full where l: "reduce_loop conf cmd (map fst (hl_elems r)) r this = (ret, r1, full)" by (metis prod.collapse)
    have rl: "hl_wf conf r1 \<and> hl_exact conf is_hgroup_name r1 \<and> good_list conf full \<and> group_keys conf full \<subseteq> group_keys conf this \<and>
      set (hl_elems r1) \<subseteq> set (hl_elems r) \<and> (full = None \<longleftrightarrow> this = None) \<and>
      (ret \<longrightarrow> (\<forall>e \<in> set (hl_elems r1). full_element conf (fst (snd e)) full = None))"
      using g(2) r by (intro reduce_loop_good[OF b _ _ g(1) _ conjunct1[OF True] l]) simp_all
    let ?new = "if ret then add_rest conf cmd r1 full else full"
    have e: "attr_mod_sub_list conf cmd this (Some d) = (ret, ?n ret ?new)"
      using True l r by (simp add: attr_mod_sub_list_def)
    have "good_list conf ?new" "group_keys conf ?new \<subseteq> group_keys conf this \<union> group_keys conf d"
      using rl add_rest_good[OF b, of r1 full cmd] names_mono[of r1 r conf] r by auto
    then show ?thesis unfolding e snd_conv by (rule n)
  qed
qed

section \<open>Groups that hold a group\<close>

definition groups_ok :: "bootstrap \<Rightarrow> hgrp_list \<Rightarrow> bool" where
  "groups_ok conf m \<longleftrightarrow> master_ok conf m \<and>
     (\<forall>e \<in> set (hl_elems m). is_hgroup_name (fst (snd e)) \<and> good_list conf (snd (snd e)))"

lemma edges_iff:
  "(k, k') \<in> group_edges conf m \<longleftrightarrow>
    (\<exists>e \<in> set (hl_elems m). hkey conf (fst (snd e)) = k \<and> k' \<in> group_keys conf (snd (snd e)))"
  unfolding group_edges_def names_at_def in_UN group_keys_def by (simp only: mem_Collect_eq case_prod_conv UN_iff) blast

lemma grows_fold_in:
  assumes "\<And>x u. x \<in> set xs \<Longrightarrow> grows conf (H x) (G x) u (f x u)"
  shows "grows conf (\<Union>x \<in> set xs. H x) (\<Union>x \<in> set xs. G x) u (fold f xs u)"
  using assms
proof (induction xs arbitrary: u)
  case (Cons x xs)
  have "grows conf (H x) (G x) u (f x u)" using Cons.prems by simp
  from grows_trans[OF this Cons.IH[of "f x u"]] show ?case using Cons.prems by simp
qed (simp add: grows_refl)

lemma fold_apsnd: "fold (\<lambda>x. apsnd (f x)) xs u = (fst u, fold f xs (snd u))"
  by (induction xs arbitrary: u) auto

lemma add_group_grows: "is_hgroup_name n \<Longrightarrow> snd u \<noteq> None \<Longrightarrow> grows conf {} {hkey conf n} u (apsnd (\<lambda>p. snd (href_list_add conf p (Some n))) u)"
  using use_name_grows[of conf n u] by (cases u) (simp add: use_name_def add_if_wanted_def)

text \<open>An added reference leaves a null pointer alone.\<close>

lemma add_null: "snd (href_list_add conf None n) = None"
  by (simp add: href_list_add_def)

lemma add_group_grows': "is_hgroup_name n \<Longrightarrow> grows conf {} {hkey conf n} u (apsnd (\<lambda>p. snd (href_list_add conf p (Some n))) u)"
  using add_group_grows[of n u conf] by (cases "snd u = None"; cases u) (auto simp: grows_def add_null)

lemma occupants_grow:
  assumes b: "by_key conf is_hgroup_name" and m: "groups_ok conf m" and n: "is_hgroup_name n"
  shows "grows conf {} {k. (k, hkey conf n) \<in> group_edges conf m} u (apsnd (occupants_of conf (Some m) n) u)"
proof -
  let ?f = "\<lambda>e p. if href_list_locate conf (snd (snd e)) (Some n) \<noteq> None then snd (href_list_add conf p (Some (fst (snd e)))) else p"
  let ?G = "\<lambda>e. if hkey conf n \<in> group_keys conf (snd (snd e)) then {hkey conf (fst (snd e))} else {}"
  have "grows conf {} (?G e) v (apsnd (?f e) v)" if "e \<in> set (hl_elems m)" for e v
  proof -
    have e: "is_hgroup_name (fst (snd e))" "good_list conf (snd (snd e))" using m that by (auto simp: groups_ok_def)
    have "href_list_locate conf (snd (snd e)) (Some n) \<noteq> None \<longleftrightarrow> hkey conf n \<in> group_keys conf (snd (snd e))"
      unfolding group_locate using group_member[OF b e(2) n] .
    then show ?thesis using add_group_grows'[OF e(1), of conf v] grows_refl[of conf v] by (cases v) auto
  qed
  from grows_fold_in[where xs = "hl_elems m" and f = "\<lambda>e. apsnd (?f e)" and H = "\<lambda>_. {}" and G = ?G and u = u, OF this]
  have "grows conf {} (\<Union>e \<in> set (hl_elems m). ?G e) u (fst u, fold ?f (hl_elems m) (snd u))"
    unfolding fold_apsnd by simp
  moreover have "(\<Union>e \<in> set (hl_elems m). ?G e) = {k. (k, hkey conf n) \<in> group_edges conf m}"
    unfolding edges_iff by auto
  moreover have "occupants_of conf (Some m) n p = fold ?f (hl_elems m) p" for p
    by (simp add: occupants_of_def case_prod_unfold)
  ultimately show ?thesis by (simp add: apsnd_def map_prod_def case_prod_unfold)
qed

lemma referencees_grow:
  assumes b: "by_key conf is_hgroup_name" and m: "groups_ok conf m"
  shows "\<exists>p'. href_list_find_referencees conf (Some l) (Some m) (Some p) = (True, p') \<and>
    grows conf {} ((group_edges conf m)\<inverse> `` groups_in conf (set (hl_names l))) (None, Some p) (None, p')"
proof -
  let ?f = "\<lambda>n p. if is_hgroup_name n then occupants_of conf (Some m) n p else p"
  let ?G = "\<lambda>n. if is_hgroup_name n then {k. (k, hkey conf n) \<in> group_edges conf m} else {}"
  have "grows conf {} (?G n) v (apsnd (?f n) v)" for n v
    using occupants_grow[OF b m, of n v] grows_refl[of conf v] by (cases v) auto
  from grows_fold[where xs = "hl_names l" and f = "\<lambda>n. apsnd (?f n)" and H = "\<lambda>_. {}" and G = ?G and u = "(None, Some p)", OF this]
  have "grows conf {} (\<Union>n \<in> set (hl_names l). ?G n) (None, Some p) (None, fold ?f (hl_names l) (Some p))"
    unfolding fold_apsnd by simp
  moreover have "(\<Union>n \<in> set (hl_names l). ?G n) = (group_edges conf m)\<inverse> `` groups_in conf (set (hl_names l))"
    by (auto simp: groups_in_def)
  ultimately show ?thesis by (simp add: href_list_find_referencees_def)
qed

lemma all_referencees_return:
  assumes b: "by_key conf is_hgroup_name" and m: "groups_ok conf m" and E: "E = (group_edges conf m)\<inverse>"
    and N: "(E ^^ N) `` groups_in conf (set (hl_names l)) = {}"
  shows "\<exists>og. href_list_find_all_referencees conf (Some l) (Some m) (Some None) = Some (True, Some og) \<and>
    ptr_ok conf (Some og) \<and> ptr_keys conf (Some og) = E\<^sup>+ `` groups_in conf (set (hl_names l))"
  using N
proof (induction N arbitrary: l)
  case 0
  let ?G = "groups_in conf (set (hl_names l))"
  have G: "?G = {}" using 0 by simp
  obtain p' where p': "href_list_find_referencees conf (Some l) (Some m) (Some None) = (True, p')"
    "grows conf {} (E `` ?G) (None, Some None) (None, p')" using referencees_grow[OF b m, of l None] unfolding E by blast
  then have "p' \<noteq> None" "filled p'" "ptr_keys conf p' = {}" using G by (auto simp: grows_def filled_def)
  then have "p' = Some None" by (cases p'; cases "the p'") (auto simp: filled_def hl_keys_def)
  then show ?case using p'(1) G by (subst href_list_find_all_referencees.simps) simp
next
  case (Suc N)
  let ?G = "groups_in conf (set (hl_names l))"
  obtain p' where p': "href_list_find_referencees conf (Some l) (Some m) (Some None) = (True, p')"
    "grows conf {} (E `` ?G) (None, Some None) (None, p')" using referencees_grow[OF b m, of l None] unfolding E by blast
  then have o: "p' \<noteq> None" "ptr_ok conf p'" "ptr_keys conf p' = E `` ?G" "\<forall>n \<in> set (ptr_names p'). is_hgroup_name n"
    by (auto simp: grows_def)
  show ?case
  proof (cases "p' = Some None")
    case True
    then have "E\<^sup>+ `` ?G = {}" using o(3) trancl_split[of E ?G] by simp
    then show ?thesis using p'(1) True by (subst href_list_find_all_referencees.simps) simp
  next
    case False
    then obtain l1 where l1: "p' = Some (Some l1)" using o(1) by (cases p') auto
    have G1: "groups_in conf (set (hl_names l1)) = E `` ?G"
      using o(3,4) l1 only_groups[of "set (hl_names l1)" conf] by (simp add: hl_keys_def)
    then have "(E ^^ N) `` groups_in conf (set (hl_names l1)) = {}" using Suc.prems unfolding image_pow by simp
    from Suc.IH[OF this] obtain og where og: "href_list_find_all_referencees conf (Some l1) (Some m) (Some None) = Some (True, Some og)"
      "ptr_ok conf (Some og)" "ptr_keys conf (Some og) = E\<^sup>+ `` (E `` ?G)" unfolding G1 by blast
    have "href_list_find_all_referencees conf (Some l) (Some m) (Some None) = Some (True, merge_lists conf (Some (Some l1)) (Some og))"
      using p'(1) l1 og(1) by (subst href_list_find_all_referencees.simps) (auto simp: merge_lists_def split: option.splits)
    moreover have "ptr_ok conf (Some (Some l1))" using o(2) l1 by simp
    note k = merge_keys[OF this og(2)]
    obtain og' where "merge_lists conf (Some (Some l1)) (Some og) = Some og'" using k(3) by auto
    ultimately show ?thesis using k(1,2) og(3) o(3) l1 trancl_split[of E ?G] by auto
  qed
qed

definition holders :: "bootstrap \<Rightarrow> hgrp_list option \<Rightarrow> string \<Rightarrow> string set" where
  "holders conf m g = insert g (case m of None \<Rightarrow> {} | Some m \<Rightarrow> {k. (k, g) \<in> (group_edges conf m)\<^sup>+})"

lemma single_names: "\<exists>l. single_ref conf n = Some l \<and> hl_names l = [n]"
  using add_elem[of conf None n] by (simp add: single_ref_def href_list_add_def href_list_has_member_def)

lemma find_holders:
  assumes b: "by_key conf is_hgroup_name" and m: "\<And>l. m = Some l \<Longrightarrow> groups_ok conf l \<and> acyclic (group_edges conf l)"
    and g: "is_hgroup_name (fst h)"
  shows "\<exists>og. hgroup_find_all_referencees conf h m (Some None) = Some (True, Some og) \<and> ptr_ok conf (Some og) \<and>
    insert (hkey conf (fst h)) (ptr_keys conf (Some og)) = holders conf m (hkey conf (fst h))"
proof -
  obtain l where l: "single_ref conf (fst h) = Some l" "hl_names l = [fst h]" using single_names by blast
  show ?thesis
  proof (cases m)
    case None
    have "occupants_of conf None n p = p" for n p by (simp add: occupants_of_def)
    then have "href_list_find_referencees conf (Some l) None (Some None) = (True, Some None)"
      using l(2) by (simp add: href_list_find_referencees_def)
    then have "href_list_find_all_referencees conf (Some l) None (Some None) = Some (True, Some None)"
      by (subst href_list_find_all_referencees.simps) simp
    then show ?thesis using l None by (simp add: hgroup_find_all_referencees_def holders_def)
  next
    case (Some k)
    let ?E = "(group_edges conf k)\<inverse>"
    have k: "groups_ok conf k" "acyclic ?E" using m[OF Some] by simp_all
    have G: "groups_in conf (set (hl_names l)) = {hkey conf (fst h)}" using l(2) g by simp
    have "\<And>x. (x, x) \<notin> ?E\<^sup>+" using k(2) unfolding acyclic_def by blast
    then obtain N where "(?E ^^ N) `` groups_in conf (set (hl_names l)) = {}"
      using acyclic_end[of ?E "groups_in conf (set (hl_names l))"] finite_edges[of conf k] G by auto
    from all_referencees_return[OF b k(1) refl this] show ?thesis
      using l(1) Some G unfolding hgroup_find_all_referencees_def holders_def by (auto simp: trancl_converse)
  qed
qed

lemma check_cycle_exact:
  assumes b: "by_key conf is_hgroup_name" and m: "\<And>l. m = Some l \<Longrightarrow> groups_ok conf l \<and> acyclic (group_edges conf l)"
    and g: "is_hgroup_name (fst h)"
  shows "\<exists>occ. check_cycle conf m h ag None =
    Some (\<forall>n \<in> set (names_of ag). hkey conf n \<notin> holders conf m (hkey conf (fst h)), occ)"
proof -
  obtain og where og: "hgroup_find_all_referencees conf h m (Some None) = Some (True, Some og)" "ptr_ok conf (Some og)"
    "insert (hkey conf (fst h)) (ptr_keys conf (Some og)) = holders conf m (hkey conf (fst h))"
    using find_holders[OF assms] by blast
  obtain occ where o: "href_list_add conf (Some og) (Some (fst h)) = (True, Some occ)" "ptr_ok conf (Some occ)" "occ \<noteq> None"
    "ptr_keys conf (Some occ) = insert (hkey conf (fst h)) (ptr_keys conf (Some og))"
    using add_ref[OF og(2), of "fst h"] by blast
  have "href_list_has_member conf occ (Some n) \<longleftrightarrow> hkey conf n \<in> holders conf m (hkey conf (fst h))" for n
    using o(2-4) og(3) has_member_key[of conf _ n] by (cases occ) (auto simp: ptr_ok_def)
  then show ?thesis using og(1) o(1,3) by (cases ag) (simp_all add: check_cycle_def list_ex_iff)
qed

section \<open>Differences\<close>

text \<open>Comparing without the lists of what both have.\<close>

lemma compare_groups:
  assumes b: "by_key conf is_hgroup_name" and l: "good_list conf lst"
    and c: "add_groups c \<noteq> None" "ptr_ok conf (add_groups c)" "ptr_ok conf (add_hosts c)" "equity_groups c = None" "equity_hosts c = None" "cr_ret c"
    and r: "c' = compare_loop conf lst ns c"
  shows "cr_ret c' \<and> ptr_ok conf (add_groups c') \<and> ptr_ok conf (add_hosts c') \<and> (add_hosts c' = None \<longleftrightarrow> add_hosts c = None) \<and>
    add_groups c' \<noteq> None \<and> set (ptr_names (add_groups c')) \<subseteq> set (ptr_names (add_groups c)) \<union> Collect is_hgroup_name \<and>
    ptr_keys conf (add_groups c') = ptr_keys conf (add_groups c) \<union> (groups_in conf (set ns) - group_keys conf lst)"
  using c r
proof (induction ns arbitrary: c c')
  case (Cons n ns)
  let ?c = "compare_one conf lst n c"
  have one: "cr_ret ?c \<and> ptr_ok conf (add_groups ?c) \<and> ptr_ok conf (add_hosts ?c) \<and> (add_hosts ?c = None \<longleftrightarrow> add_hosts c = None) \<and>
    add_groups ?c \<noteq> None \<and> set (ptr_names (add_groups ?c)) \<subseteq> set (ptr_names (add_groups c)) \<union> Collect is_hgroup_name \<and>
    ptr_keys conf (add_groups ?c) = ptr_keys conf (add_groups c) \<union> (groups_in conf {n} - group_keys conf lst) \<and>
    equity_groups ?c = None \<and> equity_hosts ?c = None"
  proof (cases "href_list_has_member conf lst (Some n)")
    case True
    then show ?thesis using Cons.prems group_member[OF b l, of n] by (auto simp: compare_one_def)
  next
    case False
    obtain ag where ag: "add_groups c = Some ag" using Cons.prems(1) by blast
    show ?thesis
    proof (cases "is_hgroup_name n")
      case g: True
      obtain l' where "href_list_add conf (Some ag) (Some n) = (True, Some l')" "ptr_ok conf (Some l')"
        "ptr_keys conf (Some l') = insert (hkey conf n) (ptr_keys conf (Some ag))"
        "set (ptr_names (Some l')) \<subseteq> insert n (set (ptr_names (Some ag)))"
        using add_ref[of conf ag n] Cons.prems(2) ag by auto
      then show ?thesis using False g ag Cons.prems group_member[OF b l g] by (auto simp: compare_one_def)
    next
      case g: False
      show ?thesis
      proof (cases "add_hosts c")
        case None
        then show ?thesis using False g Cons.prems by (simp add: compare_one_def)
      next
        case (Some ah)
        obtain l' where "href_list_add conf (Some ah) (Some n) = (True, Some l')" "ptr_ok conf (Some l')"
          using add_ref[of conf ah n] Cons.prems(3) Some by auto
        then show ?thesis using False g Some Cons.prems by (auto simp: compare_one_def)
      qed
    qed
  qed
  have "c' = compare_loop conf lst ns ?c" using one Cons.prems(7) by (simp add: Let_def)
  from Cons.IH[OF _ _ _ _ _ _ this] one show ?case by (simp add: Un_assoc Un_Diff) blast
qed simp

lemma find_diff_groups:
  assumes b: "by_key conf is_hgroup_name" and g: "good_list conf new" "good_list conf old"
    and a: "ptr_ok conf (Some ah)" "ptr_ok conf (Some rh)"
    and d: "href_list_find_diff conf new old (Some ah) (Some rh) (Some None) (Some None) = (r, ah', rh', ag', rg')"
  obtains ah1 rh1 ag1 rg1 where "r" "ah' = Some ah1" "rh' = Some rh1" "ag' = Some ag1" "rg' = Some rg1"
    "ptr_ok conf (Some ah1)" "ptr_ok conf (Some rh1)" "ptr_ok conf (Some ag1)" "ptr_ok conf (Some rg1)"
    "set (names_of ag1) \<subseteq> Collect is_hgroup_name"
    "hkey conf ` set (names_of ag1) = group_keys conf new - group_keys conf old"
proof -
  let ?c1 = "compare_loop conf old (names_of new) \<lparr>cr_ret = True, add_hosts = Some ah, add_groups = Some None, equity_hosts = None, equity_groups = None\<rparr>"
  let ?c2 = "compare_loop conf new (names_of old) \<lparr>cr_ret = True, add_hosts = Some rh, add_groups = Some None, equity_hosts = None, equity_groups = None\<rparr>"
  have e: "r = (cr_ret ?c1 \<and> cr_ret ?c2)" "ah' = add_hosts ?c1" "rh' = add_hosts ?c2" "ag' = add_groups ?c1" "rg' = add_groups ?c2"
    using d by (simp_all add: href_list_find_diff_def href_list_compare_def Let_def)
  have c1: "cr_ret ?c1" "ptr_ok conf (add_groups ?c1)" "ptr_ok conf (add_hosts ?c1)" "add_hosts ?c1 \<noteq> None" "add_groups ?c1 \<noteq> None"
    "set (ptr_names (add_groups ?c1)) \<subseteq> Collect is_hgroup_name" "ptr_keys conf (add_groups ?c1) = group_keys conf new - group_keys conf old"
    using compare_groups[OF b g(2) _ _ _ _ _ _ refl, of "\<lparr>cr_ret = True, add_hosts = Some ah, add_groups = Some None, equity_hosts = None, equity_groups = None\<rparr>" "names_of new"] a(1)
    by (auto simp: group_keys_def)
  have c2: "cr_ret ?c2" "ptr_ok conf (add_groups ?c2)" "ptr_ok conf (add_hosts ?c2)" "add_hosts ?c2 \<noteq> None" "add_groups ?c2 \<noteq> None"
    using compare_groups[OF b g(1) _ _ _ _ _ _ refl, of "\<lparr>cr_ret = True, add_hosts = Some rh, add_groups = Some None, equity_hosts = None, equity_groups = None\<rparr>" "names_of old"] a(2)
    by auto
  obtain ah1 rh1 ag1 rg1 where o: "add_hosts ?c1 = Some ah1" "add_hosts ?c2 = Some rh1" "add_groups ?c1 = Some ag1" "add_groups ?c2 = Some rg1"
    using c1(4,5) c2(4,5) by auto
  show thesis using that[of ah1 rh1 ag1 rg1] e o c1 c2 by (simp add: ptr_keys_def ptr_names_def)
qed

end
