(* ===== verification/Host_Requests.thy ===== *)
theory Host_Requests
  imports Host_Admin_Facts
begin

text \<open>
  Every request leaves the list of all groups without cycles, and is answered.
\<close>

section \<open>The list of hosts of a group\<close>

definition groups_opt :: "bootstrap \<Rightarrow> hgrp_list option \<Rightarrow> bool" where
  "groups_opt conf m \<longleftrightarrow> (\<forall>l. m = Some l \<longrightarrow> groups_ok conf l \<and> acyclic (group_edges conf l))"

lemma groups_optD: "groups_opt conf m \<Longrightarrow> m = Some l \<Longrightarrow> groups_ok conf l \<and> acyclic (group_edges conf l)"
  by (simp add: groups_opt_def)

lemma references_answered:
  assumes m: "groups_opt conf m" and u: "ptr_ok conf uh"
  shows "\<exists>uh'. href_list_find_all_references conf this m uh None = Some (True, uh', None)"
proof (cases "this = None \<or> m = None")
  case True
  then show ?thesis by (subst href_list_find_all_references.simps) auto
next
  case False
  then obtain l k where lk: "this = Some l" "m = Some k" by (cases this; cases m) auto
  let ?E = "group_edges conf k"
  have k: "groups_ok conf k" "acyclic ?E" using groups_optD[OF m lk(2)] by simp_all
  have "\<And>x. (x, x) \<notin> ?E\<^sup>+" using k(2) unfolding acyclic_def by blast
  then obtain N where "(?E ^^ N) `` groups_in conf (set (hl_names l)) = {}"
    using acyclic_end[OF finite_edges finite_groups_in[OF finite_set]] by blast
  moreover have "master_ok conf k" using k(1) by (simp add: groups_ok_def)
  ultimately show ?thesis using find_all_returns[of conf k ?E N l uh None] u lk by (auto simp: found_def)
qed

lemma effective_diff_answered:
  assumes m: "groups_opt conf m" and u: "ptr_ok conf ah" "ptr_ok conf rh"
  shows "\<exists>x. href_list_find_effective_diff conf ag rg m ah rh = Some x"
proof -
  obtain a b where "href_list_find_all_references conf ag m ah None = Some (True, a, None)"
    "href_list_find_all_references conf rg m rh None = Some (True, b, None)"
    using references_answered[OF m] u by metis
  then show ?thesis by (cases ag; cases rg) (simp_all add: href_list_find_effective_diff_def del: split_paired_Ex)
qed

lemma effective_hosts_answered:
  assumes m: "groups_opt conf m"
  shows "\<exists>x. effective_hosts conf m old new ml = Some x"
proof -
  obtain a b where "href_list_find_all_references conf old m (Some None) None = Some (True, a, None)"
    "href_list_find_all_references conf new m (Some None) None = Some (True, b, None)"
    using references_answered[OF m, of "Some None"] by (metis ptr_simps(8))
  then show ?thesis by (simp add: effective_hosts_def del: split_paired_Ex split: prod.splits)
qed

definition keys_in :: "bootstrap \<Rightarrow> hgrp_list option \<Rightarrow> string set" where
  "keys_in conf m = (case m of None \<Rightarrow> {} | Some l \<Rightarrow> hl_keys conf l)"

lemma exists_keys:
  assumes "groups_opt conf m" "hgroup_list_exists conf m ag" "m \<noteq> None" "set (names_of ag) \<subseteq> Collect is_hgroup_name"
  shows "hkey conf ` set (names_of ag) \<subseteq> keys_in conf m"
proof (cases ag)
  case (Some l)
  obtain k where k: "m = Some k" using assms(3) by auto
  have wf: "hl_wf conf k" "hl_covers conf (\<lambda>_. True) k"
    using groups_optD[OF assms(1) k] exact_covers by (auto simp: groups_ok_def master_ok_def)
  have "hkey conf n \<in> hl_keys conf k" if "n \<in> set (hl_names l)" for n
    using assms(2,4) that member_keys[OF wf, of n] Some k by (auto simp: hgroup_list_exists_def list_all_iff hgroup_list_locate_def)
  then show ?thesis using Some k by (auto simp: keys_in_def)
qed simp

text \<open>What a change of the list of hosts lets pass.\<close>

definition passed :: "bootstrap \<Rightarrow> hgrp_list option \<Rightarrow> hgroup \<Rightarrow> hgroup \<Rightarrow> bool" where
  "passed conf m g g' \<longleftrightarrow> fst g' = fst g \<and> good_list conf (snd g') \<and>
     (\<forall>k \<in> group_keys conf (snd g') - group_keys conf (snd g). k \<notin> holders conf m (hkey conf (fst g)) \<and> (m \<noteq> None \<longrightarrow> k \<in> keys_in conf m))"

lemma mod_hostlist_answered:
  assumes b: "by_key conf is_hgroup_name" and res: "resolver_ok res" and m: "groups_opt conf m"
    and g: "is_hgroup_name (fst hg)" "good_list conf (snd hg)" and l: "good_list conf lst"
  shows "\<exists>r hg' ml'. hgroup_mod_hostlist conf res m hg (Some lst) cmd \<lparr>ml_add_hosts = None, ml_rem_hosts = None, ml_occupants = None\<rparr> = Some (r, hg', ml') \<and>
    (r \<longrightarrow> passed conf m hg hg')"
proof -
  let ?R = "\<lambda>x. case x of None \<Rightarrow> False | Some y \<Rightarrow> fst y \<longrightarrow> passed conf m hg (fst (snd y))"
  let ?ml = "\<lparr>ml_add_hosts = None, ml_rem_hosts = None, ml_occupants = None\<rparr>"
  obtain r1 lst1 where R: "href_list_resolve_hostnames conf res lst True = (r1, lst1)" by (metis prod.collapse)
  let ?new = "snd (attr_mod_sub_list conf cmd (snd hg) (Some lst1))"
  let ?old = "hl_lCopyList conf (snd hg)"
  have lst1: "good_list conf lst1" using resolve_good[OF b res l, of True] R by simp
  have new: "good_list conf ?new" using attr_mod_good[OF b g(2) lst1] by blast
  have old: "good_list conf ?old" "group_keys conf ?old = group_keys conf (snd hg)"
    using good_copy[OF b g(2)] by (simp_all add: group_keys_def)
  obtain r2 ah rh ag rg where D: "href_list_find_diff conf ?new ?old (Some None) (Some None) (Some None) (Some None) = (r2, ah, rh, ag, rg)"
    by (metis prod.collapse)
  obtain ah1 rh1 ag1 rg1 where d: "r2" "ah = Some ah1" "rh = Some rh1" "ag = Some ag1" "rg = Some rg1"
    "ptr_ok conf (Some ah1)" "ptr_ok conf (Some rh1)" "ptr_ok conf (Some ag1)" "ptr_ok conf (Some rg1)"
    "set (names_of ag1) \<subseteq> Collect is_hgroup_name" "hkey conf ` set (names_of ag1) = group_keys conf ?new - group_keys conf ?old"
    using find_diff_groups[OF b new old(1) ptr_simps(8) ptr_simps(8) D] .
  obtain r3 ah3 rh3 where F: "href_list_find_effective_diff conf ag1 rg1 m (Some ah1) (Some rh1) = Some (r3, ah3, rh3)"
    using effective_diff_answered[OF m d(6,7)] by (metis prod.collapse)
  obtain r4 ah4 where R4: "href_list_resolve_hostnames conf res (the ah3) False = (r4, ah4)" by (metis prod.collapse)
  obtain occ where C: "check_cycle conf m (fst hg, ?new) ag1 None =
      Some (\<forall>n \<in> set (names_of ag1). hkey conf n \<notin> holders conf m (hkey conf (fst hg)), occ)"
    using check_cycle_exact[OF b groups_optD[OF m], where h = "(fst hg, ?new)" and ag = ag1] g(1) by auto
  obtain r6 ml6 where H: "effective_hosts conf m ?old ?new (?ml\<lparr>ml_add_hosts := ah1, ml_rem_hosts := rh1, ml_add_hosts := the ah3, ml_rem_hosts := the rh3, ml_add_hosts := ah4, ml_occupants := occ\<rparr>) = Some (r6, ml6)"
    using effective_hosts_answered[OF m] by (metis prod.collapse)
  have p: "passed conf m hg (fst hg, ?new)"
    if "\<not> (ag1 \<noteq> None \<and> \<not> hgroup_list_exists conf m ag1)" "\<forall>n \<in> set (names_of ag1). hkey conf n \<notin> holders conf m (hkey conf (fst hg))"
  proof -
    have "m \<noteq> None \<longrightarrow> hkey conf ` set (names_of ag1) \<subseteq> keys_in conf m"
      using exists_keys[OF m _ _ d(10)] that(1) by (cases ag1) auto
    moreover have D: "group_keys conf ?new - group_keys conf (snd hg) = hkey conf ` set (names_of ag1)"
      using d(11) old(2) by simp
    ultimately show ?thesis using that(2) new unfolding passed_def fst_conv snd_conv D by blast
  qed
  have "?R (hgroup_mod_hostlist conf res m hg (Some lst) cmd ?ml)"
    unfolding hgroup_mod_hostlist_def using R D d(1-5) F R4 C H p by (cases ag1) (simp_all add: Let_def)
  then show ?thesis by (auto split: option.splits)
qed

section \<open>The list of all groups\<close>

lemma acyclic_add:
  assumes "acyclic E" "\<And>a. a \<in> A \<Longrightarrow> a \<noteq> g \<and> (a, g) \<notin> E\<^sup>+" "E' \<subseteq> E \<union> {g} \<times> A"
  shows "acyclic E'"
proof (rule acyclic_subset[OF _ assms(3)], rule acyclicI, intro allI notI)
  have r: "(a, g) \<notin> E\<^sup>*" if "a \<in> A" for a using assms(2)[OF that] by (auto dest: rtranclD)
  have "(x, y) \<in> E\<^sup>+ \<or> (x, g) \<in> E\<^sup>* \<and> (\<exists>a \<in> A. (a, y) \<in> E\<^sup>*)" if "(x, y) \<in> (E \<union> {g} \<times> A)\<^sup>+" for x y
    using that
  proof (induction rule: trancl_induct)
    case (step y z)
    from step.hyps(2) show ?case
    proof
      assume "(y, z) \<in> E"
      then show ?thesis using step.IH by (meson trancl.trancl_into_trancl rtrancl.rtrancl_into_rtrancl)
    next
      assume z: "(y, z) \<in> {g} \<times> A"
      then have "(x, g) \<in> E\<^sup>*" using step.IH by (auto intro: trancl_into_rtrancl)
      then show ?thesis using z by blast
    qed
  qed auto
  then show False if "(x, x) \<in> (E \<union> {g} \<times> A)\<^sup>+" for x
    using that assms(1) r unfolding acyclic_def by (meson rtrancl_trans)
qed

definition elems_in :: "hgrp_list option \<Rightarrow> (nat \<times> string \<times> hr_list option) set" where
  "elems_in m = (case m of None \<Rightarrow> {} | Some l \<Rightarrow> set (hl_elems l))"

definition closed_groups :: "bootstrap \<Rightarrow> hgrp_list option \<Rightarrow> bool" where
  "closed_groups conf m \<longleftrightarrow> m \<noteq> None \<and> (\<forall>e \<in> elems_in m. group_keys conf (snd (snd e)) \<subseteq> keys_in conf m)"

lemma keys_elems: "keys_in conf m = (\<lambda>e. hkey conf (fst (snd e))) ` elems_in m"
  by (auto simp: keys_in_def elems_in_def hl_keys_def names_elems split: option.splits)

text \<open>The list without the group that has the key.\<close>

definition without_key :: "bootstrap \<Rightarrow> hgrp_list option \<Rightarrow> string \<Rightarrow> hgrp_list \<Rightarrow> bool" where
  "without_key conf m k l \<longleftrightarrow> hl_wf conf l \<and> hl_exact conf (\<lambda>_. True) l \<and>
     set (hl_elems l) = {e \<in> elems_in m. hkey conf (fst (snd e)) \<noteq> k}"

lemma no_key:
  assumes "groups_opt conf m" "lGetElemHost conf m (Some n) = None"
  shows "without_key conf m (hkey conf n) (case m of None \<Rightarrow> lCreateList | Some l \<Rightarrow> l)"
proof (cases m)
  case None
  have "hl_elems (lCreateList :: hgrp_list) = []" by (simp add: lCreateList_def)
  then show ?thesis using None by (simp add: without_key_def elems_in_def)
next
  case (Some l)
  have l: "hl_wf conf l" "hl_exact conf (\<lambda>_. True) l"
    using groups_optD[OF assms(1) Some] by (auto simp: groups_ok_def master_ok_def)
  have "hl_idx l (hkey conf n) = None" using assms(2) Some get_host_idx[OF l(1), of n] by simp
  then have "hkey conf (fst (snd e)) \<noteq> hkey conf n" if "e \<in> set (hl_elems l)" for e
    using l(2) that unfolding hl_exact_def by force
  then show ?thesis using l Some by (auto simp: without_key_def elems_in_def)
qed

lemma key_out:
  assumes "groups_opt conf (Some l)" "lGetElemHost conf (Some l) (Some n) = Some i"
  obtains g h where "hl_get i l = Some (i, g, h)" "(i, g, h) \<in> set (hl_elems l)" "hkey conf g = hkey conf n"
    "without_key conf (Some l) (hkey conf n) (hl_lDechainElem conf i l)"
proof -
  have l: "hl_wf conf l" "hl_exact conf (\<lambda>_. True) l"
    using groups_optD[OF assms(1) refl] by (auto simp: groups_ok_def master_ok_def)
  obtain g h where g: "(i, g, h) \<in> set (hl_elems l)" "hkey conf g = hkey conf n" "hl_get i l = Some (i, g, h)"
    using get_host_Some[OF l(1) assms(2)] by blast
  have "fst e \<noteq> i \<longleftrightarrow> hkey conf (fst (snd e)) \<noteq> hkey conf n" if "e \<in> set (hl_elems l)" for e
  proof
    assume "fst e \<noteq> i"
    then show "hkey conf (fst (snd e)) \<noteq> hkey conf n"
      using l(2) that g(1,2) unfolding hl_exact_def by (metis fst_conv option.inject snd_conv)
  next
    assume "hkey conf (fst (snd e)) \<noteq> hkey conf n"
    then show "fst e \<noteq> i" using get_unique[OF l(1) _ that, of "(i, g, h)"] g(2,3) by (metis fst_conv snd_conv)
  qed
  then have "without_key conf (Some l) (hkey conf n) (hl_lDechainElem conf i l)"
    using dechain_list[OF l(1) g(1)] dechain_exact[OF l(1) g(1) l(2) all_by_key]
    by (auto simp: without_key_def elems_in_def)
  then show thesis using that g by blast
qed

lemma replaced_group:
  assumes m: "groups_opt conf m" and w: "without_key conf m (hkey conf (fst g)) l" and n: "is_hgroup_name (fst g)"
    and p: "passed conf m g g'" and old: "group_keys conf (snd g) = {} \<or> (\<exists>e \<in> elems_in m. hkey conf (fst (snd e)) = hkey conf (fst g) \<and> group_keys conf (snd g) \<subseteq> group_keys conf (snd (snd e)))"
  shows "groups_opt conf (Some (hl_lAppendElem conf (fst g') (snd g') l))"
    and "closed_groups conf m \<Longrightarrow> closed_groups conf (Some (hl_lAppendElem conf (fst g') (snd g') l))"
proof -
  let ?l = "hl_lAppendElem conf (fst g') (snd g') l"
  let ?k = "hkey conf (fst g)"
  let ?A = "group_keys conf (snd g') - group_keys conf (snd g)"
  have l: "hl_wf conf l" "hl_exact conf (\<lambda>_. True) l" "set (hl_elems l) = {e \<in> elems_in m. hkey conf (fst (snd e)) \<noteq> ?k}"
    using w by (simp_all add: without_key_def)
  have g': "fst g' = fst g" "good_list conf (snd g')" using p by (simp_all add: passed_def)
  have el: "set (hl_elems ?l) = insert (hl_next l, fst g, snd g') (set (hl_elems l))" using append_list(4)[OF l(1)] g'(1) by simp
  have "hl_exact conf (\<lambda>_. True) ?l"
    by (rule append_exact[OF l(1,2)]) (use l(3) in \<open>auto simp: names_elems g'(1)\<close>)
  then have mo: "master_ok conf ?l" using append_list(1)[OF l(1)] by (simp add: master_ok_def)
  have "\<forall>e \<in> elems_in m. is_hgroup_name (fst (snd e)) \<and> good_list conf (snd (snd e))"
    using m by (cases m) (auto simp: groups_opt_def groups_ok_def elems_in_def)
  then have ok: "groups_ok conf ?l" unfolding groups_ok_def el using mo l(3) n g'(2) by auto
  let ?E = "case m of None \<Rightarrow> {} | Some k \<Rightarrow> group_edges conf k"
  have E: "(a, b) \<in> ?E \<longleftrightarrow> (\<exists>e \<in> elems_in m. hkey conf (fst (snd e)) = a \<and> b \<in> group_keys conf (snd (snd e)))" for a b
    by (cases m) (simp_all add: elems_in_def edges_iff)
  have ac: "acyclic ?E" using m by (cases m) (auto simp: groups_opt_def acyclic_def)
  have "group_edges conf ?l \<subseteq> ?E \<union> {?k} \<times> ?A"
  proof
    fix x assume x: "x \<in> group_edges conf ?l"
    obtain a b where ab: "x = (a, b)" by (cases x)
    obtain e where e: "e \<in> set (hl_elems ?l)" "hkey conf (fst (snd e)) = a" "b \<in> group_keys conf (snd (snd e))"
      using x unfolding ab edges_iff by blast
    show "x \<in> ?E \<union> {?k} \<times> ?A"
    proof (cases "e \<in> set (hl_elems l)")
      case True
      then show ?thesis using e l(3) E ab by auto
    next
      case False
      then have "e = (hl_next l, fst g, snd g')" using e(1) el by simp
      then have "a = ?k" "b \<in> group_keys conf (snd g')" using e(2,3) by simp_all
      then show ?thesis using old E ab by blast
    qed
  qed
  moreover have "a \<noteq> ?k \<and> (a, ?k) \<notin> ?E\<^sup>+" if "a \<in> ?A" for a
  proof -
    have "a \<notin> holders conf m ?k" using p that by (simp add: passed_def)
    then show ?thesis by (cases m) (auto simp: holders_def)
  qed
  ultimately have "acyclic (group_edges conf ?l)" using acyclic_add[OF ac, of ?A ?k] by blast
  then show "groups_opt conf (Some ?l)" using ok by (simp add: groups_opt_def)
  assume c: "closed_groups conf m"
  have ks: "keys_in conf m \<subseteq> keys_in conf (Some ?l)"
  proof
    fix k assume "k \<in> keys_in conf m"
    then obtain e where e: "e \<in> elems_in m" "k = hkey conf (fst (snd e))" unfolding keys_elems by blast
    show "k \<in> keys_in conf (Some ?l)"
    proof (cases "k = ?k")
      case True
      then show ?thesis unfolding keys_elems by (force simp: elems_in_def el)
    next
      case False
      then have "e \<in> elems_in (Some ?l)" using e l(3) by (simp add: elems_in_def el)
      then show ?thesis unfolding keys_elems using e(2) by blast
    qed
  qed
  have "group_keys conf (snd (snd e)) \<subseteq> keys_in conf m" if "e \<in> elems_in (Some ?l)" for e
  proof (cases "e \<in> set (hl_elems l)")
    case True
    then show ?thesis using c l(3) by (auto simp: closed_groups_def)
  next
    case False
    then have "e = (hl_next l, fst g, snd g')" using that by (simp add: elems_in_def el)
    moreover have "?A \<subseteq> keys_in conf m" using p c by (auto simp: passed_def closed_groups_def)
    moreover have "group_keys conf (snd g) \<subseteq> keys_in conf m" using old c by (auto simp: closed_groups_def)
    ultimately show ?thesis by auto
  qed
  then show "closed_groups conf (Some ?l)" using ks unfolding closed_groups_def by blast
qed

lemma mod_answered:
  assumes b: "by_key conf is_hgroup_name" and res: "resolver_ok res" and m: "groups_opt conf m"
    and g: "add \<or> is_hgroup_name (fst g)" "good_list conf (snd g)" and l: "\<forall>l. snd req = Some l \<longrightarrow> good_list conf l"
  shows "\<exists>r g'. hgroup_mod conf res queues m g req add cmd = Some (r, g') \<and>
    (r \<longrightarrow> (\<exists>n. fst req = Some n \<and> is_hgroup_name n \<and>
       (let g0 = (if add then (n, snd g) else g) in hkey conf (fst g0) = hkey conf n \<and> is_hgroup_name (fst g0) \<and> passed conf m g0 g')))"
proof -
  let ?P = "\<lambda>r g'. r \<longrightarrow> (\<exists>n. fst req = Some n \<and> is_hgroup_name n \<and>
     (let g0 = (if add then (n, snd g) else g) in hkey conf (fst g0) = hkey conf n \<and> is_hgroup_name (fst g0) \<and> passed conf m g0 g'))"
  let ?x = "case fst req of Some name \<Rightarrow>
        if add then (if hgroup_check_name name then (True, name, snd g) else (False, g))
        else (sge_hostcmp conf (Some (fst g)) (Some name) = 0, g) | None \<Rightarrow> (False, g)"
  obtain ret g1 where r: "?x = (ret, g1)" by (cases ?x)
  have g1: "\<exists>n. fst req = Some n \<and> is_hgroup_name n \<and> g1 = (if add then (n, snd g) else g) \<and> hkey conf (fst g1) = hkey conf n \<and> is_hgroup_name (fst g1)" if "ret"
  proof (cases "fst req")
    case (Some n)
    show ?thesis
    proof (cases add)
      case True
      then show ?thesis using r Some that by (auto simp: hgroup_check_name_def split: if_splits)
    next
      case False
      then have k: "hkey conf (fst g) = hkey conf n" "g1 = g" using r Some that by (auto simp: host_key_hkey)
      then have "is_hgroup_name n" using b g(1) False unfolding by_key_def by blast
      then show ?thesis using Some False k g(1) by simp
    qed
  qed (use r that in simp)
  have refl: "passed conf m g1 g1" if "ret" using g1[OF that] g(2) by (auto simp: passed_def)
  show ?thesis
  proof (cases "ret \<and> snd req \<noteq> None")
    case False
    then have "hgroup_mod conf res queues m g req add cmd = Some (ret, g1)" using r by (auto simp: hgroup_mod_def)
    moreover have "?P ret g1"
    proof
      assume r: "ret"
      then obtain n where n: "fst req = Some n" "is_hgroup_name n" "g1 = (if add then (n, snd g) else g)"
        "hkey conf (fst g1) = hkey conf n" "is_hgroup_name (fst g1)" using g1 by blast
      show "\<exists>n. fst req = Some n \<and> is_hgroup_name n \<and> (let g0 = (if add then (n, snd g) else g)
          in hkey conf (fst g0) = hkey conf n \<and> is_hgroup_name (fst g0) \<and> passed conf m g0 g1)"
        by (rule exI[of _ n]) (unfold n(3)[symmetric] Let_def, use n refl[OF r] in blast)
    qed
    ultimately show ?thesis by blast
  next
    case True
    then obtain lst where lst: "snd req = Some lst" by blast
    obtain n where n: "fst req = Some n" "is_hgroup_name n" "g1 = (if add then (n, snd g) else g)"
      "hkey conf (fst g1) = hkey conf n" "is_hgroup_name (fst g1)" using g1 True by blast
    have "good_list conf (snd g1)" using n(3) g(2) by simp
    from mod_hostlist_answered[OF b res m n(5) this, of lst cmd] l lst obtain r2 g2 ml where
      h: "hgroup_mod_hostlist conf res m g1 (Some lst) cmd \<lparr>ml_add_hosts = None, ml_rem_hosts = None, ml_occupants = None\<rparr> = Some (r2, g2, ml)"
      "r2 \<longrightarrow> passed conf m g1 g2" by blast
    have "hgroup_mod conf res queues m g req add cmd = Some (r2 \<and> queues g2 ml, g2)"
      using r True lst h(1) by (simp add: hgroup_mod_def)
    moreover have "?P (r2 \<and> queues g2 ml) g2"
    proof
      assume r: "r2 \<and> queues g2 ml"
      show "\<exists>n. fst req = Some n \<and> is_hgroup_name n \<and> (let g0 = (if add then (n, snd g) else g)
          in hkey conf (fst g0) = hkey conf n \<and> is_hgroup_name (fst g0) \<and> passed conf m g0 g2)"
        by (rule exI[of _ n]) (unfold n(3)[symmetric] Let_def, use n h(2) r in blast)
    qed
    ultimately show ?thesis by blast
  qed
qed

definition request_ok :: "bootstrap \<Rightarrow> hgroup_request \<Rightarrow> bool" where
  "request_ok conf req \<longleftrightarrow> (\<forall>l. snd req = Some l \<longrightarrow> good_list conf l)"

lemma add_mod_answered:
  assumes b: "by_key conf is_hgroup_name" and res: "resolver_ok res" and m: "groups_opt conf m" and q: "request_ok conf req"
  shows "\<exists>r m'. hgroup_add_mod conf res queues writer req add cmd m = Some (r, m') \<and> groups_opt conf m' \<and>
    (closed_groups conf m \<longrightarrow> closed_groups conf m')"
proof (cases "fst req = None \<or> ((lGetElemHost conf m (fst req) \<noteq> None) = add)")
  case True
  then have "hgroup_add_mod conf res queues writer req add cmd m = Some (False, m)"
    by (cases "fst req") (auto simp: hgroup_add_mod_def Let_def)
  then show ?thesis using m by blast
next
  case False
  then obtain n where n: "fst req = Some n" by (cases "fst req") auto
  let ?old = "lGetElemHost conf m (Some n)"
  have q': "\<forall>l. snd req = Some l \<longrightarrow> good_list conf l" using q by (simp add: request_ok_def)
  show ?thesis
  proof (cases add)
    case True
    then have old: "?old = None" using False n by simp
    obtain r g' where h: "hgroup_mod conf res queues m ([], None) req True cmd = Some (r, g')"
      "r \<longrightarrow> is_hgroup_name n \<and> passed conf m (n, None) g'"
      using mod_answered[OF b res m _ _ q', of True "([], None)" queues cmd] n by (auto simp: Let_def)
    let ?l = "case m of None \<Rightarrow> lCreateList | Some l \<Rightarrow> l"
    have e: "hgroup_add_mod conf res queues writer req add cmd m = Some (if \<not> r \<or> \<not> writer g' then (False, m)
        else (True, Some (hl_lAppendElem conf (fst g') (snd g') ?l)))"
      using n old True h(1) by (simp add: hgroup_add_mod_def)
    have k: "group_keys conf (snd (n, None)) = {}" by (simp add: group_keys_def)
    show ?thesis
    proof (cases "r \<and> writer g'")
      case ok: True
      then have "is_hgroup_name (fst (n, None))" "passed conf m (n, None) g'" using h(2) by simp_all
      from replaced_group[OF m _ this disjI1[OF k], of ?l] no_key[OF m old] show ?thesis using e ok by auto
    qed (use e m in auto)
  next
    case add: False
    then obtain i where old: "?old = Some i" using False n by auto
    then obtain l where l: "m = Some l" by (cases m) (auto simp: lGetElemHost_def lGetElemHostFirst_def)
    obtain gn h where gh: "hl_get i l = Some (i, gn, h)" "(i, gn, h) \<in> set (hl_elems l)" "hkey conf gn = hkey conf n"
      "without_key conf (Some l) (hkey conf n) (hl_lDechainElem conf i l)"
      using key_out[of conf l n i] m old l by auto
    have gg: "is_hgroup_name gn" "good_list conf h" using groups_optD[OF m l] gh(2) by (auto simp: groups_ok_def)
    let ?g = "(gn, hl_lCopyList conf h)"
    have gc: "good_list conf (snd ?g)" "group_keys conf (snd ?g) = group_keys conf h"
      using good_copy[OF b gg(2)] by (simp_all add: group_keys_def)
    obtain r g' where h: "hgroup_mod conf res queues m ?g req False cmd = Some (r, g')" "r \<longrightarrow> passed conf m ?g g'"
      using mod_answered[OF b res m _ gc(1) q', of False queues cmd] gg(1) by (auto simp: Let_def)
    let ?l = "hl_lDechainElem conf i l"
    have e: "hgroup_add_mod conf res queues writer req add cmd m = Some (if \<not> r \<or> \<not> writer g' then (False, m)
        else (True, Some (hl_lAppendElem conf (fst g') (snd g') ?l)))"
      using n old add l gh(1) h(1) by (simp add: hgroup_add_mod_def)
    have w: "without_key conf m (hkey conf (fst ?g)) ?l" using gh(3,4) l by simp
    have k: "\<exists>e \<in> elems_in m. hkey conf (fst (snd e)) = hkey conf (fst ?g) \<and> group_keys conf (snd ?g) \<subseteq> group_keys conf (snd (snd e))"
      using gh(2) gc(2) l by (intro bexI[of _ "(i, gn, h)"]) (simp_all add: elems_in_def)
    show ?thesis
    proof (cases "r \<and> writer g'")
      case ok: True
      then have "passed conf m ?g g'" using h(2) by simp
      from replaced_group[OF m w _ this disjI2[OF k]] gg(1) show ?thesis using e ok by auto
    qed (use e m in auto)
  qed
qed

lemma del_answered:
  assumes b: "by_key conf is_hgroup_name" and m: "groups_opt conf m" and d: "hgroup_del conf unused name m = (r, m')"
  shows "groups_opt conf m' \<and> (closed_groups conf m \<longrightarrow> closed_groups conf m')"
proof (cases "m' = m")
  case False
  obtain n where n: "name = Some n" using d False by (cases name) (auto simp: hgroup_del_def)
  obtain i where i: "lGetElemHost conf m (Some n) = Some i"
    using d False n by (cases "lGetElemHost conf m (Some n)") (auto simp: hgroup_del_def hgroup_list_locate_def)
  then obtain l where l: "m = Some l" by (cases m) (auto simp: lGetElemHost_def lGetElemHostFirst_def)
  obtain gn h where gh: "hl_get i l = Some (i, gn, h)" "(i, gn, h) \<in> set (hl_elems l)" "hkey conf gn = hkey conf n"
    "without_key conf (Some l) (hkey conf n) (hl_lDechainElem conf i l)"
    using key_out[of conf l n i] m i l by auto
  have gg: "groups_ok conf l" "acyclic (group_edges conf l)" "is_hgroup_name gn" using groups_optD[OF m l] gh(2) by (auto simp: groups_ok_def)
  let ?l = "hl_lDechainElem conf i l"
  obtain s where s: "single_ref conf gn = Some s" "hl_names s = [gn]" using single_names by blast
  obtain p' where p': "href_list_find_referencees conf (Some s) (Some l) (Some None) = (True, p')"
    "grows conf {} ((group_edges conf l)\<inverse> `` groups_in conf (set (hl_names s))) (None, Some None) (None, p')"
    using referencees_grow[OF b gg(1), of s None] by blast
  have rm: "hl_lRemoveElem conf i l = ?l" by (simp add: hl_lRemoveElem_def hl_lDechainElem_def)
  have x: "p' = Some None" "m' = Some ?l"
    using d False n i l gh(1) s(1) p'(1) rm
    by (auto simp: hgroup_del_def hgroup_list_locate_def hgroup_find_referencees_def split: if_splits option.splits)
  have free: "(k, hkey conf gn) \<notin> group_edges conf l" for k
    using p'(2) x(1) s(2) gg(3) by (auto simp: grows_def)
  have w: "hl_wf conf ?l" "hl_exact conf (\<lambda>_. True) ?l" "set (hl_elems ?l) = {e \<in> set (hl_elems l). hkey conf (fst (snd e)) \<noteq> hkey conf n}"
    using gh(4) by (simp_all add: without_key_def elems_in_def)
  have ok: "groups_ok conf ?l" using gg(1) w by (auto simp: groups_ok_def master_ok_def)
  have "group_edges conf ?l \<subseteq> group_edges conf l"
  proof
    fix x assume x: "x \<in> group_edges conf ?l"
    obtain a b where ab: "x = (a, b)" by (cases x)
    show "x \<in> group_edges conf l" using x unfolding ab edges_iff w(3) by blast
  qed
  then have "acyclic (group_edges conf ?l)" using gg(2) by (rule acyclic_subset[rotated])
  moreover have "closed_groups conf (Some ?l)" if c: "closed_groups conf (Some l)"
  proof -
    have "k \<in> keys_in conf (Some ?l)" if e: "e \<in> set (hl_elems ?l)" and k: "k \<in> group_keys conf (snd (snd e))" for e k
    proof -
      have el: "e \<in> set (hl_elems l)" using e w(3) by blast
      then have "k \<in> keys_in conf (Some l)" using c k by (auto simp: closed_groups_def elems_in_def)
      then obtain e2 where e2: "e2 \<in> set (hl_elems l)" "k = hkey conf (fst (snd e2))" unfolding keys_elems by (auto simp: elems_in_def)
      have "(hkey conf (fst (snd e)), k) \<in> group_edges conf l" unfolding edges_iff using el k by blast
      then have "k \<noteq> hkey conf n" using free gh(3) by auto
      then have "e2 \<in> set (hl_elems ?l)" using e2 w(3) by simp
      then show ?thesis unfolding keys_elems elems_in_def using e2(2) by auto
    qed
    then show ?thesis by (auto simp: closed_groups_def elems_in_def)
  qed
  ultimately show ?thesis using ok x(2) l by (simp add: groups_opt_def)
qed (use m in simp)

section \<open>Any requests\<close>

fun op_ok :: "bootstrap \<Rightarrow> hgroup_op \<Rightarrow> bool" where
  "op_ok conf (HG_add req cmd) \<longleftrightarrow> request_ok conf req"
| "op_ok conf (HG_mod req cmd) \<longleftrightarrow> request_ok conf req"
| "op_ok conf (HG_del name) \<longleftrightarrow> True"

definition world_ok :: "hgroup_world \<Rightarrow> bool" where
  "world_ok w \<longleftrightarrow> CL_MAXHOSTLEN (hw_conf w) > 1 \<and> resolver_ok (hw_resolve w)"

lemma step_answered:
  assumes "world_ok w" "op_ok (hw_conf w) r" "groups_opt (hw_conf w) m"
  shows "\<exists>a m'. hgroup_request_step w r m = Some (a, m') \<and> groups_opt (hw_conf w) m' \<and>
    (closed_groups (hw_conf w) m \<longrightarrow> closed_groups (hw_conf w) m')"
proof -
  have b: "by_key (hw_conf w) is_hgroup_name" "resolver_ok (hw_resolve w)"
    using assms(1) group_by_key by (simp_all add: world_ok_def)
  show ?thesis
  proof (cases r)
    case (HG_add req cmd)
    then show ?thesis using add_mod_answered[OF b assms(3), of req] assms(2) by simp
  next
    case (HG_mod req cmd)
    then show ?thesis using add_mod_answered[OF b assms(3), of req] assms(2) by simp
  next
    case (HG_del name)
    obtain a m' where d: "hgroup_del (hw_conf w) (hw_unused w) name m = (a, m')"
      by (cases "hgroup_del (hw_conf w) (hw_unused w) name m")
    then show ?thesis using del_answered[OF b(1) assms(3) d] HG_del by simp
  qed
qed

lemma requests_answered:
  assumes "world_ok w" "list_all (op_ok (hw_conf w)) rs" "groups_opt (hw_conf w) m"
  shows "\<exists>m'. hgroup_requests w rs m = Some m' \<and> groups_opt (hw_conf w) m' \<and>
    (closed_groups (hw_conf w) m \<longrightarrow> closed_groups (hw_conf w) m')"
  using assms(2,3)
proof (induction rs arbitrary: m)
  case (Cons r rs)
  obtain a m1 where s: "hgroup_request_step w r m = Some (a, m1)" "groups_opt (hw_conf w) m1"
    "closed_groups (hw_conf w) m \<longrightarrow> closed_groups (hw_conf w) m1"
    using step_answered[OF assms(1), of r m] Cons.prems by auto
  then show ?case using Cons.IH[OF _ s(2)] Cons.prems(1) by auto
qed simp

lemma empty_groups: "groups_opt conf None" "groups_opt conf (Some lCreateList)" "closed_groups conf (Some lCreateList)"
proof -
  have e: "hl_elems (lCreateList :: hgrp_list) = []" by (simp add: lCreateList_def)
  then have "group_edges conf (lCreateList :: hgrp_list) = {}" using edges_iff[of _ _ conf lCreateList] by auto
  then show "groups_opt conf (Some lCreateList)"
    by (simp add: groups_opt_def groups_ok_def master_ok_def e acyclic_def)
  show "groups_opt conf None" "closed_groups conf (Some lCreateList)"
    by (simp_all add: groups_opt_def closed_groups_def elems_in_def e)
qed



end
