(* ===== verification/Host_Cases.thy ===== *)
theory Host_Cases
  imports Host_Requests
begin

text \<open>
  The properties of host groups at concrete lists, and the inputs on which the code goes wrong.
\<close>

declare href_list_find_all_references.simps [code] href_list_find_all_referencees.simps [code]

definition sample_conf :: bootstrap where
  "sample_conf = \<lparr>ignore_fqdn = True, default_domain = None, CL_MAXHOSTLEN = 64\<rparr>"

definition href_names :: "string list \<Rightarrow> hr_list" where
  "href_names ns = fold (\<lambda>n. hl_lAppendElem sample_conf n ()) ns lCreateList"

definition sample_groups :: "(string \<times> string list) list \<Rightarrow> hgrp_list" where
  "sample_groups gs = fold (\<lambda>(n, ns). hl_lAppendElem sample_conf n (Some (href_names ns))) gs lCreateList"

definition sample_world :: hgroup_world where
  "sample_world = \<lparr>hw_conf = sample_conf, hw_resolve = (\<lambda>h. if is_hgroup_name h then None else Some h),
     hw_queues = (\<lambda>_ _. True), hw_writer = (\<lambda>_. True), hw_unused = (\<lambda>_. True)\<rparr>"

lemma sample_by_key: "by_key sample_conf is_hgroup_name"
  by (rule group_by_key) (simp add: sample_conf_def)

lemma href_names_good:
  assumes "distinct (keys_of sample_conf is_hgroup_name ns)"
  shows "good_list sample_conf (Some (href_names ns))"
proof -
  have e: "href_names ns = append_all sample_conf (map (\<lambda>n. (0, n, ())) ns) lCreateList"
    by (simp add: href_names_def fold_map comp_def)
  show ?thesis using append_all_list[of sample_conf lCreateList "map (\<lambda>n. (0, n, ())) ns"]
      append_all_exact[of sample_conf lCreateList is_hgroup_name "map (\<lambda>n. (0, n, ())) ns"] assms sample_by_key
    by (simp add: e comp_def)
qed

lemma sample_groups_ok:
  assumes "distinct (keys_of sample_conf (\<lambda>_. True) (map fst gs))"
  shows "master_ok sample_conf (sample_groups gs)"
proof -
  have e: "sample_groups gs = append_all sample_conf (map (\<lambda>g. (0, fst g, Some (href_names (snd g)))) gs) lCreateList"
    by (simp add: sample_groups_def fold_map comp_def case_prod_unfold)
  show ?thesis using append_all_list[of sample_conf lCreateList "map (\<lambda>g. (0, fst g, Some (href_names (snd g)))) gs"]
      append_all_exact[of sample_conf lCreateList "\<lambda>_. True" "map (\<lambda>g. (0, fst g, Some (href_names (snd g)))) gs"] assms
    by (simp add: e comp_def master_ok_def)
qed

lemma sample_world_ok: "world_ok sample_world"
  by (simp add: world_ok_def sample_world_def sample_conf_def resolver_ok_def)

definition sample_requests :: "hgroup_op list" where
  "sample_requests =
     [HG_add (Some ''@a'', Some (Some (href_names [''h'']))) 0, HG_add (Some ''@b'', Some (Some (href_names [''@a'', ''i'']))) 0,
      HG_mod (Some ''@a'', Some (Some (href_names [''@b'']))) SGE_GDI_APPEND, HG_del (Some ''@a'')]"

lemma sample_requests_ok: "list_all (op_ok (hw_conf sample_world)) sample_requests"
proof -
  have "distinct (keys_of sample_conf is_hgroup_name [''h''])" "distinct (keys_of sample_conf is_hgroup_name [''@a'', ''i''])"
    "distinct (keys_of sample_conf is_hgroup_name [''@b''])" by code_simp+
  then show ?thesis unfolding sample_requests_def using href_names_good by (auto simp: request_ok_def sample_world_def)
qed



theorem all_references_are_found_witness:
  "case href_list_find_all_references sample_conf (Some (href_names [''@a'', ''i''])) (Some (sample_groups [(''@a'', [''h'', ''@b'']), (''@b'', [''j''])])) (Some None) (Some None) of
     None \<Rightarrow> False
   | Some (r, hosts, groups) \<Rightarrow> r \<and>
       ptr_keys sample_conf groups = (group_edges sample_conf (sample_groups [(''@a'', [''h'', ''@b'']), (''@b'', [''j''])]))\<^sup>+ ``
         groups_in sample_conf (set (hl_names (href_names [''@a'', ''i''])))"
proof -
  have "distinct (keys_of sample_conf (\<lambda>_. True) (map fst [(''@a'', [''h'', ''@b'']), (''@b'', [''j''])]))" by code_simp
  note t = all_references_are_found[OF sample_groups_ok[OF this], of "href_names [''@a'', ''i'']"]
  have "map_option fst (href_list_find_all_references sample_conf (Some (href_names [''@a'', ''i'']))
      (Some (sample_groups [(''@a'', [''h'', ''@b'']), (''@b'', [''j''])])) (Some None) (Some None)) = Some True" by code_simp
  then show ?thesis using t by (auto split: option.splits)
qed

section \<open>Where the code goes wrong\<close>



text \<open>Nested groups that share a host do give such a list: the search for all references of \<open>@a\<close> finds \<open>h\<close> in
  \<open>@a\<close>, in \<open>@b\<close> and in \<open>@c\<close>.\<close>

lemma nested_groups_give_duplicates:
  "case hgroup_find_all_references sample_conf (''@a'', None)
       (Some (sample_groups [(''@a'', [''h'', ''@b'']), (''@b'', [''h'', ''@c'']), (''@c'', [''h''])])) (Some None) None of
     Some (r, Some (Some l), g) \<Rightarrow> hl_names l = [''h'', ''h'', ''h'']
   | _ \<Rightarrow> False"
  by code_simp

end
