(* ===== verification/Range_Text.thy ===== *)
theory Range_Text
  imports Complex_Main Range_Facts Object_Names
begin

text \<open>
  Id ranges as text: the printer and the parser of \<^verbatim>\<open>source/libs/sgeobj/sge_range.c\<close>, with
  the tokens of \<^verbatim>\<open>sge_strtok_r\<close>, and what they promise. Texts are C strings without NUL; a
  pointer into a string is the rest of the string from there. Of the C library,
  \<open>snprintf\<close> with \<^verbatim>\<open>%u\<close> and \<^verbatim>\<open>%d\<close>, \<open>strtol\<close> and the character classes are those of the C
  locale with 64-bit longs. \<open>strtod\<close> rounds to a C double and is a parameter; a double that is
  finite is the rational number it stands for. The messages put on the answer list are the
  values of \<open>range_error\<close>. A result \<open>None\<close> is behaviour that C leaves undefined: the
  conversion of a double that no \<open>u_long32\<close> can hold.
\<close>

section \<open>Numbers as text\<close>

fun decimal :: "nat \<Rightarrow> string" where
  "decimal n = (if 10 \<le> n then decimal (n div 10) else []) @ [char_of (48 + n mod 10)]"

declare decimal.simps [simp del]

definition decimal_int :: "int \<Rightarrow> string" where
  "decimal_int i = (if i < 0 then CHR ''-'' # decimal (nat (- i)) else decimal (nat i))"

definition isspace :: "char \<Rightarrow> bool" where
  "isspace c \<longleftrightarrow> (of_char c :: nat) = 32 \<or> 9 \<le> (of_char c :: nat) \<and> (of_char c :: nat) \<le> 13"

fun read_digits :: "nat \<Rightarrow> string \<Rightarrow> nat \<times> string" where
  "read_digits a [] = (a, [])"
| "read_digits a (c # cs) =
     (if isdigit_char c then read_digits (10 * a + (of_char c - 48)) cs else (a, c # cs))"

definition strtol :: "string \<Rightarrow> int \<times> string" where
  "strtol s =
     (let t = dropWhile isspace s;
          neg = (t \<noteq> [] \<and> hd t = CHR ''-'');
          u = (if t \<noteq> [] \<and> (hd t = CHR ''-'' \<or> hd t = CHR ''+'') then tl t else t)
      in if u \<noteq> [] \<and> isdigit_char (hd u)
         then (let (n, end) = read_digits 0 u
               in (if neg then max (- (2 ^ 63)) (- int n) else min (2 ^ 63 - 1) (int n), end))
         else (0, s))"

text \<open>The conversions between \<open>u_long32\<close> and the signed types.\<close>

definition u32_of_int :: "int \<Rightarrow> u32" where
  "u32_of_int i = nat (i mod 4294967296)"

definition int_of_u32 :: "u32 \<Rightarrow> int" where
  "int_of_u32 n = (if n < 2147483648 then int n else int n - 4294967296)"

datatype c_double = Finite rat | Infinite bool | NaN

fun double_positive :: "c_double \<Rightarrow> bool" where
  "double_positive (Finite x) = (0 < x)"
| "double_positive (Infinite neg) = (\<not> neg)"
| "double_positive NaN = False"

fun u32_of_double :: "c_double \<Rightarrow> u32 option" where
  "u32_of_double (Finite x) =
     (if x \<le> -1 \<or> 4294967296 \<le> x then None else Some (nat \<lfloor>x\<rfloor>))"
| "u32_of_double _ = None"

text \<open>\<open>dbl - ulng > epsilon\<close> for the double nearest to \<open>1.0E-12\<close>; the difference is exact.\<close>

fun exceeds :: "c_double \<Rightarrow> u32 \<Rightarrow> bool" where
  "exceeds (Finite x) n = (4951760157141521 / 4951760157141521099596496896 < x - of_nat n)"
| "exceeds (Infinite neg) n = (\<not> neg)"
| "exceeds NaN n = False"

section \<open>Tokens\<close>

definition is_delimitor :: "string option \<Rightarrow> char \<Rightarrow> bool" where
  "is_delimitor delimitor c = (case delimitor of None \<Rightarrow> isspace c | Some d \<Rightarrow> strchr d c)"

text \<open>The next token of what \<open>static_cp\<close> points to, and the new \<open>static_cp\<close>.\<close>

definition sge_strtok_r :: "string option \<Rightarrow> string \<Rightarrow> (string \<times> string) option" where
  "sge_strtok_r delimitor s =
     (let t = dropWhile (is_delimitor delimitor) s in
      if t = [] then None
      else Some (takeWhile (\<lambda>c. \<not> is_delimitor delimitor c) t,
                 drop 1 (dropWhile (\<lambda>c. \<not> is_delimitor delimitor c) t)))"

lemma sge_strtok_r_shorter: "sge_strtok_r d s = Some (t, r) \<Longrightarrow> length r < length s"
proof -
  assume a: "sge_strtok_r d s = Some (t, r)"
  define u where "u = dropWhile (is_delimitor d) s"
  have "u \<noteq> []" "r = drop 1 (dropWhile (\<lambda>c. \<not> is_delimitor d c) u)"
    using a by (auto simp: sge_strtok_r_def u_def Let_def split: if_splits)
  moreover have "length (dropWhile (\<lambda>c. \<not> is_delimitor d c) u) \<le> length u"
    by (rule length_dropWhile_le)
  moreover have "length u \<le> length s"
    by (simp add: u_def length_dropWhile_le)
  ultimately show ?thesis by (cases u) auto
qed

section \<open>Printing\<close>

text \<open>The texts of at most 33 characters fit into the buffer \<open>tail\<close> of 256.\<close>

definition range_to_dstring ::
  "u32 \<Rightarrow> u32 \<Rightarrow> int \<Rightarrow> string \<Rightarrow> bool \<Rightarrow> bool \<Rightarrow> bool \<Rightarrow> string" where
  "range_to_dstring start end step dyn ignore_step use_comma_as_separator print_always_as_range =
     (let to_char = (if use_comma_as_separator then '','' else ''-'');
          step_char = (if use_comma_as_separator then '','' else '':'');
          dyn = (if dyn \<noteq> [] then dyn @ '','' else dyn);
          tail =
            (if start = end \<and> \<not> print_always_as_range then decimal start
             else if start = end \<and> print_always_as_range then decimal start @ to_char @ decimal end
             else if u32_of_int (int start + step) = end then decimal start @ '','' @ decimal end
             else if ignore_step then decimal start @ to_char @ decimal end
             else decimal start @ to_char @ decimal end @ step_char @ decimal_int step)
      in dyn @ tail)"

definition print_range :: "bool \<Rightarrow> bool \<Rightarrow> bool \<Rightarrow> range \<Rightarrow> string \<Rightarrow> string" where
  "print_range ignore_step comma_as_separator print_always_as_range r s =
     (let (start, end, step) = range_get_all_ids (Some r)
      in range_to_dstring start end (int_of_u32 step) s ignore_step comma_as_separator
           print_always_as_range)"

definition range_list_print_to_string ::
  "rlist \<Rightarrow> string option \<Rightarrow> bool \<Rightarrow> bool \<Rightarrow> bool \<Rightarrow> string option" where
  "range_list_print_to_string this_list str ignore_step comma_as_separator print_always_as_range =
     (case str of None \<Rightarrow> None
      | Some s \<Rightarrow> Some
          (case this_list of
             None \<Rightarrow> s @ ''UNDEFINED''
           | Some rs \<Rightarrow> fold (print_range ignore_step comma_as_separator print_always_as_range) rs s))"

section \<open>Parsing\<close>

datatype range_error = InitialPortionNoDecimal | UnknownTrailer | NegativeStep
  | UnexpectedRangeFollowingUndefined | UnexpectedUndefinedFollowingRange

abbreviation (input) RANGE_INFINITY :: u32 where "RANGE_INFINITY \<equiv> 9999999"

definition starts :: "char \<Rightarrow> string \<Rightarrow> bool" where
  "starts c s \<longleftrightarrow> s \<noteq> [] \<and> hd s = c"

text \<open>The step behind the colon.\<close>

definition parse_step ::
  "(string \<Rightarrow> c_double \<times> string) \<Rightarrow> string \<Rightarrow> (range_error + u32) option" where
  "parse_step strtod rstr =
     (let (dbldummy, dptr) = strtod rstr in
      if double_positive dbldummy then
        (case u32_of_double dbldummy of
           None \<Rightarrow> None
         | Some ldummy \<Rightarrow> Some
             (if exceeds dbldummy ldummy \<or> ldummy = 0 \<and> rstr = dptr then Inl InitialPortionNoDecimal
              else if dptr \<noteq> [] then Inl UnknownTrailer
              else Inr ldummy))
      else if dptr = rstr then Some (Inl InitialPortionNoDecimal)
      else Some (Inl NegativeStep))"

text \<open>What follows \<open><n>-\<close>: the upper end and the step.\<close>

definition parse_upper ::
  "(string \<Rightarrow> c_double \<times> string) \<Rightarrow> bool \<Rightarrow> string \<Rightarrow> (range_error + (u32 \<times> u32)) option" where
  "parse_upper strtod step_allowed rstr =
     (let (v, dptr) = strtol rstr; ldummy = u32_of_int v in
      if ldummy = 0 \<and> rstr = dptr then Some (Inl InitialPortionNoDecimal)
      else if \<not> (dptr = [] \<or> step_allowed \<and> starts (CHR '':'') dptr) then Some (Inl UnknownTrailer)
      else if step_allowed \<and> dptr \<noteq> [] \<and> starts (CHR '':'') dptr then
        (case parse_step strtod (tl dptr) of
           None \<Rightarrow> None
         | Some (Inl e) \<Rightarrow> Some (Inl e)
         | Some (Inr step) \<Rightarrow> Some (Inr (ldummy, step)))
      else Some (Inr (ldummy, 1)))"

definition parsed_range :: "u32 \<Rightarrow> u32 \<Rightarrow> u32 \<Rightarrow> range" where
  "parsed_range rmin rmax step =
     (if rmin > rmax then \<lparr>RN_min = rmax, RN_max = rmin, RN_step = step\<rparr>
      else \<lparr>RN_min = rmin, RN_max = rmax, RN_step = step\<rparr>)"

definition range_parse_from_string ::
  "(string \<Rightarrow> c_double \<times> string) \<Rightarrow> string \<Rightarrow> bool \<Rightarrow> bool \<Rightarrow> (range option \<times> range_error list) option" where
  "range_parse_from_string strtod rstr step_allowed inf_allowed =
     (if strcasecmp rstr ''UNDEFINED'' = 0 then Some (None, [])
      else if rstr = ''-'' then
        (if inf_allowed
         then Some (Some \<lparr>RN_min = 1, RN_max = RANGE_INFINITY, RN_step = 0\<rparr>, [])
         else Some (None, []))
      else
        (let rmin = (if starts (CHR ''-'') rstr then 1 else 0);
             rstr = (if starts (CHR ''-'') rstr then tl rstr else rstr);
             (v, dptr) = strtol rstr;
             ldummy = u32_of_int v
         in if ldummy = 0 \<and> rstr = dptr then Some (None, [InitialPortionNoDecimal])
            else if rmin \<noteq> 0 then
              (if dptr \<noteq> [] \<or> step_allowed \<and> \<not> starts (CHR '':'') dptr
               then Some (None, [UnknownTrailer])
               else Some (Some (parsed_range rmin ldummy 1), []))
            else if dptr = [] then Some (Some (parsed_range ldummy ldummy 1), [])
            else if \<not> (starts (CHR ''-'') dptr \<or> (tl dptr \<noteq> [] \<and> isdigit_char (hd (tl dptr))) \<or>
                       tl dptr = [] \<or> step_allowed \<and> starts (CHR '':'') dptr)
            then Some (None, [UnknownTrailer])
            else if tl dptr = [] then
              (if inf_allowed then Some (Some (parsed_range ldummy RANGE_INFINITY 1), [])
               else Some (None, []))
            else
              (case parse_upper strtod step_allowed (tl dptr) of
                 None \<Rightarrow> None
               | Some (Inl e) \<Rightarrow> Some (None, [e])
               | Some (Inr (rmax, step)) \<Rightarrow> Some (Some (parsed_range ldummy rmax step), []))))"

text \<open>
  The loop over the tokens; \<open>s\<close> is what \<open>sge_strtok_r\<close> has left, \<open>l\<close> the list pointed to by
  \<open>this_list\<close>, \<open>errs\<close> the messages so far. Where the code returns false, the list is lost.
\<close>

function parse_loop ::
  "(string \<Rightarrow> c_double \<times> string) \<Rightarrow> bool \<Rightarrow> bool \<Rightarrow> bool \<Rightarrow> bool \<Rightarrow> bool \<Rightarrow> rlist \<Rightarrow> string \<Rightarrow>
   range_error list \<Rightarrow> (bool \<times> rlist \<times> range_error list) option" where
  "parse_loop strtod just_parse step_allowed inf_allowed first undefd l s errs =
     (case sge_strtok_r (Some '','') s of
        None \<Rightarrow> Some (True, l, errs)
      | Some (tok, rest) \<Rightarrow>
          (if \<not> first \<and> undefd then Some (False, None, errs @ [UnexpectedRangeFollowingUndefined])
           else
             (case range_parse_from_string strtod tok step_allowed inf_allowed of
                None \<Rightarrow> None
              | Some (None, es) \<Rightarrow>
                  (if first
                   then parse_loop strtod just_parse step_allowed inf_allowed False True l rest (errs @ es)
                   else Some (False, None, errs @ es @ [UnexpectedUndefinedFollowingRange]))
              | Some (Some r, es) \<Rightarrow>
                  parse_loop strtod just_parse step_allowed inf_allowed False undefd
                    (if just_parse then l else expand_range_list r l) rest (errs @ es))))"
  by pat_completeness auto
termination
  by (relation "measure (\<lambda>(_, _, _, _, _, _, _, s, _). length s)") (auto dest: sge_strtok_r_shorter)

declare parse_loop.simps [simp del]

definition range_list_parse_from_string ::
  "(string \<Rightarrow> c_double \<times> string) \<Rightarrow> rlist \<Rightarrow> string option \<Rightarrow> bool \<Rightarrow> bool \<Rightarrow> bool \<Rightarrow>
   (bool \<times> rlist \<times> range_error list) option" where
  "range_list_parse_from_string strtod this_list str just_parse step_allowed inf_allowed =
     (case str of
        None \<Rightarrow> Some (True, this_list, [])
      | Some s \<Rightarrow> parse_loop strtod just_parse step_allowed inf_allowed True False this_list s [])"

section \<open>The average of the ids\<close>

text \<open>
  The walk over all ids up to \<open>upperbound\<close>, where that is not 0; the sum is taken in doubles, which hold it
  exactly below \<open>2 ^ 53\<close>, and the quotient is the rational number that C rounds.
\<close>

definition ids_up_to :: "u32 \<Rightarrow> range \<Rightarrow> u32 list option" where
  "ids_up_to upperbound r =
     (let (mn, mx, step) = range_get_all_ids (Some r)
      in range_for mn (if upperbound \<noteq> 0 then min mx upperbound else mx) step)"

fun average_loop :: "u32 \<Rightarrow> range list \<Rightarrow> nat \<Rightarrow> nat \<Rightarrow> (nat \<times> nat) option" where
  "average_loop upperbound [] s n = Some (s, n)"
| "average_loop upperbound (r # rs) s n =
     (case ids_up_to upperbound r of
        None \<Rightarrow> None
      | Some is \<Rightarrow> average_loop upperbound rs (s + sum_list is) (n + length is))"

definition range_list_get_average :: "rlist \<Rightarrow> u32 \<Rightarrow> rat option" where
  "range_list_get_average this_list upperbound =
     (case average_loop upperbound (elems this_list) 0 0 of
        None \<Rightarrow> None
      | Some (s, n) \<Rightarrow> Some (if n > 0 then of_nat s / of_nat n else 0))"

end
