(* ===== verification/Task_Text.thy ===== *)
theory Task_Text
  imports Range_Text Job_Ids
begin

text \<open>
  The task ids of array jobs as users read and write them,
  \<^verbatim>\<open>source/libs/sgeobj/sge_ja_task.c\<close>: the list of tasks printed as ranges of ids, and the
  parser of \<^verbatim>\<open><job>.<ranges>\<close> that the commands for jobs share. Elements of \<open>ID_Type\<close> have the fields of
  \<^verbatim>\<open>sge_id_ID_L.h\<close>.
\<close>

record id_elem =
  ID_str :: string
  ID_ja_structure :: rlist
  ID_action :: u32
  ID_force :: u32
  ID_user_list :: "string list option"

definition insert_task_number :: "ja_task \<Rightarrow> rlist \<Rightarrow> rlist option" where
  "insert_task_number t l = range_list_insert_id l (JAT_task_number t)"

definition ja_task_list_print_to_string ::
  "ja_task list \<Rightarrow> string option \<Rightarrow> string option option" where
  "ja_task_list_print_to_string ja_task_list range_string =
     (case fold_opt insert_task_number ja_task_list None of
        None \<Rightarrow> None
      | Some range_list \<Rightarrow>
          (case range_list_sort_uniq_compress range_list True of
             None \<Rightarrow> None
           | Some range_list \<Rightarrow>
               Some (range_list_print_to_string range_list range_string False False False)))"

text \<open>The string cut at its first dot: the job, and the token behind the dot.\<close>

definition split_at_dot :: "string \<Rightarrow> string \<times> string option" where
  "split_at_dot s =
     (takeWhile (\<lambda>c. c \<noteq> CHR ''.'') s,
      (if CHR ''.'' \<in> set s then Some (tl (dropWhile (\<lambda>c. c \<noteq> CHR ''.'') s)) else None))"

fun double_below_one :: "c_double \<Rightarrow> bool" where
  "double_below_one (Finite x) = (x < 1)"
| "double_below_one (Infinite neg) = neg"
| "double_below_one NaN = False"

definition no_job_number :: "(string \<Rightarrow> c_double \<times> string) \<Rightarrow> string \<Rightarrow> bool option" where
  "no_job_number strtod job_str =
     (let (dbl_value, end_ptr) = strtod job_str in
      if double_below_one dbl_value then Some True
      else (case u32_of_double dbl_value of
              None \<Rightarrow> None
            | Some ulng_value \<Rightarrow> Some (exceeds dbl_value ulng_value \<or> end_ptr \<noteq> [])))"

definition parse_tasks ::
  "(string \<Rightarrow> c_double \<times> string) \<Rightarrow> string option \<Rightarrow> (int \<times> rlist \<times> range_error list) option" where
  "parse_tasks strtod tasks =
     (case tasks of
        None \<Rightarrow> Some (1, None, [])
      | Some token \<Rightarrow>
          (case range_list_parse_from_string strtod None (Some token) False True False of
             None \<Rightarrow> None
           | Some (ok, l, es) \<Rightarrow> Some (if \<not> ok \<or> l = None then -1 else 1, l, es)))"

text \<open>The checks of \<open>sge_parse_jobtasks\<close>: its result so far, \<open>job_str\<close> and the ranges.\<close>

definition check_jobtasks ::
  "(string \<Rightarrow> c_double \<times> string) \<Rightarrow> string \<Rightarrow> (int \<times> string \<times> rlist \<times> range_error list) option" where
  "check_jobtasks strtod job_str =
     (if job_str = [] then Some (-1, job_str, None, [])
      else if isdigit_char (hd job_str) then
        (let (job, tasks) = split_at_dot job_str in
         case parse_tasks strtod tasks of
           None \<Rightarrow> None
         | Some (ret, l, es) \<Rightarrow>
             (case no_job_number strtod job of
                None \<Rightarrow> None
              | Some bad \<Rightarrow> Some (if bad then -1 else ret, job, l, es)))
      else Some (1, job_str, None, []))"

definition sge_parse_jobtasks ::
  "(string \<Rightarrow> c_double \<times> string) \<Rightarrow> id_elem list \<Rightarrow> string \<Rightarrow> bool \<Rightarrow> rlist \<Rightarrow>
   (int \<times> id_elem list \<times> range_error list) option" where
  "sge_parse_jobtasks strtod ipp str_jobtask include_names arrayDefList =
     (case check_jobtasks strtod str_jobtask of
        None \<Rightarrow> None
      | Some (ret, job_str, l, es) \<Rightarrow>
          (let l = (if arrayDefList \<noteq> None then Some (elems l @ elems arrayDefList) else l) in
           if ret = 1 then
             (if \<not> include_names \<and> \<not> (job_str \<noteq> [] \<and> isdigit_char (hd job_str)) \<and>
                 job_str \<noteq> [CHR 0x22, CHR ''*'', CHR 0x22]
              then Some (-1, ipp, es)
              else (case range_list_sort_uniq_compress l True of
                      None \<Rightarrow> None
                    | Some l \<Rightarrow>
                        Some (ret, ipp @ [\<lparr>ID_str = job_str, ID_ja_structure = l, ID_action = 0,
                                           ID_force = 0, ID_user_list = None\<rparr>], es)))
           else Some (ret, ipp, es)))"

end
