(* ===== verification/Range_Text_Facts.thy ===== *)
theory Range_Text_Facts
  imports Task_Text
begin

text \<open>
  What the printer and the parser of ranges promise: ranges that are printed are read again as the
  same set of ids, also through \<open>sge_parse_jobtasks\<close>; and where the parser rejects what it means to accept.
  Of \<open>strtod\<close> it is relied on that decimal numbers below \<open>2 ^ 53\<close> are read exactly (\<open>exact_decimals\<close>).
\<close>

section \<open>Decimal numbers\<close>

definition exact_decimals :: "(string \<Rightarrow> c_double \<times> string) \<Rightarrow> bool" where
  "exact_decimals strtod \<longleftrightarrow> (\<forall>n < 2 ^ 53. strtod (decimal n) = (Finite (of_nat n), []))"

lemma isdigit_digit [simp]: "d < 10 \<Longrightarrow> isdigit_char (char_of (48 + d :: nat))"
  by (simp add: isdigit_char_def)

lemma decimal_digits [simp]: "c \<in> set (decimal n) \<Longrightarrow> isdigit_char c"
  by (induction n rule: decimal.induct) (subst (asm) (2) decimal.simps, auto split: if_splits)

lemma decimal_not_empty [simp]: "decimal n \<noteq> []"
  by (subst decimal.simps) simp

lemma digit_not [simp]:
  "isdigit_char c \<Longrightarrow> c \<noteq> CHR '',''" "isdigit_char c \<Longrightarrow> c \<noteq> CHR ''-''"
  "isdigit_char c \<Longrightarrow> c \<noteq> CHR ''+''" "isdigit_char c \<Longrightarrow> c \<noteq> CHR ''.''"
  "isdigit_char c \<Longrightarrow> c \<noteq> CHR '':''" "isdigit_char c \<Longrightarrow> \<not> isspace c"
  by (auto simp: isdigit_char_def isspace_def)

lemma no_digit_chars [simp]:
  "\<not> isdigit_char (CHR '','')" "\<not> isdigit_char (CHR ''-'')" "\<not> isdigit_char (CHR '':'')"
  "\<not> isdigit_char (CHR ''.'')"
  by (simp_all add: isdigit_char_def)

lemma decimal_no_sign [simp]:
  "CHR '','' \<notin> set (decimal n)" "CHR ''.'' \<notin> set (decimal n)"
  using decimal_digits no_digit_chars by blast+

lemma decimal_hd [simp]: "isdigit_char (hd (decimal n))"
  using decimal_digits[of "hd (decimal n)" n] by simp

lemma read_digits_snoc:
  "\<forall>c \<in> set ds. isdigit_char c \<Longrightarrow>
   read_digits a (ds @ s) = read_digits (fold (\<lambda>c a. 10 * a + (of_char c - 48)) ds a) s"
  by (induction ds arbitrary: a) auto

lemma decimal_value: "fold (\<lambda>c a. 10 * a + (of_char c - 48)) (decimal n) 0 = n"
proof (induction n rule: decimal.induct)
  case (1 n)
  then show ?case by (subst decimal.simps) auto
qed

definition no_digit :: "string \<Rightarrow> bool" where
  "no_digit s \<longleftrightarrow> s = [] \<or> \<not> isdigit_char (hd s)"

lemma no_digit_simps [simp]:
  "no_digit []" "no_digit (c # s) \<longleftrightarrow> \<not> isdigit_char c"
  by (simp_all add: no_digit_def)

lemma read_decimal: "no_digit s \<Longrightarrow> read_digits 0 (decimal n @ s) = (n, s)"
  using read_digits_snoc[of "decimal n" 0 s] by (cases s) (simp_all add: decimal_value)

lemma strtol_decimal:
  assumes "no_digit s" "n < 2 ^ 63"
  shows "strtol (decimal n @ s) = (int n, s)"
proof -
  obtain c cs where d: "decimal n = c # cs" by (cases "decimal n") auto
  have c: "isdigit_char c" using decimal_hd[of n] d by simp
  then have "dropWhile isspace (decimal n @ s) = decimal n @ s" by (simp add: d)
  moreover have "hd (decimal n @ s) = c" "decimal n @ s \<noteq> []" by (simp_all add: d)
  moreover have "int n \<le> 2 ^ 63 - 1" using assms(2) by simp
  ultimately show ?thesis
    using c read_decimal[OF assms(1)] by (simp add: strtol_def)
qed

lemmas strtol_decimal_end = strtol_decimal[where s = "[]", simplified]

lemma u32_of_int_exact [simp]: "n < u32_limit \<Longrightarrow> u32_of_int (int n) = n"
  by (simp add: u32_of_int_def)

lemma int_of_u32_exact [simp]: "n < 2147483648 \<Longrightarrow> int_of_u32 n = int n"
  by (simp add: int_of_u32_def)

lemma decimal_int_nat [simp]: "decimal_int (int n) = decimal n"
  by (simp add: decimal_int_def)

section \<open>Tokens joined with commas\<close>

fun commas :: "string list \<Rightarrow> string" where
  "commas [] = []"
| "commas [t] = t"
| "commas (t # u # ts) = t @ '','' @ commas (u # ts)"

lemma commas_snoc: "commas (ts @ [t]) = (if ts = [] then t else commas ts @ '','' @ t)"
  by (induction ts rule: commas.induct) auto

definition token :: "string \<Rightarrow> bool" where
  "token t \<longleftrightarrow> t \<noteq> [] \<and> CHR '','' \<notin> set t"

lemma commas_empty: "\<forall>t \<in> set ts. token t \<Longrightarrow> commas ts = [] \<longleftrightarrow> ts = []"
  by (cases ts rule: commas.cases) (auto simp: token_def)

lemma strtok_commas:
  assumes "token t"
  shows "sge_strtok_r (Some '','') (commas (t # ts)) = Some (t, commas ts)"
proof -
  obtain c cs where t: "t = c # cs" "c \<noteq> CHR '',''" using assms by (cases t) (auto simp: token_def)
  have sep: "is_delimitor (Some '','') = (\<lambda>x. x = CHR '','')"
    by (auto simp: is_delimitor_def strchr_def)
  have nc: "\<forall>x \<in> set t. x \<noteq> CHR '',''" using assms by (auto simp: token_def)
  show ?thesis
  proof (cases ts)
    case Nil
    have "takeWhile (\<lambda>c. c \<noteq> CHR '','') t = t" "dropWhile (\<lambda>c. c \<noteq> CHR '','') t = []"
      using nc by (simp_all add: takeWhile_eq_all_conv)
    moreover have "dropWhile (\<lambda>c. c = CHR '','') t = t" "t \<noteq> []" using t by simp_all
    ultimately show ?thesis
      using Nil by (simp add: sge_strtok_r_def sep del: dropWhile_eq_Nil_conv drop_eq_Nil)
  next
    case (Cons u us)
    define s where "s = commas ts"
    have eq: "commas (t # ts) = t @ '','' @ s" by (simp add: Cons s_def)
    have "takeWhile (\<lambda>c. c \<noteq> CHR '','') (t @ '','' @ s) = t"
      "dropWhile (\<lambda>c. c \<noteq> CHR '','') (t @ '','' @ s) = CHR '','' # s"
      using nc by (simp_all add: takeWhile_append2 dropWhile_append2)
    moreover have "dropWhile (\<lambda>c. c = CHR '','') (t @ '','' @ s) = t @ '','' @ s" using t by simp
    ultimately show ?thesis
      unfolding eq s_def[symmetric] using t by (simp add: sge_strtok_r_def sep)
  qed
qed

lemma strtok_end [simp]: "sge_strtok_r d [] = None"
  by (simp add: sge_strtok_r_def)

text \<open>Tokens that are all read as ranges are added one after the other.\<close>

lemma parse_loop_tokens:
  assumes "list_all2 (\<lambda>t r. token t \<and> range_parse_from_string strtod t sa ia = Some (Some r, [])) ts rs"
  shows "parse_loop strtod False sa ia first False l (commas ts) errs = Some (True, fold expand_range_list rs l, errs)"
  using assms
proof (induction arbitrary: l first rule: list_all2_induct)
  case Nil
  show ?case by (subst parse_loop.simps) simp
next
  case (Cons t ts r rs)
  show ?case
    using Cons.hyps Cons.IH[of False "expand_range_list r l"]
    by (subst parse_loop.simps) (simp add: strtok_commas)
qed

section \<open>Ranges printed and read again\<close>

text \<open>The texts that stand for a range between commas, and the ranges they are read as.\<close>

definition texts :: "bool \<Rightarrow> range \<Rightarrow> string list" where
  "texts al r =
     (if RN_min r = RN_max r
      then [if al then decimal (RN_min r) @ ''-'' @ decimal (RN_max r) else decimal (RN_min r)]
      else if RN_min r + RN_step r = RN_max r then [decimal (RN_min r), decimal (RN_max r)]
      else [decimal (RN_min r) @ ''-'' @ decimal (RN_max r) @ '':'' @ decimal (RN_step r)])"

definition pieces :: "range \<Rightarrow> range list" where
  "pieces r =
     (if RN_min r \<noteq> RN_max r \<and> RN_min r + RN_step r = RN_max r
      then [\<lparr>RN_min = RN_min r, RN_max = RN_min r, RN_step = 1\<rparr>,
            \<lparr>RN_min = RN_max r, RN_max = RN_max r, RN_step = 1\<rparr>]
      else [r])"

lemma range_ok_step:
  assumes "range_ok r" "RN_min r \<noteq> RN_max r"
  shows "RN_min r + RN_step r \<le> RN_max r"
proof -
  have "RN_step r dvd RN_max r - RN_min r" "0 < RN_max r - RN_min r"
    using assms by (auto simp: range_ok_def)
  then have "RN_step r \<le> RN_max r - RN_min r" by (rule dvd_imp_le)
  moreover have "RN_min r \<le> RN_max r" using assms(1) by (simp add: range_ok_def)
  ultimately show ?thesis by linarith
qed

lemma token_digits [simp]: "token (decimal n)"
  by (auto simp: token_def)

lemma token_texts: "t \<in> set (texts al r) \<Longrightarrow> token t"
  by (auto simp: texts_def token_def split: if_splits)

lemma texts_not_empty [simp]: "texts al r \<noteq> []"
  by (simp add: texts_def)

lemma print_range_texts:
  assumes "range_ok r" "RN_step r < 2147483648" "\<forall>t \<in> set ts. token t"
  shows "print_range False False al r (commas ts) = commas (ts @ texts al r)"
proof -
  have "u32_of_int (int (RN_min r) + int (RN_step r)) = RN_min r + RN_step r" if "RN_min r \<noteq> RN_max r"
    using u32_of_int_exact[of "RN_min r + RN_step r"] range_ok_step[OF assms(1) that] assms(1)
    by (simp add: range_ok_def)
  moreover have "commas (ts @ [x, y]) = (if ts = [] then [] else commas ts @ '','') @ x @ '','' @ y" for x y
    using commas_snoc[of "ts @ [x]" y] by (simp add: commas_snoc)
  ultimately show ?thesis
    using assms(2) commas_empty[OF assms(3)]
    by (simp add: print_range_def range_get_all_ids_def range_to_dstring_def texts_def commas_snoc Let_def)
qed

lemma print_list_texts:
  assumes "\<forall>r \<in> set rs. range_ok r \<and> RN_step r < 2147483648" "\<forall>t \<in> set ts. token t"
  shows "fold (print_range False False al) rs (commas ts) = commas (ts @ concat (map (texts al) rs))"
  using assms
proof (induction rs arbitrary: ts)
  case (Cons r rs)
  have "\<forall>t \<in> set (ts @ texts al r). token t"
    using Cons.prems(2) token_texts by auto
  then show ?case
    using Cons.IH[of "ts @ texts al r"] Cons.prems print_range_texts[of r ts al] by simp
qed simp

lemma tolower_U: "tolower (CHR ''U'') = CHR ''u''"
  by code_simp

lemma minus_not_undefined [simp]: "strcasecmp (CHR ''-'' # t) ''UNDEFINED'' \<noteq> 0"
proof -
  have "tolower (CHR ''-'') = CHR ''-''" by code_simp
  then show ?thesis by (simp add: strcasecmp_def tolower_U)
qed

lemma not_undefined:
  assumes "t \<noteq> []" "isdigit_char (hd t)"
  shows "strcasecmp t ''UNDEFINED'' \<noteq> 0" "t \<noteq> ''-''" "\<not> starts (CHR ''-'') t"
proof -
  obtain c cs where t: "t = c # cs" "isdigit_char c" using assms by (cases t) auto
  then have "tolower c = c" by (auto simp: tolower_def isdigit_char_def)
  then have "tolower c \<noteq> CHR ''u''" using t by (auto simp: isdigit_char_def)
  then show "strcasecmp t ''UNDEFINED'' \<noteq> 0"
    by (simp add: strcasecmp_def tolower_U t)
  show "t \<noteq> ''-''" "\<not> starts (CHR ''-'') t" using t by (auto simp: starts_def)
qed

lemma decimal_append [simp]:
  "decimal n @ s \<noteq> []" "hd (decimal n @ s) = hd (decimal n)" "decimal n @ s \<noteq> s"
  by simp_all

lemma parse_number:
  assumes "n < u32_limit"
  shows "range_parse_from_string strtod (decimal n) sa ia = Some (Some \<lparr>RN_min = n, RN_max = n, RN_step = 1\<rparr>, [])"
  using not_undefined[of "decimal n"] strtol_decimal_end[of n] assms
  by (simp add: range_parse_from_string_def parsed_range_def)

lemma parse_bounds:
  assumes "a \<le> b" "b < u32_limit"
    and up: "parse_upper strtod sa (decimal b @ s) = Some (Inr (b, st))"
  shows "range_parse_from_string strtod (decimal a @ ''-'' @ decimal b @ s) sa ia =
    Some (Some \<lparr>RN_min = a, RN_max = b, RN_step = st\<rparr>, [])"
  using not_undefined[of "decimal a @ ''-'' @ decimal b @ s"] strtol_decimal[of "''-'' @ decimal b @ s" a] assms
  by (simp add: range_parse_from_string_def parsed_range_def starts_def)

lemma parse_upper_plain:
  "b < u32_limit \<Longrightarrow> parse_upper strtod sa (decimal b) = Some (Inr (b, 1))"
  using strtol_decimal_end[of b] by (simp add: parse_upper_def starts_def)

lemma parse_upper_step:
  assumes "exact_decimals strtod" "b < u32_limit" "0 < s" "s < u32_limit"
  shows "parse_upper strtod True (decimal b @ '':'' @ decimal s) = Some (Inr (b, s))"
proof -
  have "strtod (decimal s) = (Finite (of_nat s), [])"
    using assms(1,4) by (simp add: exact_decimals_def)
  moreover have "\<not> 4294967296 \<le> (of_nat s :: rat)"
    using assms(4) of_nat_less_iff[of s 4294967296, where 'a = rat] by simp
  ultimately have "parse_step strtod (decimal s) = Some (Inr s)"
    using assms(3) by (simp add: parse_step_def)
  then show ?thesis
    using strtol_decimal[of "'':'' @ decimal s" b] assms(2)
    by (simp add: parse_upper_def starts_def)
qed

lemma ids_two:
  assumes "0 < RN_step r" "RN_min r + RN_step r = RN_max r"
  shows "ids r = {RN_min r, RN_max r}"
  using ids_spanI[of r 1] span_Suc[of "RN_min r" "RN_step r" 0] assms by auto

lemma range_single [simp]:
  "range_ok \<lparr>RN_min = n, RN_max = n, RN_step = 1\<rparr> \<longleftrightarrow> n < u32_limit"
  "range_ok \<lparr>RN_min = n, RN_max = n, RN_step = Suc 0\<rparr> \<longleftrightarrow> n < u32_limit"
  "ids \<lparr>RN_min = n, RN_max = n, RN_step = s\<rparr> = {n}"
  by (auto simp: range_ok_def ids_def)

lemma pieces_ids:
  assumes "range_ok r"
  shows "list_ids (pieces r) = ids r"
  using assms ids_two[of r] by (auto simp: pieces_def range_ok_def)

lemma pieces_wf:
  assumes "range_ok r"
  shows "rl_wf (pieces r)"
    and "p \<in> set (pieces r) \<Longrightarrow> RN_min r \<le> RN_min p \<and> RN_max p \<le> RN_max r"
  using assms by (auto simp: pieces_def split: if_splits) (auto simp: range_ok_def)

lemma pieces_not_empty [simp]: "pieces r \<noteq> []"
  by (simp add: pieces_def)

lemma list_pieces:
  assumes "rl_wf rs"
  shows "rl_wf (concat (map pieces rs)) \<and> list_ids (concat (map pieces rs)) = list_ids rs"
  using assms
proof (induction rs)
  case (Cons r rs)
  have ok: "range_ok r" and rest: "rl_wf rs" using Cons.prems by simp_all
  have "RN_max p < RN_min q" if "p \<in> set (pieces r)" "b \<in> set rs" "q \<in> set (pieces b)" for p b q
  proof -
    have "RN_max p \<le> RN_max r" using pieces_wf(2)[OF ok that(1)] by simp
    also have "RN_max r < RN_min b" using Cons.prems that(2) by simp
    also have "RN_min b \<le> RN_min q"
      using pieces_wf(2)[OF rl_wf_ok[OF rest that(2)] that(3)] by simp
    finally show ?thesis .
  qed
  then show ?case
    using Cons.IH[OF rest] pieces_wf(1)[OF ok] pieces_ids[OF ok] by auto
qed simp

text \<open>Ascending ranges each go to the head of the list.\<close>

lemma expand_ascending:
  assumes "rl_wf ps" "\<forall>p \<in> set ps. elems l \<noteq> [] \<longrightarrow> RN_max (hd (elems l)) < RN_min p" "ps \<noteq> []"
  shows "fold expand_range_list ps l = Some (rev ps @ elems l)"
  using assms
proof (induction ps arbitrary: l)
  case (Cons p ps)
  have step: "expand_range_list p l = Some (p # elems l)"
    using Cons.prems(2) by (cases "elems l") (auto simp: expand_range_list_def)
  show ?case
  proof (cases "ps = []")
    case False
    then show ?thesis using Cons.IH[of "Some (p # elems l)"] Cons.prems(1) step by simp
  qed (simp add: step)
qed simp

lemma texts_are_read:
  assumes "range_ok r" "exact_decimals strtod"
  shows "list_all2 (\<lambda>t p. token t \<and> range_parse_from_string strtod t True ia = Some (Some p, []))
    (texts al r) (pieces r)"
proof -
  have b: "RN_min r \<le> RN_max r" "RN_min r < u32_limit" "RN_max r < u32_limit" "0 < RN_step r"
    "RN_step r < u32_limit" using assms(1) by (auto simp: range_ok_def)
  have single: "r = \<lparr>RN_min = RN_min r, RN_max = RN_min r, RN_step = 1\<rparr>" if "RN_min r = RN_max r"
    using assms(1) that by (cases r) (simp add: range_ok_def)
  have whole: "r = \<lparr>RN_min = RN_min r, RN_max = RN_max r, RN_step = RN_step r\<rparr>" by (cases r) simp
  consider "RN_min r = RN_max r" "\<not> al" | "RN_min r = RN_max r" al
    | "RN_min r \<noteq> RN_max r" "RN_min r + RN_step r = RN_max r"
    | "RN_min r \<noteq> RN_max r" "RN_min r + RN_step r \<noteq> RN_max r" by blast
  then have "list_all2 (\<lambda>t p. range_parse_from_string strtod t True ia = Some (Some p, []))
    (texts al r) (pieces r)"
  proof cases
    case 1
    then show ?thesis
      using parse_number[OF b(2)] single by (simp add: texts_def pieces_def)
  next
    case 2
    have "range_parse_from_string strtod (decimal (RN_min r) @ ''-'' @ decimal (RN_max r) @ []) True ia = Some (Some r, [])"
      using parse_bounds[of "RN_min r" "RN_max r" strtod True "[]" 1 ia] parse_upper_plain[OF b(3)] b single[OF 2(1)] 2
      by simp
    then show ?thesis using 2 by (simp add: texts_def pieces_def)
  next
    case 3
    then show ?thesis
      using parse_number[OF b(2)] parse_number[OF b(3)] by (simp add: texts_def pieces_def)
  next
    case 4
    have "range_parse_from_string strtod (decimal (RN_min r) @ ''-'' @ decimal (RN_max r) @ '':'' @ decimal (RN_step r)) True ia
      = Some (Some r, [])"
      using parse_bounds[of "RN_min r" "RN_max r" strtod True "'':'' @ decimal (RN_step r)" "RN_step r" ia]
        parse_upper_step[OF assms(2) b(3,4,5)] b whole by simp
    then show ?thesis using 4 by (simp add: texts_def pieces_def)
  qed
  then show ?thesis
    using token_texts[of _ al r] by (simp add: list_all2_conv_all_nth)
qed

lemma list_texts_are_read:
  assumes "\<forall>r \<in> set rs. range_ok r" "exact_decimals strtod"
  shows "list_all2 (\<lambda>t p. token t \<and> range_parse_from_string strtod t True ia = Some (Some p, []))
    (concat (map (texts al) rs)) (concat (map pieces rs))"
  using assms(1)
  by (induction rs) (auto intro!: list_all2_appendI texts_are_read[OF _ assms(2)])

lemma printed_list_is_read:
  assumes "rl_wf rs" "rs \<noteq> []" "\<forall>r \<in> set rs. RN_step r < 2147483648" "exact_decimals strtod"
  shows "\<exists>s. range_list_print_to_string (Some rs) (Some []) False False al = Some s \<and>
    range_list_parse_from_string strtod None (Some s) False True ia =
      Some (True, Some (rev (concat (map pieces rs))), [])"
proof -
  have ok: "\<forall>r \<in> set rs. range_ok r" using assms(1) rl_wf_ok by blast
  have "concat (map pieces rs) \<noteq> []" using assms(2) by (cases rs) simp_all
  then have "fold expand_range_list (concat (map pieces rs)) None = Some (rev (concat (map pieces rs)))"
    using expand_ascending[of "concat (map pieces rs)" None] list_pieces[OF assms(1)] by simp
  then show ?thesis
    using print_list_texts[of rs "[]" al] ok assms(3)
      parse_loop_tokens[OF list_texts_are_read[OF ok assms(4), of ia al], of True None "[]"]
    by (simp add: range_list_print_to_string_def range_list_parse_from_string_def)
qed

section \<open>The average of the ids\<close>

lemma small_ids:
  assumes "rl_wf rs" "\<forall>i \<in> list_ids rs. i < 2147483648" "r \<in> set rs"
  shows "raw_ok r \<and> RN_step r < 2147483648"
proof -
  have ok: "range_ok r" using assms(1,3) rl_wf_ok by blast
  then have "RN_max r < 2147483648"
    using assms(2,3) max_in_ids[OF ok] by (auto simp: list_ids_def)
  moreover have "RN_step r \<le> RN_max r \<or> RN_step r = 1"
    using range_ok_step[OF ok] ok by (cases "RN_min r = RN_max r") (auto simp: range_ok_def)
  ultimately show ?thesis using ok by (auto simp: raw_ok_def loopable_def range_ok_def)
qed

lemma ids_up_to_all:
  assumes "raw_ok r"
  shows "\<exists>is. ids_up_to 0 r = Some is \<and> sum_list is = \<Sum>(ids r) \<and> length is = card (ids r)"
proof -
  obtain xs where xs: "range_for (RN_min r) (RN_max r) (RN_step r) = Some xs" "sorted_wrt (<) xs" "set xs = ids r"
    using range_for_correct[of "RN_step r" "RN_max r" "RN_min r"] assms
    by (auto simp: raw_ok_def loopable_def ids_def)
  then have d: "distinct xs" by (simp add: strict_sorted_iff)
  show ?thesis
    using xs distinct_card[OF d] distinct_sum_list_conv_Sum[OF d]
    by (simp add: ids_up_to_def range_get_all_ids_def)
qed

lemma average_loop_all:
  assumes "rl_wf rs" "\<forall>r \<in> set rs. raw_ok r"
  shows "average_loop 0 rs s n = Some (s + \<Sum>(list_ids rs), n + card (list_ids rs))"
  using assms
proof (induction rs arbitrary: s n)
  case (Cons r rs)
  have "ids r \<inter> list_ids rs = {}"
    using Cons.prems(1) rl_wf_later by blast
  then have "\<Sum>(ids r \<union> list_ids rs) = \<Sum>(ids r) + \<Sum>(list_ids rs)"
    "card (ids r \<union> list_ids rs) = card (ids r) + card (list_ids rs)"
    using finite_list_ids[of "[r]"] by (simp_all add: sum.union_disjoint card_Un_disjoint)
  then show ?case
    using Cons.IH Cons.prems ids_up_to_all[of r] by auto
qed simp

text \<open>Over a well-formed list the average is the mean of its ids.\<close>

theorem average_is_mean:
  assumes "rl_wf rs" "rs \<noteq> []" "\<forall>i \<in> list_ids rs. i < 2147483648"
  shows "range_list_get_average (Some rs) 0 =
    Some (of_nat (\<Sum>(list_ids rs)) / of_nat (card (list_ids rs)))"
proof -
  have "list_ids rs \<noteq> {}" using assms(1,2) min_in_ids by (cases rs) auto
  then have "0 < card (list_ids rs)" by (simp add: card_gt_0_iff)
  then show ?thesis
    using average_loop_all[OF assms(1), of 0 0] small_ids[OF assms(1,3)]
    by (simp add: range_list_get_average_def)
qed

section \<open>Tasks of jobs\<close>

lemma insert_task_numbers:
  assumes "rl_wf (elems l)" "\<forall>t \<in> set ts. JAT_task_number t < u32_limit"
  shows "\<exists>l'. fold_opt insert_task_number ts l = Some l' \<and> rl_wf (elems l') \<and>
    list_ids (elems l') = list_ids (elems l) \<union> JAT_task_number ` set ts"
  using assms
proof (induction ts arbitrary: l)
  case (Cons t ts)
  obtain l1 where l1: "range_list_insert_id l (JAT_task_number t) = Some (Some l1)" "rl_wf l1"
      "list_ids l1 = insert (JAT_task_number t) (list_ids (elems l))"
    using range_list_insert_id_correct[of l "JAT_task_number t"] Cons.prems by auto
  then show ?case
    using Cons.IH[of "Some l1"] Cons.prems by (auto simp: insert_task_number_def)
qed simp

lemma sorted_tasks:
  assumes "\<forall>r \<in> set rs. raw_ok r" "list_ids rs \<noteq> {}"
  shows "\<exists>rs'. range_list_sort_uniq_compress (Some rs) True = Some (Some rs') \<and> rl_wf rs' \<and>
    list_ids rs' = list_ids rs \<and> rs' \<noteq> []"
proof -
  obtain l' where l': "range_list_sort_uniq_compress (Some rs) True = Some l'" "rl_wf (elems l')"
    "list_ids (elems l') = list_ids rs"
    using range_list_sort_uniq_compress_correct[OF assms(1)] by blast
  with assms(2) show ?thesis by (cases l') auto
qed

lemma printed_tasks:
  assumes "ts \<noteq> []" "\<forall>t \<in> set ts. JAT_task_number t < 2147483648"
  shows "\<exists>rs. ja_task_list_print_to_string ts str = Some (range_list_print_to_string (Some rs) str False False False) \<and>
    rl_wf rs \<and> rs \<noteq> [] \<and> list_ids rs = JAT_task_number ` set ts"
proof -
  have "\<forall>t \<in> set ts. JAT_task_number t < u32_limit" using assms(2) by auto
  then obtain l where l: "fold_opt insert_task_number ts None = Some l" "rl_wf (elems l)"
      "list_ids (elems l) = JAT_task_number ` set ts"
    using insert_task_numbers[of None ts] by auto
  have ne: "list_ids (elems l) \<noteq> {}" using l(3) assms(1) by simp
  then obtain rs where rs: "l = Some rs" by (cases l) auto
  have "\<forall>r \<in> set rs. raw_ok r" using small_ids[of rs] l assms(2) by (auto simp: rs)
  then obtain rs' where "range_list_sort_uniq_compress (Some rs) True = Some (Some rs')" "rl_wf rs'"
      "list_ids rs' = list_ids rs" "rs' \<noteq> []"
    using sorted_tasks[of rs] ne by (auto simp: rs)
  then show ?thesis using l by (auto simp: ja_task_list_print_to_string_def rs)
qed

lemma decimal_is_job_number:
  assumes "exact_decimals strtod" "0 < j" "j < u32_limit"
  shows "no_job_number strtod (decimal j) = Some False"
proof -
  have "strtod (decimal j) = (Finite (of_nat j), [])"
    using assms by (simp add: exact_decimals_def)
  moreover have "\<not> 4294967296 \<le> (of_nat j :: rat)"
    using assms(3) of_nat_less_iff[of j 4294967296, where 'a = rat] by simp
  moreover have "\<not> (of_nat j :: rat) < 1" using assms(2) by simp
  ultimately show ?thesis by (simp add: no_job_number_def)
qed

lemma split_job_number:
  "split_at_dot (decimal j @ ''.'' @ s) = (decimal j, Some s)"
proof -
  have "\<forall>c \<in> set (decimal j). c \<noteq> CHR ''.''" using decimal_no_sign(2)[of j] by blast
  then show ?thesis by (simp add: split_at_dot_def takeWhile_append2 dropWhile_append2)
qed

lemma job_and_ranges:
  assumes "rl_wf rs" "rs \<noteq> []" "\<forall>i \<in> list_ids rs. i < 2147483648" "exact_decimals strtod"
    "0 < j" "j < u32_limit"
  shows "\<exists>s l. range_list_print_to_string (Some rs) (Some []) False False al = Some s \<and>
    rl_wf (elems l) \<and> list_ids (elems l) = list_ids rs \<and>
    sge_parse_jobtasks strtod ipp (decimal j @ ''.'' @ s) include_names None =
      Some (1, ipp @ [\<lparr>ID_str = decimal j, ID_ja_structure = l, ID_action = 0, ID_force = 0,
                       ID_user_list = None\<rparr>], [])"
proof -
  define ps where "ps = concat (map pieces rs)"
  have ps: "rl_wf ps" "list_ids ps = list_ids rs" using list_pieces[OF assms(1)] by (simp_all add: ps_def)
  obtain s where s: "range_list_print_to_string (Some rs) (Some []) False False al = Some s"
    "range_list_parse_from_string strtod None (Some s) False True False = Some (True, Some (rev ps), [])"
    using printed_list_is_read[of rs strtod al False] small_ids[OF assms(1,3)] assms(1,2,4)
    by (auto simp: ps_def)
  have raw: "\<forall>r \<in> set (rev ps). raw_ok r" using small_ids[OF ps(1)] ps(2) assms(3) by simp
  have "list_ids (rev ps) = list_ids ps" by (simp add: list_ids_def)
  moreover have "list_ids rs \<noteq> {}" using assms(1,2) min_in_ids by (cases rs) auto
  ultimately obtain rs' where rs': "range_list_sort_uniq_compress (Some (rev ps)) True = Some (Some rs')"
      "rl_wf rs'" "list_ids rs' = list_ids rs"
    using sorted_tasks[OF raw] ps by auto
  have "check_jobtasks strtod (decimal j @ ''.'' @ s) = Some (1, decimal j, Some (rev ps), [])"
    using split_job_number[of j s] decimal_is_job_number[OF assms(4-6)] s(2)
    by (simp add: check_jobtasks_def parse_tasks_def)
  with rs' s(1) show ?thesis
    by (intro exI[of _ s] exI[of _ "Some rs'"]) (simp add: sge_parse_jobtasks_def)
qed

section \<open>What is printed can be given to the commands\<close>

text \<open>
  C6. Round trip. The task ids printed by \<open>ja_task_list_print_to_string\<close> behind the number of a job and a
  dot are accepted by \<open>sge_parse_jobtasks\<close>, which adds one element for that job, whose ranges are
  well-formed and hold exactly the ids of the tasks; for task ids below \<open>2 ^ 31\<close>.
\<close>

theorem printed_tasks_are_parsed:
  assumes "ts \<noteq> []" "\<forall>t \<in> set ts. JAT_task_number t < 2147483648" "exact_decimals strtod"
    "0 < j" "j < u32_limit"
  shows "\<exists>s l. ja_task_list_print_to_string ts (Some []) = Some (Some s) \<and>
    rl_wf (elems l) \<and> list_ids (elems l) = JAT_task_number ` set ts \<and>
    sge_parse_jobtasks strtod ipp (decimal j @ ''.'' @ s) include_names None =
      Some (1, ipp @ [\<lparr>ID_str = decimal j, ID_ja_structure = l, ID_action = 0, ID_force = 0,
                       ID_user_list = None\<rparr>], [])"
proof -
  obtain rs where rs: "ja_task_list_print_to_string ts (Some []) =
      Some (range_list_print_to_string (Some rs) (Some []) False False False)"
    "rl_wf rs" "rs \<noteq> []" "list_ids rs = JAT_task_number ` set ts"
    using printed_tasks[OF assms(1,2), of "Some []"] by blast
  moreover have "\<forall>i \<in> list_ids rs. i < 2147483648" using rs(4) assms(2) by auto
  ultimately show ?thesis
    using job_and_ranges[of rs strtod j False ipp include_names] assms(3-5) by auto
qed

text \<open>The library function on integers, which reads decimal numbers as \<open>strtod\<close> does.\<close>

definition integer_strtod :: "string \<Rightarrow> c_double \<times> string" where
  "integer_strtod s = (let (v, r) = strtol s in (Finite (of_int v), r))"

lemma integer_strtod_exact: "exact_decimals integer_strtod"
  by (simp add: exact_decimals_def integer_strtod_def strtol_decimal_end)

definition task_numbered :: "u32 \<Rightarrow> ja_task" where
  "task_numbered n = \<lparr>JAT_task_number = n, JAT_status = 0, JAT_state = 0, JAT_hold = 0\<rparr>"

theorem printed_tasks_are_parsed_witness:
  "\<exists>s l. ja_task_list_print_to_string (map task_numbered [5, 2, 8, 9]) (Some []) = Some (Some s) \<and>
    rl_wf (elems l) \<and> list_ids (elems l) = {2, 5, 8, 9} \<and>
    sge_parse_jobtasks integer_strtod [] (decimal 12 @ ''.'' @ s) False None =
      Some (1, [\<lparr>ID_str = decimal 12, ID_ja_structure = l, ID_action = 0, ID_force = 0,
                 ID_user_list = None\<rparr>], [])"
proof -
  have "JAT_task_number ` set (map task_numbered [5, 2, 8, 9]) = {2, 5, 8, 9}"
    by (auto simp: task_numbered_def)
  then show ?thesis
    using printed_tasks_are_parsed[of "map task_numbered [5, 2, 8, 9]" integer_strtod 12 "[]" False]
      integer_strtod_exact by (simp add: task_numbered_def)
qed

section \<open>Errors\<close>

text \<open>
  C40. Between two numbers any character that is not a digit is taken for the minus sign of a range, whether a
  step is allowed or not: the test for the character is joined by \<open>||\<close> with a test of the one behind it.
  Of \<^verbatim>\<open>3.5\<close> or \<^verbatim>\<open>3x5\<close> the code makes the ids from 3 to 5.
\<close>

theorem any_separator_is_accepted:
  assumes "a < u32_limit" "b < u32_limit" "\<not> isdigit_char c"
  shows "range_parse_from_string strtod (decimal a @ c # decimal b) step_allowed inf_allowed =
    Some (Some \<lparr>RN_min = min a b, RN_max = max a b, RN_step = 1\<rparr>, [])"
  using not_undefined[of "decimal a @ c # decimal b"] strtol_decimal[of "c # decimal b" a]
    parse_upper_plain[OF assms(2), of strtod step_allowed] assms
  by (simp add: range_parse_from_string_def parsed_range_def starts_def min_def max_def)

theorem any_separator_is_accepted_witness:
  "range_parse_from_string integer_strtod (decimal 3 @ CHR ''x'' # decimal 5) True False =
     Some (Some \<lparr>RN_min = min 3 5, RN_max = max 3 5, RN_step = 1\<rparr>, [])"
  by (rule any_separator_is_accepted) (simp_all add: isdigit_char_def)

text \<open>
  A range that begins with a minus sign means the ids from 1 on. Where a step is allowed it is
  rejected, with a step and without: the test \<open>*dptr != '\0' || (step_allowed && *dptr != ':')\<close> holds at the end
  of the string and everywhere else.
\<close>

theorem leading_minus_needs_no_steps:
  assumes "0 < n" "n < u32_limit"
  shows "range_parse_from_string strtod (CHR ''-'' # decimal n) False inf_allowed =
      Some (Some \<lparr>RN_min = 1, RN_max = n, RN_step = 1\<rparr>, [])"
    and "no_digit s \<Longrightarrow> range_parse_from_string strtod (CHR ''-'' # decimal n @ s) True inf_allowed =
      Some (None, [UnknownTrailer])"
proof -
  show "range_parse_from_string strtod (CHR ''-'' # decimal n) False inf_allowed =
      Some (Some \<lparr>RN_min = 1, RN_max = n, RN_step = 1\<rparr>, [])"
    using strtol_decimal_end[of n] assms
    by (simp add: range_parse_from_string_def parsed_range_def starts_def)
  show "no_digit s \<Longrightarrow> range_parse_from_string strtod (CHR ''-'' # decimal n @ s) True inf_allowed =
      Some (None, [UnknownTrailer])"
    using strtol_decimal[of s n] assms
    by (simp add: range_parse_from_string_def starts_def)
qed

text \<open>
  An error in the first range is reported on the answer list alone: the parser of lists returns true and
  leaves the list as it was.
\<close>

theorem first_error_returns_true:
  assumes "token t" "range_parse_from_string strtod t step_allowed inf_allowed = Some (None, es)"
  shows "range_list_parse_from_string strtod l (Some t) just_parse step_allowed inf_allowed =
    Some (True, l, es)"
proof -
  have "sge_strtok_r (Some '','') t = Some (t, [])" using strtok_commas[OF assms(1), of "[]"] by simp
  then show ?thesis
    using assms(2) by (simp add: range_list_parse_from_string_def parse_loop.simps)
qed

end
