(* ===== verification/Spec2Isabelle.thy ===== *)
theory Spec2Isabelle
  imports Range_Facts Job_Facts Eval_Expr_Facts Qeti Bitfield Fifo_Facts Hash_Facts Pack_Facts
    Cull_Pack_Facts Cull_Pack_Ends Cull_Where_Facts Cull_What_Facts Cull_Db_Facts
    Calendar_Days Calendar_Parse
    Task_Queue_Facts Cull_Index Host_Cases Range_Text_Facts
begin

text \<open>
  Some Grid Engine is a batch system: a master daemon keeps jobs, queues and hosts as objects of
  a list library (CULL), a scheduler thread assigns waiting jobs to queues, execution daemons run
  them. This development models the parts of its libraries that hold logic of their own, in the
  order the system is built from them.

  \<^bold>\<open>Ground.\<close> \<open>Prelude\<close> has 32-bit unsigned arithmetic on \<open>nat\<close> with the wrap-around
  written out, folds in the option monad, and the collections of simplification facts. A result of
  type \<open>'a option\<close> is the outcome of running C code that may fail to return. Null pointers are
  \<open>None\<close>; CULL lists are HOL lists of records, a list that was never created is \<open>None\<close>.

  \<^bold>\<open>Utilities\<close> (\<^verbatim>\<open>source/libs/uti\<close>).
  \<open>Bitfield\<close> models \<^verbatim>\<open>sge_bitfield.c\<close>: a field refines a set of bits; copies onto longer and
  onto shorter fields. \<open>Hash_Table\<close> and \<open>Hash_Facts\<close> model \<^verbatim>\<open>sge_htable.c\<close>: a table refines
  a map for every hash function, through growing and shrinking, if the compare function tells keys
  apart; the locale \<open>hash_key\<close> states that contract, and it is interpreted on the functions for
  strings, 32-bit numbers and pointers. The functions for 64-bit numbers break it.
  \<open>Fifo_Lock\<close> and \<open>Fifo_Facts\<close> model \<^verbatim>\<open>sge_lock_fifo.c\<close>, the lock of the global object
  lists: its functions are cut at their condition waits, a step relation interleaves them, and a
  simulation relates the ring of waiting threads to one queue; from it follow mutual exclusion,
  first-in first-out order and that no wake-up is lost among the queued requests. Requests that
  find the ring full wait outside it; the source says that they may wait forever, and no theorem
  speaks for them. \<open>Simple_List\<close>, with \<open>Simple_List_Facts\<close> and \<open>Simple_List_Spec\<close>, models the
  doubly linked lists of \<^verbatim>\<open>sge_sl.c\<close> in a memory of addresses, where a loop over a chain that goes round has no
  result; a list refines a sequence, and no operation touches other lists. \<open>Task_Queue\<close> and \<open>Task_Queue_Facts\<close>
  model the queues between threads of \<^verbatim>\<open>sge_tq.c\<close> on top of them, as a step relation with waiting, waking and
  time-outs. \<open>Hostname\<close> models the comparison of host names of \<^verbatim>\<open>sge_hostname.c\<close>.

  \<^bold>\<open>Lists\<close> (\<^verbatim>\<open>source/libs/cull\<close>).
  \<open>Pack\<close> and \<open>Pack_Facts\<close> model \<^verbatim>\<open>pack.c\<close>, the binary format of the network and of spool
  files: the memory of a buffer is a list of bytes, and an access outside it has no result. The
  locale \<open>codec\<close> is the contract of a packing and an unpacking function, with its laws for single
  values carried over to sequences; it is interpreted on every pair of the module. Buffers stay below
  \<open>2 ^ 31\<close> bytes, so that the sizes compared as 32-bit numbers do not wrap around.
  \<open>Cull\<close> has the lists themselves (\<^verbatim>\<open>cull_list.c\<close>, \<^verbatim>\<open>cull_multitype.c\<close>): values tagged with
  their type, elements with a descriptor (without its end mark), lists of elements, without the hash
  tables that index a list. \<open>Cull_Hash\<close>, with \<open>Cull_Hash_Facts\<close> and \<open>Cull_Index\<close>, adds those from
  \<^verbatim>\<open>cull_hash.c\<close> on top of \<open>Hash_Table\<close>: unique and other indexes, kept through appending, removing and
  changing elements; a search by an index finds what a search from the front finds, chains are
  freed with their last element, and the exception is a unique index over duplicates. \<open>Cull_Pack\<close>, with \<open>Cull_Pack_Facts\<close> and \<open>Cull_Pack_Ends\<close>, models
  \<^verbatim>\<open>cull_pack.c\<close>: what a nested list becomes in a buffer and back, where unpacking trusts its input, and that it
  ends (the fuel is the number of bytes left, for each level of lists takes bytes). \<open>Cull_Where\<close>
  models the conditions of \<^verbatim>\<open>cull_where.c\<close> with the searches that use them, \<open>Cull_What\<close> the
  enumerations of fields of \<^verbatim>\<open>cull_what.c\<close>; both are packed as well. \<open>Cull_Db\<close> puts them together:
  the selection of rows and columns of a list into a buffer, \<^verbatim>\<open>cull_db.c\<close>, with which the master
  answers its clients, and the copying of lists. The predicates \<open>packs\<close> and \<open>reads\<close> of \<open>Cull_Pack_Facts\<close>, the bytes that a
  step writes and reads, carry all the round trips.

  \<^bold>\<open>Objects\<close> (\<^verbatim>\<open>source/libs/sgeobj\<close>).
  \<open>Ranges\<close> and \<open>Range_Facts\<close> model \<^verbatim>\<open>sge_range.c\<close>, the id lists of array jobs: each operation
  computes the set of ids it should, and keeps the ranges ordered, disjoint and correctly ended.
  Ids stay below \<open>2 ^ 32\<close>; where a loop would wrap around and not end, the result is \<open>None\<close>, and
  the properties show when it is not. \<open>Range_Text\<close> models printing and parsing of ranges, \<open>Task_Text\<close> the
  printing of tasks and the parsing of \<^verbatim>\<open>job.tasks\<close> of \<^verbatim>\<open>sge_ja_task.c\<close>; \<open>Range_Text_Facts\<close> shows that ids
  below \<open>2 ^ 31\<close> that are printed are parsed again, for a \<open>strtod\<close> that reads decimal numbers exactly.
  \<open>Job_Ids\<close> and \<open>Job_Facts\<close> model the part of
  \<^verbatim>\<open>sge_job.c\<close> that keeps the tasks of a job: seven id lists and the enrolled tasks, with the
  invariant that the lists of pending tasks and the enrolled tasks are disjoint. The interface between
  the two, a set of ids, is the locale \<open>id_set\<close> of \<open>Id_Set\<close>, interpreted on range lists and on
  bit fields. \<open>Eval_Expr\<close> and \<open>Eval_Expr_Facts\<close> model \<^verbatim>\<open>sge_eval_expression.c\<close>: the
  recursive descent evaluator of expressions over complex values, with fuel that is shown to be
  enough, against an inductive grammar (sound, complete and unambiguous in its value).
  \<open>Calendar\<close> and \<open>Calendar_State\<close> model \<^verbatim>\<open>sge_calendar.c\<close>, the calendars that disable and suspend queues:
  the parser, and the state of a queue at a time with the time of the next change. The clock of the
  system is a parameter; \<open>lawful_clock\<close> is what is relied on of it. \<open>Calendar_Facts\<close> takes lists of ranges as sets
  of times (locale \<open>time_order\<close>, interpreted on the three compare functions), \<open>Calendar_Days\<close> does so for
  days of the week, \<open>Calendar_Times\<close> has the state by whole days and shows that the computation for a week
  ends with a fuel of 2, \<open>Calendar_Parse\<close> that all that the parser accepts is well-formed. A run of
  the parser that overflows a number or its buffer of 1000 characters has no result.
  Host groups come in layers. \<open>Object_Names\<close> models the rules for names of objects (\<^verbatim>\<open>sge_str.c\<close>, \<^verbatim>\<open>sge_object.c\<close>,
  \<^verbatim>\<open>sge_hgroup.c\<close>). \<open>Host_List\<close> has lists keyed by a host name with a unique index; \<open>Host_List_Facts\<close>
  shows that they are maps from the name as it is hashed. \<open>Host_Groups\<close> models \<^verbatim>\<open>sge_href.c\<close> and the walks over the groups of
  \<^verbatim>\<open>sge_hgroup.c\<close>; their recursion goes through the master list, which may have cycles, so they are partial
  functions. \<open>Host_References\<close> shows when they end and that they find the groups reachable by references;
  \<open>Host_Groups_Facts\<close> has what single operations keep. \<open>Host_Admin\<close> is the master's side, \<^verbatim>\<open>sge_hgroup_qmaster.c\<close> with
  the change requests of \<^verbatim>\<open>sge_c_gdi.c\<close> that reach it: adding, changing and deleting a group with the tests for unknown
  groups and for cycles. The resolver of host names, the users of a group (\<open>queues\<close>, \<open>unused\<close>) and the
  writing of the object (\<open>writer\<close>) are parameters. \<open>Host_Requests\<close> takes sequences of requests: each is answered, and the groups
  stay closed and free of cycles. \<open>Host_Cases\<close> runs the code on given groups: witnesses, and what duplicates in a
  request do.

  \<^bold>\<open>Scheduler\<close> (\<^verbatim>\<open>source/libs/sched\<close>).
  \<open>Utilization\<close> and \<open>Utilization_Facts\<close> model \<^verbatim>\<open>sge_resource_utilization.c\<close>: the diagram of a
  resource is a list of times and amounts that stands for a function of time, \<open>util_at\<close>; adding a
  job changes the function on an interval, and a booking that respects the maximum never exceeds
  the total (locale \<open>capacity\<close>, interpreted on the diagrams). Amounts are C doubles; the model takes
  them from any ordered group, so it has no rounding. \<open>Qeti\<close> models the iterator of
  \<^verbatim>\<open>sge_qeti.c\<close> over the times of many diagrams.

  \<^bold>\<open>Not modelled.\<close> Freeing memory, logging, messages to users and input and output; the parsers
  and printers of most objects; what a changed host group does to cluster queues and execution hosts, with
  the order of the master list while they are changed, the events and the spool files; the walk of
  the scheduler over jobs, queues and hosts; the communication library; the daemons and clients.
\<close>

end
